(* ===== verification/GoPrelude.thy ===== *)
theory GoPrelude
  imports Complex_Main "HOL-Library.Word" "HOL-Library.Multiset"
    "HOL-Library.List_Lexorder" "HOL-Library.Char_ord"
begin

text \<open>
  What the components share: Go's 64-bit signed integers as \<open>int\<close> with the wrap-around
  written out, truncating division, unsigned counters as words, \<open>time.Time\<close> and
  \<open>time.Duration\<close> in nanoseconds, Go maps as association lists with distinct keys, and the
  generic list lemmas the component proofs use. Strings are byte lists under the
  lexicographic order, as Go compares them.
\<close>

named_theorems go_simps \<open>arithmetic of Go's fixed-width integers\<close>
named_theorems gomap_simps \<open>lookups and key sets of Go maps\<close>

subsection \<open>Machine integers\<close>

type_synonym u64 = "64 word"
type_synonym u32 = "32 word"

definition i64 :: "int \<Rightarrow> int" where
  "i64 x = (x + 2 ^ 63) mod 2 ^ 64 - 2 ^ 63"

definition in_i64 :: "int \<Rightarrow> bool" where
  "in_i64 x \<longleftrightarrow> - (2 ^ 63) \<le> x \<and> x < 2 ^ 63"

definition go_div :: "int \<Rightarrow> int \<Rightarrow> int" where
  "go_div a b = sgn a * sgn b * (\<bar>a\<bar> div \<bar>b\<bar>)"

definition go_mod :: "int \<Rightarrow> int \<Rightarrow> int" where
  "go_mod a b = a - b * go_div a b"

lemma in_i64_i64 [simp]: "in_i64 (i64 x)"
proof -
  have "0 \<le> (x + 2 ^ 63) mod 2 ^ 64" "(x + 2 ^ 63) mod 2 ^ 64 < (2 ^ 64 :: int)"
    by simp_all
  then show ?thesis by (simp add: in_i64_def i64_def)
qed

lemma i64_id [go_simps]: "in_i64 x \<Longrightarrow> i64 x = x"
  by (simp add: in_i64_def i64_def)

lemma i64_small [go_simps]: "0 \<le> x \<Longrightarrow> x < 2 ^ 63 \<Longrightarrow> i64 x = x"
  by (rule i64_id) (simp add: in_i64_def)

lemma go_div_pos [go_simps]: "0 \<le> a \<Longrightarrow> 0 < b \<Longrightarrow> go_div a b = a div b"
  by (cases "a = 0") (simp_all add: go_div_def)

lemma go_mod_pos [go_simps]: "0 \<le> a \<Longrightarrow> 0 < b \<Longrightarrow> go_mod a b = a mod b"
  by (simp add: go_mod_def go_div_pos minus_mult_div_eq_mod)

lemma go_mod_bounds: "0 \<le> a \<Longrightarrow> 0 < b \<Longrightarrow> 0 \<le> go_mod a b \<and> go_mod a b < b"
  by (simp add: go_mod_pos)

lemma u64_of_nat_zero [go_simps]: "n < 2 ^ 64 \<Longrightarrow> (of_nat n :: u64) = 0 \<longleftrightarrow> n = 0"
  by (auto simp: word_of_nat_eq_0_iff dest: nat_dvd_not_less[rotated])

subsection \<open>Time\<close>

text \<open>
  A \<open>time.Time\<close> is its distance from the Unix epoch in nanoseconds; Go's zero time is the
  first instant of year 1. A \<open>time.Duration\<close> is an \<open>int64\<close> count of nanoseconds.
\<close>

type_synonym go_time = int
type_synonym duration = int

definition zero_time :: go_time where
  "zero_time = - 62135596800000000000"

definition is_zero_time :: "go_time \<Rightarrow> bool" where
  "is_zero_time t \<longleftrightarrow> t = zero_time"

definition unix_nano :: "go_time \<Rightarrow> int" where
  "unix_nano t = i64 t"

abbreviation (input) time_Millisecond :: duration where "time_Millisecond \<equiv> 1000000"
abbreviation (input) time_Second :: duration where "time_Second \<equiv> 1000000000"
abbreviation (input) time_Hour :: duration where "time_Hour \<equiv> 3600000000000"

text \<open>\<open>Time.Sub\<close> saturates at the bounds of \<open>int64\<close>.\<close>

definition time_Sub :: "go_time \<Rightarrow> go_time \<Rightarrow> duration" where
  "time_Sub t u = (if t - u < - (2 ^ 63) then - (2 ^ 63) else if 2 ^ 63 \<le> t - u then 2 ^ 63 - 1 else t - u)"

lemma time_Sub_near [go_simps]: "- (2 ^ 63) \<le> t - u \<Longrightarrow> t - u < 2 ^ 63 \<Longrightarrow> time_Sub t u = t - u"
  by (simp add: time_Sub_def)

lemma time_Sub_ge: "d < 2 ^ 63 \<Longrightarrow> d \<le> t - u \<Longrightarrow> d \<le> time_Sub t u"
  by (simp add: time_Sub_def)

text \<open>\<open>Time.Truncate\<close> rounds down to a multiple of the duration since the zero time.\<close>

definition time_truncate :: "go_time \<Rightarrow> duration \<Rightarrow> go_time" where
  "time_truncate t d = (if d \<le> 0 then t else t - (t - zero_time) mod d)"

lemma time_truncate_le: "time_truncate t d \<le> t"
  by (simp add: time_truncate_def)

lemma time_truncate_gt: "0 < d \<Longrightarrow> t - d < time_truncate t d"
  by (simp add: time_truncate_def)

subsection \<open>Go maps\<close>

text \<open>
  A Go map is an association list with distinct keys. \<open>map_of\<close> is the lookup, \<open>gput\<close> the
  assignment \<open>m[k] = v\<close>, \<open>gdel\<close> the built-in \<open>delete\<close>. Go leaves the order of \<open>range\<close>
  unspecified: a definition whose result shows that order takes it as an argument.
\<close>

type_synonym ('k, 'v) gomap = "('k \<times> 'v) list"

fun gput :: "'k \<Rightarrow> 'v \<Rightarrow> ('k, 'v) gomap \<Rightarrow> ('k, 'v) gomap" where
  "gput k v [] = [(k, v)]"
| "gput k v ((k', v') # m) = (if k' = k then (k, v) # m else (k', v') # gput k v m)"

fun gdel :: "'k \<Rightarrow> ('k, 'v) gomap \<Rightarrow> ('k, 'v) gomap" where
  "gdel k [] = []"
| "gdel k ((k', v') # m) = (if k' = k then m else (k', v') # gdel k m)"

definition gokeys :: "('k, 'v) gomap \<Rightarrow> 'k set" where
  "gokeys m = fst ` set m"

definition gowf :: "('k, 'v) gomap \<Rightarrow> bool" where
  "gowf m \<longleftrightarrow> distinct (map fst m)"

lemma map_of_gput [gomap_simps, simp]: "map_of (gput k v m) = (map_of m)(k \<mapsto> v)"
  by (induction m) auto

lemma gokeys_map_of: "gokeys m = dom (map_of m)"
  by (simp add: gokeys_def dom_map_of_conv_image_fst)

lemma gokeys_gput [gomap_simps]: "gokeys (gput k v m) = insert k (gokeys m)"
  by (simp add: gokeys_map_of)

lemma keys_gput: "map fst (gput k v m) = (if k \<in> gokeys m then map fst m else map fst m @ [k])"
proof (induction m)
  case (Cons p m)
  have "gokeys (p # m) = insert (fst p) (gokeys m)"
    by (simp add: gokeys_def)
  with Cons show ?case by (cases p) auto
qed (simp add: gokeys_def)

lemma gokeys_Nil [simp]: "gokeys [] = {}"
  by (simp add: gokeys_def)

lemma gowf_Nil [simp]: "gowf []"
  by (simp add: gowf_def)

lemma gowf_gput [simp, intro]: "gowf m \<Longrightarrow> gowf (gput k v m)"
  by (auto simp: gowf_def keys_gput gokeys_def)

lemma set_gput_subset: "set (gput k v m) \<subseteq> insert (k, v) (set m)"
proof (induction m)
  case (Cons p m)
  then show ?case by (cases p) auto
qed simp

lemma length_gput: "length (gput k v m) = (if k \<in> gokeys m then length m else Suc (length m))"
proof -
  have "length (gput k v m) = length (map fst (gput k v m))" by simp
  then show ?thesis by (simp only: keys_gput length_map) simp
qed

lemma set_gdel: "gowf m \<Longrightarrow> set (gdel k m) = {p \<in> set m. fst p \<noteq> k}"
  by (induction m) (force simp: gowf_def split: if_splits)+

lemma keys_gdel: "gowf m \<Longrightarrow> gokeys (gdel k m) = gokeys m - {k}"
  by (auto simp: gokeys_def set_gdel)

lemma gowf_gdel [simp, intro]: "gowf m \<Longrightarrow> gowf (gdel k m)"
  by (induction m) (auto simp: gowf_def set_gdel[unfolded gowf_def] image_iff)

lemma map_of_gdel [gomap_simps]: "gowf m \<Longrightarrow> map_of (gdel k m) = (map_of m)(k := None)"
proof (induction m)
  case (Cons p m)
  then have "map_of m (fst p) = None" and "gowf m"
    by (simp_all add: gowf_def map_of_eq_None_iff)
  with Cons show ?case by (cases p) (auto simp: fun_eq_iff)
qed simp

lemma card_gokeys: "gowf m \<Longrightarrow> card (gokeys m) = length m"
  by (metis distinct_card gokeys_def gowf_def length_map set_map)

lemma gput_same: "map_of m k = Some v \<Longrightarrow> gput k v m = m"
  by (induction m) (auto split: if_splits)

lemma gput_gput [simp]: "gput k v (gput k w m) = gput k v m"
  by (induction m) auto

lemma mset_gput: "gowf m \<Longrightarrow> map_of m k = Some w \<Longrightarrow>
  mset (gput k v m) = mset m - {#(k, w)#} + {#(k, v)#}"
proof (induction m)
  case Nil then show ?case by simp
next
  case (Cons p m)
  obtain a b where p: "p = (a, b)" by force
  show ?case
  proof (cases "a = k")
    case True then show ?thesis using Cons p by simp
  next
    case False
    then have "(k, w) \<in># mset m" using Cons.prems p by (simp add: map_of_SomeD)
    then show ?thesis using Cons p False by (simp add: gowf_def)
  qed
qed

lemma mset_gput_new: "map_of m k = None \<Longrightarrow> mset (gput k v m) = add_mset (k, v) (mset m)"
  by (induction m) (auto split: if_splits)

subsection \<open>Sorting with a comparison function\<close>

text \<open>
  \<open>sort.SliceStable\<close> and \<open>sort.Slice\<close> with their \<open>less\<close> function, as a stable insertion
  sort. \<open>sort.Slice\<close> leaves the order of equal elements open; no property depends on it.
\<close>

fun ins_by :: "('a \<Rightarrow> 'a \<Rightarrow> bool) \<Rightarrow> 'a \<Rightarrow> 'a list \<Rightarrow> 'a list" where
  "ins_by lt x [] = [x]"
| "ins_by lt x (y # ys) = (if lt y x then y # ins_by lt x ys else x # y # ys)"

definition sort_by :: "('a \<Rightarrow> 'a \<Rightarrow> bool) \<Rightarrow> 'a list \<Rightarrow> 'a list" where
  "sort_by lt xs = foldr (ins_by lt) xs []"

lemma mset_ins_by [simp]: "mset (ins_by lt x ys) = add_mset x (mset ys)"
  by (induction ys) auto

lemma mset_sort_by [simp]: "mset (sort_by lt xs) = mset xs"
  by (induction xs) (auto simp: sort_by_def)

lemma set_sort_by [simp]: "set (sort_by lt xs) = set xs"
  by (metis mset_sort_by set_mset_mset)

lemma length_sort_by [simp]: "length (sort_by lt xs) = length xs"
  by (metis mset_sort_by size_mset)

lemma distinct_sort_by [simp]: "distinct (sort_by lt xs) = distinct xs"
  by (rule mset_eq_imp_distinct_iff) simp

text \<open>The comparison functions of the program are strict weak orders: irreflexive,
  transitive, with a transitive complement.\<close>

locale go_less =
  fixes lt :: "'a \<Rightarrow> 'a \<Rightarrow> bool"
  assumes less_asym: "lt x y \<Longrightarrow> \<not> lt y x"
    and not_less_trans: "\<not> lt y x \<Longrightarrow> \<not> lt z y \<Longrightarrow> \<not> lt z x"
begin

lemma sorted_ins_by:
  "sorted_wrt (\<lambda>x y. \<not> lt y x) ys \<Longrightarrow> sorted_wrt (\<lambda>x y. \<not> lt y x) (ins_by lt x ys)"
proof (induction ys)
  case (Cons y ys)
  have set: "set (ins_by lt x ys) = insert x (set ys)"
    by (metis mset_ins_by set_mset_add_mset_insert set_mset_mset)
  show ?case
  proof (cases "lt y x")
    case True
    with Cons show ?thesis by (auto simp: set less_asym)
  next
    case False
    with Cons.prems show ?thesis by (auto dest: not_less_trans)
  qed
qed simp

lemma sorted_sort_by: "sorted_wrt (\<lambda>x y. \<not> lt y x) (sort_by lt xs)"
  by (induction xs) (auto simp: sort_by_def intro: sorted_ins_by)

lemma sort_by_hd: "sort_by lt xs = x # ys \<Longrightarrow> y \<in> set ys \<Longrightarrow> \<not> lt y x"
  using sorted_sort_by[of xs] by simp

end

subsection \<open>Generic list lemmas\<close>

lemma sum_list_map_update:
  fixes f :: "'b \<Rightarrow> 'a :: ab_group_add"
  shows "i < length xs \<Longrightarrow> sum_list (map f (xs[i := y])) = sum_list (map f xs) + f y - f (xs ! i)"
proof (induction xs arbitrary: i)
  case (Cons x xs)
  then show ?case by (cases i) (auto simp: algebra_simps)
qed simp

lemma sum_list_nonneg_map: "(\<And>x. x \<in> set xs \<Longrightarrow> 0 \<le> f x) \<Longrightarrow> 0 \<le> sum_list (map f xs :: int list)"
  by (induction xs) auto

lemma sum_list_ge_member: "(\<And>y. y \<in> set xs \<Longrightarrow> 0 \<le> (y :: int)) \<Longrightarrow> x \<in> set xs \<Longrightarrow> x \<le> sum_list xs"
  by (induction xs) (auto simp: add_increasing sum_list_nonneg)

lemma fold_append_acc: "fold (\<lambda>x acc. acc @ [f x]) xs acc = acc @ map f xs"
  by (induction xs arbitrary: acc) auto

lemma foldl_invariant:
  assumes "P a" and "\<And>a x. P a \<Longrightarrow> x \<in> set xs \<Longrightarrow> P (f a x)"
  shows "P (foldl f a xs)"
  using assms by (induction xs arbitrary: a) auto

lemma mset_eq_sum_list_map:
  "mset xs = mset ys \<Longrightarrow> sum_list (map f xs) = (sum_list (map f ys) :: 'a :: comm_monoid_add)"
  by (metis mset_map sum_mset_sum_list)

subsection \<open>Bounded logs\<close>

text \<open>
  What the ring of finalised buckets and a run's event list promise: the newest entries, oldest
  first, up to a capacity. The client lemma gives the contents after any sequence of pushes.
\<close>

definition last_n :: "nat \<Rightarrow> 'a list \<Rightarrow> 'a list" where
  "last_n n xs = drop (length xs - n) xs"

lemma length_last_n [simp]: "length (last_n n xs) = min n (length xs)"
  by (simp add: last_n_def)

lemma last_n_all [simp]: "length xs \<le> n \<Longrightarrow> last_n n xs = xs"
  by (simp add: last_n_def)

lemma last_n_append: "last_n n (last_n n xs @ ys) = last_n n (xs @ ys)"
proof (cases "length xs \<le> n")
  case False
  have "last_n n xs @ ys = drop (length xs - n) (xs @ ys)" by (simp add: last_n_def)
  moreover have "length ys + (length xs - n) = length (xs @ ys) - n" using False by simp
  ultimately show ?thesis using False by (simp add: last_n_def)
qed simp

lemma last_n_snoc: "length xs = n \<Longrightarrow> 0 < n \<Longrightarrow> last_n n (xs @ [x]) = tl xs @ [x]"
  by (cases xs) (auto simp: last_n_def)

locale bounded_log =
  fixes inv :: "'s \<Rightarrow> bool" and push :: "'s \<Rightarrow> 'x \<Rightarrow> 's" and contents :: "'s \<Rightarrow> 'y list"
    and view :: "'x \<Rightarrow> 'y" and cap :: "'s \<Rightarrow> nat"
  assumes inv_push: "inv s \<Longrightarrow> inv (push s x)"
    and cap_push: "inv s \<Longrightarrow> cap (push s x) = cap s"
    and contents_push: "inv s \<Longrightarrow> contents (push s x) = last_n (cap s) (contents s @ [view x])"
    and contents_fit: "inv s \<Longrightarrow> length (contents s) \<le> cap s"
begin

lemma pushes:
  "inv s \<Longrightarrow> inv (foldl push s xs) \<and> cap (foldl push s xs) = cap s \<and>
     contents (foldl push s xs) = last_n (cap s) (contents s @ map view xs)"
proof (induction xs arbitrary: s)
  case Nil then show ?case by (simp add: contents_fit)
next
  case (Cons x xs)
  then show ?case
    using last_n_append[of "cap s" "contents s @ [view x]" "map view xs"]
    by (simp add: inv_push cap_push contents_push)
qed

end

end
