(* ===== verification/Float64.thy ===== *)
theory Float64
  imports GoPrelude
begin

text \<open>
  Go's \<open>float64\<close>: IEEE 754 binary64 with round-to-nearest, ties to even. A finite value is
  the rational it denotes (the two zeros are one value). Rounding is executable, monotone,
  and exact on the integers up to \<open>2\<^sup>5\<^sup>3\<close>; the locale \<open>rounding\<close> states what its clients rely
  on, and is interpreted on the binary64 rounding. Conversions of a float to an integer
  outside the target's range are implementation-defined in Go, so they are a parameter.
\<close>

subsection \<open>Rounding\<close>

fun nlog2 :: "nat \<Rightarrow> nat" where
  "nlog2 n = (if n < 2 then 0 else Suc (nlog2 (n div 2)))"

declare nlog2.simps [simp del]

definition ilog2 :: "rat \<Rightarrow> int" where
  "ilog2 x =
     (let (p, q) = quotient_of x; k = int (nlog2 (nat p)) - int (nlog2 (nat q))
      in if 2 powi k \<le> x then k else k - 1)"

definition round_half_even :: "rat \<Rightarrow> int" where
  "round_half_even x =
     (let f = \<lfloor>x\<rfloor>; d = x - of_int f in
      if d < 1 / 2 then f else if d > 1 / 2 then f + 1 else if even f then f else f + 1)"

definition binade :: "rat \<Rightarrow> int" where
  "binade x = max (ilog2 x) (- 1022)"

definition ulp :: "rat \<Rightarrow> rat" where
  "ulp x = 2 powi (binade x - 52)"

definition rnd_pos :: "rat \<Rightarrow> rat" where
  "rnd_pos x = of_int (round_half_even (x / ulp x)) * ulp x"

definition rnd64 :: "rat \<Rightarrow> rat" where
  "rnd64 x = (if x = 0 then 0 else if x > 0 then rnd_pos x else - rnd_pos (- x))"

subsection \<open>Values and operations\<close>

datatype float64 = NaN | PInf | NInf | Fin rat

definition fl :: "rat \<Rightarrow> float64" where
  "fl x = (let r = rnd64 x in
     if r \<ge> 2 ^ 1024 then PInf else if r \<le> - (2 ^ 1024) then NInf else Fin r)"

definition f_of_int :: "int \<Rightarrow> float64" where
  "f_of_int n = fl (of_int n)"

fun f_neg :: "float64 \<Rightarrow> float64" where
  "f_neg NaN = NaN"
| "f_neg PInf = NInf"
| "f_neg NInf = PInf"
| "f_neg (Fin x) = Fin (- x)"

fun f_add :: "float64 \<Rightarrow> float64 \<Rightarrow> float64" where
  "f_add (Fin x) (Fin y) = fl (x + y)"
| "f_add NaN _ = NaN"
| "f_add _ NaN = NaN"
| "f_add PInf NInf = NaN"
| "f_add NInf PInf = NaN"
| "f_add PInf _ = PInf"
| "f_add _ PInf = PInf"
| "f_add NInf _ = NInf"
| "f_add _ NInf = NInf"

definition f_inf :: "bool \<Rightarrow> float64" where
  "f_inf pos = (if pos then PInf else NInf)"

fun f_mul :: "float64 \<Rightarrow> float64 \<Rightarrow> float64" where
  "f_mul (Fin x) (Fin y) = fl (x * y)"
| "f_mul NaN _ = NaN"
| "f_mul _ NaN = NaN"
| "f_mul (Fin x) PInf = (if x = 0 then NaN else f_inf (x > 0))"
| "f_mul (Fin x) NInf = (if x = 0 then NaN else f_inf (x < 0))"
| "f_mul PInf (Fin y) = (if y = 0 then NaN else f_inf (y > 0))"
| "f_mul NInf (Fin y) = (if y = 0 then NaN else f_inf (y < 0))"
| "f_mul PInf PInf = PInf"
| "f_mul NInf NInf = PInf"
| "f_mul _ _ = NInf"

fun f_div :: "float64 \<Rightarrow> float64 \<Rightarrow> float64" where
  "f_div (Fin x) (Fin y) =
     (if y \<noteq> 0 then fl (x / y) else if x = 0 then NaN else f_inf (x > 0))"
| "f_div NaN _ = NaN"
| "f_div _ NaN = NaN"
| "f_div (Fin x) _ = Fin 0"
| "f_div PInf (Fin y) = f_inf (y \<ge> 0)"
| "f_div NInf (Fin y) = f_inf (y < 0)"
| "f_div _ _ = NaN"

text \<open>A fused multiply-add \<open>a * b + c\<close> rounds once; Go permits a compiler to use it.\<close>

fun f_fma :: "float64 \<Rightarrow> float64 \<Rightarrow> float64 \<Rightarrow> float64" where
  "f_fma (Fin a) (Fin b) (Fin c) = fl (a * b + c)"
| "f_fma a b c = f_add (f_mul a b) c"

definition f_muladd :: "bool \<Rightarrow> float64 \<Rightarrow> float64 \<Rightarrow> float64 \<Rightarrow> float64" where
  "f_muladd fused a b c = (if fused then f_fma a b c else f_add c (f_mul a b))"

fun f_lt :: "float64 \<Rightarrow> float64 \<Rightarrow> bool" where
  "f_lt (Fin x) (Fin y) = (x < y)"
| "f_lt NInf (Fin y) = True"
| "f_lt NInf PInf = True"
| "f_lt (Fin x) PInf = True"
| "f_lt _ _ = False"

definition f_eq :: "float64 \<Rightarrow> float64 \<Rightarrow> bool" where
  "f_eq x y \<longleftrightarrow> x \<noteq> NaN \<and> x = y"

definition f_le :: "float64 \<Rightarrow> float64 \<Rightarrow> bool" where
  "f_le x y \<longleftrightarrow> f_lt x y \<or> f_eq x y"

definition round_away :: "rat \<Rightarrow> int" where
  "round_away x = (if x < 0 then - \<lfloor>- x + 1 / 2\<rfloor> else \<lfloor>x + 1 / 2\<rfloor>)"

fun math_Round :: "float64 \<Rightarrow> float64" where
  "math_Round (Fin x) = Fin (of_int (round_away x))"
| "math_Round x = x"

definition rat_trunc :: "rat \<Rightarrow> int" where
  "rat_trunc x = (if x < 0 then \<lceil>x\<rceil> else \<lfloor>x\<rfloor>)"

fun to_int64 :: "(float64 \<Rightarrow> int) \<Rightarrow> float64 \<Rightarrow> int" where
  "to_int64 oob (Fin x) = (if in_i64 (rat_trunc x) then rat_trunc x else i64 (oob (Fin x)))"
| "to_int64 oob x = i64 (oob x)"

subsection \<open>Properties of the rounding\<close>

lemma nlog2_bounds: "0 < n \<Longrightarrow> 2 ^ nlog2 n \<le> n \<and> n < 2 ^ Suc (nlog2 n)"
proof (induction n rule: nlog2.induct)
  case (1 n)
  show ?case
  proof (cases "n < 2")
    case True
    with "1.prems" show ?thesis by (simp add: nlog2.simps)
  next
    case False
    with "1.IH" have "2 ^ nlog2 (n div 2) \<le> n div 2 \<and> n div 2 < 2 ^ Suc (nlog2 (n div 2))"
      by simp
    then have "2 * 2 ^ nlog2 (n div 2) \<le> n" "n < 2 * 2 ^ Suc (nlog2 (n div 2))" by auto
    with False show ?thesis by (simp add: nlog2.simps[of n])
  qed
qed

lemma powi_split: "(2 :: rat) powi (int a - int b) = 2 ^ a / 2 ^ b"
  by (simp add: power_int_diff)

lemma ilog2_bounds:
  assumes "0 < x"
  shows "2 powi (ilog2 x) \<le> x \<and> x < 2 powi (ilog2 x + 1)"
proof -
  obtain p q where pq: "quotient_of x = (p, q)" by force
  have q: "0 < q" and x: "x = of_int p / of_int q"
    using pq quotient_of_denom_pos quotient_of_div by blast+
  then have p: "0 < p" using assms by (simp add: zero_less_divide_iff)
  let ?a = "nlog2 (nat p)" and ?b = "nlog2 (nat q)"
  have "0 < nat p" "0 < nat q" using p q by simp_all
  then have "2 ^ ?a \<le> nat p" "nat p < 2 ^ Suc ?a" "2 ^ ?b \<le> nat q" "nat q < 2 ^ Suc ?b"
    using nlog2_bounds by blast+
  then have "of_nat (2 ^ ?a) \<le> (of_nat (nat p) :: rat)" "of_nat (nat p) < (of_nat (2 ^ Suc ?a) :: rat)"
    "of_nat (2 ^ ?b) \<le> (of_nat (nat q) :: rat)" "of_nat (nat q) < (of_nat (2 ^ Suc ?b) :: rat)"
    by (simp_all only: of_nat_le_iff of_nat_less_iff)
  then have b: "2 ^ ?a \<le> (of_int p :: rat)" "of_int p < (2 * 2 ^ ?a :: rat)"
    "2 ^ ?b \<le> (of_int q :: rat)" "of_int q < (2 * 2 ^ ?b :: rat)"
    using p q by simp_all
  have hi: "x < 2 * 2 ^ ?a / 2 ^ ?b"
    unfolding x using b q p by (intro frac_less) auto
  have lo: "2 ^ ?a / (2 * 2 ^ ?b) < x"
    unfolding x using b q p by (intro frac_less2) auto
  have k: "(2 :: rat) powi (int ?a - int ?b) = 2 ^ ?a / 2 ^ ?b" by (rule powi_split)
  have "(2 :: rat) powi (int ?a - int ?b + 1) = 2 * 2 ^ ?a / 2 ^ ?b"
    "(2 :: rat) powi (int ?a - int ?b - 1) = 2 ^ ?a / (2 * 2 ^ ?b)"
    using k by (simp_all add: power_int_add power_int_diff)
  with hi lo k show ?thesis
    by (auto simp: ilog2_def pq Let_def less_imp_le)
qed

lemma round_half_even_int [simp]: "round_half_even (of_int n) = n"
  by (simp add: round_half_even_def)

lemma round_half_even_floor: "round_half_even x = \<lfloor>x\<rfloor> \<or> round_half_even x = \<lfloor>x\<rfloor> + 1"
  by (simp add: round_half_even_def Let_def)

lemma round_half_even_mono:
  assumes "x \<le> y"
  shows "round_half_even x \<le> round_half_even y"
proof (cases "\<lfloor>x\<rfloor> = \<lfloor>y\<rfloor>")
  case True
  with assms show ?thesis by (auto simp: round_half_even_def Let_def)
next
  case False
  with assms have "\<lfloor>x\<rfloor> + 1 \<le> \<lfloor>y\<rfloor>" using floor_mono[OF assms] by linarith
  with round_half_even_floor[of x] round_half_even_floor[of y] show ?thesis by linarith
qed

lemma ulp_pos [simp]: "0 < ulp x"
  by (simp add: ulp_def)

lemma binade_upper: "0 < x \<Longrightarrow> x < 2 powi (binade x + 1)"
proof -
  assume "0 < x"
  then have "x < 2 powi (ilog2 x + 1)" using ilog2_bounds by blast
  also have "\<dots> \<le> 2 powi (binade x + 1)"
    by (intro power_int_increasing) (simp_all add: binade_def)
  finally show ?thesis .
qed

lemma ulp_scale: "2 ^ 52 * ulp x = 2 powi (binade x)" "2 ^ 53 * ulp x = 2 powi (binade x + 1)"
proof -
  have "2 powi (binade x) = (2 :: rat) powi (52 + (binade x - 52))" by simp
  also have "\<dots> = 2 powi 52 * ulp x" unfolding ulp_def by (subst power_int_add) simp_all
  finally show "2 ^ 52 * ulp x = 2 powi (binade x)" by simp
  have "2 powi (binade x + 1) = (2 :: rat) powi (53 + (binade x - 52))" by (simp add: algebra_simps)
  also have "\<dots> = 2 powi 53 * ulp x" unfolding ulp_def by (subst power_int_add) simp_all
  finally show "2 ^ 53 * ulp x = 2 powi (binade x + 1)" by simp
qed

lemma rnd_pos_upper: "0 < x \<Longrightarrow> rnd_pos x \<le> 2 powi (binade x + 1)"
proof -
  assume x: "0 < x"
  then have "x / ulp x \<le> of_int (2 ^ 53)"
    using binade_upper[OF x] ulp_scale(2)[of x] by (simp add: pos_divide_le_eq)
  then have "round_half_even (x / ulp x) \<le> 2 ^ 53"
    using round_half_even_mono round_half_even_int by metis
  then have "of_int (round_half_even (x / ulp x)) \<le> (of_int (2 ^ 53) :: rat)"
    by (simp only: of_int_le_iff)
  then have "rnd_pos x \<le> 2 ^ 53 * ulp x" by (simp add: rnd_pos_def)
  then show ?thesis by (simp only: ulp_scale)
qed

lemma rnd_pos_lower: "0 < x \<Longrightarrow> ilog2 x \<ge> - 1022 \<Longrightarrow> 2 powi (binade x) \<le> rnd_pos x"
proof -
  assume x: "0 < x" and e: "ilog2 x \<ge> - 1022"
  then have "2 powi (binade x) \<le> x" using ilog2_bounds[OF x] by (simp add: binade_def)
  then have "of_int (2 ^ 52) \<le> x / ulp x"
    using ulp_scale(1)[of x] by (simp add: pos_le_divide_eq)
  then have "2 ^ 52 \<le> round_half_even (x / ulp x)"
    using round_half_even_mono round_half_even_int by metis
  then have "(of_int (2 ^ 52) :: rat) \<le> of_int (round_half_even (x / ulp x))"
    by (simp only: of_int_le_iff)
  then have "2 ^ 52 * ulp x \<le> rnd_pos x" by (simp add: rnd_pos_def)
  then show ?thesis by (simp only: ulp_scale)
qed

lemma rnd_pos_nonneg: "0 < x \<Longrightarrow> 0 \<le> rnd_pos x"
proof -
  assume "0 < x"
  then have "of_int 0 \<le> x / ulp x" by (simp add: less_imp_le)
  then have "0 \<le> round_half_even (x / ulp x)"
    using round_half_even_mono round_half_even_int by metis
  then show ?thesis by (simp add: rnd_pos_def less_imp_le)
qed

lemma ilog2_mono:
  assumes "0 < x" "x \<le> y"
  shows "ilog2 x \<le> ilog2 y"
proof (rule ccontr)
  assume "\<not> ilog2 x \<le> ilog2 y"
  then have "2 powi (ilog2 y + 1) \<le> (2 :: rat) powi (ilog2 x)" by (intro power_int_increasing) auto
  then show False using ilog2_bounds[of x] ilog2_bounds[of y] assms by linarith
qed

lemma rnd_pos_mono:
  assumes "0 < x" "x \<le> y"
  shows "rnd_pos x \<le> rnd_pos y"
proof (cases "binade x = binade y")
  case True
  then have u: "ulp x = ulp y" by (simp add: ulp_def)
  then have "x / ulp x \<le> y / ulp y" using assms by (simp add: divide_right_mono less_imp_le)
  then have "round_half_even (x / ulp x) \<le> round_half_even (y / ulp y)" by (rule round_half_even_mono)
  then show ?thesis by (simp add: rnd_pos_def u)
next
  case False
  with ilog2_mono[OF assms] have b: "binade x + 1 \<le> binade y" "ilog2 y \<ge> - 1022"
    by (auto simp: binade_def max_def split: if_splits)
  have "rnd_pos x \<le> 2 powi (binade x + 1)" using assms by (intro rnd_pos_upper)
  also have "\<dots> \<le> 2 powi (binade y)" using b by (intro power_int_increasing) auto
  also have "\<dots> \<le> rnd_pos y" using assms b by (intro rnd_pos_lower) auto
  finally show ?thesis .
qed

lemma rnd64_mono: "x \<le> y \<Longrightarrow> rnd64 x \<le> rnd64 y"
proof -
  assume xy: "x \<le> y"
  consider "0 < x" | "x \<le> 0" "0 \<le> y" | "y < 0" by linarith
  then show ?thesis
  proof cases
    case 1
    with xy rnd_pos_mono[of x y] show ?thesis by (simp add: rnd64_def)
  next
    case 2
    then have "rnd64 x \<le> 0" "0 \<le> rnd64 y"
      using rnd_pos_nonneg[of y] rnd_pos_nonneg[of "- x"] by (auto simp: rnd64_def)
    then show ?thesis by simp
  next
    case 3
    with xy rnd_pos_mono[of "- y" "- x"] show ?thesis by (simp add: rnd64_def)
  qed
qed

lemma rnd_pos_int:
  assumes "0 < n" "n \<le> 2 ^ 53"
  shows "rnd_pos (of_int n) = of_int n"
proof -
  let ?x = "of_int n :: rat" and ?e = "ilog2 (of_int n)"
  have b: "2 powi ?e \<le> ?x" "?x < 2 powi (?e + 1)" using ilog2_bounds[of ?x] assms by auto
  have "0 \<le> ?e"
  proof (rule ccontr)
    assume "\<not> 0 \<le> ?e"
    then have "2 powi (?e + 1) \<le> (2 :: rat) powi 0" by (intro power_int_increasing) auto
    then show False using b assms by simp
  qed
  moreover have "?e \<le> 53"
  proof (rule ccontr)
    assume "\<not> ?e \<le> 53"
    then have "(2 :: rat) powi 54 \<le> 2 powi ?e" by (intro power_int_increasing) auto
    moreover have "?x \<le> of_int (2 ^ 53)" using assms by (simp only: of_int_le_iff)
    ultimately show False using b by simp
  qed
  ultimately have e: "binade ?x = ?e" "0 \<le> ?e" "?e \<le> 53" by (auto simp: binade_def)
  have "\<exists>k. ?x / ulp ?x = of_int k"
  proof (cases "?e = 53")
    case True
    then have "of_int (2 ^ 53) \<le> ?x" using b by simp
    then have "n = 2 ^ 53" using assms by (simp only: of_int_le_iff)
    then show ?thesis using True e by (intro exI[of _ "2 ^ 52"]) (simp add: ulp_def)
  next
    case False
    then have "0 \<le> 52 - ?e" using e by simp
    then obtain d where d: "52 - ?e = int d" by (rule nonneg_int_cases)
    then have "ulp ?x = 2 powi (- int d)" unfolding d[symmetric] by (simp add: ulp_def e)
    then have "?x / ulp ?x = of_int (n * 2 ^ d)" by (simp add: power_int_minus divide_inverse)
    then show ?thesis ..
  qed
  then obtain k where "?x / ulp ?x = of_int k" ..
  moreover from this have "of_int k * ulp ?x = ?x"
    using ulp_pos[of ?x] by (simp add: divide_eq_eq split: if_splits)
  ultimately show ?thesis by (simp add: rnd_pos_def)
qed

lemma rnd64_int: "\<bar>n\<bar> \<le> 2 ^ 53 \<Longrightarrow> rnd64 (of_int n) = of_int n"
  using rnd_pos_int[of n] rnd_pos_int[of "- n"] by (auto simp: rnd64_def)

lemma round_away_int [simp]: "round_away (of_int n) = n"
proof -
  have "\<lfloor>rat_of_int m + 1 / 2\<rfloor> = m" for m by (rule floor_unique) simp_all
  from this[of n] this[of "- n"] show ?thesis by (simp add: round_away_def)
qed

lemma round_away_mono: "x \<le> y \<Longrightarrow> round_away x \<le> round_away y"
proof -
  assume xy: "x \<le> y"
  consider "0 \<le> x" | "x < 0" "0 \<le> y" | "y < 0" by linarith
  then show ?thesis
  proof cases
    case 1
    with xy show ?thesis by (simp add: round_away_def floor_mono)
  next
    case 2
    then have "0 \<le> \<lfloor>- x + 1 / 2\<rfloor>" "0 \<le> \<lfloor>y + 1 / 2\<rfloor>" by simp_all
    with 2 show ?thesis by (simp add: round_away_def del: zero_le_floor)
  next
    case 3
    with xy have "\<lfloor>- y + 1 / 2\<rfloor> \<le> \<lfloor>- x + 1 / 2\<rfloor>" by (intro floor_mono) simp
    with 3 xy show ?thesis by (simp add: round_away_def)
  qed
qed

subsection \<open>What a client of the rounding relies on\<close>

text \<open>
  \<open>lerp\<close> is the interpolation the load profiles use, \<open>from + (num / den) * (to - from)\<close>
  with every conversion, quotient, product and sum rounded; when the compiler fuses the
  product and the sum, only once for both.
\<close>

definition lerp :: "(rat \<Rightarrow> rat) \<Rightarrow> bool \<Rightarrow> int \<Rightarrow> int \<Rightarrow> int \<Rightarrow> int \<Rightarrow> rat" where
  "lerp rnd fused a b num den =
     (let p = rnd (rnd (of_int num) / rnd (of_int den)); d = rnd (of_int (b - a)); c = rnd (of_int a)
      in if fused then rnd (p * d + c) else rnd (c + rnd (p * d)))"

locale rounding =
  fixes rnd :: "rat \<Rightarrow> rat"
  assumes rnd_mono: "x \<le> y \<Longrightarrow> rnd x \<le> rnd y"
    and rnd_exact: "\<bar>n\<bar> \<le> 2 ^ 53 \<Longrightarrow> rnd (of_int n) = of_int n"
begin

lemma rnd_zero [simp]: "rnd 0 = 0" and rnd_one [simp]: "rnd 1 = 1"
  using rnd_exact[of 0] rnd_exact[of 1] by simp_all

lemma rnd_between:
  "\<bar>a\<bar> \<le> 2 ^ 53 \<Longrightarrow> \<bar>b\<bar> \<le> 2 ^ 53 \<Longrightarrow> of_int a \<le> x \<Longrightarrow> x \<le> of_int b \<Longrightarrow>
   of_int a \<le> rnd x \<and> rnd x \<le> of_int b"
  using rnd_mono rnd_exact by metis

lemma progress_bounds:
  assumes "0 \<le> num" "num \<le> den" "0 < den"
  shows "0 \<le> rnd (rnd (of_int num) / rnd (of_int den)) \<and> rnd (rnd (of_int num) / rnd (of_int den)) \<le> 1"
proof -
  have n: "0 \<le> rnd (of_int num)" using rnd_mono[of 0 "of_int num"] assms by simp
  have d: "1 \<le> rnd (of_int den)" using rnd_mono[of 1 "of_int den"] assms by simp
  have nd: "rnd (of_int num) \<le> rnd (of_int den)" using assms by (intro rnd_mono) simp
  have "0 \<le> rnd (of_int num) / rnd (of_int den)" "rnd (of_int num) / rnd (of_int den) \<le> 1"
    using n d nd by (simp_all add: pos_divide_le_eq)
  then show ?thesis using rnd_between[of 0 1] by simp
qed

lemma scaled_between:
  assumes "0 \<le> p" "p \<le> 1" "\<bar>m\<bar> \<le> 2 ^ 53"
  shows "min 0 (of_int m) \<le> rnd (p * of_int m) \<and> rnd (p * of_int m) \<le> max 0 (of_int m)"
proof (cases "0 \<le> m")
  case True
  with assms have "0 \<le> p * of_int m" "p * of_int m \<le> of_int m"
    by (simp_all add: mult_left_le_one_le)
  then show ?thesis using rnd_between[of 0 m] assms True by simp
next
  case False
  with assms have "p * of_int m \<le> 0" "of_int m \<le> p * of_int m"
    using mult_right_mono_neg[of p 1 "of_int m"] by (simp_all add: mult_nonneg_nonpos)
  then show ?thesis using rnd_between[of m 0] assms False by simp
qed

lemma lerp_between:
  assumes "0 \<le> num" "num \<le> den" "0 < den" "\<bar>a\<bar> \<le> 2 ^ 53" "\<bar>b\<bar> \<le> 2 ^ 53" "\<bar>b - a\<bar> \<le> 2 ^ 53"
  shows "of_int (min a b) \<le> lerp rnd fused a b num den \<and> lerp rnd fused a b num den \<le> of_int (max a b)"
proof -
  let ?p = "rnd (rnd (of_int num) / rnd (of_int den))" and ?d = "of_int (b - a) :: rat"
  have p: "0 \<le> ?p" "?p \<le> 1" using progress_bounds assms by auto
  have ab: "min (of_int a) (of_int b) = (of_int a + min 0 ?d :: rat)"
    "max (of_int a) (of_int b) = (of_int a + max 0 ?d :: rat)" by (simp_all add: min_def max_def)
  have *: "min 0 ?d \<le> ?p * ?d \<and> ?p * ?d \<le> max 0 ?d"
    using p mult_right_mono[of ?p 1 ?d] mult_right_mono_neg[of ?p 1 ?d]
    by (cases "0 \<le> ?d") (auto simp: mult_nonneg_nonpos min_def max_def)
  have unf: "lerp rnd fused a b num den =
      rnd (of_int a + (if fused then ?p * ?d else rnd (?p * ?d)))"
    using assms by (simp add: lerp_def rnd_exact Let_def add.commute del: of_int_diff)
  have "of_int (min a b) \<le> of_int a + (if fused then ?p * ?d else rnd (?p * ?d)) \<and>
      of_int a + (if fused then ?p * ?d else rnd (?p * ?d)) \<le> (of_int (max a b) :: rat)"
    using * scaled_between[OF p assms(6)] ab by (auto simp: of_int_min of_int_max)
  then show ?thesis unfolding unf using assms by (intro rnd_between) auto
qed

lemma lerp_start: "\<bar>a\<bar> \<le> 2 ^ 53 \<Longrightarrow> lerp rnd fused a b 0 den = of_int a"
  by (simp add: lerp_def rnd_exact Let_def)

lemma progress_mono:
  assumes "0 \<le> m" "m \<le> n" "0 < den"
  shows "rnd (rnd (of_int m) / rnd (of_int den)) \<le> rnd (rnd (of_int n) / rnd (of_int den))"
proof -
  have "1 \<le> rnd (of_int den)" using rnd_mono[of 1 "of_int den"] assms by simp
  moreover have "rnd (of_int m) \<le> rnd (of_int n)" using assms by (intro rnd_mono) simp
  ultimately have "rnd (of_int m) / rnd (of_int den) \<le> rnd (of_int n) / rnd (of_int den)"
    by (intro divide_right_mono) simp_all
  then show ?thesis by (rule rnd_mono)
qed

lemma lerp_mono:
  assumes "0 \<le> m" "m \<le> n" "0 < den" "a \<le> b"
  shows "lerp rnd fused a b m den \<le> lerp rnd fused a b n den"
proof -
  have d: "0 \<le> rnd (of_int (b - a))" using rnd_mono[of 0 "of_int (b - a)"] assms by simp
  show ?thesis
    unfolding lerp_def Let_def
    using mult_right_mono[OF progress_mono[OF assms(1-3)] d] by (auto intro!: rnd_mono)
qed

end

interpretation binary64: rounding rnd64
  by unfold_locales (fact rnd64_mono, fact rnd64_int)

subsection \<open>From \<open>float64\<close> expressions to rounded rationals\<close>

lemma ilog2_powi: "ilog2 (2 powi k) = k"
proof -
  have b: "2 powi (ilog2 (2 powi k)) \<le> (2 :: rat) powi k" "(2 :: rat) powi k < 2 powi (ilog2 (2 powi k) + 1)"
    using ilog2_bounds[of "2 powi k"] by simp_all
  show ?thesis
  proof (rule ccontr)
    assume "ilog2 (2 powi k) \<noteq> k"
    then consider "k + 1 \<le> ilog2 (2 powi k)" | "ilog2 (2 powi k) + 1 \<le> k" by linarith
    then show False
    proof cases
      case 1
      then have "(2 :: rat) powi (k + 1) \<le> 2 powi (ilog2 (2 powi k))"
        by (intro power_int_increasing) auto
      moreover have "(2 :: rat) powi k < 2 powi (k + 1)" by (simp add: power_int_add)
      ultimately show False using b by linarith
    next
      case 2
      then have "(2 :: rat) powi (ilog2 (2 powi k) + 1) \<le> 2 powi k"
        by (intro power_int_increasing) auto
      with b show False by linarith
    qed
  qed
qed

lemma rnd64_power2: "rnd64 (2 ^ n) = 2 ^ n"
proof -
  let ?x = "2 powi (int n) :: rat"
  have "binade ?x = int n" by (simp add: binade_def ilog2_powi del: power_int_of_nat)
  then have x: "of_int (2 ^ 52) * ulp ?x = ?x" using ulp_scale(1)[of ?x] by simp
  then have "?x / ulp ?x = of_int (2 ^ 52)"
    by (metis less_irrefl nonzero_mult_div_cancel_right ulp_pos)
  then have "rnd_pos ?x = of_int (2 ^ 52) * ulp ?x"
    by (simp only: rnd_pos_def round_half_even_int)
  then have "rnd_pos ?x = ?x" by (simp only: x)
  then show ?thesis by (simp add: rnd64_def)
qed

lemma rnd64_minus: "rnd64 (- x) = - rnd64 x"
  by (simp add: rnd64_def)

lemma rnd64_abs_le: "\<bar>x\<bar> \<le> 2 ^ n \<Longrightarrow> \<bar>rnd64 x\<bar> \<le> 2 ^ n"
  using rnd64_mono[of x "2 ^ n"] rnd64_mono[of "- (2 ^ n)" x]
  by (simp add: rnd64_minus rnd64_power2 abs_le_iff)

lemma fl_Fin: "\<bar>x\<bar> \<le> 2 ^ 200 \<Longrightarrow> fl x = Fin (rnd64 x)"
proof -
  assume "\<bar>x\<bar> \<le> 2 ^ 200"
  then have "\<bar>rnd64 x\<bar> \<le> 2 ^ 200" by (rule rnd64_abs_le)
  moreover have "(2 :: rat) ^ 200 < 2 ^ 1024" by (rule power_strict_increasing) simp_all
  ultimately have "rnd64 x < 2 ^ 1024" "- (2 ^ 1024) < rnd64 x" by linarith+
  then show ?thesis by (simp only: fl_def Let_def not_le[symmetric] if_False)
qed

lemma f_of_int_Fin: "\<bar>n\<bar> \<le> 2 ^ 64 \<Longrightarrow> f_of_int n = Fin (rnd64 (of_int n))"
proof -
  assume "\<bar>n\<bar> \<le> 2 ^ 64"
  then have "\<bar>of_int n :: rat\<bar> \<le> of_int (2 ^ 64)" by (simp only: of_int_abs[symmetric] of_int_le_iff)
  also have "\<dots> \<le> 2 ^ 200" by simp
  finally show ?thesis unfolding f_of_int_def by (rule fl_Fin)
qed

lemma to_int64_Round:
  assumes "\<bar>round_away x\<bar> < 2 ^ 63"
  shows "to_int64 oob (math_Round (Fin x)) = round_away x"
  using assms by (auto simp: rat_trunc_def in_i64_def)

subsection \<open>Interpolation\<close>

text \<open>
  What Go leaves to the platform: whether a product and a sum are fused, and what a
  conversion of an out-of-range float to an integer gives.
\<close>

record platform =
  fused :: bool
  oob :: "float64 \<Rightarrow> int"

text \<open>\<open>int(math.Round(float64(a) + progress*float64(b-a)))\<close> with
  \<open>progress = float64(num) / float64(den)\<close>.\<close>

definition interpolate :: "platform \<Rightarrow> int \<Rightarrow> int \<Rightarrow> int \<Rightarrow> int \<Rightarrow> int" where
  "interpolate P a b num den =
     (let progress = f_div (f_of_int num) (f_of_int den)
      in to_int64 (oob P)
           (math_Round (f_muladd (fused P) progress (f_of_int (i64 (b - a))) (f_of_int a))))"

definition vu_range :: "int \<Rightarrow> bool" where
  "vu_range n \<longleftrightarrow> \<bar>n\<bar> \<le> 2 ^ 40"

lemma interpolate_lerp:
  assumes "0 \<le> num" "num \<le> den" "0 < den" "den < 2 ^ 63" "vu_range a" "vu_range b"
  shows "interpolate P a b num den = round_away (lerp rnd64 (fused P) a b num den)"
proof -
  let ?p = "rnd64 (rnd64 (of_int num) / rnd64 (of_int den))"
  let ?d = "rnd64 (of_int (b - a))"
  have ab: "\<bar>a\<bar> \<le> 2 ^ 53" "\<bar>b\<bar> \<le> 2 ^ 53" "\<bar>b - a\<bar> \<le> 2 ^ 53" using assms by (auto simp: vu_range_def)
  have i: "i64 (b - a) = b - a" using assms by (intro i64_id) (auto simp: in_i64_def vu_range_def)
  have p: "0 \<le> ?p" "?p \<le> 1" using binary64.progress_bounds assms by auto
  have den: "1 \<le> rnd64 (of_int den)" using rnd64_mono[of 1 "of_int den"] assms by simp
  have q: "\<bar>rnd64 (of_int num) / rnd64 (of_int den)\<bar> \<le> 2 ^ 200"
  proof -
    have "0 \<le> rnd64 (of_int num)" "rnd64 (of_int num) \<le> rnd64 (of_int den)"
      using rnd64_mono[of 0 "of_int num"] assms by (auto intro: rnd64_mono)
    then have "\<bar>rnd64 (of_int num) / rnd64 (of_int den)\<bar> \<le> 1" using den by simp
    then show ?thesis by simp
  qed
  have dd: "?d = of_int (b - a)" "rnd64 (of_int a) = of_int a"
    using rnd64_int[OF ab(3)] rnd64_int[OF ab(1)] by simp_all
  have "\<bar>?p * ?d\<bar> \<le> 1 * \<bar>of_int (b - a)\<bar>" unfolding dd abs_mult using p by (intro mult_right_mono) auto
  also have "\<dots> \<le> of_int (2 ^ 53)" using ab(3) by (simp only: mult_1 of_int_abs[symmetric] of_int_le_iff)
  finally have pd: "\<bar>?p * ?d\<bar> \<le> 2 ^ 53" by simp
  have a: "\<bar>of_int a :: rat\<bar> \<le> 2 ^ 53"
    using ab(1) of_int_le_iff[of "\<bar>a\<bar>" "2 ^ 53"] by (simp del: of_int_le_iff)
  have fp: "f_div (f_of_int num) (f_of_int den) = Fin ?p"
    using assms den q by (simp add: f_of_int_Fin fl_Fin)
  have fd: "f_of_int (i64 (b - a)) = Fin ?d" "f_of_int a = Fin (rnd64 (of_int a))"
    using ab i by (auto simp: f_of_int_Fin)
  have "f_muladd (fused P) (Fin ?p) (Fin ?d) (Fin (rnd64 (of_int a))) = Fin (lerp rnd64 (fused P) a b num den)"
    using pd a rnd64_abs_le[OF pd]
    by (simp add: f_muladd_def lerp_def dd fl_Fin Let_def del: of_int_diff)
  moreover have "\<bar>round_away (lerp rnd64 (fused P) a b num den)\<bar> < 2 ^ 63"
  proof -
    have l: "of_int (min a b) \<le> lerp rnd64 (fused P) a b num den"
      "lerp rnd64 (fused P) a b num den \<le> of_int (max a b)"
      using binary64.lerp_between[OF assms(1-3) ab] by auto
    have "min a b \<le> round_away (lerp rnd64 (fused P) a b num den)"
      "round_away (lerp rnd64 (fused P) a b num den) \<le> max a b"
      using round_away_mono[OF l(1)] round_away_mono[OF l(2)] by (simp_all only: round_away_int)
    then show ?thesis using ab by (auto simp: min_def max_def split: if_splits)
  qed
  ultimately show ?thesis
    unfolding interpolate_def Let_def fp fd by (simp only: to_int64_Round)
qed

lemma interpolate_between:
  assumes "0 \<le> num" "num \<le> den" "0 < den" "den < 2 ^ 63" "vu_range a" "vu_range b"
  shows "min a b \<le> interpolate P a b num den \<and> interpolate P a b num den \<le> max a b"
proof -
  have "of_int (min a b) \<le> lerp rnd64 (fused P) a b num den \<and> lerp rnd64 (fused P) a b num den \<le> of_int (max a b)"
    using assms by (intro binary64.lerp_between) (auto simp: vu_range_def)
  then show ?thesis
    unfolding interpolate_lerp[OF assms] by (metis round_away_int round_away_mono)
qed

lemma interpolate_start:
  "0 < den \<Longrightarrow> den < 2 ^ 63 \<Longrightarrow> vu_range a \<Longrightarrow> vu_range b \<Longrightarrow> interpolate P a b 0 den = a"
  using interpolate_lerp[of 0 den a b P] binary64.lerp_start[of a "fused P" b den]
  by (simp add: vu_range_def)

lemma interpolate_mono:
  assumes "0 \<le> m" "m \<le> n" "n \<le> den" "0 < den" "den < 2 ^ 63" "vu_range a" "vu_range b" "a \<le> b"
  shows "interpolate P a b m den \<le> interpolate P a b n den"
  using assms interpolate_lerp[of m den a b P] interpolate_lerp[of n den a b P]
  by (simp add: round_away_mono binary64.lerp_mono)

end
