(* ===== verification/Histogram.thy ===== *)
theory Histogram
  imports Float64
begin

text \<open>
  \<open>internal/metrics/histogram.go\<close>: the histogram configuration, the scaling of a metric value
  into histogram units, and the run-length wire form of a histogram. The HDR histogram
  library is not part of the repository: a record \<open>hdr\<close> of the functions the code calls is a
  parameter of the definitions, and \<open>hdr_laws\<close> states the documented behaviour the
  properties rely on. The lemmas show that the wire form is lossless, that the decoder
  rejects malformed input, and that scaling always lands in the trackable range.
\<close>

subsection \<open>The HDR library\<close>

record 'h hdr =
  hdr_New :: "int \<Rightarrow> int \<Rightarrow> int \<Rightarrow> 'h"
  hdr_RecordValue :: "'h \<Rightarrow> int \<Rightarrow> 'h"
  hdr_Merge :: "'h \<Rightarrow> 'h \<Rightarrow> 'h"
  hdr_Reset :: "'h \<Rightarrow> 'h"
  hdr_TotalCount :: "'h \<Rightarrow> int"
  hdr_Export :: "'h \<Rightarrow> int \<times> int \<times> int \<times> int list"
  hdr_Import :: "int \<times> int \<times> int \<times> int list \<Rightarrow> 'h"
  hdr_ValueAtQuantile :: "'h \<Rightarrow> float64 \<Rightarrow> int"

subsection \<open>Configuration\<close>

record HistogramConfig =
  h_Lowest :: int
  h_Highest :: int
  h_SigFigs :: int

definition DefaultHistogramConfig :: HistogramConfig where
  "DefaultHistogramConfig = \<lparr>h_Lowest = 100, h_Highest = 60000000, h_SigFigs = 2\<rparr>"

datatype config_error = LowestTooSmall int | HighestNotAbove int int | SigFigsOutOfRange int

definition hist_Validate :: "HistogramConfig \<Rightarrow> config_error option" where
  "hist_Validate c =
     (if h_Lowest c < 1 then Some (LowestTooSmall (h_Lowest c))
      else if h_Highest c \<le> h_Lowest c then Some (HighestNotAbove (h_Highest c) (h_Lowest c))
      else if h_SigFigs c < 1 \<or> h_SigFigs c > 5 then Some (SigFigsOutOfRange (h_SigFigs c))
      else None)"

definition hist_New :: "'h hdr \<Rightarrow> HistogramConfig \<Rightarrow> 'h" where
  "hist_New L c = hdr_New L (h_Lowest c) (h_Highest c) (h_SigFigs c)"

definition hist_Equal :: "HistogramConfig \<Rightarrow> HistogramConfig \<Rightarrow> bool" where
  "hist_Equal c other \<longleftrightarrow> h_Lowest c = h_Lowest other \<and> h_Highest c = h_Highest other \<and>
     h_SigFigs c = h_SigFigs other"

definition ScaleValue :: "platform \<Rightarrow> HistogramConfig \<Rightarrow> float64 \<Rightarrow> int" where
  "ScaleValue P c v =
     (if v = NaN then h_Lowest c
      else let scaled = to_int64 (oob P) (math_Round (f_mul v (Fin 1000))) in
        if scaled < h_Lowest c then h_Lowest c
        else if scaled > h_Highest c then h_Highest c
        else scaled)"

definition UnscaleValue :: "int \<Rightarrow> float64" where
  "UnscaleValue v = f_div (f_of_int v) (Fin 1000)"

subsection \<open>Run-length encoding of the bucket counts\<close>

datatype rle_error =
    NegativeCount int nat
  | NoRunLength
  | RunNotPositive int nat
  | TooManyBuckets
  | MakeSlicePanic \<comment> \<open>\<open>make\<close> panics: the length exceeds the address space\<close>

function encodeRLE :: "int list \<Rightarrow> int list" where
  "encodeRLE [] = []"
| "encodeRLE (c # cs) =
     (if c \<noteq> 0 then c # encodeRLE cs
      else let run = 1 + int (length (takeWhile (\<lambda>x. x = 0) cs))
           in 0 # run # encodeRLE (dropWhile (\<lambda>x. x = 0) cs))"
  by pat_completeness auto
termination
  by (relation "measure length") (auto simp: le_imp_less_Suc length_dropWhile_le)

definition maxDecodedCounts :: int where
  "maxDecodedCounts = 4194304"

text \<open>The largest slice of 8-byte elements the Go runtime can allocate.\<close>

definition max_make :: int where
  "max_make = 2 ^ 45"

fun decode_loop :: "int list \<Rightarrow> nat \<Rightarrow> int list \<Rightarrow> rle_error + int list" where
  "decode_loop out i [] = Inr out"
| "decode_loop out i (v # rest) =
     (if v > 0 then decode_loop (out @ [v]) (i + 1) rest
      else if v < 0 then Inl (NegativeCount v i)
      else case rest of
        [] \<Rightarrow> Inl NoRunLength
      | run # rest' \<Rightarrow>
          if run \<le> 0 then Inl (RunNotPositive run (i + 1))
          else if i64 (int (length out) + run) > maxDecodedCounts then Inl TooManyBuckets
          else if run > max_make then Inl MakeSlicePanic
          else decode_loop (out @ replicate (nat run) 0) (i + 2) rest')"

definition decodeRLE :: "int list \<Rightarrow> rle_error + int list" where
  "decodeRLE encoded = decode_loop [] 0 encoded"

subsection \<open>Wire form\<close>

record HistogramSnapshot =
  snap_Lowest :: int
  snap_Highest :: int
  snap_SigFigs :: int \<comment> \<open>\<open>int32\<close>\<close>
  snap_CountsRle :: "int list"
  snap_TotalCount :: int

definition i32 :: "int \<Rightarrow> int" where
  "i32 x = (x + 2 ^ 31) mod 2 ^ 32 - 2 ^ 31"

definition EncodeHistogram :: "'h hdr \<Rightarrow> 'h \<Rightarrow> HistogramSnapshot" where
  "EncodeHistogram L h =
     (let (lo, hi, sf, counts) = hdr_Export L h in
      \<lparr>snap_Lowest = lo, snap_Highest = hi, snap_SigFigs = i32 sf,
       snap_CountsRle = encodeRLE counts, snap_TotalCount = hdr_TotalCount L h\<rparr>)"

datatype decode_error = SnapshotNil | ResolutionMismatch HistogramConfig HistogramConfig
  | BadCounts rle_error | BucketCount nat nat

text \<open>The bucket count of a configuration, memoised in a process-wide cache.\<close>

definition counts_len :: "'h hdr \<Rightarrow> HistogramConfig \<Rightarrow> nat" where
  "counts_len L cfg = length (snd (snd (snd (hdr_Export L (hist_New L cfg)))))"

definition CountsLen ::
  "'h hdr \<Rightarrow> (HistogramConfig \<rightharpoonup> nat) \<Rightarrow> HistogramConfig \<Rightarrow> nat \<times> (HistogramConfig \<rightharpoonup> nat)" where
  "CountsLen L cache cfg =
     (case cache cfg of Some n \<Rightarrow> (n, cache)
      | None \<Rightarrow> let n = counts_len L cfg in (n, cache(cfg \<mapsto> n)))"

definition DecodeHistogram ::
  "'h hdr \<Rightarrow> HistogramSnapshot option \<Rightarrow> HistogramConfig \<Rightarrow> decode_error + 'h" where
  "DecodeHistogram L snap cfg =
     (case snap of None \<Rightarrow> Inl SnapshotNil
      | Some s \<Rightarrow>
          let got = \<lparr>h_Lowest = snap_Lowest s, h_Highest = snap_Highest s, h_SigFigs = snap_SigFigs s\<rparr> in
          if \<not> hist_Equal got cfg then Inl (ResolutionMismatch got cfg)
          else case decodeRLE (snap_CountsRle s) of
            Inl e \<Rightarrow> Inl (BadCounts e)
          | Inr counts \<Rightarrow>
              let want = counts_len L cfg in
              if length counts \<noteq> want then Inl (BucketCount (length counts) want)
              else Inr (hdr_Import L (h_Lowest cfg, h_Highest cfg, h_SigFigs cfg, counts)))"

subsection \<open>Documented behaviour of the HDR library\<close>

text \<open>\<open>hdr_is L cfg n h\<close>: \<open>h\<close> has the layout of \<open>cfg\<close>, with \<open>n\<close> non-negative counts.\<close>

definition hdr_is :: "'h hdr \<Rightarrow> HistogramConfig \<Rightarrow> nat \<Rightarrow> 'h \<Rightarrow> bool" where
  "hdr_is L cfg n h \<longleftrightarrow>
     (\<exists>counts. hdr_Export L h = (h_Lowest cfg, h_Highest cfg, h_SigFigs cfg, counts) \<and>
        length counts = n \<and> (\<forall>c \<in> set counts. 0 \<le> c))"

definition hdr_counts :: "'h hdr \<Rightarrow> 'h \<Rightarrow> int list" where
  "hdr_counts L h = snd (snd (snd (hdr_Export L h)))"

text \<open>
  What the library documents: \<open>New\<close> and \<open>Reset\<close> give an empty histogram; recording a value in
  the trackable range counts it in the bucket of that value; \<open>Merge\<close> adds the counts;
  \<open>Import\<close> restores an exported histogram; \<open>TotalCount\<close> is the sum of the counts; a quantile
  is a function of the layout and the counts.
\<close>

definition hdr_new_law :: "'h hdr \<Rightarrow> HistogramConfig \<Rightarrow> nat \<Rightarrow> bool" where
  "hdr_new_law L cfg n \<longleftrightarrow>
     hdr_is L cfg n (hist_New L cfg) \<and> hdr_counts L (hist_New L cfg) = replicate n 0"

definition hdr_record_law :: "'h hdr \<Rightarrow> HistogramConfig \<Rightarrow> nat \<Rightarrow> (int \<Rightarrow> nat) \<Rightarrow> bool" where
  "hdr_record_law L cfg n bucket \<longleftrightarrow>
     (\<forall>h v. hdr_is L cfg n h \<longrightarrow> h_Lowest cfg \<le> v \<longrightarrow> v \<le> h_Highest cfg \<longrightarrow>
        bucket v < n \<and> hdr_is L cfg n (hdr_RecordValue L h v) \<and>
        hdr_counts L (hdr_RecordValue L h v) =
          (hdr_counts L h)[bucket v := hdr_counts L h ! bucket v + 1])"

definition hdr_merge_law :: "'h hdr \<Rightarrow> HistogramConfig \<Rightarrow> nat \<Rightarrow> bool" where
  "hdr_merge_law L cfg n \<longleftrightarrow>
     (\<forall>h g. hdr_is L cfg n h \<longrightarrow> hdr_is L cfg n g \<longrightarrow>
        hdr_is L cfg n (hdr_Merge L h g) \<and>
        hdr_counts L (hdr_Merge L h g) = map2 (+) (hdr_counts L h) (hdr_counts L g))"

definition hdr_reset_law :: "'h hdr \<Rightarrow> HistogramConfig \<Rightarrow> nat \<Rightarrow> bool" where
  "hdr_reset_law L cfg n \<longleftrightarrow>
     (\<forall>h. hdr_is L cfg n h \<longrightarrow>
        hdr_is L cfg n (hdr_Reset L h) \<and> hdr_counts L (hdr_Reset L h) = replicate n 0 \<and>
        hdr_TotalCount L h = sum_list (hdr_counts L h))"

definition hdr_import_law :: "'h hdr \<Rightarrow> HistogramConfig \<Rightarrow> nat \<Rightarrow> bool" where
  "hdr_import_law L cfg n \<longleftrightarrow>
     (\<forall>counts. length counts = n \<longrightarrow> (\<forall>c \<in> set counts. 0 \<le> c) \<longrightarrow>
        hdr_is L cfg n (hdr_Import L (h_Lowest cfg, h_Highest cfg, h_SigFigs cfg, counts)) \<and>
        hdr_counts L (hdr_Import L (h_Lowest cfg, h_Highest cfg, h_SigFigs cfg, counts)) = counts)"

definition hdr_quantile_law :: "'h hdr \<Rightarrow> HistogramConfig \<Rightarrow> nat \<Rightarrow> bool" where
  "hdr_quantile_law L cfg n \<longleftrightarrow>
     (\<forall>h g q. hdr_is L cfg n h \<longrightarrow> hdr_is L cfg n g \<longrightarrow> hdr_counts L h = hdr_counts L g \<longrightarrow>
        hdr_ValueAtQuantile L h q = hdr_ValueAtQuantile L g q)"

definition hdr_laws :: "'h hdr \<Rightarrow> HistogramConfig \<Rightarrow> nat \<Rightarrow> (int \<Rightarrow> nat) \<Rightarrow> bool" where
  "hdr_laws L cfg n bucket \<longleftrightarrow>
     hdr_new_law L cfg n \<and> hdr_record_law L cfg n bucket \<and> hdr_merge_law L cfg n \<and>
     hdr_reset_law L cfg n \<and> hdr_import_law L cfg n \<and> hdr_quantile_law L cfg n"

lemma hdr_laws_New: "hdr_laws L cfg n b \<Longrightarrow>
    hdr_is L cfg n (hist_New L cfg) \<and> hdr_counts L (hist_New L cfg) = replicate n 0"
  by (simp add: hdr_laws_def hdr_new_law_def)

lemma hdr_laws_Record: "hdr_laws L cfg n b \<Longrightarrow> hdr_is L cfg n h \<Longrightarrow> h_Lowest cfg \<le> v \<Longrightarrow> v \<le> h_Highest cfg \<Longrightarrow>
    b v < n \<and> hdr_is L cfg n (hdr_RecordValue L h v) \<and>
    hdr_counts L (hdr_RecordValue L h v) = (hdr_counts L h)[b v := hdr_counts L h ! b v + 1]"
  by (simp add: hdr_laws_def hdr_record_law_def)

lemma hdr_laws_Merge: "hdr_laws L cfg n b \<Longrightarrow> hdr_is L cfg n h \<Longrightarrow> hdr_is L cfg n g \<Longrightarrow>
    hdr_is L cfg n (hdr_Merge L h g) \<and>
    hdr_counts L (hdr_Merge L h g) = map2 (+) (hdr_counts L h) (hdr_counts L g)"
  by (simp add: hdr_laws_def hdr_merge_law_def)

lemma hdr_laws_Reset: "hdr_laws L cfg n b \<Longrightarrow> hdr_is L cfg n h \<Longrightarrow>
    hdr_is L cfg n (hdr_Reset L h) \<and> hdr_counts L (hdr_Reset L h) = replicate n 0 \<and>
    hdr_TotalCount L h = sum_list (hdr_counts L h)"
  by (simp add: hdr_laws_def hdr_reset_law_def)

lemma hdr_laws_Import: "hdr_laws L cfg n b \<Longrightarrow> length counts = n \<Longrightarrow> (\<forall>c \<in> set counts. 0 \<le> c) \<Longrightarrow>
    hdr_is L cfg n (hdr_Import L (h_Lowest cfg, h_Highest cfg, h_SigFigs cfg, counts)) \<and>
    hdr_counts L (hdr_Import L (h_Lowest cfg, h_Highest cfg, h_SigFigs cfg, counts)) = counts"
  by (simp add: hdr_laws_def hdr_import_law_def)

lemma hdr_laws_Quantile: "hdr_laws L cfg n b \<Longrightarrow> hdr_is L cfg n h \<Longrightarrow> hdr_is L cfg n g \<Longrightarrow>
    hdr_counts L h = hdr_counts L g \<Longrightarrow> hdr_ValueAtQuantile L h q = hdr_ValueAtQuantile L g q"
  unfolding hdr_laws_def hdr_quantile_law_def by blast

lemma hdr_is_counts: "hdr_is L cfg n h \<Longrightarrow> length (hdr_counts L h) = n \<and> (\<forall>c \<in> set (hdr_counts L h). 0 \<le> c)"
  by (auto simp: hdr_is_def hdr_counts_def)

lemma hdr_laws_counts_len: "hdr_laws L cfg n b \<Longrightarrow> counts_len L cfg = n"
  using hdr_laws_New hdr_is_counts by (fastforce simp: counts_len_def hdr_counts_def)

subsection \<open>The encoding round trip\<close>

lemma dropWhile_zero_split: "cs = replicate (length (takeWhile (\<lambda>x. x = 0) cs)) (0 :: int) @ dropWhile (\<lambda>x. x = 0) cs"
proof -
  have "takeWhile (\<lambda>x. x = 0) cs = replicate (length (takeWhile (\<lambda>x. x = 0) cs)) (0 :: int)"
    by (metis (full_types) replicate_eqI set_takeWhileD)
  then show ?thesis by (metis takeWhile_dropWhile_id)
qed

lemma decode_encode_aux:
  assumes "\<forall>c \<in> set counts. 0 \<le> c" "int (length out + length counts) \<le> maxDecodedCounts"
  shows "decode_loop out i (encodeRLE counts) = Inr (out @ counts)"
  using assms
proof (induction counts arbitrary: out i rule: encodeRLE.induct)
  case 1 then show ?case by simp
next
  case (2 c cs)
  show ?case
  proof (cases "c = 0")
    case False
    then have "0 < c" using "2.prems" by force
    then show ?thesis using "2.IH"(1)[OF False, of "out @ [c]"] "2.prems" by simp
  next
    case True
    let ?k = "length (takeWhile (\<lambda>x. x = 0) cs)" and ?rest = "dropWhile (\<lambda>x. x = 0) cs"
    have cs: "cs = replicate ?k 0 @ ?rest" by (rule dropWhile_zero_split)
    then have len: "length cs = ?k + length ?rest" by (metis length_append length_replicate)
    have le: "int (length out) + (1 + int ?k) \<le> maxDecodedCounts" using "2.prems" len by simp
    have run: "i64 (int (length out) + (1 + int ?k)) = int (length out) + (1 + int ?k)"
      using le by (intro i64_small) (auto simp: maxDecodedCounts_def)
    have IH: "decode_loop (out @ replicate (Suc ?k) 0) (i + 2) (encodeRLE ?rest) =
        Inr ((out @ replicate (Suc ?k) 0) @ ?rest)"
      using "2.prems" len by (intro "2.IH"(2)) (auto simp: True dest: set_dropWhileD)
    have "(out @ replicate (Suc ?k) 0) @ ?rest = out @ c # cs" using cs True by simp
    moreover have "nat (1 + int ?k) = Suc ?k" by simp
    ultimately show ?thesis
      using IH run le True by (simp add: maxDecodedCounts_def max_make_def Let_def del: replicate_Suc)
  qed
qed

text \<open>A reference implementation of the library interface: one bucket per value, clamped.\<close>

record list_hist =
  lh_lo :: int
  lh_hi :: int
  lh_sf :: int
  lh_counts :: "int list"

definition list_bucket :: "int \<Rightarrow> int \<Rightarrow> nat" where
  "list_bucket lo v = nat (v - lo)"

fun quantile_walk :: "int list \<Rightarrow> int \<Rightarrow> int \<Rightarrow> int" where
  "quantile_walk [] v need = v"
| "quantile_walk (c # cs) v need = (if need \<le> c then v else quantile_walk cs (v + 1) (need - c))"

definition list_hdr :: "list_hist hdr" where
  "list_hdr =
     \<lparr>hdr_New = (\<lambda>lo hi sf. \<lparr>lh_lo = lo, lh_hi = hi, lh_sf = sf, lh_counts = replicate (nat (hi - lo + 1)) 0\<rparr>),
      hdr_RecordValue = (\<lambda>h v. h\<lparr>lh_counts := (lh_counts h)[list_bucket (lh_lo h) v := lh_counts h ! list_bucket (lh_lo h) v + 1]\<rparr>),
      hdr_Merge = (\<lambda>h g. h\<lparr>lh_counts := map2 (+) (lh_counts h) (lh_counts g)\<rparr>),
      hdr_Reset = (\<lambda>h. h\<lparr>lh_counts := map (\<lambda>_. 0) (lh_counts h)\<rparr>),
      hdr_TotalCount = (\<lambda>h. sum_list (lh_counts h)),
      hdr_Export = (\<lambda>h. (lh_lo h, lh_hi h, lh_sf h, lh_counts h)),
      hdr_Import = (\<lambda>(lo, hi, sf, cs). \<lparr>lh_lo = lo, lh_hi = hi, lh_sf = sf, lh_counts = cs\<rparr>),
      hdr_ValueAtQuantile = (\<lambda>h q. quantile_walk (lh_counts h) (lh_lo h)
        (case q of Fin x \<Rightarrow> \<lceil>x * of_int (sum_list (lh_counts h)) / 100\<rceil> | _ \<Rightarrow> 1))\<rparr>"

definition small_config :: HistogramConfig where
  "small_config = \<lparr>h_Lowest = 1, h_Highest = 4, h_SigFigs = 1\<rparr>"

lemma list_hdr_is: "hdr_is list_hdr small_config n h \<longleftrightarrow>
  lh_lo h = 1 \<and> lh_hi h = 4 \<and> lh_sf h = 1 \<and> length (lh_counts h) = n \<and> (\<forall>c \<in> set (lh_counts h). 0 \<le> c)"
  by (auto simp: hdr_is_def list_hdr_def small_config_def)

lemma set_update_succ: "\<forall>c \<in> set cs. 0 \<le> c \<Longrightarrow> i < length cs \<Longrightarrow> \<forall>c \<in> set (cs[i := cs ! i + 1]). 0 \<le> (c :: int)"
  using set_update_subset_insert[of cs i "cs ! i + 1"] nth_mem[of i cs] by force

lemma list_hdr_laws: "hdr_laws list_hdr small_config 4 (list_bucket 1)"
proof -
  have "hdr_new_law list_hdr small_config 4"
    by (simp add: hdr_new_law_def list_hdr_is hist_New_def hdr_counts_def) (simp add: list_hdr_def small_config_def)
  moreover have "hdr_record_law list_hdr small_config 4 (list_bucket 1)"
    unfolding hdr_record_law_def list_hdr_is
  proof (intro allI impI)
    fix h :: list_hist and v
    assume h: "lh_lo h = 1 \<and> lh_hi h = 4 \<and> lh_sf h = 1 \<and> length (lh_counts h) = 4 \<and> (\<forall>c\<in>set (lh_counts h). 0 \<le> c)"
      and v: "h_Lowest small_config \<le> v" "v \<le> h_Highest small_config"
    have b: "list_bucket 1 v < 4" using v by (simp add: list_bucket_def small_config_def)
    then show "list_bucket 1 v < 4 \<and>
       (lh_lo (hdr_RecordValue list_hdr h v) = 1 \<and> lh_hi (hdr_RecordValue list_hdr h v) = 4 \<and>
        lh_sf (hdr_RecordValue list_hdr h v) = 1 \<and> length (lh_counts (hdr_RecordValue list_hdr h v)) = 4 \<and>
        (\<forall>c\<in>set (lh_counts (hdr_RecordValue list_hdr h v)). 0 \<le> c)) \<and>
       hdr_counts list_hdr (hdr_RecordValue list_hdr h v) =
       (hdr_counts list_hdr h)[list_bucket 1 v := hdr_counts list_hdr h ! list_bucket 1 v + 1]"
      using h set_update_succ[of "lh_counts h" "list_bucket 1 v"] by (simp add: list_hdr_def hdr_counts_def)
  qed
  moreover have "hdr_merge_law list_hdr small_config 4"
    unfolding hdr_merge_law_def list_hdr_is
    by (auto simp: list_hdr_def hdr_counts_def set_zip)
  moreover have "hdr_reset_law list_hdr small_config 4"
    unfolding hdr_reset_law_def list_hdr_is
    by (auto simp: list_hdr_def hdr_counts_def map_replicate_const)
  moreover have "hdr_import_law list_hdr small_config 4"
    unfolding hdr_import_law_def list_hdr_is
    by (auto simp: list_hdr_def hdr_counts_def small_config_def)
  moreover have "hdr_quantile_law list_hdr small_config 4"
    unfolding hdr_quantile_law_def list_hdr_is
    by (auto simp: list_hdr_def hdr_counts_def split: float64.split)
  ultimately show ?thesis by (simp add: hdr_laws_def)
qed

subsection \<open>Properties\<close>

text \<open>
  The run-length encoding is lossless: decoding the encoding of any list of non-negative
  counts no longer than the decoder's limit gives the counts back.
\<close>

theorem decodeRLE_encodeRLE:
  assumes "\<forall>c \<in> set counts. 0 \<le> c" and "int (length counts) \<le> maxDecodedCounts"
  shows "decodeRLE (encodeRLE counts) = Inr counts"
  using decode_encode_aux[of counts "[]" 0] assms by (simp add: decodeRLE_def)

theorem decodeRLE_encodeRLE_witness:
  "encodeRLE [0, 0, 7, 0, 1, 0, 0] = [0, 2, 7, 0, 1, 1, 0, 2] \<and>
   decodeRLE [0, 2, 7, 0, 1, 1, 0, 2] = Inr [0, 0, 7, 0, 1, 0, 0]"
proof -
  have e: "encodeRLE [0, 0, 7, 0, 1, 0, 0] = [0, 2, 7, 0, 1, 1, 0, 2]" by (simp add: Let_def)
  have "decodeRLE (encodeRLE [0, 0, 7, 0, 1, 0, 0]) = Inr [0, 0, 7, 0, 1, 0, 0]"
    by (rule decodeRLE_encodeRLE) (auto simp: maxDecodedCounts_def)
  then show ?thesis using e by simp
qed

lemma decode_loop_sound:
  assumes "decode_loop out i encoded = Inr res" "\<forall>c \<in> set out. 0 \<le> c"
    and "int (length out) \<le> b" "maxDecodedCounts \<le> b" "b + int (length encoded) < 2 ^ 62"
  shows "(\<forall>c \<in> set res. 0 \<le> c) \<and> int (length res) \<le> b + int (length encoded)"
  using assms
proof (induction out i encoded arbitrary: b rule: decode_loop.induct)
  case (2 out i v rest)
  show ?case
  proof (cases "v > 0")
    case True
    then show ?thesis using "2.IH"(1)[OF True, of "b + 1"] "2.prems" by auto
  next
    case False
    then obtain run rest' where rest: "rest = run # rest'" and v: "\<not> v < 0"
      and run: "0 < run" "i64 (int (length out) + run) \<le> maxDecodedCounts" "run \<le> max_make"
      and rec: "decode_loop (out @ replicate (nat run) 0) (i + 2) rest' = Inr res"
      using "2.prems"(1) by (auto split: list.splits if_splits)
    have "i64 (int (length out) + run) = int (length out) + run"
      using run "2.prems" by (intro i64_small) (auto simp: max_make_def)
    then have l: "int (length (out @ replicate (nat run) 0)) \<le> b" using run "2.prems" by simp
    have "(\<forall>c \<in> set res. 0 \<le> c) \<and> int (length res) \<le> b + int (length rest')"
      using False v rest run rec "2.prems" l
      by (intro "2.IH"(2)) auto
    then show ?thesis using rest by simp
  qed
qed auto

text \<open>
  What the decoder accepts is well-formed and bounded: every decoded count is
  non-negative, and the result has at most the allowed number of buckets beyond one per
  encoded entry.
\<close>

theorem decodeRLE_bounded:
  assumes "decodeRLE encoded = Inr counts" and "int (length encoded) < 2 ^ 61"
  shows "(\<forall>c \<in> set counts. 0 \<le> c) \<and> int (length counts) \<le> maxDecodedCounts + int (length encoded)"
  using decode_loop_sound[of "[]" 0 encoded counts maxDecodedCounts] assms
  by (simp add: decodeRLE_def maxDecodedCounts_def)

theorem decodeRLE_bounded_witness: "int (length [0, 0, 7 :: int]) \<le> maxDecodedCounts + 3"
proof -
  have "decodeRLE [0, 2, 7] = Inr [0, 0, 7]"
    by (simp add: decodeRLE_def maxDecodedCounts_def max_make_def i64_def numeral_2_eq_2)
  from decodeRLE_bounded[OF this] show ?thesis by simp
qed

text \<open>
  The guard on the expanded size does not hold off every run length: when the bucket
  total wraps around, a run of \<open>2\<^sup>6\<^sup>3 - 1\<close> zeros passes it and the allocation panics.
\<close>

theorem decodeRLE_overflow_panics:
  "decodeRLE [1, 0, 9223372036854775807] = Inl MakeSlicePanic"
  by (simp add: decodeRLE_def maxDecodedCounts_def max_make_def i64_def)

text \<open>
  C31. Histograms survive the wire: encoding a histogram of the run's configuration and
  decoding it again succeeds, and the decoded histogram has the same counts and the same
  value at every quantile.
\<close>

theorem DecodeHistogram_EncodeHistogram:
  assumes "hdr_laws L cfg n bucket" and "hdr_is L cfg n h" and "int n \<le> maxDecodedCounts"
    and "hist_Validate cfg = None"
  shows "\<exists>h'. DecodeHistogram L (Some (EncodeHistogram L h)) cfg = Inr h' \<and>
    hdr_counts L h' = hdr_counts L h \<and>
    (\<forall>q. hdr_ValueAtQuantile L h' q = hdr_ValueAtQuantile L h q)"
proof -
  let ?c = "hdr_counts L h"
  let ?h = "hdr_Import L (h_Lowest cfg, h_Highest cfg, h_SigFigs cfg, ?c)"
  have c: "length ?c = n" "\<forall>c \<in> set ?c. 0 \<le> c" using hdr_is_counts[OF assms(2)] by auto
  have ex: "hdr_Export L h = (h_Lowest cfg, h_Highest cfg, h_SigFigs cfg, ?c)"
    using assms(2) by (auto simp: hdr_is_def hdr_counts_def)
  have sf: "i32 (h_SigFigs cfg) = h_SigFigs cfg"
    using assms(4) by (auto simp: hist_Validate_def i32_def split: if_splits)
  have "decodeRLE (encodeRLE ?c) = Inr ?c"
    using decode_encode_aux[of ?c "[]" 0] c assms(3) by (simp add: decodeRLE_def)
  then have d: "DecodeHistogram L (Some (EncodeHistogram L h)) cfg = Inr ?h"
    using c hdr_laws_counts_len[OF assms(1)]
    by (simp add: DecodeHistogram_def EncodeHistogram_def ex sf hist_Equal_def)
  have i: "hdr_is L cfg n ?h \<and> hdr_counts L ?h = ?c" using hdr_laws_Import[OF assms(1)] c by blast
  then show ?thesis using d hdr_laws_Quantile[OF assms(1) _ assms(2)] by blast
qed

theorem DecodeHistogram_EncodeHistogram_witness:
  "\<exists>h'. DecodeHistogram list_hdr (Some (EncodeHistogram list_hdr (hdr_RecordValue list_hdr (hist_New list_hdr small_config) 3)))
     small_config = Inr h' \<and> hdr_counts list_hdr h' = [0, 0, 1, 0]"
proof -
  let ?h = "hdr_RecordValue list_hdr (hist_New list_hdr small_config) 3"
  have "hdr_is list_hdr small_config 4 (hist_New list_hdr small_config)" using hdr_laws_New[OF list_hdr_laws] by blast
  then have "hdr_is list_hdr small_config 4 ?h"
    using hdr_laws_Record[OF list_hdr_laws, of "hist_New list_hdr small_config" 3] by (simp add: small_config_def)
  moreover have "hdr_counts list_hdr ?h = [0, 0, 1, 0]" by code_simp
  ultimately show ?thesis
    using DecodeHistogram_EncodeHistogram[OF list_hdr_laws, of ?h]
    by (auto simp: maxDecodedCounts_def hist_Validate_def small_config_def)
qed

lemma ScaleValue_Fin:
  assumes "\<bar>x\<bar> \<le> 2 ^ 50"
  shows "ScaleValue P cfg (Fin x) =
    (let s = round_away (rnd64 (x * 1000)) in
     if s < h_Lowest cfg then h_Lowest cfg else if s > h_Highest cfg then h_Highest cfg else s)"
proof -
  have "\<bar>x * 1000\<bar> \<le> 2 ^ 50 * 1000" unfolding abs_mult using assms by simp
  also have "\<dots> \<le> 2 ^ 60" by simp
  finally have x: "\<bar>x * 1000\<bar> \<le> 2 ^ 60" .
  have "of_int (- (2 ^ 60)) \<le> rnd64 (x * 1000)" "rnd64 (x * 1000) \<le> of_int (2 ^ 60)"
    using rnd64_abs_le[OF x] by (simp_all add: abs_le_iff)
  then have "- (2 ^ 60) \<le> round_away (rnd64 (x * 1000))" "round_away (rnd64 (x * 1000)) \<le> 2 ^ 60"
    by (metis round_away_int round_away_mono)+
  then have "to_int64 (oob P) (math_Round (Fin (rnd64 (x * 1000)))) = round_away (rnd64 (x * 1000))"
    by (intro to_int64_Round) simp
  moreover have "\<bar>x * 1000\<bar> \<le> 2 ^ 200" using x by (rule order_trans) (simp add: power_increasing)
  ultimately show ?thesis by (simp add: ScaleValue_def fl_Fin Let_def del: math_Round.simps)
qed

text \<open>
  Every observation is recorded inside the trackable range: whatever the value, also a
  NaN or an infinity, \<open>ScaleValue\<close> lies between the configured lowest and highest value. On
  finite values it keeps the order, so the distribution is never reshuffled by rounding.
\<close>

theorem ScaleValue_range_mono:
  assumes "h_Lowest cfg \<le> h_Highest cfg"
  shows "h_Lowest cfg \<le> ScaleValue P cfg v \<and> ScaleValue P cfg v \<le> h_Highest cfg \<and>
    (\<bar>x\<bar> \<le> 2 ^ 50 \<and> \<bar>y\<bar> \<le> 2 ^ 50 \<and> x \<le> y \<longrightarrow>
      ScaleValue P cfg (Fin x) \<le> ScaleValue P cfg (Fin y))"
proof -
  have "x \<le> y \<Longrightarrow> round_away (rnd64 (x * 1000)) \<le> round_away (rnd64 (y * 1000))"
    by (intro round_away_mono rnd64_mono) simp
  moreover have "h_Lowest cfg \<le> ScaleValue P cfg v \<and> ScaleValue P cfg v \<le> h_Highest cfg"
    using assms by (auto simp: ScaleValue_def Let_def)
  ultimately show ?thesis using assms by (auto simp: ScaleValue_Fin Let_def)
qed

theorem ScaleValue_range_mono_witness:
  "ScaleValue \<lparr>fused = False, oob = (\<lambda>_. - (2 ^ 63))\<rparr> DefaultHistogramConfig (Fin 3) \<le>
   ScaleValue \<lparr>fused = False, oob = (\<lambda>_. - (2 ^ 63))\<rparr> DefaultHistogramConfig (Fin 5)"
  using ScaleValue_range_mono[of DefaultHistogramConfig "\<lparr>fused = False, oob = (\<lambda>_. - (2 ^ 63))\<rparr>" NaN 3 5]
  by (simp add: DefaultHistogramConfig_def)

text \<open>
  The clamping at the ceiling depends on the platform: where an out-of-range conversion
  gives the smallest integer (as on amd64), an infinite observation is recorded at the lowest
  trackable value, not at the highest.
\<close>

theorem ScaleValue_infinity_amd64:
  "ScaleValue \<lparr>fused = f, oob = (\<lambda>_. - (2 ^ 63))\<rparr> DefaultHistogramConfig PInf = h_Lowest DefaultHistogramConfig"
  by (simp add: ScaleValue_def DefaultHistogramConfig_def f_inf_def i64_def)

lemma CountsLen_cached:
  "(\<forall>c n. cache c = Some n \<longrightarrow> n = counts_len L c) \<Longrightarrow>
   fst (CountsLen L cache cfg) = counts_len L cfg \<and>
   (\<forall>c n. snd (CountsLen L cache cfg) c = Some n \<longrightarrow> n = counts_len L c)"
  by (auto simp: CountsLen_def Let_def split: option.splits)

end
