(* ===== verification/Labels.thy ===== *)
theory Labels
  imports GoPrelude
begin

text \<open>
  \<open>pkg/loadwave/labels.go\<close> and the metric vocabulary of \<open>pkg/loadwave/metrics.go\<close>. A label
  set is a list of key/value pairs kept sorted by key (the code stores the pairs flattened,
  \<open>k0,v0,k1,v1\<close>) with a hash of them computed once. The seeded \<open>hash/maphash\<close> function is a
  parameter \<open>mh\<close> from the bytes written to it to 64 bits. The lemmas show that building a
  set is independent of the order of its arguments, and that lookups, additions and the
  conversions to and from maps agree.
\<close>

subsection \<open>Metric kinds and names\<close>

datatype MetricKind = KindCounter | KindGauge | KindTrend | KindRate

fun kind_String :: "MetricKind \<Rightarrow> string" where
  "kind_String KindCounter = ''counter''"
| "kind_String KindGauge = ''gauge''"
| "kind_String KindTrend = ''trend''"
| "kind_String KindRate = ''rate''"

definition MetricVUs :: string where "MetricVUs = ''vus''"
definition MetricIterations :: string where "MetricIterations = ''iterations''"
definition MetricHTTPReqs :: string where "MetricHTTPReqs = ''http_reqs''"
definition MetricHTTPReqDuration :: string where "MetricHTTPReqDuration = ''http_req_duration''"
definition MetricHTTPReqFailed :: string where "MetricHTTPReqFailed = ''http_req_failed''"
definition MetricHTTPReqBytesIn :: string where "MetricHTTPReqBytesIn = ''http_req_bytes_in''"

definition LabelScenario :: string where "LabelScenario = ''scenario''"
definition LabelName :: string where "LabelName = ''name''"
definition LabelStatus :: string where "LabelStatus = ''status''"

lemmas metric_names = MetricVUs_def MetricHTTPReqs_def MetricHTTPReqDuration_def
  MetricHTTPReqFailed_def MetricHTTPReqBytesIn_def LabelScenario_def LabelName_def LabelStatus_def

subsection \<open>Label sets\<close>

type_synonym pairs = "(string \<times> string) list"

record labels =
  lab_pairs :: pairs
  lab_hash :: u64

definition no_labels :: labels where
  "no_labels = \<lparr>lab_pairs = [], lab_hash = 0\<rparr>"

fun kv_pairs :: "string list \<Rightarrow> pairs" where
  "kv_pairs (k # v # rest) = (k, v) # kv_pairs rest"
| "kv_pairs _ = []"

fun replacePair :: "pairs \<Rightarrow> string \<Rightarrow> string \<Rightarrow> pairs option" where
  "replacePair [] k v = None"
| "replacePair ((k', v') # ps) k v =
     (if k' = k then Some ((k', v) # ps)
      else map_option (\<lambda>qs. (k', v') # qs) (replacePair ps k v))"

text \<open>The inner loop of the insertion sort, on the sorted prefix read backwards.\<close>

fun shift_insert :: "string \<times> string \<Rightarrow> pairs \<Rightarrow> pairs" where
  "shift_insert p [] = [p]"
| "shift_insert p (q # qs) = (if fst q > fst p then q # shift_insert p qs else p # q # qs)"

definition sortPairs :: "pairs \<Rightarrow> pairs" where
  "sortPairs ps = rev (foldl (\<lambda>prefix p. shift_insert p prefix) [] ps)"

definition hash_bytes :: "pairs \<Rightarrow> string" where
  "hash_bytes ps = concat (map (\<lambda>(k, v). k @ [CHR 0x00] @ v @ [CHR 0x00]) ps)"

definition merge_pairs :: "pairs \<Rightarrow> pairs \<Rightarrow> pairs" where
  "merge_pairs base extra =
     foldl (\<lambda>merged (k, v). case replacePair merged k v of
              Some m \<Rightarrow> m | None \<Rightarrow> merged @ [(k, v)]) base extra"

definition buildLabels :: "(string \<Rightarrow> u64) \<Rightarrow> pairs \<Rightarrow> pairs \<Rightarrow> labels" where
  "buildLabels mh base extra =
     (let merged = sortPairs (merge_pairs base extra)
      in \<lparr>lab_pairs = merged, lab_hash = mh (hash_bytes merged)\<rparr>)"

text \<open>An odd number of arguments panics: \<open>None\<close>.\<close>

definition NewLabels :: "(string \<Rightarrow> u64) \<Rightarrow> string list \<Rightarrow> labels option" where
  "NewLabels mh kv =
     (if length kv mod 2 \<noteq> 0 then None
      else if length kv = 0 then Some no_labels
      else Some (buildLabels mh [] (kv_pairs kv)))"

definition With :: "(string \<Rightarrow> u64) \<Rightarrow> labels \<Rightarrow> string list \<Rightarrow> labels option" where
  "With mh l kv =
     (if length kv mod 2 \<noteq> 0 then None
      else if length kv = 0 then Some l
      else Some (buildLabels mh (lab_pairs l) (kv_pairs kv)))"

definition Len :: "labels \<Rightarrow> nat" where
  "Len l = length (lab_pairs l)"

fun find_pair :: "pairs \<Rightarrow> string \<Rightarrow> string option" where
  "find_pair [] key = None"
| "find_pair ((k, v) # ps) key = (if k = key then Some v else find_pair ps key)"

definition Get :: "labels \<Rightarrow> string \<Rightarrow> string option" where
  "Get l key = find_pair (lab_pairs l) key"

definition labels_Equal :: "labels \<Rightarrow> labels \<Rightarrow> bool" where
  "labels_Equal l other \<longleftrightarrow> lab_hash l = lab_hash other \<and> lab_pairs l = lab_pairs other"

definition labels_Map :: "labels \<Rightarrow> (string, string) gomap" where
  "labels_Map l = foldl (\<lambda>m (k, v). gput k v m) [] (lab_pairs l)"

text \<open>\<open>LabelsFromMap\<close> ranges over the map, in the order \<open>m\<close> lists its entries.\<close>

definition LabelsFromMap :: "(string \<Rightarrow> u64) \<Rightarrow> (string, string) gomap \<Rightarrow> labels" where
  "LabelsFromMap mh m =
     (if length m = 0 then no_labels
      else case NewLabels mh (concat (map (\<lambda>(k, v). [k, v]) m)) of Some l \<Rightarrow> l | None \<Rightarrow> no_labels)"

fun pair_strings :: "bool \<Rightarrow> pairs \<Rightarrow> string" where
  "pair_strings first [] = []"
| "pair_strings first ((k, v) # ps) =
     (if first then [] else '','') @ k @ ''='' @ v @ pair_strings False ps"

definition labels_String :: "labels \<Rightarrow> string" where
  "labels_String l = pair_strings True (lab_pairs l)"

subsection \<open>Well-formed label sets\<close>

definition pairs_ok :: "pairs \<Rightarrow> bool" where
  "pairs_ok ps \<longleftrightarrow> sorted (map fst ps) \<and> distinct (map fst ps)"

definition labels_ok :: "(string \<Rightarrow> u64) \<Rightarrow> labels \<Rightarrow> bool" where
  "labels_ok mh l \<longleftrightarrow> pairs_ok (lab_pairs l) \<and>
     lab_hash l = (if lab_pairs l = [] then 0 else mh (hash_bytes (lab_pairs l)))"

subsection \<open>Sorting and merging\<close>

lemma mset_shift_insert [simp]: "mset (shift_insert p qs) = add_mset p (mset qs)"
  by (induction qs) auto

lemma set_shift_insert [simp]: "set (shift_insert p qs) = insert p (set qs)"
  by (metis mset_shift_insert set_mset_add_mset_insert set_mset_mset)

lemma sorted_shift_insert:
  "sorted_wrt (\<ge>) (map fst qs) \<Longrightarrow> sorted_wrt (\<ge>) (map fst (shift_insert p qs))"
  by (induction qs) (auto simp: not_less)

lemma sortPairs_loop:
  "sorted_wrt (\<ge>) (map fst acc) \<Longrightarrow>
   sorted_wrt (\<ge>) (map fst (foldl (\<lambda>prefix p. shift_insert p prefix) acc ps)) \<and>
   mset (foldl (\<lambda>prefix p. shift_insert p prefix) acc ps) = mset acc + mset ps"
  by (induction ps arbitrary: acc) (auto simp: sorted_shift_insert)

lemma mset_sortPairs [simp]: "mset (sortPairs ps) = mset ps"
  using sortPairs_loop[of "[]" ps] by (simp add: sortPairs_def)

lemma set_sortPairs [simp]: "set (sortPairs ps) = set ps"
  by (metis mset_sortPairs set_mset_mset)

lemma sorted_sortPairs: "sorted (map fst (sortPairs ps))"
  using sortPairs_loop[of "[]" ps]
  by (simp add: sortPairs_def rev_map[symmetric] sorted_wrt_rev)

lemma replacePair_gput:
  "(case replacePair m k v of Some m' \<Rightarrow> m' | None \<Rightarrow> m @ [(k, v)]) = gput k v m"
proof (induction m)
  case (Cons p m)
  then show ?case by (cases p) (auto split: option.splits)
qed simp

lemma merge_pairs_gput: "merge_pairs base extra = foldl (\<lambda>m (k, v). gput k v m) base extra"
  by (simp add: merge_pairs_def replacePair_gput)

lemma gowf_foldl_gput: "gowf m \<Longrightarrow> gowf (foldl (\<lambda>m (k, v). gput k v m) m ps)"
  by (induction ps arbitrary: m) auto

lemma map_of_foldl_gput:
  "map_of (foldl (\<lambda>m (k, v). gput k v m) m ps) = map_of m ++ map_of (rev ps)"
  by (induction ps arbitrary: m) (auto simp: map_add_def fun_eq_iff split: option.splits)

lemma foldl_gput_nonempty: "m \<noteq> [] \<or> ps \<noteq> [] \<Longrightarrow> foldl (\<lambda>m (k, v). gput k v m) m ps \<noteq> []"
proof (induction ps arbitrary: m)
  case (Cons p ps)
  have "gput (fst p) (snd p) m \<noteq> []" by (cases m) (auto split: if_splits)
  then show ?case using Cons.IH by (simp add: case_prod_beta)
qed simp

lemma find_pair_map_of: "find_pair ps k = map_of ps k"
  by (induction ps) auto

lemma map_of_sortPairs: "distinct (map fst ps) \<Longrightarrow> map_of (sortPairs ps) = map_of ps"
  by (rule map_of_inject_set[THEN iffD2])
    (auto simp: mset_eq_imp_distinct_iff[of "map fst (sortPairs ps)" "map fst ps"])

lemma distinct_fst_sortPairs [simp]: "distinct (map fst (sortPairs ps)) = distinct (map fst ps)"
  by (rule mset_eq_imp_distinct_iff) simp

lemma pairs_ok_sortPairs: "distinct (map fst ps) \<Longrightarrow> pairs_ok (sortPairs ps)"
  by (simp add: pairs_ok_def sorted_sortPairs)

text \<open>Sorted pairs with distinct keys are determined by the map they stand for.\<close>

lemma pairs_ok_unique:
  assumes "pairs_ok ps" "pairs_ok qs" "map_of ps = map_of qs"
  shows "ps = qs"
proof -
  have d: "distinct (map fst ps)" "distinct (map fst qs)" using assms by (auto simp: pairs_ok_def)
  then have set: "set ps = set qs" using map_of_inject_set[OF d] assms(3) by simp
  then have "inj_on fst (set ps \<union> set qs)" using d by (simp add: distinct_map)
  then show ?thesis
    using map_sorted_distinct_set_unique[of fst ps qs] assms set by (simp add: pairs_ok_def)
qed

lemma buildLabels_spec:
  assumes "distinct (map fst base)" "base \<noteq> [] \<or> extra \<noteq> []"
  shows "labels_ok mh (buildLabels mh base extra)"
    and "map_of (lab_pairs (buildLabels mh base extra)) = map_of base ++ map_of (rev extra)"
proof -
  let ?m = "foldl (\<lambda>m (k, v). gput k v m) base extra"
  have d: "distinct (map fst ?m)" using gowf_foldl_gput[of base extra] assms by (simp add: gowf_def)
  have "sortPairs ?m \<noteq> []"
    using foldl_gput_nonempty[OF assms(2)] by (metis mset_sortPairs mset_zero_iff)
  then show "labels_ok mh (buildLabels mh base extra)"
    using d by (simp add: labels_ok_def buildLabels_def merge_pairs_gput pairs_ok_sortPairs Let_def)
  show "map_of (lab_pairs (buildLabels mh base extra)) = map_of base ++ map_of (rev extra)"
    using d by (simp add: buildLabels_def merge_pairs_gput map_of_sortPairs map_of_foldl_gput Let_def)
qed

lemma kv_pairs_nonempty: "length kv mod 2 = 0 \<Longrightarrow> kv \<noteq> [] \<Longrightarrow> kv_pairs kv \<noteq> []"
  by (cases kv rule: kv_pairs.cases) auto

lemma labels_eqI: "labels_ok mh l \<Longrightarrow> labels_ok mh l' \<Longrightarrow> map_of (lab_pairs l) = map_of (lab_pairs l') \<Longrightarrow> l = l'"
proof -
  assume ok: "labels_ok mh l" "labels_ok mh l'" and m: "map_of (lab_pairs l) = map_of (lab_pairs l')"
  then have p: "lab_pairs l = lab_pairs l'" by (intro pairs_ok_unique) (auto simp: labels_ok_def)
  with ok show "l = l'" by (simp add: labels_ok_def)
qed

lemma no_labels_ok [simp]: "labels_ok mh no_labels"
  by (simp add: labels_ok_def no_labels_def pairs_ok_def)

lemma NewLabels_spec:
  assumes "NewLabels mh kv = Some l"
  shows "labels_ok mh l \<and> map_of (lab_pairs l) = map_of (rev (kv_pairs kv))"
  using assms buildLabels_spec[of "[]" "kv_pairs kv" mh] kv_pairs_nonempty[of kv]
  no_labels_ok[of mh]
  by (auto simp: NewLabels_def split: if_splits) (simp add: no_labels_def)

lemma With_spec:
  assumes "labels_ok mh l" "With mh l kv = Some l'"
  shows "labels_ok mh l' \<and> map_of (lab_pairs l') = map_of (lab_pairs l) ++ map_of (rev (kv_pairs kv))"
  using assms buildLabels_spec[of "lab_pairs l" "kv_pairs kv" mh] kv_pairs_nonempty[of kv]
  by (auto simp: With_def labels_ok_def pairs_ok_def split: if_splits)

lemma kv_pairs_concat [simp]: "kv_pairs (concat (map (\<lambda>(k, v). [k, v]) m)) = m"
  by (induction m) auto

lemma even_concat: "even (length (concat (map (\<lambda>(k, v). [k, v]) (m :: pairs))))"
  by (induction m) auto

lemma LabelsFromMap_build: "m \<noteq> [] \<Longrightarrow> LabelsFromMap mh m = buildLabels mh [] m"
  using even_concat[of m] by (cases m) (auto simp: LabelsFromMap_def NewLabels_def even_iff_mod_2_eq_zero)

lemma LabelsFromMap_spec:
  assumes "gowf m"
  shows "labels_ok mh (LabelsFromMap mh m) \<and> map_of (lab_pairs (LabelsFromMap mh m)) = map_of m"
proof (cases "m = []")
  case True
  then show ?thesis by (simp add: LabelsFromMap_def) (simp add: no_labels_def)
next
  case False
  have "map_of (rev m) = map_of m"
    using assms by (intro map_of_inject_set[THEN iffD2]) (auto simp: gowf_def rev_map[symmetric])
  then show ?thesis
    using False buildLabels_spec[of "[]" m mh] by (simp add: LabelsFromMap_build)
qed

lemma labels_Map_spec: "map_of (labels_Map l) = map_of (rev (lab_pairs l))" "gowf (labels_Map l)"
  by (simp_all add: labels_Map_def map_of_foldl_gput gowf_foldl_gput)

text \<open>
  Building a label set keeps its keys strictly ascending, keeps for each key the last
  value given, and does not depend on the order of the arguments: two argument lists that
  stand for the same map give the same label set, hash included.
\<close>

theorem NewLabels_canonical:
  assumes "NewLabels mh kv = Some l" and "NewLabels mh kv' = Some l'"
    and "map_of (rev (kv_pairs kv)) = map_of (rev (kv_pairs kv'))"
  shows "sorted (map fst (lab_pairs l)) \<and> distinct (map fst (lab_pairs l)) \<and>
    (\<forall>k. Get l k = map_of (rev (kv_pairs kv)) k) \<and> l = l' \<and> labels_Equal l l'"
proof -
  have l: "labels_ok mh l" "map_of (lab_pairs l) = map_of (rev (kv_pairs kv))"
    and l': "labels_ok mh l'" "map_of (lab_pairs l') = map_of (rev (kv_pairs kv'))"
    using NewLabels_spec assms by auto
  then have "l = l'" using assms(3) by (intro labels_eqI[OF l(1) l'(1)]) simp
  then show ?thesis
    using l by (simp add: labels_ok_def pairs_ok_def Get_def find_pair_map_of labels_Equal_def)
qed

theorem NewLabels_canonical_witness:
  "NewLabels (\<lambda>_. 7) [''b'', ''1'', ''a'', ''2'', ''b'', ''3''] =
   NewLabels (\<lambda>_. 7) [''a'', ''2'', ''b'', ''3'']"
proof -
  obtain l where l: "NewLabels (\<lambda>_. 7) [''b'', ''1'', ''a'', ''2'', ''b'', ''3''] = Some l"
    by (simp add: NewLabels_def)
  obtain l' where l': "NewLabels (\<lambda>_. 7) [''a'', ''2'', ''b'', ''3''] = Some l'"
    by (simp add: NewLabels_def)
  have "map_of (rev (kv_pairs [''b'', ''1'', ''a'', ''2'', ''b'', ''3''])) =
      map_of (rev (kv_pairs [''a'', ''2'', ''b'', ''3'']))"
    by (simp add: fun_eq_iff)
  from NewLabels_canonical[OF l l' this] l l' show ?thesis by simp
qed

text \<open>
  \<open>With\<close> adds or replaces and touches nothing else: after it, a key given in the
  arguments has the last value given and every other key its old one; the result is a
  well-formed set again.
\<close>

theorem With_Get:
  assumes "labels_ok mh l" and "With mh l kv = Some l'"
  shows "labels_ok mh l' \<and>
    Get l' k = (case map_of (rev (kv_pairs kv)) k of Some v \<Rightarrow> Some v | None \<Rightarrow> Get l k)"
  using With_spec[OF assms]
  by (auto simp: Get_def find_pair_map_of map_add_def split: option.splits)

theorem With_Get_witness:
  "Get (the (With (\<lambda>_. 7) (the (NewLabels (\<lambda>_. 7) [''a'', ''1''])) [''b'', ''2''])) ''a'' = Some ''1''"
proof -
  obtain l where l: "NewLabels (\<lambda>_. 7) [''a'', ''1''] = Some l" by (simp add: NewLabels_def)
  obtain l' where l': "With (\<lambda>_. 7) l [''b'', ''2''] = Some l'" by (simp add: With_def)
  have ok: "labels_ok (\<lambda>_. 7) l" "map_of (lab_pairs l) = map_of [(''a'', ''1'')]"
    using NewLabels_spec[OF l] by auto
  have "Get l' ''a'' = Get l ''a''" using With_Get[OF ok(1) l', of "''a''"] by simp
  then show ?thesis using l l' ok by (simp add: Get_def find_pair_map_of)
qed

lemma labels_wire:
  assumes "labels_ok mh l" and "mset m = mset (labels_Map l)"
  shows "LabelsFromMap mh m = l"
proof -
  have wf: "gowf m"
    using labels_Map_spec(2)[of l] assms(2) unfolding gowf_def
    by (metis mset_map mset_eq_imp_distinct_iff)
  have "set m = set (labels_Map l)" using assms(2) by (rule mset_eq_setD)
  then have "map_of m = map_of (labels_Map l)"
    using wf labels_Map_spec(2)[of l] by (intro map_of_inject_set[THEN iffD2]) (auto simp: gowf_def)
  also have "\<dots> = map_of (lab_pairs l)"
    using assms(1) labels_Map_spec(1)[of l] map_of_inject_set[of "rev (lab_pairs l)" "lab_pairs l"]
    by (simp add: labels_ok_def pairs_ok_def rev_map[symmetric])
  finally show ?thesis using LabelsFromMap_spec[OF wf, of mh] assms(1) by (intro labels_eqI) auto
qed

text \<open>
  Tags survive the wire: turning a label set into a map and building labels from that
  map, in whatever order the map is ranged over, gives the same label set back.
\<close>

theorem LabelsFromMap_Map:
  assumes "labels_ok mh l" and "mset m = mset (labels_Map l)"
  shows "LabelsFromMap mh m = l"
  using assms by (rule labels_wire)

theorem LabelsFromMap_Map_witness:
  "LabelsFromMap (\<lambda>_. 7) [(''b'', ''2''), (''a'', ''1'')] =
   \<lparr>lab_pairs = [(''a'', ''1''), (''b'', ''2'')], lab_hash = 7\<rparr>"
  by (rule LabelsFromMap_Map)
    (simp_all add: labels_ok_def pairs_ok_def labels_Map_def less_eq_list_code)

end
