(* ===== verification/Aggregate.thy ===== *)
theory Aggregate
  imports Histogram Labels
begin

text \<open>
  \<open>internal/metrics/aggregate.go\<close>: one series' accumulated observations, and the map of
  series keyed by metric name and label hash, with a chain of aggregates per key for label
  sets whose hashes collide. The locale \<open>series_table\<close> is the contract the recorder and the
  store rely on (series do not interfere); it is interpreted on \<open>aggMap\<close>.
\<close>

subsection \<open>One series\<close>

record 'h aggregate =
  ag_metric :: string
  ag_labels :: labels
  ag_kind :: MetricKind
  ag_count :: u64
  ag_sum :: float64
  ag_minVal :: float64
  ag_maxVal :: float64
  ag_nonZero :: u64
  ag_gauge :: float64
  ag_hist :: "'h option"

definition newAggregate ::
  "'h hdr \<Rightarrow> string \<Rightarrow> labels \<Rightarrow> MetricKind \<Rightarrow> HistogramConfig \<Rightarrow> 'h aggregate" where
  "newAggregate L metric ls kind cfg =
     \<lparr>ag_metric = metric, ag_labels = ls, ag_kind = kind, ag_count = 0, ag_sum = Fin 0,
      ag_minVal = PInf, ag_maxVal = NInf, ag_nonZero = 0, ag_gauge = Fin 0,
      ag_hist = (if kind = KindTrend then Some (hist_New L cfg) else None)\<rparr>"

definition observe ::
  "platform \<Rightarrow> 'h hdr \<Rightarrow> HistogramConfig \<Rightarrow> 'h aggregate \<Rightarrow> float64 \<Rightarrow> bool \<Rightarrow> 'h aggregate" where
  "observe P L cfg a value truthy =
     (let a = a\<lparr>ag_count := ag_count a + 1\<rparr> in
      case ag_kind a of
        KindGauge \<Rightarrow> a\<lparr>ag_gauge := value\<rparr>
      | KindRate \<Rightarrow> if truthy then a\<lparr>ag_nonZero := ag_nonZero a + 1\<rparr> else a
      | _ \<Rightarrow>
          let a = a\<lparr>ag_sum := f_add (ag_sum a) value\<rparr>;
              a = (if f_lt value (ag_minVal a) then a\<lparr>ag_minVal := value\<rparr> else a);
              a = (if f_lt (ag_maxVal a) value then a\<lparr>ag_maxVal := value\<rparr> else a)
          in (case ag_hist a of
                None \<Rightarrow> a
              | Some h \<Rightarrow> a\<lparr>ag_hist := Some (hdr_RecordValue L h (ScaleValue P cfg value))\<rparr>))"

definition mergeFrom :: "'h hdr \<Rightarrow> 'h aggregate \<Rightarrow> 'h aggregate \<Rightarrow> 'h aggregate" where
  "mergeFrom L a other =
     (if ag_count other = 0 then a
      else let a = a\<lparr>ag_count := ag_count a + ag_count other,
                     ag_sum := f_add (ag_sum a) (ag_sum other),
                     ag_nonZero := ag_nonZero a + ag_nonZero other\<rparr>;
               a = (if f_lt (ag_minVal other) (ag_minVal a) then a\<lparr>ag_minVal := ag_minVal other\<rparr> else a);
               a = (if f_lt (ag_maxVal a) (ag_maxVal other) then a\<lparr>ag_maxVal := ag_maxVal other\<rparr> else a);
               a = (if ag_kind a = KindGauge then a\<lparr>ag_gauge := f_add (ag_gauge a) (ag_gauge other)\<rparr> else a)
           in (case (ag_hist a, ag_hist other) of
                 (Some h, Some g) \<Rightarrow> a\<lparr>ag_hist := Some (hdr_Merge L h g)\<rparr>
               | _ \<Rightarrow> a))"

definition agg_reset :: "'h hdr \<Rightarrow> 'h aggregate \<Rightarrow> 'h aggregate" where
  "agg_reset L a =
     a\<lparr>ag_count := 0, ag_sum := Fin 0, ag_nonZero := 0, ag_gauge := Fin 0,
       ag_minVal := PInf, ag_maxVal := NInf, ag_hist := map_option (hdr_Reset L) (ag_hist a)\<rparr>"

definition agg_min :: "'h aggregate \<Rightarrow> float64" where
  "agg_min a = (if ag_count a = 0 \<or> ag_minVal a = PInf then Fin 0 else ag_minVal a)"

definition agg_max :: "'h aggregate \<Rightarrow> float64" where
  "agg_max a = (if ag_count a = 0 \<or> ag_maxVal a = NInf then Fin 0 else ag_maxVal a)"

subsection \<open>The map of series\<close>

type_synonym seriesKey = "string \<times> u64"

record 'h aggMap =
  am_entries :: "(seriesKey, 'h aggregate list) gomap"
  am_cfg :: HistogramConfig
  am_size :: nat

definition newAggMap :: "HistogramConfig \<Rightarrow> 'h aggMap" where
  "newAggMap cfg = \<lparr>am_entries = [], am_cfg = cfg, am_size = 0\<rparr>"

fun chain_find :: "'h aggregate list \<Rightarrow> labels \<Rightarrow> 'h aggregate option" where
  "chain_find [] ls = None"
| "chain_find (a # chain) ls = (if labels_Equal (ag_labels a) ls then Some a else chain_find chain ls)"

definition chain_of :: "'h aggMap \<Rightarrow> seriesKey \<Rightarrow> 'h aggregate list" where
  "chain_of m key = (case map_of (am_entries m) key of None \<Rightarrow> [] | Some chain \<Rightarrow> chain)"

definition am_find :: "'h aggMap \<Rightarrow> string \<Rightarrow> labels \<Rightarrow> 'h aggregate option" where
  "am_find m metric ls = chain_find (chain_of m (metric, lab_hash ls)) ls"

text \<open>\<open>getOrCreate\<close> returns the map with the series present; the caller then works on it
  through the pointer, which \<open>am_modify\<close> models.\<close>

definition getOrCreate ::
  "'h hdr \<Rightarrow> 'h aggMap \<Rightarrow> string \<Rightarrow> labels \<Rightarrow> MetricKind \<Rightarrow> 'h aggMap" where
  "getOrCreate L m metric ls kind =
     (let key = (metric, lab_hash ls); chain = chain_of m key in
      case chain_find chain ls of
        Some a \<Rightarrow> m
      | None \<Rightarrow>
          let created = newAggregate L metric ls kind (am_cfg m) in
          m\<lparr>am_entries := gput key (created # chain) (am_entries m), am_size := am_size m + 1\<rparr>)"

fun chain_modify :: "'h aggregate list \<Rightarrow> labels \<Rightarrow> ('h aggregate \<Rightarrow> 'h aggregate) \<Rightarrow> 'h aggregate list" where
  "chain_modify [] ls f = []"
| "chain_modify (a # chain) ls f =
     (if labels_Equal (ag_labels a) ls then f a # chain else a # chain_modify chain ls f)"

definition am_modify ::
  "'h aggMap \<Rightarrow> string \<Rightarrow> labels \<Rightarrow> ('h aggregate \<Rightarrow> 'h aggregate) \<Rightarrow> 'h aggMap" where
  "am_modify m metric ls f =
     (let key = (metric, lab_hash ls) in
      case map_of (am_entries m) key of
        None \<Rightarrow> m
      | Some chain \<Rightarrow> m\<lparr>am_entries := gput key (chain_modify chain ls f) (am_entries m)\<rparr>)"

text \<open>\<open>each\<close> ranges over the map in an order Go leaves open: the argument \<open>ord\<close>.\<close>

definition each :: "((seriesKey \<times> 'h aggregate list) list \<Rightarrow> (seriesKey \<times> 'h aggregate list) list) \<Rightarrow>
    'h aggMap \<Rightarrow> 'h aggregate list" where
  "each ord m = concat (map snd (ord (am_entries m)))"

definition resetAll :: "'h hdr \<Rightarrow> 'h aggMap \<Rightarrow> 'h aggMap" where
  "resetAll L m = m\<lparr>am_entries := map (\<lambda>(k, chain). (k, map (agg_reset L) chain)) (am_entries m)\<rparr>"

definition am_len :: "'h aggMap \<Rightarrow> nat" where
  "am_len m = am_size m"

subsection \<open>Invariant\<close>

definition agg_ok :: "'h hdr \<Rightarrow> HistogramConfig \<Rightarrow> nat \<Rightarrow> 'h aggregate \<Rightarrow> bool" where
  "agg_ok L cfg n a \<longleftrightarrow>
     (case ag_hist a of None \<Rightarrow> ag_kind a \<noteq> KindTrend
      | Some h \<Rightarrow> ag_kind a = KindTrend \<and> hdr_is L cfg n h)"

definition chain_ok :: "seriesKey \<Rightarrow> 'h aggregate list \<Rightarrow> bool" where
  "chain_ok key chain \<longleftrightarrow>
     (\<forall>a \<in> set chain. ag_metric a = fst key \<and> lab_hash (ag_labels a) = snd key) \<and>
     distinct (map ag_labels chain)"

definition am_ok :: "'h aggMap \<Rightarrow> bool" where
  "am_ok m \<longleftrightarrow> gowf (am_entries m) \<and>
     (\<forall>e \<in> set (am_entries m). chain_ok (fst e) (snd e)) \<and>
     am_size m = sum_list (map (length \<circ> snd) (am_entries m))"

text \<open>A change to an aggregate that leaves its identity alone.\<close>

definition keeps_series :: "('h aggregate \<Rightarrow> 'h aggregate) \<Rightarrow> bool" where
  "keeps_series f \<longleftrightarrow> (\<forall>a. ag_metric (f a) = ag_metric a \<and> ag_labels (f a) = ag_labels a)"

lemma labels_Equal_iff [simp]: "labels_Equal l l' \<longleftrightarrow> l = l'"
  by (auto simp: labels_Equal_def)

lemma keeps_series_observe [simp]: "keeps_series (\<lambda>a. observe P L cfg a v t)"
  by (auto simp: keeps_series_def observe_def Let_def split: MetricKind.splits option.splits)

lemma keeps_series_mergeFrom [simp]: "keeps_series (\<lambda>a. mergeFrom L a other)"
  by (auto simp: keeps_series_def mergeFrom_def Let_def split: option.splits)

lemma keeps_series_reset [simp]: "keeps_series (agg_reset L)"
  by (simp add: keeps_series_def agg_reset_def)

subsection \<open>Chains\<close>

lemma chain_find_Some: "chain_find chain ls = Some a \<Longrightarrow> a \<in> set chain \<and> ag_labels a = ls"
  by (induction chain) (auto split: if_splits)

lemma chain_find_None: "chain_find chain ls = None \<longleftrightarrow> ls \<notin> ag_labels ` set chain"
  by (induction chain) auto

lemma chain_find_modify:
  "keeps_series f \<Longrightarrow> chain_find (chain_modify chain ls f) ls' =
     (if ls' = ls then map_option f (chain_find chain ls) else chain_find chain ls')"
  by (induction chain) (auto simp: keeps_series_def)

lemma labels_chain_modify: "keeps_series f \<Longrightarrow> map ag_labels (chain_modify chain ls f) = map ag_labels chain"
  by (induction chain) (auto simp: keeps_series_def)

lemma set_chain_modify: "set (chain_modify chain ls f) \<subseteq> set chain \<union> f ` set chain"
  by (induction chain) auto

lemma chain_ok_modify: "keeps_series f \<Longrightarrow> chain_ok key chain \<Longrightarrow> chain_ok key (chain_modify chain ls f)"
  using set_chain_modify[of chain ls f] labels_chain_modify[of f chain ls]
  by (auto simp: chain_ok_def keeps_series_def)

lemma length_chain_modify [simp]: "length (chain_modify chain ls f) = length chain"
  by (induction chain) auto

lemma chain_of_gput [simp]:
  "chain_of (m\<lparr>am_entries := gput k c (am_entries m)\<rparr>) k' = (if k' = k then c else chain_of m k')"
  "chain_of (m\<lparr>am_entries := gput k c (am_entries m), am_size := s\<rparr>) k' = (if k' = k then c else chain_of m k')"
  by (simp_all add: chain_of_def)

subsection \<open>Lookup after each operation\<close>

lemma am_find_getOrCreate:
  "am_find (getOrCreate L m metric ls kind) metric' ls' =
     (if (metric', ls') = (metric, ls) \<and> am_find m metric ls = None
      then Some (newAggregate L metric ls kind (am_cfg m)) else am_find m metric' ls')"
  by (auto simp: am_find_def getOrCreate_def Let_def newAggregate_def split: option.splits)

lemma am_find_modify:
  assumes "keeps_series f"
  shows "am_find (am_modify m metric ls f) metric' ls' =
     (if (metric', ls') = (metric, ls) then map_option f (am_find m metric ls) else am_find m metric' ls')"
proof (cases "map_of (am_entries m) (metric, lab_hash ls)")
  case None
  then have "am_find m metric ls = None" by (simp add: am_find_def chain_of_def)
  with None show ?thesis by (simp add: am_modify_def)
next
  case (Some chain)
  then have "chain_of m (metric, lab_hash ls) = chain" by (simp add: chain_of_def)
  with Some assms show ?thesis by (auto simp: am_find_def am_modify_def Let_def chain_find_modify)
qed

lemma sum_length_gput:
  "gowf m \<Longrightarrow> sum_list (map (length \<circ> snd) (gput k c m)) + (case map_of m k of None \<Rightarrow> 0 | Some d \<Rightarrow> length d) =
   sum_list (map (length \<circ> snd) m) + length c"
proof (induction m)
  case (Cons p m)
  then show ?case by (cases p) (auto simp: gowf_def split: option.splits)
qed simp

lemma chain_of_ok: "am_ok m \<Longrightarrow> chain_ok key (chain_of m key)"
  by (cases "map_of (am_entries m) key")
    (simp add: chain_of_def chain_ok_def, fastforce simp: am_ok_def chain_of_def dest: map_of_SomeD)

lemma am_ok_gput:
  assumes "am_ok m" "chain_ok key chain"
  shows "am_ok (m\<lparr>am_entries := gput key chain (am_entries m),
    am_size := am_size m + length chain - length (chain_of m key)\<rparr>)"
proof -
  have wf: "gowf (am_entries m)" using assms by (simp add: am_ok_def)
  have "\<forall>e \<in> set (gput key chain (am_entries m)). chain_ok (fst e) (snd e)"
    using assms set_gput_subset[of key chain "am_entries m"] unfolding am_ok_def by fastforce
  then show ?thesis
    using assms wf sum_length_gput[OF wf, of key chain]
    by (auto simp: am_ok_def chain_of_def split: option.splits)
qed

lemma am_ok_getOrCreate: "am_ok m \<Longrightarrow> am_ok (getOrCreate L m metric ls kind)"
proof -
  assume ok: "am_ok m"
  let ?key = "(metric, lab_hash ls)"
  have c: "chain_ok ?key (chain_of m ?key)" using ok by (rule chain_of_ok)
  show ?thesis
  proof (cases "chain_find (chain_of m ?key) ls")
    case None
    then have "chain_ok ?key (newAggregate L metric ls kind (am_cfg m) # chain_of m ?key)"
      using c by (auto simp: chain_ok_def newAggregate_def chain_find_None)
    from am_ok_gput[OF ok this] show ?thesis using None by (simp add: getOrCreate_def Let_def)
  next
    case (Some a)
    then show ?thesis using ok by (simp add: getOrCreate_def Let_def)
  qed
qed

lemma am_ok_modify: "am_ok m \<Longrightarrow> keeps_series f \<Longrightarrow> am_ok (am_modify m metric ls f)"
proof -
  assume ok: "am_ok m" and f: "keeps_series f"
  let ?key = "(metric, lab_hash ls)"
  show ?thesis
  proof (cases "map_of (am_entries m) ?key")
    case (Some chain)
    then have ch: "chain_of m ?key = chain" by (simp add: chain_of_def)
    then have "chain_ok ?key (chain_modify chain ls f)"
      using chain_of_ok[OF ok, of ?key] f by (simp add: chain_ok_modify)
    from am_ok_gput[OF ok this] show ?thesis using Some ch by (simp add: am_modify_def Let_def)
  qed (use ok in \<open>simp add: am_modify_def\<close>)
qed

lemma am_cfg_getOrCreate [simp]: "am_cfg (getOrCreate L m metric ls kind) = am_cfg m"
  by (simp add: getOrCreate_def Let_def split: option.splits)

lemma am_cfg_modify [simp]: "am_cfg (am_modify m metric ls f) = am_cfg m"
  by (simp add: am_modify_def Let_def split: option.splits)

lemma am_size_getOrCreate:
  "am_size (getOrCreate L m metric ls kind) = am_size m + (if am_find m metric ls = None then 1 else 0)"
  by (auto simp: getOrCreate_def am_find_def Let_def split: option.splits)

lemma am_size_modify [simp]: "am_size (am_modify m metric ls f) = am_size m"
  by (simp add: am_modify_def Let_def split: option.splits)

lemma newAggMap_ok [simp]: "am_ok (newAggMap cfg)"
  by (simp add: am_ok_def newAggMap_def)

lemma am_find_newAggMap [simp]: "am_find (newAggMap cfg) metric ls = None"
  by (simp add: am_find_def newAggMap_def chain_of_def)

subsection \<open>Ranging over the series\<close>

definition orders :: "('a list \<Rightarrow> 'a list) \<Rightarrow> bool" where
  "orders ord \<longleftrightarrow> (\<forall>xs. mset (ord xs) = mset xs)"

lemma mset_concat_map: "mset (concat (map f xs)) = sum_list (map (mset \<circ> f) xs)"
  by (induction xs) auto

lemma mset_each: "orders ord \<Longrightarrow> mset (each ord m) = mset (concat (map snd (am_entries m)))"
proof -
  assume "orders ord"
  then have "mset (ord (am_entries m)) = mset (am_entries m)" by (simp add: orders_def)
  then show ?thesis
    unfolding each_def mset_concat_map by (rule mset_eq_sum_list_map)
qed

lemma length_each: "orders ord \<Longrightarrow> am_ok m \<Longrightarrow> length (each ord m) = am_size m"
proof -
  assume o: "orders ord" and ok: "am_ok m"
  have "length (each ord m) = length (concat (map snd (am_entries m)))"
    using mset_each[OF o] by (metis size_mset)
  then show ?thesis using ok by (simp add: am_ok_def length_concat comp_def)
qed

lemma set_each: "orders ord \<Longrightarrow> set (each ord m) = (\<Union>(k, chain) \<in> set (am_entries m). set chain)"
  using mset_each[of ord m] by (metis (no_types, lifting) mset_eq_setD UN_simps(10) set_concat set_map SUP_cong case_prod_beta)

lemma chain_find_iff:
  "distinct (map ag_labels chain) \<Longrightarrow> chain_find chain ls = Some a \<longleftrightarrow> a \<in> set chain \<and> ag_labels a = ls"
proof (induction chain)
  case (Cons b chain)
  then show ?case by (auto simp: image_iff)
qed simp

text \<open>\<open>each\<close> visits exactly the series a lookup finds.\<close>

lemma each_find:
  assumes "orders ord" "am_ok m"
  shows "a \<in> set (each ord m) \<longleftrightarrow> am_find m (ag_metric a) (ag_labels a) = Some a"
proof
  assume "a \<in> set (each ord m)"
  then obtain key chain where kc: "(key, chain) \<in> set (am_entries m)" "a \<in> set chain"
    using set_each[OF assms(1)] by auto
  have ok: "chain_ok key chain" using assms kc unfolding am_ok_def by fastforce
  have "map_of (am_entries m) key = Some chain"
    using assms kc by (auto simp: am_ok_def gowf_def)
  moreover have "key = (ag_metric a, lab_hash (ag_labels a))"
    using ok kc by (cases key) (auto simp: chain_ok_def)
  ultimately have "chain_of m (ag_metric a, lab_hash (ag_labels a)) = chain"
    by (simp add: chain_of_def)
  moreover have "chain_find chain (ag_labels a) = Some a"
    using ok kc(2) chain_find_iff[of chain] by (simp add: chain_ok_def)
  ultimately show "am_find m (ag_metric a) (ag_labels a) = Some a"
    by (simp only: am_find_def)
next
  assume "am_find m (ag_metric a) (ag_labels a) = Some a"
  then have "a \<in> set (chain_of m (ag_metric a, lab_hash (ag_labels a)))"
    unfolding am_find_def using chain_find_Some by blast
  then obtain chain where "map_of (am_entries m) (ag_metric a, lab_hash (ag_labels a)) = Some chain"
      and "a \<in> set chain"
    by (cases "map_of (am_entries m) (ag_metric a, lab_hash (ag_labels a))") (auto simp: chain_of_def)
  then show "a \<in> set (each ord m)"
    unfolding set_each[OF assms(1)] by (blast dest: map_of_SomeD)
qed

lemma am_find_series: "am_ok m \<Longrightarrow> am_find m metric ls = Some a \<Longrightarrow> ag_metric a = metric \<and> ag_labels a = ls"
  using chain_of_ok[of m "(metric, lab_hash ls)"]
  by (auto simp: am_find_def chain_ok_def dest: chain_find_Some)

lemma distinct_each:
  assumes "orders ord" "am_ok m"
  shows "distinct (each ord m)"
proof -
  have d: "distinct (map fst es) \<Longrightarrow> \<forall>e \<in> set es. chain_ok (fst e) (snd e) \<Longrightarrow> distinct (concat (map snd es))"
    for es :: "(seriesKey \<times> 'a aggregate list) list"
  proof (induction es)
    case (Cons p es)
    obtain k c where p: "p = (k, c)" by (cases p)
    have c: "chain_ok k c" "\<forall>e \<in> set es. chain_ok (fst e) (snd e)" "k \<notin> fst ` set es"
      using Cons.prems p by auto
    then have "distinct c" by (auto simp: chain_ok_def distinct_map)
    moreover have "set c \<inter> set (concat (map snd es)) = {}"
    proof -
      have "k = k'" if "a \<in> set c" "(k', c') \<in> set es" "a \<in> set c'" for a k' c'
        using c that by (cases k, cases k') (fastforce simp: chain_ok_def)
      then show ?thesis using c(3) by (fastforce simp: image_iff)
    qed
    ultimately show ?case using Cons p by simp
  qed simp
  have "distinct (concat (map snd (am_entries m)))"
    using assms(2) by (intro d) (auto simp: am_ok_def gowf_def)
  then show ?thesis using mset_each[OF assms(1)] by (metis mset_eq_imp_distinct_iff)
qed

lemma am_find_resetAll: "am_find (resetAll L m) metric ls = map_option (agg_reset L) (am_find m metric ls)"
proof -
  have "chain_of (resetAll L m) key = map (agg_reset L) (chain_of m key)" for key
  proof -
    have "map_of (map (\<lambda>(k, chain). (k, map (agg_reset L) chain)) es) key =
        map_option (map (agg_reset L)) (map_of es key)" for es
      by (induction es) auto
    then show ?thesis by (simp add: chain_of_def resetAll_def split: option.split)
  qed
  moreover have "chain_find (map (agg_reset L) chain) ls = map_option (agg_reset L) (chain_find chain ls)" for chain
    by (induction chain) (auto simp: agg_reset_def)
  ultimately show ?thesis by (simp add: am_find_def)
qed

lemma am_ok_resetAll: "am_ok m \<Longrightarrow> am_ok (resetAll L m)"
proof -
  assume ok: "am_ok m"
  have "chain_ok k c \<Longrightarrow> chain_ok k (map (agg_reset L) c)" for k c
    by (auto simp: chain_ok_def agg_reset_def comp_def)
  then show ?thesis using ok
    by (auto simp: am_ok_def resetAll_def gowf_def comp_def case_prod_beta)
qed

lemma am_cfg_resetAll [simp]: "am_cfg (resetAll L m) = am_cfg m" and am_size_resetAll [simp]: "am_size (resetAll L m) = am_size m"
  by (simp_all add: resetAll_def)

subsection \<open>The contract of the series map\<close>

text \<open>
  What the recorder and the store rely on. A series is created when missing and then worked
  on in place; \<open>upsert\<close> is that pair of calls. The client lemma: after any sequence of
  upserts a series has seen exactly the changes made under its own key, in order.
\<close>

locale series_table =
  fixes inv :: "'m \<Rightarrow> bool" and lookup :: "'m \<Rightarrow> 'k \<Rightarrow> 'a option"
    and create :: "'m \<Rightarrow> 'k \<Rightarrow> 'c \<Rightarrow> 'm" and fresh :: "'k \<Rightarrow> 'c \<Rightarrow> 'a"
    and modify :: "'m \<Rightarrow> 'k \<Rightarrow> ('a \<Rightarrow> 'a) \<Rightarrow> 'm" and ok :: "('a \<Rightarrow> 'a) \<Rightarrow> bool"
  assumes inv_create: "inv m \<Longrightarrow> inv (create m k c)"
    and inv_modify: "inv m \<Longrightarrow> ok f \<Longrightarrow> inv (modify m k f)"
    and lookup_create: "inv m \<Longrightarrow> lookup (create m k c) k' =
      (if k' = k \<and> lookup m k = None then Some (fresh k c) else lookup m k')"
    and lookup_modify: "inv m \<Longrightarrow> ok f \<Longrightarrow> lookup (modify m k f) k' =
      (if k' = k then map_option f (lookup m k) else lookup m k')"
begin

definition upsert :: "'m \<Rightarrow> 'k \<times> 'c \<times> ('a \<Rightarrow> 'a) \<Rightarrow> 'm" where
  "upsert m x = (case x of (k, c, f) \<Rightarrow> modify (create m k c) k f)"

definition replay :: "'a option \<Rightarrow> ('k \<times> 'c \<times> ('a \<Rightarrow> 'a)) list \<Rightarrow> 'a option" where
  "replay = foldl (\<lambda>v (k, c, f). Some (f (case v of Some a \<Rightarrow> a | None \<Rightarrow> fresh k c)))"

lemma inv_upsert: "inv m \<Longrightarrow> ok (snd (snd x)) \<Longrightarrow> inv (upsert m x)"
  by (cases x) (simp add: upsert_def inv_create inv_modify)

lemma lookup_upsert:
  "inv m \<Longrightarrow> ok f \<Longrightarrow> lookup (upsert m (k, c, f)) k' =
     (if k' = k then Some (f (case lookup m k of Some a \<Rightarrow> a | None \<Rightarrow> fresh k c)) else lookup m k')"
  by (auto simp: upsert_def inv_create lookup_modify lookup_create split: option.splits)

lemma lookup_upserts:
  "inv m \<Longrightarrow> \<forall>x \<in> set xs. ok (snd (snd x)) \<Longrightarrow>
   inv (foldl upsert m xs) \<and>
   lookup (foldl upsert m xs) k = replay (lookup m k) (filter (\<lambda>x. fst x = k) xs)"
proof (induction xs arbitrary: m)
  case Nil then show ?case by (simp add: replay_def)
next
  case (Cons x xs)
  obtain k' c f where x: "x = (k', c, f)" by (cases x)
  have "inv (upsert m x)" using Cons.prems by (intro inv_upsert) auto
  with Cons.IH[of "upsert m x"] Cons.prems show ?case
    by (auto simp: x lookup_upsert replay_def split: option.splits)
qed

end

definition am_inv :: "HistogramConfig \<Rightarrow> 'h aggMap \<Rightarrow> bool" where
  "am_inv cfg m \<longleftrightarrow> am_ok m \<and> am_cfg m = cfg"

interpretation am: series_table "am_inv cfg" "\<lambda>m k. am_find m (fst k) (snd k)"
  "\<lambda>m k kind. getOrCreate L m (fst k) (snd k) kind" "\<lambda>k kind. newAggregate L (fst k) (snd k) kind cfg"
  "\<lambda>m k f. am_modify m (fst k) (snd k) f" keeps_series
  for L cfg
  by unfold_locales
    (auto simp: am_inv_def am_ok_getOrCreate am_ok_modify am_find_getOrCreate am_find_modify prod_eq_iff)

subsection \<open>Merging is recording\<close>

definition observe_all ::
  "platform \<Rightarrow> 'h hdr \<Rightarrow> HistogramConfig \<Rightarrow> 'h aggregate \<Rightarrow> (float64 \<times> bool) list \<Rightarrow> 'h aggregate" where
  "observe_all P L cfg a obs = foldl (\<lambda>a (v, t). observe P L cfg a v t) a obs"

definition f_min :: "float64 \<Rightarrow> float64 \<Rightarrow> float64" where
  "f_min cur v = (if f_lt v cur then v else cur)"

definition f_max :: "float64 \<Rightarrow> float64 \<Rightarrow> float64" where
  "f_max cur v = (if f_lt cur v then v else cur)"

lemma f_min_simps [simp]: "f_min x NaN = x" "f_min PInf NInf = NInf" "f_min PInf (Fin r) = Fin r"
    "f_min x PInf = x" "f_min NInf x = NInf"
  by (cases x; simp add: f_min_def)+

lemma f_max_simps [simp]: "f_max x NaN = x" "f_max NInf PInf = PInf" "f_max NInf (Fin r) = Fin r"
    "f_max x NInf = x" "f_max PInf x = PInf"
  by (cases x; simp add: f_max_def)+

lemma f_min_assoc: "a \<noteq> NaN \<Longrightarrow> b \<noteq> NaN \<Longrightarrow> f_min (f_min a b) c = f_min a (f_min b c)"
  by (cases a; cases b; cases c; simp add: f_min_def)

lemma f_max_assoc: "a \<noteq> NaN \<Longrightarrow> b \<noteq> NaN \<Longrightarrow> f_max (f_max a b) c = f_max a (f_max b c)"
  by (cases a; cases b; cases c; simp add: f_max_def)

lemma f_min_not_NaN [simp]: "a \<noteq> NaN \<Longrightarrow> f_min a b \<noteq> NaN"
  by (cases a; cases b) (auto simp: f_min_def)

lemma f_max_not_NaN [simp]: "a \<noteq> NaN \<Longrightarrow> f_max a b \<noteq> NaN"
  by (cases a; cases b) (auto simp: f_max_def)

lemma foldl_not_NaN:
  "a \<noteq> NaN \<Longrightarrow> foldl f_min a vs \<noteq> NaN" "a \<noteq> NaN \<Longrightarrow> foldl f_max a vs \<noteq> NaN"
  by (induction vs arbitrary: a) simp_all

lemma foldl_f_min: "a \<noteq> NaN \<Longrightarrow> foldl f_min a vs = f_min a (foldl f_min PInf vs)"
proof (induction vs arbitrary: a)
  case (Cons v vs)
  have "foldl f_min (f_min a v) vs = f_min (f_min a v) (foldl f_min PInf vs)"
    by (rule Cons.IH) (simp add: Cons.prems)
  moreover have "foldl f_min (f_min PInf v) vs = f_min (f_min PInf v) (foldl f_min PInf vs)"
    by (rule Cons.IH) simp
  moreover have "f_min a (f_min PInf v) = f_min a v" by (cases v) simp_all
  ultimately show ?case using Cons.prems 
    by (metis foldl_Cons f_min_assoc f_min_not_NaN float64.distinct(1))
qed simp

lemma foldl_f_max: "a \<noteq> NaN \<Longrightarrow> foldl f_max a vs = f_max a (foldl f_max NInf vs)"
proof (induction vs arbitrary: a)
  case (Cons v vs)
  have "foldl f_max (f_max a v) vs = f_max (f_max a v) (foldl f_max NInf vs)"
    by (rule Cons.IH) (simp add: Cons.prems)
  moreover have "foldl f_max (f_max NInf v) vs = f_max (f_max NInf v) (foldl f_max NInf vs)"
    by (rule Cons.IH) simp
  moreover have "f_max a (f_max NInf v) = f_max a v" by (cases v) simp_all
  ultimately show ?case using Cons.prems 
    by (metis foldl_Cons f_max_assoc f_max_not_NaN float64.distinct(3))
qed simp

definition bump :: "int list \<Rightarrow> nat \<Rightarrow> int list" where
  "bump cs i = cs[i := cs ! i + 1]"

lemma length_foldl_bump [simp]: "length (foldl bump cs is) = length cs"
  by (induction "is" arbitrary: cs) (auto simp: bump_def)

lemma map2_bump:
  "i < length ds \<Longrightarrow> length cs = length ds \<Longrightarrow> map2 (+) cs (bump ds i) = bump (map2 (+) cs ds) i"
  by (rule nth_equalityI) (auto simp: bump_def nth_list_update)

lemma foldl_bump_add:
  "length cs = length ds \<Longrightarrow> \<forall>i \<in> set is. i < length ds \<Longrightarrow>
   foldl bump (map2 (+) cs ds) is = map2 (+) cs (foldl bump ds is)"
proof (induction "is" arbitrary: ds)
  case (Cons i ys)
  then have "foldl bump (map2 (+) cs (bump ds i)) ys = map2 (+) cs (foldl bump (bump ds i) ys)"
    by (intro Cons.IH) (auto simp: bump_def)
  then show ?case using Cons.prems by (simp add: map2_bump)
qed simp

lemma map2_add_zero: "map2 (+) cs (replicate (length cs) (0 :: int)) = cs"
  by (rule nth_equalityI) auto

text \<open>What a sequence of observations leaves in the parts of an aggregate that merge exactly.\<close>

lemma observe_kind [simp]: "ag_kind (observe P L cfg a v t) = ag_kind a"
  by (auto simp: observe_def Let_def split: MetricKind.splits option.splits)

lemma observe_count [simp]: "ag_count (observe P L cfg a v t) = ag_count a + 1"
  by (auto simp: observe_def Let_def split: MetricKind.splits option.splits)

lemma observe_minmax:
  "ag_kind a = KindTrend \<or> ag_kind a = KindCounter \<Longrightarrow>
   ag_minVal (observe P L cfg a v t) = f_min (ag_minVal a) v \<and>
   ag_maxVal (observe P L cfg a v t) = f_max (ag_maxVal a) v \<and>
   ag_nonZero (observe P L cfg a v t) = ag_nonZero a \<and>
   ag_hist (observe P L cfg a v t) = map_option (\<lambda>h. hdr_RecordValue L h (ScaleValue P cfg v)) (ag_hist a)"
  by (auto simp: observe_def Let_def f_min_def f_max_def split: MetricKind.splits option.splits)

lemma observe_rate:
  "ag_kind a = KindRate \<Longrightarrow> ag_nonZero (observe P L cfg a v t) = ag_nonZero a + (if t then 1 else 0) \<and>
   ag_minVal (observe P L cfg a v t) = ag_minVal a \<and> ag_maxVal (observe P L cfg a v t) = ag_maxVal a \<and>
   ag_hist (observe P L cfg a v t) = ag_hist a"
  by (auto simp: observe_def Let_def)

lemma observe_all_kind [simp]: "ag_kind (observe_all P L cfg a obs) = ag_kind a"
  by (induction obs arbitrary: a) (auto simp: observe_all_def)

lemma observe_all_count: "ag_count (observe_all P L cfg a obs) = ag_count a + of_nat (length obs)"
  by (induction obs arbitrary: a) (auto simp: observe_all_def algebra_simps)

lemma observe_all_minmax:
  "ag_kind a = KindTrend \<or> ag_kind a = KindCounter \<Longrightarrow>
   ag_minVal (observe_all P L cfg a obs) = foldl f_min (ag_minVal a) (map fst obs) \<and>
   ag_maxVal (observe_all P L cfg a obs) = foldl f_max (ag_maxVal a) (map fst obs) \<and>
   ag_nonZero (observe_all P L cfg a obs) = ag_nonZero a"
proof (induction obs arbitrary: a)
  case (Cons x obs)
  have "observe_all P L cfg a (x # obs) = observe_all P L cfg (observe P L cfg a (fst x) (snd x)) obs"
    by (simp add: observe_all_def case_prod_beta)
  then show ?case
    using Cons.IH[of "observe P L cfg a (fst x) (snd x)"] Cons.prems observe_minmax[of a P L cfg "fst x" "snd x"] by simp
qed (simp add: observe_all_def)

lemma observe_all_rate:
  "ag_kind a = KindRate \<Longrightarrow>
   ag_nonZero (observe_all P L cfg a obs) = ag_nonZero a + of_nat (length (filter snd obs))"
proof (induction obs arbitrary: a)
  case (Cons x obs)
  have "observe_all P L cfg a (x # obs) = observe_all P L cfg (observe P L cfg a (fst x) (snd x)) obs"
    by (simp add: observe_all_def case_prod_beta)
  then show ?case
    using Cons.IH[of "observe P L cfg a (fst x) (snd x)"] Cons.prems observe_rate[of a P L cfg "fst x" "snd x"]
    by (auto simp: algebra_simps)
qed (simp add: observe_all_def)

lemma observe_all_hist:
  assumes "hdr_laws L cfg n b" "h_Lowest cfg \<le> h_Highest cfg" "ag_kind a = KindTrend"
    and "ag_hist a = Some h" "hdr_is L cfg n h"
  shows "\<exists>h'. ag_hist (observe_all P L cfg a obs) = Some h' \<and> hdr_is L cfg n h' \<and>
    hdr_counts L h' = foldl bump (hdr_counts L h) (map (\<lambda>x. b (ScaleValue P cfg (fst x))) obs) \<and>
    (\<forall>x \<in> set obs. b (ScaleValue P cfg (fst x)) < n)"
  using assms(3-5)
proof (induction obs arbitrary: a h)
  case (Cons x obs)
  let ?v = "ScaleValue P cfg (fst x)" and ?a = "observe P L cfg a (fst x) (snd x)"
  have v: "h_Lowest cfg \<le> ?v" "?v \<le> h_Highest cfg"
    using assms(2) by (auto simp: ScaleValue_def Let_def)
  have r: "b ?v < n" "hdr_is L cfg n (hdr_RecordValue L h ?v)"
    "hdr_counts L (hdr_RecordValue L h ?v) = bump (hdr_counts L h) (b ?v)"
    using hdr_laws_Record[OF assms(1) Cons.prems(3) v] by (auto simp: bump_def)
  have "ag_hist ?a = Some (hdr_RecordValue L h ?v)" using observe_minmax[of a] Cons.prems by simp
  moreover have "observe_all P L cfg a (x # obs) = observe_all P L cfg ?a obs"
    by (simp add: observe_all_def case_prod_beta)
  ultimately show ?case
    using Cons.IH[of ?a "hdr_RecordValue L h ?v"] Cons.prems r by auto
qed (simp add: observe_all_def)

text \<open>\<open>trend_view\<close>: an aggregate holds exactly what recording \<open>obs\<close> into one would.\<close>

definition trend_view ::
  "platform \<Rightarrow> 'h hdr \<Rightarrow> HistogramConfig \<Rightarrow> nat \<Rightarrow> (int \<Rightarrow> nat) \<Rightarrow> 'h aggregate \<Rightarrow> (float64 \<times> bool) list \<Rightarrow> bool" where
  "trend_view P L cfg n b a obs \<longleftrightarrow>
     ag_kind a = KindTrend \<and> ag_count a = of_nat (length obs) \<and> ag_nonZero a = 0 \<and>
     ag_minVal a = foldl f_min PInf (map fst obs) \<and> ag_maxVal a = foldl f_max NInf (map fst obs) \<and>
     (\<exists>h. ag_hist a = Some h \<and> hdr_is L cfg n h \<and>
        hdr_counts L h = foldl bump (replicate n 0) (map (\<lambda>x. b (ScaleValue P cfg (fst x))) obs)) \<and>
     (\<forall>x \<in> set obs. b (ScaleValue P cfg (fst x)) < n)"

lemma trend_view_observe_all:
  assumes "hdr_laws L cfg n b" "h_Lowest cfg \<le> h_Highest cfg"
  shows "trend_view P L cfg n b (observe_all P L cfg (newAggregate L metric ls KindTrend cfg) obs) obs"
proof -
  let ?a = "newAggregate L metric ls KindTrend cfg"
  have a: "ag_kind ?a = KindTrend" "ag_hist ?a = Some (hist_New L cfg)" "ag_count ?a = 0" "ag_nonZero ?a = 0"
    "ag_minVal ?a = PInf" "ag_maxVal ?a = NInf" by (simp_all add: newAggregate_def)
  have h: "hdr_is L cfg n (hist_New L cfg)" "hdr_counts L (hist_New L cfg) = replicate n 0"
    using hdr_laws_New[OF assms(1)] by auto
  have "\<exists>h'. ag_hist (observe_all P L cfg ?a obs) = Some h' \<and> hdr_is L cfg n h' \<and>
      hdr_counts L h' = foldl bump (replicate n 0) (map (\<lambda>x. b (ScaleValue P cfg (fst x))) obs) \<and>
      (\<forall>x \<in> set obs. b (ScaleValue P cfg (fst x)) < n)"
    using observe_all_hist[OF assms a(1,2) h(1), of P obs] h(2) by simp
  then show ?thesis
    using observe_all_minmax[of ?a P L cfg obs] a by (auto simp: trend_view_def observe_all_count)
qed

lemma trend_view_merge:
  assumes "hdr_laws L cfg n b" "trend_view P L cfg n b a zs" "trend_view P L cfg n b c ys"
    and "length ys < 2 ^ 64"
  shows "trend_view P L cfg n b (mergeFrom L a c) (zs @ ys)"
proof (cases "ys = []")
  case True
  then have "ag_count c = 0" using assms(3) by (simp add: trend_view_def)
  then show ?thesis using assms True by (simp add: mergeFrom_def)
next
  case False
  let ?bs = "map (\<lambda>x. b (ScaleValue P cfg (fst x)))"
  have c0: "ag_count c \<noteq> 0"
    using assms(3,4) False u64_of_nat_zero[of "length ys"] by (simp add: trend_view_def)
  obtain h where h: "ag_hist a = Some h" "hdr_is L cfg n h" "hdr_counts L h = foldl bump (replicate n 0) (?bs zs)"
    using assms(2) by (auto simp: trend_view_def)
  obtain g where g: "ag_hist c = Some g" "hdr_is L cfg n g" "hdr_counts L g = foldl bump (replicate n 0) (?bs ys)"
    using assms(3) by (auto simp: trend_view_def)
  have lt: "\<forall>i \<in> set (?bs ys). i < n" using assms(3) by (auto simp: trend_view_def)
  have m: "hdr_is L cfg n (hdr_Merge L h g)"
    "hdr_counts L (hdr_Merge L h g) = map2 (+) (hdr_counts L h) (hdr_counts L g)"
    using hdr_laws_Merge[OF assms(1) h(2) g(2)] by auto
  have "map2 (+) (hdr_counts L h) (foldl bump (replicate n 0) (?bs ys)) =
      foldl bump (map2 (+) (hdr_counts L h) (replicate n 0)) (?bs ys)"
    using lt hdr_is_counts[OF h(2)] by (subst foldl_bump_add) auto
  also have "map2 (+) (hdr_counts L h) (replicate n 0) = hdr_counts L h"
    using map2_add_zero[of "hdr_counts L h"] hdr_is_counts[OF h(2)] by simp
  finally have counts: "hdr_counts L (hdr_Merge L h g) = foldl bump (replicate n 0) (?bs (zs @ ys))"
    using m g h by simp
  have "ag_minVal (mergeFrom L a c) = f_min (ag_minVal a) (ag_minVal c)"
    "ag_maxVal (mergeFrom L a c) = f_max (ag_maxVal a) (ag_maxVal c)"
    "ag_kind (mergeFrom L a c) = ag_kind a" "ag_count (mergeFrom L a c) = ag_count a + ag_count c"
    "ag_nonZero (mergeFrom L a c) = ag_nonZero a + ag_nonZero c"
    "ag_hist (mergeFrom L a c) = Some (hdr_Merge L h g)"
    using c0 h g by (simp_all add: mergeFrom_def Let_def f_min_def f_max_def)
  moreover have "f_min (foldl f_min PInf (map fst zs)) (foldl f_min PInf (map fst ys)) =
      foldl f_min PInf (map fst (zs @ ys))"
    using foldl_f_min[of "foldl f_min PInf (map fst zs)" "map fst ys"] foldl_not_NaN by simp
  moreover have "f_max (foldl f_max NInf (map fst zs)) (foldl f_max NInf (map fst ys)) =
      foldl f_max NInf (map fst (zs @ ys))"
    using foldl_f_max[of "foldl f_max NInf (map fst zs)" "map fst ys"] foldl_not_NaN by simp
  ultimately show ?thesis
    using assms(2,3) m counts by (auto simp: trend_view_def)
qed

lemma trend_view_quantile:
  assumes "hdr_laws L cfg n b" "trend_view P L cfg n b a obs" "trend_view P L cfg n b a' obs"
  shows "\<exists>h h'. ag_hist a = Some h \<and> ag_hist a' = Some h' \<and>
    (\<forall>q. hdr_ValueAtQuantile L h q = hdr_ValueAtQuantile L h' q) \<and>
    hdr_TotalCount L h = hdr_TotalCount L h'"
proof -
  let ?cs = "foldl bump (replicate n 0) (map (\<lambda>x. b (ScaleValue P cfg (fst x))) obs)"
  obtain h h' where h: "ag_hist a = Some h" "hdr_is L cfg n h" "hdr_counts L h = ?cs"
    and h': "ag_hist a' = Some h'" "hdr_is L cfg n h'" "hdr_counts L h' = ?cs"
    using assms(2,3) unfolding trend_view_def by blast
  have "hdr_ValueAtQuantile L h q = hdr_ValueAtQuantile L h' q" for q
    using hdr_laws_Quantile[OF assms(1) h(2) h'(2)] h(3) h'(3) by simp
  moreover have "hdr_TotalCount L h = hdr_TotalCount L h'"
    using hdr_laws_Reset[OF assms(1) h(2)] hdr_laws_Reset[OF assms(1) h'(2)] h(3) h'(3) by simp
  ultimately show ?thesis using h(1) h'(1) by blast
qed

lemma trend_view_foldl_merge:
  assumes "hdr_laws L cfg n b" "h_Lowest cfg \<le> h_Highest cfg" "\<forall>obs \<in> set nodes. length obs < 2 ^ 64"
    and "trend_view P L cfg n b a zs"
  shows "trend_view P L cfg n b
    (foldl (mergeFrom L) a (map (observe_all P L cfg (newAggregate L metric ls KindTrend cfg)) nodes))
    (zs @ concat nodes)"
  using assms(3,4)
proof (induction nodes arbitrary: a zs)
  case (Cons obs nodes)
  have "trend_view P L cfg n b (mergeFrom L a (observe_all P L cfg (newAggregate L metric ls KindTrend cfg) obs)) (zs @ obs)"
    using Cons.prems by (intro trend_view_merge[OF assms(1)] trend_view_observe_all[OF assms(1,2)]) auto
  with Cons show ?case by (fastforce simp flip: append_assoc)
qed simp

text \<open>
  C7. A percentile from many nodes is the real percentile: merging the aggregates of any
  number of nodes for a trend series gives the same count, minimum and maximum, and the same
  value at every quantile, as one aggregate that recorded all the nodes' observations.
\<close>

theorem merged_percentiles_exact:
  assumes "hdr_laws L cfg n bucket" and "h_Lowest cfg \<le> h_Highest cfg"
    and "\<forall>obs \<in> set nodes. length obs < 2 ^ 64"
    and "merged = foldl (mergeFrom L) (newAggregate L metric ls KindTrend cfg)
      (map (observe_all P L cfg (newAggregate L metric ls KindTrend cfg)) nodes)"
    and "single = observe_all P L cfg (newAggregate L metric ls KindTrend cfg) (concat nodes)"
  shows "ag_count merged = ag_count single \<and> ag_minVal merged = ag_minVal single \<and>
    ag_maxVal merged = ag_maxVal single \<and>
    (\<exists>h h'. ag_hist merged = Some h \<and> ag_hist single = Some h' \<and>
      (\<forall>q. hdr_ValueAtQuantile L h q = hdr_ValueAtQuantile L h' q) \<and>
      hdr_TotalCount L h = hdr_TotalCount L h')"
proof -
  have "trend_view P L cfg n bucket (newAggregate L metric ls KindTrend cfg) []"
    using trend_view_observe_all[OF assms(1,2), of P metric ls "[]"] by (simp add: observe_all_def)
  from trend_view_foldl_merge[OF assms(1-3) this]
  have m: "trend_view P L cfg n bucket merged (concat nodes)" by (simp add: assms(4))
  have s: "trend_view P L cfg n bucket single (concat nodes)"
    unfolding assms(5) by (rule trend_view_observe_all[OF assms(1,2)])
  show ?thesis
    using m s trend_view_quantile[OF assms(1) m s] by (simp add: trend_view_def)
qed

theorem merged_percentiles_exact_witness:
  "ag_count (foldl (mergeFrom list_hdr) (newAggregate list_hdr ''m'' no_labels KindTrend small_config)
      (map (observe_all \<lparr>fused = False, oob = (\<lambda>_. 0)\<rparr> list_hdr small_config
        (newAggregate list_hdr ''m'' no_labels KindTrend small_config))
        [[(Fin 1, True)], [], [(Fin 2, True), (Fin 3, True)]])) = 3"
  using merged_percentiles_exact[OF list_hdr_laws, of "[[(Fin 1, True)], [], [(Fin 2, True), (Fin 3, True)]]",
      OF _ _ refl refl, where metric = "''m''" and ls = no_labels and P = "\<lparr>fused = False, oob = (\<lambda>_. 0)\<rparr>"]
  by (simp add: observe_all_count small_config_def newAggregate_def)

text \<open>
  Rates merge exactly too: the merged numerator and denominator are those of one
  aggregate that recorded every node's observations.
\<close>

theorem merged_rate_exact:
  assumes "length ys < 2 ^ 64"
    and "a = observe_all P L cfg (newAggregate L metric ls KindRate cfg) xs"
    and "c = observe_all P L cfg (newAggregate L metric ls KindRate cfg) ys"
  shows "ag_count (mergeFrom L a c) = of_nat (length (xs @ ys)) \<and>
    ag_nonZero (mergeFrom L a c) = of_nat (length (filter snd (xs @ ys)))"
proof -
  let ?new = "newAggregate L metric ls KindRate cfg"
  have n: "ag_kind ?new = KindRate" "ag_count ?new = 0" "ag_nonZero ?new = 0"
    by (simp_all add: newAggregate_def)
  have v: "ag_count a = of_nat (length xs)" "ag_nonZero a = of_nat (length (filter snd xs))"
    "ag_count c = of_nat (length ys)" "ag_nonZero c = of_nat (length (filter snd ys))"
    using assms(2,3) n by (simp_all add: observe_all_count observe_all_rate)
  have "ys = []" if "ag_count c = 0"
    using that v u64_of_nat_zero[OF assms(1)] by simp
  then show ?thesis using v by (auto simp: mergeFrom_def Let_def split: option.splits)
qed

theorem merged_rate_exact_witness:
  "ag_nonZero (mergeFrom list_hdr
     (observe_all \<lparr>fused = False, oob = (\<lambda>_. 0)\<rparr> list_hdr small_config (newAggregate list_hdr ''m'' no_labels KindRate small_config) [(Fin 0, True)])
     (observe_all \<lparr>fused = False, oob = (\<lambda>_. 0)\<rparr> list_hdr small_config (newAggregate list_hdr ''m'' no_labels KindRate small_config) [(Fin 0, True), (Fin 0, False)])) = 2"
  using merged_rate_exact[of "[(Fin 0, True), (Fin 0, False)]", OF _ refl refl,
      where P = "\<lparr>fused = False, oob = (\<lambda>_. 0)\<rparr>" and L = list_hdr and cfg = small_config
        and metric = "''m''" and ls = no_labels and xs = "[(Fin 0, True)]"]
  by simp

end
