(* ===== verification/Failures.thy ===== *)
theory Failures
  imports Aggregate
begin

text \<open>
  \<open>internal/metrics/failures.go\<close>: failures aggregated by kind under a cap, on a node
  (\<open>failureTable\<close>, drained at every flush) and for the whole run (\<open>failureStore\<close>). The lemmas
  show that the cap holds, that no occurrence of a tracked kind is lost between a node and
  the run-wide table, and how the summaries are ordered.
\<close>

subsection \<open>Definitions\<close>

record Failure =
  fl_Name :: string
  fl_Method :: string
  fl_Status :: int
  fl_ErrorClass :: string
  fl_Message :: string

record failureKey =
  fk_name :: string
  fk_method :: string
  fk_status :: int
  fk_errorClass :: string

record failureEntry =
  fe_message :: string
  fe_count :: u64
  fe_lastSeen :: go_time

record failureTable =
  ft_entries :: "(failureKey, failureEntry) gomap"
  ft_limit :: int
  ft_dropped :: u64

definition DefaultMaxFailureKinds :: int where
  "DefaultMaxFailureKinds = 100"

definition newFailureTable :: "int \<Rightarrow> failureTable" where
  "newFailureTable limit =
     (let limit = (if limit \<le> 0 then DefaultMaxFailureKinds else limit)
      in \<lparr>ft_entries = [], ft_limit = limit, ft_dropped = 0\<rparr>)"

definition failure_key :: "Failure \<Rightarrow> failureKey" where
  "failure_key f = \<lparr>fk_name = fl_Name f, fk_method = fl_Method f, fk_status = i32 (fl_Status f),
     fk_errorClass = fl_ErrorClass f\<rparr>"

definition ft_record :: "failureTable \<Rightarrow> Failure \<Rightarrow> go_time \<Rightarrow> failureTable" where
  "ft_record t f now =
     (let key = failure_key f in
      case map_of (ft_entries t) key of
        Some entry \<Rightarrow>
          t\<lparr>ft_entries := gput key (entry\<lparr>fe_count := fe_count entry + 1, fe_lastSeen := now\<rparr>) (ft_entries t)\<rparr>
      | None \<Rightarrow>
          if int (length (ft_entries t)) \<ge> ft_limit t then t\<lparr>ft_dropped := ft_dropped t + 1\<rparr>
          else t\<lparr>ft_entries := gput key \<lparr>fe_message = fl_Message f, fe_count = 1, fe_lastSeen = now\<rparr> (ft_entries t)\<rparr>)"

record FailureSample =
  fs_key :: failureKey \<comment> \<open>Name, Method, Status, ErrorClass\<close>
  fs_Message :: string
  fs_Count :: u64
  fs_LastSeen :: go_time

definition entry_sample :: "failureKey \<times> failureEntry \<Rightarrow> FailureSample" where
  "entry_sample ke = \<lparr>fs_key = fst ke, fs_Message = fe_message (snd ke), fs_Count = fe_count (snd ke),
     fs_LastSeen = fe_lastSeen (snd ke)\<rparr>"

text \<open>\<open>drain\<close> lists the entries in the order \<open>ord\<close> of the map's \<open>range\<close>.\<close>

definition drain :: "((failureKey \<times> failureEntry) list \<Rightarrow> (failureKey \<times> failureEntry) list) \<Rightarrow>
    failureTable \<Rightarrow> FailureSample list \<times> failureTable" where
  "drain ord t =
     (if length (ft_entries t) = 0 then ([], t)
      else (map entry_sample (ord (ft_entries t)), t\<lparr>ft_entries := []\<rparr>))"

record failureStore =
  fst_entries :: "(failureKey, failureEntry) gomap"
  fst_limit :: int
  fst_dropped :: u64

definition newFailureStore :: "int \<Rightarrow> failureStore" where
  "newFailureStore limit =
     (let limit = (if limit \<le> 0 then DefaultMaxFailureKinds else limit)
      in \<lparr>fst_entries = [], fst_limit = limit, fst_dropped = 0\<rparr>)"

definition fold_sample :: "failureEntry \<Rightarrow> FailureSample \<Rightarrow> failureEntry" where
  "fold_sample entry sample =
     (let entry = entry\<lparr>fe_count := fe_count entry + fs_Count sample\<rparr>;
          entry = (if fe_message entry = [] then entry\<lparr>fe_message := fs_Message sample\<rparr> else entry)
      in if fe_lastSeen entry < fs_LastSeen sample then entry\<lparr>fe_lastSeen := fs_LastSeen sample\<rparr> else entry)"

definition ingest_sample :: "failureStore \<Rightarrow> FailureSample \<Rightarrow> failureStore" where
  "ingest_sample s sample =
     (let key = fs_key sample in
      case map_of (fst_entries s) key of
        Some entry \<Rightarrow> s\<lparr>fst_entries := gput key (fold_sample entry sample) (fst_entries s)\<rparr>
      | None \<Rightarrow>
          if int (length (fst_entries s)) \<ge> fst_limit s then s\<lparr>fst_dropped := fst_dropped s + 1\<rparr>
          else s\<lparr>fst_entries := gput key
                 (fold_sample \<lparr>fe_message = [], fe_count = 0, fe_lastSeen = zero_time\<rparr> sample) (fst_entries s)\<rparr>)"

definition fs_ingest :: "failureStore \<Rightarrow> FailureSample list \<Rightarrow> failureStore" where
  "fs_ingest s samples = foldl ingest_sample s samples"

definition summary_less :: "FailureSample \<Rightarrow> FailureSample \<Rightarrow> bool" where
  "summary_less a b =
     (if fs_Count a \<noteq> fs_Count b then fs_Count a > fs_Count b
      else if fk_name (fs_key a) \<noteq> fk_name (fs_key b) then fk_name (fs_key a) < fk_name (fs_key b)
      else fk_status (fs_key a) < fk_status (fs_key b))"

text \<open>A \<open>FailureSummary\<close> has the fields of a sample.\<close>

definition summaries :: "((failureKey \<times> failureEntry) list \<Rightarrow> (failureKey \<times> failureEntry) list) \<Rightarrow>
    failureStore \<Rightarrow> FailureSample list" where
  "summaries ord s = sort_by summary_less (map entry_sample (ord (fst_entries s)))"

definition droppedKinds :: "failureStore \<Rightarrow> u64" where
  "droppedKinds s = fst_dropped s"

subsection \<open>The cap\<close>

definition ft_ok :: "failureTable \<Rightarrow> bool" where
  "ft_ok t \<longleftrightarrow> gowf (ft_entries t) \<and> 0 < ft_limit t \<and> int (length (ft_entries t)) \<le> ft_limit t"

definition fst_ok :: "failureStore \<Rightarrow> bool" where
  "fst_ok s \<longleftrightarrow> gowf (fst_entries s) \<and> 0 < fst_limit s \<and> int (length (fst_entries s)) \<le> fst_limit s"

lemma in_gokeys: "map_of m k = Some v \<Longrightarrow> k \<in> gokeys m" "map_of m k = None \<Longrightarrow> k \<notin> gokeys m"
  by (auto simp: gokeys_map_of)

lemma newFailureTable_ok: "ft_ok (newFailureTable limit)"
  by (simp add: ft_ok_def newFailureTable_def DefaultMaxFailureKinds_def Let_def)

lemma newFailureStore_ok: "fst_ok (newFailureStore limit)"
  by (simp add: fst_ok_def newFailureStore_def DefaultMaxFailureKinds_def Let_def)

lemma ft_record_ok: "ft_ok t \<Longrightarrow> ft_ok (ft_record t f now)"
  by (auto simp: ft_ok_def ft_record_def Let_def length_gput in_gokeys split: option.splits)

lemma drain_ok: "ft_ok t \<Longrightarrow> ft_ok (snd (drain ord t))"
  by (auto simp: ft_ok_def drain_def)

lemma ingest_sample_ok: "fst_ok s \<Longrightarrow> fst_ok (ingest_sample s x)"
  by (auto simp: fst_ok_def ingest_sample_def Let_def length_gput in_gokeys split: option.splits)

lemma fs_ingest_ok: "fst_ok s \<Longrightarrow> fst_ok (fs_ingest s xs)"
  unfolding fs_ingest_def by (rule foldl_invariant) (auto intro: ingest_sample_ok)

subsection \<open>Counting\<close>

definition ft_count :: "failureTable \<Rightarrow> failureKey \<Rightarrow> u64" where
  "ft_count t k = (case map_of (ft_entries t) k of Some e \<Rightarrow> fe_count e | None \<Rightarrow> 0)"

definition fst_count :: "failureStore \<Rightarrow> failureKey \<Rightarrow> u64" where
  "fst_count s k = (case map_of (fst_entries s) k of Some e \<Rightarrow> fe_count e | None \<Rightarrow> 0)"

definition entries_total :: "(failureKey, failureEntry) gomap \<Rightarrow> u64" where
  "entries_total m = sum_list (map (fe_count \<circ> snd) m)"

lemma entries_total_gput:
  assumes "gowf m"
  shows "entries_total (gput k e m) = entries_total m + fe_count e - (case map_of m k of Some d \<Rightarrow> fe_count d | None \<Rightarrow> 0)"
  using assms
proof (induction m)
  case (Cons p m)
  obtain k' e' where p: "p = (k', e')" by (cases p)
  have "gowf m" "k' \<notin> fst ` set m" using Cons.prems p by (auto simp: gowf_def)
  then show ?case using Cons.IH p by (auto simp: entries_total_def split: option.splits)
qed (simp add: entries_total_def)

lemma ft_record_total:
  "ft_ok t \<Longrightarrow> entries_total (ft_entries (ft_record t f now)) + ft_dropped (ft_record t f now) =
     entries_total (ft_entries t) + ft_dropped t + 1"
  by (auto simp: ft_ok_def ft_record_def Let_def entries_total_gput split: option.splits)

text \<open>A node's table over its life: failures recorded, and drains at the flushes.\<close>

datatype ft_op = Record Failure go_time | Drain

fun ft_run :: "((failureKey \<times> failureEntry) list \<Rightarrow> (failureKey \<times> failureEntry) list) \<Rightarrow>
    ft_op list \<Rightarrow> failureTable \<times> FailureSample list \<Rightarrow> failureTable \<times> FailureSample list" where
  "ft_run ord [] st = st"
| "ft_run ord (Record f now # ops) (t, sent) = ft_run ord ops (ft_record t f now, sent)"
| "ft_run ord (Drain # ops) (t, sent) = (let (out, t') = drain ord t in ft_run ord ops (t', sent @ out))"

fun is_record :: "ft_op \<Rightarrow> bool" where
  "is_record (Record f now) = True"
| "is_record Drain = False"

lemma drain_total:
  assumes "orders ord"
  shows "sum_list (map fs_Count (fst (drain ord t))) + entries_total (ft_entries (snd (drain ord t))) =
    entries_total (ft_entries t) \<and> ft_dropped (snd (drain ord t)) = ft_dropped t"
proof -
  have "sum_list (map (fe_count \<circ> snd) (ord (ft_entries t))) = sum_list (map (fe_count \<circ> snd) (ft_entries t))"
    using assms by (intro mset_eq_sum_list_map) (simp add: orders_def)
  then show ?thesis by (auto simp: drain_def entries_total_def entry_sample_def comp_def)
qed

lemma ft_run_total:
  assumes "orders ord" "ft_ok t" "ft_run ord ops (t, sent) = (t', sent')"
  shows "ft_ok t' \<and>
    sum_list (map fs_Count sent') + entries_total (ft_entries t') + ft_dropped t' =
    sum_list (map fs_Count sent) + entries_total (ft_entries t) + ft_dropped t +
      of_nat (length (filter is_record ops))"
  using assms(2,3)
proof (induction ops arbitrary: t sent)
  case (Cons x ops)
  show ?case
  proof (cases x)
    case (Record f now)
    then show ?thesis
      using Cons.IH[of "ft_record t f now" sent] Cons.prems ft_record_ok[of t f now] ft_record_total[of t f now]
      by (simp add: algebra_simps)
  next
    case Drain
    obtain out t1 where d: "drain ord t = (out, t1)" by (cases "drain ord t")
    then have "ft_ok t1" using drain_ok[of t ord] Cons.prems by simp
    then show ?thesis
      using Cons.IH[of t1 "sent @ out"] Cons.prems Drain d drain_total[OF assms(1), of t]
      by (simp add: algebra_simps)
  qed
qed simp

text \<open>
  A node neither loses nor invents failures: over any sequence of recorded failures and
  drains, in any map order, the table never holds more kinds than its cap, and the failures
  sent, still held and counted as dropped add up to the failures recorded.
\<close>

theorem failures_conserved:
  assumes "orders ord" and "ft_run ord ops (newFailureTable limit, []) = (t, sent)"
  shows "int (length (ft_entries t)) \<le> ft_limit t \<and>
    sum_list (map fs_Count sent) + entries_total (ft_entries t) + ft_dropped t =
      of_nat (length (filter is_record ops))"
  using ft_run_total[OF assms(1) newFailureTable_ok assms(2)]
  by (auto simp: ft_ok_def newFailureTable_def entries_total_def Let_def)

definition demo_failure :: "string \<Rightarrow> Failure" where
  "demo_failure name = \<lparr>fl_Name = name, fl_Method = ''GET'', fl_Status = 500, fl_ErrorClass = [], fl_Message = ''x''\<rparr>"

theorem failures_conserved_witness:
  "ft_dropped (fst (ft_run id [Record (demo_failure ''a'') 1, Record (demo_failure ''b'') 2, Drain]
     (newFailureTable 1, []))) = 1 \<and>
   sum_list (map fs_Count (snd (ft_run id [Record (demo_failure ''a'') 1, Record (demo_failure ''b'') 2, Drain]
     (newFailureTable 1, [])))) + 1 = (2 :: u64)"
proof -
  let ?ops = "[Record (demo_failure ''a'') 1, Record (demo_failure ''b'') 2, Drain]"
  have r: "ft_run id ?ops (newFailureTable 1, []) =
      (\<lparr>ft_entries = [], ft_limit = 1, ft_dropped = 1\<rparr>,
       [\<lparr>fs_key = failure_key (demo_failure ''a''), fs_Message = ''x'', fs_Count = 1, fs_LastSeen = 1\<rparr>])"
    by (simp add: newFailureTable_def ft_record_def failure_key_def demo_failure_def drain_def entry_sample_def Let_def)
  have "orders id" by (simp add: orders_def)
  from failures_conserved[OF this r] show ?thesis unfolding r by (simp add: entries_total_def)
qed

lemma ingest_sample_full:
  "int (length (fst_entries s)) \<ge> fst_limit s \<Longrightarrow>
   gokeys (fst_entries (ingest_sample s x)) = gokeys (fst_entries s) \<and>
   length (fst_entries (ingest_sample s x)) = length (fst_entries s) \<and>
   fst_limit (ingest_sample s x) = fst_limit s"
  by (auto simp: ingest_sample_def Let_def gokeys_gput length_gput in_gokeys insert_absorb split: option.splits)

lemma fs_ingest_full:
  "int (length (fst_entries s)) \<ge> fst_limit s \<Longrightarrow> gokeys (fst_entries (fs_ingest s xs)) = gokeys (fst_entries s)"
proof (induction xs arbitrary: s)
  case (Cons x xs)
  have "int (length (fst_entries (ingest_sample s x))) \<ge> fst_limit (ingest_sample s x)"
    using ingest_sample_full[OF Cons.prems] Cons.prems by simp
  from Cons.IH[OF this] ingest_sample_full[OF Cons.prems] show ?case by (simp add: fs_ingest_def)
qed (simp add: fs_ingest_def)

lemma fold_sample_count [simp]: "fe_count (fold_sample e x) = fe_count e + fs_Count x"
  by (simp add: fold_sample_def Let_def)

lemma ingest_sample_count:
  "fst_count (ingest_sample s x) k =
     (if fs_key x = k \<and> k \<in> gokeys (fst_entries (ingest_sample s x)) then fst_count s k + fs_Count x else fst_count s k)"
  by (auto simp: fst_count_def ingest_sample_def Let_def gokeys_gput gokeys_map_of split: option.splits)

lemma ingest_sample_untracked:
  "k \<in> gokeys (fst_entries (fs_ingest s (x # xs))) \<Longrightarrow> fs_key x = k \<Longrightarrow>
   k \<in> gokeys (fst_entries (ingest_sample s x))"
proof (rule ccontr)
  assume k: "k \<in> gokeys (fst_entries (fs_ingest s (x # xs)))" and x: "fs_key x = k"
    and n: "k \<notin> gokeys (fst_entries (ingest_sample s x))"
  then have "int (length (fst_entries s)) \<ge> fst_limit s"
    by (auto simp: ingest_sample_def Let_def gokeys_gput in_gokeys split: option.splits if_splits)
  then have "gokeys (fst_entries (fs_ingest (ingest_sample s x) xs)) = gokeys (fst_entries (ingest_sample s x))"
    using ingest_sample_full[of s x] by (intro fs_ingest_full) simp
  with k n show False by (simp add: fs_ingest_def)
qed

text \<open>
  The run-wide table counts every reported occurrence of each kind it tracks: after any
  number of ingested samples, a tracked kind's count is its old count plus the counts of all
  samples of that kind, and the number of kinds never exceeds the cap.
\<close>

theorem fs_ingest_counts:
  assumes "fst_ok s" and "k \<in> gokeys (fst_entries (fs_ingest s samples))"
  shows "fst_count (fs_ingest s samples) k =
      fst_count s k + sum_list (map fs_Count (filter (\<lambda>x. fs_key x = k) samples)) \<and>
    int (length (fst_entries (fs_ingest s samples))) \<le> fst_limit (fs_ingest s samples)"
proof -
  have "fst_count (fs_ingest s samples) k =
      fst_count s k + sum_list (map fs_Count (filter (\<lambda>x. fs_key x = k) samples))"
    using assms(2)
  proof (induction samples arbitrary: s)
    case (Cons x xs)
    have "fs_ingest s (x # xs) = fs_ingest (ingest_sample s x) xs" by (simp add: fs_ingest_def)
    then show ?case
      using Cons.IH[of "ingest_sample s x"] Cons.prems ingest_sample_untracked[OF Cons.prems]
      by (simp add: ingest_sample_count add.assoc)
  qed (simp add: fs_ingest_def)
  moreover have "fst_ok (fs_ingest s samples)" using assms(1) by (rule fs_ingest_ok)
  ultimately show ?thesis by (simp add: fst_ok_def)
qed

definition demo_sample :: "string \<Rightarrow> u64 \<Rightarrow> FailureSample" where
  "demo_sample name c = \<lparr>fs_key = failure_key (demo_failure name), fs_Message = [], fs_Count = c, fs_LastSeen = 0\<rparr>"

theorem fs_ingest_counts_witness:
  "fst_count (fs_ingest (newFailureStore 5) [demo_sample ''a'' 3, demo_sample ''b'' 1, demo_sample ''a'' 4])
     (failure_key (demo_failure ''a'')) = 7"
proof -
  let ?s = "fs_ingest (newFailureStore 5) [demo_sample ''a'' 3, demo_sample ''b'' 1, demo_sample ''a'' 4]"
  have "failure_key (demo_failure ''a'') \<in> gokeys (fst_entries ?s)"
    by (simp add: fs_ingest_def newFailureStore_def ingest_sample_def demo_sample_def failure_key_def
        demo_failure_def gokeys_def Let_def)
  from fs_ingest_counts[OF newFailureStore_ok this] show ?thesis
    by (simp add: fst_count_def newFailureStore_def demo_sample_def failure_key_def demo_failure_def Let_def)
qed

text \<open>
  The dropped counter counts samples, not kinds: one untracked kind reported in two
  batches is counted twice.
\<close>

theorem droppedKinds_counts_samples:
  "droppedKinds (fs_ingest (fs_ingest (newFailureStore 1) [demo_sample ''a'' 1, demo_sample ''b'' 1])
     [demo_sample ''b'' 1]) = 2"
  by (simp add: droppedKinds_def fs_ingest_def newFailureStore_def ingest_sample_def demo_sample_def failure_key_def
      demo_failure_def Let_def)

interpretation summary_order: go_less summary_less
  by unfold_locales (auto simp: summary_less_def split: if_splits)

lemma summaries_sorted:
  "sorted_wrt (\<lambda>a b. fs_Count b \<le> fs_Count a) (summaries ord s)"
  unfolding summaries_def
  by (rule sorted_wrt_mono_rel[OF _ summary_order.sorted_sort_by])
    (auto simp: summary_less_def not_less split: if_splits)

end
