(* ===== verification/Recorder.thy ===== *)
theory Recorder
  imports Failures
begin

unbundle bit_operations_syntax

text \<open>
  \<open>internal/metrics/recorder.go\<close>: a node's metric aggregator. Virtual users record into
  sharded series maps under a cap on distinct series; \<open>Flush\<close> merges the shards one by one,
  each under its own lock, and sends the result as a batch of deltas. The shards' locks make
  one \<open>record\<close> and the merge of one shard atomic, so concurrency is any interleaving of
  \<open>rec_step\<close>. The lemmas show that the shard index is always in range, that the cap holds and
  that no observation is lost, doubled or attributed to another series.
\<close>

subsection \<open>Configuration\<close>

record RecorderConfig =
  rc_Shards :: int
  rc_TrendShards :: int
  rc_MaxSeries :: int
  rc_Histogram :: HistogramConfig
  rc_MaxFailureKinds :: int

definition DefaultMaxSeries :: int where "DefaultMaxSeries = 5000"
definition DefaultTrendShards :: int where "DefaultTrendShards = 4"
definition defaultMaxScalarShard :: int where "defaultMaxScalarShard = 16"

text \<open>\<open>bits.Len\<close>: the number of bits needed to write \<open>n\<close>.\<close>

fun bits_Len :: "nat \<Rightarrow> nat" where
  "bits_Len n = (if n = 0 then 0 else Suc (bits_Len (n div 2)))"

declare bits_Len.simps [simp del]

definition roundUpPow2 :: "int \<Rightarrow> int" where
  "roundUpPow2 n = (if n \<le> 1 then 1 else i64 (2 ^ bits_Len (nat (n - 1))))"

text \<open>\<open>gomaxprocs\<close> is the value of \<open>runtime.GOMAXPROCS(0)\<close>.\<close>

definition rc_applyDefaults :: "int \<Rightarrow> RecorderConfig \<Rightarrow> RecorderConfig" where
  "rc_applyDefaults gomaxprocs c =
     (let c = (if rc_Shards c \<le> 0 then c\<lparr>rc_Shards := min gomaxprocs defaultMaxScalarShard\<rparr> else c);
          c = c\<lparr>rc_Shards := roundUpPow2 (rc_Shards c)\<rparr>;
          c = (if rc_TrendShards c \<le> 0 then c\<lparr>rc_TrendShards := DefaultTrendShards\<rparr> else c);
          c = c\<lparr>rc_TrendShards := min (roundUpPow2 (rc_TrendShards c)) (rc_Shards c)\<rparr>;
          c = (if rc_MaxSeries c \<le> 0 then c\<lparr>rc_MaxSeries := DefaultMaxSeries\<rparr> else c);
          c = (if hist_Validate (rc_Histogram c) \<noteq> None then c\<lparr>rc_Histogram := DefaultHistogramConfig\<rparr> else c)
      in if rc_MaxFailureKinds c \<le> 0 then c\<lparr>rc_MaxFailureKinds := DefaultMaxFailureKinds\<rparr> else c)"

subsection \<open>The recorder\<close>

record 'h recorder =
  re_cfg :: RecorderConfig
  re_shards :: "'h aggMap list"
  re_mask :: u64
  re_trendMask :: u64
  re_distinct :: "(seriesKey, unit) gomap"
  re_dropped :: u64
  re_rr :: u64
  re_merged :: "'h aggMap"
  re_failures :: failureTable

text \<open>\<open>None\<close>: \<open>make\<close> panics on the number of shards.\<close>

definition NewRecorder :: "int \<Rightarrow> RecorderConfig \<Rightarrow> 'h recorder option" where
  "NewRecorder gomaxprocs cfg =
     (let cfg = rc_applyDefaults gomaxprocs cfg in
      if rc_Shards cfg < 0 \<or> rc_Shards cfg > max_make then None
      else Some \<lparr>re_cfg = cfg,
        re_shards = replicate (nat (rc_Shards cfg)) (newAggMap (rc_Histogram cfg)),
        re_mask = word_of_int (rc_Shards cfg - 1),
        re_trendMask = word_of_int (rc_TrendShards cfg - 1),
        re_distinct = [], re_dropped = 0, re_rr = 0,
        re_merged = newAggMap (rc_Histogram cfg),
        re_failures = newFailureTable (rc_MaxFailureKinds cfg)\<rparr>)"

definition mixHash :: "u64 \<Rightarrow> u64" where
  "mixHash x =
     (let x = x XOR drop_bit 33 x;
          x = x * 0xff51afd7ed558ccd;
          x = x XOR drop_bit 33 x;
          x = x * 0xc4ceb9fe1a85ec53
      in x XOR drop_bit 33 x)"

definition admit :: "'h recorder \<Rightarrow> string \<Rightarrow> labels \<Rightarrow> bool \<times> 'h recorder" where
  "admit r metric ls =
     (let key = (metric, lab_hash ls) in
      case map_of (re_distinct r) key of
        Some _ \<Rightarrow> (True, r)
      | None \<Rightarrow>
          if int (length (re_distinct r)) \<ge> rc_MaxSeries (re_cfg r) then (False, r)
          else (True, r\<lparr>re_distinct := gput key () (re_distinct r)\<rparr>))"

text \<open>\<open>None\<close>: the shard index is out of range, which panics.\<close>

definition rec_record ::
  "platform \<Rightarrow> 'h hdr \<Rightarrow> 'h recorder \<Rightarrow> MetricKind \<Rightarrow> string \<Rightarrow> labels \<Rightarrow> float64 \<Rightarrow> bool \<Rightarrow> u64 \<Rightarrow> 'h recorder option" where
  "rec_record P L r kind metric ls value truthy hint =
     (let idx = (if kind = KindTrend then hint AND re_trendMask r else hint AND re_mask r) in
      if unat idx \<ge> length (re_shards r) then None
      else
        let s = re_shards r ! unat idx;
            obs = (\<lambda>a. observe P L (rc_Histogram (re_cfg r)) a value truthy)
        in case am_find s metric ls of
             Some _ \<Rightarrow> Some (r\<lparr>re_shards := (re_shards r)[unat idx := am_modify s metric ls obs]\<rparr>)
           | None \<Rightarrow>
               let (fits, r) = admit r metric ls in
               if \<not> fits then Some (r\<lparr>re_dropped := re_dropped r + 1\<rparr>)
               else let s = getOrCreate L s metric ls kind in
                 Some (r\<lparr>re_shards := (re_shards r)[unat idx := am_modify s metric ls obs]\<rparr>))"

text \<open>The four metric calls, on the recorder itself (a round-robin hint) and on the view
  \<open>ForVU\<close> pins to one virtual user (a hint fixed by its id).\<close>

datatype metric_call = Count float64 | Trend float64 | Rate bool | Gauge float64

definition record_call ::
  "platform \<Rightarrow> 'h hdr \<Rightarrow> 'h recorder \<Rightarrow> string \<Rightarrow> labels \<Rightarrow> u64 \<Rightarrow> metric_call \<Rightarrow> 'h recorder option" where
  "record_call P L r metric ls hint call =
     (case call of
        Count delta \<Rightarrow> rec_record P L r KindCounter metric ls delta False hint
      | Trend value \<Rightarrow> rec_record P L r KindTrend metric ls value False hint
      | Rate ok \<Rightarrow> rec_record P L r KindRate metric ls (Fin 0) ok hint
      | Gauge value \<Rightarrow> rec_record P L r KindGauge metric ls value False hint)"

definition ForVU :: "int \<Rightarrow> u64" where
  "ForVU vuID = mixHash (word_of_int vuID)"

definition pinned_call ::
  "platform \<Rightarrow> 'h hdr \<Rightarrow> 'h recorder \<Rightarrow> int \<Rightarrow> string \<Rightarrow> labels \<Rightarrow> metric_call \<Rightarrow> 'h recorder option" where
  "pinned_call P L r vuID metric ls call = record_call P L r metric ls (ForVU vuID) call"

definition shared_call ::
  "platform \<Rightarrow> 'h hdr \<Rightarrow> 'h recorder \<Rightarrow> string \<Rightarrow> labels \<Rightarrow> metric_call \<Rightarrow> 'h recorder option" where
  "shared_call P L r metric ls call =
     (let r = r\<lparr>re_rr := re_rr r + 1\<rparr> in record_call P L r metric ls (re_rr r) call)"

definition ReportFailure :: "'h recorder \<Rightarrow> Failure \<Rightarrow> go_time \<Rightarrow> 'h recorder" where
  "ReportFailure r f now = r\<lparr>re_failures := ft_record (re_failures r) f now\<rparr>"

definition Dropped :: "'h recorder \<Rightarrow> u64" where
  "Dropped r = re_dropped r"

definition SeriesCount :: "'h recorder \<Rightarrow> nat" where
  "SeriesCount r = length (re_distinct r)"

subsection \<open>The wire form of a flush\<close>

datatype wire_kind =
  METRIC_KIND_UNSPECIFIED | METRIC_KIND_COUNTER | METRIC_KIND_GAUGE | METRIC_KIND_TREND | METRIC_KIND_RATE

fun encodeKind :: "MetricKind \<Rightarrow> wire_kind" where
  "encodeKind KindCounter = METRIC_KIND_COUNTER"
| "encodeKind KindGauge = METRIC_KIND_GAUGE"
| "encodeKind KindTrend = METRIC_KIND_TREND"
| "encodeKind KindRate = METRIC_KIND_RATE"

fun DecodeKind :: "wire_kind \<Rightarrow> MetricKind" where
  "DecodeKind METRIC_KIND_COUNTER = KindCounter"
| "DecodeKind METRIC_KIND_GAUGE = KindGauge"
| "DecodeKind METRIC_KIND_TREND = KindTrend"
| "DecodeKind METRIC_KIND_RATE = KindRate"
| "DecodeKind METRIC_KIND_UNSPECIFIED = KindCounter"

record SeriesDelta =
  sd_Metric :: string
  sd_Kind :: wire_kind
  sd_Tags :: "(string, string) gomap"
  sd_Count :: u64
  sd_Sum :: float64
  sd_Min :: float64
  sd_Max :: float64
  sd_NonZero :: u64
  sd_Histogram :: "HistogramSnapshot option"

record MetricBatch =
  mb_RunId :: string
  mb_NodeId :: string
  mb_BucketStart :: go_time
  mb_BucketWidth :: duration
  mb_ActiveVus :: u32
  mb_DroppedSamples :: u64
  mb_Failures :: "FailureSample list"
  mb_Series :: "SeriesDelta list"

definition encodeDelta :: "'h hdr \<Rightarrow> 'h aggregate \<Rightarrow> SeriesDelta" where
  "encodeDelta L a =
     \<lparr>sd_Metric = ag_metric a, sd_Kind = encodeKind (ag_kind a), sd_Tags = labels_Map (ag_labels a),
      sd_Count = ag_count a, sd_Sum = (if ag_kind a = KindGauge then ag_gauge a else ag_sum a),
      sd_Min = agg_min a, sd_Max = agg_max a, sd_NonZero = ag_nonZero a,
      sd_Histogram = (case ag_hist a of None \<Rightarrow> None
        | Some h \<Rightarrow> if hdr_TotalCount L h > 0 then Some (EncodeHistogram L h) else None)\<rparr>"

subsection \<open>Flush\<close>

type_synonym 'h series_order = "(seriesKey \<times> 'h aggregate list) list \<Rightarrow> (seriesKey \<times> 'h aggregate list) list"

text \<open>\<open>Flush\<close> in the pieces its locks make atomic: resetting the merge map, draining one shard
  into it, and building the batch.\<close>

definition flush_begin :: "'h hdr \<Rightarrow> 'h recorder \<Rightarrow> 'h recorder" where
  "flush_begin L r = r\<lparr>re_merged := resetAll L (re_merged r)\<rparr>"

definition merge_into :: "'h hdr \<Rightarrow> 'h aggMap \<Rightarrow> 'h aggregate \<Rightarrow> 'h aggMap" where
  "merge_into L m a =
     (if ag_count a = 0 then m
      else am_modify (getOrCreate L m (ag_metric a) (ag_labels a) (ag_kind a))
             (ag_metric a) (ag_labels a) (\<lambda>dst. mergeFrom L dst a))"

definition flush_shard :: "'h hdr \<Rightarrow> 'h series_order \<Rightarrow> 'h recorder \<Rightarrow> nat \<Rightarrow> 'h recorder" where
  "flush_shard L ord r i =
     (let s = re_shards r ! i in
      r\<lparr>re_merged := foldl (merge_into L) (re_merged r) (each ord s),
        re_shards := (re_shards r)[i := resetAll L s]\<rparr>)"

definition flush_end ::
  "'h hdr \<Rightarrow> 'h series_order \<Rightarrow> ((failureKey \<times> failureEntry) list \<Rightarrow> (failureKey \<times> failureEntry) list) \<Rightarrow>
   'h recorder \<Rightarrow> string \<Rightarrow> string \<Rightarrow> go_time \<Rightarrow> duration \<Rightarrow> u32 \<Rightarrow> MetricBatch \<times> 'h recorder" where
  "flush_end L ord ford r runID nodeID bucketStart width activeVUs =
     (let (fails, t) = drain ford (re_failures r) in
      (\<lparr>mb_RunId = runID, mb_NodeId = nodeID, mb_BucketStart = bucketStart, mb_BucketWidth = width,
        mb_ActiveVus = activeVUs, mb_DroppedSamples = re_dropped r, mb_Failures = fails,
        mb_Series = map (encodeDelta L) (filter (\<lambda>a. ag_count a \<noteq> 0) (each ord (re_merged r)))\<rparr>,
       r\<lparr>re_failures := t\<rparr>))"

definition Flush ::
  "'h hdr \<Rightarrow> 'h series_order \<Rightarrow> ((failureKey \<times> failureEntry) list \<Rightarrow> (failureKey \<times> failureEntry) list) \<Rightarrow>
   'h recorder \<Rightarrow> string \<Rightarrow> string \<Rightarrow> go_time \<Rightarrow> duration \<Rightarrow> u32 \<Rightarrow> MetricBatch \<times> 'h recorder" where
  "Flush L ord ford r runID nodeID bucketStart width activeVUs =
     flush_end L ord ford (foldl (flush_shard L ord) (flush_begin L r) [0..<length (re_shards r)])
       runID nodeID bucketStart width activeVUs"

subsection \<open>Shard indices\<close>

lemma bits_Len_bounds: "0 < n \<Longrightarrow> n < 2 ^ bits_Len n \<and> 2 ^ bits_Len n \<le> 2 * n"
proof (induction n rule: bits_Len.induct)
  case (1 n)
  show ?case
  proof (cases "n = 1")
    case True
    then show ?thesis by (simp add: bits_Len.simps[of "Suc 0"] bits_Len.simps[of 0])
  next
    case False
    with 1 have "n div 2 < 2 ^ bits_Len (n div 2) \<and> 2 ^ bits_Len (n div 2) \<le> 2 * (n div 2)" by simp
    then show ?thesis using "1.prems" by (simp add: bits_Len.simps[of n]) linarith
  qed
qed

lemma bits_Len_le: "n < 2 ^ k \<Longrightarrow> bits_Len n \<le> k"
proof (induction n arbitrary: k rule: bits_Len.induct)
  case (1 n)
  show ?case
  proof (cases "n = 0")
    case False
    then obtain j where k: "k = Suc j" using "1.prems" by (cases k) auto
    then have "bits_Len (n div 2) \<le> j" using 1 False by simp
    then show ?thesis using k by (simp add: bits_Len.simps[of n])
  qed (simp add: bits_Len.simps)
qed

lemma roundUpPow2_spec:
  assumes "n \<le> 2 ^ 62"
  shows "\<exists>k \<le> 62. roundUpPow2 n = 2 ^ k \<and> n \<le> 2 ^ k \<and> (1 < n \<longrightarrow> 2 ^ k < 2 * n)"
proof (cases "n \<le> 1")
  case True
  then show ?thesis by (intro exI[of _ 0]) (simp add: roundUpPow2_def)
next
  case False
  define m where "m = nat (n - 1)"
  have m: "0 < m" "n = int m + 1" "m < 2 ^ 62" using False assms by (auto simp: m_def nat_less_iff)
  have k: "bits_Len m \<le> 62" using m by (intro bits_Len_le) simp
  then have "(2 :: int) ^ bits_Len m \<le> 2 ^ 62" by (intro power_increasing) auto
  then have "i64 (2 ^ bits_Len m) = 2 ^ bits_Len m" by (intro i64_small) auto
  moreover have "int m + 1 \<le> 2 ^ bits_Len m \<and> 2 ^ bits_Len m \<le> 2 * int m"
  proof -
    have "m + 1 \<le> 2 ^ bits_Len m" "2 ^ bits_Len m \<le> 2 * m" using bits_Len_bounds[OF m(1)] by auto
    then have "int (m + 1) \<le> int (2 ^ bits_Len m)" "int (2 ^ bits_Len m) \<le> int (2 * m)"
      by (simp_all only: of_nat_le_iff)
    then show ?thesis by simp
  qed
  ultimately show ?thesis using k m False
    by (intro exI[of _ "bits_Len m"]) (auto simp: roundUpPow2_def m_def[symmetric])
qed

lemma roundUpPow2_large: "2 ^ 62 < n \<Longrightarrow> n < 2 ^ 63 \<Longrightarrow> roundUpPow2 n = - (2 ^ 63)"
proof -
  assume n: "2 ^ 62 < n" "n < 2 ^ 63"
  define m where "m = nat (n - 1)"
  have m: "2 ^ 62 \<le> m" "m < 2 ^ 63" using n by (auto simp: m_def nat_less_iff le_nat_iff)
  have "bits_Len m \<le> 63" using m by (intro bits_Len_le) simp
  moreover have "\<not> bits_Len m \<le> 62"
  proof
    assume "bits_Len m \<le> 62"
    then have "(2 :: nat) ^ bits_Len m \<le> 2 ^ 62" by (intro power_increasing) auto
    then show False using bits_Len_bounds[of m] m by auto
  qed
  ultimately have "bits_Len m = 63" by simp
  then show ?thesis using n by (simp add: roundUpPow2_def m_def[symmetric] i64_def)
qed

lemma mask_index: "k \<le> 63 \<Longrightarrow> unat ((x :: u64) AND word_of_int (2 ^ k - 1)) < 2 ^ k"
proof -
  assume k: "k \<le> 63"
  have "(word_of_int (2 ^ k - 1) :: u64) = mask k" by (simp add: mask_eq_exp_minus_1)
  then have "unat (x AND word_of_int (2 ^ k - 1)) = unat (take_bit k x)" by (simp add: take_bit_eq_mask)
  also have "\<dots> < 2 ^ k" using k by (simp add: unsigned_take_bit_eq)
  finally show ?thesis .
qed

subsection \<open>Draining a shard\<close>

lemma filter_singleton:
  "distinct xs \<Longrightarrow> {x \<in> set xs. p x} = {a} \<Longrightarrow> filter p xs = [a]"
proof -
  assume d: "distinct xs" and s: "{x \<in> set xs. p x} = {a}"
  have "set (filter p xs) = {a}" using s by simp
  moreover have "distinct (filter p xs)" using d by simp
  ultimately show ?thesis by (cases "filter p xs" rule: remdups_adj.cases) auto
qed

lemma each_filter_series:
  assumes "orders ord" "am_ok m"
  shows "filter (\<lambda>a. (ag_metric a, ag_labels a) = (metric, ls)) (each ord m) =
    (case am_find m metric ls of None \<Rightarrow> [] | Some a \<Rightarrow> [a])"
proof -
  have iff: "a \<in> set (each ord m) \<and> (ag_metric a, ag_labels a) = (metric, ls) \<longleftrightarrow> am_find m metric ls = Some a" for a
    using each_find[OF assms, of a] am_find_series[OF assms(2), of metric ls a] by auto
  show ?thesis
  proof (cases "am_find m metric ls")
    case None
    then show ?thesis using iff by (auto simp: filter_empty_conv)
  next
    case (Some a)
    then have "{x \<in> set (each ord m). (ag_metric x, ag_labels x) = (metric, ls)} = {a}" using iff by auto
    with Some filter_singleton[OF distinct_each[OF assms]] show ?thesis by simp
  qed
qed

definition delta_of :: "'h hdr \<Rightarrow> 'h aggregate \<Rightarrow> (string \<times> labels) \<times> MetricKind \<times> ('h aggregate \<Rightarrow> 'h aggregate)" where
  "delta_of L a = ((ag_metric a, ag_labels a), ag_kind a, \<lambda>dst. mergeFrom L dst a)"

lemma foldl_merge_into:
  "foldl (merge_into L) m as =
   foldl (am.upsert L) m (map (delta_of L) (filter (\<lambda>a. ag_count a \<noteq> 0) as))"
  by (induction as arbitrary: m) (auto simp: merge_into_def delta_of_def am.upsert_def)

text \<open>Draining a shard into the merge map acts on each series alone.\<close>

lemma am_find_merge_shard:
  assumes "orders ord" "am_ok s" "am_inv cfg m"
  shows "am_inv cfg (foldl (merge_into L) m (each ord s)) \<and>
    am_find (foldl (merge_into L) m (each ord s)) metric ls =
      (case am_find s metric ls of
         None \<Rightarrow> am_find m metric ls
       | Some a \<Rightarrow> if ag_count a = 0 then am_find m metric ls
           else Some (mergeFrom L (case am_find m metric ls of Some d \<Rightarrow> d
             | None \<Rightarrow> newAggregate L metric ls (ag_kind a) cfg) a))"
proof -
  let ?as = "filter (\<lambda>a. ag_count a \<noteq> 0) (each ord s)"
  let ?xs = "map (delta_of L) ?as"
  have ok: "\<forall>x \<in> set ?xs. keeps_series (snd (snd x))" by (auto simp: delta_of_def)
  have "filter (\<lambda>x. fst x = (metric, ls)) ?xs =
      map (delta_of L) (filter (\<lambda>a. ag_count a \<noteq> 0) (filter (\<lambda>a. (ag_metric a, ag_labels a) = (metric, ls)) (each ord s)))"
    by (simp add: filter_map comp_def delta_of_def conj_commute)
  also have "\<dots> = map (delta_of L) (filter (\<lambda>a. ag_count a \<noteq> 0) (case am_find s metric ls of None \<Rightarrow> [] | Some a \<Rightarrow> [a]))"
    unfolding each_filter_series[OF assms(1,2)] ..
  finally have f: "filter (\<lambda>x. fst x = (metric, ls)) ?xs = \<dots>" .
  from am.lookup_upserts[OF assms(3) ok, of L "(metric, ls)"]
  show ?thesis unfolding f foldl_merge_into
    by (auto simp: am.replay_def delta_of_def dest: am_find_series[OF assms(2)] split: option.splits)
qed

lemma mergeFrom_count: "ag_count (mergeFrom L d a) = ag_count d + ag_count a"
  by (auto simp: mergeFrom_def Let_def split: option.splits)

subsection \<open>Counts per series\<close>

definition am_count :: "'h aggMap \<Rightarrow> string \<Rightarrow> labels \<Rightarrow> u64" where
  "am_count m metric ls = (case am_find m metric ls of None \<Rightarrow> 0 | Some a \<Rightarrow> ag_count a)"

definition labels_good :: "(string \<Rightarrow> u64) \<Rightarrow> 'h aggMap \<Rightarrow> bool" where
  "labels_good mh m \<longleftrightarrow> (\<forall>metric ls. am_find m metric ls \<noteq> None \<longrightarrow> labels_ok mh ls)"

lemma am_count_merge_shard:
  assumes "orders ord" "am_ok s" "am_inv cfg m"
  shows "am_count (foldl (merge_into L) m (each ord s)) metric ls = am_count m metric ls + am_count s metric ls"
  using am_find_merge_shard[OF assms, of L metric ls]
  by (auto simp: am_count_def mergeFrom_count newAggregate_def split: option.splits)

lemma labels_good_merge_shard:
  assumes "orders ord" "am_ok s" "am_inv cfg m" "labels_good mh s" "labels_good mh m"
  shows "labels_good mh (foldl (merge_into L) m (each ord s))"
  unfolding labels_good_def
proof (intro allI impI)
  fix metric ls
  assume "am_find (foldl (merge_into L) m (each ord s)) metric ls \<noteq> None"
  then have "am_find s metric ls \<noteq> None \<or> am_find m metric ls \<noteq> None"
    using am_find_merge_shard[OF assms(1-3), of L metric ls] by (auto split: option.splits if_splits)
  then show "labels_ok mh ls" using assms(4,5) unfolding labels_good_def by blast
qed

lemma am_count_resetAll [simp]: "am_count (resetAll L m) metric ls = 0"
  by (auto simp: am_count_def am_find_resetAll agg_reset_def split: option.splits)

lemma labels_good_resetAll [simp]: "labels_good mh (resetAll L m) = labels_good mh m"
  by (simp add: labels_good_def am_find_resetAll)

lemma labels_Map_inj: "labels_ok mh l \<Longrightarrow> labels_ok mh l' \<Longrightarrow> labels_Map l = labels_Map l' \<Longrightarrow> l = l'"
proof -
  assume ok: "labels_ok mh l" "labels_ok mh l'" and m: "labels_Map l = labels_Map l'"
  have "map_of (labels_Map k) = map_of (lab_pairs k)" if "labels_ok mh k" for k
    using that labels_Map_spec(1)[of k] map_of_inject_set[of "rev (lab_pairs k)" "lab_pairs k"]
    by (auto simp: labels_ok_def pairs_ok_def rev_map[symmetric])
  with ok m show "l = l'" by (metis labels_eqI)
qed

text \<open>What a batch says of one series.\<close>

definition batch_count :: "string \<Rightarrow> labels \<Rightarrow> MetricBatch \<Rightarrow> u64" where
  "batch_count metric ls b = sum_list (map sd_Count
     (filter (\<lambda>d. sd_Metric d = metric \<and> sd_Tags d = labels_Map ls) (mb_Series b)))"

lemma batch_count_flush_end:
  assumes "orders ord" "am_ok (re_merged r)" "labels_good mh (re_merged r)" "labels_ok mh ls"
  shows "batch_count metric ls (fst (flush_end L ord ford r runID nodeID start width vus)) =
    am_count (re_merged r) metric ls"
proof -
  let ?es = "each ord (re_merged r)"
  have lab: "labels_Map (ag_labels a) = labels_Map ls \<longleftrightarrow> ag_labels a = ls" if "a \<in> set ?es" for a
  proof -
    have "labels_ok mh (ag_labels a)"
      using that assms(3) each_find[OF assms(1,2), of a] by (auto simp: labels_good_def)
    then show ?thesis using labels_Map_inj[OF _ assms(4)] by auto
  qed
  have "filter (\<lambda>d. sd_Metric d = metric \<and> sd_Tags d = labels_Map ls)
      (map (encodeDelta L) (filter (\<lambda>a. ag_count a \<noteq> 0) ?es)) =
    map (encodeDelta L) (filter (\<lambda>a. ag_count a \<noteq> 0) (filter (\<lambda>a. (ag_metric a, ag_labels a) = (metric, ls)) ?es))"
    using lab by (auto simp: filter_map comp_def encodeDelta_def intro!: arg_cong[where f = "map _"] filter_cong)
  also have "sum_list (map sd_Count \<dots>) = am_count (re_merged r) metric ls"
    unfolding each_filter_series[OF assms(1,2)]
    by (auto simp: am_count_def encodeDelta_def split: option.splits)
  finally show ?thesis by (simp add: batch_count_def flush_end_def case_prod_beta)
qed

subsection \<open>Invariant of the recorder\<close>

definition shards_ok :: "(string \<Rightarrow> u64) \<Rightarrow> HistogramConfig \<Rightarrow> 'h aggMap \<Rightarrow> bool" where
  "shards_ok mh cfg s \<longleftrightarrow> am_inv cfg s \<and> labels_good mh s"

definition masks_ok :: "'h recorder \<Rightarrow> bool" where
  "masks_ok r \<longleftrightarrow> (\<exists>j k. j \<le> k \<and> k \<le> 62 \<and> length (re_shards r) = 2 ^ k \<and>
     re_mask r = word_of_int (2 ^ k - 1) \<and> re_trendMask r = word_of_int (2 ^ j - 1))"

definition cap_ok :: "'h recorder \<Rightarrow> bool" where
  "cap_ok r \<longleftrightarrow> gowf (re_distinct r) \<and> 0 < rc_MaxSeries (re_cfg r) \<and>
     int (length (re_distinct r)) \<le> rc_MaxSeries (re_cfg r) \<and>
     (\<forall>s \<in> set (re_shards r). \<forall>metric ls. am_find s metric ls \<noteq> None \<longrightarrow>
        (metric, lab_hash ls) \<in> gokeys (re_distinct r))"

definition rec_ok :: "(string \<Rightarrow> u64) \<Rightarrow> 'h recorder \<Rightarrow> bool" where
  "rec_ok mh r \<longleftrightarrow> masks_ok r \<and> cap_ok r \<and>
     (\<forall>s \<in> set (re_shards r). shards_ok mh (rc_Histogram (re_cfg r)) s) \<and>
     shards_ok mh (rc_Histogram (re_cfg r)) (re_merged r)"

lemma labels_good_newAggMap [simp]: "labels_good mh (newAggMap cfg)"
  by (simp add: labels_good_def)

lemma am_inv_newAggMap [simp]: "am_inv cfg (newAggMap cfg)"
  by (simp add: am_inv_def) (simp add: newAggMap_def)

lemma rc_applyDefaults_shards:
  fixes c :: RecorderConfig and g :: int
  defines "d \<equiv> rc_applyDefaults g c"
  assumes "rc_Shards c \<le> 2 ^ 62" "rc_TrendShards c \<le> 2 ^ 62"
  shows "\<exists>j k. j \<le> k \<and> k \<le> 62 \<and> rc_Shards d = 2 ^ k \<and> rc_TrendShards d = 2 ^ j"
proof -
  let ?n = "if rc_Shards c \<le> 0 then min g defaultMaxScalarShard else rc_Shards c"
  let ?t = "if rc_TrendShards c \<le> 0 then DefaultTrendShards else rc_TrendShards c"
  have "?n \<le> 2 ^ 62" "?t \<le> 2 ^ 62"
    using assms(2,3) by (auto simp: defaultMaxScalarShard_def DefaultTrendShards_def min_def)
  then obtain k t where k: "k \<le> 62" "roundUpPow2 ?n = 2 ^ k" and t: "roundUpPow2 ?t = 2 ^ t"
    using roundUpPow2_spec by metis
  have "rc_Shards d = roundUpPow2 ?n" "rc_TrendShards d = min (roundUpPow2 ?t) (roundUpPow2 ?n)"
    by (simp_all add: d_def rc_applyDefaults_def Let_def)
  then have "rc_Shards d = 2 ^ k" "rc_TrendShards d = 2 ^ min t k"
    using k t by (simp_all add: min_def)
  then show ?thesis using k by (intro exI[of _ "min t k"] exI[of _ k]) auto
qed

lemma NewRecorder_ok:
  fixes r :: "'h recorder"
  assumes "NewRecorder g c = Some r" "rc_Shards c \<le> 2 ^ 62" "rc_TrendShards c \<le> 2 ^ 62"
  shows "rec_ok mh r"
proof -
  let ?d = "rc_applyDefaults g c"
  obtain j k where k: "j \<le> k" "k \<le> 62" "rc_Shards ?d = 2 ^ k" "rc_TrendShards ?d = 2 ^ j"
    using rc_applyDefaults_shards[OF assms(2,3)] by metis
  have r: "re_cfg r = ?d" "re_shards r = replicate (nat (2 ^ k)) (newAggMap (rc_Histogram ?d))"
    "re_mask r = word_of_int (2 ^ k - 1)" "re_trendMask r = word_of_int (2 ^ j - 1)" "re_distinct r = []"
    "re_merged r = newAggMap (rc_Histogram ?d)"
    using assms(1) k by (auto simp: NewRecorder_def Let_def split: if_splits)
  have "masks_ok r" unfolding masks_ok_def
    using k r by (intro exI[of _ j] exI[of _ k]) (simp add: nat_power_eq)
  moreover have "0 < rc_MaxSeries ?d"
    by (simp add: rc_applyDefaults_def Let_def DefaultMaxSeries_def)
  then have "cap_ok r" using r by (simp add: cap_ok_def gowf_def)
  ultimately show ?thesis using r by (simp add: rec_ok_def shards_ok_def)
qed

subsection \<open>Recording\<close>

definition held :: "'h recorder \<Rightarrow> string \<Rightarrow> labels \<Rightarrow> u64" where
  "held r metric ls = sum_list (map (\<lambda>s. am_count s metric ls) (re_shards r))"

lemma shard_index:
  assumes "masks_ok r"
  shows "unat (if kind = KindTrend then hint AND re_trendMask r else hint AND re_mask r) < length (re_shards r)"
proof -
  obtain j k where k: "j \<le> k" "k \<le> 62" "length (re_shards r) = 2 ^ k"
      "re_mask r = word_of_int (2 ^ k - 1)" "re_trendMask r = word_of_int (2 ^ j - 1)"
    using assms unfolding masks_ok_def by metis
  have "unat (hint AND re_trendMask r) < 2 ^ j" "unat (hint AND re_mask r) < 2 ^ k"
    using k by (simp_all only: k(4,5)) (intro mask_index, simp)+
  moreover have "unat (hint AND re_trendMask r) < 2 ^ k"
    using calculation(1) by (rule less_le_trans) (use k(1) in \<open>simp add: power_increasing\<close>)
  ultimately show ?thesis using k(3) by auto
qed

lemma admit_spec:
  assumes "cap_ok r"
  shows "\<exists>d. snd (admit r metric ls) = r\<lparr>re_distinct := d\<rparr> \<and> gowf d \<and> int (length d) \<le> rc_MaxSeries (re_cfg r) \<and>
    gokeys (re_distinct r) \<subseteq> gokeys d \<and> (fst (admit r metric ls) \<longrightarrow> (metric, lab_hash ls) \<in> gokeys d) \<and>
    (\<not> fst (admit r metric ls) \<longrightarrow> d = re_distinct r)"
proof (cases "map_of (re_distinct r) (metric, lab_hash ls)")
  case None
  then show ?thesis
    using assms in_gokeys(2)[OF None]
    by (intro exI[of _ "if int (length (re_distinct r)) \<ge> rc_MaxSeries (re_cfg r) then re_distinct r
         else gput (metric, lab_hash ls) () (re_distinct r)"])
      (auto simp: admit_def Let_def cap_ok_def length_gput gokeys_gput)
next
  case (Some u)
  then show ?thesis
    using assms in_gokeys(1)[OF Some]
    by (intro exI[of _ "re_distinct r"]) (auto simp: admit_def Let_def cap_ok_def)
qed

lemma shards_ok_upsert:
  assumes "shards_ok mh cfg s" "labels_ok mh ls" "keeps_series f"
  shows "shards_ok mh cfg (am_modify (getOrCreate L s metric ls kind) metric ls f)"
  using assms
  by (auto simp: shards_ok_def am_inv_def am_ok_getOrCreate am_ok_modify labels_good_def
      am_find_modify am_find_getOrCreate split: if_splits)

lemma getOrCreate_present: "am_find s metric ls = Some a \<Longrightarrow> getOrCreate L s metric ls kind = s"
  by (auto simp: am_find_def getOrCreate_def Let_def)

lemma am_count_upsert:
  assumes "\<And>a. ag_count (f a) = ag_count a + 1" "keeps_series f"
  shows "am_count (am_modify (getOrCreate L s metric ls kind) metric ls f) metric' ls' =
    am_count s metric' ls' + (if (metric', ls') = (metric, ls) then 1 else 0)"
  using assms
  by (auto simp: am_count_def am_find_modify am_find_getOrCreate newAggregate_def split: option.splits)

lemma rec_ok_put:
  assumes ok: "rec_ok mh r" and s': "shards_ok mh (rc_Histogram (re_cfg r)) s'"
    and e: "gowf e" "int (length e) \<le> rc_MaxSeries (re_cfg r)" "gokeys (re_distinct r) \<subseteq> gokeys e"
    and keys: "\<And>metric ls. am_find s' metric ls \<noteq> None \<Longrightarrow> (metric, lab_hash ls) \<in> gokeys e"
  shows "rec_ok mh (r\<lparr>re_distinct := e, re_shards := (re_shards r)[i := s']\<rparr>)"
proof -
  have sub: "t = s' \<or> t \<in> set (re_shards r)" if "t \<in> set ((re_shards r)[i := s'])" for t
    using that set_update_subset_insert[of "re_shards r" i s'] by auto
  have "(metric, lab_hash ls) \<in> gokeys e"
    if "t \<in> set ((re_shards r)[i := s'])" "am_find t metric ls \<noteq> None" for t metric ls
    using sub[OF that(1)] that(2) keys ok e(3) by (auto simp: rec_ok_def cap_ok_def)
  then have "cap_ok (r\<lparr>re_distinct := e, re_shards := (re_shards r)[i := s']\<rparr>)"
    using ok e by (simp add: rec_ok_def cap_ok_def)
  moreover have "\<forall>t \<in> set ((re_shards r)[i := s']). shards_ok mh (rc_Histogram (re_cfg r)) t"
    using sub s' ok by (auto simp: rec_ok_def)
  ultimately show ?thesis using ok by (simp add: rec_ok_def masks_ok_def)
qed

text \<open>The recorder with one more observation of a series in shard \<open>i\<close>.\<close>

definition put_obs :: "platform \<Rightarrow> 'h hdr \<Rightarrow> 'h recorder \<Rightarrow> nat \<Rightarrow> MetricKind \<Rightarrow> string \<Rightarrow> labels \<Rightarrow>
    float64 \<Rightarrow> bool \<Rightarrow> (seriesKey, unit) gomap \<Rightarrow> 'h recorder" where
  "put_obs P L r i kind metric ls value truthy e =
     r\<lparr>re_distinct := e, re_shards := (re_shards r)[i :=
       am_modify (getOrCreate L (re_shards r ! i) metric ls kind) metric ls
         (\<lambda>a. observe P L (rc_Histogram (re_cfg r)) a value truthy)]\<rparr>"

lemma put_obs_ok:
  assumes "rec_ok mh r" "labels_ok mh ls" "i < length (re_shards r)" "gowf e"
    "int (length e) \<le> rc_MaxSeries (re_cfg r)" "gokeys (re_distinct r) \<subseteq> gokeys e" "(metric, lab_hash ls) \<in> gokeys e"
  shows "rec_ok mh (put_obs P L r i kind metric ls value truthy e)"
  unfolding put_obs_def
proof (rule rec_ok_put[OF assms(1)])
  have s: "re_shards r ! i \<in> set (re_shards r)" using assms(3) by simp
  then have "shards_ok mh (rc_Histogram (re_cfg r)) (re_shards r ! i)" using assms(1) by (auto simp: rec_ok_def)
  then show "shards_ok mh (rc_Histogram (re_cfg r)) (am_modify (getOrCreate L (re_shards r ! i) metric ls kind) metric ls
      (\<lambda>a. observe P L (rc_Histogram (re_cfg r)) a value truthy))"
    by (rule shards_ok_upsert) (use assms(2) in simp_all)
  fix metric' ls'
  assume "am_find (am_modify (getOrCreate L (re_shards r ! i) metric ls kind) metric ls
      (\<lambda>a. observe P L (rc_Histogram (re_cfg r)) a value truthy)) metric' ls' \<noteq> None"
  then have "am_find (re_shards r ! i) metric' ls' \<noteq> None \<or> (metric', ls') = (metric, ls)"
    by (auto simp: am_find_modify am_find_getOrCreate split: if_splits)
  then show "(metric', lab_hash ls') \<in> gokeys e"
    using assms s unfolding rec_ok_def cap_ok_def by blast
qed (use assms in auto)

lemma put_obs_held:
  assumes "i < length (re_shards r)"
  shows "held (put_obs P L r i kind metric ls value truthy e) metric' ls' =
    held r metric' ls' + (if (metric', ls') = (metric, ls) then 1 else 0)"
  using assms am_count_upsert[of "\<lambda>a. observe P L (rc_Histogram (re_cfg r)) a value truthy" L
      "re_shards r ! i" metric ls kind metric' ls']
  by (simp add: held_def put_obs_def sum_list_map_update)

lemma rec_record_cases:
  assumes "rec_ok mh r"
  obtains (counted) i e where "i < length (re_shards r)" "gowf e" "int (length e) \<le> rc_MaxSeries (re_cfg r)"
      "gokeys (re_distinct r) \<subseteq> gokeys e" "(metric, lab_hash ls) \<in> gokeys e"
      "rec_record P L r kind metric ls value truthy hint = Some (put_obs P L r i kind metric ls value truthy e)"
  | (dropped) "rec_record P L r kind metric ls value truthy hint = Some (r\<lparr>re_dropped := re_dropped r + 1\<rparr>)"
proof -
  define i where "i = unat (if kind = KindTrend then hint AND re_trendMask r else hint AND re_mask r)"
  have i: "i < length (re_shards r)" using assms shard_index[of r kind hint] by (simp add: i_def rec_ok_def)
  then have s: "re_shards r ! i \<in> set (re_shards r)" by simp
  have cap: "cap_ok r" using assms by (simp add: rec_ok_def)
  obtain d where adm: "snd (admit r metric ls) = r\<lparr>re_distinct := d\<rparr>" "gowf d"
      "int (length d) \<le> rc_MaxSeries (re_cfg r)" "gokeys (re_distinct r) \<subseteq> gokeys d"
      "fst (admit r metric ls) \<Longrightarrow> (metric, lab_hash ls) \<in> gokeys d"
      "\<not> fst (admit r metric ls) \<Longrightarrow> d = re_distinct r"
    using admit_spec[OF cap, of metric ls] by auto
  consider (old) a where "am_find (re_shards r ! i) metric ls = Some a"
    | (new) "am_find (re_shards r ! i) metric ls = None" "fst (admit r metric ls)"
    | (full) "am_find (re_shards r ! i) metric ls = None" "\<not> fst (admit r metric ls)"
    by fastforce
  then show thesis
  proof cases
    case old
    then have "(metric, lab_hash ls) \<in> gokeys (re_distinct r)" using cap s by (auto simp: cap_ok_def)
    moreover have "rec_record P L r kind metric ls value truthy hint = Some (put_obs P L r i kind metric ls value truthy (re_distinct r))"
      using old i by (simp add: rec_record_def i_def[symmetric] getOrCreate_present put_obs_def Let_def)
    ultimately show thesis using counted i cap by (auto simp: cap_ok_def)
  next
    case new
    then have "rec_record P L r kind metric ls value truthy hint = Some (put_obs P L r i kind metric ls value truthy d)"
      using i adm(1) by (simp add: rec_record_def i_def[symmetric] put_obs_def Let_def case_prod_beta)
    then show thesis using counted i adm(2-5) new by auto
  next
    case full
    then show thesis
      using i adm(1,6) by (intro dropped) (simp add: rec_record_def i_def[symmetric] Let_def case_prod_beta)
  qed
qed

text \<open>One observation is either counted as dropped or adds one to its own series and to no
  other.\<close>

lemma rec_record_spec:
  assumes "rec_ok mh r" "labels_ok mh ls"
  shows "\<exists>r'. rec_record P L r kind metric ls value truthy hint = Some r' \<and> rec_ok mh r' \<and>
    re_merged r' = re_merged r \<and> length (re_shards r') = length (re_shards r) \<and>
    (re_dropped r' = re_dropped r + 1 \<and> held r' = held r \<or>
     re_dropped r' = re_dropped r \<and>
     (\<forall>metric' ls'. held r' metric' ls' =
        held r metric' ls' + (if (metric', ls') = (metric, ls) then 1 else 0)))"
proof (cases rule: rec_record_cases[OF assms(1), of metric ls P L kind "value" truthy hint])
  case (1 i e)
  then show ?thesis
    using put_obs_ok[OF assms, of i e metric P L kind "value" truthy] put_obs_held[of i r P L kind metric ls "value" truthy e]
    by (auto simp: put_obs_def)
next
  case 2
  then show ?thesis using assms by (auto simp: held_def rec_ok_def masks_ok_def cap_ok_def fun_eq_iff)
qed

subsection \<open>Flushing\<close>

lemma flush_begin_spec:
  assumes "rec_ok mh r"
  shows "rec_ok mh (flush_begin L r) \<and> held (flush_begin L r) = held r \<and>
    am_count (re_merged (flush_begin L r)) metric ls = 0"
  using assms
  by (auto simp: flush_begin_def rec_ok_def masks_ok_def cap_ok_def shards_ok_def am_inv_def am_ok_resetAll
      held_def fun_eq_iff)

lemma flush_shard_spec:
  assumes "orders ord" "rec_ok mh r" "i < length (re_shards r)"
  shows "rec_ok mh (flush_shard L ord r i)"
    and "held (flush_shard L ord r i) metric ls + am_count (re_merged (flush_shard L ord r i)) metric ls =
      held r metric ls + am_count (re_merged r) metric ls"
proof -
  let ?s = "re_shards r ! i" and ?cfg = "rc_Histogram (re_cfg r)"
  have "?s \<in> set (re_shards r)" using assms(3) by simp
  then have s: "shards_ok mh ?cfg ?s" "am_ok ?s" and m: "shards_ok mh ?cfg (re_merged r)"
    using assms(2) by (auto simp: rec_ok_def shards_ok_def am_inv_def)
  have m': "shards_ok mh ?cfg (foldl (merge_into L) (re_merged r) (each ord ?s))"
    using s m am_find_merge_shard[OF assms(1) s(2), of ?cfg "re_merged r"] labels_good_merge_shard[OF assms(1) s(2)]
    by (auto simp: shards_ok_def)
  have "rec_ok mh (r\<lparr>re_distinct := re_distinct r, re_shards := (re_shards r)[i := resetAll L ?s]\<rparr>)"
  proof (rule rec_ok_put[OF assms(2)])
    show "shards_ok mh ?cfg (resetAll L ?s)" using s by (simp add: shards_ok_def am_inv_def am_ok_resetAll)
    show "(metric, lab_hash ls) \<in> gokeys (re_distinct r)" if "am_find (resetAll L ?s) metric ls \<noteq> None" for metric ls
      using that assms(2) \<open>?s \<in> set (re_shards r)\<close> unfolding rec_ok_def cap_ok_def am_find_resetAll
      by (metis option.map_disc_iff)
  qed (use assms(2) in \<open>auto simp: rec_ok_def cap_ok_def\<close>)
  then show "rec_ok mh (flush_shard L ord r i)"
    using m' by (simp add: flush_shard_def Let_def rec_ok_def masks_ok_def cap_ok_def)
  show "held (flush_shard L ord r i) metric ls + am_count (re_merged (flush_shard L ord r i)) metric ls =
      held r metric ls + am_count (re_merged r) metric ls"
    using assms(3) am_count_merge_shard[OF assms(1) s(2), of ?cfg "re_merged r" L metric ls] m
    by (simp add: flush_shard_def Let_def held_def sum_list_map_update shards_ok_def)
qed

lemma flush_shard_frame [simp]:
  "length (re_shards (flush_shard L ord r i)) = length (re_shards r)"
  "re_dropped (flush_shard L ord r i) = re_dropped r"
  "re_failures (flush_shard L ord r i) = re_failures r"
  by (simp_all add: flush_shard_def Let_def)

lemma flush_shards_spec:
  fixes L :: "'h hdr"
  assumes "orders ord" "rec_ok mh r" "n \<le> length (re_shards r)"
  defines "r' \<equiv> foldl (flush_shard L ord) r [0..<n]"
  shows "rec_ok mh r' \<and> length (re_shards r') = length (re_shards r) \<and> re_dropped r' = re_dropped r \<and>
    re_failures r' = re_failures r \<and>
    held r' metric ls + am_count (re_merged r') metric ls = held r metric ls + am_count (re_merged r) metric ls \<and>
    (\<forall>j < n. am_count (re_shards r' ! j) metric ls = 0)"
  using assms(3) unfolding r'_def
proof (induction n)
  case 0 then show ?case using assms(2) by simp
next
  case (Suc n)
  let ?q = "foldl (flush_shard L ord) r [0..<n]"
  have IH: "rec_ok mh ?q" "length (re_shards ?q) = length (re_shards r)" "re_dropped ?q = re_dropped r"
    "re_failures ?q = re_failures r"
    "held ?q metric ls + am_count (re_merged ?q) metric ls = held r metric ls + am_count (re_merged r) metric ls"
    "\<forall>j < n. am_count (re_shards ?q ! j) metric ls = 0"
    using Suc by auto
  have n: "n < length (re_shards ?q)" using IH Suc.prems by simp
  have "\<forall>j < Suc n. am_count (re_shards (flush_shard L ord ?q n) ! j) metric ls = 0"
    using IH(6) n by (auto simp: flush_shard_def Let_def nth_list_update less_Suc_eq)
  then show ?case
    using flush_shard_spec(1)[OF assms(1) IH(1) n, of L] flush_shard_spec(2)[OF assms(1) IH(1) n, of L metric ls] IH
    by simp
qed

text \<open>
  A flush reports everything and leaves the recorder empty: the batch gives every series
  exactly the count its shards held, in any order of the maps, and afterwards no shard holds
  an observation of it. The batch carries the running number of dropped observations.
\<close>

theorem Flush_reports_everything:
  assumes "rec_ok mh r" and "labels_ok mh ls" and "orders ord"
    and "Flush L ord ford r runID nodeID start width vus = (batch, r')"
  shows "batch_count metric ls batch = held r metric ls \<and> held r' metric ls = 0 \<and>
    mb_DroppedSamples batch = Dropped r \<and> rec_ok mh r'"
proof -
  let ?n = "length (re_shards r)"
  let ?b = "flush_begin L r"
  let ?q = "foldl (flush_shard L ord) ?b [0..<?n]"
  have b: "rec_ok mh ?b" "held ?b = held r" "am_count (re_merged ?b) metric ls = 0" "length (re_shards ?b) = ?n"
    "re_dropped ?b = re_dropped r"
    using flush_begin_spec[OF assms(1), of L metric ls] by (auto simp: flush_begin_def)
  have q: "rec_ok mh ?q" "length (re_shards ?q) = ?n" "re_dropped ?q = re_dropped r"
    "held ?q metric ls + am_count (re_merged ?q) metric ls = held r metric ls"
    "\<forall>j < ?n. am_count (re_shards ?q ! j) metric ls = 0"
    using flush_shards_spec[OF assms(3) b(1), of ?n L metric ls] b by auto
  have "map (\<lambda>s. am_count s metric ls) (re_shards ?q) = replicate ?n 0"
    using q(2,5) by (intro nth_equalityI) auto
  then have h: "held ?q metric ls = 0" unfolding held_def by (simp add: sum_list_replicate)
  have e: "flush_end L ord ford ?q runID nodeID start width vus = (batch, r')"
    using assms(4) by (simp add: Flush_def)
  then have r': "re_shards r' = re_shards ?q" "rec_ok mh r'" "mb_DroppedSamples batch = re_dropped ?q"
    using q(1) by (auto simp: flush_end_def case_prod_beta rec_ok_def masks_ok_def cap_ok_def)
  have "am_ok (re_merged ?q)" "labels_good mh (re_merged ?q)"
    using q(1) by (auto simp: rec_ok_def shards_ok_def am_inv_def)
  from batch_count_flush_end[OF assms(3) this assms(2), of metric L ford runID nodeID start width vus]
  have "batch_count metric ls batch = am_count (re_merged ?q) metric ls" using e by simp
  then show ?thesis using q h r' by (simp add: Dropped_def held_def)
qed

definition demo_recorder :: "list_hist recorder" where
  "demo_recorder = the (NewRecorder 1 \<lparr>rc_Shards = 2, rc_TrendShards = 1, rc_MaxSeries = 1,
     rc_Histogram = small_config, rc_MaxFailureKinds = 1\<rparr>)"

lemma bits_Len_1 [simp]: "bits_Len (Suc 0) = 1"
  by (simp add: bits_Len.simps[of "Suc 0"] bits_Len.simps[of 0])

lemma demo_recorder_eq:
  "demo_recorder = \<lparr>re_cfg = \<lparr>rc_Shards = 2, rc_TrendShards = 1, rc_MaxSeries = 1,
       rc_Histogram = small_config, rc_MaxFailureKinds = 1\<rparr>,
     re_shards = [newAggMap small_config, newAggMap small_config], re_mask = 1, re_trendMask = 0,
     re_distinct = [], re_dropped = 0, re_rr = 0, re_merged = newAggMap small_config,
     re_failures = newFailureTable 1\<rparr>"
  by (simp add: demo_recorder_def NewRecorder_def rc_applyDefaults_def Let_def roundUpPow2_def max_make_def i64_def
      small_config_def hist_Validate_def numeral_2_eq_2)

lemma demo_recorder_ok: "rec_ok mh demo_recorder"
  by (rule NewRecorder_ok[of 1 "\<lparr>rc_Shards = 2, rc_TrendShards = 1, rc_MaxSeries = 1,
     rc_Histogram = small_config, rc_MaxFailureKinds = 1\<rparr>"])
    (simp_all add: demo_recorder_def NewRecorder_def rc_applyDefaults_def Let_def roundUpPow2_def max_make_def i64_def
      small_config_def hist_Validate_def)

theorem Flush_reports_everything_witness:
  "batch_count ''m'' no_labels (fst (Flush list_hdr id id
      (the (rec_record \<lparr>fused = False, oob = (\<lambda>_. 0)\<rparr> list_hdr demo_recorder KindRate ''m'' no_labels (Fin 0) True 5))
      ''r'' ''n'' 1 1 0)) = 1"
proof -
  let ?P = "\<lparr>fused = False, oob = (\<lambda>_. 0)\<rparr>"
  obtain r' where r: "rec_record ?P list_hdr demo_recorder KindRate ''m'' no_labels (Fin 0) True 5 = Some r'"
      "rec_ok (\<lambda>_. 0) r'"
    using rec_record_spec[OF demo_recorder_ok no_labels_ok] by blast
  have "held r' ''m'' no_labels = 1"
    using r(1)
    by (auto simp: demo_recorder_eq rec_record_def admit_def held_def am_count_def am_find_modify am_find_getOrCreate
        newAggregate_def Let_def)
  then show ?thesis
    using Flush_reports_everything[OF r(2) no_labels_ok, of id list_hdr id "''r''" "''n''" 1 1 0, OF _ surjective_pairing, of "''m''"]
    by (simp add: r(1) orders_def)
qed

subsection \<open>Recording and flushing concurrently\<close>

record observation =
  o_kind :: MetricKind
  o_metric :: string
  o_labels :: labels
  o_value :: float64
  o_truthy :: bool
  o_hint :: u64

text \<open>
  The recorder with its reporting loop: \<open>sys_pos\<close> is the shard the running flush drains next
  (\<open>None\<close>: no flush is running). \<open>sys_sent\<close>, \<open>sys_offered\<close> and \<open>sys_taken\<close> only observe what
  happened: the batches sent, every observation made, and those not counted as dropped.
\<close>

record 'h rec_sys =
  sys_rec :: "'h recorder"
  sys_pos :: "nat option"
  sys_sent :: "MetricBatch list"
  sys_offered :: "observation list"
  sys_taken :: "observation list"

definition rec_start :: "'h recorder \<Rightarrow> 'h rec_sys" where
  "rec_start r = \<lparr>sys_rec = r, sys_pos = None, sys_sent = [], sys_offered = [], sys_taken = []\<rparr>"

definition sys_observe :: "platform \<Rightarrow> 'h hdr \<Rightarrow> 'h rec_sys \<Rightarrow> observation \<Rightarrow> 'h rec_sys option" where
  "sys_observe P L s ob =
     (case rec_record P L (sys_rec s) (o_kind ob) (o_metric ob) (o_labels ob) (o_value ob) (o_truthy ob) (o_hint ob) of
        None \<Rightarrow> None
      | Some r \<Rightarrow> Some (s\<lparr>sys_rec := r, sys_offered := sys_offered s @ [ob],
          sys_taken := sys_taken s @ (if re_dropped r = re_dropped (sys_rec s) then [ob] else [])\<rparr>))"

inductive rec_step :: "platform \<Rightarrow> 'h hdr \<Rightarrow> (string \<Rightarrow> u64) \<Rightarrow> 'h rec_sys \<Rightarrow> 'h rec_sys \<Rightarrow> bool"
  for P :: platform and L :: "'h hdr" and mh :: "string \<Rightarrow> u64" where
  step_observe: "labels_ok mh (o_labels ob) \<Longrightarrow> sys_observe P L s ob = Some s' \<Longrightarrow> rec_step P L mh s s'"
| step_failure: "rec_step P L mh s (s\<lparr>sys_rec := ReportFailure (sys_rec s) f now\<rparr>)"
| step_begin: "sys_pos s = None \<Longrightarrow>
    rec_step P L mh s (s\<lparr>sys_rec := flush_begin L (sys_rec s), sys_pos := Some 0\<rparr>)"
| step_shard: "sys_pos s = Some i \<Longrightarrow> i < length (re_shards (sys_rec s)) \<Longrightarrow> orders ord \<Longrightarrow>
    rec_step P L mh s (s\<lparr>sys_rec := flush_shard L ord (sys_rec s) i, sys_pos := Some (i + 1)\<rparr>)"
| step_end: "sys_pos s = Some i \<Longrightarrow> i \<ge> length (re_shards (sys_rec s)) \<Longrightarrow> orders ord \<Longrightarrow>
    flush_end L ord ford (sys_rec s) runID nodeID start width vus = (batch, r) \<Longrightarrow>
    rec_step P L mh s (s\<lparr>sys_rec := r, sys_pos := None, sys_sent := sys_sent s @ [batch]\<rparr>)"

definition in_flight :: "'h rec_sys \<Rightarrow> string \<Rightarrow> labels \<Rightarrow> u64" where
  "in_flight s metric ls = (if sys_pos s = None then 0 else am_count (re_merged (sys_rec s)) metric ls)"

definition sent_count :: "'h rec_sys \<Rightarrow> string \<Rightarrow> labels \<Rightarrow> u64" where
  "sent_count s metric ls = sum_list (map (batch_count metric ls) (sys_sent s))"

definition taken_count :: "'h rec_sys \<Rightarrow> string \<Rightarrow> labels \<Rightarrow> nat" where
  "taken_count s metric ls =
     length (filter (\<lambda>ob. (o_metric ob, o_labels ob) = (metric, ls)) (sys_taken s))"

definition sys_inv :: "(string \<Rightarrow> u64) \<Rightarrow> 'h rec_sys \<Rightarrow> bool" where
  "sys_inv mh s \<longleftrightarrow> rec_ok mh (sys_rec s) \<and>
     (\<forall>metric ls. labels_ok mh ls \<longrightarrow>
        sent_count s metric ls + in_flight s metric ls + held (sys_rec s) metric ls =
        of_nat (taken_count s metric ls)) \<and>
     re_dropped (sys_rec s) + of_nat (length (sys_taken s)) = of_nat (length (sys_offered s))"

lemma rec_step_inv: "rec_step P L mh s s' \<Longrightarrow> sys_inv mh s \<Longrightarrow> sys_inv mh s'"
proof (induction rule: rec_step.induct)
  case (step_observe ob s s')
  have ok: "rec_ok mh (sys_rec s)" using step_observe.prems by (simp add: sys_inv_def)
  obtain r where r: "rec_record P L (sys_rec s) (o_kind ob) (o_metric ob) (o_labels ob) (o_value ob) (o_truthy ob) (o_hint ob) = Some r"
      "rec_ok mh r" "re_merged r = re_merged (sys_rec s)"
      "re_dropped r = re_dropped (sys_rec s) + 1 \<and> held r = held (sys_rec s) \<or>
       re_dropped r = re_dropped (sys_rec s) \<and> (\<forall>metric' ls'. held r metric' ls' =
        held (sys_rec s) metric' ls' + (if (metric', ls') = (o_metric ob, o_labels ob) then 1 else 0))"
    using rec_record_spec[OF ok step_observe.hyps(1)] by blast
  have s': "s' = s\<lparr>sys_rec := r, sys_offered := sys_offered s @ [ob],
      sys_taken := sys_taken s @ (if re_dropped r = re_dropped (sys_rec s) then [ob] else [])\<rparr>"
    using step_observe.hyps(2) r(1) by (simp add: sys_observe_def)
  show ?case using step_observe.prems r(2-4) unfolding s' sys_inv_def
    by (auto simp: in_flight_def sent_count_def taken_count_def algebra_simps)
next
  case (step_failure s f now)
  then show ?case
    by (auto simp: sys_inv_def ReportFailure_def in_flight_def sent_count_def taken_count_def held_def
        rec_ok_def masks_ok_def cap_ok_def)
next
  case (step_begin s)
  then show ?case
    using flush_begin_spec[of mh "sys_rec s" L]
    by (auto simp: sys_inv_def in_flight_def sent_count_def taken_count_def) (simp add: flush_begin_def)
next
  case (step_shard s i ord)
  then have ok: "rec_ok mh (sys_rec s)" by (simp add: sys_inv_def)
  note fs = flush_shard_spec[OF step_shard.hyps(3) ok step_shard.hyps(2), of L]
  show ?case using step_shard fs
    by (simp add: sys_inv_def in_flight_def sent_count_def taken_count_def algebra_simps)
next
  case (step_end s i ord ford runID nodeID start width vus batch r)
  then have ok: "rec_ok mh (sys_rec s)" by (simp add: sys_inv_def)
  then have m: "am_ok (re_merged (sys_rec s))" "labels_good mh (re_merged (sys_rec s))"
    by (auto simp: rec_ok_def shards_ok_def am_inv_def)
  have b: "batch_count metric ls batch = am_count (re_merged (sys_rec s)) metric ls" if "labels_ok mh ls" for metric ls
    using batch_count_flush_end[OF step_end.hyps(3) m that, of metric L ford runID nodeID start width vus]
      step_end.hyps(4) by simp
  have r: "r = sys_rec s\<lparr>re_failures := re_failures r\<rparr>"
    using step_end.hyps(4) by (auto simp: flush_end_def case_prod_beta)
  have "rec_ok mh r" "held r = held (sys_rec s)" "re_dropped r = re_dropped (sys_rec s)"
    using ok by (subst r, auto simp: rec_ok_def masks_ok_def cap_ok_def held_def fun_eq_iff)+
  then show ?case using step_end.prems step_end.hyps(1) b
    by (auto simp: sys_inv_def in_flight_def sent_count_def taken_count_def algebra_simps)
qed

lemma rec_reach_inv:
  assumes "(rec_step P L mh)\<^sup>*\<^sup>* (rec_start r) s" "rec_ok mh r" "held r = (\<lambda>_ _. 0)" "re_dropped r = 0"
  shows "sys_inv mh s"
  using assms(1)
proof (induction rule: rtranclp_induct)
  case base
  show ?case using assms(2-4)
    by (simp add: sys_inv_def rec_start_def in_flight_def sent_count_def taken_count_def)
next
  case (step y z)
  then show ?case by (blast intro: rec_step_inv)
qed

lemma NewRecorder_empty:
  assumes "NewRecorder g c = Some r"
  shows "held r = (\<lambda>_ _. 0)" "re_dropped r = 0"
proof -
  have r: "r = (let cfg = rc_applyDefaults g c in \<lparr>re_cfg = cfg,
        re_shards = replicate (nat (rc_Shards cfg)) (newAggMap (rc_Histogram cfg)),
        re_mask = word_of_int (rc_Shards cfg - 1), re_trendMask = word_of_int (rc_TrendShards cfg - 1),
        re_distinct = [], re_dropped = 0, re_rr = 0, re_merged = newAggMap (rc_Histogram cfg),
        re_failures = newFailureTable (rc_MaxFailureKinds cfg)\<rparr>)"
    using assms by (auto simp: NewRecorder_def Let_def split: if_splits)
  show "held r = (\<lambda>_ _. 0)" "re_dropped r = 0"
    unfolding r by (simp_all add: held_def Let_def am_count_def sum_list_replicate fun_eq_iff)
qed

text \<open>
  C2. No observation is lost, counted twice or attributed to another series, however the
  virtual users' calls interleave with the flush loop: at every reachable state the counts
  sent in batches, merged by the running flush and held in the shards add up, for every
  series, to the observations accepted for it; and accepted plus dropped are all of them.
\<close>

theorem recorder_conserves:
  assumes "NewRecorder g c = Some r" and "rc_Shards c \<le> 2 ^ 62" and "rc_TrendShards c \<le> 2 ^ 62"
    and "(rec_step P L mh)\<^sup>*\<^sup>* (rec_start r) s" and "labels_ok mh ls"
  shows "sent_count s metric ls + in_flight s metric ls + held (sys_rec s) metric ls =
      of_nat (taken_count s metric ls) \<and>
    Dropped (sys_rec s) + of_nat (length (sys_taken s)) = of_nat (length (sys_offered s))"
  using rec_reach_inv[OF assms(4) NewRecorder_ok[OF assms(1-3)] NewRecorder_empty[OF assms(1)]] assms(5)
  by (simp add: sys_inv_def Dropped_def)

definition demo_rc :: RecorderConfig where
  "demo_rc = \<lparr>rc_Shards = 2, rc_TrendShards = 1, rc_MaxSeries = 1, rc_Histogram = small_config, rc_MaxFailureKinds = 1\<rparr>"

lemma demo_rc_New: "NewRecorder 1 demo_rc = Some demo_recorder"
  by (simp add: demo_recorder_def demo_rc_def NewRecorder_def rc_applyDefaults_def Let_def roundUpPow2_def max_make_def i64_def
      small_config_def hist_Validate_def)

definition demo_ob :: observation where
  "demo_ob = \<lparr>o_kind = KindRate, o_metric = ''m'', o_labels = no_labels, o_value = Fin 0, o_truthy = True, o_hint = 5\<rparr>"

lemma demo_observe:
  "\<exists>s. (rec_step P L (\<lambda>_. 0))\<^sup>*\<^sup>* (rec_start demo_recorder) s \<and> taken_count s ''m'' no_labels = 1"
proof -
  obtain r where r: "rec_record P L demo_recorder KindRate ''m'' no_labels (Fin 0) True 5 = Some r" "re_dropped r = 0"
    by (auto simp: demo_recorder_eq rec_record_def admit_def Let_def)
  let ?s = "\<lparr>sys_rec = r, sys_pos = None, sys_sent = [], sys_offered = [demo_ob], sys_taken = [demo_ob]\<rparr>"
  have "sys_observe P L (rec_start demo_recorder) demo_ob = Some ?s"
    using r by (simp add: sys_observe_def rec_start_def demo_ob_def demo_recorder_eq)
  then have "rec_step P L (\<lambda>_. 0) (rec_start demo_recorder) ?s"
    by (intro step_observe) (simp_all add: demo_ob_def)
  then show ?thesis by (intro exI[of _ ?s]) (simp add: taken_count_def demo_ob_def)
qed

theorem recorder_conserves_witness:
  "\<exists>s. (rec_step \<lparr>fused = False, oob = (\<lambda>_. 0)\<rparr> list_hdr (\<lambda>_. 0))\<^sup>*\<^sup>* (rec_start demo_recorder) s \<and>
     sent_count s ''m'' no_labels + in_flight s ''m'' no_labels + held (sys_rec s) ''m'' no_labels = 1"
proof -
  obtain s where s: "(rec_step \<lparr>fused = False, oob = (\<lambda>_. 0)\<rparr> list_hdr (\<lambda>_. 0))\<^sup>*\<^sup>* (rec_start demo_recorder) s"
      "taken_count s ''m'' no_labels = 1"
    using demo_observe by blast
  from recorder_conserves[OF demo_rc_New _ _ s(1) no_labels_ok, of "''m''"] s show ?thesis
    by (auto simp: demo_rc_def)
qed

text \<open>
  A recorder never panics and never exceeds its budget: at every reachable state an
  observation with any kind and hint finds its shard, at most \<open>MaxSeries\<close> distinct keys are
  admitted, and every series a shard holds is one of them.
\<close>

theorem recorder_bounded:
  assumes "NewRecorder g c = Some r" and "rc_Shards c \<le> 2 ^ 62" and "rc_TrendShards c \<le> 2 ^ 62"
    and "(rec_step P L mh)\<^sup>*\<^sup>* (rec_start r) s" and "labels_ok mh (o_labels ob)"
  shows "(\<exists>s'. sys_observe P L s ob = Some s') \<and>
    int (SeriesCount (sys_rec s)) \<le> rc_MaxSeries (re_cfg (sys_rec s)) \<and>
    (\<forall>t \<in> set (re_shards (sys_rec s)). \<forall>metric ls. am_find t metric ls \<noteq> None \<longrightarrow>
       (metric, lab_hash ls) \<in> gokeys (re_distinct (sys_rec s)))"
proof -
  have ok: "rec_ok mh (sys_rec s)"
    using rec_reach_inv[OF assms(4) NewRecorder_ok[OF assms(1-3)] NewRecorder_empty[OF assms(1)]]
    by (simp add: sys_inv_def)
  then show ?thesis
    using rec_record_spec[OF ok assms(5), of P L "o_kind ob" "o_metric ob" "o_value ob" "o_truthy ob" "o_hint ob"]
    by (auto simp: sys_observe_def SeriesCount_def rec_ok_def cap_ok_def)
qed

theorem recorder_bounded_witness:
  "\<exists>s'. sys_observe \<lparr>fused = False, oob = (\<lambda>_. 0)\<rparr> list_hdr (rec_start demo_recorder) demo_ob = Some s'"
  using recorder_bounded[OF demo_rc_New _ _ rtranclp.rtrancl_refl, of "\<lambda>_. 0" demo_ob
      "\<lparr>fused = False, oob = (\<lambda>_. 0)\<rparr>" list_hdr]
  by (simp add: demo_rc_def demo_ob_def)

text \<open>
  The number of shards is the smallest power of two that is at least the configured
  number, for every count up to \<open>2^62\<close>.
\<close>

theorem roundUpPow2_smallest:
  assumes "n \<le> 2 ^ 62"
  shows "n \<le> roundUpPow2 n \<and> (\<exists>k. roundUpPow2 n = 2 ^ k) \<and> (\<forall>j. n \<le> 2 ^ j \<longrightarrow> roundUpPow2 n \<le> 2 ^ j)"
proof -
  obtain k where k: "roundUpPow2 n = 2 ^ k" "n \<le> 2 ^ k" "1 < n \<longrightarrow> 2 ^ k < 2 * n"
    using roundUpPow2_spec[OF assms] by auto
  have "(2 :: int) ^ k \<le> 2 ^ j" if "n \<le> 2 ^ j" for j
  proof (cases "1 < n")
    case True
    then have "(2 :: int) ^ k < 2 ^ Suc j" using k(3) that by simp
    then have "k < Suc j" by (rule power_less_imp_less_exp[rotated]) simp
    then show ?thesis by (simp add: power_increasing)
  next
    case False
    then have "(2 :: int) ^ k = 1" using k(1) by (simp add: roundUpPow2_def)
    then show ?thesis by simp
  qed
  then show ?thesis using k by auto
qed

theorem roundUpPow2_smallest_witness: "5 \<le> roundUpPow2 5 \<and> roundUpPow2 5 \<le> 8"
  using roundUpPow2_smallest[of 5] by (auto dest: spec[of _ 3])

end
