(* ===== verification/Store.thy ===== *)
theory Store
  imports Recorder
begin

text \<open>
  \<open>internal/metrics/store.go\<close>: the coordinator's view of one run. Batches from the nodes are
  folded into a cumulative aggregate per series and into time buckets; buckets whose grace
  period is over are finalised into a ring. The methods hold the store's mutex throughout,
  so each is one atomic operation on the record. The orders in which Go ranges over maps are
  arguments where they show in a result.
\<close>

subsection \<open>Configuration\<close>

record StoreConfig =
  sc_Resolution :: duration
  sc_Window :: duration
  sc_LateGrace :: duration
  sc_Histogram :: HistogramConfig
  sc_MaxSeries :: int
  sc_MaxChartedEndpoints :: int
  sc_MaxFailureKinds :: int

definition DefaultResolution :: duration where "DefaultResolution = time_Second"
definition DefaultWindow :: duration where "DefaultWindow = time_Hour"
definition DefaultLateGrace :: duration where "DefaultLateGrace = 3 * time_Second"
definition DefaultMaxChartedEndpoints :: int where "DefaultMaxChartedEndpoints = 40"

definition sc_applyDefaults :: "StoreConfig \<Rightarrow> StoreConfig" where
  "sc_applyDefaults c =
     (let c = (if sc_Resolution c \<le> 0 then c\<lparr>sc_Resolution := DefaultResolution\<rparr> else c);
          c = (if sc_Window c \<le> 0 then c\<lparr>sc_Window := DefaultWindow\<rparr> else c);
          c = (if sc_LateGrace c \<le> 0 then c\<lparr>sc_LateGrace := DefaultLateGrace\<rparr> else c);
          c = (if sc_MaxSeries c \<le> 0 then c\<lparr>sc_MaxSeries := DefaultMaxSeries\<rparr> else c);
          c = (if sc_MaxChartedEndpoints c \<le> 0 then c\<lparr>sc_MaxChartedEndpoints := DefaultMaxChartedEndpoints\<rparr> else c);
          c = (if sc_MaxFailureKinds c \<le> 0 then c\<lparr>sc_MaxFailureKinds := DefaultMaxFailureKinds\<rparr> else c)
      in if hist_Validate (sc_Histogram c) \<noteq> None then c\<lparr>sc_Histogram := DefaultHistogramConfig\<rparr> else c)"

definition reportedPercentiles :: "float64 list" where
  "reportedPercentiles = [Fin 50, Fin 90, Fin 95, Fin 99]"

definition PercentileKeys :: "string list" where
  "PercentileKeys = [''p50'', ''p90'', ''p95'', ''p99'']"

subsection \<open>Buckets\<close>

definition f_of_u64 :: "u64 \<Rightarrow> float64" where
  "f_of_u64 w = f_of_int (uint w)"

record Point =
  pt_Count :: u64
  pt_Sum :: float64
  pt_Min :: float64
  pt_Max :: float64
  pt_NonZero :: u64
  pt_Percentiles :: "(string, float64) gomap"

definition zero_point :: Point where
  "zero_point = \<lparr>pt_Count = 0, pt_Sum = Fin 0, pt_Min = Fin 0, pt_Max = Fin 0, pt_NonZero = 0, pt_Percentiles = []\<rparr>"

definition point_Avg :: "Point \<Rightarrow> float64" where
  "point_Avg p = (if pt_Count p = 0 then Fin 0 else f_div (pt_Sum p) (f_of_u64 (pt_Count p)))"

definition point_Ratio :: "Point \<Rightarrow> float64" where
  "point_Ratio p = (if pt_Count p = 0 then Fin 0 else f_div (f_of_u64 (pt_NonZero p)) (f_of_u64 (pt_Count p)))"

record PointKey =
  pk_Metric :: string
  pk_Scenario :: string

record EndpointPoint =
  ep_Requests :: u64
  ep_Failures :: u64
  ep_Sum :: float64
  ep_Observed :: u64

definition zero_endpoint :: EndpointPoint where
  "zero_endpoint = \<lparr>ep_Requests = 0, ep_Failures = 0, ep_Sum = Fin 0, ep_Observed = 0\<rparr>"

definition endpoint_Avg :: "EndpointPoint \<Rightarrow> float64" where
  "endpoint_Avg p = (if ep_Observed p = 0 then Fin 0 else f_div (ep_Sum p) (f_of_u64 (ep_Observed p)))"

definition endpoint_ErrorRate :: "EndpointPoint \<Rightarrow> float64" where
  "endpoint_ErrorRate p =
     (if ep_Requests p = 0 then Fin 0 else f_div (f_of_u64 (ep_Failures p)) (f_of_u64 (ep_Requests p)))"

text \<open>\<open>bk_vusByNode\<close> and \<open>bk_hists\<close> are nil, here empty, once the bucket is finalised.\<close>

record 'h Bucket =
  bk_Start :: go_time
  bk_ActiveVUs :: u32
  bk_Points :: "(PointKey, Point) gomap"
  bk_Status :: "(string, u64) gomap"
  bk_Endpoints :: "(string, EndpointPoint) gomap"
  bk_vusByNode :: "(string, u32) gomap"
  bk_hists :: "(PointKey, 'h) gomap"

definition zero_bucket :: "'h Bucket" where
  "zero_bucket = \<lparr>bk_Start = zero_time, bk_ActiveVUs = 0, bk_Points = [], bk_Status = [], bk_Endpoints = [],
     bk_vusByNode = [], bk_hists = []\<rparr>"

subsection \<open>The store\<close>

record 'h Store =
  st_cfg :: StoreConfig
  st_cumulative :: "'h aggMap"
  st_scratch :: 'h
  st_open :: "(int, 'h Bucket) gomap"
  st_closed :: "'h Bucket list"
  st_head :: nat
  st_closedN :: nat
  st_capacity :: nat
  st_started :: go_time
  st_lastSeen :: go_time
  st_droppedSeries :: u64
  st_droppedLate :: u64
  st_droppedEndpoints :: u64
  st_nodeDropped :: "(string, u64) gomap"
  st_failures :: failureStore

text \<open>The largest slice of 72-byte buckets the runtime can allocate.\<close>

definition max_buckets :: int where
  "max_buckets = 2 ^ 48 div 72"

text \<open>\<open>None\<close>: \<open>make\<close> panics on the capacity of the ring.\<close>

definition NewStore :: "'h hdr \<Rightarrow> StoreConfig \<Rightarrow> 'h Store option" where
  "NewStore L cfg =
     (let cfg = sc_applyDefaults cfg;
          capacity = go_div (sc_Window cfg) (sc_Resolution cfg);
          capacity = (if capacity < 1 then 1 else capacity)
      in if capacity > max_buckets then None
         else Some \<lparr>st_cfg = cfg, st_cumulative = newAggMap (sc_Histogram cfg),
           st_scratch = hist_New L (sc_Histogram cfg), st_open = [],
           st_closed = replicate (nat capacity) zero_bucket, st_head = 0, st_closedN = 0,
           st_capacity = nat capacity, st_started = zero_time, st_lastSeen = zero_time,
           st_droppedSeries = 0, st_droppedLate = 0, st_droppedEndpoints = 0, st_nodeDropped = [],
           st_failures = newFailureStore (sc_MaxFailureKinds cfg)\<rparr>)"

definition indexOf :: "'h Store \<Rightarrow> go_time \<Rightarrow> int" where
  "indexOf s t = go_div (unix_nano t) (sc_Resolution (st_cfg s))"

datatype ingest_error = NoBucketStart string | LateBucket go_time | SeriesError string decode_error

text \<open>The bucket an index is open under, or a fresh one; \<open>None\<close> when the grace period is over.\<close>

definition bucketFor :: "'h Store \<Rightarrow> int \<Rightarrow> go_time \<Rightarrow> ('h Bucket \<times> 'h Store) option" where
  "bucketFor s idx start =
     (case map_of (st_open s) idx of
        Some bucket \<Rightarrow> Some (bucket, s)
      | None \<Rightarrow>
          let cutoff = indexOf s (st_lastSeen s - sc_LateGrace (st_cfg s)) in
          if idx < cutoff then None
          else let bucket = \<lparr>bk_Start = time_truncate start (sc_Resolution (st_cfg s)), bk_ActiveVUs = 0,
                     bk_Points = [], bk_Status = [], bk_Endpoints = [], bk_vusByNode = [], bk_hists = []\<rparr>
               in Some (bucket, s\<lparr>st_open := gput idx bucket (st_open s)\<rparr>))"

subsection \<open>Folding one series into the store\<close>

definition mergeCumulative ::
  "'h hdr \<Rightarrow> 'h Store \<Rightarrow> string \<Rightarrow> labels \<Rightarrow> MetricKind \<Rightarrow> 'h aggregate \<Rightarrow> 'h Store" where
  "mergeCumulative L s metric ls kind incoming =
     (let m = st_cumulative s in
      if am_find m metric ls = None \<and> int (am_len m) \<ge> sc_MaxSeries (st_cfg s)
      then s\<lparr>st_droppedSeries := st_droppedSeries s + 1\<rparr>
      else let m = getOrCreate L m metric ls kind in
        s\<lparr>st_cumulative := am_modify m metric ls (\<lambda>target.
             if kind = KindGauge then target\<lparr>ag_count := ag_count target + 1, ag_gauge := ag_gauge incoming\<rparr>
             else mergeFrom L target incoming)\<rparr>)"

definition addToBucket ::
  "'h hdr \<Rightarrow> StoreConfig \<Rightarrow> 'h Bucket \<Rightarrow> PointKey \<Rightarrow> MetricKind \<Rightarrow> 'h aggregate \<Rightarrow> 'h option \<Rightarrow> 'h Bucket" where
  "addToBucket L cfg bucket key kind incoming hist =
     (let point = (case map_of (bk_Points bucket) key of Some p \<Rightarrow> p | None \<Rightarrow> zero_point);
          point = point\<lparr>pt_Count := pt_Count point + ag_count incoming,
                        pt_NonZero := pt_NonZero point + ag_nonZero incoming\<rparr>
      in if kind = KindGauge
         then bucket\<lparr>bk_Points := gput key (point\<lparr>pt_Sum := f_add (pt_Sum point) (ag_gauge incoming)\<rparr>) (bk_Points bucket)\<rparr>
         else
           let point = point\<lparr>pt_Sum := f_add (pt_Sum point) (ag_sum incoming)\<rparr>;
               point = (if ag_count incoming > 0 then
                 let point = (if f_eq (pt_Min point) (Fin 0) \<or> f_lt (ag_minVal incoming) (pt_Min point)
                              then point\<lparr>pt_Min := ag_minVal incoming\<rparr> else point)
                 in if f_lt (pt_Max point) (ag_maxVal incoming) then point\<lparr>pt_Max := ag_maxVal incoming\<rparr> else point
                 else point);
               bucket = bucket\<lparr>bk_Points := gput key point (bk_Points bucket)\<rparr>
           in case hist of
                None \<Rightarrow> bucket
              | Some h \<Rightarrow>
                  let acc = (case map_of (bk_hists bucket) key of Some a \<Rightarrow> a | None \<Rightarrow> hist_New L (sc_Histogram cfg))
                  in bucket\<lparr>bk_hists := gput key (hdr_Merge L acc h) (bk_hists bucket)\<rparr>)"

definition statusClass :: "string \<Rightarrow> string" where
  "statusClass status =
     (case status of [] \<Rightarrow> ''other''
      | c # _ \<Rightarrow>
          if c = CHR ''0'' then ''error''
          else if c = CHR ''1'' then ''1xx''
          else if c = CHR ''2'' then ''2xx''
          else if c = CHR ''3'' then ''3xx''
          else if c = CHR ''4'' then ''4xx''
          else if c = CHR ''5'' then ''5xx''
          else ''other'')"

text \<open>The bucket's endpoints, and whether the endpoint was dropped.\<close>

definition addEndpointPoint ::
  "'h Store \<Rightarrow> 'h Bucket \<Rightarrow> string \<Rightarrow> string \<Rightarrow> 'h aggregate \<Rightarrow> 'h Store \<times> 'h Bucket" where
  "addEndpointPoint s bucket name metric incoming =
     (if metric \<notin> {MetricHTTPReqs, MetricHTTPReqDuration, MetricHTTPReqFailed} then (s, bucket)
      else if map_of (bk_Endpoints bucket) name = None \<and>
              int (length (bk_Endpoints bucket)) \<ge> sc_MaxChartedEndpoints (st_cfg s)
      then (s\<lparr>st_droppedEndpoints := st_droppedEndpoints s + 1\<rparr>, bucket)
      else
        let point = (case map_of (bk_Endpoints bucket) name of Some p \<Rightarrow> p | None \<Rightarrow> zero_endpoint);
            point = (if metric = MetricHTTPReqs then point\<lparr>ep_Requests := ep_Requests point + ag_count incoming\<rparr>
              else if metric = MetricHTTPReqDuration then
                point\<lparr>ep_Sum := f_add (ep_Sum point) (ag_sum incoming), ep_Observed := ep_Observed point + ag_count incoming\<rparr>
              else point\<lparr>ep_Failures := ep_Failures point + ag_nonZero incoming\<rparr>)
        in (s, bucket\<lparr>bk_Endpoints := gput name point (bk_Endpoints bucket)\<rparr>))"

definition scenario_of :: "labels \<Rightarrow> string" where
  "scenario_of ls = (case Get ls LabelScenario of Some v \<Rightarrow> v | None \<Rightarrow> [])"

definition merge_points ::
  "'h hdr \<Rightarrow> StoreConfig \<Rightarrow> 'h Bucket \<Rightarrow> string \<Rightarrow> labels \<Rightarrow> MetricKind \<Rightarrow> 'h aggregate \<Rightarrow> 'h option \<Rightarrow> 'h Bucket" where
  "merge_points L cfg bucket metric ls kind incoming hist =
     (let scenario = scenario_of ls;
          bucket = addToBucket L cfg bucket \<lparr>pk_Metric = metric, pk_Scenario = scenario\<rparr> kind incoming hist
      in if scenario \<noteq> []
         then addToBucket L cfg bucket \<lparr>pk_Metric = metric, pk_Scenario = []\<rparr> kind incoming hist else bucket)"

definition merge_status :: "'h Bucket \<Rightarrow> string \<Rightarrow> labels \<Rightarrow> 'h aggregate \<Rightarrow> 'h Bucket" where
  "merge_status bucket metric ls incoming =
     (if metric = MetricHTTPReqs then
        (case Get ls LabelStatus of
           Some status \<Rightarrow>
             let c = statusClass status;
                 n = (case map_of (bk_Status bucket) c of Some n \<Rightarrow> n | None \<Rightarrow> 0)
             in bucket\<lparr>bk_Status := gput c (n + ag_count incoming) (bk_Status bucket)\<rparr>
         | None \<Rightarrow> bucket)
      else bucket)"

definition mergeBucket ::
  "'h hdr \<Rightarrow> 'h Store \<Rightarrow> 'h Bucket \<Rightarrow> string \<Rightarrow> labels \<Rightarrow> MetricKind \<Rightarrow> 'h aggregate \<Rightarrow> 'h option \<Rightarrow> 'h Store \<times> 'h Bucket" where
  "mergeBucket L s bucket metric ls kind incoming hist =
     (let bucket = merge_points L (st_cfg s) bucket metric ls kind incoming hist;
          bucket = merge_status bucket metric ls incoming
      in case Get ls LabelName of
           Some name \<Rightarrow> if name \<noteq> [] then addEndpointPoint s bucket name metric incoming else (s, bucket)
         | None \<Rightarrow> (s, bucket))"

definition incoming_of :: "MetricKind \<Rightarrow> SeriesDelta \<Rightarrow> 'h option \<Rightarrow> 'h aggregate" where
  "incoming_of kind delta hist =
     \<lparr>ag_metric = [], ag_labels = no_labels, ag_kind = kind, ag_count = sd_Count delta, ag_sum = sd_Sum delta,
      ag_minVal = sd_Min delta, ag_maxVal = sd_Max delta, ag_nonZero = sd_NonZero delta,
      ag_gauge = sd_Sum delta, ag_hist = hist\<rparr>"

text \<open>The histogram of a delta, if it has one.\<close>

definition delta_hist :: "'h hdr \<Rightarrow> HistogramConfig \<Rightarrow> SeriesDelta \<Rightarrow> decode_error + 'h option" where
  "delta_hist L cfg delta =
     (case sd_Histogram delta of
        None \<Rightarrow> Inr None
      | Some snap \<Rightarrow>
          (case DecodeHistogram L (Some snap) cfg of Inl e \<Rightarrow> Inl e | Inr h \<Rightarrow> Inr (Some h)))"

definition ingestSeries ::
  "'h hdr \<Rightarrow> (string \<Rightarrow> u64) \<Rightarrow> 'h Store \<Rightarrow> 'h Bucket \<Rightarrow> SeriesDelta \<Rightarrow> ingest_error + 'h Store \<times> 'h Bucket" where
  "ingestSeries L mh s bucket delta =
     (let ls = LabelsFromMap mh (sd_Tags delta); kind = DecodeKind (sd_Kind delta) in
      case delta_hist L (sc_Histogram (st_cfg s)) delta of
        Inl e \<Rightarrow> Inl (SeriesError (sd_Metric delta) e)
      | Inr hist \<Rightarrow>
          let incoming = incoming_of kind delta hist;
              s = mergeCumulative L s (sd_Metric delta) ls kind incoming
          in Inr (mergeBucket L s bucket (sd_Metric delta) ls kind incoming hist))"

text \<open>The loop of \<open>Ingest\<close> over the series. An error stops it; the series before stay folded in.\<close>

fun ingest_loop ::
  "'h hdr \<Rightarrow> (string \<Rightarrow> u64) \<Rightarrow> 'h Store \<Rightarrow> 'h Bucket \<Rightarrow> SeriesDelta list \<Rightarrow> ingest_error option \<times> 'h Store \<times> 'h Bucket" where
  "ingest_loop L mh s bucket [] = (None, s, bucket)"
| "ingest_loop L mh s bucket (delta # deltas) =
     (case ingestSeries L mh s bucket delta of
        Inl e \<Rightarrow> (Some e, s, bucket)
      | Inr (s', bucket') \<Rightarrow> ingest_loop L mh s' bucket' deltas)"

definition note_batch :: "'h Store \<Rightarrow> MetricBatch \<Rightarrow> 'h Store" where
  "note_batch s batch =
     (let start = mb_BucketStart batch;
          s = (if is_zero_time (st_started s) \<or> start < st_started s then s\<lparr>st_started := start\<rparr> else s);
          s = (if st_lastSeen s < start then s\<lparr>st_lastSeen := start\<rparr> else s)
      in if mb_DroppedSamples batch > 0
         then s\<lparr>st_nodeDropped := gput (mb_NodeId batch) (mb_DroppedSamples batch) (st_nodeDropped s)\<rparr> else s)"

definition set_vus :: "'h Bucket \<Rightarrow> string \<Rightarrow> u32 \<Rightarrow> 'h Bucket" where
  "set_vus bucket node vus =
     (let byNode = gput node vus (bk_vusByNode bucket)
      in bucket\<lparr>bk_vusByNode := byNode, bk_ActiveVUs := sum_list (map snd byNode)\<rparr>)"

definition Ingest ::
  "'h hdr \<Rightarrow> (string \<Rightarrow> u64) \<Rightarrow> 'h Store \<Rightarrow> MetricBatch option \<Rightarrow> ingest_error option \<times> 'h Store" where
  "Ingest L mh s batch =
     (case batch of
        None \<Rightarrow> (None, s)
      | Some batch \<Rightarrow>
          let start = mb_BucketStart batch in
          if is_zero_time start then (Some (NoBucketStart (mb_NodeId batch)), s)
          else
            let s = note_batch s batch; idx = indexOf s start in
            case bucketFor s idx start of
              None \<Rightarrow> (Some (LateBucket start), s\<lparr>st_droppedLate := st_droppedLate s + 1\<rparr>)
            | Some (bucket, s) \<Rightarrow>
                let bucket = set_vus bucket (mb_NodeId batch) (mb_ActiveVus batch);
                    (err, s, bucket) = ingest_loop L mh s bucket (mb_Series batch);
                    s = s\<lparr>st_open := gput idx bucket (st_open s)\<rparr>
                in (case err of
                      Some e \<Rightarrow> (Some e, s)
                    | None \<Rightarrow> (None, s\<lparr>st_failures := fs_ingest (st_failures s) (mb_Failures batch)\<rparr>)))"

definition store_Failures :: "((failureKey \<times> failureEntry) list \<Rightarrow> (failureKey \<times> failureEntry) list) \<Rightarrow>
    'h Store \<Rightarrow> FailureSample list" where
  "store_Failures ord s = summaries ord (st_failures s)"

subsection \<open>Closing buckets\<close>

definition percentilesOf :: "'h hdr \<Rightarrow> 'h \<Rightarrow> (string, float64) gomap" where
  "percentilesOf L hist =
     map (\<lambda>(k, q). (k, UnscaleValue (hdr_ValueAtQuantile L hist q))) (zip PercentileKeys reportedPercentiles)"

definition add_percentiles :: "'h hdr \<Rightarrow> (PointKey, Point) gomap \<Rightarrow> PointKey \<times> 'h \<Rightarrow> (PointKey, Point) gomap" where
  "add_percentiles L points kh =
     (case map_of points (fst kh) of
        None \<Rightarrow> points
      | Some point \<Rightarrow>
          if hdr_TotalCount L (snd kh) = 0 then points
          else gput (fst kh) (point\<lparr>pt_Percentiles := percentilesOf L (snd kh)\<rparr>) points)"

definition close_bucket :: "'h hdr \<Rightarrow> 'h Bucket \<Rightarrow> 'h Bucket" where
  "close_bucket L bucket =
     bucket\<lparr>bk_Points := foldl (add_percentiles L) (bk_Points bucket) (bk_hists bucket),
            bk_hists := [], bk_vusByNode := []\<rparr>"

definition ring_push :: "'h Store \<Rightarrow> 'h Bucket \<Rightarrow> 'h Store" where
  "ring_push s bucket =
     (let slot = (st_head s + st_closedN s) mod st_capacity s in
      if st_closedN s = st_capacity s
      then s\<lparr>st_closed := (st_closed s)[st_head s := bucket], st_head := (st_head s + 1) mod st_capacity s\<rparr>
      else s\<lparr>st_closed := (st_closed s)[slot := bucket], st_closedN := st_closedN s + 1\<rparr>)"

definition finalise :: "'h hdr \<Rightarrow> 'h Store \<Rightarrow> 'h Bucket \<Rightarrow> 'h Store" where
  "finalise L s bucket = ring_push s (close_bucket L bucket)"

definition close_index :: "'h hdr \<Rightarrow> 'h Store \<Rightarrow> int \<Rightarrow> 'h Store" where
  "close_index L s idx =
     (case map_of (st_open s) idx of
        None \<Rightarrow> s
      | Some bucket \<Rightarrow> let s = finalise L s bucket in s\<lparr>st_open := gdel idx (st_open s)\<rparr>)"

definition CloseStale :: "'h hdr \<Rightarrow> 'h Store \<Rightarrow> go_time \<Rightarrow> 'h Store" where
  "CloseStale L s now =
     (let cutoff = indexOf s (now - sc_LateGrace (st_cfg s));
          ready = sort (filter (\<lambda>idx. idx < cutoff) (map fst (st_open s)))
      in foldl (close_index L) s ready)"

definition Timeline :: "'h Store \<Rightarrow> go_time \<Rightarrow> 'h Bucket list" where
  "Timeline s since =
     filter (\<lambda>b. is_zero_time since \<or> since < bk_Start b)
       (map (\<lambda>i. st_closed s ! ((st_head s + i) mod st_capacity s)) [0..<st_closedN s])"

subsection \<open>The ring\<close>

definition ring_ok :: "'h Store \<Rightarrow> bool" where
  "ring_ok s \<longleftrightarrow> length (st_closed s) = st_capacity s \<and> 0 < st_capacity s \<and> st_head s < st_capacity s \<and>
     st_closedN s \<le> st_capacity s"

definition ring_list :: "'h Store \<Rightarrow> 'h Bucket list" where
  "ring_list s = map (\<lambda>i. st_closed s ! ((st_head s + i) mod st_capacity s)) [0..<st_closedN s]"

lemma Timeline_ring: "Timeline s since = filter (\<lambda>b. is_zero_time since \<or> since < bk_Start b) (ring_list s)"
  by (simp add: Timeline_def ring_list_def)

lemma length_ring_list [simp]: "length (ring_list s) = st_closedN s"
  by (simp add: ring_list_def)

lemma mod_shift_eq: "(h + i) mod n = h \<longleftrightarrow> i = 0" if "i < n" "h < n" for h i n :: nat
proof (cases "h + i < n")
  case False
  then have "(h + i) mod n = h + i - n" using that by (simp add: mod_if)
  then show ?thesis using that False by auto
qed simp

lemma ring_push_full:
  assumes "ring_ok s" "st_closedN s = st_capacity s"
  shows "ring_list (ring_push s b) = tl (ring_list s) @ [b]"
proof (rule nth_equalityI)
  let ?n = "st_capacity s" and ?h = "st_head s"
  have n: "0 < ?n" "?h < ?n" "length (st_closed s) = ?n" using assms by (auto simp: ring_ok_def)
  show "length (ring_list (ring_push s b)) = length (tl (ring_list s) @ [b])"
    using assms n by (simp add: ring_push_def Let_def)
  fix i assume "i < length (ring_list (ring_push s b))"
  then have i: "i < ?n" using assms by (simp add: ring_push_def Let_def)
  have idx: "((?h + 1) mod ?n + i) mod ?n = (?h + Suc i) mod ?n" by (simp add: mod_simps)
  then have nth: "ring_list (ring_push s b) ! i = (st_closed s)[?h := b] ! ((?h + Suc i) mod ?n)"
    using i assms(2) by (simp add: ring_list_def ring_push_def Let_def)
  show "ring_list (ring_push s b) ! i = (tl (ring_list s) @ [b]) ! i"
  proof (cases "Suc i = ?n")
    case True
    then have "(?h + Suc i) mod ?n = ?h" using n by simp
    then show ?thesis using nth True n assms(2) by (simp add: nth_append)
  next
    case False
    then have "(?h + Suc i) mod ?n \<noteq> ?h" using i n mod_shift_eq[of "Suc i" ?n ?h] by simp
    then show ?thesis using nth False i assms(2) by (simp add: nth_append nth_tl ring_list_def)
  qed
qed

lemma ring_push_room:
  assumes "ring_ok s" "st_closedN s \<noteq> st_capacity s"
  shows "ring_list (ring_push s b) = ring_list s @ [b]"
proof (rule nth_equalityI)
  let ?n = "st_capacity s" and ?h = "st_head s" and ?k = "st_closedN s"
  have n: "?k < ?n" "?h < ?n" "length (st_closed s) = ?n" using assms by (auto simp: ring_ok_def)
  show "length (ring_list (ring_push s b)) = length (ring_list s @ [b])"
    using assms by (simp add: ring_push_def Let_def)
  fix i assume "i < length (ring_list (ring_push s b))"
  then have i: "i \<le> ?k" using assms by (simp add: ring_push_def Let_def)
  have "(?h + i) mod ?n \<noteq> (?h + ?k) mod ?n" if "i < ?k"
  proof
    assume "(?h + i) mod ?n = (?h + ?k) mod ?n"
    moreover have "((?h + i) mod ?n + (?k - i)) mod ?n = (?h + ?k) mod ?n"
      using that mod_add_left_eq[of "?h + i" ?n "?k - i"] by simp
    ultimately have "((?h + i) mod ?n + (?k - i)) mod ?n = (?h + i) mod ?n" by (simp only:)
    moreover have "?k - i < ?n" "0 < ?k - i" "(?h + i) mod ?n < ?n" using n that by auto
    ultimately show False using mod_shift_eq[of "?k - i" ?n "(?h + i) mod ?n"] by (metis less_irrefl)
  qed
  then show "ring_list (ring_push s b) ! i = (ring_list s @ [b]) ! i"
    using assms(2) i n
    by (cases "i = ?k") (auto simp: ring_list_def ring_push_def Let_def nth_append simp del: upt_Suc)
qed

lemma ring_ok_push: "ring_ok s \<Longrightarrow> ring_ok (ring_push s b)"
  by (auto simp: ring_ok_def ring_push_def Let_def)

interpretation ring: bounded_log ring_ok "finalise L" ring_list "close_bucket L" st_capacity
  for L :: "'h hdr"
proof unfold_locales
  fix s :: "'h Store" and b :: "'h Bucket"
  assume ok: "ring_ok s"
  show "ring_ok (finalise L s b)" using ok by (simp add: finalise_def ring_ok_push)
  show "st_capacity (finalise L s b) = st_capacity s" by (simp add: finalise_def ring_push_def Let_def)
  show "length (ring_list s) \<le> st_capacity s" using ok by (simp add: ring_ok_def)
  show "ring_list (finalise L s b) = last_n (st_capacity s) (ring_list s @ [close_bucket L b])"
  proof (cases "st_closedN s = st_capacity s")
    case True
    then show ?thesis using ok ring_push_full[OF ok True] last_n_snoc[of "ring_list s" "st_capacity s"]
      by (simp add: finalise_def ring_ok_def)
  next
    case False
    then show ?thesis using ok ring_push_room[OF ok False] by (simp add: finalise_def ring_ok_def)
  qed
qed

subsection \<open>Closing stale buckets\<close>

lemma finalise_frame [simp]:
  "st_open (finalise L s b) = st_open s" "st_cfg (finalise L s b) = st_cfg s"
  "st_cumulative (finalise L s b) = st_cumulative s" "st_failures (finalise L s b) = st_failures s"
  "st_lastSeen (finalise L s b) = st_lastSeen s" "st_droppedSeries (finalise L s b) = st_droppedSeries s"
  "st_scratch (finalise L s b) = st_scratch s"
  by (simp_all add: finalise_def ring_push_def Let_def)

lemma ring_list_open [simp]: "ring_list (s\<lparr>st_open := x\<rparr>) = ring_list s" "ring_ok (s\<lparr>st_open := x\<rparr>) = ring_ok s"
  by (simp_all add: ring_list_def ring_ok_def)

lemma close_indices:
  assumes "ring_ok s" "gowf (st_open s)" "distinct is" "set is \<subseteq> gokeys (st_open s)"
  shows "ring_ok (foldl (close_index L) s is) \<and> gowf (st_open (foldl (close_index L) s is)) \<and>
    ring_list (foldl (close_index L) s is) =
      last_n (st_capacity s) (ring_list s @ map (\<lambda>i. close_bucket L (the (map_of (st_open s) i))) is) \<and>
    map_of (st_open (foldl (close_index L) s is)) = (\<lambda>i. if i \<in> set is then None else map_of (st_open s) i) \<and>
    st_capacity (foldl (close_index L) s is) = st_capacity s"
  using assms
proof (induction "is" arbitrary: s)
  case Nil
  then show ?case using ring.contents_fit[of s] last_n_all[of "ring_list s" "st_capacity s"] by (simp add: fun_eq_iff)
next
  case (Cons i js)
  obtain b where b: "map_of (st_open s) i = Some b" using Cons.prems(4) by (auto simp: gokeys_map_of)
  let ?s = "(finalise L s b)\<lparr>st_open := gdel i (st_open s)\<rparr>"
  have step: "close_index L s i = ?s" using b by (simp add: close_index_def Let_def)
  have ok: "ring_ok ?s" "gowf (st_open ?s)" "st_capacity ?s = st_capacity s"
    using Cons.prems ring.inv_push ring.cap_push[of s L b] by auto
  have list: "last_n (st_capacity s) (ring_list ?s @ ys) = last_n (st_capacity s) (ring_list s @ close_bucket L b # ys)" for ys
    using ring.contents_push[OF Cons.prems(1), of L b] last_n_append[of "st_capacity s" "ring_list s @ [close_bucket L b]" ys]
    by simp
  have open': "map_of (st_open ?s) = (map_of (st_open s))(i := None)"
    using Cons.prems(2) by (simp add: map_of_gdel)
  have "set js \<subseteq> gokeys (st_open ?s)" using Cons.prems open' by (auto simp: gokeys_map_of)
  from Cons.IH[OF ok(1,2) _ this] Cons.prems(3)
  have IH: "ring_ok (foldl (close_index L) ?s js)" "gowf (st_open (foldl (close_index L) ?s js))"
    "ring_list (foldl (close_index L) ?s js) =
      last_n (st_capacity s) (ring_list ?s @ map (\<lambda>j. close_bucket L (the (map_of (st_open ?s) j))) js)"
    "map_of (st_open (foldl (close_index L) ?s js)) = (\<lambda>j. if j \<in> set js then None else map_of (st_open ?s) j)"
    "st_capacity (foldl (close_index L) ?s js) = st_capacity s"
    using ok(3) by auto
  have same: "map (\<lambda>j. close_bucket L (the (map_of (st_open ?s) j))) js =
      map (\<lambda>j. close_bucket L (the (map_of (st_open s) j))) js"
    using Cons.prems(3) open' by (intro map_cong) auto
  have "ring_list (foldl (close_index L) s (i # js)) =
      last_n (st_capacity s) (ring_list s @ map (\<lambda>j. close_bucket L (the (map_of (st_open s) j))) (i # js))"
    using IH(3)[unfolded same list] b by (simp add: step)
  moreover have "map_of (st_open (foldl (close_index L) s (i # js))) =
      (\<lambda>j. if j \<in> set (i # js) then None else map_of (st_open s) j)"
    using IH(4) unfolding open' by (auto simp: step fun_eq_iff)
  ultimately show ?case using IH(1,2,5) by (simp add: step)
qed

definition stale_indices :: "'h Store \<Rightarrow> go_time \<Rightarrow> int list" where
  "stale_indices s now =
     sort (filter (\<lambda>idx. idx < indexOf s (now - sc_LateGrace (st_cfg s))) (map fst (st_open s)))"

lemma stale_indices: "gowf (st_open s) \<Longrightarrow> sorted_wrt (<) (stale_indices s now) \<and>
    set (stale_indices s now) = {i \<in> gokeys (st_open s). i < indexOf s (now - sc_LateGrace (st_cfg s))}"
  by (auto simp: stale_indices_def gowf_def gokeys_def strict_sorted_iff)

lemma CloseStale_spec:
  assumes "ring_ok s" "gowf (st_open s)"
  shows "ring_ok (CloseStale L s now) \<and> gowf (st_open (CloseStale L s now)) \<and>
    ring_list (CloseStale L s now) =
      last_n (st_capacity s) (ring_list s @
        map (\<lambda>i. close_bucket L (the (map_of (st_open s) i))) (stale_indices s now)) \<and>
    map_of (st_open (CloseStale L s now)) =
      (\<lambda>i. if i < indexOf s (now - sc_LateGrace (st_cfg s)) then None else map_of (st_open s) i)"
proof -
  have st: "sorted_wrt (<) (stale_indices s now)"
    "set (stale_indices s now) = {i \<in> gokeys (st_open s). i < indexOf s (now - sc_LateGrace (st_cfg s))}"
    using stale_indices[OF assms(2), of now] by auto
  then have d: "distinct (stale_indices s now)" by (simp add: strict_sorted_iff)
  have "CloseStale L s now = foldl (close_index L) s (stale_indices s now)"
    by (simp add: CloseStale_def stale_indices_def)
  then show ?thesis using close_indices[OF assms d] st(2) by (auto simp: gokeys_map_of fun_eq_iff)
qed

text \<open>
  C28. Buckets are published once, in order, and the window slides: closing stale buckets moves
  every open bucket older than the cutoff, and no other, behind the buckets already in the
  timeline, in strictly ascending order of time, and keeps the newest \<open>capacity\<close> of them.
\<close>

theorem CloseStale_files_in_order:
  assumes "ring_ok s" and "gowf (st_open s)"
  shows "\<exists>closing. sorted_wrt (<) closing \<and>
    set closing = {i \<in> gokeys (st_open s). i < indexOf s (now - sc_LateGrace (st_cfg s))} \<and>
    Timeline (CloseStale L s now) zero_time =
      last_n (st_capacity s) (Timeline s zero_time @ map (\<lambda>i. close_bucket L (the (map_of (st_open s) i))) closing) \<and>
    map_of (st_open (CloseStale L s now)) = (\<lambda>i. if i \<in> set closing then None else map_of (st_open s) i)"
  using CloseStale_spec[OF assms, of L now] stale_indices[OF assms(2), of now]
  by (intro exI[of _ "stale_indices s now"])
    (auto simp: Timeline_ring is_zero_time_def gokeys_map_of fun_eq_iff)

definition demo_sc :: StoreConfig where
  "demo_sc = \<lparr>sc_Resolution = 10, sc_Window = 20, sc_LateGrace = 10, sc_Histogram = small_config, sc_MaxSeries = 1,
     sc_MaxChartedEndpoints = 1, sc_MaxFailureKinds = 1\<rparr>"

definition demo_store :: "list_hist Store" where
  "demo_store = the (NewStore list_hdr demo_sc)"

lemma demo_store_New: "NewStore list_hdr demo_sc = Some demo_store"
  by (simp add: demo_store_def demo_sc_def NewStore_def sc_applyDefaults_def Let_def go_div_pos max_buckets_def
      small_config_def hist_Validate_def)

subsection \<open>Invariant of the store\<close>

definition bucket_ok :: "StoreConfig \<Rightarrow> 'h Bucket \<Rightarrow> bool" where
  "bucket_ok cfg b \<longleftrightarrow> gowf (bk_Endpoints b) \<and> gowf (bk_vusByNode b) \<and>
     int (length (bk_Endpoints b)) \<le> sc_MaxChartedEndpoints cfg \<and>
     bk_ActiveVUs b = sum_list (map snd (bk_vusByNode b))"

definition series_cap_ok :: "'h Store \<Rightarrow> bool" where
  "series_cap_ok s \<longleftrightarrow> am_inv (sc_Histogram (st_cfg s)) (st_cumulative s) \<and>
     int (am_len (st_cumulative s)) \<le> sc_MaxSeries (st_cfg s) \<and> 0 < sc_MaxChartedEndpoints (st_cfg s)"

definition store_ok :: "'h Store \<Rightarrow> bool" where
  "store_ok s \<longleftrightarrow> ring_ok s \<and> gowf (st_open s) \<and> (\<forall>e \<in> set (st_open s). bucket_ok (st_cfg s) (snd e)) \<and>
     series_cap_ok s \<and> fst_ok (st_failures s) \<and> 0 < sc_Resolution (st_cfg s) \<and> 0 < sc_LateGrace (st_cfg s)"

lemma NewStore_ok: "NewStore L c = Some s \<Longrightarrow> store_ok s"
proof -
  assume s: "NewStore L c = Some s"
  let ?c = "sc_applyDefaults c"
  have c: "0 < sc_Resolution ?c" "0 < sc_LateGrace ?c" "0 < sc_MaxSeries ?c" "0 < sc_MaxChartedEndpoints ?c"
    by (simp_all add: sc_applyDefaults_def Let_def DefaultResolution_def DefaultLateGrace_def DefaultMaxSeries_def
        DefaultMaxChartedEndpoints_def)
  have f: "st_cfg s = ?c" "st_cumulative s = newAggMap (sc_Histogram ?c)" "st_open s = []"
    "st_closed s = replicate (st_capacity s) zero_bucket" "0 < st_capacity s" "st_head s = 0" "st_closedN s = 0"
    "st_failures s = newFailureStore (sc_MaxFailureKinds ?c)"
    using s by (auto simp: NewStore_def Let_def split: if_splits)
  have "am_len (st_cumulative s) = 0" unfolding f(2) by (simp add: am_len_def newAggMap_def)
  then show ?thesis using c f
    by (simp add: store_ok_def ring_ok_def series_cap_ok_def newFailureStore_ok gowf_def)
qed

text \<open>What folding a series into the store leaves alone.\<close>

definition same_frame :: "'h Store \<Rightarrow> 'h Store \<Rightarrow> bool" where
  "same_frame s s' \<longleftrightarrow> st_cfg s' = st_cfg s \<and> st_open s' = st_open s \<and> st_closed s' = st_closed s \<and>
     st_head s' = st_head s \<and> st_closedN s' = st_closedN s \<and> st_capacity s' = st_capacity s \<and>
     st_started s' = st_started s \<and> st_lastSeen s' = st_lastSeen s \<and> st_failures s' = st_failures s \<and>
     st_scratch s' = st_scratch s"

lemma same_frame_refl [simp]: "same_frame s s"
  by (simp add: same_frame_def)

lemma same_frame_trans: "same_frame s t \<Longrightarrow> same_frame t u \<Longrightarrow> same_frame s u"
  by (simp add: same_frame_def)

definition cum_update :: "'h hdr \<Rightarrow> MetricKind \<Rightarrow> 'h aggregate \<Rightarrow> 'h aggregate \<Rightarrow> 'h aggregate" where
  "cum_update L kind incoming target =
     (if kind = KindGauge then target\<lparr>ag_count := ag_count target + 1, ag_gauge := ag_gauge incoming\<rparr>
      else mergeFrom L target incoming)"

lemma keeps_series_cum_update [simp]: "keeps_series (cum_update L kind incoming)"
  by (auto simp: keeps_series_def cum_update_def mergeFrom_def Let_def split: option.splits)

lemma mergeCumulative_cases:
  obtains (dropped) "am_find (st_cumulative s) metric ls = None"
      "mergeCumulative L s metric ls kind incoming = s\<lparr>st_droppedSeries := st_droppedSeries s + 1\<rparr>"
  | (merged) "am_find (st_cumulative s) metric ls \<noteq> None \<or> int (am_len (st_cumulative s)) < sc_MaxSeries (st_cfg s)"
      "mergeCumulative L s metric ls kind incoming = s\<lparr>st_cumulative :=
         am_modify (getOrCreate L (st_cumulative s) metric ls kind) metric ls (cum_update L kind incoming)\<rparr>"
  by (cases "am_find (st_cumulative s) metric ls = None \<and> int (am_len (st_cumulative s)) \<ge> sc_MaxSeries (st_cfg s)")
    (auto simp: mergeCumulative_def Let_def cum_update_def[abs_def])

lemma mergeCumulative_ok:
  assumes "series_cap_ok s"
  shows "series_cap_ok (mergeCumulative L s metric ls kind incoming) \<and>
    same_frame s (mergeCumulative L s metric ls kind incoming)"
proof (cases rule: mergeCumulative_cases[of s metric ls L kind incoming])
  case dropped
  then show ?thesis using assms by (simp add: series_cap_ok_def same_frame_def)
next
  case merged
  then show ?thesis using assms
    by (auto simp: series_cap_ok_def same_frame_def am_inv_def am_ok_getOrCreate am_ok_modify am_len_def
        am_size_getOrCreate split: if_splits)
qed

lemma addToBucket_frame [simp]:
  "bk_Endpoints (addToBucket L cfg b key kind inc hist) = bk_Endpoints b"
  "bk_vusByNode (addToBucket L cfg b key kind inc hist) = bk_vusByNode b"
  "bk_ActiveVUs (addToBucket L cfg b key kind inc hist) = bk_ActiveVUs b"
  "bk_Start (addToBucket L cfg b key kind inc hist) = bk_Start b"
  by (simp_all add: addToBucket_def Let_def split: option.splits)

lemma addEndpointPoint_ok:
  assumes "bucket_ok (st_cfg s) b" "series_cap_ok s" "addEndpointPoint s b name metric inc = (s', b')"
  shows "bucket_ok (st_cfg s) b' \<and> series_cap_ok s' \<and> same_frame s s' \<and> st_cumulative s' = st_cumulative s \<and>
    st_droppedSeries s' = st_droppedSeries s"
  using assms
  by (auto simp: addEndpointPoint_def Let_def bucket_ok_def series_cap_ok_def same_frame_def length_gput in_gokeys
      split: if_splits option.splits)

lemma merge_points_ok: "bucket_ok cfg b \<Longrightarrow> bucket_ok cfg (merge_points L cfg' b metric ls kind inc hist)"
  by (auto simp: bucket_ok_def merge_points_def Let_def)

lemma merge_status_ok: "bucket_ok cfg b \<Longrightarrow> bucket_ok cfg (merge_status b metric ls inc)"
  by (auto simp: bucket_ok_def merge_status_def Let_def split: option.splits)

lemma mergeBucket_ok:
  assumes "bucket_ok (st_cfg s) b" "series_cap_ok s" "mergeBucket L s b metric ls kind inc hist = (s', b')"
  shows "bucket_ok (st_cfg s) b' \<and> series_cap_ok s' \<and> same_frame s s' \<and> st_cumulative s' = st_cumulative s \<and>
    st_droppedSeries s' = st_droppedSeries s"
proof -
  let ?c = "merge_status (merge_points L (st_cfg s) b metric ls kind inc hist) metric ls inc"
  have c: "bucket_ok (st_cfg s) ?c" using assms(1) by (intro merge_status_ok merge_points_ok)
  show ?thesis
    using assms(2,3) c addEndpointPoint_ok[OF c assms(2)]
    by (auto simp: mergeBucket_def Let_def split: option.splits if_splits)
qed

lemma ingestSeries_ok:
  assumes "bucket_ok (st_cfg s) b" "series_cap_ok s" "ingestSeries L mh s b d = Inr (s', b')"
  shows "bucket_ok (st_cfg s) b' \<and> series_cap_ok s' \<and> same_frame s s'"
proof -
  obtain hist where hist: "mergeBucket L (mergeCumulative L s (sd_Metric d) (LabelsFromMap mh (sd_Tags d))
        (DecodeKind (sd_Kind d)) (incoming_of (DecodeKind (sd_Kind d)) d hist)) b (sd_Metric d)
        (LabelsFromMap mh (sd_Tags d)) (DecodeKind (sd_Kind d)) (incoming_of (DecodeKind (sd_Kind d)) d hist) hist = (s', b')"
    using assms(3) by (auto simp: ingestSeries_def Let_def split: sum.splits)
  let ?t = "mergeCumulative L s (sd_Metric d) (LabelsFromMap mh (sd_Tags d)) (DecodeKind (sd_Kind d))
    (incoming_of (DecodeKind (sd_Kind d)) d hist)"
  have t: "series_cap_ok ?t" "same_frame s ?t" using mergeCumulative_ok[OF assms(2)] by auto
  then have "bucket_ok (st_cfg ?t) b" using assms(1) by (simp add: same_frame_def)
  from mergeBucket_ok[OF this t(1) hist] t show ?thesis
    by (auto simp: same_frame_def)
qed

lemma ingest_loop_ok:
  assumes "bucket_ok (st_cfg s) b" "series_cap_ok s" "ingest_loop L mh s b ds = (err, s', b')"
  shows "bucket_ok (st_cfg s) b' \<and> series_cap_ok s' \<and> same_frame s s'"
  using assms
proof (induction ds arbitrary: s b)
  case (Cons d ds)
  show ?case
  proof (cases "ingestSeries L mh s b d")
    case (Inr p)
    then obtain t c where p: "ingestSeries L mh s b d = Inr (t, c)" by (cases p) auto
    have t: "bucket_ok (st_cfg s) c" "series_cap_ok t" "same_frame s t"
      using ingestSeries_ok[OF Cons.prems(1,2) p] by auto
    then have "bucket_ok (st_cfg t) c" by (simp add: same_frame_def)
    from Cons.IH[OF this t(2)] Cons.prems(3) p t(1,3) show ?thesis
      by (auto simp: same_frame_def)
  qed (use Cons.prems in auto)
qed auto

lemma note_batch_frame [simp]:
  "st_cfg (note_batch s b) = st_cfg s" "st_open (note_batch s b) = st_open s"
  "st_closed (note_batch s b) = st_closed s" "st_head (note_batch s b) = st_head s"
  "st_closedN (note_batch s b) = st_closedN s" "st_capacity (note_batch s b) = st_capacity s"
  "st_cumulative (note_batch s b) = st_cumulative s" "st_failures (note_batch s b) = st_failures s"
  "st_droppedSeries (note_batch s b) = st_droppedSeries s" "st_scratch (note_batch s b) = st_scratch s"
  by (simp_all add: note_batch_def Let_def)

lemma note_batch_ok: "store_ok s \<Longrightarrow> store_ok (note_batch s b)"
  by (simp add: store_ok_def ring_ok_def series_cap_ok_def)

lemma open_bucket_ok: "store_ok s \<Longrightarrow> map_of (st_open s) i = Some b \<Longrightarrow> bucket_ok (st_cfg s) b"
  by (fastforce simp: store_ok_def dest: map_of_SomeD)

lemma bucketFor_ok:
  assumes "store_ok s" "bucketFor s idx start = Some (b, s')"
  shows "store_ok s' \<and> bucket_ok (st_cfg s) b \<and> st_cfg s' = st_cfg s \<and> st_cumulative s' = st_cumulative s \<and>
    st_droppedSeries s' = st_droppedSeries s \<and> st_scratch s' = st_scratch s"
proof (cases "map_of (st_open s) idx")
  case (Some c)
  then show ?thesis using assms open_bucket_ok[OF assms(1) Some] by (simp add: bucketFor_def)
next
  case None
  then have b: "bk_Endpoints b = []" "bk_vusByNode b = []" "bk_ActiveVUs b = 0"
    and s': "s' = s\<lparr>st_open := gput idx b (st_open s)\<rparr>"
    using assms(2) by (auto simp: bucketFor_def Let_def split: if_splits)
  have bok: "bucket_ok (st_cfg s) b"
    using assms(1) b by (simp add: bucket_ok_def gowf_def store_ok_def series_cap_ok_def)
  have "\<forall>e \<in> set (gput idx b (st_open s)). bucket_ok (st_cfg s) (snd e)"
    using assms(1) bok set_gput_subset[of idx b "st_open s"] by (auto simp: store_ok_def)
  then show ?thesis using assms(1) bok by (simp add: s' store_ok_def series_cap_ok_def)
qed

lemma set_vus_ok: "bucket_ok cfg b \<Longrightarrow> bucket_ok cfg (set_vus b node n)"
  by (simp add: bucket_ok_def set_vus_def Let_def)

text \<open>\<open>Ingest\<close>, case by case.\<close>

lemma Ingest_cases:
  assumes "Ingest L mh s (Some batch) = (err, s')"
  obtains (no_start) "err = Some (NoBucketStart (mb_NodeId batch))" "s' = s"
  | (late) "err = Some (LateBucket (mb_BucketStart batch))"
      "s' = (note_batch s batch)\<lparr>st_droppedLate := st_droppedLate (note_batch s batch) + 1\<rparr>"
  | (folded) b t u c where "bucketFor (note_batch s batch) (indexOf (note_batch s batch) (mb_BucketStart batch)) (mb_BucketStart batch) = Some (b, t)"
      "ingest_loop L mh t (set_vus b (mb_NodeId batch) (mb_ActiveVus batch)) (mb_Series batch) = (err, u, c)"
      "s' = (case err of Some e \<Rightarrow> u\<lparr>st_open := gput (indexOf (note_batch s batch) (mb_BucketStart batch)) c (st_open u)\<rparr>
         | None \<Rightarrow> u\<lparr>st_open := gput (indexOf (note_batch s batch) (mb_BucketStart batch)) c (st_open u),
             st_failures := fs_ingest (st_failures u) (mb_Failures batch)\<rparr>)"
proof -
  let ?s = "note_batch s batch" and ?start = "mb_BucketStart batch"
  let ?idx = "indexOf ?s ?start"
  consider (zero) "is_zero_time ?start" | (none) "\<not> is_zero_time ?start" "bucketFor ?s ?idx ?start = None"
    | (some) b t where "\<not> is_zero_time ?start" "bucketFor ?s ?idx ?start = Some (b, t)"
    by (cases "bucketFor ?s ?idx ?start") auto
  then show thesis
  proof cases
    case zero
    then show thesis using assms no_start by (simp add: Ingest_def Let_def)
  next
    case none
    then show thesis using assms late by (simp add: Ingest_def Let_def)
  next
    case some
    obtain e u c where l: "ingest_loop L mh t (set_vus b (mb_NodeId batch) (mb_ActiveVus batch)) (mb_Series batch) = (e, u, c)"
      by (cases "ingest_loop L mh t (set_vus b (mb_NodeId batch) (mb_ActiveVus batch)) (mb_Series batch)")
    have "Ingest L mh s (Some batch) = (case e of
        Some e' \<Rightarrow> (Some e', u\<lparr>st_open := gput ?idx c (st_open u)\<rparr>)
      | None \<Rightarrow> (None, u\<lparr>st_open := gput ?idx c (st_open u), st_failures := fs_ingest (st_failures u) (mb_Failures batch)\<rparr>))"
      unfolding Ingest_def Let_def option.case some(2) prod.case l using some(1) by (simp split: option.split)
    then show thesis using assms l by (intro folded[OF some(2), of u c]) (auto split: option.splits)
  qed
qed

lemma same_frame_ok:
  assumes "store_ok t" "same_frame t u" "series_cap_ok u" "bucket_ok (st_cfg t) c" "fst_ok f"
  shows "store_ok (u\<lparr>st_open := gput idx c (st_open u), st_failures := f\<rparr>)"
proof -
  have fr: "st_cfg u = st_cfg t" "st_open u = st_open t" "ring_ok u = ring_ok t"
    using assms(2) by (auto simp: same_frame_def ring_ok_def)
  have "\<forall>e \<in> set (gput idx c (st_open t)). bucket_ok (st_cfg t) (snd e)"
    using assms(1,4) set_gput_subset[of idx c "st_open t"] by (auto simp: store_ok_def)
  then show ?thesis using assms fr
    by (simp add: store_ok_def series_cap_ok_def ring_ok_def)
qed

lemma Ingest_ok: "store_ok s \<Longrightarrow> store_ok (snd (Ingest L mh s batch))"
proof (cases batch)
  case (Some b)
  assume ok: "store_ok s"
  obtain err s' where i: "Ingest L mh s (Some b) = (err, s')" by (cases "Ingest L mh s (Some b)")
  have "store_ok s'" using i
  proof (cases rule: Ingest_cases)
    case no_start
    then show ?thesis using ok by simp
  next
    case late
    then show ?thesis using note_batch_ok[OF ok, of b] by (simp add: store_ok_def ring_ok_def series_cap_ok_def)
  next
    case (folded b0 t u c)
    have t: "store_ok t" "bucket_ok (st_cfg t) b0"
      using bucketFor_ok[OF note_batch_ok[OF ok] folded(1)] by auto
    then have "bucket_ok (st_cfg t) c \<and> series_cap_ok u \<and> same_frame t u"
      using ingest_loop_ok[OF set_vus_ok _ folded(2)] by (simp add: store_ok_def)
    moreover from this have "fst_ok (st_failures u)" using t by (simp add: store_ok_def same_frame_def)
    ultimately show ?thesis
      using same_frame_ok[OF t(1), of u c "st_failures u"] same_frame_ok[OF t(1), of u c, OF _ _ _ fs_ingest_ok]
      unfolding folded(3) by (auto split: option.split)
  qed
  then show ?thesis using Some i by simp
qed (simp add: Ingest_def)

lemma close_index_core:
  "st_cfg (foldl (close_index L) s is) = st_cfg s \<and> st_cumulative (foldl (close_index L) s is) = st_cumulative s \<and>
   st_failures (foldl (close_index L) s is) = st_failures s \<and> st_lastSeen (foldl (close_index L) s is) = st_lastSeen s \<and>
   st_scratch (foldl (close_index L) s is) = st_scratch s"
  by (induction "is" arbitrary: s) (auto simp: close_index_def Let_def split: option.splits)

lemma CloseStale_frame [simp]:
  "st_cfg (CloseStale L s now) = st_cfg s" "st_cumulative (CloseStale L s now) = st_cumulative s"
  "st_failures (CloseStale L s now) = st_failures s" "st_lastSeen (CloseStale L s now) = st_lastSeen s"
  "st_scratch (CloseStale L s now) = st_scratch s"
  using close_index_core[of L s] by (simp_all add: CloseStale_def Let_def)

lemma CloseStale_ok: "store_ok s \<Longrightarrow> store_ok (CloseStale L s now)"
proof -
  assume ok: "store_ok s"
  then have c: "ring_ok (CloseStale L s now)" "gowf (st_open (CloseStale L s now))"
    "map_of (st_open (CloseStale L s now)) =
      (\<lambda>i. if i < indexOf s (now - sc_LateGrace (st_cfg s)) then None else map_of (st_open s) i)"
    using CloseStale_spec[of s L now] by (auto simp: store_ok_def)
  have "bucket_ok (st_cfg s) (snd e)" if e: "e \<in> set (st_open (CloseStale L s now))" for e
  proof -
    have "map_of (st_open (CloseStale L s now)) (fst e) = Some (snd e)"
      using e c(2) by (auto simp: gowf_def)
    then show ?thesis using c(3) open_bucket_ok[OF ok] by (auto split: if_splits)
  qed
  then show ?thesis using ok c(1,2) by (simp add: store_ok_def series_cap_ok_def)
qed

text \<open>The store over its life.\<close>

datatype store_op = Op_Ingest "MetricBatch option" | Op_CloseStale go_time

fun store_apply :: "'h hdr \<Rightarrow> (string \<Rightarrow> u64) \<Rightarrow> 'h Store \<Rightarrow> store_op \<Rightarrow> 'h Store" where
  "store_apply L mh s (Op_Ingest batch) = snd (Ingest L mh s batch)"
| "store_apply L mh s (Op_CloseStale now) = CloseStale L s now"

lemma store_run_ok: "store_ok s \<Longrightarrow> store_ok (foldl (store_apply L mh) s ops)"
proof (induction ops arbitrary: s)
  case (Cons x ops)
  have "store_ok (store_apply L mh s x)" using Cons.prems Ingest_ok CloseStale_ok by (cases x) auto
  then show ?case using Cons.IH by simp
qed simp

text \<open>
  C29. The store stays bounded whatever the nodes send: after any sequence of ingested batches
  (rejected ones too) and closings, it holds at most \<open>MaxSeries\<close> series, at most \<open>capacity\<close>
  finalised buckets, at most \<open>MaxChartedEndpoints\<close> endpoints in every open bucket and at most
  the configured number of failure kinds.
\<close>

theorem store_bounded:
  assumes "NewStore L c = Some s0" and "s = foldl (store_apply L mh) s0 ops"
  shows "int (am_len (st_cumulative s)) \<le> sc_MaxSeries (st_cfg s) \<and>
    length (Timeline s zero_time) \<le> st_capacity s \<and>
    (\<forall>e \<in> set (st_open s). int (length (bk_Endpoints (snd e))) \<le> sc_MaxChartedEndpoints (st_cfg s)) \<and>
    int (length (fst_entries (st_failures s))) \<le> fst_limit (st_failures s)"
proof -
  have ok: "store_ok s" unfolding assms(2) by (rule store_run_ok[OF NewStore_ok[OF assms(1)]])
  have "length (Timeline s zero_time) \<le> length (ring_list s)" by (simp add: Timeline_ring del: length_ring_list)
  then show ?thesis using ok
    by (auto simp: store_ok_def series_cap_ok_def ring_ok_def bucket_ok_def fst_ok_def)
qed

definition demo_batch :: "string \<Rightarrow> go_time \<Rightarrow> u32 \<Rightarrow> SeriesDelta list \<Rightarrow> MetricBatch" where
  "demo_batch node start vus ds = \<lparr>mb_RunId = ''r'', mb_NodeId = node, mb_BucketStart = start, mb_BucketWidth = 10,
     mb_ActiveVus = vus, mb_DroppedSamples = 0, mb_Failures = [], mb_Series = ds\<rparr>"

theorem store_bounded_witness:
  "length (Timeline (foldl (store_apply list_hdr (\<lambda>_. 0)) demo_store
     [Op_Ingest (Some (demo_batch ''n'' 5 1 [])), Op_CloseStale 100]) zero_time) \<le>
   st_capacity (foldl (store_apply list_hdr (\<lambda>_. 0)) demo_store
     [Op_Ingest (Some (demo_batch ''n'' 5 1 [])), Op_CloseStale 100])"
  using store_bounded[OF demo_store_New refl] by blast

theorem CloseStale_files_in_order_witness:
  "\<exists>closing. sorted_wrt (<) closing \<and>
     Timeline (CloseStale list_hdr demo_store 100) zero_time =
       last_n (st_capacity demo_store) (Timeline demo_store zero_time @
         map (\<lambda>i. close_bucket list_hdr (the (map_of (st_open demo_store) i))) closing)"
  using CloseStale_files_in_order[of demo_store 100 list_hdr] NewStore_ok[OF demo_store_New]
  by (auto simp: store_ok_def)

subsection \<open>What a batch adds\<close>

text \<open>The charted count of a metric, in one scenario or (empty scenario) in the whole run.\<close>

definition point_count :: "'h Bucket \<Rightarrow> string \<Rightarrow> string \<Rightarrow> u64" where
  "point_count b metric scenario =
     (case map_of (bk_Points b) \<lparr>pk_Metric = metric, pk_Scenario = scenario\<rparr> of Some p \<Rightarrow> pt_Count p | None \<Rightarrow> 0)"

definition charted_delta :: "(string \<Rightarrow> u64) \<Rightarrow> string \<Rightarrow> string \<Rightarrow> SeriesDelta \<Rightarrow> u64" where
  "charted_delta mh metric scenario d =
     (if sd_Metric d = metric \<and> (scenario = [] \<or> scenario_of (LabelsFromMap mh (sd_Tags d)) = scenario)
      then sd_Count d else 0)"

text \<open>What a delta adds to the cumulative count of a series: a gauge counts its readings.\<close>

definition series_delta :: "(string \<Rightarrow> u64) \<Rightarrow> string \<Rightarrow> labels \<Rightarrow> SeriesDelta \<Rightarrow> u64" where
  "series_delta mh metric ls d =
     (if sd_Metric d = metric \<and> LabelsFromMap mh (sd_Tags d) = ls
      then (if sd_Kind d = METRIC_KIND_GAUGE then 1 else sd_Count d) else 0)"

lemma map_of_addToBucket:
  "key' \<noteq> key \<Longrightarrow> map_of (bk_Points (addToBucket L cfg b key kind inc hist)) key' = map_of (bk_Points b) key'"
  by (simp add: addToBucket_def Let_def split: option.splits)

lemma count_addToBucket:
  "\<exists>p. map_of (bk_Points (addToBucket L cfg b key kind inc hist)) key = Some p \<and>
     pt_Count p = (case map_of (bk_Points b) key of Some q \<Rightarrow> pt_Count q | None \<Rightarrow> 0) + ag_count inc"
  by (simp add: addToBucket_def Let_def zero_point_def split: option.splits)

lemma point_count_add:
  "point_count (addToBucket L cfg b \<lparr>pk_Metric = metric, pk_Scenario = sc\<rparr> kind inc hist) metric' sc' =
     point_count b metric' sc' + (if metric' = metric \<and> sc' = sc then ag_count inc else 0)"
  using count_addToBucket[of L cfg b "\<lparr>pk_Metric = metric, pk_Scenario = sc\<rparr>" kind inc hist]
    map_of_addToBucket[of "\<lparr>pk_Metric = metric', pk_Scenario = sc'\<rparr>" "\<lparr>pk_Metric = metric, pk_Scenario = sc\<rparr>"
      L cfg b kind inc hist]
  by (auto simp: point_count_def)

lemma point_count_merge_points:
  "point_count (merge_points L cfg b metric ls kind inc hist) metric' sc' = point_count b metric' sc' +
     (if metric' = metric \<and> (sc' = [] \<or> sc' = scenario_of ls) then ag_count inc else 0)"
  by (auto simp: merge_points_def Let_def point_count_add)

lemma point_count_frame [simp]:
  "point_count (merge_status b metric ls inc) = point_count b"
  "point_count (set_vus b node n) = point_count b"
  by (auto simp: merge_status_def set_vus_def point_count_def Let_def fun_eq_iff split: option.splits)

lemma point_count_addEndpoint [simp]:
  "point_count (snd (addEndpointPoint s b name metric inc)) = point_count b"
  by (simp add: addEndpointPoint_def point_count_def Let_def fun_eq_iff)

lemma point_count_mergeBucket:
  "point_count (snd (mergeBucket L s b metric ls kind inc hist)) metric' sc' = point_count b metric' sc' +
     (if metric' = metric \<and> (sc' = [] \<or> sc' = scenario_of ls) then ag_count inc else 0)"
  by (auto simp: mergeBucket_def Let_def point_count_merge_points split: option.split)

lemma ingestSeries_point_count:
  assumes "ingestSeries L mh s b d = Inr (s', b')"
  shows "point_count b' metric sc = point_count b metric sc + charted_delta mh metric sc d"
proof -
  obtain hist t where "mergeBucket L t b (sd_Metric d) (LabelsFromMap mh (sd_Tags d)) (DecodeKind (sd_Kind d))
      (incoming_of (DecodeKind (sd_Kind d)) d hist) hist = (s', b')"
    using assms by (auto simp: ingestSeries_def Let_def split: sum.splits)
  then have "b' = snd (mergeBucket L t b (sd_Metric d) (LabelsFromMap mh (sd_Tags d)) (DecodeKind (sd_Kind d))
      (incoming_of (DecodeKind (sd_Kind d)) d hist) hist)" by simp
  then show ?thesis by (auto simp: point_count_mergeBucket charted_delta_def incoming_of_def)
qed

lemma ingest_loop_point_count:
  "ingest_loop L mh s b ds = (None, s', b') \<Longrightarrow>
   point_count b' metric sc = point_count b metric sc + sum_list (map (charted_delta mh metric sc) ds)"
proof (induction ds arbitrary: s b)
  case (Cons d ds)
  then obtain t c where p: "ingestSeries L mh s b d = Inr (t, c)" "ingest_loop L mh t c ds = (None, s', b')"
    by (auto split: sum.splits)
  then show ?case using Cons.IH[OF p(2)] ingestSeries_point_count[OF p(1)] by (simp add: algebra_simps)
qed simp

definition open_count :: "'h Store \<Rightarrow> int \<Rightarrow> string \<Rightarrow> string \<Rightarrow> u64" where
  "open_count s idx metric sc = (case map_of (st_open s) idx of Some b \<Rightarrow> point_count b metric sc | None \<Rightarrow> 0)"

lemma bucketFor_open:
  assumes "bucketFor s idx start = Some (b, t)"
  shows "point_count b metric sc = open_count s idx metric sc \<and>
    map_of (st_open t) = (map_of (st_open s))(idx \<mapsto> b)"
  using assms
  by (auto simp: bucketFor_def open_count_def point_count_def Let_def fun_eq_iff split: option.splits if_splits)

text \<open>
  Charts count every request once: an accepted batch adds to a metric's run-wide line of
  its bucket exactly the counts of the deltas of that metric, and to a scenario's line exactly
  those of the deltas that carry the scenario; every other bucket is left as it is.
\<close>

theorem Ingest_charts_once:
  assumes "store_ok s" and "Ingest L mh s (Some batch) = (None, s')"
  shows "open_count s' idx metric scenario = open_count s idx metric scenario +
    (if idx = indexOf s (mb_BucketStart batch) then sum_list (map (charted_delta mh metric scenario) (mb_Series batch)) else 0)"
  using assms(2)
proof (cases rule: Ingest_cases)
  case (folded b t u c)
  let ?i = "indexOf (note_batch s batch) (mb_BucketStart batch)"
  have i: "?i = indexOf s (mb_BucketStart batch)" by (simp add: indexOf_def)
  have t: "point_count b metric scenario = open_count s ?i metric scenario" "map_of (st_open t) = (map_of (st_open s))(?i \<mapsto> b)"
    using bucketFor_open[OF folded(1), of metric scenario] by (auto simp: open_count_def)
  have "bucket_ok (st_cfg t) b" "series_cap_ok t"
    using bucketFor_ok[OF note_batch_ok[OF assms(1)] folded(1)] by (auto simp: store_ok_def)
  then have "st_open u = st_open t"
    using ingest_loop_ok[OF set_vus_ok _ folded(2)] by (simp add: same_frame_def)
  then have "map_of (st_open s') = (map_of (st_open s))(?i \<mapsto> c)" using folded(3) t(2) by simp
  then show ?thesis
    using t(1) ingest_loop_point_count[OF folded(2), of metric scenario] i by (auto simp: open_count_def)
qed auto

definition demo_delta :: SeriesDelta where
  "demo_delta = \<lparr>sd_Metric = ''m'', sd_Kind = METRIC_KIND_COUNTER, sd_Tags = [], sd_Count = 3, sd_Sum = Fin 3,
     sd_Min = Fin 1, sd_Max = Fin 1, sd_NonZero = 0, sd_Histogram = None\<rparr>"

lemma demo_store_eq:
  "demo_store = \<lparr>st_cfg = demo_sc, st_cumulative = newAggMap small_config, st_scratch = hist_New list_hdr small_config,
     st_open = [], st_closed = [zero_bucket, zero_bucket], st_head = 0, st_closedN = 0, st_capacity = 2,
     st_started = zero_time, st_lastSeen = zero_time, st_droppedSeries = 0, st_droppedLate = 0,
     st_droppedEndpoints = 0, st_nodeDropped = [], st_failures = newFailureStore 1\<rparr>"
  by (simp add: demo_store_def demo_sc_def NewStore_def sc_applyDefaults_def Let_def go_div_pos max_buckets_def
      small_config_def hist_Validate_def numeral_2_eq_2)

lemma mergeBucket_dropped:
  "st_droppedSeries (fst (mergeBucket L s b metric ls kind inc hist)) = st_droppedSeries s"
  by (auto simp: mergeBucket_def addEndpointPoint_def Let_def split: option.split)

lemma demo_ingest:
  "\<exists>s'. Ingest list_hdr mh demo_store (Some (demo_batch ''n'' 5 1 [demo_delta])) = (None, s') \<and> st_droppedSeries s' = 0"
proof -
  let ?b = "demo_batch ''n'' 5 1 [demo_delta]"
  have nb: "note_batch demo_store ?b = demo_store\<lparr>st_started := 5, st_lastSeen := 5\<rparr>"
    by (simp add: note_batch_def demo_store_eq demo_batch_def is_zero_time_def zero_time_def Let_def)
  have i: "indexOf (demo_store\<lparr>st_started := 5, st_lastSeen := 5\<rparr>) 5 = 0"
      "indexOf (demo_store\<lparr>st_started := 5, st_lastSeen := 5\<rparr>) (- 5) = 0"
    by (simp_all add: indexOf_def demo_store_eq demo_sc_def unix_nano_def i64_def go_div_def)
  have sel: "mb_BucketStart ?b = 5" "mb_Series ?b = [demo_delta]" "st_open demo_store = []" "sd_Histogram demo_delta = None"
      "sc_LateGrace (st_cfg demo_store) = 10" "\<not> is_zero_time 5" "st_droppedSeries demo_store = 0"
      "am_find (st_cumulative demo_store) metric ls = None" "am_len (st_cumulative demo_store) = 0"
      "sc_MaxSeries (st_cfg demo_store) = 1" for metric ls
    by (simp_all add: demo_batch_def demo_store_eq demo_sc_def demo_delta_def is_zero_time_def zero_time_def am_len_def)
      (simp add: newAggMap_def)
  show ?thesis
    by (simp add: Ingest_def nb sel bucketFor_def i ingestSeries_def delta_hist_def Let_def case_prod_beta
        mergeBucket_dropped mergeCumulative_def)
qed

theorem Ingest_charts_once_witness:
  "\<exists>s'. Ingest list_hdr (\<lambda>_. 0) demo_store (Some (demo_batch ''n'' 5 1 [demo_delta])) = (None, s') \<and>
     open_count s' 0 ''m'' [] = 3"
proof -
  obtain s' where s': "Ingest list_hdr (\<lambda>_. 0) demo_store (Some (demo_batch ''n'' 5 1 [demo_delta])) = (None, s')"
    using demo_ingest by blast
  have "indexOf demo_store 5 = 0" "open_count demo_store 0 ''m'' [] = 0"
    by (simp_all add: indexOf_def demo_store_eq demo_sc_def unix_nano_def i64_def go_div_def open_count_def)
  then show ?thesis
    using s' Ingest_charts_once[OF NewStore_ok[OF demo_store_New] s', of 0 "''m''" "[]"]
    by (simp add: demo_batch_def demo_delta_def charted_delta_def)
qed

subsection \<open>Cumulative series\<close>

lemma mergeCumulative_count:
  assumes "series_cap_ok s" "st_droppedSeries (mergeCumulative L s metric ls kind inc) = st_droppedSeries s"
  shows "am_count (st_cumulative (mergeCumulative L s metric ls kind inc)) metric' ls' =
    am_count (st_cumulative s) metric' ls' +
      (if (metric', ls') = (metric, ls) then (if kind = KindGauge then 1 else ag_count inc) else 0)"
proof (cases rule: mergeCumulative_cases[of s metric ls L kind inc])
  case dropped
  then show ?thesis using assms(2) by simp
next
  case merged
  have c: "ag_count (cum_update L k inc a) = ag_count a + (if k = KindGauge then 1 else ag_count inc)" for a k
    by (simp add: cum_update_def mergeFrom_count)
  show ?thesis using merged(2)
    by (auto simp: am_count_def am_find_modify am_find_getOrCreate newAggregate_def c split: option.splits)
qed

lemma ingestSeries_cumulative:
  assumes "bucket_ok (st_cfg s) b" "series_cap_ok s" "ingestSeries L mh s b d = Inr (s', b')"
  shows "(st_droppedSeries s' = st_droppedSeries s \<and> am_count (st_cumulative s') metric ls =
      am_count (st_cumulative s) metric ls + series_delta mh metric ls d) \<or>
    (st_droppedSeries s' = st_droppedSeries s + 1 \<and> st_cumulative s' = st_cumulative s)"
proof -
  let ?ls = "LabelsFromMap mh (sd_Tags d)" and ?k = "DecodeKind (sd_Kind d)"
  obtain hist where m: "mergeBucket L (mergeCumulative L s (sd_Metric d) ?ls ?k (incoming_of ?k d hist)) b (sd_Metric d)
        ?ls ?k (incoming_of ?k d hist) hist = (s', b')"
    using assms(3) by (auto simp: ingestSeries_def Let_def split: sum.splits)
  let ?t = "mergeCumulative L s (sd_Metric d) ?ls ?k (incoming_of ?k d hist)"
  have t: "series_cap_ok ?t" "bucket_ok (st_cfg ?t) b"
    using mergeCumulative_ok[OF assms(2)] assms(1) by (auto simp: same_frame_def)
  have s': "st_cumulative s' = st_cumulative ?t" "st_droppedSeries s' = st_droppedSeries ?t"
    using mergeBucket_ok[OF t(2,1) m] by auto
  have k: "?k = KindGauge \<longleftrightarrow> sd_Kind d = METRIC_KIND_GAUGE" by (cases "sd_Kind d") auto
  show ?thesis
  proof (cases rule: mergeCumulative_cases[of s "sd_Metric d" ?ls L ?k "incoming_of ?k d hist"])
    case dropped
    then show ?thesis using s' by simp
  next
    case merged
    then have "st_droppedSeries ?t = st_droppedSeries s" by simp
    from mergeCumulative_count[OF assms(2) this, of metric ls] s' this k show ?thesis
      by (auto simp: series_delta_def incoming_of_def)
  qed
qed

lemma ingest_loop_cumulative:
  assumes "bucket_ok (st_cfg s) b" "series_cap_ok s" "ingest_loop L mh s b ds = (None, s', b')"
  shows "\<exists>k \<le> length ds. st_droppedSeries s' = st_droppedSeries s + of_nat k \<and>
    (k = 0 \<longrightarrow> am_count (st_cumulative s') metric ls =
      am_count (st_cumulative s) metric ls + sum_list (map (series_delta mh metric ls) ds))"
  using assms
proof (induction ds arbitrary: s b)
  case (Cons d ds)
  then obtain t c where p: "ingestSeries L mh s b d = Inr (t, c)" "ingest_loop L mh t c ds = (None, s', b')"
    by (auto split: sum.splits)
  have t: "bucket_ok (st_cfg t) c" "series_cap_ok t"
    using ingestSeries_ok[OF Cons.prems(1,2) p(1)] by (auto simp: same_frame_def)
  obtain k where k: "k \<le> length ds" "st_droppedSeries s' = st_droppedSeries t + of_nat k"
      "k = 0 \<longrightarrow> am_count (st_cumulative s') metric ls =
        am_count (st_cumulative t) metric ls + sum_list (map (series_delta mh metric ls) ds)"
    using Cons.IH[OF t p(2)] by blast
  from ingestSeries_cumulative[OF Cons.prems(1,2) p(1), of metric ls] show ?case
  proof
    assume "st_droppedSeries t = st_droppedSeries s \<and> am_count (st_cumulative t) metric ls =
        am_count (st_cumulative s) metric ls + series_delta mh metric ls d"
    then show ?thesis using k by (intro exI[of _ k]) (auto simp: algebra_simps)
  next
    assume "st_droppedSeries t = st_droppedSeries s + 1 \<and> st_cumulative t = st_cumulative s"
    then show ?thesis using k by (intro exI[of _ "Suc k"]) (auto simp: algebra_simps)
  qed
qed auto

lemma Ingest_cumulative:
  assumes "store_ok s" "Ingest L mh s (Some batch) = (None, s')" "length (mb_Series batch) < 2 ^ 64"
    and "st_droppedSeries s' = st_droppedSeries s"
  shows "am_count (st_cumulative s') metric ls =
    am_count (st_cumulative s) metric ls + sum_list (map (series_delta mh metric ls) (mb_Series batch))"
  using assms(2)
proof (cases rule: Ingest_cases)
  case (folded b t u c)
  have t: "bucket_ok (st_cfg t) (set_vus b (mb_NodeId batch) (mb_ActiveVus batch))" "series_cap_ok t"
    "st_cumulative t = st_cumulative s" "st_droppedSeries t = st_droppedSeries s"
    using bucketFor_ok[OF note_batch_ok[OF assms(1)] folded(1)] by (auto simp: store_ok_def intro: set_vus_ok)
  obtain k where k: "k \<le> length (mb_Series batch)" "st_droppedSeries u = st_droppedSeries t + of_nat k"
      "k = 0 \<longrightarrow> am_count (st_cumulative u) metric ls =
        am_count (st_cumulative t) metric ls + sum_list (map (series_delta mh metric ls) (mb_Series batch))"
    using ingest_loop_cumulative[OF t(1,2) folded(2), of metric ls] by blast
  have "(of_nat k :: u64) = 0" using k(2) t(4) assms(4) folded(3) by simp
  then have "k = 0" using u64_of_nat_zero[of k] k(1) assms(3) by simp
  then show ?thesis using k(3) t(3) folded(3) by simp
qed auto

text \<open>
  The run totals add up: when no series of an accepted batch is refused for the
  cardinality cap, the cumulative count of every series grows by exactly what the batch's
  deltas say of it.
\<close>

theorem Ingest_counts_series:
  assumes "store_ok s" and "Ingest L mh s (Some batch) = (None, s')" and "length (mb_Series batch) < 2 ^ 64"
    and "st_droppedSeries s' = st_droppedSeries s"
  shows "am_count (st_cumulative s') metric ls =
    am_count (st_cumulative s) metric ls + sum_list (map (series_delta mh metric ls) (mb_Series batch))"
  using assms by (rule Ingest_cumulative)

theorem Ingest_counts_series_witness:
  "\<exists>s'. Ingest list_hdr (\<lambda>_. 0) demo_store (Some (demo_batch ''n'' 5 1 [demo_delta])) = (None, s') \<and>
     am_count (st_cumulative s') ''m'' no_labels = 3"
proof -
  obtain s' where s': "Ingest list_hdr (\<lambda>_. 0) demo_store (Some (demo_batch ''n'' 5 1 [demo_delta])) = (None, s')"
      "st_droppedSeries s' = 0"
    using demo_ingest by blast
  then have "st_droppedSeries s' = st_droppedSeries demo_store" by (simp add: demo_store_eq)
  then show ?thesis
    using s' Ingest_counts_series[OF NewStore_ok[OF demo_store_New] s'(1), of "''m''" no_labels]
    by (simp add: demo_batch_def demo_delta_def series_delta_def LabelsFromMap_def demo_store_eq am_count_def)
qed

lemma demo_ingest_count:
  "am_count (st_cumulative (snd (Ingest list_hdr (\<lambda>_. 0) demo_store (Some (demo_batch ''n'' 5 1 [demo_delta]))))) ''m'' no_labels = 3"
proof -
  obtain s' where s': "Ingest list_hdr (\<lambda>_. 0) demo_store (Some (demo_batch ''n'' 5 1 [demo_delta])) = (None, s')"
      "st_droppedSeries s' = 0"
    using demo_ingest by blast
  then have "st_droppedSeries s' = st_droppedSeries demo_store" by (simp add: demo_store_eq)
  then show ?thesis
    using s' Ingest_cumulative[OF NewStore_ok[OF demo_store_New] s'(1), of "''m''" no_labels]
    by (simp add: demo_batch_def demo_delta_def series_delta_def LabelsFromMap_def demo_store_eq am_count_def)
qed

subsection \<open>Virtual users per bucket\<close>

definition open_vus :: "'h Store \<Rightarrow> int \<Rightarrow> string \<rightharpoonup> u32" where
  "open_vus s idx = (case map_of (st_open s) idx of Some b \<Rightarrow> map_of (bk_vusByNode b) | None \<Rightarrow> Map.empty)"

lemma mergeBucket_vus:
  "bk_vusByNode (snd (mergeBucket L s b metric ls kind inc hist)) = bk_vusByNode b"
  by (auto simp: mergeBucket_def merge_status_def merge_points_def addEndpointPoint_def Let_def split: option.split)

lemma ingest_loop_vus: "ingest_loop L mh s b ds = (err, s', b') \<Longrightarrow> bk_vusByNode b' = bk_vusByNode b"
proof (induction ds arbitrary: s b)
  case (Cons d ds)
  show ?case
  proof (cases "ingestSeries L mh s b d")
    case (Inr p)
    then obtain t c where p: "ingestSeries L mh s b d = Inr (t, c)" by (cases p) auto
    then have "bk_vusByNode c = bk_vusByNode b"
      by (auto simp: ingestSeries_def Let_def split: sum.splits dest!: arg_cong[where f = "\<lambda>x. bk_vusByNode (snd x)"]
          simp: mergeBucket_vus)
    then show ?thesis using Cons p by auto
  qed (use Cons.prems in auto)
qed simp

lemma sum_list_map_of:
  fixes m :: "('k, 'v :: comm_monoid_add) gomap"
  assumes "gowf m"
  shows "sum_list (map snd m) = (\<Sum>k \<in> gokeys m. the (map_of m k))"
  using assms
proof (induction m)
  case (Cons p m)
  obtain k v where p: "p = (k, v)" by (cases p)
  have k: "k \<notin> gokeys m" "gowf m" using Cons.prems p by (auto simp: gowf_def gokeys_def)
  have "(\<Sum>j \<in> gokeys m. the (map_of (p # m) j)) = (\<Sum>j \<in> gokeys m. the (map_of m j))"
    using k p by (intro sum.cong) auto
  moreover have "gokeys (p # m) = insert k (gokeys m)" "finite (gokeys m)" by (auto simp: gokeys_def p)
  ultimately show ?case using Cons.IH k p by simp
qed (simp add: gokeys_def)

text \<open>
  A redelivered batch does not double the virtual users: after a batch is folded in, the
  bucket knows for every node the figure it reported last, and its number of active virtual
  users is the sum of those figures.
\<close>

theorem Ingest_vus_replace:
  assumes "store_ok s" and "Ingest L mh s (Some batch) = (None, s')" and "idx = indexOf s (mb_BucketStart batch)"
  shows "open_vus s' idx = (open_vus s idx)(mb_NodeId batch \<mapsto> mb_ActiveVus batch) \<and>
    (\<exists>b. map_of (st_open s') idx = Some b \<and>
       bk_ActiveVUs b = (\<Sum>node \<in> dom (open_vus s' idx). the (open_vus s' idx node)))"
proof -
  have ok': "store_ok s'" using Ingest_ok[OF assms(1), of L mh "Some batch"] assms(2) by simp
  have main: "open_vus s' idx = (open_vus s idx)(mb_NodeId batch \<mapsto> mb_ActiveVus batch)"
    and open': "\<exists>c. map_of (st_open s') idx = Some c"
    using assms(2)
  proof (atomize (full), cases rule: Ingest_cases)
    case (folded b t u c)
    let ?i = "indexOf (note_batch s batch) (mb_BucketStart batch)"
    have i: "?i = idx" using assms(3) by (simp add: indexOf_def)
    have b: "map_of (bk_vusByNode b) = open_vus s idx"
      using folded(1) i by (auto simp: bucketFor_def open_vus_def Let_def split: option.splits if_splits)
    have "bk_vusByNode c = gput (mb_NodeId batch) (mb_ActiveVus batch) (bk_vusByNode b)"
      using ingest_loop_vus[OF folded(2)] by (simp add: set_vus_def Let_def)
    moreover have "map_of (st_open s') idx = Some c" using folded(3) i by simp
    ultimately show "open_vus s' idx = (open_vus s idx)(mb_NodeId batch \<mapsto> mb_ActiveVus batch) \<and> (\<exists>c. map_of (st_open s') idx = Some c)"
      using b by (simp add: open_vus_def)
  qed auto
  obtain c where c: "map_of (st_open s') idx = Some c" using open' by blast
  then have "bucket_ok (st_cfg s') c" by (rule open_bucket_ok[OF ok'])
  then have "bk_ActiveVUs c = (\<Sum>n \<in> gokeys (bk_vusByNode c). the (map_of (bk_vusByNode c) n))"
    by (simp add: bucket_ok_def sum_list_map_of)
  then show ?thesis using main c by (auto simp: open_vus_def gokeys_map_of)
qed

theorem Ingest_vus_replace_witness:
  "\<exists>s'. Ingest list_hdr (\<lambda>_. 0) demo_store (Some (demo_batch ''n'' 5 1 [demo_delta])) = (None, s') \<and>
     open_vus s' 0 ''n'' = Some 1"
proof -
  obtain s' where s': "Ingest list_hdr (\<lambda>_. 0) demo_store (Some (demo_batch ''n'' 5 1 [demo_delta])) = (None, s')"
    using demo_ingest by blast
  have "0 = indexOf demo_store (mb_BucketStart (demo_batch ''n'' 5 1 [demo_delta]))"
    by (simp add: indexOf_def demo_store_eq demo_sc_def unix_nano_def i64_def go_div_def demo_batch_def)
  from Ingest_vus_replace[OF NewStore_ok[OF demo_store_New] s' this] s' show ?thesis
    by (simp add: demo_batch_def)
qed

end
