(* ===== verification/StoreViews.thy ===== *)
theory StoreViews
  imports Store
begin

text \<open>
  The read side of \<open>internal/metrics/store.go\<close>: the per-series summary, the whole-run figure
  of one metric that thresholds are evaluated against (\<open>Aggregate\<close>), the totals per metric,
  the endpoint table and the store's own statistics. \<open>ord\<close> is the order in which \<open>each\<close>
  ranges over the series.
\<close>

subsection \<open>Summaries\<close>

record SeriesSummary =
  ss_Metric :: string
  ss_Kind :: string
  ss_Tags :: "(string, string) gomap"
  ss_Count :: u64
  ss_Sum :: float64
  ss_Min :: float64
  ss_Max :: float64
  ss_Avg :: float64
  ss_Rate :: float64
  ss_Percentiles :: "(string, float64) gomap"

definition zero_summary :: SeriesSummary where
  "zero_summary = \<lparr>ss_Metric = [], ss_Kind = [], ss_Tags = [], ss_Count = 0, ss_Sum = Fin 0, ss_Min = Fin 0,
     ss_Max = Fin 0, ss_Avg = Fin 0, ss_Rate = Fin 0, ss_Percentiles = []\<rparr>"

definition hist_percentiles :: "'h hdr \<Rightarrow> 'h option \<Rightarrow> (string, float64) gomap" where
  "hist_percentiles L hist =
     (case hist of None \<Rightarrow> [] | Some h \<Rightarrow> if hdr_TotalCount L h > 0 then percentilesOf L h else [])"

definition series_summary :: "'h hdr \<Rightarrow> 'h aggregate \<Rightarrow> SeriesSummary" where
  "series_summary L a =
     \<lparr>ss_Metric = ag_metric a, ss_Kind = kind_String (ag_kind a), ss_Tags = labels_Map (ag_labels a),
      ss_Count = ag_count a, ss_Sum = (if ag_kind a = KindGauge then ag_gauge a else ag_sum a),
      ss_Min = agg_min a, ss_Max = agg_max a,
      ss_Avg = (if ag_count a > 0 then f_div (ag_sum a) (f_of_u64 (ag_count a)) else Fin 0),
      ss_Rate = (if ag_count a > 0 then f_div (f_of_u64 (ag_nonZero a)) (f_of_u64 (ag_count a)) else Fin 0),
      ss_Percentiles = hist_percentiles L (ag_hist a)\<rparr>"

definition tagString :: "(string, string) gomap \<Rightarrow> string" where
  "tagString tags =
     concat (map (\<lambda>k. k @ ''='' @ (case map_of tags k of Some v \<Rightarrow> v | None \<Rightarrow> []) @ '','')
       (sort (map fst tags)))"

definition ss_less :: "SeriesSummary \<Rightarrow> SeriesSummary \<Rightarrow> bool" where
  "ss_less a b =
     (if ss_Metric a \<noteq> ss_Metric b then ss_Metric a < ss_Metric b
      else tagString (ss_Tags a) < tagString (ss_Tags b))"

definition Summary :: "'h hdr \<Rightarrow> 'h series_order \<Rightarrow> 'h Store \<Rightarrow> SeriesSummary list" where
  "Summary L ord s = sort_by ss_less (map (series_summary L) (each ord (st_cumulative s)))"

subsection \<open>One metric across every label combination\<close>

definition aggregate_step :: "'h hdr \<Rightarrow> SeriesSummary \<times> 'h \<Rightarrow> 'h aggregate \<Rightarrow> SeriesSummary \<times> 'h" where
  "aggregate_step L acc a =
     (case acc of (tot, scratch) \<Rightarrow>
        (tot\<lparr>ss_Kind := kind_String (ag_kind a),
             ss_Count := ss_Count tot + ag_count a,
             ss_Sum := f_add (ss_Sum tot) (ag_sum a),
             ss_Rate := f_add (ss_Rate tot) (f_of_u64 (ag_nonZero a)),
             ss_Min := (if f_eq (ss_Min tot) (Fin 0) \<or> (ag_count a > 0 \<and> f_lt (agg_min a) (ss_Min tot))
                        then agg_min a else ss_Min tot),
             ss_Max := (if f_lt (ss_Max tot) (agg_max a) then agg_max a else ss_Max tot)\<rparr>,
         case ag_hist a of None \<Rightarrow> scratch | Some h \<Rightarrow> hdr_Merge L scratch h))"

text \<open>\<open>None\<close> is the result \<open>(SeriesSummary{}, false)\<close>. The scratch histogram is the store's.\<close>

definition Aggregate_metric :: "'h hdr \<Rightarrow> 'h series_order \<Rightarrow> 'h Store \<Rightarrow> string \<Rightarrow> SeriesSummary option \<times> 'h Store" where
  "Aggregate_metric L ord s metric =
     (let mine = filter (\<lambda>a. ag_metric a = metric) (each ord (st_cumulative s));
          (tot, scratch) = foldl (aggregate_step L) (zero_summary\<lparr>ss_Metric := metric\<rparr>, hdr_Reset L (st_scratch s)) mine;
          s = s\<lparr>st_scratch := scratch\<rparr>
      in if mine = [] then (None, s)
         else
           let tot = (if ss_Count tot > 0
                 then tot\<lparr>ss_Avg := f_div (ss_Sum tot) (f_of_u64 (ss_Count tot)),
                          ss_Rate := f_div (ss_Rate tot) (f_of_u64 (ss_Count tot))\<rparr> else tot);
               tot = (if hdr_TotalCount L scratch > 0 then tot\<lparr>ss_Percentiles := percentilesOf L scratch\<rparr> else tot)
           in (Some tot, s))"

subsection \<open>Totals of every metric\<close>

definition total_add :: "'h aggregate \<Rightarrow> SeriesSummary option \<Rightarrow> SeriesSummary" where
  "total_add a seen =
     (let tot = (case seen of Some t \<Rightarrow> t
            | None \<Rightarrow> zero_summary\<lparr>ss_Metric := ag_metric a, ss_Kind := kind_String (ag_kind a), ss_Min := agg_min a\<rparr>)
      in tot\<lparr>ss_Count := ss_Count tot + ag_count a,
             ss_Sum := f_add (ss_Sum tot) (if ag_kind a = KindGauge then ag_gauge a else ag_sum a),
             ss_Rate := f_add (ss_Rate tot) (f_of_u64 (ag_nonZero a)),
             ss_Min := (if ag_count a > 0 \<and> (seen = None \<or> f_lt (agg_min a) (ss_Min tot)) then agg_min a else ss_Min tot),
             ss_Max := (if f_lt (ss_Max tot) (agg_max a) then agg_max a else ss_Max tot)\<rparr>)"

definition totals_step ::
  "'h hdr \<Rightarrow> HistogramConfig \<Rightarrow> (string, SeriesSummary) gomap \<times> (string, 'h) gomap \<Rightarrow> 'h aggregate \<Rightarrow>
   (string, SeriesSummary) gomap \<times> (string, 'h) gomap" where
  "totals_step L cfg acc a =
     (case acc of (totals, hists) \<Rightarrow>
        (gput (ag_metric a) (total_add a (map_of totals (ag_metric a))) totals,
         case ag_hist a of
           None \<Rightarrow> hists
         | Some h \<Rightarrow>
             if hdr_TotalCount L h = 0 then hists
             else let merged = (case map_of hists (ag_metric a) of Some m \<Rightarrow> m | None \<Rightarrow> hist_New L cfg)
                  in gput (ag_metric a) (hdr_Merge L merged h) hists))"

definition total_finish :: "'h hdr \<Rightarrow> 'h option \<Rightarrow> SeriesSummary \<Rightarrow> SeriesSummary" where
  "total_finish L merged tot =
     (let tot = (if ss_Count tot > 0
           then tot\<lparr>ss_Avg := f_div (ss_Sum tot) (f_of_u64 (ss_Count tot)),
                    ss_Rate := f_div (ss_Rate tot) (f_of_u64 (ss_Count tot))\<rparr> else tot)
      in case merged of
           Some h \<Rightarrow> if hdr_TotalCount L h > 0 then tot\<lparr>ss_Percentiles := percentilesOf L h\<rparr> else tot
         | None \<Rightarrow> tot)"

definition Totals :: "'h hdr \<Rightarrow> 'h series_order \<Rightarrow> 'h Store \<Rightarrow> (string, SeriesSummary) gomap" where
  "Totals L ord s =
     (let (totals, hists) = foldl (totals_step L (sc_Histogram (st_cfg s))) ([], []) (each ord (st_cumulative s))
      in map (\<lambda>(metric, tot). (metric, total_finish L (map_of hists metric) tot)) totals)"

subsection \<open>The endpoint table\<close>

record EndpointSummary =
  es_Name :: string
  es_Requests :: u64
  es_Failures :: u64
  es_ErrorRate :: float64
  es_Avg :: float64
  es_Min :: float64
  es_Max :: float64
  es_Percentiles :: "(string, float64) gomap"
  es_Statuses :: "(string, u64) gomap"
  es_BytesIn :: float64

record 'h accumulator =
  ac_summary :: EndpointSummary
  ac_hist :: "'h option"
  ac_sum :: float64
  ac_seenMin :: bool

definition new_accumulator :: "string \<Rightarrow> 'h accumulator" where
  "new_accumulator name =
     \<lparr>ac_summary = \<lparr>es_Name = name, es_Requests = 0, es_Failures = 0, es_ErrorRate = Fin 0, es_Avg = Fin 0,
        es_Min = Fin 0, es_Max = Fin 0, es_Percentiles = [], es_Statuses = [], es_BytesIn = Fin 0\<rparr>,
      ac_hist = None, ac_sum = Fin 0, ac_seenMin = False\<rparr>"

definition endpoint_duration :: "'h hdr \<Rightarrow> HistogramConfig \<Rightarrow> 'h accumulator \<Rightarrow> 'h aggregate \<Rightarrow> 'h accumulator" where
  "endpoint_duration L cfg acc a =
     (let sm = ac_summary acc;
          sm = sm\<lparr>es_Requests := es_Requests sm + ag_count a\<rparr>;
          acc = acc\<lparr>ac_sum := f_add (ac_sum acc) (ag_sum a)\<rparr>;
          better = (ag_count a > 0 \<and> (\<not> ac_seenMin acc \<or> f_lt (agg_min a) (es_Min sm)));
          sm = (if better then sm\<lparr>es_Min := agg_min a\<rparr> else sm);
          sm = (if f_lt (es_Max sm) (agg_max a) then sm\<lparr>es_Max := agg_max a\<rparr> else sm);
          acc = acc\<lparr>ac_summary := sm, ac_seenMin := ac_seenMin acc \<or> better\<rparr>
      in case ag_hist a of
           None \<Rightarrow> acc
         | Some h \<Rightarrow>
             if hdr_TotalCount L h > 0
             then acc\<lparr>ac_hist := Some (hdr_Merge L (case ac_hist acc of Some g \<Rightarrow> g | None \<Rightarrow> hist_New L cfg) h)\<rparr>
             else acc)"

definition endpoint_add :: "'h hdr \<Rightarrow> HistogramConfig \<Rightarrow> 'h accumulator \<Rightarrow> 'h aggregate \<Rightarrow> 'h accumulator" where
  "endpoint_add L cfg acc a =
     (if ag_metric a = MetricHTTPReqDuration then endpoint_duration L cfg acc a
      else if ag_metric a = MetricHTTPReqFailed then
        acc\<lparr>ac_summary := (ac_summary acc)\<lparr>es_Failures := es_Failures (ac_summary acc) + ag_nonZero a\<rparr>\<rparr>
      else if ag_metric a = MetricHTTPReqs then
        (case Get (ag_labels a) LabelStatus of
           None \<Rightarrow> acc
         | Some status \<Rightarrow>
             let sts = es_Statuses (ac_summary acc);
                 n = (case map_of sts status of Some n \<Rightarrow> n | None \<Rightarrow> 0)
             in acc\<lparr>ac_summary := (ac_summary acc)\<lparr>es_Statuses := gput status (n + ag_count a) sts\<rparr>\<rparr>)
      else if ag_metric a = MetricHTTPReqBytesIn then
        acc\<lparr>ac_summary := (ac_summary acc)\<lparr>es_BytesIn := f_add (es_BytesIn (ac_summary acc)) (ag_sum a)\<rparr>\<rparr>
      else acc)"

definition endpoint_step ::
  "'h hdr \<Rightarrow> HistogramConfig \<Rightarrow> (string, 'h accumulator) gomap \<Rightarrow> 'h aggregate \<Rightarrow> (string, 'h accumulator) gomap" where
  "endpoint_step L cfg byName a =
     (case Get (ag_labels a) LabelName of
        None \<Rightarrow> byName
      | Some name \<Rightarrow>
          if name = [] then byName
          else let acc = (case map_of byName name of Some acc \<Rightarrow> acc | None \<Rightarrow> new_accumulator name)
               in gput name (endpoint_add L cfg acc a) byName)"

definition endpoint_finish :: "'h hdr \<Rightarrow> 'h accumulator \<Rightarrow> EndpointSummary" where
  "endpoint_finish L acc =
     (let sm = ac_summary acc;
          sm = (if es_Requests sm > 0
            then sm\<lparr>es_Avg := f_div (ac_sum acc) (f_of_u64 (es_Requests sm)),
                    es_ErrorRate := f_div (f_of_u64 (es_Failures sm)) (f_of_u64 (es_Requests sm))\<rparr> else sm)
      in case ac_hist acc of
           Some h \<Rightarrow> if hdr_TotalCount L h > 0 then sm\<lparr>es_Percentiles := percentilesOf L h\<rparr> else sm
         | None \<Rightarrow> sm)"

definition p95 :: "EndpointSummary \<Rightarrow> float64" where
  "p95 e = (case map_of (es_Percentiles e) ''p95'' of Some v \<Rightarrow> v | None \<Rightarrow> Fin 0)"

definition endpoint_less :: "EndpointSummary \<Rightarrow> EndpointSummary \<Rightarrow> bool" where
  "endpoint_less a b =
     (if \<not> f_eq (p95 a) (p95 b) then f_lt (p95 b) (p95 a) else es_Name a < es_Name b)"

text \<open>\<open>ord'\<close> is the order in which the second loop ranges over the accumulators.\<close>

definition Endpoints :: "'h hdr \<Rightarrow> 'h series_order \<Rightarrow> ((string \<times> 'h accumulator) list \<Rightarrow> (string \<times> 'h accumulator) list) \<Rightarrow>
    'h Store \<Rightarrow> EndpointSummary list" where
  "Endpoints L ord ord' s =
     sort_by endpoint_less (map (endpoint_finish L \<circ> snd)
       (ord' (foldl (endpoint_step L (sc_Histogram (st_cfg s))) [] (each ord (st_cumulative s)))))"

subsection \<open>Statistics\<close>

record Stats =
  sx_Series :: nat
  sx_ClosedBuckets :: nat
  sx_OpenBuckets :: nat
  sx_DroppedSeries :: u64
  sx_DroppedLate :: u64
  sx_DroppedByNode :: u64
  sx_DroppedEndpoints :: u64
  sx_DroppedFailures :: u64
  sx_Started :: go_time
  sx_LastSeen :: go_time

definition store_Stats :: "'h Store \<Rightarrow> Stats" where
  "store_Stats s =
     \<lparr>sx_Series = am_len (st_cumulative s), sx_ClosedBuckets = st_closedN s, sx_OpenBuckets = length (st_open s),
      sx_DroppedSeries = st_droppedSeries s, sx_DroppedLate = st_droppedLate s,
      sx_DroppedByNode = sum_list (map snd (st_nodeDropped s)),
      sx_DroppedEndpoints = st_droppedEndpoints s, sx_DroppedFailures = droppedKinds (st_failures s),
      sx_Started = st_started s, sx_LastSeen = st_lastSeen s\<rparr>"

subsection \<open>Histograms keep the configured layout\<close>

lemma decode_loop_nonneg:
  "decode_loop out i enc = Inr counts \<Longrightarrow> \<forall>c \<in> set out. 0 \<le> c \<Longrightarrow> \<forall>c \<in> set counts. 0 \<le> c"
  by (induction out i enc rule: decode_loop.induct) (auto split: if_splits list.splits)

lemma DecodeHistogram_is:
  assumes "hdr_laws L cfg n b" "DecodeHistogram L snap cfg = Inr h"
  shows "hdr_is L cfg n h"
proof -
  obtain rle counts where "decodeRLE rle = Inr counts" "length counts = counts_len L cfg"
      "h = hdr_Import L (h_Lowest cfg, h_Highest cfg, h_SigFigs cfg, counts)"
    using assms(2) that by (auto simp: DecodeHistogram_def Let_def split: option.splits if_splits sum.splits)
  then show ?thesis
    using hdr_laws_Import[OF assms(1)] hdr_laws_counts_len[OF assms(1)] decode_loop_nonneg[of "[]"]
    by (simp add: decodeRLE_def)
qed

definition hists_good :: "'h hdr \<Rightarrow> HistogramConfig \<Rightarrow> nat \<Rightarrow> 'h aggMap \<Rightarrow> bool" where
  "hists_good L cfg n m \<longleftrightarrow>
     (\<forall>metric ls a h. am_find m metric ls = Some a \<longrightarrow> ag_hist a = Some h \<longrightarrow> hdr_is L cfg n h)"

lemma cum_update_hist:
  assumes "hdr_laws L cfg n b" "\<forall>h. ag_hist a = Some h \<longrightarrow> hdr_is L cfg n h"
    and "\<forall>h. ag_hist inc = Some h \<longrightarrow> hdr_is L cfg n h" "ag_hist (cum_update L kind inc a) = Some h"
  shows "hdr_is L cfg n h"
  using assms(2-4) hdr_laws_Merge[OF assms(1)]
  by (auto simp: cum_update_def mergeFrom_def Let_def split: if_splits option.splits)

lemma mergeCumulative_hists:
  assumes "hdr_laws L (sc_Histogram (st_cfg s)) n b" "series_cap_ok s"
    and "hists_good L (sc_Histogram (st_cfg s)) n (st_cumulative s)"
    and "\<forall>h. ag_hist inc = Some h \<longrightarrow> hdr_is L (sc_Histogram (st_cfg s)) n h"
  shows "hists_good L (sc_Histogram (st_cfg s)) n (st_cumulative (mergeCumulative L s metric ls kind inc))"
proof (cases rule: mergeCumulative_cases[of s metric ls L kind inc])
  case dropped
  then show ?thesis using assms(3) by simp
next
  case merged
  have new: "\<forall>h. ag_hist (newAggregate L metric ls kind (am_cfg (st_cumulative s))) = Some h \<longrightarrow>
      hdr_is L (sc_Histogram (st_cfg s)) n h"
    using assms(2) hdr_laws_New[OF assms(1)] by (simp add: newAggregate_def series_cap_ok_def am_inv_def)
  show ?thesis unfolding hists_good_def
  proof (intro allI impI)
    fix metric' ls' a h
    assume f: "am_find (st_cumulative (mergeCumulative L s metric ls kind inc)) metric' ls' = Some a" and h: "ag_hist a = Some h"
    show "hdr_is L (sc_Histogram (st_cfg s)) n h"
    proof (cases "(metric', ls') = (metric, ls)")
      case True
      then obtain d where d: "a = cum_update L kind inc d" "\<forall>h. ag_hist d = Some h \<longrightarrow> hdr_is L (sc_Histogram (st_cfg s)) n h"
        using f merged(2) new assms(3)
        by (cases "am_find (st_cumulative s) metric ls") (auto simp: am_find_modify am_find_getOrCreate hists_good_def)
      then show ?thesis using cum_update_hist[OF assms(1) d(2) assms(4)] h by simp
    next
      case False
      then have "am_find (st_cumulative s) metric' ls' = Some a"
        using f merged(2) by (auto simp: am_find_modify am_find_getOrCreate split: if_splits)
      then show ?thesis using assms(3) h by (auto simp: hists_good_def)
    qed
  qed
qed

lemma addEndpointPoint_cum: "st_cumulative (fst (addEndpointPoint s b name metric inc)) = st_cumulative s"
  by (simp add: addEndpointPoint_def Let_def)

lemma mergeBucket_cum: "st_cumulative (fst (mergeBucket L s b metric ls kind inc hist)) = st_cumulative s"
  by (simp add: mergeBucket_def Let_def addEndpointPoint_cum split: option.split)

lemma ingestSeries_hists:
  assumes "hdr_laws L (sc_Histogram (st_cfg s)) n b" "series_cap_ok s"
    and "hists_good L (sc_Histogram (st_cfg s)) n (st_cumulative s)" "ingestSeries L mh s bk d = Inr (s', bk')"
  shows "hists_good L (sc_Histogram (st_cfg s)) n (st_cumulative s')"
proof -
  let ?ls = "LabelsFromMap mh (sd_Tags d)" and ?k = "DecodeKind (sd_Kind d)"
  obtain hist where hist: "delta_hist L (sc_Histogram (st_cfg s)) d = Inr hist"
      "s' = fst (mergeBucket L (mergeCumulative L s (sd_Metric d) ?ls ?k (incoming_of ?k d hist)) bk (sd_Metric d)
        ?ls ?k (incoming_of ?k d hist) hist)"
    using assms(4) by (auto simp: ingestSeries_def Let_def split: sum.splits dest: arg_cong[where f = fst])
  have "\<forall>h. hist = Some h \<longrightarrow> hdr_is L (sc_Histogram (st_cfg s)) n h"
    using hist(1) DecodeHistogram_is[OF assms(1)] by (auto simp: delta_hist_def split: option.splits sum.splits)
  then show ?thesis using mergeCumulative_hists[OF assms(1-3)] unfolding hist(2) mergeBucket_cum
    by (simp add: incoming_of_def)
qed

lemma ingest_loop_hists:
  assumes "hdr_laws L (sc_Histogram (st_cfg s)) n b" "series_cap_ok s" "bucket_ok (st_cfg s) bk"
    and "hists_good L (sc_Histogram (st_cfg s)) n (st_cumulative s)" "ingest_loop L mh s bk ds = (err, s', bk')"
  shows "hists_good L (sc_Histogram (st_cfg s)) n (st_cumulative s')"
  using assms
proof (induction ds arbitrary: s bk)
  case (Cons d ds)
  show ?case
  proof (cases "ingestSeries L mh s bk d")
    case (Inr p)
    then obtain t c where p: "ingestSeries L mh s bk d = Inr (t, c)" by (cases p) auto
    have t: "bucket_ok (st_cfg s) c" "series_cap_ok t" "st_cfg t = st_cfg s"
      using ingestSeries_ok[OF Cons.prems(3,2) p] by (auto simp: same_frame_def)
    have "hists_good L (sc_Histogram (st_cfg t)) n (st_cumulative t)"
      using ingestSeries_hists[OF Cons.prems(1,2,4) p] t(3) by simp
    then show ?thesis using Cons.IH[of t c] Cons.prems p t by auto
  qed (use Cons.prems in auto)
qed auto

lemma Ingest_hists:
  assumes "hdr_laws L (sc_Histogram (st_cfg s)) n b" "store_ok s"
    and "hists_good L (sc_Histogram (st_cfg s)) n (st_cumulative s)" "Ingest L mh s (Some batch) = (err, s')"
  shows "hists_good L (sc_Histogram (st_cfg s)) n (st_cumulative s') \<and> st_cfg s' = st_cfg s \<and> st_scratch s' = st_scratch s"
  using assms(4)
proof (cases rule: Ingest_cases)
  case (folded bk t u c)
  have t: "store_ok t" "bucket_ok (st_cfg t) bk" "st_cfg t = st_cfg s" "st_cumulative t = st_cumulative s"
      "st_scratch t = st_scratch s"
    using bucketFor_ok[OF note_batch_ok[OF assms(2)] folded(1)] by auto
  have sc: "series_cap_ok t" using t(1) by (simp add: store_ok_def)
  have "hists_good L (sc_Histogram (st_cfg t)) n (st_cumulative u)"
    by (rule ingest_loop_hists[OF _ sc set_vus_ok _ folded(2)]) (use assms t in auto)
  moreover have "st_cfg u = st_cfg t" "st_scratch u = st_scratch t"
    using ingest_loop_ok[OF set_vus_ok[OF t(2)] sc folded(2)] by (auto simp: same_frame_def)
  ultimately show ?thesis using folded(3) t(3,5) by (auto split: option.split)
qed (use assms(3) in \<open>auto simp: note_batch_def Let_def\<close>)

definition views_ok :: "'h hdr \<Rightarrow> nat \<Rightarrow> 'h Store \<Rightarrow> bool" where
  "views_ok L n s \<longleftrightarrow> store_ok s \<and> hists_good L (sc_Histogram (st_cfg s)) n (st_cumulative s) \<and>
     hdr_is L (sc_Histogram (st_cfg s)) n (st_scratch s)"

lemma views_ok_New:
  assumes "NewStore L c = Some s" "hdr_laws L (sc_Histogram (st_cfg s)) n b"
  shows "views_ok L n s"
proof -
  have "st_cumulative s = newAggMap (sc_Histogram (st_cfg s))" "st_scratch s = hist_New L (sc_Histogram (st_cfg s))"
    using assms(1) by (auto simp: NewStore_def Let_def split: if_splits)
  then show ?thesis
    using NewStore_ok[OF assms(1)] hdr_laws_New[OF assms(2)] by (simp add: views_ok_def hists_good_def)
qed

lemma views_ok_apply:
  assumes "hdr_laws L (sc_Histogram (st_cfg s)) n b" "views_ok L n s"
  shows "views_ok L n (store_apply L mh s x) \<and> st_cfg (store_apply L mh s x) = st_cfg s"
proof (cases x)
  case (Op_Ingest batch)
  show ?thesis
  proof (cases batch)
    case (Some b')
    obtain err s' where i: "Ingest L mh s (Some b') = (err, s')" by (cases "Ingest L mh s (Some b')")
    have "store_ok s'" using Ingest_ok[of s L mh "Some b'"] assms(2) i by (simp add: views_ok_def)
    then show ?thesis
      using Ingest_hists[OF assms(1) _ _ i] assms(2) Op_Ingest Some i by (simp add: views_ok_def)
  qed (use assms Op_Ingest in \<open>simp add: Ingest_def\<close>)
next
  case (Op_CloseStale now)
  then show ?thesis using assms(2) CloseStale_ok[of s L now] by (simp add: views_ok_def)
qed

lemma views_ok_run:
  assumes "hdr_laws L (sc_Histogram (st_cfg s)) n b" "views_ok L n s"
  shows "views_ok L n (foldl (store_apply L mh) s ops) \<and> st_cfg (foldl (store_apply L mh) s ops) = st_cfg s"
  using assms
proof (induction ops arbitrary: s)
  case (Cons x ops)
  have "views_ok L n (store_apply L mh s x)" "st_cfg (store_apply L mh s x) = st_cfg s"
    using views_ok_apply[OF Cons.prems] by auto
  then show ?case using Cons.IH[of "store_apply L mh s x"] Cons.prems(1) by simp
qed simp

subsection \<open>The two whole-run figures agree\<close>

definition total_fold :: "SeriesSummary option \<Rightarrow> 'h aggregate list \<Rightarrow> SeriesSummary option" where
  "total_fold = foldl (\<lambda>t a. Some (total_add a t))"

definition hist_step :: "'h hdr \<Rightarrow> HistogramConfig \<Rightarrow> 'h option \<Rightarrow> 'h aggregate \<Rightarrow> 'h option" where
  "hist_step L cfg m a =
     (case ag_hist a of None \<Rightarrow> m
      | Some h \<Rightarrow> if hdr_TotalCount L h = 0 then m
          else Some (hdr_Merge L (case m of Some g \<Rightarrow> g | None \<Rightarrow> hist_New L cfg) h))"

lemma totals_fold:
  "map_of (fst (foldl (totals_step L cfg) acc es)) metric =
     total_fold (map_of (fst acc) metric) (filter (\<lambda>a. ag_metric a = metric) es) \<and>
   map_of (snd (foldl (totals_step L cfg) acc es)) metric =
     foldl (hist_step L cfg) (map_of (snd acc) metric) (filter (\<lambda>a. ag_metric a = metric) es)"
proof (induction es arbitrary: acc)
  case Nil then show ?case by (simp add: total_fold_def)
next
  case (Cons a es)
  obtain t h where acc: "acc = (t, h)" by (cases acc)
  show ?case using Cons.IH[of "totals_step L cfg acc a"]
    by (auto simp: acc totals_step_def total_fold_def hist_step_def Let_def split: option.splits)
qed

lemma map_of_map_values: "map_of (map (\<lambda>(k, v). (k, f k v)) m) k = map_option (f k) (map_of m k)"
  by (induction m) auto

lemma Totals_lookup:
  "map_of (Totals L ord s) metric =
     map_option (total_finish L (foldl (hist_step L (sc_Histogram (st_cfg s))) None
         (filter (\<lambda>a. ag_metric a = metric) (each ord (st_cumulative s)))))
       (total_fold None (filter (\<lambda>a. ag_metric a = metric) (each ord (st_cumulative s))))"
  using totals_fold[of L "sc_Histogram (st_cfg s)" "([], [])" "each ord (st_cumulative s)" metric]
  by (simp add: Totals_def split_beta Let_def map_of_map_values[where f = "\<lambda>k v. total_finish L (g k) v" for g])

text \<open>The figures both compute, over the series of one metric.\<close>

definition fig_agree :: "bool \<Rightarrow> SeriesSummary \<Rightarrow> SeriesSummary option \<Rightarrow> bool" where
  "fig_agree nogauge t u \<longleftrightarrow>
     (let u = (case u of Some u \<Rightarrow> u | None \<Rightarrow> zero_summary) in
      ss_Count t = ss_Count u \<and> ss_Rate t = ss_Rate u \<and> ss_Max t = ss_Max u \<and>
      ss_Avg t = Fin 0 \<and> ss_Avg u = Fin 0 \<and> ss_Percentiles t = [] \<and> ss_Percentiles u = [] \<and>
      (nogauge \<longrightarrow> ss_Sum t = ss_Sum u))"

lemma fig_agree_fold:
  assumes "fig_agree nogauge (fst acc) u" "nogauge \<longrightarrow> (\<forall>a \<in> set es. ag_kind a \<noteq> KindGauge)"
  shows "fig_agree nogauge (fst (foldl (aggregate_step L) acc es)) (total_fold u es)"
  using assms
proof (induction es arbitrary: acc u)
  case Nil then show ?case by (simp add: total_fold_def)
next
  case (Cons a es)
  have "fig_agree nogauge (fst (aggregate_step L acc a)) (Some (total_add a u))"
    using Cons.prems by (cases u)
      (auto simp: fig_agree_def aggregate_step_def total_add_def Let_def zero_summary_def case_prod_beta)
  then show ?case using Cons.IH[of "aggregate_step L acc a" "Some (total_add a u)"] Cons.prems(2)
    by (simp add: total_fold_def)
qed

definition same_counts :: "'h hdr \<Rightarrow> HistogramConfig \<Rightarrow> nat \<Rightarrow> 'h \<Rightarrow> 'h option \<Rightarrow> bool" where
  "same_counts L cfg n scratch m \<longleftrightarrow> hdr_is L cfg n scratch \<and>
     (case m of Some g \<Rightarrow> hdr_is L cfg n g \<and> hdr_counts L scratch = hdr_counts L g
      | None \<Rightarrow> hdr_counts L scratch = replicate n 0)"

lemma nonneg_sum_zero: "\<forall>c \<in> set cs. 0 \<le> (c :: int) \<Longrightarrow> sum_list cs = 0 \<Longrightarrow> cs = replicate (length cs) 0"
proof (induction cs)
  case (Cons c cs)
  have "0 \<le> sum_list cs" using Cons.prems(1) by (intro sum_list_nonneg) auto
  then show ?case using Cons by auto
qed simp

lemma map2_add_replicate: "length cs = n \<Longrightarrow> map2 (+) (replicate n 0) cs = (cs :: int list)"
  by (rule nth_equalityI) auto

lemma same_counts_step:
  assumes "hdr_laws L cfg n b" "same_counts L cfg n scratch m" "\<forall>h. ag_hist a = Some h \<longrightarrow> hdr_is L cfg n h"
  shows "same_counts L cfg n (case ag_hist a of None \<Rightarrow> scratch | Some h \<Rightarrow> hdr_Merge L scratch h) (hist_step L cfg m a)"
proof (cases "ag_hist a")
  case (Some h)
  have h: "hdr_is L cfg n h" "length (hdr_counts L h) = n" and sc: "hdr_is L cfg n scratch" "length (hdr_counts L scratch) = n"
    using assms(2,3) Some by (auto simp: same_counts_def dest: hdr_is_counts)
  note mg = hdr_laws_Merge[OF assms(1) sc(1) h(1)]
  show ?thesis
  proof (cases "hdr_TotalCount L h = 0")
    case True
    then have "hdr_counts L h = replicate n 0"
      using hdr_laws_Reset[OF assms(1) h(1)] hdr_is_counts[OF h(1)] nonneg_sum_zero by metis
    then have "hdr_counts L (hdr_Merge L scratch h) = hdr_counts L scratch"
      using mg map2_add_zero[of "hdr_counts L scratch"] sc(2) by simp
    then show ?thesis using assms(2) mg Some True by (auto simp: same_counts_def hist_step_def split: option.splits)
  next
    case False
    then show ?thesis
      using assms(2) mg Some hdr_laws_New[OF assms(1)] hdr_laws_Merge[OF assms(1) _ h(1)]
      by (auto simp: same_counts_def hist_step_def split: option.splits)
  qed
qed (use assms(2) in \<open>simp add: hist_step_def\<close>)

lemma same_counts_fold:
  assumes "hdr_laws L cfg n b" "same_counts L cfg n (snd acc) m" "\<forall>a \<in> set es. \<forall>h. ag_hist a = Some h \<longrightarrow> hdr_is L cfg n h"
  shows "same_counts L cfg n (snd (foldl (aggregate_step L) acc es)) (foldl (hist_step L cfg) m es)"
  using assms(2,3)
proof (induction es arbitrary: acc m)
  case (Cons a es)
  have "same_counts L cfg n (snd (aggregate_step L acc a)) (hist_step L cfg m a)"
    using same_counts_step[OF assms(1) Cons.prems(1)] Cons.prems(2) by (simp add: aggregate_step_def case_prod_beta)
  then show ?case using Cons.IH Cons.prems(2) by simp
qed simp

lemma percentilesOf_cong:
  "(\<And>q. hdr_ValueAtQuantile L h q = hdr_ValueAtQuantile L g q) \<Longrightarrow> percentilesOf L h = percentilesOf L g"
  by (simp add: percentilesOf_def)

lemma same_counts_percentiles:
  assumes "hdr_laws L cfg n b" "same_counts L cfg n h m"
  shows "(if hdr_TotalCount L h > 0 then percentilesOf L h else []) = hist_percentiles L m"
proof (cases m)
  case None
  then have "hdr_TotalCount L h = 0"
    using assms hdr_laws_Reset[OF assms(1), of h] by (simp add: same_counts_def sum_list_replicate)
  then show ?thesis using None by (simp add: hist_percentiles_def)
next
  case (Some g)
  then have g: "hdr_is L cfg n h" "hdr_is L cfg n g" "hdr_counts L h = hdr_counts L g"
    using assms(2) by (auto simp: same_counts_def)
  then have "hdr_TotalCount L h = hdr_TotalCount L g"
    using hdr_laws_Reset[OF assms(1) g(1)] hdr_laws_Reset[OF assms(1) g(2)] by simp
  moreover have "percentilesOf L h = percentilesOf L g"
    by (rule percentilesOf_cong) (rule hdr_laws_Quantile[OF assms(1) g])
  ultimately show ?thesis using Some by (simp add: hist_percentiles_def)
qed

lemma total_finish_simps:
  "ss_Percentiles t = [] \<Longrightarrow> ss_Percentiles (total_finish L m t) = hist_percentiles L m"
  "ss_Count (total_finish L m t) = ss_Count t" "ss_Max (total_finish L m t) = ss_Max t"
  "ss_Sum (total_finish L m t) = ss_Sum t"
  "ss_Rate (total_finish L m t) = (if ss_Count t > 0 then f_div (ss_Rate t) (f_of_u64 (ss_Count t)) else ss_Rate t)"
  "ss_Avg t = Fin 0 \<Longrightarrow>
   ss_Avg (total_finish L m t) = (if ss_Count t > 0 then f_div (ss_Sum t) (f_of_u64 (ss_Count t)) else Fin 0)"
  by (auto simp: total_finish_def hist_percentiles_def Let_def split: option.splits)

lemma total_fold_None: "total_fold None es = None \<longleftrightarrow> es = []"
proof -
  have "\<exists>u. total_fold (Some t) xs = Some u" for t and xs :: "'a aggregate list"
    by (induction xs arbitrary: t) (auto simp: total_fold_def)
  then show ?thesis by (cases es) (auto simp: total_fold_def)
qed

text \<open>\<open>Aggregate\<close> finishes its figure the way \<open>Totals\<close> does.\<close>

definition agg_fold :: "'h hdr \<Rightarrow> 'h series_order \<Rightarrow> 'h Store \<Rightarrow> string \<Rightarrow> SeriesSummary \<times> 'h" where
  "agg_fold L ord s metric = foldl (aggregate_step L) (zero_summary\<lparr>ss_Metric := metric\<rparr>, hdr_Reset L (st_scratch s))
     (filter (\<lambda>a. ag_metric a = metric) (each ord (st_cumulative s)))"

lemma Aggregate_lookup:
  "fst (Aggregate_metric L ord s metric) =
    (if filter (\<lambda>a. ag_metric a = metric) (each ord (st_cumulative s)) = [] then None
     else Some (total_finish L (Some (snd (agg_fold L ord s metric))) (fst (agg_fold L ord s metric))))"
  by (simp add: Aggregate_metric_def total_finish_def agg_fold_def case_prod_beta Let_def)

lemma Aggregate_Totals:
  assumes "hdr_laws L (sc_Histogram (st_cfg s)) n b" "orders ord" "views_ok L n s"
    and "mine = filter (\<lambda>a. ag_metric a = metric) (each ord (st_cumulative s))"
  shows "case fst (Aggregate_metric L ord s metric) of
      None \<Rightarrow> map_of (Totals L ord s) metric = None
    | Some t \<Rightarrow> \<exists>u. map_of (Totals L ord s) metric = Some u \<and> ss_Count t = ss_Count u \<and> ss_Rate t = ss_Rate u \<and>
        ss_Max t = ss_Max u \<and> ss_Percentiles t = ss_Percentiles u \<and>
        ((\<forall>a \<in> set mine. ag_kind a \<noteq> KindGauge) \<longrightarrow> ss_Sum t = ss_Sum u \<and> ss_Avg t = ss_Avg u)"
proof (cases "mine = []")
  case True
  then show ?thesis using assms(4) Aggregate_lookup[of L ord s metric] by (simp add: Totals_lookup total_fold_def)
next
  case False
  let ?cfg = "sc_Histogram (st_cfg s)"
  let ?acc = "(zero_summary\<lparr>ss_Metric := metric\<rparr>, hdr_Reset L (st_scratch s))"
  let ?f = "foldl (aggregate_step L) ?acc mine" and ?m = "foldl (hist_step L ?cfg) None mine"
  have am: "am_ok (st_cumulative s)" and hg: "hists_good L ?cfg n (st_cumulative s)" and sc: "hdr_is L ?cfg n (st_scratch s)"
    using assms(3) by (auto simp: views_ok_def store_ok_def series_cap_ok_def am_inv_def)
  have hists: "\<forall>a \<in> set mine. \<forall>h. ag_hist a = Some h \<longrightarrow> hdr_is L ?cfg n h"
    using hg each_find[OF assms(2) am] assms(4) by (auto simp: hists_good_def)
  have "same_counts L ?cfg n (snd ?acc) None"
    using hdr_laws_Reset[OF assms(1) sc] by (simp add: same_counts_def)
  from same_counts_fold[OF assms(1) this hists] have p: "(if hdr_TotalCount L (snd ?f) > 0 then percentilesOf L (snd ?f) else []) = hist_percentiles L ?m"
    by (rule same_counts_percentiles[OF assms(1)])
  have p': "hist_percentiles L (Some (snd ?f)) = hist_percentiles L ?m" using p by (simp add: hist_percentiles_def)
  obtain u where u: "total_fold None mine = Some u" using total_fold_None[of mine] False by auto
  have "fig_agree g (fst ?acc) None" for g by (simp add: fig_agree_def zero_summary_def)
  then have ag: "fig_agree g (fst ?f) (Some u)" if "g \<longrightarrow> (\<forall>a \<in> set mine. ag_kind a \<noteq> KindGauge)" for g
    using fig_agree_fold[OF _ that, of ?acc None L] u by simp
  have t: "fst (Aggregate_metric L ord s metric) = Some (total_finish L (Some (snd ?f)) (fst ?f))"
    using Aggregate_lookup[of L ord s metric] False assms(4) by (simp add: agg_fold_def)
  have v: "map_of (Totals L ord s) metric = Some (total_finish L ?m u)"
    using u assms(4) by (simp add: Totals_lookup)
  show ?thesis using t v ag[of False] ag[of "\<forall>a \<in> set mine. ag_kind a \<noteq> KindGauge"] p'
    by (auto simp: fig_agree_def total_finish_simps)
qed



definition min_series :: "float64 \<Rightarrow> 'h aggregate" where
  "min_series v = \<lparr>ag_metric = ''m'', ag_labels = no_labels, ag_kind = KindCounter, ag_count = 1, ag_sum = v,
     ag_minVal = v, ag_maxVal = v, ag_nonZero = 0, ag_gauge = Fin 0, ag_hist = None\<rparr>"

text \<open>
  Where the two figures part: \<open>Aggregate\<close> takes a minimum of zero for "not set yet", so
  over two series whose minima are 0 and 5 it reports 5, where \<open>Totals\<close> reports 0.
\<close>

theorem Aggregate_loses_zero_min:
  "ss_Min (fst (foldl (aggregate_step L) (zero_summary\<lparr>ss_Metric := ''m''\<rparr>, h) [min_series (Fin 0), min_series (Fin 5)])) = Fin 5 \<and>
   map_option ss_Min (map_of (fst (foldl (totals_step L cfg) ([], []) [min_series (Fin 0), min_series (Fin 5)])) ''m'') = Some (Fin 0)"
  by (simp add: aggregate_step_def totals_step_def total_add_def zero_summary_def min_series_def agg_min_def agg_max_def
      f_eq_def Let_def)

end
