(* ===== verification/Thresholds.thy ===== *)
theory Thresholds
  imports StoreViews
begin

text \<open>
  \<open>internal/coordinator/threshold.go\<close>: the pass/fail assertions a run is judged by, evaluated
  on the store's cumulative figures. \<open>Aggregate\<close> works on the store's scratch histogram, so
  evaluation threads the store. \<open>fmt_g\<close> renders a number with the verb \<open>%g\<close>.
\<close>

datatype threshold_stat =
    STAT_UNSPECIFIED | STAT_COUNT | STAT_RATE | STAT_AVG | STAT_MIN | STAT_MAX
  | STAT_P50 | STAT_P90 | STAT_P95 | STAT_P99 | STAT_P999

datatype threshold_op = OP_UNSPECIFIED | OP_LT | OP_LTE | OP_GT | OP_GTE

record threshold =
  th_Metric :: string
  th_Stat :: threshold_stat
  th_Op :: threshold_op
  th_Value :: float64
  th_AbortOnFail :: bool

record ThresholdResult =
  tr_Metric :: string
  tr_Stat :: string
  tr_Op :: string
  tr_Value :: float64
  tr_Actual :: float64
  tr_Evaluated :: bool
  tr_Passed :: bool
  tr_AbortOnFail :: bool
  tr_Description :: string

fun statLabels :: "threshold_stat \<Rightarrow> string option" where
  "statLabels STAT_COUNT = Some ''count''"
| "statLabels STAT_RATE = Some ''rate''"
| "statLabels STAT_AVG = Some ''avg''"
| "statLabels STAT_MIN = Some ''min''"
| "statLabels STAT_MAX = Some ''max''"
| "statLabels STAT_P50 = Some ''p50''"
| "statLabels STAT_P90 = Some ''p90''"
| "statLabels STAT_P95 = Some ''p95''"
| "statLabels STAT_P99 = Some ''p99''"
| "statLabels STAT_P999 = Some ''p999''"
| "statLabels STAT_UNSPECIFIED = None"

fun opLabels :: "threshold_op \<Rightarrow> string option" where
  "opLabels OP_LT = Some ''<''"
| "opLabels OP_LTE = Some ''<=''"
| "opLabels OP_GT = Some ''>''"
| "opLabels OP_GTE = Some ''>=''"
| "opLabels OP_UNSPECIFIED = None"

text \<open>Looking up a missing key of a Go map of strings gives the empty string.\<close>

definition label_or_empty :: "string option \<Rightarrow> string" where
  "label_or_empty l = (case l of Some s \<Rightarrow> s | None \<Rightarrow> [])"

definition statValue :: "SeriesSummary \<Rightarrow> threshold_stat \<Rightarrow> float64 option" where
  "statValue summary stat =
     (case stat of
        STAT_COUNT \<Rightarrow> Some (f_of_u64 (ss_Count summary))
      | STAT_RATE \<Rightarrow> Some (ss_Rate summary)
      | STAT_AVG \<Rightarrow> Some (ss_Avg summary)
      | STAT_MIN \<Rightarrow> Some (ss_Min summary)
      | STAT_MAX \<Rightarrow> Some (ss_Max summary)
      | _ \<Rightarrow>
          (case statLabels stat of
             None \<Rightarrow> None
           | Some key \<Rightarrow> map_of (ss_Percentiles summary) key))"

definition compare_op :: "float64 \<Rightarrow> threshold_op \<Rightarrow> float64 \<Rightarrow> bool" where
  "compare_op actual op want =
     (if actual = NaN then False
      else case op of
        OP_LT \<Rightarrow> f_lt actual want
      | OP_LTE \<Rightarrow> f_le actual want
      | OP_GT \<Rightarrow> f_lt want actual
      | OP_GTE \<Rightarrow> f_le want actual
      | OP_UNSPECIFIED \<Rightarrow> False)"

definition blank_result :: "(float64 \<Rightarrow> string) \<Rightarrow> threshold \<Rightarrow> ThresholdResult" where
  "blank_result fmt_g t =
     (let statLabel = label_or_empty (statLabels (th_Stat t)); opLabel = label_or_empty (opLabels (th_Op t)) in
      \<lparr>tr_Metric = th_Metric t, tr_Stat = statLabel, tr_Op = opLabel, tr_Value = th_Value t, tr_Actual = Fin 0,
       tr_Evaluated = False, tr_Passed = False, tr_AbortOnFail = th_AbortOnFail t,
       tr_Description = th_Metric t @ '' '' @ statLabel @ '' '' @ opLabel @ '' '' @ fmt_g (th_Value t)\<rparr>)"

definition evaluate_one ::
  "'h hdr \<Rightarrow> 'h series_order \<Rightarrow> (float64 \<Rightarrow> string) \<Rightarrow> 'h Store \<Rightarrow> threshold \<Rightarrow> ThresholdResult \<times> 'h Store" where
  "evaluate_one L ord fmt_g store t =
     (let result = blank_result fmt_g t; (summary, store) = Aggregate_metric L ord store (th_Metric t) in
      case summary of
        None \<Rightarrow> (result, store)
      | Some summary \<Rightarrow>
          if ss_Count summary = 0 then (result, store)
          else (case statValue summary (th_Stat t) of
                  None \<Rightarrow> (result, store)
                | Some actual \<Rightarrow>
                    (result\<lparr>tr_Evaluated := True, tr_Actual := actual,
                            tr_Passed := compare_op actual (th_Op t) (th_Value t)\<rparr>, store)))"

fun EvaluateThresholds ::
  "'h hdr \<Rightarrow> 'h series_order \<Rightarrow> (float64 \<Rightarrow> string) \<Rightarrow> 'h Store \<Rightarrow> threshold list \<Rightarrow> ThresholdResult list \<times> 'h Store" where
  "EvaluateThresholds L ord fmt_g store [] = ([], store)"
| "EvaluateThresholds L ord fmt_g store (t # ts) =
     (let (r, store) = evaluate_one L ord fmt_g store t;
          (rs, store) = EvaluateThresholds L ord fmt_g store ts
      in (r # rs, store))"

definition is_breach :: "ThresholdResult \<Rightarrow> bool" where
  "is_breach r \<longleftrightarrow> tr_Evaluated r \<and> \<not> tr_Passed r"

definition AnyBreached :: "ThresholdResult list \<Rightarrow> bool" where
  "AnyBreached results \<longleftrightarrow> (\<exists>r \<in> set results. is_breach r)"

definition AbortRequested :: "ThresholdResult list \<Rightarrow> ThresholdResult option" where
  "AbortRequested results = find (\<lambda>r. is_breach r \<and> tr_AbortOnFail r) results"

subsection \<open>Evaluation reads the store and leaves its figures alone\<close>

lemma Aggregate_frame: "\<exists>h. snd (Aggregate_metric L ord s metric) = s\<lparr>st_scratch := h\<rparr>"
  by (auto simp: Aggregate_metric_def Let_def case_prod_beta)

lemma Aggregate_views_ok:
  assumes "hdr_laws L (sc_Histogram (st_cfg s)) n b" "orders ord" "views_ok L n s"
  shows "views_ok L n (snd (Aggregate_metric L ord s metric))"
proof -
  let ?cfg = "sc_Histogram (st_cfg s)"
  let ?mine = "filter (\<lambda>a. ag_metric a = metric) (each ord (st_cumulative s))"
  have am: "am_ok (st_cumulative s)" and hg: "hists_good L ?cfg n (st_cumulative s)" and sc: "hdr_is L ?cfg n (st_scratch s)"
    using assms(3) by (auto simp: views_ok_def store_ok_def series_cap_ok_def am_inv_def)
  have hists: "\<forall>a \<in> set ?mine. \<forall>h. ag_hist a = Some h \<longrightarrow> hdr_is L ?cfg n h"
    using hg each_find[OF assms(2) am] by (auto simp: hists_good_def)
  have z: "same_counts L ?cfg n (snd (zero_summary\<lparr>ss_Metric := metric\<rparr>, hdr_Reset L (st_scratch s))) None"
    using hdr_laws_Reset[OF assms(1) sc] by (simp add: same_counts_def)
  have "hdr_is L ?cfg n (snd (agg_fold L ord s metric))"
    using same_counts_fold[OF assms(1) z hists] by (simp add: same_counts_def agg_fold_def)
  moreover have "snd (Aggregate_metric L ord s metric) = s\<lparr>st_scratch := snd (agg_fold L ord s metric)\<rparr>"
    by (simp add: Aggregate_metric_def agg_fold_def Let_def case_prod_beta)
  ultimately show ?thesis using assms(3)
    by (simp add: views_ok_def store_ok_def ring_ok_def series_cap_ok_def)
qed

lemma evaluate_one_store: "snd (evaluate_one L ord fmt_g s t) = snd (Aggregate_metric L ord s (th_Metric t))"
  by (auto simp: evaluate_one_def Let_def case_prod_beta split: option.splits)

lemma EvaluateThresholds_frame: "\<exists>h. snd (EvaluateThresholds L ord fmt_g s ts) = s\<lparr>st_scratch := h\<rparr>"
proof (induction ts arbitrary: s)
  case Nil
  show ?case by (rule exI[of _ "st_scratch s"]) simp
next
  case (Cons t ts)
  obtain h where "snd (evaluate_one L ord fmt_g s t) = s\<lparr>st_scratch := h\<rparr>"
    using Aggregate_frame[of L ord s "th_Metric t"] by (auto simp: evaluate_one_store)
  then show ?case using Cons.IH[of "s\<lparr>st_scratch := h\<rparr>"] by (auto simp: case_prod_beta)
qed

subsection \<open>Verdicts\<close>

text \<open>The verdict a threshold deserves from the run's totals.\<close>

definition verdict :: "(string, SeriesSummary) gomap \<Rightarrow> threshold \<Rightarrow> (float64 \<times> bool) option" where
  "verdict totals t =
     (case map_of totals (th_Metric t) of
        None \<Rightarrow> None
      | Some u \<Rightarrow> if ss_Count u = 0 then None
          else map_option (\<lambda>v. (v, compare_op v (th_Op t) (th_Value t))) (statValue u (th_Stat t)))"

definition result_verdict :: "ThresholdResult \<Rightarrow> (float64 \<times> bool) option" where
  "result_verdict r = (if tr_Evaluated r then Some (tr_Actual r, tr_Passed r) else None)"

text \<open>The statistics \<open>Aggregate\<close> and \<open>Totals\<close> agree on whatever the metric's kind.\<close>

definition stable_stat :: "threshold_stat \<Rightarrow> bool" where
  "stable_stat st \<longleftrightarrow> st \<noteq> STAT_MIN \<and> st \<noteq> STAT_AVG"

lemma statValue_cong:
  assumes "stable_stat st" "ss_Count t = ss_Count u" "ss_Rate t = ss_Rate u" "ss_Max t = ss_Max u"
    "ss_Percentiles t = ss_Percentiles u"
  shows "statValue t st = statValue u st"
  using assms by (cases st) (simp_all add: statValue_def stable_stat_def)

lemma evaluate_one_verdict:
  assumes "hdr_laws L (sc_Histogram (st_cfg s)) n b" "orders ord" "views_ok L n s" "stable_stat (th_Stat t)"
  shows "result_verdict (fst (evaluate_one L ord fmt_g s t)) = verdict (Totals L ord s) t"
proof (cases "fst (Aggregate_metric L ord s (th_Metric t))")
  case None
  then show ?thesis using Aggregate_Totals[OF assms(1-3) refl, of "th_Metric t"]
    by (simp add: evaluate_one_def Let_def case_prod_beta verdict_def result_verdict_def blank_result_def)
next
  case (Some a)
  then obtain u where u: "map_of (Totals L ord s) (th_Metric t) = Some u" "ss_Count a = ss_Count u"
      "ss_Rate a = ss_Rate u" "ss_Max a = ss_Max u" "ss_Percentiles a = ss_Percentiles u"
    using Aggregate_Totals[OF assms(1-3) refl, of "th_Metric t"] by auto
  then have "statValue a (th_Stat t) = statValue u (th_Stat t)" by (intro statValue_cong[OF assms(4)])
  then show ?thesis using Some u(1,2)
    by (auto simp: evaluate_one_def Let_def case_prod_beta verdict_def result_verdict_def blank_result_def split: option.splits)
qed

lemma Evaluate_verdicts:
  assumes "hdr_laws L (sc_Histogram (st_cfg s)) n b" "orders ord" "views_ok L n s"
  shows "length (fst (EvaluateThresholds L ord fmt_g s ts)) = length ts \<and>
    (\<forall>i < length ts. stable_stat (th_Stat (ts ! i)) \<longrightarrow>
       result_verdict (fst (EvaluateThresholds L ord fmt_g s ts) ! i) = verdict (Totals L ord s) (ts ! i))"
  using assms(1,3)
proof (induction ts arbitrary: s)
  case (Cons t ts)
  let ?s = "snd (evaluate_one L ord fmt_g s t)"
  obtain h where h: "?s = s\<lparr>st_scratch := h\<rparr>"
    using Aggregate_frame[of L ord s "th_Metric t"] by (auto simp: evaluate_one_store)
  have "views_ok L n ?s" unfolding evaluate_one_store by (rule Aggregate_views_ok[OF Cons.prems(1) assms(2) Cons.prems(2)])
  moreover have "st_cfg ?s = st_cfg s" "Totals L ord ?s = Totals L ord s" by (simp_all add: h Totals_def)
  ultimately have IH: "length (fst (EvaluateThresholds L ord fmt_g ?s ts)) = length ts"
    "\<forall>i < length ts. stable_stat (th_Stat (ts ! i)) \<longrightarrow>
       result_verdict (fst (EvaluateThresholds L ord fmt_g ?s ts) ! i) = verdict (Totals L ord s) (ts ! i)"
    using Cons.IH[of ?s] Cons.prems(1) by auto
  then show ?case using evaluate_one_verdict[OF Cons.prems(1) assms(2) Cons.prems(2)]
    by (auto simp: case_prod_beta nth_Cons split: nat.split)
qed simp


definition demo_threshold :: threshold where
  "demo_threshold = \<lparr>th_Metric = ''m'', th_Stat = STAT_COUNT, th_Op = OP_LT, th_Value = Fin 3, th_AbortOnFail = True\<rparr>"


lemma Percentiles_keys:
  assumes "fst (Aggregate_metric L ord s metric) = Some t"
  shows "map_of (ss_Percentiles t) ''p999'' = None"
proof -
  have "ss_Percentiles (fst (foldl (aggregate_step L) acc es)) = ss_Percentiles (fst acc)" for acc es
    by (induction es arbitrary: acc) (simp_all add: aggregate_step_def case_prod_beta)
  then have "ss_Percentiles (fst (agg_fold L ord s metric)) = []" by (simp add: agg_fold_def zero_summary_def)
  then show ?thesis
    using assms by (auto simp: Aggregate_lookup total_finish_simps hist_percentiles_def percentilesOf_def
        PercentileKeys_def reportedPercentiles_def split: if_splits)
qed

text \<open>
  C33. A threshold on \<open>p999\<close> is never evaluated: the store reports p50, p90, p95 and p99 only, so
  whatever was recorded, such a threshold is no breach and asks for no abort.
\<close>

theorem p999_never_breaches:
  "\<not> AnyBreached (fst (EvaluateThresholds L ord fmt_g s
     [\<lparr>th_Metric = metric, th_Stat = STAT_P999, th_Op = op, th_Value = v, th_AbortOnFail = abort\<rparr>]))"
  using Percentiles_keys[of L ord s metric]
  by (auto simp: AnyBreached_def is_breach_def evaluate_one_def Let_def case_prod_beta blank_result_def statValue_def
      split: option.splits)

end
