(* ===== verification/Executor.thy ===== *)
theory Executor
  imports Float64
begin

text \<open>
  \<open>internal/engine/executor.go\<close>: the load profiles. \<open>NewExecutor\<close> turns a profile message
  into a constant or a ramping executor or an error; \<open>TargetAt\<close> gives the virtual user count
  at an elapsed time; \<open>scaled\<close> reduces the curve to one node's quota, which may itself be
  ramped by \<open>Rescale\<close>. The locale \<open>load_executor\<close> is the contract of Go's \<open>Executor\<close>
  interface; it is interpreted on the executors \<open>NewExecutor\<close> builds.
\<close>

subsection \<open>Profiles (gen/loadwave/v1/plan.pb.go)\<close>

datatype executor_type = EXECUTOR_TYPE_UNSPECIFIED | EXECUTOR_TYPE_CONSTANT_VUS
  | EXECUTOR_TYPE_RAMPING_VUS | EXECUTOR_TYPE_UNKNOWN int

record stage =
  st_duration :: duration
  st_target :: u32

record load_profile =
  lp_executor :: executor_type
  lp_vus :: u32
  lp_duration :: duration
  lp_stages :: "stage list"
  lp_max_iterations_per_second :: u32
  lp_graceful_stop :: duration
  lp_iterations :: u64

subsection \<open>Executors\<close>

datatype executor_error =
    ProfileMissing
  | UnknownExecutorType executor_type
  | VusNotPositive int
  | NegativeDuration duration
  | NeedsDurationOrIterations
  | NeedsStage
  | StageDurationNotPositive nat duration
  | NeverRises

record constantVUs =
  c_vus :: int
  c_duration :: duration

record leg =
  leg_end :: duration
  leg_target :: int

record rampingVUs =
  r_legs :: "leg list"
  r_total :: duration
  r_peak :: int

datatype executor = Constant constantVUs | Ramping rampingVUs

definition newConstantVUs :: "load_profile \<Rightarrow> executor_error + executor" where
  "newConstantVUs profile =
     (let vus = uint (lp_vus profile) in
      if vus \<le> 0 then Inl (VusNotPositive vus)
      else let d = lp_duration profile in
        if d < 0 then Inl (NegativeDuration d)
        else if d = 0 \<and> lp_iterations profile = 0 then Inl NeedsDurationOrIterations
        else Inr (Constant \<lparr>c_vus = vus, c_duration = d\<rparr>))"

fun ramp_stages :: "nat \<Rightarrow> rampingVUs \<Rightarrow> stage list \<Rightarrow> executor_error + rampingVUs" where
  "ramp_stages i r [] = Inr r"
| "ramp_stages i r (stage # stages) =
     (let d = st_duration stage in
      if d \<le> 0 then Inl (StageDurationNotPositive (i + 1) d)
      else let tot = i64 (r_total r + d); target = uint (st_target stage) in
        ramp_stages (i + 1)
          (r\<lparr>r_total := tot,
             r_legs := r_legs r @ [\<lparr>leg_end = tot, leg_target = target\<rparr>],
             r_peak := (if target > r_peak r then target else r_peak r)\<rparr>) stages)"

definition newRampingVUs :: "load_profile \<Rightarrow> executor_error + executor" where
  "newRampingVUs profile =
     (let stages = lp_stages profile in
      if length stages = 0 then Inl NeedsStage
      else case ramp_stages 0 \<lparr>r_legs = [], r_total = 0, r_peak = 0\<rparr> stages of
        Inl e \<Rightarrow> Inl e
      | Inr r \<Rightarrow> if r_peak r = 0 then Inl NeverRises else Inr (Ramping r))"

definition NewExecutor :: "load_profile option \<Rightarrow> executor_error + executor" where
  "NewExecutor profile =
     (case profile of
        None \<Rightarrow> Inl ProfileMissing
      | Some p \<Rightarrow>
          (case lp_executor p of
             EXECUTOR_TYPE_CONSTANT_VUS \<Rightarrow> newConstantVUs p
           | EXECUTOR_TYPE_UNSPECIFIED \<Rightarrow> newConstantVUs p
           | EXECUTOR_TYPE_RAMPING_VUS \<Rightarrow> newRampingVUs p
           | other \<Rightarrow> Inl (UnknownExecutorType other)))"

definition constant_TargetAt :: "constantVUs \<Rightarrow> duration \<Rightarrow> int" where
  "constant_TargetAt c elapsed =
     (if elapsed < 0 then 0
      else if c_duration c > 0 \<and> elapsed \<ge> c_duration c then 0
      else c_vus c)"

fun ramp_walk :: "platform \<Rightarrow> leg list \<Rightarrow> int \<Rightarrow> duration \<Rightarrow> duration \<Rightarrow> int" where
  "ramp_walk P [] v0 start elapsed = 0"
| "ramp_walk P (l # legs) v0 start elapsed =
     (if elapsed < leg_end l
      then interpolate P v0 (leg_target l) (i64 (elapsed - start)) (i64 (leg_end l - start))
      else ramp_walk P legs (leg_target l) (leg_end l) elapsed)"

definition ramping_TargetAt :: "platform \<Rightarrow> rampingVUs \<Rightarrow> duration \<Rightarrow> int" where
  "ramping_TargetAt P r elapsed =
     (if elapsed < 0 then 0
      else if elapsed \<ge> r_total r then 0
      else ramp_walk P (r_legs r) 0 0 elapsed)"

fun TargetAt :: "platform \<Rightarrow> executor \<Rightarrow> duration \<Rightarrow> int" where
  "TargetAt P (Constant c) = constant_TargetAt c"
| "TargetAt P (Ramping r) = ramping_TargetAt P r"

fun Duration :: "executor \<Rightarrow> duration" where
  "Duration (Constant c) = c_duration c"
| "Duration (Ramping r) = r_total r"

fun Peak :: "executor \<Rightarrow> int" where
  "Peak (Constant c) = c_vus c"
| "Peak (Ramping r) = r_peak r"

subsection \<open>A node's share of the curve\<close>

record scaled =
  inner :: executor
  s_peak :: int
  s_from :: int
  s_to :: int
  s_rampFrom :: duration
  s_rampTo :: duration

definition newScaled :: "executor \<Rightarrow> int \<Rightarrow> scaled" where
  "newScaled e quota =
     (let quota = (if quota < 0 then 0 else quota)
      in \<lparr>inner = e, s_peak = Peak e, s_from = quota, s_to = quota, s_rampFrom = 0, s_rampTo = 0\<rparr>)"

definition quotaAt :: "platform \<Rightarrow> scaled \<Rightarrow> duration \<Rightarrow> int" where
  "quotaAt P s t =
     (if s_rampTo s \<le> s_rampFrom s \<or> t \<ge> s_rampTo s then s_to s
      else if t \<le> s_rampFrom s then s_from s
      else interpolate P (s_from s) (s_to s) (i64 (t - s_rampFrom s)) (i64 (s_rampTo s - s_rampFrom s)))"

definition Rescale :: "platform \<Rightarrow> scaled \<Rightarrow> int \<Rightarrow> duration \<Rightarrow> duration \<Rightarrow> scaled" where
  "Rescale P s quota t ramp =
     (let quota = (if quota < 0 then 0 else quota) in
      if ramp \<le> 0 then s\<lparr>s_from := quota, s_to := quota, s_rampFrom := 0, s_rampTo := 0\<rparr>
      else s\<lparr>s_from := quotaAt P s t, s_to := quota, s_rampFrom := t, s_rampTo := i64 (t + ramp)\<rparr>)"

definition scale_share :: "platform \<Rightarrow> int \<Rightarrow> int \<Rightarrow> int \<Rightarrow> int" where
  "scale_share P quota peak glob =
     (if glob \<le> 0 then 0
      else if glob \<ge> peak then quota
      else let scaledTarget = to_int64 (oob P) (math_Round
                 (f_div (f_mul (f_of_int quota) (f_of_int glob)) (f_of_int peak)))
           in if scaledTarget = 0 then 1 else scaledTarget)"

definition scaled_TargetAt :: "platform \<Rightarrow> scaled \<Rightarrow> duration \<Rightarrow> int" where
  "scaled_TargetAt P s elapsed =
     (let quota = quotaAt P s elapsed in
      if quota = 0 \<or> s_peak s = 0 then 0
      else scale_share P quota (s_peak s) (TargetAt P (inner s) elapsed))"

definition scaled_Duration :: "scaled \<Rightarrow> duration" where
  "scaled_Duration s = Duration (inner s)"

definition scaled_Peak :: "scaled \<Rightarrow> int" where
  "scaled_Peak s = s_to s"

subsection \<open>Well-formed executors\<close>

fun legs_ok :: "duration \<Rightarrow> leg list \<Rightarrow> bool" where
  "legs_ok start [] = True"
| "legs_ok start (l # legs) =
     (start < leg_end l \<and> leg_end l < 2 ^ 63 \<and> 0 \<le> leg_target l \<and> leg_target l < 2 ^ 32 \<and>
      legs_ok (leg_end l) legs)"

definition ramp_ok :: "rampingVUs \<Rightarrow> bool" where
  "ramp_ok r \<longleftrightarrow> legs_ok 0 (r_legs r) \<and> 0 < r_peak r \<and>
     (\<forall>l \<in> set (r_legs r). leg_target l \<le> r_peak r \<and> leg_end l \<le> r_total r) \<and>
     r_peak r \<in> leg_target ` set (r_legs r) \<and> r_peak r < 2 ^ 32 \<and> 0 < r_total r"

fun executor_ok :: "executor \<Rightarrow> bool" where
  "executor_ok (Constant c) = (0 < c_vus c \<and> c_vus c < 2 ^ 32 \<and> 0 \<le> c_duration c)"
| "executor_ok (Ramping r) = ramp_ok r"

lemma ramp_walk_bounds:
  assumes "legs_ok start legs" "start \<le> t" "0 \<le> start" "0 \<le> v0" "v0 \<le> pk" "pk < 2 ^ 32"
    and "\<forall>l \<in> set legs. leg_target l \<le> pk"
  shows "0 \<le> ramp_walk P legs v0 start t \<and> ramp_walk P legs v0 start t \<le> pk"
  using assms
proof (induction legs arbitrary: v0 start)
  case (Cons l legs)
  show ?case
  proof (cases "t < leg_end l")
    case True
    have "i64 (t - start) = t - start" "i64 (leg_end l - start) = leg_end l - start"
      using Cons.prems True by (auto intro!: i64_small)
    moreover have "min v0 (leg_target l) \<le> interpolate P v0 (leg_target l) (t - start) (leg_end l - start) \<and>
        interpolate P v0 (leg_target l) (t - start) (leg_end l - start) \<le> max v0 (leg_target l)"
      using Cons.prems True by (intro interpolate_between) (auto simp: vu_range_def)
    ultimately show ?thesis using Cons.prems True by (auto simp: min_def max_def split: if_splits)
  next
    case False
    then show ?thesis using Cons by auto
  qed
qed simp

subsection \<open>The contract of the interface\<close>

locale load_executor =
  fixes ok :: "'e \<Rightarrow> bool" and target :: "'e \<Rightarrow> duration \<Rightarrow> int"
    and len :: "'e \<Rightarrow> duration" and top :: "'e \<Rightarrow> int"
  assumes top_pos: "ok e \<Longrightarrow> 0 < top e"
    and target_range: "ok e \<Longrightarrow> 0 \<le> target e t \<and> target e t \<le> top e"
    and before_start: "ok e \<Longrightarrow> t < 0 \<Longrightarrow> target e t = 0"
    and after_end: "ok e \<Longrightarrow> 0 < len e \<Longrightarrow> len e \<le> t \<Longrightarrow> target e t = 0"
begin

lemma share_idle: "ok e \<Longrightarrow> t < 0 \<or> (0 < len e \<and> len e \<le> t) \<Longrightarrow> scale_share P q (top e) (target e t) = 0"
  using before_start after_end by (auto simp: scale_share_def)

lemma share_full: "ok e \<Longrightarrow> target e t = top e \<Longrightarrow> scale_share P q (top e) (target e t) = q"
  using top_pos by (force simp: scale_share_def)

end

lemma executor_ok_range: "executor_ok e \<Longrightarrow> 0 \<le> TargetAt P e t \<and> TargetAt P e t \<le> Peak e"
proof (cases e)
  case (Constant c)
  then show "executor_ok e \<Longrightarrow> ?thesis" by (auto simp: constant_TargetAt_def)
next
  case (Ramping r)
  assume "executor_ok e"
  then have "ramp_ok r" using Ramping by simp
  then have "0 \<le> t \<Longrightarrow> 0 \<le> ramp_walk P (r_legs r) 0 0 t \<and> ramp_walk P (r_legs r) 0 0 t \<le> r_peak r"
    by (intro ramp_walk_bounds) (auto simp: ramp_ok_def)
  then show ?thesis using \<open>ramp_ok r\<close> Ramping by (auto simp: ramping_TargetAt_def ramp_ok_def)
qed

interpretation exec: load_executor executor_ok "TargetAt P" Duration Peak for P
proof unfold_locales
  fix e t
  assume ok: "executor_ok e"
  show "0 < Peak e" using ok by (cases e) (auto simp: ramp_ok_def)
  show "0 \<le> TargetAt P e t \<and> TargetAt P e t \<le> Peak e" using ok by (rule executor_ok_range)
  show "t < 0 \<Longrightarrow> TargetAt P e t = 0"
    by (cases e) (auto simp: constant_TargetAt_def ramping_TargetAt_def)
  show "0 < Duration e \<Longrightarrow> Duration e \<le> t \<Longrightarrow> TargetAt P e t = 0"
    by (cases e) (auto simp: constant_TargetAt_def ramping_TargetAt_def)
qed

subsection \<open>Construction\<close>

definition stages_total :: "stage list \<Rightarrow> int" where
  "stages_total stages = sum_list (map st_duration stages)"

text \<open>The invariant of the loop over the stages.\<close>

definition ramp_inv :: "rampingVUs \<Rightarrow> bool" where
  "ramp_inv r \<longleftrightarrow> legs_ok 0 (r_legs r) \<and> 0 \<le> r_total r \<and> r_total r < 2 ^ 63 \<and>
     r_total r = (if r_legs r = [] then 0 else leg_end (last (r_legs r))) \<and>
     (\<forall>l \<in> set (r_legs r). leg_target l \<le> r_peak r \<and> leg_end l \<le> r_total r) \<and>
     (r_peak r = 0 \<or> r_peak r \<in> leg_target ` set (r_legs r)) \<and> 0 \<le> r_peak r \<and> r_peak r < 2 ^ 32"

lemma legs_ok_snoc:
  "legs_ok s (legs @ [l]) \<longleftrightarrow> legs_ok s legs \<and>
     (if legs = [] then s else leg_end (last legs)) < leg_end l \<and> leg_end l < 2 ^ 63 \<and>
     0 \<le> leg_target l \<and> leg_target l < 2 ^ 32"
  by (induction legs arbitrary: s) auto

lemma uint_u32: "0 \<le> uint (w :: u32)" "uint (w :: u32) < 2 ^ 32"
  using uint_bounded[of w] by simp_all

lemma ramp_inv_step:
  assumes "ramp_inv r" "0 < st_duration st" "r_total r + st_duration st < 2 ^ 63"
  shows "ramp_inv (r\<lparr>r_total := i64 (r_total r + st_duration st),
    r_legs := r_legs r @ [\<lparr>leg_end = i64 (r_total r + st_duration st), leg_target = uint (st_target st)\<rparr>],
    r_peak := (if uint (st_target st) > r_peak r then uint (st_target st) else r_peak r)\<rparr>)"
proof -
  have t: "i64 (r_total r + st_duration st) = r_total r + st_duration st"
    using assms by (intro i64_small) (auto simp: ramp_inv_def)
  show ?thesis
    using assms uint_u32[of "st_target st"] unfolding t ramp_inv_def
    by (auto simp: legs_ok_snoc split: if_splits)
qed

lemma ramp_stages_pos: "ramp_stages i r stages = Inr r' \<Longrightarrow> 0 \<le> stages_total stages"
proof (induction stages arbitrary: i r)
  case (Cons st stages)
  then have "0 < st_duration st" "0 \<le> stages_total stages" by (auto simp: Let_def split: if_splits)
  then show ?case by (simp add: stages_total_def)
qed (simp add: stages_total_def)

lemma ramp_stages_inv:
  assumes "ramp_stages i r stages = Inr r'" "ramp_inv r" "r_total r + stages_total stages < 2 ^ 63"
  shows "ramp_inv r' \<and> (stages \<noteq> [] \<longrightarrow> 0 < r_total r')"
  using assms
proof (induction stages arbitrary: i r)
  case Nil then show ?case by simp
next
  case (Cons st stages)
  let ?r = "r\<lparr>r_total := i64 (r_total r + st_duration st),
    r_legs := r_legs r @ [\<lparr>leg_end = i64 (r_total r + st_duration st), leg_target = uint (st_target st)\<rparr>],
    r_peak := (if uint (st_target st) > r_peak r then uint (st_target st) else r_peak r)\<rparr>"
  from Cons.prems(1) have d: "0 < st_duration st" and rec: "ramp_stages (i + 1) ?r stages = Inr r'"
    by (auto simp: Let_def split: if_splits)
  have pos: "0 \<le> stages_total stages" using rec by (rule ramp_stages_pos)
  have lt: "r_total r + st_duration st < 2 ^ 63"
    using Cons.prems(3) pos by (simp add: stages_total_def)
  have inv: "ramp_inv ?r" using Cons.prems(2) d lt by (rule ramp_inv_step)
  have t: "r_total ?r = r_total r + st_duration st"
    using lt d Cons.prems(2) by (simp add: ramp_inv_def i64_small)
  have "ramp_inv r' \<and> (stages \<noteq> [] \<longrightarrow> 0 < r_total r')"
    using Cons.IH[OF rec inv] Cons.prems(3) t by (simp add: stages_total_def)
  moreover have "stages = [] \<longrightarrow> 0 < r_total r'"
    using rec t d Cons.prems(2) by (auto simp: ramp_inv_def)
  ultimately show ?case by auto
qed

lemma NewExecutor_ok_aux:
  assumes "NewExecutor (Some p) = Inr e" "stages_total (lp_stages p) < 2 ^ 63"
  shows "executor_ok e"
proof -
  have c: "newConstantVUs p = Inr e \<Longrightarrow> executor_ok e"
    using uint_u32[of "lp_vus p"] by (auto simp: newConstantVUs_def Let_def less_le split: if_splits)
  have "newRampingVUs p = Inr e \<Longrightarrow> executor_ok e"
  proof -
    assume "newRampingVUs p = Inr e"
    then obtain r where r: "ramp_stages 0 \<lparr>r_legs = [], r_total = 0, r_peak = 0\<rparr> (lp_stages p) = Inr r"
      and e: "e = Ramping r" "r_peak r \<noteq> 0" "lp_stages p \<noteq> []"
      by (auto simp: newRampingVUs_def Let_def split: if_splits sum.splits)
    have "ramp_inv \<lparr>r_legs = [], r_total = 0, r_peak = 0\<rparr>" by (simp add: ramp_inv_def)
    then have "ramp_inv r \<and> 0 < r_total r"
      using ramp_stages_inv[OF r] assms(2) e by simp
    then show ?thesis using e by (auto simp: ramp_inv_def ramp_ok_def)
  qed
  with c show ?thesis using assms(1)
    by (auto simp: NewExecutor_def split: executor_type.splits)
qed

text \<open>
  C30. \<open>NewExecutor\<close> only builds well-formed executors: a positive peak, non-negative stage
  targets below the peak, strictly ascending stage ends, provided the stage durations add up
  to an \<open>int64\<close>.
\<close>

theorem NewExecutor_wellformed:
  assumes "NewExecutor (Some profile) = Inr e"
    and "stages_total (lp_stages profile) < 2 ^ 63"
  shows "executor_ok e"
  using assms by (rule NewExecutor_ok_aux)

definition demo_profile :: load_profile where
  "demo_profile = \<lparr>lp_executor = EXECUTOR_TYPE_RAMPING_VUS, lp_vus = 0, lp_duration = 0,
     lp_stages = [\<lparr>st_duration = 10, st_target = 100\<rparr>, \<lparr>st_duration = 10, st_target = 20\<rparr>],
     lp_max_iterations_per_second = 0, lp_graceful_stop = 0, lp_iterations = 0\<rparr>"

definition demo_ramp :: rampingVUs where
  "demo_ramp = \<lparr>r_legs = [\<lparr>leg_end = 10, leg_target = 100\<rparr>, \<lparr>leg_end = 20, leg_target = 20\<rparr>],
     r_total = 20, r_peak = 100\<rparr>"

lemma demo_NewExecutor: "NewExecutor (Some demo_profile) = Inr (Ramping demo_ramp)"
  by (simp add: NewExecutor_def newRampingVUs_def demo_profile_def demo_ramp_def Let_def i64_def)

lemma demo_ramp_ok: "ramp_ok demo_ramp"
  by (simp add: ramp_ok_def demo_ramp_def)

theorem NewExecutor_wellformed_witness: "executor_ok (Ramping demo_ramp)"
  using NewExecutor_wellformed[OF demo_NewExecutor] by (simp add: demo_profile_def stages_total_def)

text \<open>
  The target never leaves the profile: for a well-formed executor on any platform, at any
  elapsed time, the virtual user count is between zero and the peak; it is zero before the
  start and from the end of a bounded profile on.
\<close>

theorem TargetAt_within_profile:
  assumes "executor_ok e"
  shows "0 \<le> TargetAt P e t \<and> TargetAt P e t \<le> Peak e \<and>
    (t < 0 \<longrightarrow> TargetAt P e t = 0) \<and> (0 < Duration e \<longrightarrow> Duration e \<le> t \<longrightarrow> TargetAt P e t = 0)"
  using exec.target_range[OF assms] exec.before_start[OF assms] exec.after_end[OF assms] by blast

theorem TargetAt_within_profile_witness:
  "TargetAt \<lparr>fused = True, oob = (\<lambda>_. 0)\<rparr> (Ramping demo_ramp) 20 = 0 \<and>
   TargetAt \<lparr>fused = True, oob = (\<lambda>_. 0)\<rparr> (Ramping demo_ramp) 7 \<le> 100"
  using TargetAt_within_profile[of "Ramping demo_ramp" "\<lparr>fused = True, oob = (\<lambda>_. 0)\<rparr>" 20]
    TargetAt_within_profile[of "Ramping demo_ramp" "\<lparr>fused = True, oob = (\<lambda>_. 0)\<rparr>" 7] demo_ramp_ok
  by (simp add: demo_ramp_def)

lemma ramp_walk_skip:
  "legs_ok start (pre @ l # post) \<Longrightarrow> leg_end l \<le> t \<Longrightarrow>
   ramp_walk P (pre @ l # post) v0 start t = ramp_walk P post (leg_target l) (leg_end l) t"
proof (induction pre arbitrary: v0 start)
  case (Cons k pre)
  have "legs_ok s (xs @ y # ys) \<Longrightarrow> s < leg_end y" for s xs y ys
    by (induction xs arbitrary: s) force+
  then have "leg_end k < leg_end l" using Cons.prems by auto
  with Cons show ?case by simp
qed simp

lemma legs_ok_append: "legs_ok s (pre @ l # post) \<Longrightarrow> 0 \<le> s \<Longrightarrow>
  legs_ok (leg_end l) post \<and> 0 \<le> leg_target l \<and> leg_target l < 2 ^ 32 \<and> 0 < leg_end l"
  by (induction pre arbitrary: s) force+

lemma ramp_leg_value:
  assumes "ramp_ok r" "r_legs r = pre @ l # k # post" "leg_end l \<le> t" "t < leg_end k"
  shows "ramping_TargetAt P r t =
    interpolate P (leg_target l) (leg_target k) (t - leg_end l) (leg_end k - leg_end l)"
proof -
  have ok: "legs_ok 0 (pre @ l # k # post)" using assms by (simp add: ramp_ok_def)
  have l: "legs_ok (leg_end l) (k # post)" "0 < leg_end l" 
    using legs_ok_append[OF ok] by simp_all
  have "leg_end k \<le> r_total r" using assms by (simp add: ramp_ok_def)
  then have "ramping_TargetAt P r t = ramp_walk P (k # post) (leg_target l) (leg_end l) t"
    using assms l ramp_walk_skip[OF ok assms(3)] by (simp add: ramping_TargetAt_def)
  then show ?thesis using l assms by (simp add: i64_small)
qed

text \<open>
  The curve is continuous at the stage boundaries: at the instant a stage ends and the
  next one begins, the target is exactly the finished stage's target.
\<close>

theorem ramp_hits_stage_target:
  assumes "ramp_ok r" and "r_legs r = pre @ l # k # post"
  shows "ramping_TargetAt P r (leg_end l) = leg_target l"
proof -
  have ok: "legs_ok 0 (pre @ l # k # post)" using assms by (simp add: ramp_ok_def)
  have l: "legs_ok (leg_end l) (k # post)" "0 < leg_end l" "0 \<le> leg_target l" "leg_target l < 2 ^ 32"
    
    using legs_ok_append[OF ok] by simp_all
  then show ?thesis
    using ramp_leg_value[OF assms, of "leg_end l" P]
    by (simp add: interpolate_start vu_range_def)
qed

theorem ramp_hits_stage_target_witness:
  "ramping_TargetAt \<lparr>fused = False, oob = (\<lambda>_. 0)\<rparr> demo_ramp 10 = 100"
  using ramp_hits_stage_target[of demo_ramp "[]" "\<lparr>leg_end = 10, leg_target = 100\<rparr>"
    "\<lparr>leg_end = 20, leg_target = 20\<rparr>" "[]" "\<lparr>fused = False, oob = (\<lambda>_. 0)\<rparr>"] demo_ramp_ok
  by (simp add: demo_ramp_def)

text \<open>
  Inside a rising stage the target never falls, and it stays between the targets of the
  two stages.
\<close>

theorem ramp_monotone_in_stage:
  assumes "ramp_ok r" and "r_legs r = pre @ l # k # post" and "leg_target l \<le> leg_target k"
    and "leg_end l \<le> t" and "t \<le> u" and "u < leg_end k"
  shows "leg_target l \<le> ramping_TargetAt P r t \<and>
    ramping_TargetAt P r t \<le> ramping_TargetAt P r u \<and>
    ramping_TargetAt P r u \<le> leg_target k"
proof -
  have ok: "legs_ok 0 (pre @ l # k # post)" using assms by (simp add: ramp_ok_def)
  have l: "legs_ok (leg_end l) (k # post)" "0 < leg_end l" "0 \<le> leg_target l" "leg_target l < 2 ^ 32"
    
    using legs_ok_append[OF ok] by simp_all
  then have v: "vu_range (leg_target l)" "vu_range (leg_target k)" "0 < leg_end k - leg_end l"
    "leg_end k - leg_end l < 2 ^ 63" by (auto simp: vu_range_def)
  have b: "x \<le> leg_end k - leg_end l \<Longrightarrow> 0 \<le> x \<Longrightarrow>
      leg_target l \<le> interpolate P (leg_target l) (leg_target k) x (leg_end k - leg_end l) \<and>
      interpolate P (leg_target l) (leg_target k) x (leg_end k - leg_end l) \<le> leg_target k" for x
    using interpolate_between[OF _ _ v(3,4,1,2), of x P] assms(3) by simp
  show ?thesis
    using ramp_leg_value[OF assms(1,2)] assms(3-6) v b[of "t - leg_end l"] b[of "u - leg_end l"]
    by (auto intro!: interpolate_mono)
qed

theorem ramp_monotone_in_stage_witness:
  "20 \<le> ramping_TargetAt \<lparr>fused = False, oob = (\<lambda>_. 0)\<rparr>
     \<lparr>r_legs = [\<lparr>leg_end = 10, leg_target = 20\<rparr>, \<lparr>leg_end = 20, leg_target = 100\<rparr>], r_total = 20, r_peak = 100\<rparr> 13"
  using ramp_monotone_in_stage[of "\<lparr>r_legs = [\<lparr>leg_end = 10, leg_target = 20\<rparr>, \<lparr>leg_end = 20, leg_target = 100\<rparr>],
      r_total = 20, r_peak = 100\<rparr>" "[]" "\<lparr>leg_end = 10, leg_target = 20\<rparr>"
    "\<lparr>leg_end = 20, leg_target = 100\<rparr>" "[]" 13 13 "\<lparr>fused = False, oob = (\<lambda>_. 0)\<rparr>"]
  by (simp add: ramp_ok_def)

subsection \<open>The node's quota\<close>

definition scaled_ok :: "scaled \<Rightarrow> bool" where
  "scaled_ok s \<longleftrightarrow> executor_ok (inner s) \<and> s_peak s = Peak (inner s) \<and>
     0 \<le> s_from s \<and> s_from s < 2 ^ 32 \<and> 0 \<le> s_to s \<and> s_to s < 2 ^ 32 \<and>
     0 \<le> s_rampFrom s \<and> s_rampTo s < 2 ^ 63"

lemma quotaAt_ramp:
  assumes "scaled_ok s" "s_rampFrom s < t" "t < s_rampTo s"
  shows "quotaAt P s t = interpolate P (s_from s) (s_to s) (t - s_rampFrom s) (s_rampTo s - s_rampFrom s)"
  using assms by (simp add: quotaAt_def scaled_ok_def i64_small)

lemma quotaAt_between:
  assumes "scaled_ok s"
  shows "min (s_from s) (s_to s) \<le> quotaAt P s t \<and> quotaAt P s t \<le> max (s_from s) (s_to s)"
proof (cases "s_rampFrom s < t \<and> t < s_rampTo s")
  case True
  then have "min (s_from s) (s_to s) \<le> interpolate P (s_from s) (s_to s) (t - s_rampFrom s) (s_rampTo s - s_rampFrom s) \<and>
      interpolate P (s_from s) (s_to s) (t - s_rampFrom s) (s_rampTo s - s_rampFrom s) \<le> max (s_from s) (s_to s)"
    using assms by (intro interpolate_between) (auto simp: scaled_ok_def vu_range_def)
  then show ?thesis using True assms by (simp add: quotaAt_ramp)
next
  case False
  then show ?thesis by (auto simp: quotaAt_def)
qed

lemma quotaAt_range:
  assumes "scaled_ok s"
  shows "0 \<le> quotaAt P s t \<and> quotaAt P s t < 2 ^ 32"
  using quotaAt_between[OF assms, of P t] assms
  by (auto simp: scaled_ok_def min_def max_def split: if_splits)

lemma newScaled_ok: "executor_ok e \<Longrightarrow> q < 2 ^ 32 \<Longrightarrow> scaled_ok (newScaled e q)"
  by (simp add: scaled_ok_def newScaled_def Let_def)

lemma Rescale_ok:
  assumes "scaled_ok s" "q < 2 ^ 32" "0 \<le> t"
  shows "scaled_ok (Rescale P s q t ramp)"
proof -
  have "in_i64 (i64 (t + ramp))" by simp
  then show ?thesis
    using assms quotaAt_range[OF assms(1), of P t]
    by (auto simp: scaled_ok_def Rescale_def Let_def in_i64_def)
qed

text \<open>
  Changing the quota in mid-run never jumps: \<open>Rescale\<close> with a ramp leaves the quota at
  that instant exactly where it was, also in the middle of an earlier ramp; the new quota is
  reached when the ramp ends and stays, and in between the quota stays between the two. A
  zero ramp applies the new quota at once.
\<close>

theorem Rescale_no_jump:
  assumes "scaled_ok s" and "0 \<le> q" and "q < 2 ^ 32" and "0 \<le> t" and "t + ramp < 2 ^ 63"
  shows "(0 < ramp \<longrightarrow>
      quotaAt P (Rescale P s q t ramp) t = quotaAt P s t \<and>
      (t + ramp \<le> u \<longrightarrow> quotaAt P (Rescale P s q t ramp) u = q) \<and>
      min (quotaAt P s t) q \<le> quotaAt P (Rescale P s q t ramp) u \<and>
      quotaAt P (Rescale P s q t ramp) u \<le> max (quotaAt P s t) q) \<and>
    (ramp \<le> 0 \<longrightarrow> quotaAt P (Rescale P s q t ramp) u = q)"
proof -
  let ?s = "Rescale P s q t ramp"
  have i: "0 < ramp \<Longrightarrow> i64 (t + ramp) = t + ramp" using assms by (intro i64_small) auto
  have f: "0 < ramp \<Longrightarrow> s_from ?s = quotaAt P s t \<and> s_to ?s = q \<and> s_rampFrom ?s = t \<and> s_rampTo ?s = t + ramp"
    using assms i by (simp add: Rescale_def)
  then have "0 < ramp \<Longrightarrow> quotaAt P ?s t = quotaAt P s t"
    "0 < ramp \<Longrightarrow> t + ramp \<le> u \<Longrightarrow> quotaAt P ?s u = q"
    by (simp_all add: quotaAt_def[of P ?s])
  moreover have "0 < ramp \<Longrightarrow> min (quotaAt P s t) q \<le> quotaAt P ?s u \<and> quotaAt P ?s u \<le> max (quotaAt P s t) q"
    using quotaAt_between[OF Rescale_ok[OF assms(1,3,4)], of P ramp P u] f by simp
  moreover have "ramp \<le> 0 \<Longrightarrow> quotaAt P ?s u = q"
    using assms by (simp add: Rescale_def quotaAt_def Let_def)
  ultimately show ?thesis by blast
qed

theorem Rescale_no_jump_witness:
  "quotaAt \<lparr>fused = False, oob = (\<lambda>_. 0)\<rparr>
     (Rescale \<lparr>fused = False, oob = (\<lambda>_. 0)\<rparr> (newScaled (Ramping demo_ramp) 50) 80 5 10) 5 = 50"
proof -
  have "scaled_ok (newScaled (Ramping demo_ramp) 50)"
    using demo_ramp_ok by (intro newScaled_ok) simp_all
  from Rescale_no_jump[OF this, of 80 5 10 "\<lparr>fused = False, oob = (\<lambda>_. 0)\<rparr>" 5]
  have "quotaAt \<lparr>fused = False, oob = (\<lambda>_. 0)\<rparr>
     (Rescale \<lparr>fused = False, oob = (\<lambda>_. 0)\<rparr> (newScaled (Ramping demo_ramp) 50) 80 5 10) 5 =
     quotaAt \<lparr>fused = False, oob = (\<lambda>_. 0)\<rparr> (newScaled (Ramping demo_ramp) 50) 5" by simp
  also have "\<dots> = 50" by (simp add: newScaled_def quotaAt_def)
  finally show ?thesis .
qed

lemma rnd64_floor_ceiling:
  assumes "\<bar>x\<bar> \<le> 2 ^ 53"
  shows "\<lfloor>x\<rfloor> \<le> round_away (rnd64 x) \<and> round_away (rnd64 x) \<le> \<lceil>x\<rceil>"
proof -
  have b: "- of_int (2 ^ 53) \<le> x" "x \<le> of_int (2 ^ 53)" using assms by (simp_all add: abs_le_iff)
  then have "- (2 ^ 53) \<le> \<lfloor>x\<rfloor>" "\<lceil>x\<rceil> \<le> 2 ^ 53"
    by (simp_all only: le_floor_iff ceiling_le_iff of_int_minus)
  moreover have "\<lfloor>x\<rfloor> \<le> 2 ^ 53" "- (2 ^ 53) \<le> \<lceil>x\<rceil>"
    using calculation floor_le_ceiling[of x] by linarith+
  ultimately have "\<bar>\<lfloor>x\<rfloor>\<bar> \<le> 2 ^ 53" "\<bar>\<lceil>x\<rceil>\<bar> \<le> 2 ^ 53" by linarith+
  then have "of_int \<lfloor>x\<rfloor> \<le> rnd64 x \<and> rnd64 x \<le> of_int \<lceil>x\<rceil>"
    by (rule binary64.rnd_between) simp_all
  then show ?thesis by (metis round_away_int round_away_mono)
qed

text \<open>One node's rounded share is within one of the exact proportion.\<close>

lemma scale_share_mid:
  assumes "0 < q" "0 < g" "g < pk" "q * pk \<le> 2 ^ 53"
  shows "1 \<le> scale_share P q pk g \<and> scale_share P q pk g \<le> q \<and>
    \<bar>scale_share P q pk g * pk - q * g\<bar> \<le> pk"
proof -
  let ?x = "of_int (q * g) / of_int pk :: rat"
  have qg: "0 < q * g" "q * g < q * pk" using assms by simp_all
  have le: "q \<le> q * pk" "pk \<le> q * pk" using assms by simp_all
  have sm: "\<bar>q\<bar> \<le> 2 ^ 53" "\<bar>g\<bar> \<le> 2 ^ 53" "\<bar>pk\<bar> \<le> 2 ^ 53" "\<bar>q * g\<bar> \<le> 2 ^ 53"
    using assms qg le by linarith+
  have x: "0 < ?x" "?x < of_int q"
  proof -
    show "0 < ?x" using assms by simp
    have "of_int (q * g) < (of_int (q * pk) :: rat)" using qg by (simp only: of_int_less_iff)
    then show "?x < of_int q" using assms by (simp add: pos_divide_less_eq)
  qed
  have "of_int q \<le> (of_int (2 ^ 53) :: rat)" using sm by (simp only: of_int_le_iff abs_le_iff)
  then have xb: "\<bar>?x\<bar> \<le> 2 ^ 53" using x by simp
  have f: "f_of_int q = Fin (of_int q)" "f_of_int g = Fin (of_int g)" "f_of_int pk = Fin (of_int pk)"
    using sm by (auto simp: f_of_int_Fin rnd64_int)
  have "\<bar>of_int (q * g) :: rat\<bar> \<le> of_int (2 ^ 53)" using sm(4) by (simp only: of_int_abs[symmetric] of_int_le_iff)
  then have "fl (of_int q * of_int g) = Fin (of_int (q * g))"
    using fl_Fin[of "of_int (q * g)"] rnd64_int[OF sm(4)] by simp
  then have d: "f_div (f_mul (f_of_int q) (f_of_int g)) (f_of_int pk) = Fin (rnd64 ?x)"
    using assms f xb fl_Fin[of ?x] by simp
  have r: "\<lfloor>?x\<rfloor> \<le> round_away (rnd64 ?x)" "round_away (rnd64 ?x) \<le> \<lceil>?x\<rceil>"
    using rnd64_floor_ceiling[OF xb] by auto
  have fx: "0 \<le> \<lfloor>?x\<rfloor>" "\<lceil>?x\<rceil> \<le> q" using x by (simp_all add: ceiling_le_iff)
  have "\<bar>round_away (rnd64 ?x)\<bar> \<le> 2 ^ 53" using r fx sm(1) by linarith
  then have "to_int64 (oob P) (math_Round (Fin (rnd64 ?x))) = round_away (rnd64 ?x)"
    by (intro to_int64_Round) simp
  then have s: "scale_share P q pk g = (if round_away (rnd64 ?x) = 0 then 1 else round_away (rnd64 ?x))"
    using assms by (simp add: scale_share_def d Let_def del: math_Round.simps)
  let ?s = "scale_share P q pk g"
  have "0 \<le> round_away (rnd64 ?x)" "round_away (rnd64 ?x) \<le> q" using r fx by linarith+
  then have b: "1 \<le> ?s" "?s \<le> q" using s assms(1) by (auto simp del: of_int_mult split: if_splits)
  have c: "of_int ?s \<le> ?x + 1" "?x - 1 \<le> of_int ?s"
  proof -
    have "of_int \<lceil>?x\<rceil> \<le> ?x + 1" "?x - 1 \<le> of_int \<lfloor>?x\<rfloor>" by linarith+
    moreover have "of_int (round_away (rnd64 ?x)) \<le> (of_int \<lceil>?x\<rceil> :: rat)"
      "(of_int \<lfloor>?x\<rfloor> :: rat) \<le> of_int (round_away (rnd64 ?x))" using r by (simp_all only: of_int_le_iff)
    ultimately have m: "of_int (round_away (rnd64 ?x)) \<le> ?x + 1" "?x - 1 \<le> of_int (round_away (rnd64 ?x))"
      by linarith+
    show "of_int ?s \<le> ?x + 1" "?x - 1 \<le> of_int ?s"
      using m x(1) unfolding s by (cases "round_away (rnd64 ?x) = 0"; simp)+
  qed
  have "of_int (?s * pk) \<le> (of_int (q * g + pk) :: rat)" "of_int (q * g - pk) \<le> (of_int (?s * pk) :: rat)"
    using c assms by (simp_all add: field_simps)
  then have "?s * pk \<le> q * g + pk" "q * g - pk \<le> ?s * pk" by (simp_all only: of_int_le_iff)
  then show ?thesis using b by auto
qed

text \<open>
  A node never exceeds its quota and never idles while the run is on: with a well-formed
  state, the node's target lies between zero and its quota of that instant, is at least one
  whenever the profile is above zero and the quota is positive, and equals the quota at the
  profile's peak.
\<close>

theorem scaled_TargetAt_quota:
  assumes "scaled_ok s" and "quotaAt P s t * s_peak s \<le> 2 ^ 53"
  shows "0 \<le> scaled_TargetAt P s t \<and> scaled_TargetAt P s t \<le> quotaAt P s t \<and>
    (0 < TargetAt P (inner s) t \<and> 0 < quotaAt P s t \<longrightarrow> 1 \<le> scaled_TargetAt P s t) \<and>
    (TargetAt P (inner s) t = Peak (inner s) \<longrightarrow> scaled_TargetAt P s t = quotaAt P s t)"
proof -
  let ?q = "quotaAt P s t" and ?g = "TargetAt P (inner s) t" and ?pk = "s_peak s"
  have ok: "executor_ok (inner s)" and pk: "?pk = Peak (inner s)" using assms by (auto simp: scaled_ok_def)
  have q: "0 \<le> ?q" using quotaAt_range[OF assms(1)] by blast
  have g: "0 \<le> ?g" "?g \<le> ?pk" "0 < ?pk" using exec.target_range[OF ok] exec.top_pos[OF ok] pk by auto
  have "0 < ?q \<Longrightarrow> 0 < ?g \<Longrightarrow> ?g < ?pk \<Longrightarrow> 1 \<le> scale_share P ?q ?pk ?g \<and> scale_share P ?q ?pk ?g \<le> ?q"
    using scale_share_mid[of ?q ?g ?pk P] assms(2) by blast
  moreover have "?g = ?pk \<Longrightarrow> scale_share P ?q ?pk ?g = ?q" "?g = 0 \<Longrightarrow> scale_share P ?q ?pk ?g = 0"
    using exec.share_full[OF ok, of P t P ?q] g pk by (auto simp: scale_share_def)
  ultimately show ?thesis
    using q g pk unfolding scaled_TargetAt_def Let_def by (cases "?g = 0"; cases "?g = ?pk") auto
qed

theorem scaled_TargetAt_quota_witness:
  "scaled_TargetAt \<lparr>fused = False, oob = (\<lambda>_. 0)\<rparr> (newScaled (Ramping demo_ramp) 7) 10 = 7"
proof -
  let ?P = "\<lparr>fused = False, oob = (\<lambda>_. 0)\<rparr>" and ?s = "newScaled (Ramping demo_ramp) 7"
  have ok: "scaled_ok ?s" using demo_ramp_ok by (intro newScaled_ok) simp_all
  have q: "quotaAt ?P ?s 10 = 7" by (simp add: newScaled_def quotaAt_def)
  have "TargetAt ?P (inner ?s) 10 = Peak (inner ?s)"
    using ramp_leg_value[OF demo_ramp_ok, of "[]" "\<lparr>leg_end = 10, leg_target = 100\<rparr>"
      "\<lparr>leg_end = 20, leg_target = 20\<rparr>" "[]" 10 ?P]
    by (simp add: newScaled_def demo_ramp_def interpolate_start vu_range_def)
  then show ?thesis
    using scaled_TargetAt_quota[OF ok, of ?P 10] q by (simp add: newScaled_def demo_ramp_def)
qed

end
