(* ===== verification/RunState.thy ===== *)
theory RunState
  imports Thresholds Executor Utf8
begin

text \<open>
  \<open>internal/coordinator/run.go\<close>: the coordinator's record of one execution. Every method holds
  the run's mutex, so each is one atomic step; \<open>now\<close> is the result of \<open>time.Now()\<close> in it. The
  lemmas show what the phase guard, the event log and the breach flag promise over any
  sequence of steps.
\<close>

subsection \<open>Phases\<close>

datatype run_phase =
    RUN_PHASE_UNSPECIFIED | RUN_PHASE_PENDING | RUN_PHASE_STARTING | RUN_PHASE_RUNNING
  | RUN_PHASE_STOPPING | RUN_PHASE_COMPLETED | RUN_PHASE_FAILED | RUN_PHASE_ABORTED

definition PhasePending :: string where "PhasePending = ''pending''"
definition PhaseStarting :: string where "PhaseStarting = ''starting''"
definition PhaseRunning :: string where "PhaseRunning = ''running''"
definition PhaseStopping :: string where "PhaseStopping = ''stopping''"
definition PhaseCompleted :: string where "PhaseCompleted = ''completed''"
definition PhaseFailed :: string where "PhaseFailed = ''failed''"
definition PhaseAborted :: string where "PhaseAborted = ''aborted''"

lemmas phase_strings = PhasePending_def PhaseStarting_def PhaseRunning_def PhaseStopping_def PhaseCompleted_def
  PhaseFailed_def PhaseAborted_def

fun PhaseName :: "run_phase \<Rightarrow> string" where
  "PhaseName RUN_PHASE_PENDING = PhasePending"
| "PhaseName RUN_PHASE_STARTING = PhaseStarting"
| "PhaseName RUN_PHASE_RUNNING = PhaseRunning"
| "PhaseName RUN_PHASE_STOPPING = PhaseStopping"
| "PhaseName RUN_PHASE_COMPLETED = PhaseCompleted"
| "PhaseName RUN_PHASE_FAILED = PhaseFailed"
| "PhaseName RUN_PHASE_ABORTED = PhaseAborted"
| "PhaseName RUN_PHASE_UNSPECIFIED = PhasePending"

fun IsTerminal :: "run_phase \<Rightarrow> bool" where
  "IsTerminal RUN_PHASE_COMPLETED = True"
| "IsTerminal RUN_PHASE_FAILED = True"
| "IsTerminal RUN_PHASE_ABORTED = True"
| "IsTerminal _ = False"

subsection \<open>The run\<close>

record Event =
  ev_Time :: go_time
  ev_Level :: string
  ev_Source :: string
  ev_Message :: string
  ev_Fields :: "(string, string) gomap"

record participant =
  pa_AgentID :: string
  pa_VUQuota :: int
  pa_RateQuota :: int
  pa_ShardIndex :: u32
  pa_Phase :: string
  pa_Message :: string
  pa_Dispatched :: bool

record test_plan =
  tp_name :: string
  tp_scenarios :: "(string \<times> u32) list"
  tp_load :: "load_profile option"
  tp_thresholds :: "threshold list"
  tp_base_url :: string
  tp_tags :: "(string, string) gomap"
  tp_workers_per_agent :: u32
  tp_config_yaml :: string

record 'h Run =
  rn_id :: string
  rn_name :: string
  rn_plan :: test_plan
  rn_store :: "'h Store"
  rn_phase :: run_phase
  rn_sourcePath :: string
  rn_createdAt :: go_time
  rn_startAt :: go_time
  rn_startedAt :: go_time
  rn_stoppingAt :: go_time
  rn_endedAt :: go_time
  rn_stopWhy :: string
  rn_failure :: string
  rn_peakVUs :: int
  rn_scaleRamp :: duration
  rn_participants :: "(string, participant) gomap"
  rn_events :: "Event list"
  rn_thresholds :: "ThresholdResult list"
  rn_breached :: bool
  rn_published :: go_time

definition maxRunEvents :: nat where
  "maxRunEvents = 500"

definition defaultGraceBudget :: duration where
  "defaultGraceBudget = 30 * time_Second"

definition newRun :: "go_time \<Rightarrow> string \<Rightarrow> string \<Rightarrow> test_plan \<Rightarrow> 'h Store \<Rightarrow> int \<Rightarrow> string \<Rightarrow> 'h Run" where
  "newRun now i name plan store peak source =
     \<lparr>rn_id = i, rn_name = name, rn_plan = plan, rn_store = store, rn_phase = RUN_PHASE_PENDING,
      rn_sourcePath = source, rn_createdAt = now, rn_startAt = zero_time, rn_startedAt = zero_time,
      rn_stoppingAt = zero_time, rn_endedAt = zero_time, rn_stopWhy = [], rn_failure = [], rn_peakVUs = peak,
      rn_scaleRamp = 0, rn_participants = [], rn_events = [], rn_thresholds = [], rn_breached = False,
      rn_published = zero_time\<rparr>"

definition Active :: "'h Run \<Rightarrow> bool" where
  "Active r \<longleftrightarrow> \<not> IsTerminal (rn_phase r)"

text \<open>The result says whether the phase was taken.\<close>

definition setPhase :: "go_time \<Rightarrow> 'h Run \<Rightarrow> run_phase \<Rightarrow> string \<Rightarrow> bool \<times> 'h Run" where
  "setPhase now r phase reason =
     (if IsTerminal (rn_phase r) then (False, r)
      else let r = r\<lparr>rn_phase := phase\<rparr> in
        (True,
         if phase = RUN_PHASE_RUNNING \<and> is_zero_time (rn_startedAt r) then r\<lparr>rn_startedAt := now\<rparr>
         else if phase = RUN_PHASE_STOPPING \<and> is_zero_time (rn_stoppingAt r) then r\<lparr>rn_stoppingAt := now\<rparr>
         else if IsTerminal phase then
           (let r = r\<lparr>rn_endedAt := now, rn_stopWhy := reason\<rparr>
            in if phase = RUN_PHASE_FAILED then r\<lparr>rn_failure := reason\<rparr> else r)
         else r))"

text \<open>\<open>stamp\<close> gives an event the current time when it has none.\<close>

definition stamp :: "go_time \<Rightarrow> Event \<Rightarrow> Event" where
  "stamp now e = (if is_zero_time (ev_Time e) then e\<lparr>ev_Time := now\<rparr> else e)"

definition append_bounded :: "nat \<Rightarrow> 'a list \<Rightarrow> 'a \<Rightarrow> 'a list" where
  "append_bounded n xs x =
     (let xs = xs @ [x] in if length xs > n then drop (length xs - n) xs else xs)"

definition addEvent :: "go_time \<Rightarrow> 'h Run \<Rightarrow> Event \<Rightarrow> 'h Run" where
  "addEvent now r e = r\<lparr>rn_events := append_bounded maxRunEvents (rn_events r) (stamp now e)\<rparr>"

definition setParticipants :: "'h Run \<Rightarrow> participant list \<Rightarrow> 'h Run" where
  "setParticipants r parts = r\<lparr>rn_participants := foldl (\<lambda>m p. gput (pa_AgentID p) p m) [] parts\<rparr>"

definition updateParticipant :: "'h Run \<Rightarrow> string \<Rightarrow> string \<Rightarrow> string \<Rightarrow> 'h Run" where
  "updateParticipant r agentID phase message =
     (let p = (case map_of (rn_participants r) agentID of
            Some p \<Rightarrow> p
          | None \<Rightarrow> \<lparr>pa_AgentID = agentID, pa_VUQuota = 0, pa_RateQuota = 0, pa_ShardIndex = 0, pa_Phase = [],
                    pa_Message = [], pa_Dispatched = False\<rparr>)
      in r\<lparr>rn_participants := gput agentID (p\<lparr>pa_Phase := phase, pa_Message := message\<rparr>) (rn_participants r)\<rparr>)"

definition Participants :: "((string \<times> participant) list \<Rightarrow> (string \<times> participant) list) \<Rightarrow> 'h Run \<Rightarrow> participant list" where
  "Participants ord r = map snd (ord (rn_participants r))"

definition setThresholds :: "'h Run \<Rightarrow> ThresholdResult list \<Rightarrow> 'h Run" where
  "setThresholds r results =
     r\<lparr>rn_thresholds := results,
       rn_breached := (rn_breached r \<or> (\<exists>x \<in> set results. tr_Evaluated x \<and> \<not> tr_Passed x))\<rparr>"

definition StoppingFor :: "go_time \<Rightarrow> 'h Run \<Rightarrow> duration" where
  "StoppingFor now r = (if is_zero_time (rn_stoppingAt r) then 0 else time_Sub now (rn_stoppingAt r))"

definition GraceBudget :: "'h Run \<Rightarrow> duration" where
  "GraceBudget r =
     (let grace = (case tp_load (rn_plan r) of Some l \<Rightarrow> lp_graceful_stop l | None \<Rightarrow> 0)
      in if grace > 0 then grace else defaultGraceBudget)"

record Summary =
  sm_ID :: string
  sm_Name :: string
  sm_Phase :: string
  sm_CreatedAt :: go_time
  sm_StartAt :: go_time
  sm_StartedAt :: go_time
  sm_EndedAt :: go_time
  sm_Elapsed :: duration \<comment> \<open>rendered in seconds\<close>
  sm_PeakVUs :: int
  sm_Profile :: string
  sm_BaseURL :: string
  sm_StopReason :: string
  sm_Failure :: string
  sm_Breached :: bool
  sm_Tags :: "(string, string) gomap"
  sm_Participants :: "participant list"
  sm_Thresholds :: "ThresholdResult list"
  sm_Stats :: Stats

definition run_Summary :: "go_time \<Rightarrow> ((string \<times> participant) list \<Rightarrow> (string \<times> participant) list) \<Rightarrow>
    'h Run \<Rightarrow> string \<Rightarrow> Summary" where
  "run_Summary now ord r profile =
     \<lparr>sm_ID = rn_id r, sm_Name = rn_name r, sm_Phase = PhaseName (rn_phase r), sm_CreatedAt = rn_createdAt r,
      sm_StartAt = rn_startAt r, sm_StartedAt = rn_startedAt r, sm_EndedAt = rn_endedAt r,
      sm_Elapsed = (if is_zero_time (rn_startedAt r) then 0
                    else if is_zero_time (rn_endedAt r) then time_Sub now (rn_startedAt r)
                    else time_Sub (rn_endedAt r) (rn_startedAt r)),
      sm_PeakVUs = rn_peakVUs r, sm_Profile = profile, sm_BaseURL = tp_base_url (rn_plan r),
      sm_StopReason = rn_stopWhy r, sm_Failure = rn_failure r, sm_Breached = rn_breached r,
      sm_Tags = tp_tags (rn_plan r), sm_Participants = Participants ord r, sm_Thresholds = rn_thresholds r,
      sm_Stats = store_Stats (rn_store r)\<rparr>"

subsection \<open>Names\<close>

definition safe_rune :: "nat \<Rightarrow> bool" where
  "safe_rune r \<longleftrightarrow> (97 \<le> r \<and> r \<le> 122) \<or> (65 \<le> r \<and> r \<le> 90) \<or> (48 \<le> r \<and> r \<le> 57) \<or> r = 45 \<or> r = 95 \<or> r = 46"

definition trim_dashes :: "string \<Rightarrow> string" where
  "trim_dashes s = rev (dropWhile (\<lambda>c. c = CHR ''-'') (rev (dropWhile (\<lambda>c. c = CHR ''-'') s)))"

definition sanitiseName :: "string \<Rightarrow> string" where
  "sanitiseName name =
     (if name = [] then ''loadwave''
      else let b = map (\<lambda>r. if safe_rune r then char_of r else CHR ''-'') (go_runes name);
               trimmed = trim_dashes b
           in if trimmed = [] then ''loadwave''
              else if length trimmed > 64 then take 64 trimmed else trimmed)"

subsection \<open>Event logs\<close>

lemma append_bounded_last_n: "append_bounded n xs x = last_n n (xs @ [x])"
  by (simp add: append_bounded_def last_n_def Let_def)

interpretation events: bounded_log "\<lambda>r. length (rn_events r) \<le> maxRunEvents" "\<lambda>r te. addEvent (fst te) r (snd te)"
  rn_events "\<lambda>te. stamp (fst te) (snd te)" "\<lambda>_. maxRunEvents"
  by unfold_locales (simp_all add: addEvent_def append_bounded_last_n)

subsection \<open>A run over its life\<close>

datatype run_op =
    Op_setPhase run_phase string
  | Op_addEvent Event
  | Op_setParticipants "participant list"
  | Op_updateParticipant string string string
  | Op_setThresholds "ThresholdResult list"
  | Op_rescale int duration \<comment> \<open>\<open>ScaleRun\<close> sets the peak and the ramp\<close>
  | Op_takeRamp \<comment> \<open>\<open>rebalance\<close> consumes the ramp\<close>
  | Op_published go_time

fun run_apply :: "'h Run \<Rightarrow> go_time \<times> run_op \<Rightarrow> 'h Run" where
  "run_apply r (now, Op_setPhase p reason) = snd (setPhase now r p reason)"
| "run_apply r (now, Op_addEvent e) = addEvent now r e"
| "run_apply r (now, Op_setParticipants ps) = setParticipants r ps"
| "run_apply r (now, Op_updateParticipant a p m) = updateParticipant r a p m"
| "run_apply r (now, Op_setThresholds rs) = setThresholds r rs"
| "run_apply r (now, Op_rescale peak ramp) = r\<lparr>rn_peakVUs := peak, rn_scaleRamp := ramp\<rparr>"
| "run_apply r (now, Op_takeRamp) = r\<lparr>rn_scaleRamp := 0\<rparr>"
| "run_apply r (now, Op_published t) = (if rn_published r < t then r\<lparr>rn_published := t\<rparr> else r)"

definition verdict_of :: "'h Run \<Rightarrow> run_phase \<times> go_time \<times> string \<times> string" where
  "verdict_of r = (rn_phase r, rn_endedAt r, rn_stopWhy r, rn_failure r)"

lemma run_apply_frame [simp]:
  "rn_phase (addEvent now r e) = rn_phase r" "rn_phase (setParticipants r ps) = rn_phase r"
  "rn_phase (updateParticipant r a p m) = rn_phase r" "rn_phase (setThresholds r rs) = rn_phase r"
  "verdict_of (addEvent now r e) = verdict_of r" "verdict_of (setParticipants r ps) = verdict_of r"
  "verdict_of (updateParticipant r a p m) = verdict_of r" "verdict_of (setThresholds r rs) = verdict_of r"
  by (simp_all add: addEvent_def setParticipants_def updateParticipant_def setThresholds_def verdict_of_def Let_def)

lemma run_apply_terminal:
  "IsTerminal (rn_phase r) \<Longrightarrow> verdict_of (run_apply r x) = verdict_of r \<and> IsTerminal (rn_phase (run_apply r x))"
  by (cases "(r, x)" rule: run_apply.cases)
    (auto simp: setPhase_def verdict_of_def addEvent_def setParticipants_def updateParticipant_def setThresholds_def Let_def)

lemma run_terminal:
  "IsTerminal (rn_phase r) \<Longrightarrow> verdict_of (foldl run_apply r ops) = verdict_of r"
proof (induction ops arbitrary: r)
  case (Cons x ops)
  then show ?case using run_apply_terminal[of r x] by auto
qed simp

text \<open>
  A run reaches a terminal phase exactly once: when a sequence of steps is cut at any
  point where the run is over, the phase, the end time, the stop reason and the failure
  reported there are those at the end, whatever stragglers report afterwards.
\<close>

theorem terminal_phase_latches:
  assumes "IsTerminal (rn_phase (foldl run_apply r before))"
  shows "verdict_of (foldl run_apply r (before @ later)) = verdict_of (foldl run_apply r before)"
  using run_terminal[OF assms, of later] by simp

definition demo_plan :: test_plan where
  "demo_plan = \<lparr>tp_name = [], tp_scenarios = [], tp_load = None, tp_thresholds = [], tp_base_url = [], tp_tags = [], tp_workers_per_agent = 0, tp_config_yaml = []\<rparr>"

theorem terminal_phase_latches_witness:
  "rn_phase (foldl run_apply (newRun 1 ''r'' ''n'' demo_plan demo_store 1 [])
     ([(2, Op_setPhase RUN_PHASE_ABORTED ''stop'')] @ [(3, Op_setPhase RUN_PHASE_COMPLETED ''done'')])) = RUN_PHASE_ABORTED"
proof -
  let ?r = "newRun 1 ''r'' ''n'' demo_plan demo_store 1 []"
  have p: "rn_phase (foldl run_apply ?r [(2, Op_setPhase RUN_PHASE_ABORTED ''stop'')]) = RUN_PHASE_ABORTED"
    by (simp add: newRun_def setPhase_def)
  then show ?thesis
    using terminal_phase_latches[of ?r "[(2, Op_setPhase RUN_PHASE_ABORTED ''stop'')]" "[(3, Op_setPhase RUN_PHASE_COMPLETED ''done'')]"]
    by (simp add: verdict_of_def)
qed

lemma run_apply_breached:
  "rn_breached (run_apply r x) \<longleftrightarrow> rn_breached r \<or> (\<exists>now rs. x = (now, Op_setThresholds rs) \<and> AnyBreached rs)"
  by (cases "(r, x)" rule: run_apply.cases)
    (auto simp: setPhase_def addEvent_def setParticipants_def updateParticipant_def setThresholds_def Let_def
      AnyBreached_def is_breach_def)

text \<open>
  A breach latches: a run counts as breached exactly when some evaluation in its history
  had an evaluated threshold that did not pass, also when later evaluations pass again.
\<close>

theorem breach_latches:
  "rn_breached (foldl run_apply (newRun now i name plan store peak source) ops) \<longleftrightarrow>
     (\<exists>t rs. (t, Op_setThresholds rs) \<in> set ops \<and> AnyBreached rs)"
proof -
  have "rn_breached (foldl run_apply r ops) \<longleftrightarrow> rn_breached r \<or> (\<exists>t rs. (t, Op_setThresholds rs) \<in> set ops \<and> AnyBreached rs)" for r :: "'a Run"
    by (induction ops arbitrary: r) (auto simp: run_apply_breached)
  then show ?thesis by (simp add: newRun_def)
qed

lemma run_apply_events:
  "rn_events (run_apply r x) = (case x of (now, Op_addEvent e) \<Rightarrow> last_n maxRunEvents (rn_events r @ [stamp now e]) | _ \<Rightarrow> rn_events r)"
  by (cases "(r, x)" rule: run_apply.cases)
    (auto simp: setPhase_def addEvent_def setParticipants_def updateParticipant_def setThresholds_def Let_def append_bounded_last_n)

fun logged :: "(go_time \<times> run_op) list \<Rightarrow> (go_time \<times> Event) list" where
  "logged [] = []"
| "logged ((now, Op_addEvent e) # ops) = (now, e) # logged ops"
| "logged (_ # ops) = logged ops"

text \<open>
  The event log is the newest 500 events in order: after any sequence of steps a run's log
  is the last \<open>maxRunEvents\<close> events recorded, each stamped when it carried no time.
\<close>

theorem event_log_newest:
  "rn_events (foldl run_apply (newRun now i name plan store peak source) ops) =
     last_n maxRunEvents (map (\<lambda>te. stamp (fst te) (snd te)) (logged ops))"
proof -
  have "rn_events (foldl run_apply r ops) =
      rn_events (foldl (\<lambda>r te. addEvent (fst te) r (snd te)) r' (logged ops))"
    if "rn_events r = rn_events r'" for r r' :: "'a Run"
    using that
  proof (induction ops arbitrary: r r')
    case (Cons x ops)
    obtain t y where x: "x = (t, y)" by (cases x)
    show ?case
    proof (cases y)
      case (Op_addEvent e)
      have "rn_events (addEvent t r e) = rn_events (addEvent t r' e)" using Cons.prems by (simp add: addEvent_def)
      then show ?thesis using Cons.IH[of "addEvent t r e"] Op_addEvent x by simp
    qed (use Cons.IH[of "run_apply r x" r'] Cons.prems x in \<open>simp_all add: run_apply_events del: run_apply.simps\<close>)
  qed simp
  from this[OF refl, of "newRun now i name plan store peak source"]
    events.pushes[of "newRun now i name plan store peak source" "logged ops"]
  show ?thesis by (simp add: newRun_def)
qed

subsection \<open>Safe names\<close>

definition safe_char :: "char \<Rightarrow> bool" where
  "safe_char c \<longleftrightarrow> safe_rune (byte c)"

lemma byte_char_of: "r < 256 \<Longrightarrow> byte (char_of r) = r"
  by (simp add: byte_def of_char_of)

lemma set_trim_dashes: "set (trim_dashes s) \<subseteq> set s"
  by (auto simp: trim_dashes_def dest!: set_dropWhileD)

text \<open>
  A sanitised name is safe to embed: it is never empty, at most 64 bytes long, and made
  of ASCII letters, digits, dashes, underscores and dots only, for every byte string.
\<close>

theorem sanitiseName_safe:
  "sanitiseName name \<noteq> [] \<and> length (sanitiseName name) \<le> 64 \<and> list_all safe_char (sanitiseName name)"
proof -
  let ?b = "map (\<lambda>r. if safe_rune r then char_of r else CHR ''-'') (go_runes name)"
  have lit: "list_all safe_char ''loadwave''" by (simp add: safe_char_def safe_rune_def byte_def)
  have dash: "byte CHR ''-'' = 45" by (simp add: byte_def)
  have "safe_rune r \<Longrightarrow> r < 256" for r by (auto simp: safe_rune_def)
  then have b: "\<forall>c \<in> set ?b. safe_char c" by (auto simp: safe_char_def byte_char_of dash) (simp add: safe_rune_def)
  then have t: "\<forall>c \<in> set (trim_dashes ?b). safe_char c" using set_trim_dashes[of ?b] by blast
  then have "\<forall>c \<in> set (take 64 (trim_dashes ?b)). safe_char c" using set_take_subset by fastforce
  with t lit show ?thesis by (auto simp: sanitiseName_def Let_def list_all_iff)
qed

end
