(* ===== verification/Channels.thy ===== *)
theory Channels
  imports GoPrelude
begin

text \<open>
  Buffered channels used with a \<open>select\<close> that has a \<open>default\<close> branch: a producer offers a
  message and never waits, a consumer takes the oldest one. The sessions' command queues, the
  nodes' telemetry queues and the dashboard's subscriptions are all of this form. The locale
  states what one promises and proves, for every sequence of offers and takes, that what was
  accepted comes out once and in order and that the buffer's bound holds.
\<close>

datatype 'x chan_op = Offer 'x | Take

locale lossy_queue =
  fixes offer :: "'s \<Rightarrow> 'x \<Rightarrow> bool \<times> 's" and take_one :: "'s \<Rightarrow> 'x option \<times> 's"
    and contents :: "'s \<Rightarrow> 'x list" and cap :: "'s \<Rightarrow> nat" and ready :: "'s \<Rightarrow> bool"
  assumes offer_accepts: "fst (offer s x) \<longleftrightarrow> ready s \<and> length (contents s) < cap s"
    and offer_contents: "contents (snd (offer s x)) = contents s @ (if fst (offer s x) then [x] else [])"
    and offer_frame: "cap (snd (offer s x)) = cap s" "ready (snd (offer s x)) = ready s"
    and take_contents: "contents s = (case fst (take_one s) of Some x \<Rightarrow> x # contents (snd (take_one s))
      | None \<Rightarrow> contents (snd (take_one s)))"
    and take_progress: "ready s \<Longrightarrow> contents s \<noteq> [] \<Longrightarrow> fst (take_one s) \<noteq> None"
    and take_frame: "cap (snd (take_one s)) = cap s" "ready (snd (take_one s)) = ready s"
begin

text \<open>The state after some operations, with the messages accepted and those taken.\<close>

fun run_ops :: "'s \<Rightarrow> 'x chan_op list \<Rightarrow> 's \<times> 'x list \<times> 'x list" where
  "run_ops s [] = (s, [], [])"
| "run_ops s (Offer x # ops) =
     (let (ok, s) = offer s x; (s, acc, out) = run_ops s ops in (s, if ok then x # acc else acc, out))"
| "run_ops s (Take # ops) =
     (let (m, s) = take_one s; (s, acc, out) = run_ops s ops
      in (s, acc, case m of Some x \<Rightarrow> x # out | None \<Rightarrow> out))"

lemma fifo:
  "run_ops s ops = (s', acc, out) \<Longrightarrow> out @ contents s' = contents s @ acc"
proof (induction s ops arbitrary: s' acc out rule: run_ops.induct)
  case (2 s x ops)
  obtain ok s1 where o: "offer s x = (ok, s1)" by force
  obtain s2 acc2 out2 where r: "run_ops s1 ops = (s2, acc2, out2)" by (cases "run_ops s1 ops")
  have "contents s1 = contents s @ (if ok then [x] else [])" using offer_contents[of s x] o by simp
  with 2 o r show ?case by auto
next
  case (3 s ops)
  obtain m s1 where t: "take_one s = (m, s1)" by force
  obtain s2 acc2 out2 where r: "run_ops s1 ops = (s2, acc2, out2)" by (cases "run_ops s1 ops")
  have "contents s = (case m of Some x \<Rightarrow> x # contents s1 | None \<Rightarrow> contents s1)"
    using take_contents[of s] unfolding t by (cases m) simp_all
  with 3 t r show ?case by (auto split: option.splits)
qed simp

lemma bounded:
  "run_ops s ops = (s', acc, out) \<Longrightarrow> length (contents s) \<le> cap s \<Longrightarrow> cap s' = cap s \<and> length (contents s') \<le> cap s"
proof (induction s ops arbitrary: s' acc out rule: run_ops.induct)
  case (2 s x ops)
  obtain ok s1 where o: "offer s x = (ok, s1)" by force
  obtain s2 acc2 out2 where r: "run_ops s1 ops = (s2, acc2, out2)" by (cases "run_ops s1 ops")
  have "cap s1 = cap s" "length (contents s1) \<le> cap s"
    using offer_frame[of s x] offer_contents[of s x] offer_accepts[of s x] o 2(3) by auto
  with 2 o r show ?case by auto
next
  case (3 s ops)
  obtain m s1 where t: "take_one s = (m, s1)" by force
  obtain s2 acc2 out2 where r: "run_ops s1 ops = (s2, acc2, out2)" by (cases "run_ops s1 ops")
  have "cap s1 = cap s" "length (contents s1) \<le> cap s"
    using take_frame[of s] take_contents[of s] t 3(3) by (auto split: option.splits)
  with 3 t r show ?case by auto
qed simp

text \<open>An open queue that is drained gives up everything it holds.\<close>

lemma drain:
  "ready s \<Longrightarrow> \<exists>s' out. run_ops s (replicate (length (contents s)) Take) = (s', [], out) \<and> out = contents s \<and> contents s' = []"
proof (induction "length (contents s)" arbitrary: s)
  case 0 then show ?case by simp
next
  case (Suc n)
  obtain m s1 where t: "take_one s = (m, s1)" by force
  have "contents s \<noteq> []" using Suc(2) by auto
  then obtain x where m: "m = Some x" "contents s = x # contents s1"
    using take_contents[of s] take_progress[of s] Suc(3) t by (cases m) auto
  have "ready s1" using take_frame(2)[of s] Suc(3) t by simp
  then obtain s' where "run_ops s1 (replicate (length (contents s1)) Take) = (s', [], contents s1)" "contents s' = []"
    using Suc(1)[of s1] Suc(2) m by auto
  then show ?case using t m by auto
qed

end

end
