(* ===== verification/Sessions.thy ===== *)
theory Sessions
  imports RunState Channels
begin

text \<open>
  \<open>internal/control/server.go\<close>: the supervisor's end of the control stream. A \<open>*Session\<close> is an
  address in an explicit memory, since the registry, the handlers and the connection's own
  goroutine share it and compare it by identity. Each method is one atomic step: \<open>closed\<close> and
  \<open>done\<close> change together, and \<open>out\<close> is a queue of at most \<open>QueueSize\<close> commands. The lemmas show
  that the registry always holds the latest live connection of a node, whatever the order in
  which old connections unwind, and what a broadcast delivers.
\<close>

subsection \<open>Messages\<close>

record NodeHello =
  nh_NodeId :: string
  nh_Hostname :: string
  nh_Version :: string
  nh_CpuCores :: u32
  nh_MaxWorkers :: u32
  nh_MaxVus :: u32
  nh_Labels :: "(string, string) gomap"

record WorkerStats =
  ws_WorkerId :: string
  ws_Index :: u32
  ws_ActiveVus :: u32
  ws_CpuPercent :: float64
  ws_MemBytes :: u64

record NodeHeartbeat =
  hb_Sequence :: int
  hb_ActiveVus :: u32
  hb_HealthyWorkers :: u32
  hb_CpuPercent :: float64
  hb_MemBytes :: u64
  hb_SentAt :: go_time
  hb_Workers :: "WorkerStats list"

record RunStatusUpdate =
  ru_RunId :: string
  ru_Phase :: run_phase
  ru_Message :: string
  ru_ActiveVus :: u32
  ru_CompletedIterations :: u64

datatype log_level = LOG_LEVEL_UNSPECIFIED | LOG_LEVEL_DEBUG | LOG_LEVEL_INFO | LOG_LEVEL_WARN | LOG_LEVEL_ERROR

record LogEvent =
  le_Time :: "go_time option" \<comment> \<open>a missing timestamp reads as the Unix epoch\<close>
  le_Level :: log_level
  le_NodeId :: string
  le_RunId :: string
  le_Message :: string
  le_Fields :: "(string, string) gomap"

datatype NodeUp =
    NodeUp_Hello NodeHello
  | NodeUp_Heartbeat NodeHeartbeat
  | NodeUp_Metrics MetricBatch
  | NodeUp_RunStatus RunStatusUpdate
  | NodeUp_Log LogEvent
  | NodeUp_Pong int go_time
  | NodeUp_Unset

record Accepted =
  ac_AssignedNodeId :: string
  ac_HeartbeatInterval :: duration
  ac_MetricsInterval :: duration
  ac_SupervisorVersion :: string

record StartRun =
  sr_RunId :: string
  sr_Plan :: test_plan
  sr_VuQuota :: u32
  sr_WorkerCount :: u32
  sr_IterationRateQuota :: u32
  sr_IterationQuota :: u64
  sr_StartAt :: go_time
  sr_ShardIndex :: u32
  sr_ShardCount :: u32
  sr_VuIdBase :: int

record SetQuota =
  sq_RunId :: string
  sq_VuQuota :: u32
  sq_IterationRateQuota :: u32
  sq_Ramp :: duration

record StopRun =
  sp_RunId :: string
  sp_Graceful :: bool
  sp_Reason :: string

datatype NodeDown =
    NodeDown_Accepted Accepted
  | NodeDown_StartRun StartRun
  | NodeDown_SetQuota SetQuota
  | NodeDown_StopRun StopRun
  | NodeDown_Ping int go_time
  | NodeDown_Unset

subsection \<open>Sessions\<close>

record Session =
  se_ID :: string
  se_Hello :: NodeHello
  se_RemoteAddr :: string
  se_JoinedAt :: go_time
  se_out :: "NodeDown list"
  se_cap :: nat
  se_closed :: bool
  se_lastSeen :: go_time
  se_dropped :: u64

type_synonym sref = nat
type_synonym memory = "sref \<Rightarrow> Session"

datatype send_error = ErrSessionClosed | QueueFull string

definition session_Send :: "memory \<Rightarrow> sref \<Rightarrow> NodeDown \<Rightarrow> send_error option \<times> memory" where
  "session_Send h p msg =
     (let s = h p in
      if se_closed s then (Some ErrSessionClosed, h)
      else if length (se_out s) < se_cap s then (None, h(p := s\<lparr>se_out := se_out s @ [msg]\<rparr>))
      else (Some (QueueFull (se_ID s)), h(p := s\<lparr>se_dropped := se_dropped s + 1\<rparr>)))"

definition session_Close :: "memory \<Rightarrow> sref \<Rightarrow> memory" where
  "session_Close h p = h(p := (h p)\<lparr>se_closed := True\<rparr>)"

definition session_LastSeen :: "memory \<Rightarrow> sref \<Rightarrow> go_time" where
  "session_LastSeen h p = se_lastSeen (h p)"

definition session_Closed :: "memory \<Rightarrow> sref \<Rightarrow> bool" where
  "session_Closed h p = se_closed (h p)"

subsection \<open>The registry\<close>

type_synonym registry = "(string, sref) gomap"
type_synonym registry_order = "(string \<times> sref) list \<Rightarrow> (string \<times> sref) list"

definition NewSessionRegistry :: registry where
  "NewSessionRegistry = []"

definition registry_Add :: "memory \<Rightarrow> registry \<Rightarrow> sref \<Rightarrow> sref option \<times> memory \<times> registry" where
  "registry_Add h r p =
     (let previous = map_of r (se_ID (h p)); r = gput (se_ID (h p)) p r
      in (previous, (case previous of Some q \<Rightarrow> session_Close h q | None \<Rightarrow> h), r))"

definition registry_Remove :: "memory \<Rightarrow> registry \<Rightarrow> sref \<Rightarrow> bool \<times> registry" where
  "registry_Remove h r p =
     (if map_of r (se_ID (h p)) = Some p then (True, gdel (se_ID (h p)) r) else (False, r))"

definition registry_Get :: "registry \<Rightarrow> string \<Rightarrow> sref option" where
  "registry_Get r i = map_of r i"

definition registry_All :: "registry_order \<Rightarrow> registry \<Rightarrow> sref list" where
  "registry_All ord r = map snd (ord r)"

definition registry_Len :: "registry \<Rightarrow> nat" where
  "registry_Len r = length r"

fun broadcast_loop :: "memory \<Rightarrow> send_error option \<Rightarrow> sref list \<Rightarrow> NodeDown \<Rightarrow> send_error option \<times> memory" where
  "broadcast_loop h firstErr [] msg = (firstErr, h)"
| "broadcast_loop h firstErr (p # ps) msg =
     (let (err, h) = session_Send h p msg
      in broadcast_loop h (if err \<noteq> None \<and> firstErr = None then err else firstErr) ps msg)"

definition Broadcast :: "registry_order \<Rightarrow> memory \<Rightarrow> registry \<Rightarrow> NodeDown \<Rightarrow> send_error option \<times> memory" where
  "Broadcast ord h r msg = broadcast_loop h None (registry_All ord r) msg"

subsection \<open>The server\<close>

record ServerConfig =
  sv_Version :: string
  sv_HeartbeatInterval :: duration
  sv_MetricsInterval :: duration
  sv_QueueSize :: int

definition DefaultServerHeartbeatInterval :: duration where "DefaultServerHeartbeatInterval = 2 * time_Second"
definition DefaultMetricsInterval :: duration where "DefaultMetricsInterval = time_Second"
definition DefaultServerQueueSize :: int where "DefaultServerQueueSize = 64"

definition sv_applyDefaults :: "ServerConfig \<Rightarrow> ServerConfig" where
  "sv_applyDefaults c =
     (let c = (if sv_HeartbeatInterval c \<le> 0 then c\<lparr>sv_HeartbeatInterval := DefaultServerHeartbeatInterval\<rparr> else c);
          c = (if sv_MetricsInterval c \<le> 0 then c\<lparr>sv_MetricsInterval := DefaultMetricsInterval\<rparr> else c)
      in if sv_QueueSize c \<le> 0 then c\<lparr>sv_QueueSize := DefaultServerQueueSize\<rparr> else c)"

text \<open>
  \<open>SessionHandler\<close>: what a supervisor does with its nodes. Its state holds the memory of the
  sessions, reached through \<open>h_memory\<close> and \<open>h_update\<close>; \<open>now\<close> is the current time in the call.
\<close>

record 'c SessionHandler =
  h_memory :: "'c \<Rightarrow> memory"
  h_update :: "(memory \<Rightarrow> memory) \<Rightarrow> 'c \<Rightarrow> 'c"
  h_OnJoin :: "go_time \<Rightarrow> 'c \<Rightarrow> sref \<Rightarrow> string option \<times> 'c"
  h_OnLeave :: "go_time \<Rightarrow> 'c \<Rightarrow> sref \<Rightarrow> 'c"
  h_OnHeartbeat :: "go_time \<Rightarrow> 'c \<Rightarrow> sref \<Rightarrow> NodeHeartbeat \<Rightarrow> 'c"
  h_OnMetrics :: "go_time \<Rightarrow> 'c \<Rightarrow> sref \<Rightarrow> MetricBatch \<Rightarrow> 'c"
  h_OnRunStatus :: "go_time \<Rightarrow> 'c \<Rightarrow> sref \<Rightarrow> RunStatusUpdate \<Rightarrow> 'c"
  h_OnLog :: "go_time \<Rightarrow> 'c \<Rightarrow> sref \<Rightarrow> LogEvent \<Rightarrow> 'c"

datatype join_error = ReceiveHello string | NotAHello NodeUp | EmptyNodeId | JoinRejected string

definition awaitHello :: "string + NodeUp \<Rightarrow> join_error + NodeHello" where
  "awaitHello first =
     (case first of
        Inl err \<Rightarrow> Inl (ReceiveHello err)
      | Inr msg \<Rightarrow>
          (case msg of
             NodeUp_Hello hello \<Rightarrow> if nh_NodeId hello = [] then Inl EmptyNodeId else Inr hello
           | other \<Rightarrow> Inl (NotAHello other)))"

definition new_session :: "ServerConfig \<Rightarrow> go_time \<Rightarrow> string \<Rightarrow> NodeHello \<Rightarrow> Session" where
  "new_session cfg now peer hello =
     \<lparr>se_ID = nh_NodeId hello, se_Hello = hello, se_RemoteAddr = peer, se_JoinedAt = now, se_out = [],
      se_cap = nat (sv_QueueSize cfg), se_closed = False, se_lastSeen = now, se_dropped = 0\<rparr>"

definition accepted_for :: "ServerConfig \<Rightarrow> Session \<Rightarrow> NodeDown" where
  "accepted_for cfg s = NodeDown_Accepted \<lparr>ac_AssignedNodeId = se_ID s, ac_HeartbeatInterval = sv_HeartbeatInterval cfg,
     ac_MetricsInterval = sv_MetricsInterval cfg, ac_SupervisorVersion = sv_Version cfg\<rparr>"

text \<open>
  \<open>Join\<close> up to the point where the two loops start: the session is allocated at the address
  \<open>p\<close>, offered to the handler, and the answer is what the stream sends first.
\<close>

definition join_open ::
  "'c SessionHandler \<Rightarrow> ServerConfig \<Rightarrow> go_time \<Rightarrow> string \<Rightarrow> string + NodeUp \<Rightarrow> sref \<Rightarrow> 'c \<Rightarrow> (join_error + NodeDown) \<times> 'c" where
  "join_open H cfg now peer first p c =
     (case awaitHello first of
        Inl e \<Rightarrow> (Inl e, c)
      | Inr hello \<Rightarrow>
          let c = h_update H (\<lambda>h. h(p := new_session cfg now peer hello)) c in
          (case h_OnJoin H now c p of
             (Some err, c) \<Rightarrow> (Inl (JoinRejected err), c)
           | (None, c) \<Rightarrow> (Inr (accepted_for cfg (h_memory H c p)), c)))"

text \<open>\<open>receiveLoop\<close>, one message.\<close>

definition receive_one :: "'c SessionHandler \<Rightarrow> go_time \<Rightarrow> sref \<Rightarrow> 'c \<Rightarrow> NodeUp \<Rightarrow> 'c" where
  "receive_one H now p c msg =
     (let c = h_update H (\<lambda>h. h(p := (h p)\<lparr>se_lastSeen := now\<rparr>)) c in
      case msg of
        NodeUp_Heartbeat beat \<Rightarrow> h_OnHeartbeat H now c p beat
      | NodeUp_Metrics batch \<Rightarrow> h_OnMetrics H now c p batch
      | NodeUp_RunStatus update \<Rightarrow> h_OnRunStatus H now c p update
      | NodeUp_Log event \<Rightarrow> h_OnLog H now c p event
      | NodeUp_Pong _ _ \<Rightarrow> c
      | NodeUp_Hello hello \<Rightarrow> h_update H (\<lambda>h. h(p := (h p)\<lparr>se_Hello := hello\<rparr>)) c
      | NodeUp_Unset \<Rightarrow> c)"

text \<open>\<open>sendLoop\<close>, one turn: nothing once the session is done, else the oldest queued command.\<close>

definition send_one :: "memory \<Rightarrow> sref \<Rightarrow> NodeDown option \<times> memory" where
  "send_one h p =
     (if se_closed (h p) then (None, h)
      else case se_out (h p) of
        [] \<Rightarrow> (None, h)
      | msg # rest \<Rightarrow> (Some msg, h(p := (h p)\<lparr>se_out := rest\<rparr>)))"

text \<open>The end of \<open>Join\<close>: the session is closed, then the deferred \<open>OnLeave\<close> runs.\<close>

definition join_close :: "'c SessionHandler \<Rightarrow> go_time \<Rightarrow> sref \<Rightarrow> 'c \<Rightarrow> 'c" where
  "join_close H now p c = h_OnLeave H now (h_update H (\<lambda>h. session_Close h p) c) p"

text \<open>A session's command queue, seen from its two ends.\<close>

interpretation session: lossy_queue
  "\<lambda>h msg. (fst (session_Send h p msg) = None, snd (session_Send h p msg))" "\<lambda>h. send_one h p"
  "\<lambda>h. se_out (h p)" "\<lambda>h. se_cap (h p)" "\<lambda>h. \<not> se_closed (h p)"
  by unfold_locales (auto simp: session_Send_def send_one_def Let_def split: list.split)

subsection \<open>What a registry promises\<close>

datatype conn_event = Joined sref | Left sref

text \<open>
  The node's current connection as its history tells it: the one that joined last, unless it
  has left since.
\<close>

definition joins :: "conn_event list \<Rightarrow> sref list" where
  "joins hist = List.map_filter (\<lambda>e. case e of Joined p \<Rightarrow> Some p | Left _ \<Rightarrow> None) hist"

definition left_since :: "sref \<Rightarrow> conn_event list \<Rightarrow> bool" where
  "left_since p hist \<longleftrightarrow> Left p \<in> set (takeWhile (\<lambda>e. e \<noteq> Joined p) (rev hist))"

definition current_session :: "(sref \<Rightarrow> string) \<Rightarrow> conn_event list \<Rightarrow> string \<Rightarrow> sref option" where
  "current_session id_of hist node =
     (let ps = filter (\<lambda>p. id_of p = node) (joins hist)
      in if ps = [] \<or> left_since (last ps) hist then None else Some (last ps))"

lemma joins_simps [simp]:
  "joins [] = []" "joins (h @ [Joined p]) = joins h @ [p]" "joins (h @ [Left p]) = joins h"
  by (simp_all add: joins_def map_filter_def)

lemma left_since_snoc [simp]:
  "left_since p (h @ [Joined q]) \<longleftrightarrow> p \<noteq> q \<and> left_since p h"
  "left_since p (h @ [Left q]) \<longleftrightarrow> p = q \<or> left_since p h"
  by (auto simp: left_since_def)

lemma current_session_Nil [simp]: "current_session id_of [] node = None"
  by (simp add: current_session_def)

lemma current_session_id:
  assumes "current_session id_of h node = Some p"
  shows "id_of p = node"
proof -
  let ?ps = "filter (\<lambda>p. id_of p = node) (joins h)"
  have "?ps \<noteq> []" "p = last ?ps" using assms by (auto simp: current_session_def Let_def split: if_splits)
  then have "p \<in> set ?ps" using last_in_set[of ?ps] by simp
  then show ?thesis by simp
qed

lemma current_session_Joined [simp]:
  "current_session id_of (h @ [Joined p]) node = (if id_of p = node then Some p else current_session id_of h node)"
proof (cases "id_of p = node")
  case False
  let ?ps = "filter (\<lambda>p. id_of p = node) (joins h)"
  have "?ps \<noteq> [] \<Longrightarrow> last ?ps \<in> set ?ps" by (rule last_in_set)
  then have "?ps \<noteq> [] \<Longrightarrow> last ?ps \<noteq> p" using False by force
  with False show ?thesis by (auto simp: current_session_def Let_def)
qed (simp add: current_session_def)

lemma current_session_Left [simp]:
  "current_session id_of (h @ [Left p]) node =
     (if current_session id_of h node = Some p then None else current_session id_of h node)"
  by (auto simp: current_session_def Let_def)

locale session_registry =
  fixes inv :: "'r \<Rightarrow> bool" and lookup :: "'r \<Rightarrow> string \<Rightarrow> sref option"
    and add :: "'r \<Rightarrow> sref \<Rightarrow> 'r" and remove :: "'r \<Rightarrow> sref \<Rightarrow> 'r" and id_of :: "sref \<Rightarrow> string" and empty :: 'r
  assumes inv_empty: "inv empty" and inv_add: "inv r \<Longrightarrow> inv (add r p)" and inv_remove: "inv r \<Longrightarrow> inv (remove r p)"
    and lookup_empty: "lookup empty k = None"
    and lookup_add: "inv r \<Longrightarrow> lookup (add r p) k = (if k = id_of p then Some p else lookup r k)"
    and lookup_remove: "inv r \<Longrightarrow> lookup (remove r p) k =
      (if k = id_of p \<and> lookup r (id_of p) = Some p then None else lookup r k)"
begin

definition after :: "conn_event list \<Rightarrow> 'r" where
  "after h = foldl (\<lambda>r e. case e of Joined p \<Rightarrow> add r p | Left p \<Rightarrow> remove r p) empty h"

lemma after_inv: "inv (after h)"
  by (induction h rule: rev_induct) (auto simp: after_def inv_empty inv_add inv_remove split: conn_event.split)

lemma after_simps [simp]:
  "after [] = empty" "after (h @ [Joined p]) = add (after h) p" "after (h @ [Left p]) = remove (after h) p"
  by (simp_all add: after_def)

theorem refines_history: "lookup (after h) node = current_session id_of h node"
proof (induction h arbitrary: node rule: rev_induct)
  case Nil show ?case by (simp add: lookup_empty)
next
  case (snoc e h)
  show ?case
  proof (cases e)
    case (Joined p)
    then show ?thesis using snoc by (auto simp: lookup_add after_inv)
  next
    case (Left p)
    show ?thesis
    proof (cases "current_session id_of h node = Some p")
      case True
      then have "node = id_of p" by (simp add: current_session_id)
      with True Left show ?thesis by (simp add: lookup_remove after_inv snoc)
    next
      case False
      with Left show ?thesis by (auto simp: lookup_remove after_inv snoc)
    qed
  qed
qed

end

text \<open>
  The registry of the code. A session's id never changes after \<open>Join\<close> sets it, so the memory
  enters only through the ids.
\<close>

interpretation reg: session_registry gowf map_of "\<lambda>r p. snd (snd (registry_Add h r p))"
  "\<lambda>r p. snd (registry_Remove h r p)" "\<lambda>p. se_ID (h p)" NewSessionRegistry
  by unfold_locales
    (auto simp: NewSessionRegistry_def registry_Add_def registry_Remove_def Let_def map_of_gdel)

subsection \<open>Broadcast\<close>

definition deliver :: "NodeDown \<Rightarrow> Session \<Rightarrow> Session" where
  "deliver msg s =
     (if se_closed s then s
      else if length (se_out s) < se_cap s then s\<lparr>se_out := se_out s @ [msg]\<rparr>
      else s\<lparr>se_dropped := se_dropped s + 1\<rparr>)"

definition has_room :: "Session \<Rightarrow> bool" where
  "has_room s \<longleftrightarrow> \<not> se_closed s \<and> length (se_out s) < se_cap s"

lemma session_Send_deliver: "snd (session_Send h p msg) = h(p := deliver msg (h p))"
  by (auto simp: session_Send_def deliver_def Let_def)

lemma session_Send_ok: "fst (session_Send h p msg) = None \<longleftrightarrow> has_room (h p)"
  by (auto simp: session_Send_def has_room_def Let_def)

lemma broadcast_loop_spec:
  "distinct ps \<Longrightarrow> snd (broadcast_loop h e ps msg) = (\<lambda>p. if p \<in> set ps then deliver msg (h p) else h p)"
proof (induction ps arbitrary: h e)
  case (Cons p ps)
  obtain err h' where s: "session_Send h p msg = (err, h')" by force
  then have h': "h' = h(p := deliver msg (h p))" using session_Send_deliver[of h p msg] by simp
  show ?case using Cons s by (auto simp: h' fun_eq_iff)
qed simp

lemma broadcast_loop_ok:
  "distinct ps \<Longrightarrow> fst (broadcast_loop h e ps msg) = None \<longleftrightarrow> e = None \<and> (\<forall>p \<in> set ps. has_room (h p))"
proof (induction ps arbitrary: h e)
  case (Cons p ps)
  obtain err h' where s: "session_Send h p msg = (err, h')" by force
  then have h': "h' = h(p := deliver msg (h p))" "err = None \<longleftrightarrow> has_room (h p)"
    using session_Send_deliver[of h p msg] session_Send_ok[of h p msg] by simp_all
  have "(\<forall>q \<in> set ps. has_room (h' q)) \<longleftrightarrow> (\<forall>q \<in> set ps. has_room (h q))"
    using Cons.prems by (auto simp: h'(1))
  then show ?case using Cons s h'(2) by auto
qed simp

definition registry_ok :: "memory \<Rightarrow> registry \<Rightarrow> bool" where
  "registry_ok h r \<longleftrightarrow> gowf r \<and> (\<forall>k p. map_of r k = Some p \<longrightarrow> se_ID (h p) = k)"

lemma registry_ok_distinct:
  assumes "registry_ok h r"
  shows "distinct (map snd r)"
proof -
  have g: "distinct (map fst r)" using assms by (simp add: registry_ok_def gowf_def)
  have "x = y" if "x \<in> set r" "y \<in> set r" "snd x = snd y" for x y
  proof -
    have "map_of r (fst x) = Some (snd x)" "map_of r (fst y) = Some (snd y)" using that(1,2) g by simp_all
    then have "fst x = fst y" using assms that(3) by (metis registry_ok_def)
    then show ?thesis using that(3) by (rule prod_eqI)
  qed
  then show ?thesis using g by (auto simp: distinct_map inj_on_def)
qed

lemma registry_All_props:
  assumes "registry_ok h r" "orders ord"
  shows "distinct (registry_All ord r)" "set (registry_All ord r) = snd ` set r"
proof -
  have m: "mset (registry_All ord r) = mset (map snd r)" using assms(2) by (simp add: registry_All_def orders_def)
  show "distinct (registry_All ord r)"
    using mset_eq_imp_distinct_iff[OF m] registry_ok_distinct[OF assms(1)] by simp
  show "set (registry_All ord r) = snd ` set r" using mset_eq_setD[OF m] by simp
qed

text \<open>
  A broadcast reaches every node that can be reached, in whatever order the map is walked: each
  registered session that is open and has room gets the command at the end of its queue, a full
  one only counts the drop, and one unreachable node does not keep the command from the others.
  An error is reported exactly when some node did not get it.
\<close>

theorem Broadcast_reaches_all:
  assumes "registry_ok h r" and "orders ord"
  shows "snd (Broadcast ord h r msg) = (\<lambda>p. if p \<in> snd ` set r then deliver msg (h p) else h p) \<and>
    (fst (Broadcast ord h r msg) = None \<longleftrightarrow> (\<forall>p \<in> snd ` set r. has_room (h p)))"
  using registry_All_props[OF assms] by (simp add: Broadcast_def broadcast_loop_spec broadcast_loop_ok)

definition demo_hello :: NodeHello where
  "demo_hello = \<lparr>nh_NodeId = ''a'', nh_Hostname = ''host'', nh_Version = ''v1'', nh_CpuCores = 4, nh_MaxWorkers = 2,
     nh_MaxVus = 100, nh_Labels = []\<rparr>"

definition demo_server :: ServerConfig where
  "demo_server = sv_applyDefaults \<lparr>sv_Version = ''v1'', sv_HeartbeatInterval = 0, sv_MetricsInterval = 0, sv_QueueSize = 0\<rparr>"

definition demo_session :: Session where
  "demo_session = new_session demo_server 0 ''peer'' demo_hello"

lemma demo_session_simps [simp]:
  "se_ID demo_session = ''a''" "se_closed demo_session = False" "se_out demo_session = []" "se_cap demo_session = 64"
  by (simp_all add: demo_session_def new_session_def demo_hello_def demo_server_def sv_applyDefaults_def
      DefaultServerQueueSize_def Let_def)

theorem Broadcast_reaches_all_witness:
  "se_out (snd (Broadcast (\<lambda>m. m) (\<lambda>_. demo_session) [(''a'', 3)] (NodeDown_Ping 1 0)) 3) = [NodeDown_Ping 1 0] \<and>
   fst (Broadcast (\<lambda>m. m) (\<lambda>_. demo_session) [(''a'', 3)] (NodeDown_Ping 1 0)) = None"
proof -
  have "registry_ok (\<lambda>_. demo_session) [(''a'', 3)]" by (simp add: registry_ok_def gowf_def)
  from Broadcast_reaches_all[OF this, of "\<lambda>m. m" "NodeDown_Ping 1 0"]
  show ?thesis by (simp add: deliver_def has_room_def orders_def)
qed

subsection \<open>Connections over time\<close>

text \<open>
  Every interleaving of the connections' goroutines: a stream joins with a freshly allocated
  session, which the handler adds to the registry; a session is closed by whoever gives up on
  it; commands are queued and pumped out, messages come in; and a connection's goroutine ends,
  at any later time, by closing its session and removing it.
\<close>

type_synonym conn_sys = "memory \<times> registry \<times> conn_event list"

inductive conn_reach :: "ServerConfig \<Rightarrow> conn_sys \<Rightarrow> bool" for cfg where
  cs_start: "conn_reach cfg (h, NewSessionRegistry, [])"
| cs_join: "conn_reach cfg (h, r, hist) \<Longrightarrow> p \<notin> set (joins hist) \<Longrightarrow>
    registry_Add (h(p := new_session cfg now peer hello)) r p = (prev, h', r') \<Longrightarrow>
    conn_reach cfg (h', r', hist @ [Joined p])"
| cs_close: "conn_reach cfg (h, r, hist) \<Longrightarrow> conn_reach cfg (session_Close h p, r, hist)"
| cs_send: "conn_reach cfg (h, r, hist) \<Longrightarrow> conn_reach cfg (snd (session_Send h p msg), r, hist)"
| cs_pump: "conn_reach cfg (h, r, hist) \<Longrightarrow> conn_reach cfg (snd (send_one h p), r, hist)"
| cs_seen: "conn_reach cfg (h, r, hist) \<Longrightarrow> conn_reach cfg (h(p := (h p)\<lparr>se_lastSeen := now\<rparr>), r, hist)"
| cs_hello: "conn_reach cfg (h, r, hist) \<Longrightarrow> conn_reach cfg (h(p := (h p)\<lparr>se_Hello := hello\<rparr>), r, hist)"
| cs_leave: "conn_reach cfg (h, r, hist) \<Longrightarrow> p \<in> set (joins hist) \<Longrightarrow>
    registry_Remove (session_Close h p) r p = (was, r') \<Longrightarrow>
    conn_reach cfg (session_Close h p, r', hist @ [Left p])"

definition conn_inv :: "conn_sys \<Rightarrow> bool" where
  "conn_inv s = (case s of (h, r, hist) \<Rightarrow>
     gowf r \<and> (\<forall>node. map_of r node = current_session (\<lambda>p. se_ID (h p)) hist node) \<and>
     (\<forall>p \<in> set (joins hist). \<not> se_closed (h p) \<longrightarrow> map_of r (se_ID (h p)) = Some p))"

lemma current_session_cong:
  assumes "\<And>p. p \<in> set (joins hist) \<Longrightarrow> f p = g p"
  shows "current_session f hist node = current_session g hist node"
proof -
  have "filter (\<lambda>p. f p = node) (joins hist) = filter (\<lambda>p. g p = node) (joins hist)"
    using assms by (intro filter_cong) auto
  then show ?thesis by (simp add: current_session_def)
qed

lemma current_session_joined: "current_session f hist node = Some p \<Longrightarrow> p \<in> set (joins hist)"
  using last_in_set[of "filter (\<lambda>p. f p = node) (joins hist)"]
  by (auto simp: current_session_def Let_def split: if_splits)

text \<open>Steps that leave the ids alone and reopen nothing.\<close>

lemma conn_inv_frame:
  assumes "conn_inv (h, r, hist)" "\<And>p. se_ID (h' p) = se_ID (h p)" "\<And>p. se_closed (h p) \<Longrightarrow> se_closed (h' p)"
  shows "conn_inv (h', r, hist)"
  using assms by (auto simp: conn_inv_def)

lemma session_frame [simp]:
  "se_ID (session_Close h p q) = se_ID (h q)" "se_closed (session_Close h p q) \<longleftrightarrow> p = q \<or> se_closed (h q)"
  "se_ID (snd (session_Send h p msg) q) = se_ID (h q)" "se_closed (snd (session_Send h p msg) q) = se_closed (h q)"
  "se_ID (snd (send_one h p) q) = se_ID (h q)" "se_closed (snd (send_one h p) q) = se_closed (h q)"
  by (auto simp: session_Close_def session_Send_def send_one_def Let_def split: list.split)

lemma conn_inv_join:
  assumes inv: "conn_inv (h, r, hist)" and fresh: "p \<notin> set (joins hist)"
    and add: "registry_Add (h(p := s)) r p = (prev, h', r')" and s: "\<not> se_closed s"
  shows "conn_inv (h', r', hist @ [Joined p])"
proof -
  let ?h = "h(p := s)"
  have r': "r' = gput (se_ID s) p r" and prev: "prev = map_of r (se_ID s)"
    and h': "h' = (case prev of Some q \<Rightarrow> session_Close ?h q | None \<Rightarrow> ?h)"
    using add by (auto simp: registry_Add_def Let_def)
  have id': "se_ID (h' q) = se_ID (?h q)" for q by (simp add: h' split: option.split)
  have id: "se_ID (h' q) = se_ID (h q)" if "q \<in> set (joins hist)" for q
    using that fresh by (cases "q = p") (auto simp: id')
  have cl: "se_closed (h' q) \<longleftrightarrow> prev = Some q \<or> se_closed (?h q)" for q by (auto simp: h' split: option.split)
  have look: "map_of r node = current_session (\<lambda>p. se_ID (h' p)) hist node" for node
    using inv current_session_cong[of hist "\<lambda>p. se_ID (h' p)" "\<lambda>p. se_ID (h p)" node] id by (simp add: conn_inv_def)
  have op: "map_of r (se_ID (h' q)) = Some q" if "q \<in> set (joins hist)" "\<not> se_closed (h' q)" for q
    using that inv fresh id[OF that(1)] cl[of q] by (cases "q = p") (auto simp: conn_inv_def)
  have "map_of r' (se_ID (h' q)) = Some q" if "q \<in> set (joins hist)" "\<not> se_closed (h' q)" for q
    using op[OF that] that(2) cl[of q] by (auto simp: r' prev)
  then show ?thesis
    using inv look by (auto simp: conn_inv_def r' id')
qed

lemma conn_inv_leave:
  assumes inv: "conn_inv (h, r, hist)" and rm: "registry_Remove (session_Close h p) r p = (was, r')"
  shows "conn_inv (session_Close h p, r', hist @ [Left p])"
proof -
  let ?id = "\<lambda>q. se_ID (h q)"
  have g: "gowf r" and look: "map_of r node = current_session ?id hist node" for node
    using inv by (auto simp: conn_inv_def)
  have r': "map_of r' node = (if node = ?id p \<and> map_of r (?id p) = Some p then None else map_of r node)" "gowf r'" for node
    using rm reg.lookup_remove[OF g, of "session_Close h p" p node] reg.inv_remove[OF g, of "session_Close h p" p] by simp_all
  have step: "map_of r' node = current_session ?id (hist @ [Left p]) node" for node
  proof (cases "current_session ?id hist node = Some p")
    case True
    then show ?thesis using current_session_id[OF True] by (simp add: r' look)
  next
    case False
    then show ?thesis by (auto simp: r' look)
  qed
  have "map_of r' (?id q) = Some q" if "q \<in> set (joins hist)" "\<not> se_closed (h q)" "p \<noteq> q" for q
    using inv that by (auto simp: conn_inv_def r')
  then show ?thesis using step r'(2) unfolding conn_inv_def by auto
qed

lemma conn_reach_inv: "conn_reach cfg s \<Longrightarrow> conn_inv s"
proof (induction rule: conn_reach.induct)
  case (cs_start h) show ?case by (simp add: conn_inv_def NewSessionRegistry_def)
next
  case (cs_join h r hist p now peer hello prev h' r')
  then show ?case by (intro conn_inv_join) (auto simp: new_session_def)
next
  case (cs_leave h r hist p was r') then show ?case by (intro conn_inv_leave)
qed (erule conn_inv_frame; auto)+

text \<open>
  C9. The registry survives the reconnection race: after any interleaving of joins, closes, sends
  and late departures, a node's entry is the connection that joined last, unless that one has
  itself left, so an old connection that unwinds late never evicts the live one. And every
  connection that is still open is its node's registered one: a displaced session is closed.
\<close>

theorem registry_tracks_live:
  assumes "conn_reach cfg (h, r, hist)"
  shows "registry_Get r node = current_session (\<lambda>p. se_ID (h p)) hist node \<and>
    (p \<in> set (joins hist) \<and> \<not> se_closed (h p) \<longrightarrow> registry_Get r (se_ID (h p)) = Some p)"
  using conn_reach_inv[OF assms] by (auto simp: conn_inv_def registry_Get_def)

theorem registry_tracks_live_witness:
  "\<exists>h r. conn_reach demo_server (h, r, [Joined 0, Joined 1, Left 0]) \<and> registry_Get r ''a'' = Some 1"
proof -
  let ?h1 = "(\<lambda>_. demo_session)(0 := demo_session)"
  let ?h2 = "session_Close (?h1(1 := demo_session)) 0"
  have 0: "conn_reach demo_server (\<lambda>_. demo_session, NewSessionRegistry, [])" by (rule cs_start)
  have 1: "conn_reach demo_server (?h1, [(''a'', 0)], [] @ [Joined 0])"
    by (rule cs_join[OF 0, of 0 0 "''peer''" demo_hello None])
      (simp_all add: registry_Add_def NewSessionRegistry_def flip: demo_session_def)
  have 2: "conn_reach demo_server (?h2, [(''a'', 1)], ([] @ [Joined 0]) @ [Joined 1])"
    by (rule cs_join[OF 1, of 1 0 "''peer''" demo_hello "Some 0"])
      (simp_all add: registry_Add_def joins_def map_filter_def flip: demo_session_def)
  have 3: "conn_reach demo_server (session_Close ?h2 0, [(''a'', 1)], (([] @ [Joined 0]) @ [Joined 1]) @ [Left 0])"
    by (rule cs_leave[OF 2, of 0 False]) (simp_all add: registry_Remove_def joins_def map_filter_def)
  have "current_session (\<lambda>p. se_ID (session_Close ?h2 0 p)) ((([] @ [Joined 0]) @ [Joined 1]) @ [Left 0]) ''a'' = Some 1"
    by (simp only: current_session_Joined current_session_Left current_session_Nil session_frame) simp
  then show ?thesis using registry_tracks_live[OF 3, of "''a''"] 3 by auto
qed

lemma conn_reach_registry_ok: "conn_reach cfg (h, r, hist) \<Longrightarrow> registry_ok h r"
  using conn_reach_inv[of cfg "(h, r, hist)"] current_session_id
  by (fastforce simp: conn_inv_def registry_ok_def)

end
