(* ===== verification/LiveFeed.thy ===== *)
theory LiveFeed
  imports Sessions
begin

text \<open>
  \<open>internal/coordinator/stream.go\<close>: the live feed. Finished buckets are flattened into ticks and
  published once, from the run's watermark on; updates fan out to subscribers, each with a
  small buffer that drops rather than blocks. The snapshot operations are in \<open>Coordinator\<close>.
\<close>

subsection \<open>Ticks\<close>

record EndpointTick =
  et_Avg :: float64
  et_Requests :: u64
  et_ErrorRate :: float64

record ScenarioTick =
  sk_VUs :: float64
  sk_Iterations :: u64
  sk_Requests :: u64
  sk_ErrorRate :: float64
  sk_P95 :: float64

record TickDTO =
  tk_T :: int
  tk_VUs :: u32
  tk_Requests :: u64
  tk_Failures :: u64
  tk_Iterations :: u64
  tk_RPS :: float64
  tk_ErrorRate :: float64
  tk_Avg :: float64
  tk_P50 :: float64
  tk_P90 :: float64
  tk_P95 :: float64
  tk_P99 :: float64
  tk_Status :: "(string, u64) gomap"
  tk_Scenarios :: "(string, ScenarioTick) gomap"
  tk_Endpoints :: "(string, EndpointTick) gomap"

text \<open>\<open>Duration.Seconds\<close> and \<open>Time.UnixMilli\<close>.\<close>

definition duration_Seconds :: "duration \<Rightarrow> float64" where
  "duration_Seconds d = f_add (f_of_int (go_div d 1000000000)) (f_div (f_of_int (go_mod d 1000000000)) (Fin 1000000000))"

definition unix_milli :: "go_time \<Rightarrow> int" where
  "unix_milli t = t div 1000000"

definition percentile_or_zero :: "Point \<Rightarrow> string \<Rightarrow> float64" where
  "percentile_or_zero p k = (case map_of (pt_Percentiles p) k of Some v \<Rightarrow> v | None \<Rightarrow> Fin 0)"

definition endpointTicks :: "'h Bucket \<Rightarrow> (string, EndpointTick) gomap" where
  "endpointTicks bucket =
     map (\<lambda>(name, point). (name, \<lparr>et_Avg = endpoint_Avg point, et_Requests = ep_Requests point,
       et_ErrorRate = endpoint_ErrorRate point\<rparr>)) (bk_Endpoints bucket)"

definition zero_scenario :: ScenarioTick where
  "zero_scenario = \<lparr>sk_VUs = Fin 0, sk_Iterations = 0, sk_Requests = 0, sk_ErrorRate = Fin 0, sk_P95 = Fin 0\<rparr>"

definition scenario_entry :: "string \<Rightarrow> Point \<Rightarrow> ScenarioTick \<Rightarrow> ScenarioTick option" where
  "scenario_entry metric point entry =
     (if metric = MetricVUs then Some (entry\<lparr>sk_VUs := pt_Sum point\<rparr>)
      else if metric = MetricIterations then Some (entry\<lparr>sk_Iterations := pt_Count point\<rparr>)
      else if metric = MetricHTTPReqs then Some (entry\<lparr>sk_Requests := pt_Count point\<rparr>)
      else if metric = MetricHTTPReqFailed then Some (entry\<lparr>sk_ErrorRate := point_Ratio point\<rparr>)
      else if metric = MetricHTTPReqDuration then Some (entry\<lparr>sk_P95 := percentile_or_zero point ''p95''\<rparr>)
      else None)"

definition scenario_step :: "(string, ScenarioTick) gomap \<Rightarrow> PointKey \<times> Point \<Rightarrow> (string, ScenarioTick) gomap" where
  "scenario_step out kp =
     (case kp of (key, point) \<Rightarrow>
        if pk_Scenario key = [] then out
        else
          let entry = (case map_of out (pk_Scenario key) of Some e \<Rightarrow> e | None \<Rightarrow> zero_scenario) in
          case scenario_entry (pk_Metric key) point entry of
            None \<Rightarrow> out
          | Some entry \<Rightarrow> gput (pk_Scenario key) entry out)"

type_synonym points_order = "(PointKey \<times> Point) list \<Rightarrow> (PointKey \<times> Point) list"

definition scenarioTicks :: "points_order \<Rightarrow> 'h Bucket \<Rightarrow> (string, ScenarioTick) gomap" where
  "scenarioTicks ord bucket = foldl scenario_step [] (ord (bk_Points bucket))"

definition whole_run :: "'h Bucket \<Rightarrow> string \<Rightarrow> Point option" where
  "whole_run bucket metric = map_of (bk_Points bucket) \<lparr>pk_Metric = metric, pk_Scenario = []\<rparr>"

definition bucketToTick :: "points_order \<Rightarrow> 'h Bucket \<Rightarrow> duration \<Rightarrow> TickDTO" where
  "bucketToTick ord bucket resolution =
     (let seconds = duration_Seconds resolution;
          seconds = (if f_le seconds (Fin 0) then Fin 1 else seconds);
          tick = \<lparr>tk_T = unix_milli (bk_Start bucket), tk_VUs = bk_ActiveVUs bucket, tk_Requests = 0, tk_Failures = 0,
            tk_Iterations = 0, tk_RPS = Fin 0, tk_ErrorRate = Fin 0, tk_Avg = Fin 0, tk_P50 = Fin 0, tk_P90 = Fin 0,
            tk_P95 = Fin 0, tk_P99 = Fin 0, tk_Status = bk_Status bucket, tk_Scenarios = [], tk_Endpoints = []\<rparr>;
          tick = (case whole_run bucket MetricHTTPReqs of
              Some reqs \<Rightarrow> tick\<lparr>tk_Requests := pt_Count reqs, tk_RPS := f_div (f_of_u64 (pt_Count reqs)) seconds\<rparr>
            | None \<Rightarrow> tick);
          tick = (case whole_run bucket MetricHTTPReqFailed of
              Some failed \<Rightarrow> tick\<lparr>tk_Failures := pt_NonZero failed, tk_ErrorRate := point_Ratio failed\<rparr>
            | None \<Rightarrow> tick);
          tick = (case whole_run bucket MetricIterations of
              Some iters \<Rightarrow> tick\<lparr>tk_Iterations := pt_Count iters\<rparr>
            | None \<Rightarrow> tick);
          tick = (case whole_run bucket MetricHTTPReqDuration of
              Some dur \<Rightarrow> tick\<lparr>tk_Avg := point_Avg dur, tk_P50 := percentile_or_zero dur ''p50'',
                tk_P90 := percentile_or_zero dur ''p90'', tk_P95 := percentile_or_zero dur ''p95'',
                tk_P99 := percentile_or_zero dur ''p99''\<rparr>
            | None \<Rightarrow> tick)
      in tick\<lparr>tk_Scenarios := scenarioTicks ord bucket, tk_Endpoints := endpointTicks bucket\<rparr>)"

text \<open>\<open>ticksSince\<close>; \<open>resolution\<close> is the coordinator's \<open>cfg.Store.Resolution\<close>.\<close>

definition ticksSince :: "points_order \<Rightarrow> duration \<Rightarrow> 'h Run \<Rightarrow> TickDTO list \<times> 'h Run" where
  "ticksSince ord resolution run =
     (let since = rn_published run; buckets = Timeline (rn_store run) since in
      if buckets = [] then ([], run)
      else
        let ticks = map (\<lambda>b. bucketToTick ord b resolution) buckets;
            newest = foldl (\<lambda>newest b. if newest < bk_Start b then bk_Start b else newest) since buckets
        in (ticks, if rn_published run < newest then run\<lparr>rn_published := newest\<rparr> else run))"

subsection \<open>Agents and updates\<close>

record WorkerInfo =
  wi_ID :: string
  wi_Index :: u32
  wi_ActiveVUs :: u32
  wi_CPUPercent :: float64
  wi_MemBytes :: u64

record AgentInfo =
  ai_ID :: string
  ai_Hostname :: string
  ai_Version :: string
  ai_Cores :: u32
  ai_MaxWorkers :: u32
  ai_MaxVUs :: u32
  ai_Labels :: "(string, string) gomap"
  ai_RemoteAddr :: string
  ai_JoinedAt :: go_time
  ai_LastSeen :: go_time
  ai_ActiveVUs :: u32
  ai_HealthyWorkers :: u32
  ai_Healthy :: bool
  ai_VUQuota :: int
  ai_CPUPercent :: float64
  ai_MemBytes :: u64
  ai_Workers :: "WorkerInfo list"

definition UpdateTick :: string where "UpdateTick = ''tick''"
definition UpdateEvent :: string where "UpdateEvent = ''event''"

record Update =
  up_Type :: string
  up_Run :: "Summary option"
  up_Agents :: "AgentInfo list"
  up_Ticks :: "TickDTO list"
  up_Thresholds :: "ThresholdResult list"
  up_Events :: "Event list"

definition event_update :: "Event \<Rightarrow> Update" where
  "event_update e = \<lparr>up_Type = UpdateEvent, up_Run = None, up_Agents = [], up_Ticks = [], up_Thresholds = [], up_Events = [e]\<rparr>"

subsection \<open>Subscribers\<close>

definition subscriberBuffer :: nat where
  "subscriberBuffer = 8"

record Subscription =
  sb_ch :: "Update list"
  sb_done :: bool

text \<open>
  The set of live subscriptions, by address: a subscription outlives its membership, since the
  client still drains it. \<open>next\<close> is the next free address.
\<close>

record subscriberSet =
  su_mem :: "nat \<Rightarrow> Subscription"
  su_next :: nat
  su_subs :: "nat list"

definition no_subscribers :: subscriberSet where
  "no_subscribers = \<lparr>su_mem = (\<lambda>_. \<lparr>sb_ch = [], sb_done = False\<rparr>), su_next = 0, su_subs = []\<rparr>"

definition subs_add :: "subscriberSet \<Rightarrow> nat \<times> subscriberSet" where
  "subs_add s =
     (let p = su_next s in
      (p, s\<lparr>su_mem := (su_mem s)(p := \<lparr>sb_ch = [], sb_done = False\<rparr>), su_next := Suc p, su_subs := su_subs s @ [p]\<rparr>))"

definition subs_remove :: "subscriberSet \<Rightarrow> nat \<Rightarrow> subscriberSet" where
  "subs_remove s p = s\<lparr>su_subs := filter (\<lambda>q. q \<noteq> p) (su_subs s)\<rparr>"

text \<open>\<open>once\<close> has fired exactly when \<open>done\<close> is closed.\<close>

definition subscription_Close :: "subscriberSet \<Rightarrow> nat \<Rightarrow> subscriberSet" where
  "subscription_Close s p =
     (if sb_done (su_mem s p) then s
      else subs_remove (s\<lparr>su_mem := (su_mem s)(p := (su_mem s p)\<lparr>sb_done := True\<rparr>)\<rparr>) p)"

definition subs_offer :: "(nat \<Rightarrow> Subscription) \<Rightarrow> nat \<Rightarrow> Update \<Rightarrow> bool \<times> (nat \<Rightarrow> Subscription)" where
  "subs_offer m p u =
     (if length (sb_ch (m p)) < subscriberBuffer then (True, m(p := (m p)\<lparr>sb_ch := sb_ch (m p) @ [u]\<rparr>)) else (False, m))"

definition publish :: "(nat list \<Rightarrow> nat list) \<Rightarrow> subscriberSet \<Rightarrow> Update \<Rightarrow> subscriberSet" where
  "publish ord s u = s\<lparr>su_mem := foldl (\<lambda>m p. snd (subs_offer m p u)) (su_mem s) (ord (su_subs s))\<rparr>"

definition closeAll :: "(nat list \<Rightarrow> nat list) \<Rightarrow> subscriberSet \<Rightarrow> subscriberSet" where
  "closeAll ord s = foldl subscription_Close s (ord (su_subs s))"

text \<open>The client's side: it takes the oldest update.\<close>

definition subs_take :: "(nat \<Rightarrow> Subscription) \<Rightarrow> nat \<Rightarrow> Update option \<times> (nat \<Rightarrow> Subscription)" where
  "subs_take m p = (case sb_ch (m p) of [] \<Rightarrow> (None, m) | u # us \<Rightarrow> (Some u, m(p := (m p)\<lparr>sb_ch := us\<rparr>)))"

interpretation feed: lossy_queue "\<lambda>m. subs_offer m p" "\<lambda>m. subs_take m p" "\<lambda>m. sb_ch (m p)" "\<lambda>_. subscriberBuffer" "\<lambda>_. True"
  by unfold_locales (auto simp: subs_offer_def subs_take_def split: list.split)

subsection \<open>Every bucket is published once\<close>

lemma foldl_newest:
  "foldl (\<lambda>n b. if n < f b then f b else n) (t :: int) bs = Max (insert t (f ` set bs))"
proof (induction bs arbitrary: t)
  case (Cons b bs)
  have "Max (insert (if t < f b then f b else t) (f ` set bs)) = Max (insert t (insert (f b) (f ` set bs)))"
    by (cases "f ` set bs = {}") (auto simp: max_def)
  with Cons show ?case by simp
qed simp

lemma ticksSince_spec:
  assumes "ticksSince ord res r = (ticks, r')"
  shows "ticks = map (\<lambda>b. bucketToTick ord b res) (Timeline (rn_store r) (rn_published r)) \<and>
    rn_store r' = rn_store r \<and> rn_published r' = Max (insert (rn_published r) (bk_Start ` set (Timeline (rn_store r) (rn_published r))))"
proof -
  let ?M = "Max (insert (rn_published r) (bk_Start ` set (Timeline (rn_store r) (rn_published r))))"
  have "rn_published r \<le> ?M" by simp
  then show ?thesis using assms
    by (cases "Timeline (rn_store r) (rn_published r) = []"; cases "rn_published r < ?M")
      (auto simp: ticksSince_def Let_def foldl_newest)
qed

text \<open>
  The live feed carries every finished bucket once: a round of \<open>ticksSince\<close> returns, in order,
  the retained buckets that start after the run's watermark and no others; the watermark moves
  up to the newest of them and never back; and a round with nothing new returns nothing, so no
  bucket is sent twice.
\<close>

theorem ticksSince_once:
  assumes "ticksSince ord res r = (ticks, r')"
    and "\<forall>b \<in> set (Timeline (rn_store r) zero_time). zero_time < bk_Start b" and "zero_time \<le> rn_published r"
  shows "ticks = map (\<lambda>b. bucketToTick ord b res)
      (filter (\<lambda>b. rn_published r < bk_Start b) (Timeline (rn_store r) zero_time)) \<and>
    rn_published r \<le> rn_published r' \<and>
    (\<forall>b \<in> set (Timeline (rn_store r) zero_time). bk_Start b \<le> rn_published r') \<and>
    fst (ticksSince ord res r') = []"
proof -
  let ?all = "Timeline (rn_store r) zero_time" and ?new = "Timeline (rn_store r) (rn_published r)"
  have new: "?new = filter (\<lambda>b. rn_published r < bk_Start b) ?all"
    using assms(2) by (auto simp: Timeline_ring is_zero_time_def intro!: filter_cong)
  note sp = ticksSince_spec[OF assms(1)]
  have up: "rn_published r \<le> rn_published r'" using sp by simp
  have le: "bk_Start b \<le> rn_published r'" if "b \<in> set ?all" for b
  proof (cases "rn_published r < bk_Start b")
    case True
    then have "b \<in> set ?new" using that by (simp add: new)
    then have "bk_Start b \<le> Max (insert (rn_published r) (bk_Start ` set ?new))" by (intro Max_ge) simp_all
    then show ?thesis using sp by simp
  next
    case False then show ?thesis using up by linarith
  qed
  have "Timeline (rn_store r') (rn_published r') = []"
  proof (rule ccontr)
    assume "Timeline (rn_store r') (rn_published r') \<noteq> []"
    then obtain b where b: "b \<in> set (Timeline (rn_store r') (rn_published r'))" by (cases "Timeline (rn_store r') (rn_published r')") auto
    then have all: "b \<in> set ?all" using sp by (auto simp: Timeline_ring is_zero_time_def)
    have "is_zero_time (rn_published r') \<or> rn_published r' < bk_Start b" using b by (auto simp: Timeline_ring)
    then show False using le[OF all] assms(2,3) all up by (auto simp: is_zero_time_def)
  qed
  then have "fst (ticksSince ord res r') = []" by (simp add: ticksSince_def)
  then show ?thesis using sp le up new by simp
qed

definition demo_feed_store :: "list_hist Store" where
  "demo_feed_store = demo_store\<lparr>st_closed := [zero_bucket\<lparr>bk_Start := 5000000\<rparr>, zero_bucket], st_head := 0, st_closedN := 1,
     st_capacity := 2\<rparr>"

definition demo_feed_run :: "list_hist Run" where
  "demo_feed_run = newRun 0 ''run'' ''name'' demo_plan demo_feed_store 1 []"

theorem ticksSince_once_witness:
  "length (fst (ticksSince (\<lambda>x. x) time_Second demo_feed_run)) = 1 \<and>
   fst (ticksSince (\<lambda>x. x) time_Second (snd (ticksSince (\<lambda>x. x) time_Second demo_feed_run))) = []"
proof -
  obtain ticks r' where t: "ticksSince (\<lambda>x. x) time_Second demo_feed_run = (ticks, r')" by force
  have tl: "Timeline (rn_store demo_feed_run) zero_time = [zero_bucket\<lparr>bk_Start := 5000000\<rparr>]"
    by (simp add: Timeline_def demo_feed_run_def newRun_def demo_feed_store_def is_zero_time_def)
  have p: "rn_published demo_feed_run = zero_time" by (simp add: demo_feed_run_def newRun_def)
  show ?thesis using ticksSince_once[OF t] unfolding t tl p by (simp add: zero_time_def)
qed

subsection \<open>Fan-out\<close>

datatype sub_op = Sub_Subscribe | Sub_Close nat | Sub_publish Update | Sub_receive nat | Sub_closeAll

fun subs_apply :: "(nat list \<Rightarrow> nat list) \<Rightarrow> subscriberSet \<Rightarrow> sub_op \<Rightarrow> subscriberSet" where
  "subs_apply ord s Sub_Subscribe = snd (subs_add s)"
| "subs_apply ord s (Sub_Close p) = (if p < su_next s then subscription_Close s p else s)"
| "subs_apply ord s (Sub_publish u) = publish ord s u"
| "subs_apply ord s (Sub_receive p) = s\<lparr>su_mem := snd (subs_take (su_mem s) p)\<rparr>"
| "subs_apply ord s Sub_closeAll = closeAll ord s"

definition subs_ok :: "subscriberSet \<Rightarrow> bool" where
  "subs_ok s \<longleftrightarrow> distinct (su_subs s) \<and> (\<forall>p. length (sb_ch (su_mem s p)) \<le> subscriberBuffer) \<and>
     (\<forall>p. p \<in> set (su_subs s) \<longleftrightarrow> p < su_next s \<and> \<not> sb_done (su_mem s p))"

definition receive_update :: "Update \<Rightarrow> Subscription \<Rightarrow> Subscription" where
  "receive_update u x = (if length (sb_ch x) < subscriberBuffer then x\<lparr>sb_ch := sb_ch x @ [u]\<rparr> else x)"

lemma publish_loop:
  "distinct ps \<Longrightarrow> foldl (\<lambda>m p. snd (subs_offer m p u)) m ps = (\<lambda>p. if p \<in> set ps then receive_update u (m p) else m p)"
proof (induction ps arbitrary: m)
  case (Cons q ps)
  have "snd (subs_offer m q u) = m(q := receive_update u (m q))" by (simp add: subs_offer_def receive_update_def)
  with Cons show ?case by (auto simp: fun_eq_iff)
qed simp

lemma orders_set: "orders ord \<Longrightarrow> set (ord xs) = set xs" "orders ord \<Longrightarrow> distinct (ord xs) = distinct xs"
  unfolding orders_def using mset_eq_setD mset_eq_imp_distinct_iff by metis+

lemma publish_mem:
  assumes "subs_ok s" "orders ord"
  shows "su_mem (publish ord s u) p = (if p \<in> set (su_subs s) then receive_update u (su_mem s p) else su_mem s p)"
  using assms by (simp add: publish_def publish_loop orders_set subs_ok_def)

lemma subscription_Close_ok: "subs_ok s \<Longrightarrow> subs_ok (subscription_Close s p)"
  by (auto simp: subs_ok_def subscription_Close_def subs_remove_def)

lemma subs_apply_ok:
  assumes "subs_ok s" "orders ord"
  shows "subs_ok (subs_apply ord s op)"
proof (cases op)
  case Sub_Subscribe
  then show ?thesis using assms(1) by (auto simp: subs_ok_def subs_add_def Let_def)
next
  case (Sub_Close p) then show ?thesis using assms(1) by (simp add: subscription_Close_ok)
next
  case (Sub_publish u)
  have "su_subs (publish ord s u) = su_subs s" "su_next (publish ord s u) = su_next s" by (simp_all add: publish_def)
  then show ?thesis using assms(1) publish_mem[OF assms] Sub_publish
    by (auto simp: subs_ok_def receive_update_def)
next
  case (Sub_receive p)
  then show ?thesis using assms(1)
    by (auto simp: subs_ok_def subs_take_def split: list.split) (metis length_Cons Suc_leD)+
next
  case Sub_closeAll
  have "subs_ok (foldl subscription_Close s ps)" for ps
    using assms(1) by (intro foldl_invariant[where P = subs_ok]) (auto intro: subscription_Close_ok)
  then show ?thesis using Sub_closeAll by (simp add: closeAll_def)
qed

lemma subs_run_ok: "orders ord \<Longrightarrow> subs_ok s \<Longrightarrow> subs_ok (foldl (subs_apply ord) s ops)"
  by (induction ops arbitrary: s) (auto intro: subs_apply_ok)

lemma no_subscribers_ok: "subs_ok no_subscribers"
  by (simp add: subs_ok_def no_subscribers_def)

text \<open>
  A slow client only hurts itself: after any history of subscribing, closing, publishing and
  receiving, publishing an update appends it to the buffer of every open subscription that has
  room, leaves the others and everything else untouched, and no buffer ever exceeds its bound.
\<close>

theorem publish_fans_out:
  assumes "orders ord" and "s = foldl (subs_apply ord) no_subscribers ops"
  shows "(p < su_next s \<and> \<not> sb_done (su_mem s p) \<and> length (sb_ch (su_mem s p)) < subscriberBuffer \<longrightarrow>
      sb_ch (su_mem (publish ord s u) p) = sb_ch (su_mem s p) @ [u]) \<and>
    (\<not> (p < su_next s \<and> \<not> sb_done (su_mem s p) \<and> length (sb_ch (su_mem s p)) < subscriberBuffer) \<longrightarrow>
      su_mem (publish ord s u) p = su_mem s p) \<and>
    length (sb_ch (su_mem (publish ord s u) p)) \<le> subscriberBuffer"
proof -
  have ok: "subs_ok s" using subs_run_ok[OF assms(1) no_subscribers_ok] assms(2) by simp
  then have "subs_ok (publish ord s u)" using subs_apply_ok[OF ok assms(1), of "Sub_publish u"] by simp
  then show ?thesis using ok publish_mem[OF ok assms(1), of u p] by (auto simp: subs_ok_def receive_update_def)
qed

definition demo_update :: Update where
  "demo_update = \<lparr>up_Type = UpdateTick, up_Run = None, up_Agents = [], up_Ticks = [], up_Thresholds = [], up_Events = []\<rparr>"

theorem publish_fans_out_witness:
  "sb_ch (su_mem (publish (\<lambda>x. x)
     (foldl (subs_apply (\<lambda>x. x)) no_subscribers [Sub_Subscribe, Sub_Subscribe, Sub_Close 0]) demo_update) 1) = [demo_update]"
proof -
  have o: "orders (\<lambda>x :: nat list. x)" by (simp add: orders_def)
  show ?thesis using publish_fans_out[OF o, of _ "[Sub_Subscribe, Sub_Subscribe, Sub_Close 0]" 1 demo_update]
    by (simp add: subs_add_def no_subscribers_def subscription_Close_def subs_remove_def subscriberBuffer_def)
qed

end
