(* ===== verification/Client.thy ===== *)
theory Client
  imports Sessions
begin

text \<open>
  \<open>internal/control/client.go\<close>: a node's end of the control stream. The queue of upstream
  messages outlives a connection; the loops that fill and drain it are steps of their own, and
  the supervisor's commands are routed to a \<open>Handler\<close>. The lemmas show that nothing queued is
  reordered, doubled or lost in the queue, and how the reconnection delay grows.
\<close>

subsection \<open>Configuration\<close>

record ClientConfig =
  cc_Target :: string
  cc_Hello :: "NodeHello option"
  cc_HasHandler :: bool
  cc_QueueSize :: int
  cc_ReconnectMin :: duration
  cc_ReconnectMax :: duration

definition DefaultQueueSize :: int where "DefaultQueueSize = 1024"
definition DefaultReconnectMin :: duration where "DefaultReconnectMin = 250 * time_Millisecond"
definition DefaultReconnectMax :: duration where "DefaultReconnectMax = 15 * time_Second"
definition DefaultHeartbeatInterval :: duration where "DefaultHeartbeatInterval = 2 * time_Second"

definition cc_applyDefaults :: "ClientConfig \<Rightarrow> ClientConfig" where
  "cc_applyDefaults c =
     (let c = (if cc_QueueSize c \<le> 0 then c\<lparr>cc_QueueSize := DefaultQueueSize\<rparr> else c);
          c = (if cc_ReconnectMin c \<le> 0 then c\<lparr>cc_ReconnectMin := DefaultReconnectMin\<rparr> else c)
      in if cc_ReconnectMax c < cc_ReconnectMin c
         then c\<lparr>cc_ReconnectMax := max DefaultReconnectMax (cc_ReconnectMin c)\<rparr> else c)"

subsection \<open>The client\<close>

record Client =
  cl_cfg :: ClientConfig
  cl_out :: "NodeUp list"
  cl_connected :: bool
  cl_dropped :: u64
  cl_sequence :: int
  cl_heartbeatDur :: duration

datatype client_error = NeedsTarget | NeedsHello | NeedsHandler | UnrecognisedCommand | HandlerError string

definition NewClient :: "ClientConfig \<Rightarrow> client_error + Client" where
  "NewClient cfg =
     (if cc_Target cfg = [] then Inl NeedsTarget
      else if (case cc_Hello cfg of None \<Rightarrow> True | Some hello \<Rightarrow> nh_NodeId hello = []) then Inl NeedsHello
      else if \<not> cc_HasHandler cfg then Inl NeedsHandler
      else Inr \<lparr>cl_cfg = cc_applyDefaults cfg, cl_out = [], cl_connected = False, cl_dropped = 0, cl_sequence = 0,
                cl_heartbeatDur = DefaultHeartbeatInterval\<rparr>)"

definition client_Send :: "Client \<Rightarrow> NodeUp \<Rightarrow> bool \<times> Client" where
  "client_Send c msg =
     (if int (length (cl_out c)) < cc_QueueSize (cl_cfg c) then (True, c\<lparr>cl_out := cl_out c @ [msg]\<rparr>)
      else (False, c\<lparr>cl_dropped := cl_dropped c + 1\<rparr>))"

definition SendMetrics :: "Client \<Rightarrow> MetricBatch \<Rightarrow> bool \<times> Client" where
  "SendMetrics c batch = client_Send c (NodeUp_Metrics batch)"

definition SendRunStatus :: "Client \<Rightarrow> RunStatusUpdate \<Rightarrow> bool \<times> Client" where
  "SendRunStatus c update = client_Send c (NodeUp_RunStatus update)"

definition SendLog :: "Client \<Rightarrow> LogEvent \<Rightarrow> bool \<times> Client" where
  "SendLog c event = client_Send c (NodeUp_Log event)"

text \<open>\<open>sendLoop\<close>, one turn.\<close>

definition client_pump :: "Client \<Rightarrow> NodeUp option \<times> Client" where
  "client_pump c = (case cl_out c of [] \<Rightarrow> (None, c) | msg # rest \<Rightarrow> (Some msg, c\<lparr>cl_out := rest\<rparr>))"

text \<open>\<open>Handler\<close>: the node's reaction to a command, as a function of its own state.\<close>

record 'n Handler =
  n_OnAccepted :: "'n \<Rightarrow> Accepted \<Rightarrow> string option \<times> 'n"
  n_OnStartRun :: "'n \<Rightarrow> StartRun \<Rightarrow> string option \<times> 'n"
  n_OnSetQuota :: "'n \<Rightarrow> SetQuota \<Rightarrow> string option \<times> 'n"
  n_OnStopRun :: "'n \<Rightarrow> StopRun \<Rightarrow> string option \<times> 'n"

definition handled :: "Client \<Rightarrow> string option \<times> 'n \<Rightarrow> client_error option \<times> Client \<times> 'n" where
  "handled c res = (map_option HandlerError (fst res), c, snd res)"

definition client_dispatch ::
  "'n Handler \<Rightarrow> go_time \<Rightarrow> Client \<Rightarrow> 'n \<Rightarrow> NodeDown \<Rightarrow> client_error option \<times> Client \<times> 'n" where
  "client_dispatch H now c n msg =
     (case msg of
        NodeDown_Accepted a \<Rightarrow>
          let interval = ac_HeartbeatInterval a;
              c = (if interval > 0 then c\<lparr>cl_heartbeatDur := interval\<rparr> else c)
          in handled c (n_OnAccepted H n a)
      | NodeDown_StartRun m \<Rightarrow> handled c (n_OnStartRun H n m)
      | NodeDown_SetQuota m \<Rightarrow> handled c (n_OnSetQuota H n m)
      | NodeDown_StopRun m \<Rightarrow> handled c (n_OnStopRun H n m)
      | NodeDown_Ping nonce _ \<Rightarrow> (None, snd (client_Send c (NodeUp_Pong nonce now)), n)
      | NodeDown_Unset \<Rightarrow> (Some UnrecognisedCommand, c, n))"

text \<open>\<open>heartbeatLoop\<close>, one turn: the statistics of the callback, if any, with the next sequence number.\<close>

definition zero_heartbeat :: NodeHeartbeat where
  "zero_heartbeat = \<lparr>hb_Sequence = 0, hb_ActiveVus = 0, hb_HealthyWorkers = 0, hb_CpuPercent = Fin 0, hb_MemBytes = 0,
     hb_SentAt = 0, hb_Workers = []\<rparr>"

definition heartbeat_turn :: "NodeHeartbeat option \<Rightarrow> go_time \<Rightarrow> Client \<Rightarrow> bool \<times> Client" where
  "heartbeat_turn supplied now c =
     (let beat = (case supplied of Some b \<Rightarrow> b | None \<Rightarrow> zero_heartbeat);
          c = c\<lparr>cl_sequence := i64 (cl_sequence c + 1)\<rparr>
      in client_Send c (NodeUp_Heartbeat (beat\<lparr>hb_Sequence := cl_sequence c, hb_SentAt := now\<rparr>)))"

subsection \<open>Reconnection\<close>

text \<open>\<open>rnd\<close> is the result of \<open>rand.Int64N(int64(d))\<close>, a number below \<open>d\<close>.\<close>

definition jitter :: "duration \<Rightarrow> int \<Rightarrow> duration" where
  "jitter d rnd = (if d \<le> 0 then 0 else i64 (go_div d 2 + rnd))"

definition next_backoff :: "ClientConfig \<Rightarrow> duration \<Rightarrow> duration" where
  "next_backoff c backoff = min (i64 (backoff * 2)) (cc_ReconnectMax c)"

text \<open>
  The loop of \<open>Run\<close>, by the outcome of each connection attempt (the queue and the handler work
  on between them) and the random numbers drawn: the delays slept, one per lost connection. The
  list ends with the cancellation of the context.
\<close>

fun reconnect_delays :: "ClientConfig \<Rightarrow> duration \<Rightarrow> int list \<Rightarrow> duration list" where
  "reconnect_delays c backoff [] = []"
| "reconnect_delays c backoff (rnd # rnds) = jitter backoff rnd # reconnect_delays c (next_backoff c backoff) rnds"

definition run_delays :: "ClientConfig \<Rightarrow> int list \<Rightarrow> duration list" where
  "run_delays c rnds = reconnect_delays c (cc_ReconnectMin c) rnds"

subsection \<open>The telemetry queue\<close>

interpretation telemetry: lossy_queue client_Send client_pump cl_out "\<lambda>c. nat (cc_QueueSize (cl_cfg c))" "\<lambda>_. True"
  by unfold_locales (auto simp: client_Send_def client_pump_def split: list.split)

definition telemetry_step :: "Client \<times> NodeUp list \<times> NodeUp list \<Rightarrow> NodeUp chan_op \<Rightarrow> Client \<times> NodeUp list \<times> NodeUp list" where
  "telemetry_step s op =
     (case s of (c, acc, out) \<Rightarrow>
        (case op of
           Offer msg \<Rightarrow> (case client_Send c msg of (ok, c) \<Rightarrow> (c, if ok then acc @ [msg] else acc, out))
         | Take \<Rightarrow> (case client_pump c of (m, c) \<Rightarrow> (c, acc, case m of Some msg \<Rightarrow> out @ [msg] | None \<Rightarrow> out))))"

lemma telemetry_run:
  "foldl telemetry_step (c, acc, out) ops =
     (case telemetry.run_ops c ops of (c', acc', out') \<Rightarrow> (c', acc @ acc', out @ out'))"
proof (induction c ops arbitrary: acc out rule: telemetry.run_ops.induct)
  case (2 c msg ops)
  then show ?case by (cases "client_Send c msg") (auto simp: telemetry_step_def split: prod.splits)
next
  case (3 c ops)
  then show ?case
    by (cases "client_pump c"; cases "fst (client_pump c)") (auto simp: telemetry_step_def split: prod.splits)
qed simp


definition demo_client_config :: ClientConfig where
  "demo_client_config = \<lparr>cc_Target = ''host:1'', cc_Hello = Some demo_hello, cc_HasHandler = True, cc_QueueSize = 1,
     cc_ReconnectMin = 0, cc_ReconnectMax = 0\<rparr>"

definition demo_client :: Client where
  "demo_client = \<lparr>cl_cfg = cc_applyDefaults demo_client_config, cl_out = [], cl_connected = False, cl_dropped = 0,
     cl_sequence = 0, cl_heartbeatDur = DefaultHeartbeatInterval\<rparr>"

lemma demo_NewClient: "NewClient demo_client_config = Inr demo_client"
  by (simp add: NewClient_def demo_client_def demo_client_config_def demo_hello_def)


subsection \<open>Backoff\<close>

lemma cc_applyDefaults_range:
  "0 < cc_ReconnectMin (cc_applyDefaults c)" "cc_ReconnectMin (cc_applyDefaults c) \<le> cc_ReconnectMax (cc_applyDefaults c)"
  by (auto simp: cc_applyDefaults_def DefaultReconnectMin_def DefaultReconnectMax_def Let_def)

lemma backoff_power:
  assumes "0 < cc_ReconnectMin c" "cc_ReconnectMin c \<le> cc_ReconnectMax c" "cc_ReconnectMax c \<le> 2 ^ 62 - 1"
  shows "(next_backoff c ^^ k) (cc_ReconnectMin c) = min (cc_ReconnectMin c * 2 ^ k) (cc_ReconnectMax c)"
proof (induction k)
  case 0 then show ?case using assms by simp
next
  case (Suc k)
  let ?b = "min (cc_ReconnectMin c * 2 ^ k) (cc_ReconnectMax c)"
  have "0 < ?b" using assms by simp
  moreover have "?b \<le> cc_ReconnectMax c" by simp
  ultimately have "i64 (?b * 2) = ?b * 2" using assms by (intro i64_small) simp_all
  then show ?case using Suc assms by (auto simp: next_backoff_def min_def)
qed

lemma reconnect_delays_nth:
  "k < length rnds \<Longrightarrow> reconnect_delays c b rnds ! k = jitter ((next_backoff c ^^ k) b) (rnds ! k)"
proof (induction c b rnds arbitrary: k rule: reconnect_delays.induct)
  case (2 c b rnd rnds)
  then show ?case by (cases k) (simp_all add: funpow_swap1)
qed simp

text \<open>
  Reconnection backs off exponentially between its bounds: the \<open>k\<close>-th delay is drawn around
  \<open>ReconnectMin * 2 ^ k\<close> capped at \<open>ReconnectMax\<close>, never less than half of that and less than one
  and a half times it, whatever the configuration the defaults were applied to. (The delay is
  not brought back down by a connection that succeeded in between.)
\<close>

theorem backoff_bounds:
  assumes "c = cc_applyDefaults cfg" and "cc_ReconnectMax c \<le> 2 ^ 62 - 1"
    and "k < length rnds" and "b = min (cc_ReconnectMin c * 2 ^ k) (cc_ReconnectMax c)"
    and "0 \<le> rnds ! k" and "rnds ! k < b"
  shows "b div 2 \<le> run_delays c rnds ! k \<and> run_delays c rnds ! k < b + b div 2"
proof -
  have b: "(next_backoff c ^^ k) (cc_ReconnectMin c) = b"
    using backoff_power[of c k] cc_applyDefaults_range[of cfg] assms by simp
  have "0 < b" "b \<le> 2 ^ 62 - 1" using assms cc_applyDefaults_range[of cfg] by auto
  then have "jitter b (rnds ! k) = b div 2 + rnds ! k"
    using assms(5,6) by (simp add: jitter_def go_div_pos i64_small)
  then show ?thesis using assms(3,5,6) b by (simp add: run_delays_def reconnect_delays_nth)
qed

theorem backoff_bounds_witness:
  "7500000000 \<le> run_delays (cc_applyDefaults demo_client_config) [0, 0, 0, 0, 0, 0, 0, 0, 0] ! 8"
proof -
  let ?c = "cc_applyDefaults demo_client_config"
  have c: "cc_ReconnectMin ?c = 250000000" "cc_ReconnectMax ?c = 15000000000"
    by (simp_all add: cc_applyDefaults_def demo_client_config_def DefaultReconnectMin_def DefaultReconnectMax_def Let_def)
  have b: "15000000000 = min (cc_ReconnectMin ?c * 2 ^ 8) (cc_ReconnectMax ?c)" by (simp add: c)
  have m: "cc_ReconnectMax ?c \<le> 2 ^ 62 - 1" by (simp add: c)
  from backoff_bounds[OF refl m _ b, of "[0, 0, 0, 0, 0, 0, 0, 0, 0]"] show ?thesis by simp
qed

end
