(* ===== verification/GoFmt.thy ===== *)
theory GoFmt
  imports Executor
begin

text \<open>
  The parts of \<open>fmt\<close>, \<open>strings\<close> and \<open>time\<close> the coordinator's messages use (\<open>%d\<close>, \<open>%s\<close> of a
  duration, \<open>%v\<close> of a string slice, \<open>strings.Join\<close>), and the descriptions of a load profile in
  \<open>internal/engine/executor.go\<close> that are built from them.
\<close>

subsection \<open>Decimal integers\<close>

fun dec_digits :: "nat \<Rightarrow> string" where
  "dec_digits n = (if n < 10 then [char_of (48 + n)] else dec_digits (n div 10) @ [char_of (48 + n mod 10)])"

declare dec_digits.simps [simp del]

definition fmt_d :: "int \<Rightarrow> string" where
  "fmt_d n = (if n < 0 then CHR ''-'' # dec_digits (nat (- n)) else dec_digits (nat n))"

primrec dec_value :: "string \<Rightarrow> nat \<Rightarrow> nat" where
  "dec_value [] acc = acc"
| "dec_value (c # cs) acc = dec_value cs (10 * acc + (of_char c - 48))"

lemma dec_value_append: "dec_value (xs @ ys) acc = dec_value ys (dec_value xs acc)"
  by (induction xs arbitrary: acc) simp_all

lemma dec_value_digits: "dec_value (dec_digits n) 0 = n"
proof (induction n rule: dec_digits.induct)
  case (1 n)
  have d: "of_char (char_of (48 + m mod 10) :: char) - 48 = (m mod 10 :: nat)" for m
    by (simp add: take_bit_eq_mod)
  show ?case
  proof (cases "n < 10")
    case True then show ?thesis using d[of n] by (subst dec_digits.simps) simp
  next
    case False then show ?thesis using 1 d[of n] by (subst dec_digits.simps) (simp add: dec_value_append)
  qed
qed

subsection \<open>Durations\<close>

definition pad_left :: "nat \<Rightarrow> string \<Rightarrow> string" where
  "pad_left n s = replicate (n - length s) (CHR ''0'') @ s"

text \<open>\<open>fmtFrac\<close>: the fraction of \<open>u / 10 ^ prec\<close> without trailing zeros, and no point when it is zero.\<close>

definition fmt_frac :: "nat \<Rightarrow> nat \<Rightarrow> string" where
  "fmt_frac u prec =
     (let ds = rev (dropWhile (\<lambda>c. c = CHR ''0'') (rev (pad_left prec (dec_digits (u mod 10 ^ prec)))))
      in if ds = [] then [] else CHR ''.'' # ds)"

definition fmt_unit :: "nat \<Rightarrow> nat \<Rightarrow> string \<Rightarrow> string" where
  "fmt_unit u prec unit = dec_digits (u div 10 ^ prec) @ fmt_frac u prec @ unit"

definition duration_String :: "duration \<Rightarrow> string" where
  "duration_String d =
     (let u = nat \<bar>d\<bar>;
          body =
            (if u = 0 then ''0s''
             else if u < 1000 then fmt_unit u 0 ''ns''
             else if u < 1000000 then fmt_unit u 3 (map char_of [194, 181, 115 :: nat])
             else if u < 1000000000 then fmt_unit u 6 ''ms''
             else
               let secs = u div 1000000000; mins = secs div 60; hours = mins div 60 in
               (if hours > 0 then dec_digits hours @ ''h'' else []) @
               (if mins > 0 then dec_digits (mins mod 60) @ ''m'' else []) @
               dec_digits (secs mod 60) @ fmt_frac u 9 @ ''s'')
      in if d < 0 then CHR ''-'' # body else body)"

lemma duration_String_samples:
  "duration_String 0 = ''0s''" "duration_String 1500000000 = ''1.5s''"
  "duration_String 3661000000000 = ''1h1m1s''" "duration_String 250000000 = ''250ms''"
  by (simp_all add: duration_String_def fmt_unit_def fmt_frac_def pad_left_def dec_digits.simps Let_def
      char_of_def bit_0)

subsection \<open>Slices\<close>

fun strings_Join :: "string \<Rightarrow> string list \<Rightarrow> string" where
  "strings_Join sep [] = []"
| "strings_Join sep [x] = x"
| "strings_Join sep (x # y # xs) = x @ sep @ strings_Join sep (y # xs)"

definition fmt_v :: "string list \<Rightarrow> string" where
  "fmt_v xs = ''['' @ strings_Join '' '' xs @ '']''"

subsection \<open>Load profiles\<close>

definition vuCount :: "int \<Rightarrow> string" where
  "vuCount vus = (if vus = 1 then ''1 VU'' else fmt_d vus @ '' VUs'')"

definition constant_Describe :: "constantVUs \<Rightarrow> string" where
  "constant_Describe c =
     (if c_duration c = 0 then vuCount (c_vus c) @ '' until the iteration budget is spent''
      else vuCount (c_vus c) @ '' for '' @ duration_String (c_duration c))"

fun describe_legs :: "duration \<Rightarrow> leg list \<Rightarrow> string list" where
  "describe_legs prev [] = []"
| "describe_legs prev (l # ls) =
     (duration_String (i64 (leg_end l - prev)) @ '' to '' @ vuCount (leg_target l)) # describe_legs (leg_end l) ls"

definition ramping_Describe :: "rampingVUs \<Rightarrow> string" where
  "ramping_Describe r = strings_Join '', then '' (describe_legs 0 (r_legs r))"

fun Describe :: "executor \<Rightarrow> string" where
  "Describe (Constant c) = constant_Describe c"
| "Describe (Ramping r) = ramping_Describe r"

definition scaled_Describe :: "scaled \<Rightarrow> string" where
  "scaled_Describe s =
     Describe (inner s) @ '' (this node carries '' @ fmt_d (s_to s) @ '' of '' @ fmt_d (s_peak s) @ '' VUs at peak)''"

end
