(* ===== verification/Apportion.thy ===== *)
theory Apportion
  imports GoPrelude
begin

text \<open>
  The package \<open>internal/apportion\<close>: division of an integer total across weighted claimants
  by the largest remainder method. Every addition and product is the 64-bit one of the code.
  The lemmas give the exact sum of the shares, the bounds of each share and the fairness of
  the leftover units, as long as \<open>total * totalWeight\<close> fits a machine integer.
\<close>

subsection \<open>Definitions\<close>

type_synonym claim = "nat \<times> int" \<comment> \<open>index, remainder\<close>

definition total_weight :: "int list \<Rightarrow> int" where
  "total_weight weights = foldl (\<lambda>tw w. if w > 0 then i64 (tw + w) else tw) 0 weights"

definition claim_step ::
  "int \<Rightarrow> int \<Rightarrow> int list \<times> int \<times> claim list \<Rightarrow> nat \<times> int \<Rightarrow> int list \<times> int \<times> claim list" where
  "claim_step tot tw st iw =
     (let (shares, assigned, claims) = st; (i, w) = iw in
      if w \<le> 0 then st
      else let exact = i64 (tot * w); s = i64 (go_div exact tw) in
        (shares[i := s], i64 (assigned + s), claims @ [(i, go_mod exact tw)]))"

definition claim_less :: "claim \<Rightarrow> claim \<Rightarrow> bool" where
  "claim_less a b = (if snd a \<noteq> snd b then snd a > snd b else fst a < fst b)"

definition hand_out :: "int list \<Rightarrow> claim list \<Rightarrow> int list" where
  "hand_out shares cs = foldl (\<lambda>sh c. sh[fst c := i64 (sh ! fst c + 1)]) shares cs"

definition Largest :: "int \<Rightarrow> int list \<Rightarrow> int list" where
  "Largest tot weights =
     (let shares = replicate (length weights) 0 in
      if tot \<le> 0 \<or> length weights = 0 then shares
      else let tw = total_weight weights in
        if tw = 0 then shares
        else let (shares, assigned, claims) =
                   foldl (claim_step tot tw) (shares, 0, []) (enumerate 0 weights);
                 leftover = i64 (tot - assigned) in
          if leftover \<le> 0 then shares
          else hand_out shares (take (nat leftover) (sort_by claim_less claims)))"

definition Equal :: "int \<Rightarrow> int \<Rightarrow> int list" where
  "Equal tot n = (if n \<le> 0 then [] else Largest tot (replicate (nat n) 1))"

subsection \<open>Specification\<close>

definition pos_sum :: "int list \<Rightarrow> int" where
  "pos_sum weights = sum_list (filter (\<lambda>w. w > 0) weights)"

text \<open>No intermediate value leaves the 64-bit range.\<close>

definition fits :: "int \<Rightarrow> int list \<Rightarrow> bool" where
  "fits tot weights \<longleftrightarrow> 0 < tot \<and> 0 < pos_sum weights \<and> tot * pos_sum weights < 2 ^ 63 - 1"

definition floor_share :: "int \<Rightarrow> int \<Rightarrow> int \<Rightarrow> int" where
  "floor_share tot tw w = (if w \<le> 0 then 0 else tot * w div tw)"

definition claims_of :: "int \<Rightarrow> int \<Rightarrow> nat \<Rightarrow> int list \<Rightarrow> claim list" where
  "claims_of tot tw n weights =
     map (\<lambda>(i, w). (i, tot * w mod tw)) (filter (\<lambda>(i, w). w > 0) (enumerate n weights))"

subsection \<open>The order of the claims\<close>

interpretation claim_order: go_less claim_less
  by unfold_locales (auto simp: claim_less_def split: if_splits)

subsection \<open>The machine arithmetic is exact\<close>

lemma pos_sum_simps [simp]:
  "pos_sum [] = 0"
  "pos_sum (w # ws) = (if w > 0 then w else 0) + pos_sum ws"
  by (simp_all add: pos_sum_def)

lemma pos_sum_nonneg: "0 \<le> pos_sum ws"
  by (induction ws) auto

lemma pos_sum_ge: "w \<in> set ws \<Longrightarrow> w \<le> pos_sum ws"
proof (induction ws)
  case (Cons v ws)
  then show ?case using pos_sum_nonneg[of ws] by auto
qed simp

lemma total_weight_acc:
  "0 \<le> a \<Longrightarrow> a + pos_sum ws < 2 ^ 63 \<Longrightarrow>
   foldl (\<lambda>tw w. if w > 0 then i64 (tw + w) else tw) a ws = a + pos_sum ws"
proof (induction ws arbitrary: a)
  case (Cons w ws)
  have "0 \<le> pos_sum ws" by (rule pos_sum_nonneg)
  with Cons.prems have "0 < w \<longrightarrow> i64 (a + w) = a + w"
    by (auto intro!: i64_small)
  then show ?case using Cons by auto
qed simp

lemma total_weight_eq: "pos_sum ws < 2 ^ 63 \<Longrightarrow> total_weight ws = pos_sum ws"
  by (simp add: total_weight_def total_weight_acc)

lemma fits_pos_sum: "fits t ws \<Longrightarrow> pos_sum ws < 2 ^ 63 \<and> t < 2 ^ 63 - 1"
proof -
  assume f: "fits t ws"
  then have "pos_sum ws \<le> t * pos_sum ws" "t \<le> t * pos_sum ws"
    by (simp_all add: fits_def)
  moreover have "t * pos_sum ws < 2 ^ 63 - 1" using f by (simp add: fits_def)
  ultimately show ?thesis by simp
qed

lemma fits_exact:
  assumes "fits t ws" "w \<in> set ws" "0 < w"
  shows "0 \<le> t * w" "t * w < 2 ^ 63"
proof -
  from assms show "0 \<le> t * w" by (simp add: fits_def)
  have "t * w \<le> t * pos_sum ws"
    using assms pos_sum_ge by (simp add: fits_def)
  moreover have "t * pos_sum ws < 2 ^ 63" using assms by (simp add: fits_def)
  ultimately show "t * w < 2 ^ 63" by linarith
qed

lemma floor_share_nonneg: "0 \<le> t \<Longrightarrow> 0 < tw \<Longrightarrow> 0 \<le> floor_share t tw w"
  by (simp add: floor_share_def pos_imp_zdiv_nonneg_iff)

lemma floor_share_split: "0 < w \<Longrightarrow> t * w = floor_share t tw w * tw + t * w mod tw"
  by (simp add: floor_share_def)

lemma sum_floor_rem:
  "sum_list (map (floor_share t tw) ws) * tw + sum_list (map snd (claims_of t tw n ws)) = t * pos_sum ws"
proof (induction ws arbitrary: n)
  case (Cons w ws)
  show ?case
    using Cons[of "Suc n"] floor_share_split[of w t tw]
    by (auto simp: claims_of_def floor_share_def algebra_simps)
qed (simp add: claims_of_def)

lemma sum_floor_le:
  assumes "0 < t" "0 < tw" "pos_sum ws \<le> tw"
  shows "sum_list (map (floor_share t tw) ws) \<le> t"
proof -
  have "0 \<le> sum_list (map snd (claims_of t tw 0 ws))"
    using assms by (intro sum_list_nonneg) (auto simp: claims_of_def)
  then have "sum_list (map (floor_share t tw) ws) * tw \<le> t * pos_sum ws"
    using sum_floor_rem[of t tw ws 0] by simp
  also have "\<dots> \<le> t * tw" using assms by simp
  finally show ?thesis using assms by simp
qed

lemma list_update_mid: "length xs = n \<Longrightarrow> (xs @ x # ys)[n := y] = xs @ y # ys"
  by (simp add: list_update_append)

lemma claim_loop:
  assumes "0 < t" "0 < tw" "t < 2 ^ 63" "0 \<le> a"
    and "\<And>w. w \<in> set ws \<Longrightarrow> 0 < w \<Longrightarrow> t * w < 2 ^ 63"
    and "a + sum_list (map (floor_share t tw) ws) \<le> t"
  shows "foldl (claim_step t tw) (pre @ replicate (length ws) 0, a, cs) (enumerate (length pre) ws) =
    (pre @ map (floor_share t tw) ws, a + sum_list (map (floor_share t tw) ws),
     cs @ claims_of t tw (length pre) ws)"
  using assms
proof (induction ws arbitrary: pre a cs)
  case Nil then show ?case by (simp add: claims_of_def)
next
  case (Cons w ws)
  let ?s = "floor_share t tw w" and ?rest = "sum_list (map (floor_share t tw) ws)"
  have s0: "0 \<le> ?s" and r0: "0 \<le> ?rest"
    using Cons.prems by (auto intro!: floor_share_nonneg sum_list_nonneg)
  have IH: "foldl (claim_step t tw) ((pre @ [?s]) @ replicate (length ws) 0, a + ?s, cs')
      (enumerate (length (pre @ [?s])) ws) =
    ((pre @ [?s]) @ map (floor_share t tw) ws, a + ?s + ?rest,
     cs' @ claims_of t tw (length (pre @ [?s])) ws)" for cs'
    using Cons.prems s0 by (intro Cons.IH) auto
  show ?case
  proof (cases "0 < w")
    case True
    have e: "0 \<le> t * w" "t * w < 2 ^ 63" using Cons.prems True by auto
    have "?s < 2 ^ 63" using s0 r0 Cons.prems by simp
    then have "i64 ?s = ?s" using s0 by (intro i64_small)
    then have s: "i64 (go_div (i64 (t * w)) tw) = ?s"
      using e True Cons.prems by (simp add: i64_small go_div_pos floor_share_def)
    have m: "go_mod (i64 (t * w)) tw = t * w mod tw"
      using e Cons.prems by (simp add: i64_small go_mod_pos)
    have a: "i64 (a + ?s) = a + ?s"
      using s0 r0 Cons.prems by (intro i64_small) auto
    have "claim_step t tw (pre @ replicate (length (w # ws)) 0, a, cs) (length pre, w) =
        ((pre @ [?s]) @ replicate (length ws) 0, a + ?s, cs @ [(length pre, t * w mod tw)])"
      using True by (simp add: claim_step_def s m a Let_def list_update_mid)
    then show ?thesis using IH[of "cs @ [(length pre, t * w mod tw)]"] True
      by (simp add: claims_of_def add.assoc)
  next
    case False
    then have "claim_step t tw (pre @ replicate (length (w # ws)) 0, a, cs) (length pre, w) =
        ((pre @ [?s]) @ replicate (length ws) 0, a + ?s, cs)"
      by (simp add: claim_step_def floor_share_def)
    then show ?thesis using IH[of cs] False by (simp add: claims_of_def add.assoc)
  qed
qed

lemma Largest_fits:
  assumes "fits t ws"
  shows "Largest t ws =
    (let fl = map (floor_share t (pos_sum ws)) ws; leftover = t - sum_list fl in
     hand_out fl (take (nat leftover) (sort_by claim_less (claims_of t (pos_sum ws) 0 ws))))"
proof -
  let ?tw = "pos_sum ws" and ?fl = "map (floor_share t (pos_sum ws)) ws"
  have b: "0 < t" "0 < ?tw" "t < 2 ^ 63" "?tw < 2 ^ 63"
    using assms fits_pos_sum[OF assms] by (auto simp: fits_def)
  have tw: "total_weight ws = ?tw" by (rule total_weight_eq) (rule b)
  have le: "sum_list ?fl \<le> t" using b by (intro sum_floor_le) auto
  have ge: "0 \<le> sum_list ?fl" using b by (auto intro!: floor_share_nonneg sum_list_nonneg)
  have loop: "foldl (claim_step t ?tw) (replicate (length ws) 0, 0, []) (enumerate 0 ws) =
      (?fl, sum_list ?fl, claims_of t ?tw 0 ws)"
    using claim_loop[of t ?tw 0 ws "[]" "[]"] b le fits_exact[OF assms] by auto
  have lo: "i64 (t - sum_list ?fl) = t - sum_list ?fl"
    using le ge b by (intro i64_small) auto
  have ne: "ws \<noteq> []" using b by auto
  show ?thesis
    using b ne le by (simp add: Largest_def tw loop lo Let_def hand_out_def)
qed

subsection \<open>Handing out the leftover\<close>

lemma length_hand_out [simp]: "length (hand_out sh cs) = length sh"
  by (induction cs arbitrary: sh) (auto simp: hand_out_def)

lemma hand_out_nth:
  assumes "distinct (map fst cs)" "\<forall>c \<in> set cs. fst c < length sh"
    and "\<forall>x \<in> set sh. 0 \<le> x \<and> x + 1 < 2 ^ 63" "i < length sh"
  shows "hand_out sh cs ! i = sh ! i + (if i \<in> fst ` set cs then 1 else 0)"
  using assms
proof (induction cs arbitrary: i rule: rev_induct)
  case Nil then show ?case by (simp add: hand_out_def)
next
  case (snoc c cs)
  let ?h = "hand_out sh cs"
  have IH: "j < length sh \<Longrightarrow> ?h ! j = sh ! j + (if j \<in> fst ` set cs then 1 else 0)" for j
    using snoc.prems by (intro snoc.IH) auto
  have c: "fst c < length sh" "fst c \<notin> fst ` set cs" using snoc.prems by auto
  then have "?h ! fst c = sh ! fst c" "sh ! fst c \<in> set sh" using IH by auto
  then have "i64 (?h ! fst c + 1) = sh ! fst c + 1"
    using snoc.prems(3) by (intro trans[OF i64_small]) auto
  then have "hand_out sh (cs @ [c]) = ?h[fst c := sh ! fst c + 1]"
    by (simp add: hand_out_def)
  then show ?case using IH[OF snoc.prems(4)] c snoc.prems(4)
    by (auto simp: nth_list_update)
qed

lemma sum_indicator: "distinct ks \<Longrightarrow> set ks \<subseteq> {..<n :: nat} \<Longrightarrow>
  (\<Sum>i<n. if i \<in> set ks then 1 else 0 :: int) = int (length ks)"
  using sum.inter_restrict[of "{..<n}" "\<lambda>_. 1 :: int" "set ks"]
  by (simp add: Int_absorb1 distinct_card)

lemma sum_hand_out:
  assumes "distinct (map fst cs)" "\<forall>c \<in> set cs. fst c < length sh"
    and "\<forall>x \<in> set sh. 0 \<le> x \<and> x + 1 < 2 ^ 63"
  shows "sum_list (hand_out sh cs) = sum_list sh + int (length cs)"
proof -
  have "sum_list (hand_out sh cs) = (\<Sum>i<length sh. hand_out sh cs ! i)"
    by (simp add: sum_list_sum_nth lessThan_atLeast0)
  also have "\<dots> = (\<Sum>i<length sh. sh ! i + (if i \<in> set (map fst cs) then 1 else 0))"
    using hand_out_nth[OF assms] by (intro sum.cong) auto
  also have "\<dots> = sum_list sh + (\<Sum>i<length sh. if i \<in> set (map fst cs) then 1 else 0)"
    by (simp add: sum.distrib sum_list_sum_nth lessThan_atLeast0)
  also have "\<dots> = sum_list sh + int (length (map fst cs))"
    using assms by (subst sum_indicator) auto
  finally show ?thesis by simp
qed

subsection \<open>The leftover never runs out of claims\<close>

lemma length_claims_of: "length (claims_of t tw n ws) = length (filter (\<lambda>w. w > 0) ws)"
  by (induction ws arbitrary: n) (auto simp: claims_of_def)

lemma fst_claims_of: "(i, r) \<in> set (claims_of t tw n ws) \<longleftrightarrow>
  n \<le> i \<and> i < n + length ws \<and> 0 < ws ! (i - n) \<and> r = t * ws ! (i - n) mod tw"
  by (auto simp: claims_of_def in_set_enumerate_eq)

lemma distinct_claims_of: "distinct (map fst (claims_of t tw n ws))"
proof -
  have "map fst (claims_of t tw n ws) = map fst (filter (\<lambda>(i, w). w > 0) (enumerate n ws))"
    by (simp add: claims_of_def case_prod_beta comp_def)
  then show ?thesis
    using distinct_map_filter[of fst "enumerate n ws"] by (simp add: distinct_enumerate)
qed

lemma leftover_le_claims:
  assumes "0 < tw" "pos_sum ws = tw" "0 < t"
  shows "t - sum_list (map (floor_share t tw) ws) \<le> int (length (claims_of t tw 0 ws))"
proof -
  let ?cs = "claims_of t tw 0 ws" and ?lo = "t - sum_list (map (floor_share t tw) ws)"
  have "\<And>c. c \<in> set ?cs \<Longrightarrow> snd c \<le> tw"
    using assms by (auto simp: claims_of_def order_less_imp_le)
  then have "sum_list (map snd ?cs) \<le> sum_list (map (\<lambda>_. tw) ?cs)"
    by (intro sum_list_mono)
  then have "?lo * tw \<le> int (length ?cs) * tw"
    using sum_floor_rem[of t tw ws 0] assms by (simp add: sum_list_triv algebra_simps)
  then show ?thesis using assms by simp
qed

text \<open>The claims that receive one of the leftover units.\<close>

definition winners :: "int \<Rightarrow> int list \<Rightarrow> claim list" where
  "winners t ws = take (nat (t - sum_list (map (floor_share t (pos_sum ws)) ws)))
     (sort_by claim_less (claims_of t (pos_sum ws) 0 ws))"

lemma set_winners: "set (winners t ws) \<subseteq> set (claims_of t (pos_sum ws) 0 ws)"
  unfolding winners_def by (metis set_sort_by set_take_subset)

lemma distinct_winners: "distinct (map fst (winners t ws))"
proof -
  have "mset (map fst (sort_by claim_less cs)) = mset (map fst cs)" for cs
    by (simp add: mset_map)
  then have "distinct (map fst (sort_by claim_less (claims_of t (pos_sum ws) 0 ws)))"
    using distinct_claims_of mset_eq_imp_distinct_iff by blast
  then show ?thesis by (simp add: winners_def distinct_take flip: take_map)
qed

lemma floor_share_bound:
  assumes "fits t ws" "w \<in> set ws"
  shows "0 \<le> floor_share t (pos_sum ws) w \<and> floor_share t (pos_sum ws) w \<le> t"
proof (cases "0 < w")
  case True
  have p: "0 < t" "0 < pos_sum ws" using assms by (auto simp: fits_def)
  have "t * w div pos_sum ws \<le> t * pos_sum ws div pos_sum ws"
    using assms True p pos_sum_ge by (intro zdiv_mono1 mult_left_mono) auto
  then show ?thesis using True p by (simp add: floor_share_def pos_imp_zdiv_nonneg_iff)
next
  case False
  then show ?thesis using assms by (simp add: floor_share_def fits_def)
qed

lemma Largest_hand_out:
  assumes "fits t ws"
  shows "Largest t ws = hand_out (map (floor_share t (pos_sum ws)) ws) (winners t ws)"
    and "distinct (map fst (winners t ws))"
    and "\<forall>c \<in> set (winners t ws). fst c < length (map (floor_share t (pos_sum ws)) ws)"
    and "\<forall>x \<in> set (map (floor_share t (pos_sum ws)) ws). 0 \<le> x \<and> x + 1 < 2 ^ 63"
proof -
  show "Largest t ws = hand_out (map (floor_share t (pos_sum ws)) ws) (winners t ws)"
    using Largest_fits[OF assms] by (simp add: winners_def Let_def)
  show "distinct (map fst (winners t ws))" by (rule distinct_winners)
  show "\<forall>c \<in> set (winners t ws). fst c < length (map (floor_share t (pos_sum ws)) ws)"
    using set_winners by (fastforce simp: fst_claims_of)
  show "\<forall>x \<in> set (map (floor_share t (pos_sum ws)) ws). 0 \<le> x \<and> x + 1 < 2 ^ 63"
    using floor_share_bound[OF assms] fits_pos_sum[OF assms] by fastforce
qed

lemma Largest_nth:
  assumes "fits t ws" "i < length ws"
  shows "Largest t ws ! i =
    floor_share t (pos_sum ws) (ws ! i) + (if i \<in> fst ` set (winners t ws) then 1 else 0)"
  using hand_out_nth[OF Largest_hand_out(2-4)[OF assms(1)], of i] assms Largest_hand_out(1)
  by simp

lemma length_Largest [simp]: "length (Largest t ws) = length ws"
proof -
  have "length (fst (foldl (claim_step t tw) st iws)) = length (fst st)" for tw st iws
    by (induction iws arbitrary: st) (auto simp: claim_step_def Let_def split: prod.splits if_splits)
  then have "length (fst (foldl (claim_step t (total_weight ws)) (replicate (length ws) 0, 0, [])
      (enumerate 0 ws))) = length ws"
    by simp
  then show ?thesis by (auto simp: Largest_def Let_def split: prod.splits)
qed

lemma Largest_total:
  assumes "fits tot weights"
  shows "sum_list (Largest tot weights) = tot"
proof -
  let ?fl = "map (floor_share tot (pos_sum weights)) weights"
  have p: "0 < tot" "0 < pos_sum weights" using assms by (auto simp: fits_def)
  have "length (winners tot weights) = nat (tot - sum_list ?fl)"
    using leftover_le_claims[of "pos_sum weights" weights tot] p
    by (simp add: winners_def min_def) linarith
  moreover have "sum_list ?fl \<le> tot" using p by (intro sum_floor_le) auto
  ultimately show ?thesis
    using sum_hand_out[OF Largest_hand_out(2-4)[OF assms]] Largest_hand_out(1)[OF assms] by simp
qed

lemma sum_Largest: "t = 0 \<or> fits t ws \<Longrightarrow> sum_list (Largest t ws) = t"
  using Largest_total[of t ws] by (auto simp: Largest_def sum_list_replicate)

lemma Largest_nonneg:
  assumes "n = 0 \<or> fits n ws" "s \<in> set (Largest n ws)"
  shows "0 \<le> s"
proof (cases "n = 0")
  case True then show ?thesis using assms(2) by (simp add: Largest_def)
next
  case False
  then have f: "fits n ws" using assms(1) by simp
  obtain i where i: "i < length ws" "s = Largest n ws ! i" using assms(2) by (auto simp: in_set_conv_nth)
  have "0 \<le> floor_share n (pos_sum ws) (ws ! i)" using f by (auto simp: floor_share_def fits_def intro!: pos_imp_zdiv_nonneg_iff[THEN iffD2])
  then show ?thesis using Largest_nth[OF f i(1)] i(2) by simp
qed

text \<open>
  C14. The shares always add back up to the whole: with a positive total, a positive weight
  and no overflow, \<open>Largest\<close> returns shares whose sum is exactly the total.
\<close>

theorem Largest_sum:
  assumes "fits tot weights"
  shows "sum_list (Largest tot weights) = tot"
  using assms by (rule Largest_total)

theorem Largest_sum_witness: "sum_list (Largest 10 [3, 0, 1, 1]) = 10"
  using Largest_sum[of 10 "[3, 0, 1, 1]"] by (simp add: fits_def)

text \<open>
  No claimant is more than one unit away from its exact share: every share is the floor
  of \<open>total * weight / totalWeight\<close> or one more, and a claimant without a positive weight
  gets nothing.
\<close>

theorem Largest_share_bounds:
  assumes "fits tot weights" and "i < length weights"
  shows "(weights ! i \<le> 0 \<longrightarrow> Largest tot weights ! i = 0) \<and>
    (0 < weights ! i \<longrightarrow>
      tot * weights ! i div pos_sum weights \<le> Largest tot weights ! i \<and>
      Largest tot weights ! i \<le> tot * weights ! i div pos_sum weights + 1)"
proof -
  have "i \<notin> fst ` set (winners tot weights)" if "weights ! i \<le> 0"
    using that set_winners[of tot weights] by (fastforce simp: fst_claims_of)
  then show ?thesis
    using Largest_nth[OF assms] by (auto simp: floor_share_def)
qed

theorem Largest_share_bounds_witness:
  "Largest 10 [3, 0, 1, 1] ! 1 = 0 \<and> 6 \<le> Largest 10 [3, 0, 1, 1] ! 0"
  using Largest_share_bounds[of 10 "[3, 0, 1, 1]" 1] Largest_share_bounds[of 10 "[3, 0, 1, 1]" 0]
  by (simp add: fits_def)

lemma sorted_take_drop:
  assumes "sorted_wrt P xs" "x \<in> set (take n xs)" "y \<in> set (drop n xs)"
  shows "P x y"
  using assms by (metis append_take_drop_id sorted_wrt_append)

text \<open>
  The leftover units go to the largest discarded fractions, ties to the lower index: if
  claimant \<open>i\<close> got a unit above its floor and claimant \<open>j\<close> did not, then \<open>i\<close>'s remainder
  is larger, or equal with \<open>i < j\<close>.
\<close>

theorem Largest_fair:
  assumes "fits tot weights" and "i < length weights" and "j < length weights"
    and "0 < weights ! i" and "0 < weights ! j"
    and "Largest tot weights ! i = tot * weights ! i div pos_sum weights + 1"
    and "Largest tot weights ! j = tot * weights ! j div pos_sum weights"
  shows "tot * weights ! j mod pos_sum weights < tot * weights ! i mod pos_sum weights \<or>
    (tot * weights ! j mod pos_sum weights = tot * weights ! i mod pos_sum weights \<and> i < j)"
proof -
  let ?cs = "sort_by claim_less (claims_of tot (pos_sum weights) 0 weights)"
  let ?c = "\<lambda>k. (k, tot * weights ! k mod pos_sum weights)"
  have "i \<in> fst ` set (winners tot weights)" and j: "j \<notin> fst ` set (winners tot weights)"
    using Largest_nth[OF assms(1)] assms by (auto simp: floor_share_def split: if_splits)
  then have ci: "?c i \<in> set (winners tot weights)"
    using set_winners[of tot weights] by (force simp: fst_claims_of)
  have "?c j \<in> set ?cs" using assms by (simp add: fst_claims_of)
  moreover have "?c j \<notin> set (winners tot weights)" using j by force
  ultimately have cj: "?c j \<in> set (drop (nat (tot - sum_list (map (floor_share tot (pos_sum weights)) weights))) ?cs)"
    unfolding winners_def by (metis UnE append_take_drop_id set_append)
  have "\<not> claim_less (?c j) (?c i)"
    using sorted_take_drop[OF claim_order.sorted_sort_by] ci cj unfolding winners_def by blast
  moreover have "i \<noteq> j" using ci j by force
  ultimately show ?thesis by (auto simp: claim_less_def split: if_splits)
qed

theorem Largest_fair_witness:
  "Largest 10 [3, 5, 4] = [3, 4, 3] \<and>
   ((10 * 5 mod 12 :: int) < 10 * 3 mod 12 \<or> (10 * 5 mod 12 :: int) = 10 * 3 mod 12 \<and> (0 :: nat) < 1)"
proof -
  have "Largest 10 [3, 5, 4] = [3, 4, 3]" by code_simp
  then show ?thesis using Largest_fair[of 10 "[3, 5, 4]" 0 1] by (simp add: fits_def)
qed

lemma pos_sum_replicate: "pos_sum (replicate n 1) = int n"
  by (induction n) auto

text \<open>
  \<open>Equal\<close> splits evenly: every share is the quotient or the quotient plus one, and the
  larger shares are the \<open>total mod n\<close> first ones.
\<close>

theorem Equal_split:
  assumes "0 < n" "0 < tot" "tot * n < 2 ^ 63 - 1" "i < nat n"
  shows "Equal tot n ! i = tot div n + (if int i < tot mod n then 1 else 0)"
proof -
  let ?ws = "replicate (nat n) (1 :: int)"
  have ps: "pos_sum ?ws = n" using assms by (simp add: pos_sum_replicate)
  have f: "fits tot ?ws" using assms by (simp add: fits_def ps)
  have lt: "nat (tot mod n) \<le> nat n" and r: "0 \<le> tot mod n" 
    using assms pos_mod_bound[of n tot] by (auto intro!: nat_mono simp del: pos_mod_bound)
  have lo: "nat (tot - sum_list (map (floor_share tot n) ?ws)) = nat (tot mod n)"
    using assms by (simp add: floor_share_def sum_list_replicate minus_mult_div_eq_mod)
  have cs: "claims_of tot n 0 ?ws = map (\<lambda>i. (i, tot mod n)) [0..<nat n]"
    by (simp add: claims_of_def enumerate_replicate_eq comp_def)
  have "sort_by claim_less (map (\<lambda>i. (i, r)) [k..<m]) = map (\<lambda>i. (i, r)) [k..<m]" for k m r
  proof (induction "m - k" arbitrary: k)
    case (Suc d)
    then have up: "[k..<m] = k # [Suc k..<m]" by (simp add: upt_conv_Cons)
    have IH: "sort_by claim_less (map (\<lambda>i. (i, r)) [Suc k..<m]) = map (\<lambda>i. (i, r)) [Suc k..<m]"
      using Suc by simp
    have "ins_by claim_less (k, r) (map (\<lambda>i. (i, r)) [Suc k..<m]) = map (\<lambda>i. (i, r)) [k..<m]"
      unfolding up by (cases "Suc k < m") (auto simp: claim_less_def upt_conv_Cons)
    then show ?case using IH by (simp add: up sort_by_def)
  qed (simp add: sort_by_def)
  then have "winners tot ?ws = take (nat (tot mod n)) (map (\<lambda>i. (i, tot mod n)) [0..<nat n])"
    unfolding winners_def ps lo cs by simp
  then have "fst ` set (winners tot ?ws) = {i. i < nat n \<and> int i < tot mod n}"
    using lt r take_upt[of 0 "nat (tot mod n)" "nat n"]
    by (auto simp: take_map image_image nat_less_iff zless_nat_eq_int_zless)
  then show ?thesis
    using Largest_nth[OF f, of i] assms by (simp add: Equal_def ps floor_share_def)
qed

theorem Equal_split_witness: "Equal 10 4 ! 1 = 3 \<and> Equal 10 4 ! 2 = 2"
  using Equal_split[of 4 10 1] Equal_split[of 4 10 2] by simp

end
