(* ===== verification/Idspace.thy ===== *)
theory Idspace
  imports GoPrelude
begin

text \<open>
  The package \<open>internal/idspace\<close>: the static partition of virtual user ids into one block
  per agent and one sub-block per worker. The lemmas show the blocks are disjoint, so ids
  allocated by counting up inside a block never collide across agents, nor across workers
  of one agent while there are at most a hundred of them.
\<close>

definition PerWorker :: int where "PerWorker = 100000"

definition PerAgent :: int where "PerAgent = PerWorker * 100"

definition AgentBase :: "int \<Rightarrow> int" where
  "AgentBase agentIndex =
     (let agentIndex = (if agentIndex < 0 then 0 else agentIndex) in i64 (agentIndex * PerAgent))"

definition WorkerBase :: "int \<Rightarrow> int \<Rightarrow> int" where
  "WorkerBase agentBase workerIndex =
     (let workerIndex = (if workerIndex < 0 then 0 else workerIndex);
          offset = go_mod (i64 (workerIndex * PerWorker)) PerAgent
      in i64 (agentBase + offset))"

text \<open>The ids a worker allocates: its base, then upwards.\<close>

definition worker_ids :: "int \<Rightarrow> int \<Rightarrow> int set" where
  "worker_ids a w = {WorkerBase (AgentBase a) w ..< WorkerBase (AgentBase a) w + PerWorker}"

lemma AgentBase_exact: "0 \<le> a \<Longrightarrow> a < 900000000000 \<Longrightarrow> AgentBase a = a * PerAgent"
  by (simp add: AgentBase_def PerAgent_def PerWorker_def i64_small)

lemma worker_offset:
  assumes "0 \<le> w" "w < 90000000000000"
  shows "go_mod (i64 (w * PerWorker)) PerAgent = (w mod 100) * PerWorker"
proof -
  have "go_mod (i64 (w * PerWorker)) PerAgent = w * PerWorker mod PerAgent"
    using assms by (simp add: i64_small go_mod_pos PerAgent_def PerWorker_def)
  also have "\<dots> = (w mod 100) * PerWorker"
    by (simp add: PerAgent_def mult.commute[of PerWorker 100] mult_mod_left)
  finally show ?thesis .
qed

lemma WorkerBase_exact:
  assumes "0 \<le> a" "a < 900000000000" "0 \<le> w" "w < 90000000000000"
  shows "WorkerBase (AgentBase a) w = a * PerAgent + (w mod 100) * PerWorker"
proof -
  have "0 \<le> w mod 100" "w mod 100 < 100" by simp_all
  then show ?thesis using assms
    by (simp add: WorkerBase_def AgentBase_exact worker_offset)
      (simp add: PerAgent_def PerWorker_def i64_small)
qed

lemma worker_ids_exact:
  assumes "0 \<le> a" "a < 900000000000" "0 \<le> w" "w < 90000000000000"
  shows "worker_ids a w = {a * 10000000 + (w mod 100) * 100000 ..< a * 10000000 + (w mod 100) * 100000 + 100000}"
  using WorkerBase_exact[OF assms] unfolding worker_ids_def by (simp add: PerAgent_def PerWorker_def)

lemma ranges_disjoint: "u \<le> y \<or> v \<le> (x :: int) \<Longrightarrow> {x ..< u} \<inter> {y ..< v} = {}"
  by auto

text \<open>
  Ids cannot collide across agents: for any two distinct agent indices, whatever their
  worker indices (also those past the hundred that fit a block, which wrap inside it), the
  id ranges of the two workers are disjoint and lie inside the agents' own blocks.
\<close>

theorem agents_disjoint:
  assumes "0 \<le> a" "a < 900000000000" "0 \<le> b" "b < 900000000000" "a \<noteq> b"
    and "0 \<le> v" "v < 90000000000000" "0 \<le> w" "w < 90000000000000"
  shows "worker_ids a v \<inter> worker_ids b w = {} \<and>
    worker_ids a v \<subseteq> {AgentBase a ..< AgentBase a + PerAgent}"
proof -
  have m: "0 \<le> v mod 100" "v mod 100 \<le> 99" "0 \<le> w mod 100" "w mod 100 \<le> 99" by simp_all
  have ab: "a + 1 \<le> b \<or> b + 1 \<le> a" using assms by auto
  have base: "AgentBase a = a * 10000000" "PerAgent = 10000000"
    using assms by (simp_all add: AgentBase_exact PerAgent_def PerWorker_def)
  have "worker_ids a v \<inter> worker_ids b w = {}"
    using m ab by (simp only: worker_ids_exact[OF assms(1,2,6,7)] worker_ids_exact[OF assms(3,4,8,9)])
      (rule ranges_disjoint, linarith)
  moreover have "worker_ids a v \<subseteq> {AgentBase a ..< AgentBase a + PerAgent}"
    using m unfolding worker_ids_exact[OF assms(1,2,6,7)] base by auto
  ultimately show ?thesis ..
qed

theorem agents_disjoint_witness: "worker_ids 3 7 \<inter> worker_ids 4 107 = {}"
  using agents_disjoint[of 3 4 7 107] by simp

text \<open>
  Within one agent, the first hundred workers have pairwise disjoint id ranges.
\<close>

theorem workers_disjoint:
  assumes "0 \<le> a" "a < 900000000000" "0 \<le> v" "v < 100" "0 \<le> w" "w < 100" "v \<noteq> w"
  shows "worker_ids a v \<inter> worker_ids a w = {}"
proof -
  have m: "v mod 100 = v" "w mod 100 = w" using assms by simp_all
  have vw: "v + 1 \<le> w \<or> w + 1 \<le> v" using assms by auto
  have e: "worker_ids a u = {a * 10000000 + (u mod 100) * 100000 ..< a * 10000000 + (u mod 100) * 100000 + 100000}"
    if "0 \<le> u" "u < 100" for u
    using that assms by (intro worker_ids_exact) auto
  show ?thesis unfolding e[OF assms(3,4)] e[OF assms(5,6)] m
    by (rule ranges_disjoint) (use vw in linarith)
qed

theorem workers_disjoint_witness: "worker_ids 3 7 \<inter> worker_ids 3 8 = {}"
  using workers_disjoint[of 3 7 8] by simp

end
