(* ===== verification/Coordinator.thy ===== *)
theory Coordinator
  imports LiveFeed GoFmt Apportion Idspace
begin

text \<open>
  \<open>internal/coordinator/coordinator.go\<close>, with the snapshots of \<open>stream.go\<close>: the control plane.
  The state is a record; runs are shared between the \<open>runs\<close> map and \<open>active\<close>, so they live in a
  memory of their own and the map holds addresses. A rebalance started with \<open>go\<close> is put on a list
  of pending ones and is a later step. \<open>now\<close> is the time of the call, the \<open>runtime\<close> record holds
  what the language leaves open (the order in which a map is walked) and the library functions
  used as parameters.
\<close>

subsection \<open>State\<close>

record CoordConfig =
  cf_HeartbeatInterval :: duration
  cf_MetricsInterval :: duration
  cf_AgentTimeout :: duration
  cf_StartDelay :: duration
  cf_Store :: StoreConfig
  cf_MaxRunHistory :: int

definition DefaultAgentTimeout :: duration where "DefaultAgentTimeout = 15 * time_Second"
definition DefaultStartDelay :: duration where "DefaultStartDelay = 2 * time_Second"
definition DefaultMaxRunHistory :: int where "DefaultMaxRunHistory = 50"
definition maxGlobalEvents :: nat where "maxGlobalEvents = 500"
definition stopTimeoutMargin :: duration where "stopTimeoutMargin = 20 * time_Second"

definition cf_applyDefaults :: "CoordConfig \<Rightarrow> CoordConfig" where
  "cf_applyDefaults c =
     (let c = (if cf_HeartbeatInterval c \<le> 0 then c\<lparr>cf_HeartbeatInterval := DefaultServerHeartbeatInterval\<rparr> else c);
          c = (if cf_MetricsInterval c \<le> 0 then c\<lparr>cf_MetricsInterval := DefaultMetricsInterval\<rparr> else c);
          c = (if cf_AgentTimeout c \<le> 0 then c\<lparr>cf_AgentTimeout := DefaultAgentTimeout\<rparr> else c);
          c = (if cf_StartDelay c \<le> 0 then c\<lparr>cf_StartDelay := DefaultStartDelay\<rparr> else c);
          c = (if cf_MaxRunHistory c \<le> 0 then c\<lparr>cf_MaxRunHistory := DefaultMaxRunHistory\<rparr> else c)
      in if sc_Resolution (cf_Store c) \<le> 0
         then c\<lparr>cf_Store := (cf_Store c)\<lparr>sc_Resolution := cf_MetricsInterval c\<rparr>\<rparr> else c)"

type_synonym rref = nat

record 'h Coordinator =
  co_cfg :: CoordConfig
  co_mem :: memory
  co_sessions :: registry
  co_agents :: "(string, AgentInfo) gomap"
  co_runmem :: "rref \<Rightarrow> 'h Run"
  co_runtop :: rref
  co_runs :: "(string, rref) gomap"
  co_order :: "string list"
  co_active :: "rref option"
  co_events :: "Event list"
  co_subs :: subscriberSet
  co_pending :: "rref list"

text \<open>The memories start with whatever they hold; nothing is read before it is allocated.\<close>

definition coord_New :: "memory \<Rightarrow> (rref \<Rightarrow> 'h Run) \<Rightarrow> CoordConfig \<Rightarrow> 'h Coordinator" where
  "coord_New mem runmem cfg =
     \<lparr>co_cfg = cf_applyDefaults cfg, co_mem = mem, co_sessions = NewSessionRegistry, co_agents = [], co_runmem = runmem,
      co_runtop = 0, co_runs = [], co_order = [], co_active = None, co_events = [], co_subs = no_subscribers,
      co_pending = []\<rparr>"

record 'h runtime =
  rt_hdr :: "'h hdr"
  rt_maphash :: "string \<Rightarrow> u64"
  rt_fmt_g :: "float64 \<Rightarrow> string"
  rt_fmt_4g :: "float64 \<Rightarrow> string" \<comment> \<open>\<open>%.4g\<close>\<close>
  rt_quote :: "string \<Rightarrow> string" \<comment> \<open>\<open>%q\<close>\<close>
  rt_series :: "'h series_order"
  rt_points :: points_order
  rt_sessions :: registry_order
  rt_parts :: "(string \<times> participant) list \<Rightarrow> (string \<times> participant) list"
  rt_agents :: "(string \<times> AgentInfo) list \<Rightarrow> (string \<times> AgentInfo) list"
  rt_subs :: "nat list \<Rightarrow> nat list"
  rt_accs :: "(string \<times> 'h accumulator) list \<Rightarrow> (string \<times> 'h accumulator) list"
  rt_fails :: "(failureKey \<times> failureEntry) list \<Rightarrow> (failureKey \<times> failureEntry) list"

definition upd_run :: "rref \<Rightarrow> ('h Run \<Rightarrow> 'h Run) \<Rightarrow> 'h Coordinator \<Rightarrow> 'h Coordinator" where
  "upd_run p f c = c\<lparr>co_runmem := (co_runmem c)(p := f (co_runmem c p))\<rparr>"

definition event :: "string \<Rightarrow> string \<Rightarrow> string \<Rightarrow> Event" where
  "event level source message =
     \<lparr>ev_Time = zero_time, ev_Level = level, ev_Source = source, ev_Message = message, ev_Fields = []\<rparr>"

definition send_error_text :: "'h runtime \<Rightarrow> send_error \<Rightarrow> string" where
  "send_error_text E e =
     (case e of ErrSessionClosed \<Rightarrow> ''control session is closed''
      | QueueFull i \<Rightarrow> ''control queue for node '' @ rt_quote E i @ '' is full'')"

subsection \<open>Accessors\<close>

definition Lookup :: "'h Coordinator \<Rightarrow> string \<Rightarrow> rref option" where
  "Lookup c runID = map_of (co_runs c) runID"

definition ActiveRun :: "'h Coordinator \<Rightarrow> rref option" where
  "ActiveRun c = co_active c"

definition Agents :: "'h runtime \<Rightarrow> 'h Coordinator \<Rightarrow> AgentInfo list" where
  "Agents E c = sort_by (\<lambda>a b. ai_ID a < ai_ID b) (map snd (rt_agents E (co_agents c)))"

definition profileOf :: "'h Run \<Rightarrow> string" where
  "profileOf run = (case NewExecutor (tp_load (rn_plan run)) of Inl _ \<Rightarrow> [] | Inr executor \<Rightarrow> Describe executor)"

definition Runs :: "'h runtime \<Rightarrow> go_time \<Rightarrow> 'h Coordinator \<Rightarrow> RunState.Summary list" where
  "Runs E now c =
     map (\<lambda>p. run_Summary now (rt_parts E) (co_runmem c p) (profileOf (co_runmem c p)))
       (List.map_filter (\<lambda>i. map_of (co_runs c) i) (rev (co_order c)))"

definition GlobalEvents :: "'h Coordinator \<Rightarrow> Event list" where
  "GlobalEvents c = co_events c"

definition healthySessions :: "'h runtime \<Rightarrow> 'h Coordinator \<Rightarrow> sref list" where
  "healthySessions E c = filter (\<lambda>p. \<not> se_closed (co_mem c p)) (registry_All (rt_sessions E) (co_sessions c))"

subsection \<open>Event logs\<close>

definition co_publish :: "'h runtime \<Rightarrow> 'h Coordinator \<Rightarrow> Update \<Rightarrow> 'h Coordinator" where
  "co_publish E c u = c\<lparr>co_subs := publish (rt_subs E) (co_subs c) u\<rparr>"

definition record_event :: "'h runtime \<Rightarrow> go_time \<Rightarrow> 'h Coordinator \<Rightarrow> rref \<Rightarrow> Event \<Rightarrow> 'h Coordinator" where
  "record_event E now c p e =
     (let e = stamp now e in co_publish E (upd_run p (\<lambda>r. addEvent now r e) c) (event_update e))"

definition recordGlobal :: "'h runtime \<Rightarrow> go_time \<Rightarrow> 'h Coordinator \<Rightarrow> Event \<Rightarrow> 'h Coordinator" where
  "recordGlobal E now c e =
     (let e = stamp now e in
      co_publish E (c\<lparr>co_events := append_bounded maxGlobalEvents (co_events c) e\<rparr>) (event_update e))"

subsection \<open>History\<close>

fun trim_order :: "int \<Rightarrow> (rref \<Rightarrow> 'h Run) \<Rightarrow> (string, rref) gomap \<Rightarrow> string list \<Rightarrow> (string, rref) gomap \<times> string list" where
  "trim_order limit mem runs [] = (runs, [])"
| "trim_order limit mem runs (oldest # rest) =
     (if int (length (oldest # rest)) > limit then
        (case map_of runs oldest of
           Some p \<Rightarrow> if Active (mem p) then (runs, oldest # rest) else trim_order limit mem (gdel oldest runs) rest
         | None \<Rightarrow> trim_order limit mem (gdel oldest runs) rest)
      else (runs, oldest # rest))"

definition trimHistoryLocked :: "'h Coordinator \<Rightarrow> 'h Coordinator" where
  "trimHistoryLocked c =
     (let (runs, order) = trim_order (cf_MaxRunHistory (co_cfg c)) (co_runmem c) (co_runs c) (co_order c)
      in c\<lparr>co_runs := runs, co_order := order\<rparr>)"

subsection \<open>Handing out work\<close>

definition plan_rate :: "test_plan \<Rightarrow> int" where
  "plan_rate plan = (case tp_load plan of Some l \<Rightarrow> uint (lp_max_iterations_per_second l) | None \<Rightarrow> 0)"

definition plan_iterations :: "test_plan \<Rightarrow> int" where
  "plan_iterations plan = (case tp_load plan of Some l \<Rightarrow> uint (lp_iterations l) | None \<Rightarrow> 0)"

definition by_ID :: "memory \<Rightarrow> sref list \<Rightarrow> sref list" where
  "by_ID mem ps = sort_by (\<lambda>p q. se_ID (mem p) < se_ID (mem q)) ps"

definition session_weights :: "memory \<Rightarrow> sref list \<Rightarrow> int list" where
  "session_weights mem ps = map (\<lambda>p. max 1 (uint (nh_MaxVus (se_Hello (mem p))))) ps"

definition start_msg :: "'h Run \<Rightarrow> nat \<Rightarrow> nat \<Rightarrow> int \<Rightarrow> int \<Rightarrow> u64 \<Rightarrow> StartRun" where
  "start_msg run n i vus rate iters =
     \<lparr>sr_RunId = rn_id run, sr_Plan = rn_plan run, sr_VuQuota = word_of_int vus,
      sr_WorkerCount = tp_workers_per_agent (rn_plan run), sr_IterationRateQuota = word_of_int rate,
      sr_IterationQuota = iters, sr_StartAt = rn_startAt run, sr_ShardIndex = of_nat i, sr_ShardCount = of_nat n,
      sr_VuIdBase = AgentBase (int i)\<rparr>"

text \<open>The loop of \<open>dispatch\<close> at the agent with index \<open>i\<close>.\<close>

definition dispatch_one ::
  "'h runtime \<Rightarrow> rref \<Rightarrow> nat \<Rightarrow> int list \<Rightarrow> int list \<Rightarrow> int list \<Rightarrow> 'h Coordinator \<Rightarrow> nat \<times> sref \<Rightarrow> participant \<times> 'h Coordinator" where
  "dispatch_one E p n vuShares rateShares iterShares c ip =
     (case ip of (i, s) \<Rightarrow>
        let run = co_runmem c p; sid = se_ID (co_mem c s);
            part = \<lparr>pa_AgentID = sid, pa_VUQuota = vuShares ! i, pa_RateQuota = rateShares ! i, pa_ShardIndex = of_nat i,
                    pa_Phase = PhasePending, pa_Message = [], pa_Dispatched = True\<rparr>;
            msg = start_msg run n i (vuShares ! i) (rateShares ! i)
                    (if plan_iterations (rn_plan run) > 0 then word_of_int (iterShares ! i) else 0);
            (err, mem) = session_Send (co_mem c) s (NodeDown_StartRun msg);
            c = c\<lparr>co_mem := mem\<rparr>
        in case err of
             Some e \<Rightarrow> (part\<lparr>pa_Phase := PhaseFailed, pa_Message := send_error_text E e\<rparr>, c)
           | None \<Rightarrow> (part, c\<lparr>co_agents := map (\<lambda>(k, info). (k, if k = sid then info\<lparr>ai_VUQuota := vuShares ! i\<rparr> else info)) (co_agents c)\<rparr>))"

fun send_all :: "('c \<Rightarrow> 'x \<Rightarrow> participant \<times> 'c) \<Rightarrow> 'c \<Rightarrow> 'x list \<Rightarrow> participant list \<times> 'c" where
  "send_all f c [] = ([], c)"
| "send_all f c (x # xs) = (let (part, c) = f c x; (parts, c) = send_all f c xs in (part # parts, c))"

definition dispatch :: "'h runtime \<Rightarrow> 'h Coordinator \<Rightarrow> rref \<Rightarrow> sref list \<Rightarrow> int \<Rightarrow> participant list \<times> 'h Coordinator" where
  "dispatch E c p sessions peak =
     (let sessions = by_ID (co_mem c) sessions;
          weights = session_weights (co_mem c) sessions;
          plan = rn_plan (co_runmem c p);
          vuShares = Largest peak weights;
          rateShares = Largest (plan_rate plan) weights;
          iterShares = Largest (min (plan_iterations plan) (2 ^ 31)) weights
      in send_all (dispatch_one E p (length sessions) vuShares rateShares iterShares) c (enumerate 0 sessions))"

text \<open>The loop of \<open>rebalance\<close>; \<open>known\<close> are the participants the run was dispatched to.\<close>

definition rebalance_one ::
  "'h runtime \<Rightarrow> rref \<Rightarrow> nat \<Rightarrow> duration \<Rightarrow> (string \<Rightarrow> bool) \<Rightarrow> int list \<Rightarrow> int list \<Rightarrow> 'h Coordinator \<Rightarrow> nat \<times> sref \<Rightarrow>
   participant \<times> 'h Coordinator" where
  "rebalance_one E p n ramp known vuShares rateShares c ip =
     (case ip of (i, s) \<Rightarrow>
        let run = co_runmem c p; sid = se_ID (co_mem c s);
            part = \<lparr>pa_AgentID = sid, pa_VUQuota = vuShares ! i, pa_RateQuota = rateShares ! i, pa_ShardIndex = of_nat i,
                    pa_Phase = PhaseRunning, pa_Message = [], pa_Dispatched = True\<rparr>;
            msg = (if known sid
              then NodeDown_SetQuota \<lparr>sq_RunId = rn_id run, sq_VuQuota = word_of_int (vuShares ! i),
                     sq_IterationRateQuota = word_of_int (rateShares ! i), sq_Ramp = ramp\<rparr>
              else NodeDown_StartRun (start_msg run n i (vuShares ! i) (rateShares ! i) 0));
            (err, mem) = session_Send (co_mem c) s msg;
            c = c\<lparr>co_mem := mem\<rparr>
        in (case err of Some e \<Rightarrow> part\<lparr>pa_Message := send_error_text E e\<rparr> | None \<Rightarrow> part, c))"

definition known_to :: "'h Run \<Rightarrow> string \<Rightarrow> bool" where
  "known_to run i = (case map_of (rn_participants run) i of Some part \<Rightarrow> pa_Dispatched part | None \<Rightarrow> False)"

definition rebalance :: "'h runtime \<Rightarrow> 'h Coordinator \<Rightarrow> rref \<Rightarrow> 'h Coordinator" where
  "rebalance E c p =
     (if \<not> Active (co_runmem c p) then c
      else let sessions = healthySessions E c in
        if sessions = [] then c
        else
          let sessions = by_ID (co_mem c) sessions;
              peak = rn_peakVUs (co_runmem c p); ramp = rn_scaleRamp (co_runmem c p);
              c = upd_run p (\<lambda>r. r\<lparr>rn_scaleRamp := 0\<rparr>) c;
              known = known_to (co_runmem c p);
              weights = session_weights (co_mem c) sessions;
              vuShares = Largest peak weights;
              rateShares = Largest (plan_rate (rn_plan (co_runmem c p))) weights;
              (parts, c) = send_all (rebalance_one E p (length sessions) ramp known vuShares rateShares) c (enumerate 0 sessions)
          in upd_run p (\<lambda>r. setParticipants r parts) c)"

subsection \<open>The run lifecycle\<close>

datatype start_error =
    PlanRejected string | BadProfile executor_error | NoAgents | RunInProgress string | OutOfMemory

text \<open>
  \<open>plan\<close> is the result of \<open>cfg.Plan()\<close> and \<open>runID\<close> that of \<open>NewRunID\<close>, a time stamp with a random
  suffix. \<open>OutOfMemory\<close> is the panic of \<open>NewStore\<close> for a ring that cannot be allocated.
\<close>

definition StartRun ::
  "'h runtime \<Rightarrow> go_time \<Rightarrow> 'h Coordinator \<Rightarrow> string \<Rightarrow> string \<Rightarrow> string + test_plan \<Rightarrow> string \<Rightarrow> (start_error + rref) \<times> 'h Coordinator" where
  "StartRun E now c runID name plan sourcePath =
     (case plan of
        Inl e \<Rightarrow> (Inl (PlanRejected e), c)
      | Inr plan \<Rightarrow>
          (case NewExecutor (tp_load plan) of
             Inl e \<Rightarrow> (Inl (BadProfile e), c)
           | Inr executor \<Rightarrow>
               let sessions = healthySessions E c in
               if sessions = [] then (Inl NoAgents, c)
               else
                 (case (case co_active c of Some a \<Rightarrow> if Active (co_runmem c a) then Some a else None | None \<Rightarrow> None) of
                    Some a \<Rightarrow> (Inl (RunInProgress (rn_id (co_runmem c a))), c)
                  | None \<Rightarrow>
                      (case NewStore (rt_hdr E) (cf_Store (co_cfg c)) of
                         None \<Rightarrow> (Inl OutOfMemory, c)
                       | Some store \<Rightarrow>
                           let run = (newRun now runID (sanitiseName name) plan store (Peak executor) sourcePath)
                                       \<lparr>rn_startAt := now + cf_StartDelay (co_cfg c)\<rparr>;
                               p = co_runtop c;
                               c = c\<lparr>co_runmem := (co_runmem c)(p := run), co_runtop := Suc p, co_runs := gput runID p (co_runs c),
                                     co_order := co_order c @ [runID], co_active := Some p\<rparr>;
                               c = trimHistoryLocked c;
                               (parts, c) = dispatch E c p sessions (Peak executor);
                               c = upd_run p (\<lambda>r. setParticipants r parts) c;
                               c = upd_run p (\<lambda>r. snd (setPhase now r RUN_PHASE_STARTING [])) c;
                               c = record_event E now c p (event ''info'' ''coordinator''
                                     (''run '' @ runID @ '' starting across '' @ fmt_d (int (length parts)) @ '' agent(s): '' @ Describe executor))
                           in (Inr p, c)))))"

datatype run_error = NoRun string | AlreadyFinished string | NegativeVUs | NegativeRamp

definition StopRun :: "'h runtime \<Rightarrow> go_time \<Rightarrow> 'h Coordinator \<Rightarrow> string \<Rightarrow> bool \<Rightarrow> string \<Rightarrow> run_error option \<times> 'h Coordinator" where
  "StopRun E now c runID graceful reason =
     (case Lookup c runID of
        None \<Rightarrow> (Some (NoRun runID), c)
      | Some p \<Rightarrow>
          if \<not> Active (co_runmem c p) then (Some (AlreadyFinished runID), c)
          else
            let reason = (if reason = [] then ''stopped by operator'' else reason);
                c = upd_run p (\<lambda>r. snd (setPhase now r RUN_PHASE_STOPPING reason)) c;
                c = record_event E now c p (event ''info'' ''coordinator'' (''stopping: '' @ reason));
                mem = snd (Broadcast (rt_sessions E) (co_mem c) (co_sessions c)
                  (NodeDown_StopRun \<lparr>sp_RunId = runID, sp_Graceful = graceful, sp_Reason = reason\<rparr>))
            in (None, c\<lparr>co_mem := mem\<rparr>))"

definition ScaleRun :: "'h runtime \<Rightarrow> go_time \<Rightarrow> 'h Coordinator \<Rightarrow> string \<Rightarrow> int \<Rightarrow> duration \<Rightarrow> run_error option \<times> 'h Coordinator" where
  "ScaleRun E now c runID peakVUs ramp =
     (if peakVUs < 0 then (Some NegativeVUs, c)
      else if ramp < 0 then (Some NegativeRamp, c)
      else case Lookup c runID of
        None \<Rightarrow> (Some (NoRun runID), c)
      | Some p \<Rightarrow>
          if \<not> Active (co_runmem c p) then (Some (AlreadyFinished runID), c)
          else
            let previous = rn_peakVUs (co_runmem c p);
                c = upd_run p (\<lambda>r. r\<lparr>rn_peakVUs := peakVUs, rn_scaleRamp := ramp\<rparr>) c;
                c = rebalance E c p;
                message = ''peak virtual users changed from '' @ fmt_d previous @ '' to '' @ fmt_d peakVUs;
                message = (if ramp > 0 then message @ '', ramping over '' @ duration_String ramp else message)
            in (None, record_event E now c p (event ''info'' ''coordinator'' message)))"

definition judge :: "'h runtime \<Rightarrow> 'h Coordinator \<Rightarrow> rref \<Rightarrow> ThresholdResult list \<times> 'h Coordinator" where
  "judge E c p =
     (let run = co_runmem c p;
          (results, store) = EvaluateThresholds (rt_hdr E) (rt_series E) (rt_fmt_g E) (rn_store run) (tp_thresholds (rn_plan run))
      in (results, upd_run p (\<lambda>r. setThresholds (r\<lparr>rn_store := store\<rparr>) results) c))"

definition finish :: "'h runtime \<Rightarrow> go_time \<Rightarrow> 'h Coordinator \<Rightarrow> rref \<Rightarrow> run_phase \<Rightarrow> string \<Rightarrow> 'h Coordinator" where
  "finish E now c p phase reason =
     (let (_, c) = judge E c p; (taken, run) = setPhase now (co_runmem c p) phase reason in
      if \<not> taken then c
      else let c = upd_run p (\<lambda>_. run) c;
               level = (if phase \<noteq> RUN_PHASE_COMPLETED \<or> rn_breached run then ''warn'' else ''info'')
           in record_event E now c p (event level ''coordinator'' (''run '' @ PhaseName phase @ '': '' @ reason)))"

subsection \<open>Periodic maintenance\<close>

definition all_done :: "participant list \<Rightarrow> bool" where
  "all_done parts \<longleftrightarrow> (\<forall>x \<in> set parts. pa_Phase x = PhaseCompleted \<or> pa_Phase x = PhaseFailed)"

definition checkCompletion :: "'h runtime \<Rightarrow> go_time \<Rightarrow> 'h Coordinator \<Rightarrow> rref \<Rightarrow> 'h Coordinator" where
  "checkCompletion E now c p =
     (let parts = Participants (rt_parts E) (co_runmem c p);
          failures = length (filter (\<lambda>x. pa_Phase x = PhaseFailed) parts)
      in if parts = [] \<or> \<not> all_done parts then c
         else if failures = length parts then finish E now c p RUN_PHASE_FAILED ''every agent reported a failure''
         else finish E now c p RUN_PHASE_COMPLETED
           (if failures > 0
            then ''all agents finished, '' @ fmt_d (int failures) @ '' of '' @ fmt_d (int (length parts)) @ '' reported a failure''
            else ''all agents finished''))"

definition checkStopTimeout :: "'h runtime \<Rightarrow> go_time \<Rightarrow> 'h Coordinator \<Rightarrow> rref \<Rightarrow> 'h Coordinator" where
  "checkStopTimeout E now c p =
     (let stopping = StoppingFor now (co_runmem c p);
          limit = i64 (GraceBudget (co_runmem c p) + stopTimeoutMargin)
      in if stopping = 0 then c
         else if stopping < limit then c
         else finish E now c p RUN_PHASE_ABORTED
           (''stopped, but '' @ duration_String limit @ '' passed without every agent confirming''))"

definition timed_out :: "go_time \<Rightarrow> 'h Coordinator \<Rightarrow> sref \<Rightarrow> bool" where
  "timed_out now c s \<longleftrightarrow> \<not> (time_Sub now (se_lastSeen (co_mem c s)) \<le> cf_AgentTimeout (co_cfg c))"

definition expireAgents :: "'h runtime \<Rightarrow> go_time \<Rightarrow> 'h Coordinator \<Rightarrow> 'h Coordinator" where
  "expireAgents E now c =
     (let lost = filter (timed_out now c) (registry_All (rt_sessions E) (co_sessions c));
          ids = map (\<lambda>s. se_ID (co_mem c s)) lost;
          c = c\<lparr>co_mem := foldl session_Close (co_mem c) lost\<rparr>
      in if lost = [] then c
         else case co_active c of
             None \<Rightarrow> c
           | Some p \<Rightarrow>
               rebalance E (record_event E now c p (event ''error'' ''coordinator''
                 (''lost contact with agent(s) '' @ fmt_v ids @ ''; redistributing their load''))) p)"

definition abort_if_requested :: "'h runtime \<Rightarrow> go_time \<Rightarrow> ThresholdResult list \<Rightarrow> 'h Coordinator \<Rightarrow> rref \<Rightarrow> 'h Coordinator" where
  "abort_if_requested E now results c p =
     (case AbortRequested results of
        None \<Rightarrow> c
      | Some breach \<Rightarrow>
          if \<not> Active (co_runmem c p) then c
          else
            let reason = ''threshold breached: '' @ tr_Description breach @ '' (actual '' @ rt_fmt_4g E (tr_Actual breach) @ '')'';
                c = record_event E now c p (event ''error'' ''threshold'' reason)
            in snd (StopRun E now c (rn_id (co_runmem c p)) True reason))"

definition tick_update :: "'h runtime \<Rightarrow> go_time \<Rightarrow> 'h Coordinator \<Rightarrow> rref \<Rightarrow> TickDTO list \<Rightarrow> ThresholdResult list \<Rightarrow> Update" where
  "tick_update E now c p ticks results =
     \<lparr>up_Type = UpdateTick, up_Run = Some (run_Summary now (rt_parts E) (co_runmem c p) (profileOf (co_runmem c p))),
      up_Agents = Agents E c, up_Ticks = ticks, up_Thresholds = results, up_Events = []\<rparr>"

definition co_tick :: "'h runtime \<Rightarrow> go_time \<Rightarrow> 'h Coordinator \<Rightarrow> 'h Coordinator" where
  "co_tick E now c =
     (let c = expireAgents E now c in
      case co_active c of
        None \<Rightarrow> co_publish E c \<lparr>up_Type = UpdateTick, up_Run = None, up_Agents = Agents E c, up_Ticks = [],
                  up_Thresholds = [], up_Events = []\<rparr>
      | Some p \<Rightarrow>
          let c = upd_run p (\<lambda>r. r\<lparr>rn_store := CloseStale (rt_hdr E) (rn_store r) now\<rparr>) c;
              (results, c) = judge E c p;
              c = abort_if_requested E now results c p;
              c = (if Active (co_runmem c p) then checkStopTimeout E now (checkCompletion E now c p) p else c);
              (ticks, run) = ticksSince (rt_points E) (sc_Resolution (cf_Store (co_cfg c))) (co_runmem c p);
              u = tick_update E now c p ticks results
          in co_publish E (upd_run p (\<lambda>_. run) c) u)"

subsection \<open>The session handler\<close>

definition spawn_rebalance :: "'h Coordinator \<Rightarrow> 'h Coordinator" where
  "spawn_rebalance c = (case co_active c of Some p \<Rightarrow> c\<lparr>co_pending := co_pending c @ [p]\<rparr> | None \<Rightarrow> c)"

definition agent_info :: "Session \<Rightarrow> AgentInfo" where
  "agent_info s =
     \<lparr>ai_ID = se_ID s, ai_Hostname = nh_Hostname (se_Hello s), ai_Version = nh_Version (se_Hello s),
      ai_Cores = nh_CpuCores (se_Hello s), ai_MaxWorkers = nh_MaxWorkers (se_Hello s), ai_MaxVUs = nh_MaxVus (se_Hello s),
      ai_Labels = nh_Labels (se_Hello s), ai_RemoteAddr = se_RemoteAddr s, ai_JoinedAt = se_JoinedAt s,
      ai_LastSeen = se_lastSeen s, ai_ActiveVUs = 0, ai_HealthyWorkers = 0, ai_Healthy = True, ai_VUQuota = 0,
      ai_CPUPercent = Fin 0, ai_MemBytes = 0, ai_Workers = []\<rparr>"

definition OnJoin :: "'h runtime \<Rightarrow> go_time \<Rightarrow> 'h Coordinator \<Rightarrow> sref \<Rightarrow> string option \<times> 'h Coordinator" where
  "OnJoin E now c s =
     (let (_, mem, reg) = registry_Add (co_mem c) (co_sessions c) s;
          c = c\<lparr>co_mem := mem, co_sessions := reg, co_agents := gput (se_ID (mem s)) (agent_info (mem s)) (co_agents c)\<rparr>;
          c = recordGlobal E now c (event ''info'' ''cluster''
                (''agent '' @ se_ID (mem s) @ '' joined from '' @ se_RemoteAddr (mem s)))
      in (None, spawn_rebalance c))"

definition OnLeave :: "'h runtime \<Rightarrow> go_time \<Rightarrow> 'h Coordinator \<Rightarrow> sref \<Rightarrow> 'h Coordinator" where
  "OnLeave E now c s =
     (let (was, reg) = registry_Remove (co_mem c) (co_sessions c) s in
      if \<not> was then c
      else
        let sid = se_ID (co_mem c s);
            c = c\<lparr>co_sessions := reg, co_agents := gdel sid (co_agents c)\<rparr>;
            c = recordGlobal E now c (event ''warn'' ''cluster'' (''agent '' @ sid @ '' disconnected''))
        in spawn_rebalance c)"

definition worker_info :: "WorkerStats \<Rightarrow> WorkerInfo" where
  "worker_info w = \<lparr>wi_ID = ws_WorkerId w, wi_Index = ws_Index w, wi_ActiveVUs = ws_ActiveVus w,
     wi_CPUPercent = ws_CpuPercent w, wi_MemBytes = ws_MemBytes w\<rparr>"

definition OnHeartbeat :: "'h Coordinator \<Rightarrow> sref \<Rightarrow> NodeHeartbeat \<Rightarrow> 'h Coordinator" where
  "OnHeartbeat c s beat =
     (let sid = se_ID (co_mem c s) in
      case map_of (co_agents c) sid of
        None \<Rightarrow> c
      | Some info \<Rightarrow>
          c\<lparr>co_agents := gput sid
             (info\<lparr>ai_LastSeen := se_lastSeen (co_mem c s), ai_ActiveVUs := hb_ActiveVus beat,
                   ai_HealthyWorkers := hb_HealthyWorkers beat, ai_Healthy := True, ai_CPUPercent := hb_CpuPercent beat,
                   ai_MemBytes := hb_MemBytes beat,
                   ai_Workers := sort_by (\<lambda>a b. wi_Index a < wi_Index b) (map worker_info (hb_Workers beat))\<rparr>)
             (co_agents c)\<rparr>)"

definition OnMetrics :: "'h runtime \<Rightarrow> 'h Coordinator \<Rightarrow> MetricBatch \<Rightarrow> 'h Coordinator" where
  "OnMetrics E c batch =
     (case Lookup c (mb_RunId batch) of
        None \<Rightarrow> c
      | Some p \<Rightarrow> upd_run p (\<lambda>r. r\<lparr>rn_store := snd (Ingest (rt_hdr E) (rt_maphash E) (rn_store r) (Some batch))\<rparr>) c)"

definition OnRunStatus :: "'h runtime \<Rightarrow> go_time \<Rightarrow> 'h Coordinator \<Rightarrow> sref \<Rightarrow> RunStatusUpdate \<Rightarrow> 'h Coordinator" where
  "OnRunStatus E now c s update =
     (case Lookup c (ru_RunId update) of
        None \<Rightarrow> c
      | Some p \<Rightarrow>
          let sid = se_ID (co_mem c s); phase = PhaseName (ru_Phase update);
              c = upd_run p (\<lambda>r. updateParticipant r sid phase (ru_Message update)) c;
              c = (if ru_Phase update = RUN_PHASE_RUNNING
                   then upd_run p (\<lambda>r. snd (setPhase now r RUN_PHASE_RUNNING [])) c else c)
          in if ru_Phase update = RUN_PHASE_FAILED
             then record_event E now c p (event ''error'' sid (ru_Message update)) else c)"

fun level_name :: "log_level \<Rightarrow> string" where
  "level_name LOG_LEVEL_DEBUG = ''debug''"
| "level_name LOG_LEVEL_WARN = ''warn''"
| "level_name LOG_LEVEL_ERROR = ''error''"
| "level_name _ = ''info''"

definition OnLog :: "'h runtime \<Rightarrow> go_time \<Rightarrow> 'h Coordinator \<Rightarrow> sref \<Rightarrow> LogEvent \<Rightarrow> 'h Coordinator" where
  "OnLog E now c s e =
     (let entry = \<lparr>ev_Time = (case le_Time e of Some t \<Rightarrow> t | None \<Rightarrow> 0), ev_Level = level_name (le_Level e),
            ev_Source = (if le_NodeId e = [] then se_ID (co_mem c s) else le_NodeId e),
            ev_Message = le_Message e, ev_Fields = le_Fields e\<rparr>
      in case Lookup c (le_RunId e) of
           Some p \<Rightarrow> record_event E now c p entry
         | None \<Rightarrow> recordGlobal E now c entry)"

definition coordinator_handler :: "'h runtime \<Rightarrow> 'h Coordinator SessionHandler" where
  "coordinator_handler E =
     \<lparr>h_memory = co_mem, h_update = (\<lambda>f c. c\<lparr>co_mem := f (co_mem c)\<rparr>),
      h_OnJoin = OnJoin E, h_OnLeave = OnLeave E, h_OnHeartbeat = (\<lambda>now. OnHeartbeat),
      h_OnMetrics = (\<lambda>now c s. OnMetrics E c), h_OnRunStatus = OnRunStatus E, h_OnLog = OnLog E\<rparr>"

subsection \<open>Snapshots\<close>

text \<open>Without the build information, which does not depend on the state.\<close>

record Snapshot =
  sn_Run :: "RunState.Summary option"
  sn_Runs :: "RunState.Summary list"
  sn_Agents :: "AgentInfo list"
  sn_Ticks :: "TickDTO list"
  sn_Series :: "SeriesSummary list"
  sn_Events :: "Event list"
  sn_Resolution :: float64
  sn_Totals :: "(string, SeriesSummary) gomap"
  sn_Endpoints :: "EndpointSummary list"
  sn_Failures :: "FailureSample list"

definition all_ticks :: "'h runtime \<Rightarrow> 'h Coordinator \<Rightarrow> rref \<Rightarrow> TickDTO list" where
  "all_ticks E c p =
     map (\<lambda>b. bucketToTick (rt_points E) b (sc_Resolution (cf_Store (co_cfg c)))) (Timeline (rn_store (co_runmem c p)) zero_time)"

definition run_snapshot :: "'h runtime \<Rightarrow> go_time \<Rightarrow> 'h Coordinator \<Rightarrow> rref \<Rightarrow> Event list \<Rightarrow> Snapshot" where
  "run_snapshot E now c p events =
     (let run = co_runmem c p; store = rn_store run; L = rt_hdr E; ord = rt_series E in
      \<lparr>sn_Run = Some (run_Summary now (rt_parts E) run (profileOf run)), sn_Runs = Runs E now c, sn_Agents = Agents E c,
       sn_Ticks = all_ticks E c p, sn_Series = StoreViews.Summary L ord store, sn_Events = events,
       sn_Resolution = duration_Seconds (sc_Resolution (cf_Store (co_cfg c))), sn_Totals = Totals L ord store,
       sn_Endpoints = Endpoints L ord (rt_accs E) store, sn_Failures = store_Failures (rt_fails E) store\<rparr>)"

definition coord_Snapshot :: "'h runtime \<Rightarrow> go_time \<Rightarrow> 'h Coordinator \<Rightarrow> Snapshot" where
  "coord_Snapshot E now c =
     (case co_active c of
        None \<Rightarrow> \<lparr>sn_Run = None, sn_Runs = Runs E now c, sn_Agents = Agents E c, sn_Ticks = [], sn_Series = [],
                 sn_Events = GlobalEvents c, sn_Resolution = duration_Seconds (sc_Resolution (cf_Store (co_cfg c))),
                 sn_Totals = [], sn_Endpoints = [], sn_Failures = []\<rparr>
      | Some p \<Rightarrow> run_snapshot E now c p (GlobalEvents c @ rn_events (co_runmem c p)))"

definition RunSnapshot :: "'h runtime \<Rightarrow> go_time \<Rightarrow> 'h Coordinator \<Rightarrow> string \<Rightarrow> Snapshot option" where
  "RunSnapshot E now c runID = map_option (\<lambda>p. run_snapshot E now c p (rn_events (co_runmem c p))) (Lookup c runID)"

subsection \<open>The coordinator over time\<close>

text \<open>
  Everything that can happen to a coordinator: the API's calls, the ticker, the connections'
  goroutines, the rebalances they spawned, and the live clients.
\<close>

datatype co_op =
    C_StartRun string string "string + test_plan" string
  | C_StopRun string bool string
  | C_ScaleRun string int duration
  | C_tick
  | C_join ServerConfig string "string + NodeUp" sref
  | C_receive sref NodeUp
  | C_pump sref
  | C_leave sref
  | C_rebalance nat
  | C_subscriber sub_op

fun co_apply :: "'h runtime \<Rightarrow> 'h Coordinator \<Rightarrow> go_time \<times> co_op \<Rightarrow> 'h Coordinator" where
  "co_apply E c (now, C_StartRun i name plan source) = snd (StartRun E now c i name plan source)"
| "co_apply E c (now, C_StopRun i graceful reason) = snd (StopRun E now c i graceful reason)"
| "co_apply E c (now, C_ScaleRun i peak ramp) = snd (ScaleRun E now c i peak ramp)"
| "co_apply E c (now, C_tick) = co_tick E now c"
| "co_apply E c (now, C_join cfg peer first s) = snd (join_open (coordinator_handler E) cfg now peer first s c)"
| "co_apply E c (now, C_receive s msg) = receive_one (coordinator_handler E) now s c msg"
| "co_apply E c (now, C_pump s) = c\<lparr>co_mem := snd (send_one (co_mem c) s)\<rparr>"
| "co_apply E c (now, C_leave s) = join_close (coordinator_handler E) now s c"
| "co_apply E c (now, C_rebalance i) =
     (if i < length (co_pending c)
      then rebalance E (c\<lparr>co_pending := take i (co_pending c) @ drop (Suc i) (co_pending c)\<rparr>) (co_pending c ! i) else c)"
| "co_apply E c (now, C_subscriber op) = c\<lparr>co_subs := subs_apply (rt_subs E) (co_subs c) op\<rparr>"

end
