(* ===== verification/VirtualUser.thy ===== *)
theory VirtualUser
  imports Recorder GoFmt
begin

text \<open>
  \<open>pkg/loadwave/vu.go\<close>, \<open>scenario.go\<close> and \<open>pause.go\<close>: what a scenario sees. A virtual user is
  touched by one goroutine only, so its methods are functions on a record; the observations they
  make are returned as calls to the recorder. The lemmas show that the shards of a run partition
  shared data, what an iteration reports, and that a pause stays in its range.
\<close>

subsection \<open>Shards\<close>

record Shard =
  sh_Index :: u32
  sh_Count :: u32

definition Owns :: "Shard \<Rightarrow> int \<Rightarrow> bool" where
  "Owns s i = (if sh_Count s \<le> 1 then True else word_of_int i mod sh_Count s = sh_Index s)"

definition Slice :: "Shard \<Rightarrow> 'a list \<Rightarrow> 'a list" where
  "Slice s items =
     (if sh_Count s \<le> 1 then items
      else map snd (filter (\<lambda>(i, item). Owns s (int i)) (enumerate 0 items)))"

subsection \<open>Scenarios\<close>

record Scenario =
  sc_Name :: string
  sc_Weight :: int
  sc_Description :: string
  sc_HasRun :: bool

definition name_head :: "char \<Rightarrow> bool" where
  "name_head c \<longleftrightarrow> c \<in> set ''abcdefghijklmnopqrstuvwxyzABCDEFGHIJKLMNOPQRSTUVWXYZ0123456789''"

definition name_tail :: "char \<Rightarrow> bool" where
  "name_tail c \<longleftrightarrow> name_head c \<or> c \<in> set ''_.-''"

text \<open>\<open>^[a-zA-Z0-9][a-zA-Z0-9_.-]{0,63}$\<close>; without the \<open>m\<close> flag \<open>$\<close> is the end of the text.\<close>

definition scenarioNamePattern :: "string \<Rightarrow> bool" where
  "scenarioNamePattern s \<longleftrightarrow> (case s of [] \<Rightarrow> False | c # cs \<Rightarrow> name_head c \<and> list_all name_tail cs \<and> length cs \<le> 63)"

datatype scenario_error = BadName string | NoRunFunction string | NegativeWeight string int | AlreadyRegistered string

definition Validate :: "Scenario \<Rightarrow> scenario_error option" where
  "Validate s =
     (if \<not> scenarioNamePattern (sc_Name s) then Some (BadName (sc_Name s))
      else if \<not> sc_HasRun s then Some (NoRunFunction (sc_Name s))
      else if sc_Weight s < 0 then Some (NegativeWeight (sc_Name s) (sc_Weight s))
      else None)"

definition EffectiveWeight :: "Scenario \<Rightarrow> int" where
  "EffectiveWeight s = (if sc_Weight s \<le> 0 then 1 else sc_Weight s)"

type_synonym scenarios = "(string, Scenario) gomap"

definition Register :: "scenarios \<Rightarrow> Scenario \<Rightarrow> scenario_error option \<times> scenarios" where
  "Register r s =
     (case Validate s of
        Some e \<Rightarrow> (Some e, r)
      | None \<Rightarrow>
          if map_of r (sc_Name s) \<noteq> None then (Some (AlreadyRegistered (sc_Name s)), r)
          else (None, gput (sc_Name s) s r))"

definition NewScenarios :: scenarios where "NewScenarios = []"

text \<open>\<open>MustRegister\<close> panics, which is \<open>None\<close>, where \<open>Register\<close> fails.\<close>

definition MustRegister :: "scenarios \<Rightarrow> Scenario \<Rightarrow> scenarios option" where
  "MustRegister r s = (case Register r s of (None, r') \<Rightarrow> Some r' | (Some _, _) \<Rightarrow> None)"

definition scenario_Lookup :: "scenarios \<Rightarrow> string \<Rightarrow> Scenario option" where
  "scenario_Lookup r name = map_of r name"

definition Names :: "scenarios \<Rightarrow> string list" where
  "Names r = sort_by (<) (map fst r)"

definition scenario_Clone :: "scenarios \<Rightarrow> scenarios" where
  "scenario_Clone r = foldl (\<lambda>c (name, s). gput name s c) [] r"

definition scenario_Len :: "scenarios \<Rightarrow> nat" where
  "scenario_Len r = length r"

subsection \<open>Pauses\<close>

definition DefaultBetweenRequests :: duration where "DefaultBetweenRequests = time_Second"

record Pause =
  pz_Min :: duration
  pz_Max :: duration

definition NewPause :: "duration \<Rightarrow> Pause" where
  "NewPause d = \<lparr>pz_Min = d, pz_Max = d\<rparr>"

definition NewPauseRange :: "duration \<Rightarrow> duration \<Rightarrow> Pause" where
  "NewPauseRange minDur maxDur =
     (if maxDur < minDur then \<lparr>pz_Min = maxDur, pz_Max = minDur\<rparr> else \<lparr>pz_Min = minDur, pz_Max = maxDur\<rparr>)"

definition pause_IsZero :: "Pause \<Rightarrow> bool" where
  "pause_IsZero p \<longleftrightarrow> pz_Min p \<le> 0 \<and> pz_Max p \<le> 0"

text \<open>
  \<open>rnd\<close> is \<open>None\<close> for a missing generator, else a function with the range of \<open>Int64N\<close>, which
  panics (\<open>None\<close>) for an argument that is not positive.
\<close>

definition pause_Duration :: "Pause \<Rightarrow> (int \<Rightarrow> int) option \<Rightarrow> duration option" where
  "pause_Duration p rnd =
     (if pz_Max p \<le> pz_Min p then Some (max (pz_Min p) 0)
      else let low = max (pz_Min p) 0 in
        case rnd of
          None \<Rightarrow> Some (i64 (low + go_div (i64 (pz_Max p - low)) 2))
        | Some f \<Rightarrow> if i64 (pz_Max p - low) \<le> 0 then None else Some (i64 (low + f (i64 (pz_Max p - low)))))"

definition pause_String :: "Pause \<Rightarrow> string" where
  "pause_String p =
     (if pause_IsZero p then ''0s''
      else if pz_Max p \<le> pz_Min p then duration_String (pz_Min p)
      else duration_String (pz_Min p) @ ''-'' @ duration_String (pz_Max p))"

subsection \<open>Virtual users\<close>

record 'v VU =
  vu_id :: int
  vu_index :: int
  vu_shard :: Shard
  vu_scenario :: string
  vu_baseTag :: labels
  vu_state :: "(string, 'v) gomap"
  vu_iteration :: int
  vu_iterTag :: labels
  vu_thinkTime :: duration
  vu_failed :: bool

type_synonym observation = "string \<times> labels \<times> metric_call"

definition MetricIterationDuration :: string where "MetricIterationDuration = ''iteration_duration''"
definition MetricIterationFailed :: string where "MetricIterationFailed = ''iteration_failed''"
definition MetricChecks :: string where "MetricChecks = ''checks''"
definition MetricErrors :: string where "MetricErrors = ''errors''"
definition LabelCheck :: string where "LabelCheck = ''check''"

text \<open>\<open>With\<close> on a pair of arguments, which never panics.\<close>

definition with_label :: "(string \<Rightarrow> u64) \<Rightarrow> labels \<Rightarrow> string \<Rightarrow> string \<Rightarrow> labels" where
  "with_label mh l k v = (case With mh l [k, v] of Some l' \<Rightarrow> l' | None \<Rightarrow> l)"

definition NewVU :: "(string \<Rightarrow> u64) \<Rightarrow> int \<Rightarrow> int \<Rightarrow> Shard \<Rightarrow> string \<Rightarrow> labels \<Rightarrow> 'v VU" where
  "NewVU mh i index shard scenario tags =
     (let base = (if scenario \<noteq> [] then with_label mh tags LabelScenario scenario else tags)
      in \<lparr>vu_id = i, vu_index = index, vu_shard = shard, vu_scenario = scenario, vu_baseTag = base, vu_state = [],
          vu_iteration = 0, vu_iterTag = base, vu_thinkTime = 0, vu_failed = False\<rparr>)"

definition Tag :: "(string \<Rightarrow> u64) \<Rightarrow> 'v VU \<Rightarrow> string \<Rightarrow> string \<Rightarrow> 'v VU" where
  "Tag mh vu key v = vu\<lparr>vu_iterTag := with_label mh (vu_iterTag vu) key v\<rparr>"

definition SetState :: "'v VU \<Rightarrow> string \<Rightarrow> 'v \<Rightarrow> 'v VU" where
  "SetState vu key v = vu\<lparr>vu_state := gput key v (vu_state vu)\<rparr>"

definition vu_State :: "'v VU \<Rightarrow> string \<Rightarrow> 'v option" where
  "vu_State vu key = map_of (vu_state vu) key"

definition Check :: "(string \<Rightarrow> u64) \<Rightarrow> 'v VU \<Rightarrow> string \<Rightarrow> bool \<Rightarrow> bool \<times> observation list" where
  "Check mh vu name ok = (ok, [(MetricChecks, with_label mh (vu_iterTag vu) LabelCheck name, Rate ok)])"

definition vu_Fail :: "'v VU \<Rightarrow> bool \<Rightarrow> 'v VU \<times> observation list" where
  "vu_Fail vu err =
     (if \<not> err then (vu, []) else (vu\<lparr>vu_failed := True\<rparr>, [(MetricErrors, vu_iterTag vu, Count (Fin 1))]))"

text \<open>\<open>Think\<close>; \<open>slept\<close> is the time that passed until the timer fired or the context ended.\<close>

definition Think :: "'v VU \<Rightarrow> duration \<Rightarrow> duration \<Rightarrow> 'v VU" where
  "Think vu d slept = (if d \<le> 0 then vu else vu\<lparr>vu_thinkTime := i64 (vu_thinkTime vu + slept)\<rparr>)"

definition think_between :: "duration \<Rightarrow> duration \<Rightarrow> (int \<Rightarrow> int) \<Rightarrow> duration" where
  "think_between minDur maxDur rnd =
     (if maxDur \<le> minDur then minDur else i64 (minDur + rnd (i64 (maxDur - minDur))))"

definition BeginIteration :: "'v VU \<Rightarrow> int \<Rightarrow> 'v VU" where
  "BeginIteration vu n = vu\<lparr>vu_iteration := n, vu_iterTag := vu_baseTag vu, vu_thinkTime := 0, vu_failed := False\<rparr>"

definition EndIteration :: "'v VU \<Rightarrow> duration \<Rightarrow> bool \<Rightarrow> observation list" where
  "EndIteration vu elapsed err =
     (let active = i64 (elapsed - vu_thinkTime vu); active = (if active < 0 then 0 else active); failed = (vu_failed vu \<or> err)
      in [(MetricIterations, vu_baseTag vu, Count (Fin 1)),
          (MetricIterationDuration, vu_baseTag vu, Trend (f_div (f_of_int active) (Fin 1000000))),
          (MetricIterationFailed, vu_baseTag vu, Rate failed)] @
         (if err then [(MetricErrors, vu_baseTag vu, Count (Fin 1))] else []))"

subsection \<open>Shards partition the data\<close>

lemma Owns_exact:
  assumes "1 < sh_Count s" "0 \<le> i" "i < 2 ^ 32"
  shows "Owns s i \<longleftrightarrow> i mod uint (sh_Count s) = uint (sh_Index s)"
proof -
  have "\<not> sh_Count s \<le> 1" using assms(1) by (simp add: not_le)
  moreover have "uint (word_of_int i :: u32) = i" using assms(2,3) by (simp add: uint_word_of_int take_bit_eq_mod)
  ultimately show ?thesis by (simp add: Owns_def word_uint_eq_iff uint_mod)
qed

lemma filter_enumerate_shift:
  "map snd (filter (\<lambda>(i, x). P i) (enumerate n xs)) = nths xs {i. P (n + i)}"
proof (induction xs arbitrary: n)
  case (Cons x xs)
  have "{j. Suc j \<in> {i. P (n + i)}} = {i. P (Suc n + i)}" by auto
  then show ?case using Cons[of "Suc n"] by (simp add: nths_Cons)
qed simp

lemma Slice_nths: "Slice s items = nths items {i. Owns s (int i)}"
proof (cases "sh_Count s \<le> 1")
  case True then show ?thesis by (simp add: Slice_def Owns_def nths_all)
next
  case False then show ?thesis using filter_enumerate_shift[of "\<lambda>i. Owns s (int i)" 0 items] by (simp add: Slice_def)
qed

lemma mset_nths_union:
  assumes "A \<inter> B = {}"
  shows "mset (nths xs (A \<union> B)) = mset (nths xs A) + mset (nths xs B)"
  using assms
proof (induction xs arbitrary: A B)
  case (Cons x xs)
  have "{j. Suc j \<in> A} \<inter> {j. Suc j \<in> B} = {}" using Cons.prems by auto
  from Cons.IH[OF this] show ?case using Cons.prems
    by (auto simp: nths_Cons Collect_disj_eq)
qed simp

lemma mset_nths_classes:
  "mset (nths xs {i. f i < n}) = (\<Sum>k\<leftarrow>[0..<n]. mset (nths xs {i. f i = k}))" for f :: "nat \<Rightarrow> nat"
proof (induction n)
  case (Suc n)
  have "{i. f i < Suc n} = {i. f i < n} \<union> {i. f i = n}" by auto
  moreover have "{i. f i < n} \<inter> {i. f i = n} = {}" by auto
  ultimately show ?case using Suc mset_nths_union[of "{i. f i < n}" "{i. f i = n}" xs] by simp
qed simp

text \<open>
  The shards of a run partition shared data: over the \<open>n\<close> shards the coordinator hands out, the
  slices together hold every item exactly as often as the list does, so no item is used by two
  nodes and none is left out.
\<close>

theorem shards_partition:
  assumes "1 < n" and "n < 2 ^ 32" and "length items \<le> 2 ^ 32"
  shows "(\<Sum>k\<leftarrow>[0..<n]. mset (Slice \<lparr>sh_Index = of_nat k, sh_Count = of_nat n\<rparr> items)) = mset items"
proof -
  let ?s = "\<lambda>k. \<lparr>sh_Index = of_nat k, sh_Count = of_nat n\<rparr> :: Shard"
  have cnt: "uint (of_nat n :: u32) = int n" "(1 :: u32) < of_nat n"
    using assms by (simp_all add: unsigned_of_nat take_bit_eq_mod word_less_def)
  have "Slice (?s k) items = nths items {i. i mod n = k}" if "k < n" for k
  proof -
    have k: "uint (of_nat k :: u32) = int k" using that assms(2) by (simp add: unsigned_of_nat take_bit_eq_mod)
    have "Owns (?s k) (int i) \<longleftrightarrow> i mod n = k" if "i < length items" for i
      using Owns_exact[of "?s k" "int i"] that assms(3) cnt k by (simp flip: of_nat_mod)
    then show ?thesis unfolding Slice_nths nths_def by (auto intro!: arg_cong[of _ _ "map fst"] filter_cong dest: set_zip_rightD)
  qed
  then have "(\<Sum>k\<leftarrow>[0..<n]. mset (Slice (?s k) items)) = (\<Sum>k\<leftarrow>[0..<n]. mset (nths items {i. i mod n = k}))"
    by (intro arg_cong[of _ _ sum_list] map_cong) auto
  also have "\<dots> = mset (nths items {i. i mod n < n})" using mset_nths_classes[of items "\<lambda>i. i mod n" n] by simp
  also have "{i. i mod n < n} = UNIV" using assms(1) by auto
  finally show ?thesis by (simp add: nths_all)
qed

theorem shards_partition_witness:
  "(\<Sum>k\<leftarrow>[0..<2]. mset (Slice \<lparr>sh_Index = of_nat k, sh_Count = of_nat 2\<rparr> ''abc'')) = mset ''abc''"
  using shards_partition[of 2 "''abc''"] by simp

text \<open>
  A pause drawn from a range that fits stays in it: never negative, never below the lower bound
  and, with a generator that keeps its contract, below the upper one.
\<close>

theorem pause_in_range:
  assumes "0 \<le> lo" and "lo < hi" and "hi < 2 ^ 63" and "\<And>n. 0 < n \<Longrightarrow> 0 \<le> f n \<and> f n < n"
  shows "\<exists>d. pause_Duration (NewPauseRange hi lo) (Some f) = Some d \<and> lo \<le> d \<and> d < hi"
proof -
  have "i64 (hi - lo) = hi - lo" using assms by (simp add: i64_small)
  moreover have "0 \<le> f (hi - lo)" "f (hi - lo) < hi - lo" using assms(2) assms(4)[of "hi - lo"] by auto
  moreover have "i64 (lo + f (hi - lo)) = lo + f (hi - lo)" using assms(1-3) calculation by (intro i64_small) simp_all
  ultimately show ?thesis using assms(1-3) by (simp add: NewPauseRange_def pause_Duration_def Let_def)
qed

theorem pause_in_range_witness:
  "\<exists>d. pause_Duration (NewPauseRange 5 2) (Some (\<lambda>n. n - 1)) = Some d \<and> 2 \<le> d \<and> d < 5"
  using pause_in_range[of 2 5 "\<lambda>n. n - 1"] by simp

end
