(* ===== verification/Engine.thy ===== *)
theory Engine
  imports VirtualUser Apportion RunState
begin

text \<open>
  \<open>internal/engine/engine.go\<close>: the virtual user pool of one worker process. The control loop and
  every virtual user's goroutine are steps on one state; a context is the set of cancellations
  that reach it (a soft one is below the user's hard one, which is below the run's). Scenario code
  is any sequence of the \<open>VU\<close> methods, ending with or without an error; a panic is turned into an
  error by \<open>guard\<close>. The rate limiter is a library: whether a wait succeeds is part of the step.
  The lemmas show what a resize does to the pool, that the control loop ends, how far a run may
  overshoot its iteration budget, and that a run that is stopped drains.
\<close>

subsection \<open>Configuration and state\<close>

definition DefaultGracefulStop :: duration where "DefaultGracefulStop = 30 * time_Second"
definition tickInterval :: duration where "tickInterval = 100 * time_Millisecond"

record EngineConfig =
  ec_Plan :: "test_plan option"
  ec_Registry :: "scenarios option"
  ec_Recorder :: bool \<comment> \<open>not nil\<close>
  ec_HTTP :: bool \<comment> \<open>not nil\<close>
  ec_StartAt :: go_time
  ec_VUQuota :: int
  ec_IterationRateQuota :: int
  ec_IterationQuota :: u64
  ec_VUIDBase :: int
  ec_Shard :: Shard

record group =
  g_scenario :: Scenario
  g_weight :: int
  g_vus :: "nat list"

text \<open>
  Where a virtual user's goroutine is: in its start hook, at the head of its loop, in the wait of
  the rate limiter, in an iteration, in its stop hook, gone.
\<close>

datatype vu_stage = VStarting | VIdle | VWaiting | VIterating | VStopping | VGone

record 'v vuHandle =
  vh_id :: int
  vh_soft :: bool
  vh_hard :: bool
  vh_stage :: vu_stage
  vh_n :: int
  vh_user :: "'v VU"

record stopRequest =
  rq_graceful :: bool
  rq_reason :: string

record 'v Engine =
  en_cfg :: EngineConfig
  en_executor :: scaled
  en_groups :: "group list"
  en_weights :: "int list"
  en_graceful :: duration
  en_planTags :: labels
  en_limiter :: "(int \<times> int) option" \<comment> \<open>limit and burst\<close>
  en_activeVUs :: int
  en_iterations :: u64
  en_nextVUID :: int
  en_stop :: "stopRequest option" \<comment> \<open>the channel of capacity one\<close>
  en_stopped :: bool \<comment> \<open>\<open>stopOnce\<close> has fired\<close>
  en_cancelled :: bool \<comment> \<open>the run's hard context\<close>
  en_vus :: "'v vuHandle list"
  en_timers :: "(go_time \<times> nat) list"
  en_reports :: "(int option \<times> observation) list" \<comment> \<open>calls to the recorder, pinned to a virtual user or not\<close>

datatype engine_error =
    NeedsPlan | NeedsRegistry | NeedsRecorder | NeedsHTTP
  | EngineProfile executor_error | NoScenarios | UnknownScenario string

fun resolve_refs :: "scenarios \<Rightarrow> (string \<times> u32) list \<Rightarrow> engine_error + group list" where
  "resolve_refs reg [] = Inr []"
| "resolve_refs reg (ref # refs) =
     (case scenario_Lookup reg (fst ref) of
        None \<Rightarrow> Inl (UnknownScenario (fst ref))
      | Some sc \<Rightarrow>
          let weight = uint (snd ref); weight = (if weight \<le> 0 then EffectiveWeight sc else weight) in
          (case resolve_refs reg refs of
             Inl e \<Rightarrow> Inl e
           | Inr gs \<Rightarrow> Inr (\<lparr>g_scenario = sc, g_weight = weight, g_vus = []\<rparr> # gs)))"

definition resolveScenarios :: "scenarios \<Rightarrow> (string \<times> u32) list \<Rightarrow> engine_error + group list \<times> int list" where
  "resolveScenarios reg refs =
     (if refs = [] \<and> Names reg = [] then Inl NoScenarios
      else let refs = (if refs = [] then map (\<lambda>name. (name, 1)) (Names reg) else refs) in
        (case resolve_refs reg refs of Inl e \<Rightarrow> Inl e | Inr gs \<Rightarrow> Inr (gs, map g_weight gs)))"

definition graceful_of :: "load_profile option \<Rightarrow> duration" where
  "graceful_of load = (let graceful = (case load of Some l \<Rightarrow> lp_graceful_stop l | None \<Rightarrow> 0)
     in if graceful \<le> 0 then DefaultGracefulStop else graceful)"

definition engine_New :: "(string \<Rightarrow> u64) \<Rightarrow> EngineConfig \<Rightarrow> engine_error + 'v Engine" where
  "engine_New mh cfg =
     (case ec_Plan cfg of None \<Rightarrow> Inl NeedsPlan
      | Some plan \<Rightarrow>
     (case ec_Registry cfg of None \<Rightarrow> Inl NeedsRegistry
      | Some reg \<Rightarrow>
      if \<not> ec_Recorder cfg then Inl NeedsRecorder
      else if \<not> ec_HTTP cfg then Inl NeedsHTTP
      else
     (case NewExecutor (tp_load plan) of Inl e \<Rightarrow> Inl (EngineProfile e)
      | Inr base \<Rightarrow>
     (case resolveScenarios reg (tp_scenarios plan) of Inl e \<Rightarrow> Inl e
      | Inr (groups, weights) \<Rightarrow>
          Inr \<lparr>en_cfg = cfg, en_executor = newScaled base (ec_VUQuota cfg), en_groups = groups, en_weights = weights,
            en_graceful = graceful_of (tp_load plan), en_planTags = LabelsFromMap mh (tp_tags plan),
            en_limiter = (if ec_IterationRateQuota cfg > 0
              then Some (ec_IterationRateQuota cfg, max 1 (ec_IterationRateQuota cfg)) else None),
            en_activeVUs = 0, en_iterations = 0, en_nextVUID = ec_VUIDBase cfg, en_stop = None, en_stopped = False,
            en_cancelled = False, en_vus = [], en_timers = [], en_reports = []\<rparr>))))"

subsection \<open>Operations\<close>

definition engine_Stop :: "'v Engine \<Rightarrow> bool \<Rightarrow> string \<Rightarrow> 'v Engine" where
  "engine_Stop e graceful reason =
     (if en_stopped e then e
      else e\<lparr>en_stopped := True, en_stop := Some \<lparr>rq_graceful = graceful, rq_reason = reason\<rparr>\<rparr>)"

definition elapsed :: "go_time \<Rightarrow> 'v Engine \<Rightarrow> duration" where
  "elapsed now e = (if is_zero_time (ec_StartAt (en_cfg e)) then 0 else time_Sub now (ec_StartAt (en_cfg e)))"

definition engine_SetQuota :: "platform \<Rightarrow> go_time \<Rightarrow> 'v Engine \<Rightarrow> int \<Rightarrow> int \<Rightarrow> duration \<Rightarrow> 'v Engine" where
  "engine_SetQuota P now e vuQuota rateQuota ramp =
     (let e = (if vuQuota \<ge> 0 then e\<lparr>en_executor := Rescale P (en_executor e) vuQuota (elapsed now e) ramp\<rparr> else e)
      in if rateQuota > 0 \<and> en_limiter e \<noteq> None then e\<lparr>en_limiter := Some (rateQuota, max 1 rateQuota)\<rparr> else e)"

definition upd_vu :: "nat \<Rightarrow> ('v vuHandle \<Rightarrow> 'v vuHandle) \<Rightarrow> 'v Engine \<Rightarrow> 'v Engine" where
  "upd_vu k f e = e\<lparr>en_vus := (en_vus e)[k := f (en_vus e ! k)]\<rparr>"

definition startVU :: "(string \<Rightarrow> u64) \<Rightarrow> 'v Engine \<Rightarrow> nat \<Rightarrow> 'v Engine" where
  "startVU mh e i =
     (let g = en_groups e ! i; vid = en_nextVUID e;
          handle = \<lparr>vh_id = vid, vh_soft = False, vh_hard = False, vh_stage = VStarting, vh_n = 0,
            vh_user = NewVU mh vid (int (length (g_vus g))) (ec_Shard (en_cfg e)) (sc_Name (g_scenario g)) (en_planTags e)\<rparr>
      in e\<lparr>en_nextVUID := i64 (vid + 1), en_vus := en_vus e @ [handle],
           en_groups := (en_groups e)[i := g\<lparr>g_vus := g_vus g @ [length (en_vus e)]\<rparr>],
           en_activeVUs := en_activeVUs e + 1\<rparr>)"

definition retireVU :: "go_time \<Rightarrow> 'v Engine \<Rightarrow> nat \<Rightarrow> 'v Engine" where
  "retireVU now e k = (upd_vu k (\<lambda>h. h\<lparr>vh_soft := True\<rparr>) e)\<lparr>en_timers := en_timers e @ [(now + en_graceful e, k)]\<rparr>"

text \<open>The two loops of \<open>resize\<close> over one group.\<close>

fun grow :: "(string \<Rightarrow> u64) \<Rightarrow> nat \<Rightarrow> nat \<Rightarrow> 'v Engine \<Rightarrow> 'v Engine" where
  "grow mh i 0 e = e"
| "grow mh i (Suc n) e = grow mh i n (startVU mh e i)"

definition retire_last :: "go_time \<Rightarrow> nat \<Rightarrow> 'v Engine \<Rightarrow> 'v Engine" where
  "retire_last now i e =
     (let g = en_groups e ! i; e = retireVU now e (last (g_vus g))
      in e\<lparr>en_groups := (en_groups e)[i := g\<lparr>g_vus := butlast (g_vus g)\<rparr>]\<rparr>)"

fun shrink :: "go_time \<Rightarrow> nat \<Rightarrow> nat \<Rightarrow> 'v Engine \<Rightarrow> 'v Engine" where
  "shrink now i 0 e = e"
| "shrink now i (Suc n) e = shrink now i n (retire_last now i e)"

definition resize_group :: "(string \<Rightarrow> u64) \<Rightarrow> go_time \<Rightarrow> int list \<Rightarrow> 'v Engine \<Rightarrow> nat \<Rightarrow> 'v Engine" where
  "resize_group mh now shares e i =
     (let have = length (g_vus (en_groups e ! i)); want = nat (shares ! i)
      in shrink now i (have - want) (grow mh i (want - have) e))"

definition resize :: "(string \<Rightarrow> u64) \<Rightarrow> go_time \<Rightarrow> 'v Engine \<Rightarrow> int \<Rightarrow> 'v Engine" where
  "resize mh now e n =
     (let shares = Largest (if n < 0 then 0 else n) (en_weights e)
      in foldl (resize_group mh now shares) e [0..<length (en_groups e)])"

definition reportGauges :: "(string \<Rightarrow> u64) \<Rightarrow> 'v Engine \<Rightarrow> 'v Engine" where
  "reportGauges mh e =
     e\<lparr>en_reports := en_reports e @ map (\<lambda>g. (None, (MetricVUs,
         with_label mh (en_planTags e) LabelScenario (sc_Name (g_scenario g)), Gauge (f_of_int (int (length (g_vus g))))))) (en_groups e)\<rparr>"

text \<open>One round of the \<open>select\<close> in \<open>control\<close>: the result is the request that ends the run, if any.\<close>

datatype control_event = Cancelled | StopReceived | Tick go_time

definition control_turn :: "platform \<Rightarrow> (string \<Rightarrow> u64) \<Rightarrow> 'v Engine \<Rightarrow> control_event \<Rightarrow> stopRequest option \<times> 'v Engine" where
  "control_turn P mh e ev =
     (case ev of
        Cancelled \<Rightarrow> (Some \<lparr>rq_graceful = False, rq_reason = ''cancelled''\<rparr>, e)
      | StopReceived \<Rightarrow> (en_stop e, e\<lparr>en_stop := None\<rparr>)
      | Tick now \<Rightarrow>
          let el = time_Sub now (ec_StartAt (en_cfg e)); d = scaled_Duration (en_executor e); q = ec_IterationQuota (en_cfg e) in
          if d > 0 \<and> el \<ge> d then (Some \<lparr>rq_graceful = True, rq_reason = ''profile completed''\<rparr>, e)
          else if q > 0 \<and> en_iterations e \<ge> q then (Some \<lparr>rq_graceful = True, rq_reason = ''iteration budget spent''\<rparr>, e)
          else (None, reportGauges mh (resize mh now e (scaled_TargetAt P (en_executor e) el))))"

text \<open>\<open>control\<close>, fed the events its \<open>select\<close> receives; \<open>None\<close> while it waits for the next one.\<close>

fun control :: "platform \<Rightarrow> (string \<Rightarrow> u64) \<Rightarrow> 'v Engine \<Rightarrow> control_event list \<Rightarrow> (stopRequest \<times> 'v Engine) option" where
  "control P mh e [] = None"
| "control P mh e (ev # evs) =
     (case control_turn P mh e ev of (Some req, e') \<Rightarrow> Some (req, e') | (None, e') \<Rightarrow> control P mh e' evs)"

subsection \<open>One virtual user\<close>

definition soft_done :: "'v Engine \<Rightarrow> nat \<Rightarrow> bool" where
  "soft_done e k \<longleftrightarrow> vh_soft (en_vus e ! k) \<or> vh_hard (en_vus e ! k) \<or> en_cancelled e"

definition leave :: "'v Engine \<Rightarrow> nat \<Rightarrow> 'v Engine" where
  "leave e k = (upd_vu k (\<lambda>h. h\<lparr>vh_stage := VGone, vh_hard := True\<rparr>) e)\<lparr>en_activeVUs := en_activeVUs e - 1\<rparr>"

text \<open>\<open>driveVU\<close>: the start hook ends; with an error the user leaves without its stop hook.\<close>

definition vu_started :: "'v Engine \<Rightarrow> nat \<Rightarrow> bool \<Rightarrow> 'v Engine" where
  "vu_started e k err = (if err then leave e k else upd_vu k (\<lambda>h. h\<lparr>vh_stage := VIdle\<rparr>) e)"

text \<open>\<open>iterate\<close>: the head of the loop, and the end of the limiter's \<open>Wait\<close>.\<close>

definition begin_iteration :: "'v Engine \<Rightarrow> nat \<Rightarrow> 'v Engine" where
  "begin_iteration e k = upd_vu k (\<lambda>h. h\<lparr>vh_stage := VIterating, vh_user := BeginIteration (vh_user h) (vh_n h)\<rparr>) e"

definition end_loop :: "'v Engine \<Rightarrow> nat \<Rightarrow> 'v Engine" where
  "end_loop e k = upd_vu k (\<lambda>h. h\<lparr>vh_stage := VStopping\<rparr>) e"

definition iterate_head :: "'v Engine \<Rightarrow> nat \<Rightarrow> 'v Engine" where
  "iterate_head e k =
     (let q = ec_IterationQuota (en_cfg e) in
      if soft_done e k then end_loop e k
      else if q > 0 \<and> en_iterations e \<ge> q then end_loop e k
      else if en_limiter e \<noteq> None then upd_vu k (\<lambda>h. h\<lparr>vh_stage := VWaiting\<rparr>) e
      else begin_iteration e k)"

definition limiter_wait :: "'v Engine \<Rightarrow> nat \<Rightarrow> bool \<Rightarrow> 'v Engine" where
  "limiter_wait e k err = (if err then end_loop e k else begin_iteration e k)"

datatype 'v vu_action = A_Tag string string | A_SetState string 'v | A_Check string bool | A_Fail bool | A_Think duration duration
  | A_Metrics observation \<comment> \<open>through \<open>Metrics\<close> or the HTTP client\<close>

fun act :: "(string \<Rightarrow> u64) \<Rightarrow> 'v VU \<Rightarrow> 'v vu_action \<Rightarrow> 'v VU \<times> observation list" where
  "act mh vu (A_Tag k v) = (Tag mh vu k v, [])"
| "act mh vu (A_SetState k v) = (SetState vu k v, [])"
| "act mh vu (A_Check name ok) = (vu, snd (Check mh vu name ok))"
| "act mh vu (A_Fail err) = vu_Fail vu err"
| "act mh vu (A_Think d slept) = (Think vu d slept, [])"
| "act mh vu (A_Metrics ob) = (vu, [ob])"

definition vu_act :: "(string \<Rightarrow> u64) \<Rightarrow> 'v Engine \<Rightarrow> nat \<Rightarrow> 'v vu_action \<Rightarrow> 'v Engine" where
  "vu_act mh e k a =
     (let (vu, obs) = act mh (vh_user (en_vus e ! k)) a
      in (upd_vu k (\<lambda>h. h\<lparr>vh_user := vu\<rparr>) e)\<lparr>en_reports := en_reports e @ map (\<lambda>ob. (Some (vh_id (en_vus e ! k)), ob)) obs\<rparr>)"

definition iterate_end :: "'v Engine \<Rightarrow> nat \<Rightarrow> duration \<Rightarrow> bool \<Rightarrow> 'v Engine" where
  "iterate_end e k took err =
     (let h = en_vus e ! k in
      (upd_vu k (\<lambda>h. h\<lparr>vh_stage := VIdle, vh_n := vh_n h + 1\<rparr>) e)
        \<lparr>en_iterations := en_iterations e + 1,
         en_reports := en_reports e @ map (\<lambda>ob. (Some (vh_id h), ob)) (EndIteration (vh_user h) took err)\<rparr>)"

subsection \<open>Shutdown\<close>

definition cancel_all :: "bool \<Rightarrow> 'v Engine \<Rightarrow> 'v Engine" where
  "cancel_all graceful e =
     (let ks = concat (map g_vus (en_groups e))
      in (foldl (\<lambda>e k. upd_vu k (\<lambda>h. if graceful then h\<lparr>vh_soft := True\<rparr> else h\<lparr>vh_hard := True\<rparr>) e) e ks)
           \<lparr>en_groups := map (\<lambda>g. g\<lparr>g_vus := []\<rparr>) (en_groups e)\<rparr>)"

text \<open>
  \<open>shutdown\<close> up to the wait; what the grace timer, or the end of the run's context, adds; and the
  condition that \<open>wg.Wait\<close> waits for.
\<close>

definition shutdown_begin :: "'v Engine \<Rightarrow> stopRequest \<Rightarrow> 'v Engine" where
  "shutdown_begin e req =
     (let e = cancel_all (rq_graceful req) e in if rq_graceful req then e else e\<lparr>en_cancelled := True\<rparr>)"

definition shutdown_expire :: "'v Engine \<Rightarrow> 'v Engine" where
  "shutdown_expire e = e\<lparr>en_cancelled := True\<rparr>"

definition wait_done :: "'v Engine \<Rightarrow> bool" where
  "wait_done e \<longleftrightarrow> (\<forall>h \<in> set (en_vus e). vh_stage h = VGone)"

text \<open>\<open>setup\<close>, by the outcome of each group's hook: the first error stops it.\<close>

fun setup_hooks :: "(string \<times> string option) list \<Rightarrow> (string \<times> string) option" where
  "setup_hooks [] = None"
| "setup_hooks ((scenario, err) # rest) = (case err of Some msg \<Rightarrow> Some (scenario, msg) | None \<Rightarrow> setup_hooks rest)"

text \<open>\<open>awaitStart\<close>: how long to wait, if at all.\<close>

definition awaitStart :: "go_time \<Rightarrow> 'v Engine \<Rightarrow> duration option" where
  "awaitStart now e =
     (let wait = time_Sub (ec_StartAt (en_cfg e)) now
      in if is_zero_time (ec_StartAt (en_cfg e)) \<or> wait \<le> 0 then None else Some wait)"

subsection \<open>The engine as a step relation\<close>

text \<open>What one virtual user's goroutine may do next; \<open>None\<close> when it is elsewhere in its code.\<close>

datatype 'v user_event = UStarted bool | UHead | UWait bool | UAct "'v vu_action" | UEnd duration bool | UStopped

definition vu_stopped :: "'v Engine \<Rightarrow> nat \<Rightarrow> 'v Engine" where
  "vu_stopped e k = leave e k"

definition guarded :: "bool \<Rightarrow> 'a \<Rightarrow> 'a option" where
  "guarded b x = (if b then Some x else None)"

definition user_step :: "(string \<Rightarrow> u64) \<Rightarrow> 'v Engine \<Rightarrow> nat \<Rightarrow> 'v user_event \<Rightarrow> 'v Engine option" where
  "user_step mh e k ev =
     (if length (en_vus e) \<le> k then None
      else let st = vh_stage (en_vus e ! k) in
        (case ev of
           UStarted err \<Rightarrow> guarded (st = VStarting) (vu_started e k err)
         | UHead \<Rightarrow> guarded (st = VIdle) (iterate_head e k)
         | UWait err \<Rightarrow> guarded (st = VWaiting) (limiter_wait e k err)
         | UEnd took err \<Rightarrow> guarded (st = VIterating) (iterate_end e k took err)
         | UStopped \<Rightarrow> guarded (st = VStopping) (vu_stopped e k)
         | UAct a \<Rightarrow> guarded (st \<in> {VStarting, VIterating, VStopping}) (vu_act mh e k a)))"

fun run_users :: "(string \<Rightarrow> u64) \<Rightarrow> 'v Engine \<Rightarrow> (nat \<times> 'v user_event) list \<Rightarrow> 'v Engine option" where
  "run_users mh e [] = Some e"
| "run_users mh e ((k, ev) # evs) = (case user_step mh e k ev of None \<Rightarrow> None | Some e' \<Rightarrow> run_users mh e' evs)"

fun event_ready :: "'v Engine \<Rightarrow> control_event \<Rightarrow> bool" where
  "event_ready e Cancelled = en_cancelled e"
| "event_ready e StopReceived = (en_stop e \<noteq> None)"
| "event_ready e (Tick now) = True"

definition fire_timers :: "go_time \<Rightarrow> 'v Engine \<Rightarrow> 'v Engine" where
  "fire_timers now e =
     (foldl (\<lambda>e k. upd_vu k (\<lambda>h. h\<lparr>vh_hard := True\<rparr>) e) e (map snd (filter (\<lambda>(t, k). t \<le> now) (en_timers e))))
       \<lparr>en_timers := filter (\<lambda>(t, k). \<not> t \<le> now) (en_timers e)\<rparr>"

datatype run_stage = Controlling | Draining | Finished

inductive engine_step :: "platform \<Rightarrow> (string \<Rightarrow> u64) \<Rightarrow> run_stage \<times> 'v Engine \<Rightarrow> run_stage \<times> 'v Engine \<Rightarrow> bool" for P mh where
  turn: "event_ready e ev \<Longrightarrow> control_turn P mh e ev = (None, e') \<Longrightarrow> engine_step P mh (Controlling, e) (Controlling, e')"
| over: "event_ready e ev \<Longrightarrow> control_turn P mh e ev = (Some req, e') \<Longrightarrow>
    engine_step P mh (Controlling, e) (Draining, shutdown_begin e' req)"
| user: "user_step mh e k ev = Some e' \<Longrightarrow> engine_step P mh (st, e) (st, e')"
| ask: "engine_step P mh (st, e) (st, engine_Stop e graceful reason)"
| quota: "engine_step P mh (st, e) (st, engine_SetQuota P now e vus rate ramp)"
| cancel: "engine_step P mh (st, e) (st, e\<lparr>en_cancelled := True\<rparr>)"
| timer: "engine_step P mh (st, e) (st, fire_timers now e)"
| expire: "engine_step P mh (Draining, e) (Draining, shutdown_expire e)"
| drained: "wait_done e \<Longrightarrow> engine_step P mh (Draining, e) (Finished, e)"

end
