(* ===== verification/Agent.thy ===== *)
theory Agent
  imports Client Coordinator Engine
begin

text \<open>
  \<open>internal/agent/agent.go\<close>: the supervisor of one host. It is the second implementation of the
  server's \<open>SessionHandler\<close> (for its workers) and, towards the coordinator, a \<open>Handler\<close> of the
  client. Every method is a function on one record; what the code starts with \<open>go\<close> is put on a
  list of pending tasks and is a later step. The operating system is an argument: whether a
  process starts, when one exits, the host's core count and name, and the figures of
  \<open>procstats\<close>. A \<open>*runState\<close> is compared by identity only, so each has a serial number.
\<close>

subsection \<open>Configuration and state\<close>

record AgentConfig =
  af_NodeID :: string
  af_CoordinatorTarget :: string
  af_Workers :: int
  af_MaxVUs :: int
  af_Labels :: "(string, string) gomap"

definition DefaultVUsPerCore :: int where "DefaultVUsPerCore = 1000"
definition workerJoinTimeout :: duration where "workerJoinTimeout = 20 * time_Second"
definition workerStopTimeout :: duration where "workerStopTimeout = 30 * time_Second"
definition workerReportGrace :: duration where "workerReportGrace = 5 * time_Second"

record workerProc =
  wp_id :: string
  wp_index :: int
  wp_started :: go_time

record workerUsage =
  wu_cpuPercent :: float64
  wu_memBytes :: u64

record runState =
  rs_ref :: nat
  rs_id :: string
  rs_plan :: test_plan
  rs_startAt :: go_time
  rs_vuQuota :: int
  rs_rateQuota :: int
  rs_iterationQuota :: u64
  rs_ramp :: duration
  rs_vuIDBase :: int
  rs_shardIndex :: u32
  rs_shardCount :: u32
  rs_dispatched :: "(string, bool) gomap"

datatype agent_task =
    TaskRebalance
  | TaskDispatch string nat \<comment> \<open>\<open>dispatchWhenReady\<close>\<close>
  | TaskStop bool string \<comment> \<open>\<open>stopRun\<close> of a stop command\<close>
  | TaskStopEnd nat \<comment> \<open>its rest, after the wait\<close>

record Agent =
  an_cfg :: AgentConfig
  an_upstream :: Client
  an_mem :: memory
  an_workers :: registry
  an_procs :: "(string, workerProc) gomap"
  an_run :: "runState option"
  an_runtop :: nat
  an_vuByWorker :: "(string, u32) gomap"
  an_statsByWorker :: "(string, workerUsage) gomap"
  an_workerPhase :: "(string, run_phase) gomap"
  an_workerIters :: "(string, u64) gomap"
  an_nextWorkerSeq :: int
  an_activeVUs :: int
  an_tasks :: "agent_task list"

text \<open>What the language and the host leave open.\<close>

record host =
  ho_NumCPU :: nat
  ho_Hostname :: string
  ho_Version :: string
  ho_sessions :: registry_order
  ho_procs :: "(string \<times> workerProc) list \<Rightarrow> (string \<times> workerProc) list"

datatype agent_error = AgentNeedsNodeID | AgentNeedsTarget | AgentClient client_error

definition defaultWorkerCount :: "host \<Rightarrow> int" where
  "defaultWorkerCount HO = max 1 (int (ho_NumCPU HO) - 1)"

definition af_applyDefaults :: "host \<Rightarrow> AgentConfig \<Rightarrow> AgentConfig" where
  "af_applyDefaults HO c =
     (let c = (if af_Workers c \<le> 0 then c\<lparr>af_Workers := defaultWorkerCount HO\<rparr> else c)
      in if af_MaxVUs c \<le> 0 then c\<lparr>af_MaxVUs := i64 (int (ho_NumCPU HO) * DefaultVUsPerCore)\<rparr> else c)"

definition agent_hello :: "host \<Rightarrow> AgentConfig \<Rightarrow> NodeHello" where
  "agent_hello HO c =
     \<lparr>nh_NodeId = af_NodeID c, nh_Hostname = ho_Hostname HO, nh_Version = ho_Version HO, nh_CpuCores = of_nat (ho_NumCPU HO),
      nh_MaxWorkers = word_of_int (af_Workers c), nh_MaxVus = word_of_int (af_MaxVUs c), nh_Labels = af_Labels c\<rparr>"

text \<open>\<open>New\<close>, less the executable's and the socket's path.\<close>

definition agent_New :: "host \<Rightarrow> memory \<Rightarrow> AgentConfig \<Rightarrow> agent_error + Agent" where
  "agent_New HO mem cfg =
     (if af_NodeID cfg = [] then Inl AgentNeedsNodeID
      else if af_CoordinatorTarget cfg = [] then Inl AgentNeedsTarget
      else let cfg = af_applyDefaults HO cfg in
        (case NewClient \<lparr>cc_Target = af_CoordinatorTarget cfg, cc_Hello = Some (agent_hello HO cfg), cc_HasHandler = True,
             cc_QueueSize = 0, cc_ReconnectMin = 0, cc_ReconnectMax = 0\<rparr> of
           Inl e \<Rightarrow> Inl (AgentClient e)
         | Inr upstream \<Rightarrow>
             Inr \<lparr>an_cfg = cfg, an_upstream = upstream, an_mem = mem, an_workers = NewSessionRegistry, an_procs = [], an_run = None,
               an_runtop = 0, an_vuByWorker = [], an_statsByWorker = [], an_workerPhase = [], an_workerIters = [],
               an_nextWorkerSeq = 0, an_activeVUs = 0, an_tasks = []\<rparr>))"

subsection \<open>Telling the coordinator\<close>

definition send_up :: "(Client \<Rightarrow> bool \<times> Client) \<Rightarrow> Agent \<Rightarrow> Agent" where
  "send_up f a = a\<lparr>an_upstream := snd (f (an_upstream a))\<rparr>"

definition agent_reportStatus :: "Agent \<Rightarrow> string \<Rightarrow> run_phase \<Rightarrow> string \<Rightarrow> Agent" where
  "agent_reportStatus a runID phase message =
     send_up (\<lambda>c. SendRunStatus c \<lparr>ru_RunId = runID, ru_Phase = phase, ru_Message = message, ru_ActiveVus = 0,
       ru_CompletedIterations = 0\<rparr>) a"

definition reportLog :: "go_time \<Rightarrow> Agent \<Rightarrow> log_level \<Rightarrow> string \<Rightarrow> string \<Rightarrow> (string, string) gomap \<Rightarrow> Agent" where
  "reportLog now a level runID message fs =
     send_up (\<lambda>c. SendLog c \<lparr>le_Time = Some now, le_Level = level, le_NodeId = af_NodeID (an_cfg a), le_RunId = runID,
       le_Message = message, le_Fields = fs\<rparr>) a"

text \<open>A missing timestamp is read back as the Unix epoch.\<close>

definition timestampOf :: "go_time \<Rightarrow> go_time option" where
  "timestampOf t = (if is_zero_time t then None else Some t)"

definition AsTime :: "go_time option \<Rightarrow> go_time" where
  "AsTime ts = (case ts of Some t \<Rightarrow> t | None \<Rightarrow> 0)"

definition zero_usage :: workerUsage where
  "zero_usage = \<lparr>wu_cpuPercent = Fin 0, wu_memBytes = 0\<rparr>"

definition worker_stats :: "Agent \<Rightarrow> string \<times> workerProc \<Rightarrow> WorkerStats" where
  "worker_stats a p =
     (let usage = (case map_of (an_statsByWorker a) (fst p) of Some u \<Rightarrow> u | None \<Rightarrow> zero_usage) in
      \<lparr>ws_WorkerId = fst p, ws_Index = word_of_int (wp_index (snd p)),
       ws_ActiveVus = (case map_of (an_vuByWorker a) (fst p) of Some n \<Rightarrow> n | None \<Rightarrow> 0),
       ws_CpuPercent = wu_cpuPercent usage, ws_MemBytes = wu_memBytes usage\<rparr>)"

definition agent_heartbeat :: "host \<Rightarrow> workerUsage \<Rightarrow> Agent \<Rightarrow> NodeHeartbeat" where
  "agent_heartbeat HO self a =
     zero_heartbeat\<lparr>hb_ActiveVus := word_of_int (an_activeVUs a), hb_HealthyWorkers := of_nat (registry_Len (an_workers a)),
       hb_CpuPercent := wu_cpuPercent self, hb_MemBytes := wu_memBytes self,
       hb_Workers := sort_by (\<lambda>v w. ws_Index v < ws_Index w) (map (worker_stats a) (ho_procs HO (an_procs a)))\<rparr>"

subsection \<open>Dividing the quota among the workers\<close>

definition worker_start :: "runState \<Rightarrow> nat \<Rightarrow> int \<Rightarrow> int \<Rightarrow> int \<Rightarrow> StartRun" where
  "worker_start run i vus rate iters =
     \<lparr>sr_RunId = rs_id run, sr_Plan = rs_plan run, sr_VuQuota = word_of_int vus, sr_WorkerCount = 0,
      sr_IterationRateQuota = word_of_int rate,
      sr_IterationQuota = (if rs_iterationQuota run > 0 then word_of_int iters else 0),
      sr_StartAt = AsTime (timestampOf (rs_startAt run)), sr_ShardIndex = rs_shardIndex run, sr_ShardCount = rs_shardCount run,
      sr_VuIdBase = WorkerBase (rs_vuIDBase run) (int i)\<rparr>"

definition worker_quota :: "runState \<Rightarrow> int \<Rightarrow> int \<Rightarrow> SetQuota" where
  "worker_quota run vus rate =
     \<lparr>sq_RunId = rs_id run, sq_VuQuota = word_of_int vus, sq_IterationRateQuota = word_of_int rate, sq_Ramp = rs_ramp run\<rparr>"

fun worker_messages :: "memory \<Rightarrow> int list \<Rightarrow> int list \<Rightarrow> int list \<Rightarrow> runState \<Rightarrow> (nat \<times> sref) list \<Rightarrow> (sref \<times> NodeDown) list \<times> runState" where
  "worker_messages mem vs rs its run [] = ([], run)"
| "worker_messages mem vs rs its run ((i, s) # xs) =
     (let sid = se_ID (mem s) in
      if map_of (rs_dispatched run) sid = Some True
      then let (ms, run') = worker_messages mem vs rs its run xs
           in ((s, NodeDown_SetQuota (worker_quota run (vs ! i) (rs ! i))) # ms, run')
      else let run = run\<lparr>rs_dispatched := gput sid True (rs_dispatched run)\<rparr>;
               (ms, run') = worker_messages mem vs rs its run xs
           in ((s, NodeDown_StartRun (worker_start run i (vs ! i) (rs ! i) (its ! i))) # ms, run'))"

definition send_messages :: "memory \<Rightarrow> (sref \<times> NodeDown) list \<Rightarrow> memory" where
  "send_messages mem ms = foldl (\<lambda>h (s, msg). snd (session_Send h s msg)) mem ms"

definition agent_rebalance :: "host \<Rightarrow> Agent \<Rightarrow> Agent" where
  "agent_rebalance HO a =
     (case an_run a of
        None \<Rightarrow> a
      | Some run \<Rightarrow>
          let sessions = by_ID (an_mem a) (registry_All (ho_sessions HO) (an_workers a)) in
          if sessions = [] then a
          else
            let weights = replicate (length sessions) 1;
                vuShares = Largest (rs_vuQuota run) weights;
                rateShares = Largest (rs_rateQuota run) weights;
                iterShares = Largest (min (uint (rs_iterationQuota run)) (2 ^ 31)) weights;
                (ms, run) = worker_messages (an_mem a) vuShares rateShares iterShares run (enumerate 0 sessions)
            in a\<lparr>an_run := Some (run\<lparr>rs_ramp := 0\<rparr>), an_mem := send_messages (an_mem a) ms\<rparr>)"

subsection \<open>Stopping\<close>

definition all_finished :: "Agent \<Rightarrow> bool" where
  "all_finished a \<longleftrightarrow> (\<forall>p \<in> set (an_workerPhase a). IsTerminal (snd p))"

text \<open>One turn of \<open>awaitWorkersFinished\<close>: its result, or \<open>None\<close> to wait for the next tick.\<close>

definition await_turn :: "go_time \<Rightarrow> go_time \<Rightarrow> Agent \<Rightarrow> bool option" where
  "await_turn deadline now a =
     (if an_workerPhase a = [] then Some True
      else if all_finished a then Some True
      else if now > deadline then Some False
      else None)"

definition stop_command :: "runState \<Rightarrow> bool \<Rightarrow> string \<Rightarrow> NodeDown" where
  "stop_command run graceful reason = NodeDown_StopRun \<lparr>sp_RunId = rs_id run, sp_Graceful = graceful, sp_Reason = reason\<rparr>"

definition stop_begin :: "host \<Rightarrow> Agent \<Rightarrow> runState \<Rightarrow> bool \<Rightarrow> string \<Rightarrow> Agent" where
  "stop_begin HO a run graceful reason =
     a\<lparr>an_mem := snd (Broadcast (ho_sessions HO) (an_mem a) (an_workers a) (stop_command run graceful reason))\<rparr>"

definition stop_end :: "Agent \<Rightarrow> nat \<Rightarrow> Agent" where
  "stop_end a ref = (case an_run a of Some run \<Rightarrow> if rs_ref run = ref then a\<lparr>an_run := None\<rparr> else a | None \<Rightarrow> a)"

text \<open>How long a graceful stop waits for the workers' last reports.\<close>

definition stop_budget :: "runState \<Rightarrow> duration" where
  "stop_budget run =
     (let budget = (case tp_load (rs_plan run) of Some l \<Rightarrow> lp_graceful_stop l | None \<Rightarrow> 0)
      in i64 ((if budget \<le> 0 then DefaultGracefulStop else budget) + workerReportGrace))"

text \<open>
  \<open>terminateWorkers\<close> returns once every process it found has exited, and each is then deleted by its
  own \<open>superviseWorker\<close>, which does nothing else for a run that is no longer the agent's.
\<close>

definition terminateWorkers :: "Agent \<Rightarrow> Agent" where
  "terminateWorkers a = a\<lparr>an_procs := []\<rparr>"

text \<open>\<open>stopRun\<close> as one step, for the callers that wait for it and when nothing else happens meanwhile.\<close>

definition agent_stopRun :: "host \<Rightarrow> Agent \<Rightarrow> bool \<Rightarrow> string \<Rightarrow> Agent" where
  "agent_stopRun HO a graceful reason =
     (case an_run a of
        None \<Rightarrow> a
      | Some run \<Rightarrow> terminateWorkers (stop_end (stop_begin HO a run graceful reason) (rs_ref run)))"

definition agent_shutdown :: "host \<Rightarrow> Agent \<Rightarrow> Agent" where
  "agent_shutdown HO a = terminateWorkers (agent_stopRun HO a True ''agent shutting down'')"

subsection \<open>Workers as processes\<close>

definition worker_id :: "Agent \<Rightarrow> int \<Rightarrow> string" where
  "worker_id a index = af_NodeID (an_cfg a) @ ''-w'' @ fmt_d index @ ''-'' @ fmt_d (i64 (an_nextWorkerSeq a + 1))"

definition spawnWorker :: "go_time \<Rightarrow> Agent \<Rightarrow> int \<Rightarrow> string option \<Rightarrow> string option \<times> Agent" where
  "spawnWorker now a index failure =
     (let wid = worker_id a index; a = a\<lparr>an_nextWorkerSeq := i64 (an_nextWorkerSeq a + 1)\<rparr> in
      case failure of
        Some err \<Rightarrow> (Some err, a)
      | None \<Rightarrow> (None, a\<lparr>an_procs := gput wid \<lparr>wp_id = wid, wp_index = index, wp_started = now\<rparr> (an_procs a)\<rparr>))"

text \<open>\<open>failures\<close> holds the outcome of starting each process.\<close>

fun spawnWorkers :: "go_time \<Rightarrow> Agent \<Rightarrow> int \<Rightarrow> string option list \<Rightarrow> string option \<times> Agent" where
  "spawnWorkers now a i [] = (None, a)"
| "spawnWorkers now a i (failure # failures) =
     (case spawnWorker now a i failure of
        (Some err, a) \<Rightarrow> (Some (''spawn worker '' @ fmt_d i @ '': '' @ err), a)
      | (None, a) \<Rightarrow> spawnWorkers now a (i + 1) failures)"

text \<open>\<open>superviseWorker\<close>, when the process has exited.\<close>

definition worker_exited :: "host \<Rightarrow> go_time \<Rightarrow> Agent \<Rightarrow> string \<Rightarrow> string \<Rightarrow> Agent" where
  "worker_exited HO now a runID wid =
     (let a = a\<lparr>an_procs := gdel wid (an_procs a)\<rparr> in
      if (case an_run a of None \<Rightarrow> True | Some run \<Rightarrow> rs_id run \<noteq> runID) then a
      else agent_rebalance HO (reportLog now a LOG_LEVEL_ERROR runID (''worker '' @ wid @ '' stopped unexpectedly'') [(''worker'', wid)]))"

text \<open>One turn of \<open>dispatchWhenReady\<close>: whether it is over, and its effect.\<close>

definition dispatch_turn :: "host \<Rightarrow> Agent \<Rightarrow> string \<Rightarrow> nat \<Rightarrow> bool \<Rightarrow> bool \<times> Agent" where
  "dispatch_turn HO a runID expected late =
     (if (case an_run a of None \<Rightarrow> True | Some run \<Rightarrow> rs_id run \<noteq> runID) then (True, a)
      else if registry_Len (an_workers a) \<ge> expected then (True, agent_rebalance HO a)
      else if \<not> late then (False, a)
      else if registry_Len (an_workers a) = 0
      then (True, agent_reportStatus a runID RUN_PHASE_FAILED (''no worker joined within '' @ duration_String workerJoinTimeout))
      else (True, agent_rebalance HO a))"

subsection \<open>Commands of the coordinator\<close>

definition run_workers :: "AgentConfig \<Rightarrow> StartRun \<Rightarrow> int" where
  "run_workers cfg msg =
     (let n = uint (tp_workers_per_agent (sr_Plan msg)); n = (if n \<le> 0 then af_Workers cfg else n) in max 1 (min n (af_Workers cfg)))"

definition new_runState :: "nat \<Rightarrow> StartRun \<Rightarrow> runState" where
  "new_runState ref msg =
     \<lparr>rs_ref = ref, rs_id = sr_RunId msg, rs_plan = sr_Plan msg, rs_startAt = sr_StartAt msg, rs_vuQuota = uint (sr_VuQuota msg),
      rs_rateQuota = uint (sr_IterationRateQuota msg), rs_iterationQuota = sr_IterationQuota msg, rs_ramp = 0,
      rs_vuIDBase = sr_VuIdBase msg, rs_shardIndex = sr_ShardIndex msg, rs_shardCount = sr_ShardCount msg, rs_dispatched = []\<rparr>"

definition agent_OnStartRun :: "host \<Rightarrow> go_time \<Rightarrow> (nat \<Rightarrow> string option) \<Rightarrow> Agent \<Rightarrow> StartRun \<Rightarrow> string option \<times> Agent" where
  "agent_OnStartRun HO now spawn a msg =
     (let a = agent_stopRun HO a False ''superseded by a new run'';
          n = nat (run_workers (an_cfg a) msg);
          a = a\<lparr>an_run := Some (new_runState (an_runtop a) msg), an_runtop := Suc (an_runtop a), an_workerPhase := [], an_workerIters := []\<rparr>
      in case spawnWorkers now a 0 (map spawn [0..<n]) of
           (Some err, a) \<Rightarrow> (Some err, agent_reportStatus a (sr_RunId msg) RUN_PHASE_FAILED err)
         | (None, a) \<Rightarrow> (None, a\<lparr>an_tasks := an_tasks a @ [TaskDispatch (sr_RunId msg) n]\<rparr>))"

definition agent_OnSetQuota :: "host \<Rightarrow> (string \<Rightarrow> string) \<Rightarrow> Agent \<Rightarrow> SetQuota \<Rightarrow> string option \<times> Agent" where
  "agent_OnSetQuota HO quote a msg =
     (case an_run a of
        Some run \<Rightarrow>
          if rs_id run = sq_RunId msg
          then (None, agent_rebalance HO (a\<lparr>an_run := Some (run\<lparr>rs_vuQuota := uint (sq_VuQuota msg),
                 rs_rateQuota := uint (sq_IterationRateQuota msg), rs_ramp := sq_Ramp msg\<rparr>)\<rparr>))
          else (Some (''no run '' @ quote (sq_RunId msg) @ '' is active on this agent''), a)
      | None \<Rightarrow> (Some (''no run '' @ quote (sq_RunId msg) @ '' is active on this agent''), a))"

definition agent_OnStopRun :: "Agent \<Rightarrow> StopRun \<Rightarrow> string option \<times> Agent" where
  "agent_OnStopRun a msg = (None, a\<lparr>an_tasks := an_tasks a @ [TaskStop (sp_Graceful msg) (sp_Reason msg)]\<rparr>)"

subsection \<open>Telemetry of the workers\<close>

definition agent_OnJoin :: "Agent \<Rightarrow> sref \<Rightarrow> string option \<times> Agent" where
  "agent_OnJoin a s =
     (let (_, mem, reg) = registry_Add (an_mem a) (an_workers a) s; a = a\<lparr>an_mem := mem, an_workers := reg\<rparr>
      in (None, if an_run a \<noteq> None then a\<lparr>an_tasks := an_tasks a @ [TaskRebalance]\<rparr> else a))"

definition agent_OnLeave :: "Agent \<Rightarrow> sref \<Rightarrow> Agent" where
  "agent_OnLeave a s =
     (let (was, reg) = registry_Remove (an_mem a) (an_workers a) s; sid = se_ID (an_mem a s) in
      if \<not> was then a
      else a\<lparr>an_workers := reg,
             an_run := map_option (\<lambda>run. run\<lparr>rs_dispatched := gdel sid (rs_dispatched run)\<rparr>) (an_run a),
             an_vuByWorker := gdel sid (an_vuByWorker a), an_statsByWorker := gdel sid (an_statsByWorker a),
             an_workerPhase := gdel sid (an_workerPhase a)\<rparr>)"

definition agent_OnHeartbeat :: "Agent \<Rightarrow> sref \<Rightarrow> NodeHeartbeat \<Rightarrow> Agent" where
  "agent_OnHeartbeat a s beat =
     (let sid = se_ID (an_mem a s); vus = gput sid (hb_ActiveVus beat) (an_vuByWorker a) in
      a\<lparr>an_vuByWorker := vus, an_activeVUs := sum_list (map (uint \<circ> snd) vus),
        an_statsByWorker := gput sid \<lparr>wu_cpuPercent = hb_CpuPercent beat, wu_memBytes = hb_MemBytes beat\<rparr> (an_statsByWorker a)\<rparr>)"

definition agent_OnMetrics :: "Agent \<Rightarrow> MetricBatch \<Rightarrow> Agent" where
  "agent_OnMetrics a batch = send_up (\<lambda>c. SendMetrics c batch) a"

definition is_completed :: "run_phase \<Rightarrow> bool" where
  "is_completed p \<longleftrightarrow> p = RUN_PHASE_COMPLETED \<or> p = RUN_PHASE_ABORTED"

text \<open>The two maps are only counted and summed over, so the order of their walk does not matter.\<close>

definition foldPhases :: "(string, run_phase) gomap \<Rightarrow> (string, u64) gomap \<Rightarrow> run_phase \<times> u64" where
  "foldPhases phases iters =
     (let total_iters = sum_list (map snd iters) in
      if phases = [] then (RUN_PHASE_PENDING, total_iters)
      else
        let failed = length (filter (\<lambda>p. snd p = RUN_PHASE_FAILED) phases);
            completed = length (filter (\<lambda>p. is_completed (snd p)) phases)
        in if failed > 0 then (RUN_PHASE_FAILED, total_iters)
           else if completed = length phases then (RUN_PHASE_COMPLETED, total_iters)
           else (RUN_PHASE_RUNNING, total_iters))"

definition agent_OnRunStatus :: "Agent \<Rightarrow> sref \<Rightarrow> RunStatusUpdate \<Rightarrow> Agent" where
  "agent_OnRunStatus a s update =
     (let sid = se_ID (an_mem a s);
          phases = gput sid (ru_Phase update) (an_workerPhase a);
          iters = (if ru_CompletedIterations update > 0 then gput sid (ru_CompletedIterations update) (an_workerIters a)
                   else an_workerIters a);
          (phase, iterations) = foldPhases phases iters
      in send_up (\<lambda>c. SendRunStatus c \<lparr>ru_RunId = ru_RunId update, ru_Phase = phase, ru_Message = ru_Message update,
           ru_ActiveVus = word_of_int (an_activeVUs a), ru_CompletedIterations = iterations\<rparr>)
           (a\<lparr>an_workerPhase := phases, an_workerIters := iters\<rparr>))"

definition agent_OnLog :: "Agent \<Rightarrow> LogEvent \<Rightarrow> Agent" where
  "agent_OnLog a e = send_up (\<lambda>c. SendLog c e) a"

definition agent_handler :: "Agent SessionHandler" where
  "agent_handler =
     \<lparr>h_memory = an_mem, h_update = (\<lambda>f a. a\<lparr>an_mem := f (an_mem a)\<rparr>),
      h_OnJoin = (\<lambda>now. agent_OnJoin), h_OnLeave = (\<lambda>now. agent_OnLeave), h_OnHeartbeat = (\<lambda>now. agent_OnHeartbeat),
      h_OnMetrics = (\<lambda>now a s. agent_OnMetrics a), h_OnRunStatus = (\<lambda>now. agent_OnRunStatus), h_OnLog = (\<lambda>now a s. agent_OnLog a)\<rparr>"

definition agent_node :: "host \<Rightarrow> go_time \<Rightarrow> (nat \<Rightarrow> string option) \<Rightarrow> (string \<Rightarrow> string) \<Rightarrow> Agent Handler" where
  "agent_node HO now spawn quote =
     \<lparr>n_OnAccepted = (\<lambda>a _. (None, a)), n_OnStartRun = agent_OnStartRun HO now spawn, n_OnSetQuota = agent_OnSetQuota HO quote,
      n_OnStopRun = agent_OnStopRun\<rparr>"

text \<open>The goroutines: the oldest pending task, with the outcome of its wait.\<close>

definition run_task :: "host \<Rightarrow> bool \<Rightarrow> Agent \<Rightarrow> Agent" where
  "run_task HO late a =
     (case an_tasks a of
        [] \<Rightarrow> a
      | task # tasks \<Rightarrow>
          let a = a\<lparr>an_tasks := tasks\<rparr> in
          (case task of
             TaskRebalance \<Rightarrow> agent_rebalance HO a
           | TaskDispatch runID n \<Rightarrow>
               (case dispatch_turn HO a runID n late of (over, a) \<Rightarrow> if over then a else a\<lparr>an_tasks := an_tasks a @ [task]\<rparr>)
           | TaskStop graceful reason \<Rightarrow>
               (case an_run a of
                  None \<Rightarrow> a
                | Some run \<Rightarrow> (stop_begin HO a run graceful reason)\<lparr>an_tasks := an_tasks a @ [TaskStopEnd (rs_ref run)]\<rparr>)
           | TaskStopEnd ref \<Rightarrow> terminateWorkers (stop_end a ref)))"

end
