(* ===== verification/CoordinatorProps.thy ===== *)
theory CoordinatorProps
  imports Coordinator
begin

text \<open>
  What the coordinator promises over any sequence of steps: a finished run's verdict is final,
  at most one run is in progress, an accepted stop ends the run within the grace budget and the
  margin, the history is bounded, and the work handed out adds up.
\<close>

subsection \<open>How a run may change\<close>

definition evolves :: "'h Run \<Rightarrow> 'h Run \<Rightarrow> bool" where
  "evolves r r' \<longleftrightarrow> rn_id r' = rn_id r \<and> rn_plan r' = rn_plan r \<and>
     (IsTerminal (rn_phase r) \<longrightarrow> verdict_of r' = verdict_of r) \<and>
     (\<not> is_zero_time (rn_stoppingAt r) \<longrightarrow> rn_stoppingAt r' = rn_stoppingAt r) \<and>
     (rn_breached r \<longrightarrow> rn_breached r')"

named_theorems evolves_intros

lemma evolves_refl [evolves_intros, simp]: "evolves r r"
  by (simp add: evolves_def)

lemma evolves_terminal: "evolves r r' \<Longrightarrow> IsTerminal (rn_phase r) \<Longrightarrow> IsTerminal (rn_phase r')"
  by (auto simp: evolves_def verdict_of_def)

lemma evolves_trans: "evolves r r' \<Longrightarrow> evolves r' r'' \<Longrightarrow> evolves r r''"
  using evolves_terminal[of r r'] by (auto simp: evolves_def)

lemma evolves_setPhase [evolves_intros]: "evolves r (snd (setPhase now r phase reason))"
  by (auto simp: evolves_def setPhase_def verdict_of_def Let_def)

lemma evolves_addEvent [evolves_intros]: "evolves r (addEvent now r e)"
  by (simp add: evolves_def addEvent_def verdict_of_def)

lemma evolves_setParticipants [evolves_intros]: "evolves r (setParticipants r ps)"
  by (simp add: evolves_def setParticipants_def verdict_of_def)

lemma evolves_updateParticipant [evolves_intros]: "evolves r (updateParticipant r i ph m)"
  by (simp add: evolves_def updateParticipant_def verdict_of_def Let_def)

lemma evolves_setThresholds [evolves_intros]: "evolves r (setThresholds (r\<lparr>rn_store := s\<rparr>) rs)"
  by (simp add: evolves_def setThresholds_def verdict_of_def)

lemma evolves_fields [evolves_intros]:
  "evolves r (r\<lparr>rn_store := s\<rparr>)" "evolves r (r\<lparr>rn_scaleRamp := d\<rparr>)" "evolves r (r\<lparr>rn_peakVUs := n, rn_scaleRamp := d\<rparr>)"
  by (simp_all add: evolves_def verdict_of_def)

lemma evolves_ticksSince [evolves_intros]: "evolves r (snd (ticksSince ord res r))"
  by (simp add: evolves_def ticksSince_def verdict_of_def Let_def)

subsection \<open>How the coordinator may change\<close>

text \<open>Every step but \<open>StartRun\<close> leaves the table of runs alone and only evolves the runs in it.\<close>

definition co_frame :: "'h Coordinator \<Rightarrow> 'h Coordinator \<Rightarrow> bool" where
  "co_frame c c' \<longleftrightarrow> co_cfg c' = co_cfg c \<and> co_runtop c' = co_runtop c \<and> co_runs c' = co_runs c \<and>
     co_order c' = co_order c \<and> co_active c' = co_active c \<and> (\<forall>p. evolves (co_runmem c p) (co_runmem c' p))"

named_theorems co_frame_intros

lemma co_frame_refl [co_frame_intros, simp]: "co_frame c c"
  by (simp add: co_frame_def)

lemma co_frame_trans: "co_frame c c' \<Longrightarrow> co_frame c' c'' \<Longrightarrow> co_frame c c''"
  by (auto simp: co_frame_def intro: evolves_trans)

lemma co_frame_fields [co_frame_intros]:
  "co_frame c (c\<lparr>co_mem := mem\<rparr>)" "co_frame c (c\<lparr>co_agents := agents\<rparr>)" "co_frame c (c\<lparr>co_events := events\<rparr>)"
  "co_frame c (c\<lparr>co_subs := subs\<rparr>)" "co_frame c (c\<lparr>co_pending := pending\<rparr>)"
  "co_frame c (c\<lparr>co_sessions := reg, co_agents := agents\<rparr>)"
  "co_frame c (c\<lparr>co_mem := mem, co_sessions := reg, co_agents := agents\<rparr>)"
  "co_frame c (c\<lparr>co_mem := mem, co_agents := agents\<rparr>)"
  by (simp_all add: co_frame_def)

lemma co_frame_upd_run: "(\<And>r. r = co_runmem c p \<Longrightarrow> evolves r (f r)) \<Longrightarrow> co_frame c (upd_run p f c)"
  by (simp add: co_frame_def upd_run_def)

lemma co_frame_publish [co_frame_intros]: "co_frame c (co_publish E c u)"
  by (simp add: co_publish_def co_frame_intros)

lemma co_frame_record [co_frame_intros]: "co_frame c (record_event E now c p e)"
  unfolding record_event_def Let_def
  by (rule co_frame_trans[OF co_frame_upd_run co_frame_publish]) (rule evolves_intros)

lemma co_frame_recordGlobal [co_frame_intros]: "co_frame c (recordGlobal E now c e)"
  unfolding recordGlobal_def Let_def by (rule co_frame_trans[OF co_frame_fields(3) co_frame_publish])

lemma co_frame_send_all:
  assumes "\<And>c x. co_frame c (snd (f c x))"
  shows "co_frame c (snd (send_all f c xs))"
proof (induction xs arbitrary: c)
  case (Cons x xs)
  show ?case using co_frame_trans[OF assms Cons, of c x] by (simp add: split_beta Let_def)
qed simp

lemma co_frame_dispatch [co_frame_intros]: "co_frame c (snd (dispatch E c p sessions peak))"
proof -
  have "co_frame c (snd (dispatch_one E p n vs rs is c x))" for c n vs rs "is" x
    by (cases x) (auto simp: dispatch_one_def Let_def split_beta co_frame_intros split: option.split
        intro: co_frame_fields)
  then show ?thesis by (simp add: dispatch_def Let_def co_frame_send_all)
qed

lemma co_frame_rebalance [co_frame_intros]: "co_frame c (rebalance E c p)"
proof -
  have one: "co_frame c (snd (rebalance_one E p n ramp known vs rs c x))" for c n ramp known vs rs x
    by (cases x) (auto simp: rebalance_one_def Let_def split_beta intro: co_frame_fields)
  have "co_frame c (upd_run p (\<lambda>r. setParticipants r parts) (snd (send_all (rebalance_one E p n ramp known vs rs)
      (upd_run p (\<lambda>r. r\<lparr>rn_scaleRamp := 0\<rparr>) c) xs)))" for parts n ramp known vs rs xs
    by (intro co_frame_trans[OF co_frame_trans[OF co_frame_upd_run co_frame_send_all[OF one]] co_frame_upd_run] evolves_intros)
  then show ?thesis by (simp add: rebalance_def Let_def split_beta)
qed

lemma co_frame_StopRun [co_frame_intros]: "co_frame c (snd (StopRun E now c i graceful reason))"
proof -
  have "co_frame c ((record_event E now (upd_run p (\<lambda>r. snd (setPhase now r RUN_PHASE_STOPPING reason)) c) p e)\<lparr>co_mem := mem\<rparr>)"
    for p reason e mem
    by (intro co_frame_trans[OF co_frame_trans[OF co_frame_upd_run co_frame_record] co_frame_fields(1)] evolves_intros)
  then show ?thesis by (auto simp: StopRun_def Let_def split: option.split)
qed

lemma co_frame_ScaleRun [co_frame_intros]: "co_frame c (snd (ScaleRun E now c i peak ramp))"
proof -
  have "co_frame c (record_event E now (rebalance E (upd_run p (\<lambda>r. r\<lparr>rn_peakVUs := peak, rn_scaleRamp := ramp\<rparr>) c) p) p e)" for p e
    by (intro co_frame_trans[OF co_frame_trans[OF co_frame_upd_run co_frame_rebalance] co_frame_record] evolves_intros)
  then show ?thesis by (auto simp: ScaleRun_def Let_def split: option.split)
qed

lemma co_frame_judge [co_frame_intros]: "co_frame c (snd (judge E c p))"
  by (auto simp: judge_def Let_def split_beta intro!: co_frame_upd_run evolves_intros)

lemma co_frame_finish [co_frame_intros]: "co_frame c (finish E now c p phase reason)"
proof -
  let ?c = "snd (judge E c p)"
  have "co_frame c (record_event E now (upd_run p (\<lambda>_. snd (setPhase now (co_runmem ?c p) phase reason)) ?c) p e)" for e
    by (intro co_frame_trans[OF co_frame_trans[OF co_frame_judge co_frame_upd_run] co_frame_record])
      (auto intro: evolves_intros)
  then show ?thesis by (auto simp: finish_def Let_def split_beta intro: co_frame_judge)
qed

lemma co_frame_checkCompletion [co_frame_intros]: "co_frame c (checkCompletion E now c p)"
  by (simp add: checkCompletion_def Let_def co_frame_finish)

lemma co_frame_checkStopTimeout [co_frame_intros]: "co_frame c (checkStopTimeout E now c p)"
  by (simp add: checkStopTimeout_def Let_def co_frame_finish)

lemma co_frame_expireAgents [co_frame_intros]: "co_frame c (expireAgents E now c)"
proof -
  have "co_frame c (rebalance E (record_event E now (c\<lparr>co_mem := mem\<rparr>) p e) p)" for mem p e
    by (rule co_frame_trans[OF co_frame_trans[OF co_frame_fields(1) co_frame_record] co_frame_rebalance])
  then show ?thesis by (auto simp: expireAgents_def Let_def split: option.split intro: co_frame_fields)
qed

lemma co_frame_abort [co_frame_intros]: "co_frame c (abort_if_requested E now results c p)"
  by (auto simp: abort_if_requested_def Let_def split: option.split intro: co_frame_trans[OF co_frame_record co_frame_StopRun])

lemma co_frame_spawn [co_frame_intros]: "co_frame c (spawn_rebalance c)"
  by (auto simp: spawn_rebalance_def split: option.split intro: co_frame_fields)

lemma co_frame_tick [co_frame_intros]: "co_frame c (co_tick E now c)"
proof -
  have body: "co_frame c (co_publish E (upd_run p (\<lambda>_. snd (ticksSince ord res (co_runmem c' p))) c') u)"
    if "co_frame c c'" for c c' p ord res u
    by (intro co_frame_trans[OF that co_frame_trans[OF co_frame_upd_run co_frame_publish]]) (auto intro: evolves_intros)
  have stale: "co_frame c (upd_run p (\<lambda>r. r\<lparr>rn_store := CloseStale (rt_hdr E) (rn_store r) now\<rparr>) c)" for c p
    by (intro co_frame_upd_run evolves_intros)
  have judged: "co_frame c (abort_if_requested E now (fst (judge E d p)) (snd (judge E d p)) p)" if "co_frame c d" for c d p
    by (intro co_frame_trans[OF that co_frame_trans[OF co_frame_judge co_frame_abort]])
  have checked: "co_frame c (if b then checkStopTimeout E now (checkCompletion E now d p) p else d)" if "co_frame c d" for b c d p
    using co_frame_trans[OF that co_frame_trans[OF co_frame_checkCompletion co_frame_checkStopTimeout]] that by simp
  have "co_frame (expireAgents E now c) (co_tick E now c)"
    unfolding co_tick_def Let_def split_beta
    by (auto split: option.split intro!: co_frame_publish body judged checked[unfolded if_True if_False] stale
        intro: co_frame_trans[OF judged[OF stale] co_frame_trans[OF co_frame_checkCompletion co_frame_checkStopTimeout]])
  then show ?thesis by (rule co_frame_trans[OF co_frame_expireAgents])
qed

lemma co_frame_OnJoin: "co_frame c (snd (OnJoin E now c s))"
  unfolding OnJoin_def Let_def split_beta snd_conv
  by (rule co_frame_trans[OF co_frame_trans[OF co_frame_fields(7) co_frame_recordGlobal] co_frame_spawn])

lemma co_frame_OnLeave: "co_frame c (OnLeave E now c s)"
  unfolding OnLeave_def Let_def split_beta
  by (auto intro: co_frame_trans[OF co_frame_trans[OF co_frame_fields(6) co_frame_recordGlobal] co_frame_spawn])

lemma co_frame_OnHeartbeat: "co_frame c (OnHeartbeat c s beat)"
  by (auto simp: OnHeartbeat_def Let_def split: option.split intro: co_frame_fields)

lemma co_frame_OnMetrics: "co_frame c (OnMetrics E c batch)"
  by (auto simp: OnMetrics_def split: option.split intro!: co_frame_upd_run evolves_intros)

lemma co_frame_OnRunStatus: "co_frame c (OnRunStatus E now c s update)"
proof -
  have 1: "co_frame c (upd_run p (\<lambda>r. updateParticipant r i ph m) c)" for p i ph m
    by (intro co_frame_upd_run evolves_intros)
  have 2: "co_frame c (upd_run p (\<lambda>r. snd (setPhase now r RUN_PHASE_RUNNING [])) (upd_run p (\<lambda>r. updateParticipant r i ph m) c))"
    for p i ph m
    by (intro co_frame_trans[OF 1 co_frame_upd_run] evolves_intros)
  show ?thesis
    by (auto simp: OnRunStatus_def Let_def split: option.split intro: 1 2 co_frame_trans[OF 1 co_frame_record])
qed

lemma co_frame_OnLog: "co_frame c (OnLog E now c s e)"
  by (auto simp: OnLog_def Let_def split: option.split intro: co_frame_intros)

lemmas co_frame_handlers = co_frame_OnJoin co_frame_OnLeave co_frame_OnHeartbeat co_frame_OnMetrics co_frame_OnRunStatus co_frame_OnLog

lemma OnJoin_accepts: "OnJoin E now c s = (None, snd (OnJoin E now c s))"
  by (simp add: OnJoin_def Let_def split_beta)

lemma join_open_coordinator:
  "snd (join_open (coordinator_handler E) cfg now peer first s c) =
     (case awaitHello first of Inl _ \<Rightarrow> c
      | Inr hello \<Rightarrow> snd (OnJoin E now (c\<lparr>co_mem := (co_mem c)(s := new_session cfg now peer hello)\<rparr>) s))"
  by (auto simp: join_open_def coordinator_handler_def split: sum.split)
    (subst OnJoin_accepts, simp)

lemma co_frame_join_open: "co_frame c (snd (join_open (coordinator_handler E) cfg now peer first s c))"
  by (auto simp: join_open_coordinator split: sum.split intro: co_frame_trans[OF co_frame_fields(1) co_frame_OnJoin])

lemma co_frame_receive: "co_frame c (receive_one (coordinator_handler E) now s c msg)"
proof -
  note h = co_frame_trans[OF co_frame_fields(1)]
  show ?thesis
    unfolding receive_one_def coordinator_handler_def Let_def
    by (cases msg) (simp, (rule h, rule co_frame_handlers co_frame_refl co_frame_fields)+)+
qed

lemma co_frame_close: "co_frame c (join_close (coordinator_handler E) now s c)"
  unfolding join_close_def coordinator_handler_def by simp (rule co_frame_trans[OF co_frame_fields(1) co_frame_OnLeave])

fun is_start :: "co_op \<Rightarrow> bool" where
  "is_start (C_StartRun i name plan source) = True"
| "is_start _ = False"

lemma co_frame_apply: "\<not> is_start op \<Longrightarrow> co_frame c (co_apply E c (now, op))"
proof (cases op)
  case (C_rebalance i)
  show ?thesis using C_rebalance by (auto intro: co_frame_trans[OF co_frame_fields(5) co_frame_rebalance])
qed (simp_all add: co_frame_StopRun co_frame_ScaleRun co_frame_tick co_frame_join_open co_frame_receive co_frame_close
    co_frame_fields)

subsection \<open>The table of runs\<close>

lemma trim_order_keeps_last:
  assumes "distinct (old @ [new])" "gowf runs" "gokeys runs = set (old @ [new])" "1 \<le> limit"
    and "\<And>i q. i \<in> set old \<Longrightarrow> map_of runs i = Some q \<Longrightarrow> \<not> Active (mem q)"
  shows "\<exists>runs'. trim_order limit mem runs (old @ [new]) = (runs', last_n (nat limit) (old @ [new])) \<and> gowf runs' \<and>
    gokeys runs' = set (last_n (nat limit) (old @ [new])) \<and>
    (\<forall>i \<in> set (last_n (nat limit) (old @ [new])). map_of runs' i = map_of runs i)"
  using assms
proof (induction old arbitrary: runs)
  case Nil
  then show ?case by (auto simp: last_n_def)
next
  case (Cons x old)
  show ?case
  proof (cases "int (length (x # old @ [new])) > limit")
    case False
    then have "last_n (nat limit) (x # old @ [new]) = x # old @ [new]" by (intro last_n_all) simp
    with False Cons.prems show ?thesis by auto
  next
    case True
    obtain q where q: "map_of runs x = Some q" using Cons.prems(3) by (auto simp: gokeys_map_of)
    then have inactive: "\<not> Active (mem q)" by (rule Cons.prems(5)[rotated]) simp
    let ?runs = "gdel x runs"
    have g: "gowf ?runs" "gokeys ?runs = set (old @ [new])" using Cons.prems by (auto simp: keys_gdel)
    have "\<exists>runs'. trim_order limit mem ?runs (old @ [new]) = (runs', last_n (nat limit) (old @ [new])) \<and> gowf runs' \<and>
      gokeys runs' = set (last_n (nat limit) (old @ [new])) \<and>
      (\<forall>i \<in> set (last_n (nat limit) (old @ [new])). map_of runs' i = map_of ?runs i)"
      using Cons.prems g by (intro Cons.IH) (auto simp: map_of_gdel split: if_splits)
    moreover have "last_n (nat limit) (x # old @ [new]) = last_n (nat limit) (old @ [new])"
      using True Cons.prems(4) by (simp add: last_n_def nat_le_eq_zle Suc_diff_le)
    moreover have "x \<notin> set (last_n (nat limit) (old @ [new]))"
      using Cons.prems(1) unfolding last_n_def by (metis append_Cons distinct.simps(2) in_set_dropD)
    ultimately show ?thesis using True q inactive Cons.prems(2) by (auto simp: map_of_gdel)
  qed
qed

definition runs_ok :: "'h Coordinator \<Rightarrow> bool" where
  "runs_ok c \<longleftrightarrow>
     (\<forall>p < co_runtop c. Active (co_runmem c p) \<longrightarrow> co_active c = Some p) \<and>
     (\<forall>p. co_active c = Some p \<longrightarrow> p < co_runtop c) \<and>
     (\<forall>i p. map_of (co_runs c) i = Some p \<longrightarrow> p < co_runtop c) \<and>
     (\<forall>p. co_active c = Some p \<longrightarrow> Active (co_runmem c p) \<longrightarrow> map_of (co_runs c) (rn_id (co_runmem c p)) = Some p) \<and>
     gowf (co_runs c) \<and> distinct (co_order c) \<and> gokeys (co_runs c) = set (co_order c) \<and>
     1 \<le> cf_MaxRunHistory (co_cfg c) \<and> int (length (co_order c)) \<le> cf_MaxRunHistory (co_cfg c)"

lemma evolves_Active: "evolves r r' \<Longrightarrow> Active r' \<Longrightarrow> Active r"
  using evolves_terminal by (auto simp: Active_def)

lemma runs_okD:
  assumes "runs_ok c"
  shows "p < co_runtop c \<Longrightarrow> Active (co_runmem c p) \<Longrightarrow> co_active c = Some p"
    and "co_active c = Some p \<Longrightarrow> p < co_runtop c"
    and "map_of (co_runs c) i = Some p \<Longrightarrow> p < co_runtop c"
    and "co_active c = Some p \<Longrightarrow> Active (co_runmem c p) \<Longrightarrow> map_of (co_runs c) (rn_id (co_runmem c p)) = Some p"
    and "gowf (co_runs c)" and "distinct (co_order c)" and "gokeys (co_runs c) = set (co_order c)"
    and "1 \<le> cf_MaxRunHistory (co_cfg c)" and "int (length (co_order c)) \<le> cf_MaxRunHistory (co_cfg c)"
  using assms unfolding runs_ok_def by blast+

lemma co_frame_run:
  assumes "co_frame c c'"
  shows "evolves (co_runmem c p) (co_runmem c' p)" "Active (co_runmem c' p) \<Longrightarrow> Active (co_runmem c p)"
    "rn_id (co_runmem c' p) = rn_id (co_runmem c p)"
proof -
  show e: "evolves (co_runmem c p) (co_runmem c' p)" using assms by (simp add: co_frame_def)
  show "Active (co_runmem c' p) \<Longrightarrow> Active (co_runmem c p)" by (rule evolves_Active[OF e])
  show "rn_id (co_runmem c' p) = rn_id (co_runmem c p)" using e by (simp add: evolves_def)
qed

lemma runs_ok_frame:
  assumes "runs_ok c" "co_frame c c'"
  shows "runs_ok c'"
proof -
  have f: "co_cfg c' = co_cfg c" "co_runtop c' = co_runtop c" "co_runs c' = co_runs c" "co_order c' = co_order c"
    "co_active c' = co_active c" using assms(2) by (simp_all add: co_frame_def)
  note ok = runs_okD[OF assms(1)] and run = co_frame_run(2,3)[OF assms(2)]
  show ?thesis
    unfolding runs_ok_def f run(2) using ok(2,3,5-9) by (blast intro: ok(1,4) run(1))
qed

text \<open>The state in which \<open>StartRun\<close> has entered the new run and trimmed the history.\<close>

definition entered :: "'h Coordinator \<Rightarrow> 'h Run \<Rightarrow> 'h Coordinator" where
  "entered c run = trimHistoryLocked (c\<lparr>co_runmem := (co_runmem c)(co_runtop c := run), co_runtop := Suc (co_runtop c),
     co_runs := gput (rn_id run) (co_runtop c) (co_runs c), co_order := co_order c @ [rn_id run],
     co_active := Some (co_runtop c)\<rparr>)"

lemma entered_fields [simp]:
  "co_runmem (entered c run) = (co_runmem c)(co_runtop c := run)" "co_runtop (entered c run) = Suc (co_runtop c)"
  "co_active (entered c run) = Some (co_runtop c)" "co_cfg (entered c run) = co_cfg c"
  "co_mem (entered c run) = co_mem c" "co_sessions (entered c run) = co_sessions c"
  by (simp_all add: entered_def trimHistoryLocked_def split_beta Let_def)

lemma runs_ok_entered:
  assumes ok: "runs_ok c" and idle: "\<And>a. co_active c = Some a \<Longrightarrow> \<not> Active (co_runmem c a)"
    and fresh: "rn_id run \<notin> set (co_order c)"
  shows "runs_ok (entered c run) \<and> Lookup (entered c run) (rn_id run) = Some (co_runtop c)"
proof -
  let ?p = "co_runtop c" and ?i = "rn_id run" and ?n = "nat (cf_MaxRunHistory (co_cfg c))"
  let ?mem = "(co_runmem c)(?p := run)" and ?runs = "gput ?i ?p (co_runs c)" and ?order = "co_order c @ [?i]"
  have dead: "\<not> Active (co_runmem c q)" if "q < ?p" for q using runs_okD(1)[OF ok that] idle by blast
  have top: "q < ?p" if "map_of (co_runs c) i = Some q" for i q using runs_okD(3)[OF ok that] .
  have dead': "\<not> Active (?mem q)" if "i \<in> set (co_order c)" "map_of ?runs i = Some q" for i q
  proof -
    have "i \<noteq> ?i" using that(1) fresh by blast
    then have "map_of (co_runs c) i = Some q" using that(2) by simp
    from top[OF this] show ?thesis using dead by simp
  qed
  obtain runs' where t: "trim_order (cf_MaxRunHistory (co_cfg c)) ?mem ?runs ?order = (runs', last_n ?n ?order)"
    and r': "gowf runs'" "gokeys runs' = set (last_n ?n ?order)" "\<forall>i \<in> set (last_n ?n ?order). map_of runs' i = map_of ?runs i"
    using trim_order_keeps_last[of "co_order c" ?i ?runs "cf_MaxRunHistory (co_cfg c)" ?mem, OF _ _ _ _ dead'] fresh
      runs_okD(5-8)[OF ok]
    by (force simp: gokeys_gput)
  have n: "1 \<le> cf_MaxRunHistory (co_cfg c)" by (rule runs_okD(8)[OF ok])
  have e: "co_runs (entered c run) = runs'" "co_order (entered c run) = last_n ?n ?order"
    using t by (simp_all add: entered_def trimHistoryLocked_def)
  have sub: "set (last_n ?n ?order) \<subseteq> set ?order" by (auto simp: last_n_def dest: in_set_dropD)
  have last: "?i \<in> set (last_n ?n ?order)" using n by (cases ?n) (auto simp: last_n_def)
  have vals: "q < Suc ?p" if "map_of runs' i = Some q" for i q
  proof -
    have "i \<in> gokeys runs'" using that by (auto simp: gokeys_map_of)
    then have "map_of ?runs i = Some q" using r' that by simp
    then show ?thesis using top[of i q] by (auto split: if_splits)
  qed
  have d: "distinct (last_n ?n ?order)" unfolding last_n_def using runs_okD(6)[OF ok] fresh by (intro distinct_drop) simp
  have "runs_ok (entered c run)"
    unfolding runs_ok_def entered_fields e
    using dead r' last vals d n by (auto simp: less_Suc_eq)
  then show ?thesis using r' last by (simp add: Lookup_def e)
qed

text \<open>\<open>StartRun\<close> either refuses and changes nothing, or enters a new run and goes on from there.\<close>

definition new_run :: "'h Coordinator \<Rightarrow> go_time \<Rightarrow> string \<Rightarrow> string \<Rightarrow> test_plan \<Rightarrow> 'h Store \<Rightarrow> executor \<Rightarrow> string \<Rightarrow> 'h Run" where
  "new_run c now i name pl store ex source =
     (newRun now i (sanitiseName name) pl store (Peak ex) source)\<lparr>rn_startAt := now + cf_StartDelay (co_cfg c)\<rparr>"

lemma new_run_fields [simp]:
  "rn_id (new_run c now i name pl store ex source) = i" "rn_plan (new_run c now i name pl store ex source) = pl"
  "rn_phase (new_run c now i name pl store ex source) = RUN_PHASE_PENDING"
  by (simp_all add: new_run_def newRun_def)

definition started_state :: "'h runtime \<Rightarrow> go_time \<Rightarrow> 'h Coordinator \<Rightarrow> 'h Run \<Rightarrow> int \<Rightarrow> string \<Rightarrow> 'h Coordinator" where
  "started_state E now c run peak profile =
     (let p = co_runtop c; (parts, c1) = dispatch E (entered c run) p (healthySessions E c) peak in
      record_event E now (upd_run p (\<lambda>r. snd (setPhase now r RUN_PHASE_STARTING [])) (upd_run p (\<lambda>r. setParticipants r parts) c1)) p
        (event ''info'' ''coordinator''
          (''run '' @ rn_id run @ '' starting across '' @ fmt_d (int (length parts)) @ '' agent(s): '' @ profile)))"

lemma StartRun_accepts:
  assumes "NewExecutor (tp_load pl) = Inr ex" "healthySessions E c \<noteq> []"
    "\<And>a. co_active c = Some a \<Longrightarrow> \<not> Active (co_runmem c a)" "NewStore (rt_hdr E) (cf_Store (co_cfg c)) = Some store"
  shows "StartRun E now c i name (Inr pl) source =
    (Inr (co_runtop c), started_state E now c (new_run c now i name pl store ex source) (Peak ex) (Describe ex))"
proof -
  have none: "(case co_active c of Some a \<Rightarrow> if Active (co_runmem c a) then Some a else None | None \<Rightarrow> None) = None"
    using assms(3) by (simp split: option.split)
  have "rn_id (new_run c now i name pl store ex source) = i" by simp
  then show ?thesis
    using assms(1,2,4) none by (simp add: StartRun_def started_state_def entered_def Let_def split_beta flip: new_run_def)
qed

lemma StartRun_cases:
  obtains (refused) e where "StartRun E now c i name plan source = (Inl e, c)"
  | (started) pl ex store where "plan = Inr pl" "NewExecutor (tp_load pl) = Inr ex"
      "healthySessions E c \<noteq> []" "\<And>a. co_active c = Some a \<Longrightarrow> \<not> Active (co_runmem c a)"
      "NewStore (rt_hdr E) (cf_Store (co_cfg c)) = Some store"
      "StartRun E now c i name plan source =
        (Inr (co_runtop c), started_state E now c (new_run c now i name pl store ex source) (Peak ex) (Describe ex))"
proof (cases "\<exists>e. StartRun E now c i name plan source = (Inl e, c)")
  case True then show ?thesis using refused by blast
next
  case False
  obtain pl where pl: "plan = Inr pl" using False by (cases plan) (auto simp: StartRun_def)
  obtain ex where ex: "NewExecutor (tp_load pl) = Inr ex"
    using False pl by (cases "NewExecutor (tp_load pl)") (auto simp: StartRun_def)
  have hs: "healthySessions E c \<noteq> []" using False pl ex by (auto simp: StartRun_def)
  have idle: "\<not> Active (co_runmem c a)" if "co_active c = Some a" for a
    using False pl ex hs that by (auto simp: StartRun_def)
  obtain store where st: "NewStore (rt_hdr E) (cf_Store (co_cfg c)) = Some store"
    using False pl ex hs idle by (cases "NewStore (rt_hdr E) (cf_Store (co_cfg c))") (auto simp: StartRun_def split: option.splits)
  show ?thesis by (rule started[OF pl ex hs idle st]) (simp_all add: pl StartRun_accepts[OF ex hs idle st])
qed

lemma co_frame_started: "co_frame (entered c run) (started_state E now c run peak profile)"
  unfolding started_state_def Let_def split_beta
  by (intro co_frame_trans[OF co_frame_trans[OF co_frame_trans[OF co_frame_dispatch co_frame_upd_run] co_frame_upd_run]
      co_frame_record] evolves_intros)

lemma runs_ok_StartRun:
  assumes "runs_ok c" "i \<notin> set (co_order c)"
  shows "runs_ok (snd (StartRun E now c i name plan source))"
proof (cases rule: StartRun_cases[of E now c i name plan source])
  case refused then show ?thesis using assms by simp
next
  case (started pl ex store)
  show ?thesis
    using runs_ok_frame[OF conjunct1[OF runs_ok_entered[OF assms(1) started(4)]] co_frame_started] assms(2) started(6) by simp
qed

text \<open>
  Steps of a coordinator: anything may happen next, as long as \<open>NewRunID\<close> does not repeat the id
  of a run still in the history and a new session is allocated at an unused address.
\<close>

fun allowed :: "'h Coordinator \<Rightarrow> co_op \<Rightarrow> bool" where
  "allowed c (C_StartRun i name plan source) \<longleftrightarrow> i \<notin> set (co_order c)"
| "allowed c (C_join cfg peer first s) \<longleftrightarrow> s \<notin> snd ` set (co_sessions c)"
| "allowed c _ \<longleftrightarrow> True"

inductive co_steps :: "'h runtime \<Rightarrow> 'h Coordinator \<Rightarrow> 'h Coordinator \<Rightarrow> bool" for E where
  co_done: "co_steps E c c"
| co_step: "co_steps E c c' \<Longrightarrow> allowed c' op \<Longrightarrow> co_steps E c (co_apply E c' (now, op))"

lemma co_step_ok:
  assumes "runs_ok c" "allowed c op"
  shows "runs_ok (co_apply E c (now, op))"
proof (cases "is_start op")
  case True
  then obtain i name plan source where "op = C_StartRun i name plan source" by (cases op) auto
  with assms show ?thesis by (simp add: runs_ok_StartRun)
qed (rule runs_ok_frame[OF assms(1) co_frame_apply])

lemma co_steps_ok: "co_steps E c c' \<Longrightarrow> runs_ok c \<Longrightarrow> runs_ok c'"
  by (induction rule: co_steps.induct) (auto intro: co_step_ok)

lemma coord_New_ok: "runs_ok (coord_New mem runmem cfg)"
  by (simp add: runs_ok_def coord_New_def cf_applyDefaults_def DefaultMaxRunHistory_def Let_def)

lemma StartRun_evolves:
  "co_runtop c \<le> co_runtop (snd (StartRun E now c i name plan source)) \<and>
   (p < co_runtop c \<longrightarrow> evolves (co_runmem c p) (co_runmem (snd (StartRun E now c i name plan source)) p))"
proof (cases rule: StartRun_cases[of E now c i name plan source])
  case refused then show ?thesis by simp
next
  case (started pl ex store)
  have f: "co_frame (entered c (new_run c now i name pl store ex source)) (snd (StartRun E now c i name plan source))"
    using co_frame_started started(6) by simp
  then have "co_runtop (snd (StartRun E now c i name plan source)) = Suc (co_runtop c)" by (simp add: co_frame_def)
  then show ?thesis using co_frame_run(1)[OF f, of p] by (auto split: if_splits)
qed

lemma co_apply_evolves:
  "co_runtop c \<le> co_runtop (co_apply E c (now, op)) \<and>
   (p < co_runtop c \<longrightarrow> evolves (co_runmem c p) (co_runmem (co_apply E c (now, op)) p))"
proof (cases "is_start op")
  case True
  then obtain i name plan source where "op = C_StartRun i name plan source" by (cases op) auto
  then show ?thesis using StartRun_evolves[of c E now i name plan source p] by simp
next
  case False
  then show ?thesis using co_frame_apply[OF False, of c E now] by (simp add: co_frame_def)
qed

lemma co_steps_evolves:
  "co_steps E c c' \<Longrightarrow> co_runtop c \<le> co_runtop c' \<and> (p < co_runtop c \<longrightarrow> evolves (co_runmem c p) (co_runmem c' p))"
proof (induction rule: co_steps.induct)
  case (co_step c c' op now)
  then show ?case using co_apply_evolves[of c' E now op p] evolves_trans[of "co_runmem c p" "co_runmem c' p"] by auto
qed simp

subsection \<open>Verdicts, exclusion and history\<close>

text \<open>
  C16. A finished run's verdict is final: once a run is completed, failed or aborted, no later
  sequence of API calls, ticks, agent messages, rebalances or new runs changes its phase, its
  end time, its stop reason or its failure, nor clears a breach that was recorded.
\<close>

theorem verdict_is_final:
  assumes "co_steps E c c'" and "p < co_runtop c" and "IsTerminal (rn_phase (co_runmem c p))"
  shows "verdict_of (co_runmem c' p) = verdict_of (co_runmem c p) \<and>
    (rn_breached (co_runmem c p) \<longrightarrow> rn_breached (co_runmem c' p))"
  using co_steps_evolves[OF assms(1), of p] assms(2,3) by (simp add: evolves_def)

text \<open>
  C15. Only one run at a time: in every reachable state at most one run is in progress, it is the one
  \<open>active\<close> points at and \<open>Lookup\<close> finds it by its id however full the history is; and while it is
  in progress \<open>StartRun\<close> refuses, whatever it is given, and changes nothing.
\<close>

theorem one_run_at_a_time:
  assumes "co_steps E (coord_New mem runmem cfg) c" and "p < co_runtop c" and "Active (co_runmem c p)"
  shows "ActiveRun c = Some p \<and> Lookup c (rn_id (co_runmem c p)) = Some p \<and>
    (\<forall>q < co_runtop c. Active (co_runmem c q) \<longrightarrow> q = p) \<and>
    (\<exists>e. StartRun E now c i name plan source = (Inl e, c))"
proof -
  have ok: "runs_ok c" by (rule co_steps_ok[OF assms(1) coord_New_ok])
  have a: "co_active c = Some p" by (rule runs_okD(1)[OF ok assms(2,3)])
  have "\<exists>e. StartRun E now c i name plan source = (Inl e, c)"
  proof (cases rule: StartRun_cases[of E now c i name plan source])
    case (started pl ex store) then show ?thesis using a assms(3) by blast
  qed blast
  then show ?thesis
    using a runs_okD(4)[OF ok a assms(3)] runs_okD(1)[OF ok] by (auto simp: ActiveRun_def Lookup_def)
qed

text \<open>
  The history is bounded: however many runs are started, the coordinator keeps at most
  \<open>MaxRunHistory\<close> of them, one table entry for each remembered id and no duplicates.
\<close>

theorem history_bounded:
  assumes "co_steps E (coord_New mem runmem cfg) c"
  shows "int (length (co_order c)) \<le> cf_MaxRunHistory (co_cfg c) \<and> distinct (co_order c) \<and>
    length (co_runs c) = length (co_order c) \<and> (\<forall>i. Lookup c i \<noteq> None \<longleftrightarrow> i \<in> set (co_order c))"
proof -
  have ok: "runs_ok c" by (rule co_steps_ok[OF assms coord_New_ok])
  have "length (co_runs c) = length (co_order c)"
    using card_gokeys[OF runs_okD(5)[OF ok]] runs_okD(7)[OF ok] distinct_card[OF runs_okD(6)[OF ok]] by simp
  then show ?thesis using runs_okD(5-9)[OF ok] by (auto simp: Lookup_def gokeys_map_of)
qed

subsection \<open>Stopping\<close>

lemma upd_run_mem [simp]: "co_runmem (upd_run p f c) q = (if q = p then f (co_runmem c p) else co_runmem c q)"
  by (simp add: upd_run_def)

lemma record_event_mem [simp]:
  "co_runmem (record_event E now c p e) q = (if q = p then addEvent now (co_runmem c p) (stamp now e) else co_runmem c q)"
  by (simp add: record_event_def co_publish_def Let_def)

lemma setPhase_terminal: "IsTerminal phase \<Longrightarrow> IsTerminal (rn_phase (snd (setPhase now r phase reason)))"
  by (auto simp: setPhase_def Let_def)

lemma finish_terminal: "IsTerminal phase \<Longrightarrow> IsTerminal (rn_phase (co_runmem (finish E now c p phase reason) p))"
proof -
  assume t: "IsTerminal phase"
  let ?r = "co_runmem (snd (judge E c p)) p"
  have "IsTerminal (rn_phase ?r)" if "\<not> fst (setPhase now ?r phase reason)"
    using that by (simp add: setPhase_def Let_def split: if_splits)
  then show ?thesis using setPhase_terminal[OF t, of now ?r reason] by (simp add: finish_def Let_def split_beta)
qed

lemma checkStopTimeout_fires:
  assumes "\<not> is_zero_time (rn_stoppingAt (co_runmem c p))"
    and "limit = GraceBudget (co_runmem c p) + stopTimeoutMargin" "limit < 2 ^ 63"
    and "rn_stoppingAt (co_runmem c p) + limit \<le> now"
  shows "IsTerminal (rn_phase (co_runmem (checkStopTimeout E now c p) p))"
proof -
  have "0 < limit" using assms(2) by (simp add: GraceBudget_def defaultGraceBudget_def stopTimeoutMargin_def Let_def split: option.split)
  then have "i64 limit = limit" using assms(3) by (simp add: i64_small)
  moreover have "limit \<le> time_Sub now (rn_stoppingAt (co_runmem c p))" using assms(3,4) by (intro time_Sub_ge) simp_all
  ultimately show ?thesis
    using assms(1,2) \<open>0 < limit\<close> finish_terminal[of RUN_PHASE_ABORTED]
    by (simp add: checkStopTimeout_def StoppingFor_def Let_def)
qed

lemma GraceBudget_evolves: "evolves r r' \<Longrightarrow> GraceBudget r' = GraceBudget r"
  by (simp add: evolves_def GraceBudget_def)

lemma tick_ends_stopped:
  assumes ok: "runs_ok c" "p < co_runtop c" and stopping: "\<not> is_zero_time (rn_stoppingAt (co_runmem c p))"
    and limit: "limit = GraceBudget (co_runmem c p) + stopTimeoutMargin" "limit < 2 ^ 63"
    and now: "rn_stoppingAt (co_runmem c p) + limit \<le> now"
  shows "IsTerminal (rn_phase (co_runmem (co_tick E now c) p))"
proof (rule ccontr)
  assume "\<not> IsTerminal (rn_phase (co_runmem (co_tick E now c) p))"
  then have act': "Active (co_runmem (co_tick E now c) p)" by (simp add: Active_def)
  have "Active (co_runmem c p)" by (rule co_frame_run(2)[OF co_frame_tick act'])
  then have a: "co_active c = Some p" by (rule runs_okD(1)[OF ok])
  let ?c1 = "expireAgents E now c"
  have a1: "co_active ?c1 = Some p" using a co_frame_expireAgents[of c E now] by (simp add: co_frame_def)
  let ?c2 = "upd_run p (\<lambda>r. r\<lparr>rn_store := CloseStale (rt_hdr E) (rn_store r) now\<rparr>) ?c1"
  let ?c3 = "abort_if_requested E now (fst (judge E ?c2 p)) (snd (judge E ?c2 p)) p"
  let ?c4 = "checkCompletion E now ?c3 p"
  have f2: "co_frame ?c1 ?c2" by (intro co_frame_upd_run evolves_intros)
  have f4: "co_frame c ?c4"
    by (rule co_frame_trans[OF co_frame_trans[OF co_frame_trans[OF co_frame_trans[OF co_frame_trans[OF
      co_frame_expireAgents f2] co_frame_judge] co_frame_abort] co_frame_refl] co_frame_checkCompletion])
  have e4: "evolves (co_runmem c p) (co_runmem ?c4 p)" by (rule co_frame_run(1)[OF f4])
  have s4: "rn_stoppingAt (co_runmem ?c4 p) = rn_stoppingAt (co_runmem c p)" using e4 stopping by (simp add: evolves_def)
  have "IsTerminal (rn_phase (co_runmem (checkStopTimeout E now ?c4 p) p))"
    by (rule checkStopTimeout_fires) (use stopping limit now s4 GraceBudget_evolves[OF e4] in simp_all)
  then have t5: "IsTerminal (rn_phase (co_runmem (if Active (co_runmem ?c3 p) then checkStopTimeout E now ?c4 p else ?c3) p))"
    by (simp add: Active_def)
  let ?c5 = "if Active (co_runmem ?c3 p) then checkStopTimeout E now ?c4 p else ?c3"
  have "co_runmem (co_tick E now c) p = snd (ticksSince (rt_points E) (sc_Resolution (cf_Store (co_cfg ?c5))) (co_runmem ?c5 p))"
    by (simp add: co_tick_def Let_def split_beta a1 co_publish_def del: if_split)
  then have "IsTerminal (rn_phase (co_runmem (co_tick E now c) p))" using evolves_terminal[OF evolves_ticksSince t5] by simp
  with act' show False by (simp add: Active_def)
qed

text \<open>
  C3. A stop always ends the run: when \<open>StopRun\<close> has first been accepted at time \<open>t0\<close>, then whatever
  happens afterwards (agents that die, never answer or go on reporting that they run, further
  stops, rebalances), the first tick past the plan's grace budget plus the margin leaves the run
  in a terminal phase.
\<close>

theorem stop_ends_run:
  assumes "co_steps E (coord_New mem runmem cfg) c" and "Lookup c i = Some p"
    and "is_zero_time (rn_stoppingAt (co_runmem c p))" and "\<not> is_zero_time t0"
    and "StopRun E t0 c i graceful reason = (None, c1)" and "co_steps E c1 c2"
    and "limit = GraceBudget (co_runmem c p) + stopTimeoutMargin" and "limit < 2 ^ 63" and "t0 + limit \<le> now"
  shows "IsTerminal (rn_phase (co_runmem (co_tick E now c2) p))"
proof -
  have ok: "runs_ok c" by (rule co_steps_ok[OF assms(1) coord_New_ok])
  have f: "co_frame c c1" using co_frame_StopRun[of c E t0 i graceful reason] assms(5) by simp
  have ok1: "runs_ok c1" by (rule runs_ok_frame[OF ok f])
  have ok2: "runs_ok c2" by (rule co_steps_ok[OF assms(6) ok1])
  have "p < co_runtop c" using runs_okD(3)[OF ok] assms(2) by (simp add: Lookup_def)
  then have top: "p < co_runtop c1" using f by (simp add: co_frame_def)
  have act: "Active (co_runmem c p)" using assms(2,5) by (auto simp: StopRun_def split: if_splits)
  have s1: "rn_stoppingAt (co_runmem c1 p) = t0"
    using assms(2,3,5) act by (auto simp: StopRun_def Let_def setPhase_def addEvent_def Active_def)
  have e: "evolves (co_runmem c1 p) (co_runmem c2 p)" and top2: "p < co_runtop c2"
    using co_steps_evolves[OF assms(6), of p] top by auto
  have s2: "rn_stoppingAt (co_runmem c2 p) = t0" using e s1 assms(4) by (simp add: evolves_def)
  have g: "GraceBudget (co_runmem c2 p) = GraceBudget (co_runmem c p)"
    using GraceBudget_evolves[OF e] GraceBudget_evolves[OF co_frame_run(1)[OF f]] by simp
  show ?thesis by (rule tick_ends_stopped[OF ok2 top2]) (use assms s2 g in simp_all)
qed

subsection \<open>The agents' sessions\<close>

text \<open>Every step but a join or a departure keeps the registry and the sessions' ids.\<close>

definition reg_frame :: "'h Coordinator \<Rightarrow> 'h Coordinator \<Rightarrow> bool" where
  "reg_frame c c' \<longleftrightarrow> co_sessions c' = co_sessions c \<and> (\<forall>s. se_ID (co_mem c' s) = se_ID (co_mem c s))"

lemma reg_frame_refl [simp]: "reg_frame c c"
  by (simp add: reg_frame_def)

lemma reg_frame_trans: "reg_frame c c' \<Longrightarrow> reg_frame c' c'' \<Longrightarrow> reg_frame c c''"
  by (simp add: reg_frame_def)

lemma run_ops_mem [simp]:
  "co_mem (upd_run p f c) = co_mem c" "co_sessions (upd_run p f c) = co_sessions c"
  "co_mem (record_event E now c p e) = co_mem c" "co_sessions (record_event E now c p e) = co_sessions c"
  by (simp_all add: upd_run_def record_event_def co_publish_def Let_def)

lemma reg_frame_run [simp]: "reg_frame c (upd_run p f c)" "reg_frame c (record_event E now c q e)" "reg_frame c (co_publish E c u)"
  "reg_frame c (recordGlobal E now c e)" "reg_frame c (spawn_rebalance c)"
  by (simp_all add: reg_frame_def upd_run_def record_event_def co_publish_def recordGlobal_def spawn_rebalance_def Let_def
      split: option.split)

lemma reg_frame_send_all:
  assumes "\<And>c x. reg_frame c (snd (f c x))"
  shows "reg_frame c (snd (send_all f c xs))"
proof (induction xs arbitrary: c)
  case (Cons x xs)
  show ?case using reg_frame_trans[OF assms Cons, of c x] by (simp add: split_beta Let_def)
qed simp

lemma reg_frame_dispatch_one: "reg_frame c (snd (dispatch_one E p n vs rs is c x))"
  by (auto simp: dispatch_one_def Let_def split_beta reg_frame_def split: option.split)

lemma reg_frame_rebalance_one: "reg_frame c (snd (rebalance_one E p n ramp known vs rs c x))"
  by (auto simp: rebalance_one_def Let_def split_beta reg_frame_def)

lemma reg_frame_rebalance: "reg_frame c (rebalance E c p)"
proof -
  have "reg_frame c (upd_run p (\<lambda>r. setParticipants r parts) (snd (send_all (rebalance_one E p n ramp known vs rs)
      (upd_run p (\<lambda>r. r\<lparr>rn_scaleRamp := 0\<rparr>) c) xs)))" for parts n ramp known vs rs xs
    by (rule reg_frame_trans[OF reg_frame_trans[OF reg_frame_run(1) reg_frame_send_all[OF reg_frame_rebalance_one]] reg_frame_run(1)])
  then show ?thesis by (simp add: rebalance_def Let_def split_beta)
qed

lemma se_ID_broadcast: "se_ID (snd (broadcast_loop h e ps msg) s) = se_ID (h s)"
proof (induction ps arbitrary: h e)
  case (Cons q ps)
  then show ?case using session_frame(3)[of h q msg s] by (simp add: split_beta Let_def)
qed simp

lemma reg_frame_StopRun: "reg_frame c (snd (StopRun E now c i graceful reason))"
  by (simp add: StopRun_def Let_def reg_frame_def Broadcast_def se_ID_broadcast split: option.split)

lemma reg_frame_ScaleRun: "reg_frame c (snd (ScaleRun E now c i peak ramp))"
proof -
  have "reg_frame c (record_event E now (rebalance E (upd_run p f c) p) p e)" for p f e
    by (rule reg_frame_trans[OF reg_frame_trans[OF reg_frame_run(1) reg_frame_rebalance] reg_frame_run(2)])
  then show ?thesis by (auto simp: ScaleRun_def Let_def split: option.split)
qed

lemma reg_frame_judge: "reg_frame c (snd (judge E c p))"
  by (simp add: judge_def Let_def split_beta)

lemma reg_frame_finish: "reg_frame c (finish E now c p phase reason)"
  using reg_frame_judge[of c E p] reg_frame_trans[OF reg_frame_judge reg_frame_trans[OF reg_frame_run(1) reg_frame_run(2)]]
  by (auto simp: finish_def Let_def split_beta)

lemma session_Close_ids: "se_ID (foldl session_Close h ps s) = se_ID (h s)"
  by (induction ps arbitrary: h) simp_all

lemma reg_frame_expireAgents: "reg_frame c (expireAgents E now c)"
proof -
  have close: "reg_frame c (c\<lparr>co_mem := foldl session_Close (co_mem c) lost\<rparr>)" for lost
    by (simp add: reg_frame_def session_Close_ids)
  then show ?thesis
    using reg_frame_trans[OF close reg_frame_trans[OF reg_frame_run(2) reg_frame_rebalance]]
    by (auto simp: expireAgents_def Let_def split: option.split)
qed

lemma reg_frame_tick: "reg_frame c (co_tick E now c)"
proof -
  have abort: "reg_frame c (abort_if_requested E now results c p)" for c results p
    by (auto simp: abort_if_requested_def Let_def split: option.split intro: reg_frame_trans[OF reg_frame_run(2) reg_frame_StopRun])
  have check: "reg_frame c (checkStopTimeout E now (checkCompletion E now c p) p)" for c p
    by (rule reg_frame_trans[of _ "checkCompletion E now c p"])
      (auto simp: checkCompletion_def checkStopTimeout_def Let_def reg_frame_finish)
  have judged: "reg_frame c (abort_if_requested E now (fst (judge E (upd_run p f c) p)) (snd (judge E (upd_run p f c) p)) p)" for c p f
    by (rule reg_frame_trans[OF reg_frame_trans[OF reg_frame_run(1) reg_frame_judge] abort])
  have last: "reg_frame c (co_publish E (upd_run p g c) u)" for c p g u
    by (rule reg_frame_trans[OF reg_frame_run(1) reg_frame_run(3)])
  have "reg_frame (expireAgents E now c) (co_tick E now c)"
    unfolding co_tick_def Let_def split_beta
    by (auto split: option.split intro: reg_frame_trans[OF judged last] reg_frame_trans[OF judged reg_frame_trans[OF check last]])
  then show ?thesis by (rule reg_frame_trans[OF reg_frame_expireAgents])
qed

lemma reg_frame_receive: "reg_frame c (receive_one (coordinator_handler E) now s c msg)"
proof (cases msg)
  case (NodeUp_RunStatus u)
  have "reg_frame c (OnRunStatus E now c s u)" for c
    by (auto simp: OnRunStatus_def Let_def split: option.split
        intro: reg_frame_trans[OF reg_frame_run(1) reg_frame_run(1)] reg_frame_trans[OF reg_frame_run(1) reg_frame_run(2)])
  moreover have "reg_frame c (c\<lparr>co_mem := (co_mem c)(s := (co_mem c s)\<lparr>se_lastSeen := now\<rparr>)\<rparr>)" by (simp add: reg_frame_def)
  ultimately show ?thesis using NodeUp_RunStatus reg_frame_trans by (fastforce simp: receive_one_def coordinator_handler_def)
next
  case (NodeUp_Log e)
  have "reg_frame c (OnLog E now c s e)" for c by (simp add: OnLog_def Let_def split: option.split)
  moreover have "reg_frame c (c\<lparr>co_mem := (co_mem c)(s := (co_mem c s)\<lparr>se_lastSeen := now\<rparr>)\<rparr>)" by (simp add: reg_frame_def)
  ultimately show ?thesis using NodeUp_Log reg_frame_trans by (fastforce simp: receive_one_def coordinator_handler_def)
qed (auto simp: receive_one_def coordinator_handler_def reg_frame_def OnHeartbeat_def OnMetrics_def upd_run_def Let_def split: option.split)

lemma registry_ok_frame: "registry_ok (co_mem c) (co_sessions c) \<Longrightarrow> reg_frame c c' \<Longrightarrow> registry_ok (co_mem c') (co_sessions c')"
  by (simp add: registry_ok_def reg_frame_def)

lemma registry_ok_join:
  assumes "registry_ok (co_mem c) (co_sessions c)" "s \<notin> snd ` set (co_sessions c)"
  shows "registry_ok (co_mem (snd (join_open (coordinator_handler E) cfg now peer first s c)))
    (co_sessions (snd (join_open (coordinator_handler E) cfg now peer first s c)))"
proof (cases "awaitHello first")
  case (Inr hello)
  let ?h = "(co_mem c)(s := new_session cfg now peer hello)" and ?r = "co_sessions c"
  let ?A = "registry_Add ?h ?r s"
  have old: "se_ID (?h p) = k" if "map_of ?r k = Some p" for k p
  proof -
    have "p \<in> snd ` set ?r" using map_of_SomeD[OF that] by force
    then show ?thesis using assms that by (auto simp: registry_ok_def)
  qed
  have ids: "se_ID (fst (snd ?A) p) = se_ID (?h p)" for p
    by (simp add: registry_Add_def Let_def split: option.split)
  have add: "snd (snd ?A) = gput (se_ID (?h s)) s ?r" by (simp add: registry_Add_def Let_def)
  have "se_ID (?h p) = k" if "map_of (gput (se_ID (?h s)) s ?r) k = Some p" for k p
    using that old[of k p] by (cases "k = se_ID (?h s)") (simp_all del: fun_upd_apply add: fun_upd_other fun_upd_same)
  then have "registry_ok (fst (snd ?A)) (snd (snd ?A))"
    using assms(1) unfolding registry_ok_def ids add by blast
  moreover let ?c = "snd (OnJoin E now (c\<lparr>co_mem := ?h\<rparr>) s)"
  have "co_sessions ?c = snd (snd ?A)" "co_mem ?c = fst (snd ?A)"
    by (simp_all add: OnJoin_def Let_def split_beta spawn_rebalance_def recordGlobal_def co_publish_def split: option.split)
  ultimately show ?thesis by (simp add: join_open_coordinator Inr)
qed (simp add: join_open_coordinator assms(1))

lemma registry_ok_leave:
  assumes "registry_ok (co_mem c) (co_sessions c)"
  shows "registry_ok (co_mem (join_close (coordinator_handler E) now s c)) (co_sessions (join_close (coordinator_handler E) now s c))"
proof -
  let ?c = "join_close (coordinator_handler E) now s c"
  have "co_mem ?c = session_Close (co_mem c) s"
    "co_sessions ?c = snd (registry_Remove (session_Close (co_mem c) s) (co_sessions c) s)"
    by (auto simp: join_close_def coordinator_handler_def OnLeave_def Let_def split_beta spawn_rebalance_def recordGlobal_def
        co_publish_def registry_Remove_def split: option.split)
  moreover have "gowf (co_sessions c)" and ids: "\<And>k p. map_of (co_sessions c) k = Some p \<Longrightarrow> se_ID (co_mem c p) = k"
    using assms by (auto simp: registry_ok_def)
  moreover have "map_of (snd (registry_Remove (session_Close (co_mem c) s) (co_sessions c) s)) k = Some p \<Longrightarrow>
      map_of (co_sessions c) k = Some p" for k p
    using reg.lookup_remove[OF calculation(3), of "session_Close (co_mem c) s" s k] by (simp split: if_splits)
  ultimately show ?thesis
    using reg.inv_remove[of "co_sessions c" "session_Close (co_mem c) s" s] unfolding registry_ok_def by simp
qed

lemma reg_frame_StartRun: "reg_frame c (snd (StartRun E now c i name plan source))"
proof (cases rule: StartRun_cases[of E now c i name plan source])
  case (started pl ex store)
  have "reg_frame c (entered c run)" for run by (simp add: reg_frame_def)
  moreover have "reg_frame (entered c run) (started_state E now c run peak profile)" for run peak profile
    unfolding started_state_def dispatch_def Let_def split_beta
    by (rule reg_frame_trans[OF reg_frame_trans[OF reg_frame_trans[OF reg_frame_send_all[OF reg_frame_dispatch_one]
      reg_frame_run(1)] reg_frame_run(1)] reg_frame_run(2)])
  ultimately show ?thesis using started(6) reg_frame_trans by fastforce
qed simp

lemma registry_step_ok:
  assumes "registry_ok (co_mem c) (co_sessions c)" "allowed c op"
  shows "registry_ok (co_mem (co_apply E c (now, op))) (co_sessions (co_apply E c (now, op)))"
proof (cases op)
  case (C_join cfg peer first s) then show ?thesis using registry_ok_join assms by simp
next
  case (C_leave s) then show ?thesis using registry_ok_leave assms by simp
next
  case (C_rebalance j)
  have "reg_frame c (rebalance E (c\<lparr>co_pending := x\<rparr>) q)" for x q
    using reg_frame_rebalance[of "c\<lparr>co_pending := x\<rparr>" E q] by (simp add: reg_frame_def)
  then show ?thesis using registry_ok_frame[OF assms(1)] C_rebalance assms(1) by simp
next
  case (C_pump s)
  have "reg_frame c (c\<lparr>co_mem := snd (send_one (co_mem c) s)\<rparr>)" by (simp add: reg_frame_def)
  from registry_ok_frame[OF assms(1) this] show ?thesis using C_pump by simp
next
  case (C_StartRun i name plan source)
  then show ?thesis using registry_ok_frame[OF assms(1) reg_frame_StartRun] by simp
next
  case (C_StopRun i graceful reason)
  then show ?thesis using registry_ok_frame[OF assms(1) reg_frame_StopRun] by simp
next
  case (C_ScaleRun i peak ramp)
  then show ?thesis using registry_ok_frame[OF assms(1) reg_frame_ScaleRun] by simp
next
  case C_tick
  then show ?thesis using registry_ok_frame[OF assms(1) reg_frame_tick] by simp
next
  case (C_receive s msg)
  then show ?thesis using registry_ok_frame[OF assms(1) reg_frame_receive] by simp
qed (use assms(1) in simp)

lemma co_steps_registry:
  "co_steps E c c' \<Longrightarrow> registry_ok (co_mem c) (co_sessions c) \<Longrightarrow> registry_ok (co_mem c') (co_sessions c')"
  by (induction rule: co_steps.induct) (auto intro: registry_step_ok)

lemma coord_New_registry: "registry_ok (co_mem (coord_New mem runmem cfg)) (co_sessions (coord_New mem runmem cfg))"
  by (simp add: registry_ok_def coord_New_def NewSessionRegistry_def)

subsection \<open>Handing out work\<close>

lemma find_enumerate:
  "distinct ss \<Longrightarrow> k < length ss \<Longrightarrow> find (\<lambda>x. snd x = ss ! k) (enumerate n ss) = Some (n + k, ss ! k)"
proof (induction ss arbitrary: n k)
  case (Cons s ss)
  then show ?case by (cases k) (auto simp: nth_eq_iff_index_eq)
qed simp

text \<open>
  What \<open>dispatch\<close> and \<open>rebalance\<close> have in common: each agent in turn gets one command, and its
  participant records the share the command carries.
\<close>

locale work_order =
  fixes order_one :: "'h Coordinator \<Rightarrow> nat \<times> sref \<Rightarrow> participant \<times> 'h Coordinator"
    and msg :: "'h Coordinator \<Rightarrow> nat \<times> sref \<Rightarrow> NodeDown" and vs :: "int list"
  assumes one_mem: "co_mem (snd (order_one c x)) = (co_mem c)(snd x := deliver (msg c x) (co_mem c (snd x)))"
    and one_runmem: "co_runmem (snd (order_one c x)) = co_runmem c"
    and one_id: "pa_AgentID (fst (order_one c x)) = se_ID (co_mem c (snd x))"
    and one_vus: "pa_VUQuota (fst (order_one c x)) = vs ! fst x"
    and msg_cong: "co_runmem c' = co_runmem c \<Longrightarrow> (\<And>s. se_ID (co_mem c' s) = se_ID (co_mem c s)) \<Longrightarrow> msg c' x = msg c x"
begin

lemma one_ids: "se_ID (co_mem (snd (order_one c x)) s) = se_ID (co_mem c s)"
  by (simp add: one_mem deliver_def)

lemma all_runmem: "co_runmem (snd (send_all order_one c xs)) = co_runmem c"
proof (induction xs arbitrary: c)
  case (Cons x xs) then show ?case by (simp add: split_beta Let_def one_runmem)
qed simp

lemma all_frame:
  "se_closed (co_mem (snd (send_all order_one c xs)) s) = se_closed (co_mem c s)"
  "se_Hello (co_mem (snd (send_all order_one c xs)) s) = se_Hello (co_mem c s)"
proof (induction xs arbitrary: c)
  case (Cons x xs)
  { case 1 show ?case using Cons(1)[of "snd (order_one c x)"] by (simp add: split_beta Let_def one_mem deliver_def) }
  { case 2 show ?case using Cons(2)[of "snd (order_one c x)"] by (simp add: split_beta Let_def one_mem deliver_def) }
qed simp_all

lemma all_parts:
  "map pa_AgentID (fst (send_all order_one c xs)) = map (\<lambda>x. se_ID (co_mem c (snd x))) xs"
  "map pa_VUQuota (fst (send_all order_one c xs)) = map (\<lambda>x. vs ! fst x) xs"
proof (induction xs arbitrary: c)
  case (Cons x xs)
  { case 1 show ?case using Cons(1)[of "snd (order_one c x)"] by (simp add: split_beta Let_def one_id one_ids) }
  { case 2 show ?case using Cons(2)[of "snd (order_one c x)"] by (simp add: split_beta Let_def one_vus) }
qed simp_all

lemma all_mem:
  "distinct (map snd xs) \<Longrightarrow> co_mem (snd (send_all order_one c xs)) s =
     (case find (\<lambda>x. snd x = s) xs of Some x \<Rightarrow> deliver (msg c x) (co_mem c s) | None \<Rightarrow> co_mem c s)"
proof (induction xs arbitrary: c)
  case (Cons x xs)
  let ?c = "snd (order_one c x)"
  have m: "msg ?c y = msg c y" for y by (rule msg_cong[OF one_runmem one_ids])
  have "find (\<lambda>y. snd y = snd x) xs = None" using Cons.prems by (force simp: find_None_iff image_iff)
  then show ?case using Cons by (auto simp: split_beta Let_def one_mem m split: option.split)
qed simp

text \<open>Agents \<open>ss\<close> with distinct ids, the \<open>k\<close>-th getting the share \<open>vs ! k\<close>.\<close>

lemma handed_out:
  fixes c :: "'h Coordinator"
  assumes "distinct ss" "inj_on (\<lambda>s. se_ID (co_mem c s)) (set ss)" "length vs = length ss"
    and "send_all order_one c (enumerate 0 ss) = (parts, c')"
  shows "distinct (map pa_AgentID parts)" "map pa_AgentID parts = map (\<lambda>s. se_ID (co_mem c s)) ss"
    "map pa_VUQuota parts = vs"
    and "k < length ss \<Longrightarrow> map_of (map (\<lambda>x. (pa_AgentID x, x)) parts) (se_ID (co_mem c (ss ! k))) = Some (parts ! k)"
    and "k < length ss \<Longrightarrow> co_mem c' (ss ! k) = deliver (msg c (k, ss ! k)) (co_mem c (ss ! k))"
proof -
  have ids: "map pa_AgentID parts = map (\<lambda>s. se_ID (co_mem c s)) ss"
    using all_parts(1)[of c "enumerate 0 ss"] assms(4) by (auto simp: nth_enumerate_eq intro!: nth_equalityI)
  have vus: "map pa_VUQuota parts = map (\<lambda>x. vs ! fst x) (enumerate 0 ss)"
    using all_parts(2)[of c "enumerate 0 ss"] assms(4) by simp
  show d: "distinct (map pa_AgentID parts)" unfolding ids using assms(1,2) by (simp add: distinct_map)
  show "map pa_AgentID parts = map (\<lambda>s. se_ID (co_mem c s)) ss" by (rule ids)
  show "map pa_VUQuota parts = vs" unfolding vus using assms(3) by (intro nth_equalityI) (simp_all add: nth_enumerate_eq)
  assume k: "k < length ss"
  have len: "length parts = length ss" using arg_cong[OF ids, of length] by simp
  have "pa_AgentID (parts ! k) = se_ID (co_mem c (ss ! k))" using arg_cong[OF ids, of "\<lambda>l. l ! k"] k len by simp
  moreover have "(pa_AgentID (parts ! k), parts ! k) \<in> set (map (\<lambda>x. (pa_AgentID x, x)) parts)" using k len by simp
  ultimately show "map_of (map (\<lambda>x. (pa_AgentID x, x)) parts) (se_ID (co_mem c (ss ! k))) = Some (parts ! k)"
    using d by (simp add: map_of_eq_Some_iff comp_def)
  have "distinct (map snd (enumerate 0 ss))" using assms(1) by simp
  from all_mem[OF this, of c "ss ! k"] show "co_mem c' (ss ! k) = deliver (msg c (k, ss ! k)) (co_mem c (ss ! k))"
    using assms(4) find_enumerate[OF assms(1) k, of 0] by simp
qed

end

interpretation dispatching: work_order "dispatch_one E p n vs rs is"
  "\<lambda>c x. NodeDown_StartRun (start_msg (co_runmem c p) n (fst x) (vs ! fst x) (rs ! fst x)
     (if plan_iterations (rn_plan (co_runmem c p)) > 0 then word_of_int (is ! fst x) else 0))" vs
  for E :: "'h runtime" and p n vs rs "is"
proof unfold_locales
  fix c :: "'h Coordinator" and x :: "nat \<times> sref"
  let ?m = "NodeDown_StartRun (start_msg (co_runmem c p) n (fst x) (vs ! fst x) (rs ! fst x)
     (if plan_iterations (rn_plan (co_runmem c p)) > 0 then word_of_int (is ! fst x) else 0))"
  show "co_mem (snd (dispatch_one E p n vs rs is c x)) = (co_mem c)(snd x := deliver ?m (co_mem c (snd x)))"
    using session_Send_deliver[of "co_mem c" "snd x" ?m]
    by (auto simp: dispatch_one_def Let_def split_beta split: option.split)
qed (auto simp: dispatch_one_def Let_def split_beta split: option.split)

definition rebalance_msg :: "rref \<Rightarrow> nat \<Rightarrow> duration \<Rightarrow> (string \<Rightarrow> bool) \<Rightarrow> int list \<Rightarrow> int list \<Rightarrow> 'h Coordinator \<Rightarrow> nat \<times> sref \<Rightarrow> NodeDown" where
  "rebalance_msg p n ramp known vs rs c x =
     (if known (se_ID (co_mem c (snd x)))
      then NodeDown_SetQuota \<lparr>sq_RunId = rn_id (co_runmem c p), sq_VuQuota = word_of_int (vs ! fst x),
             sq_IterationRateQuota = word_of_int (rs ! fst x), sq_Ramp = ramp\<rparr>
      else NodeDown_StartRun (start_msg (co_runmem c p) n (fst x) (vs ! fst x) (rs ! fst x) 0))"

interpretation rebalancing: work_order "rebalance_one E p n ramp known vs rs" "rebalance_msg p n ramp known vs rs" vs
  for E :: "'h runtime" and p n ramp known vs rs
proof unfold_locales
  fix c :: "'h Coordinator" and x :: "nat \<times> sref"
  show "co_mem (snd (rebalance_one E p n ramp known vs rs c x)) =
      (co_mem c)(snd x := deliver (rebalance_msg p n ramp known vs rs c x) (co_mem c (snd x)))"
    using session_Send_deliver[of "co_mem c" "snd x" "rebalance_msg p n ramp known vs rs c x"]
    by (simp add: rebalance_one_def rebalance_msg_def Let_def split_beta)
qed (auto simp: rebalance_one_def rebalance_msg_def Let_def split_beta split: option.split)

lemma setParticipants_list:
  assumes "distinct (map pa_AgentID parts)"
  shows "rn_participants (setParticipants r parts) = map (\<lambda>x. (pa_AgentID x, x)) parts"
proof -
  have new: "k \<notin> gokeys m \<Longrightarrow> gput k v m = m @ [(k, v)]" for k :: string and v :: participant and m
    by (induction m) (auto simp: gokeys_def)
  have "distinct (map fst acc @ map pa_AgentID parts) \<Longrightarrow>
    foldl (\<lambda>m x. gput (pa_AgentID x) x m) acc parts = acc @ map (\<lambda>x. (pa_AgentID x, x)) parts" for acc
  proof (induction parts arbitrary: acc)
    case (Cons x parts)
    have "gput (pa_AgentID x) x acc = acc @ [(pa_AgentID x, x)]" using Cons.prems by (intro new) (auto simp: gokeys_def)
    then show ?case using Cons.IH[of "acc @ [(pa_AgentID x, x)]"] Cons.prems by simp
  qed simp
  from this[of "[]"] assms show ?thesis by (simp add: setParticipants_def)
qed

lemma healthy_sessions:
  assumes "registry_ok (co_mem c) (co_sessions c)" "orders (rt_sessions E)"
  shows "distinct (by_ID (co_mem c) (healthySessions E c))"
    "inj_on (\<lambda>s. se_ID (co_mem c s)) (set (by_ID (co_mem c) (healthySessions E c)))"
    "set (by_ID (co_mem c) (healthySessions E c)) = set (healthySessions E c)"
    "length (by_ID (co_mem c) (healthySessions E c)) = length (healthySessions E c)"
proof -
  note all = registry_All_props[OF assms]
  have sub: "set (healthySessions E c) \<subseteq> snd ` set (co_sessions c)" using all by (auto simp: healthySessions_def)
  show "distinct (by_ID (co_mem c) (healthySessions E c))" using all by (simp add: by_ID_def healthySessions_def)
  show "set (by_ID (co_mem c) (healthySessions E c)) = set (healthySessions E c)" by (simp add: by_ID_def)
  show "length (by_ID (co_mem c) (healthySessions E c)) = length (healthySessions E c)" by (simp add: by_ID_def)
  have reg: "map_of (co_sessions c) (se_ID (co_mem c s)) = Some s" if "s \<in> snd ` set (co_sessions c)" for s
    using assms(1) that by (auto simp: registry_ok_def gowf_def)
  show "inj_on (\<lambda>s. se_ID (co_mem c s)) (set (by_ID (co_mem c) (healthySessions E c)))"
    unfolding inj_on_def using sub reg by (metis (no_types, lifting) by_ID_def option.inject set_sort_by subsetD)
qed

lemma length_session_weights [simp]: "length (session_weights mem ss) = length ss"
  by (simp add: session_weights_def)

lemma StartRun_hands_out:
  assumes "co_steps E (coord_New mem runmem cfg) c" and "orders (rt_sessions E)"
    and "StartRun E now c i name (Inr plan) source = (Inr p, c')" and "NewExecutor (tp_load plan) = Inr ex"
    and ss: "ss = by_ID (co_mem c) (healthySessions E c)" and shares: "shares = Largest (Peak ex) (session_weights (co_mem c) ss)"
  obtains parts where "rn_phase (co_runmem c' p) = RUN_PHASE_STARTING"
    and "rn_participants (co_runmem c' p) = map (\<lambda>x. (pa_AgentID x, x)) parts"
    and "map pa_AgentID parts = map (\<lambda>s. se_ID (co_mem c s)) ss" and "map pa_VUQuota parts = shares"
    and "\<And>k. k < length ss \<Longrightarrow> map_of (map (\<lambda>x. (pa_AgentID x, x)) parts) (se_ID (co_mem c (ss ! k))) = Some (parts ! k)"
    and "\<And>k. k < length ss \<Longrightarrow> \<exists>m. sr_RunId m = i \<and> sr_Plan m = plan \<and> sr_VuQuota m = word_of_int (shares ! k) \<and>
      co_mem c' (ss ! k) = deliver (NodeDown_StartRun m) (co_mem c (ss ! k))"
proof (cases rule: StartRun_cases[of E now c i name "Inr plan" source])
  case (refused e) then show ?thesis using assms(3) by simp
next
  case (started pl ex' store)
  let ?run = "new_run c now i name pl store ex' source" and ?ws = "session_weights (co_mem c) ss"
  have pl: "pl = plan" "ex' = ex" using started(1,2) assms(4) by auto
  have p: "p = co_runtop c" and c': "c' = started_state E now c ?run (Peak ex') (Describe ex')"
    using started(6) assms(3) by auto
  let ?f = "dispatch_one E p (length ss) shares (Largest (plan_rate plan) ?ws) (Largest (min (plan_iterations plan) (2 ^ 31)) ?ws)"
  obtain parts c1 where d: "send_all ?f (entered c ?run) (enumerate 0 ss) = (parts, c1)" by force
  have dis: "dispatch E (entered c ?run) p (healthySessions E c) (Peak ex) = (parts, c1)"
    using d pl by (simp add: dispatch_def Let_def p ss shares)
  note h = healthy_sessions[OF co_steps_registry[OF assms(1) coord_New_registry] assms(2), folded ss]
  have len: "length shares = length ss" by (simp add: shares)
  have he: "co_mem (entered c ?run) = co_mem c" and r: "co_runmem (entered c ?run) p = ?run" by (simp_all add: p)
  note ho = dispatching.handed_out[of ss "entered c ?run", unfolded he, OF h(1,2) len d]
  have run: "co_runmem c1 p = ?run" using dispatching.all_runmem[of E p] d by (metis entered_fields(1) fun_upd_same p snd_conv)
  obtain e where ce: "c' = record_event E now (upd_run p (\<lambda>r. snd (setPhase now r RUN_PHASE_STARTING []))
      (upd_run p (\<lambda>r. setParticipants r parts) c1)) p e"
    unfolding c' started_state_def Let_def p[symmetric] pl dis[unfolded pl] prod.case by blast
  have c'r: "co_runmem c' p = addEvent now (snd (setPhase now (setParticipants ?run parts) RUN_PHASE_STARTING [])) (stamp now e)"
    using run by (simp add: ce)
  have mem: "co_mem c' = co_mem c1" by (simp add: ce)
  show ?thesis
  proof (rule that[of parts])
    show "rn_participants (co_runmem c' p) = map (\<lambda>x. (pa_AgentID x, x)) parts" "rn_phase (co_runmem c' p) = RUN_PHASE_STARTING"
      using setParticipants_list[OF ho(1), of ?run] by (simp_all add: c'r setPhase_def addEvent_def)
    show "\<exists>m. sr_RunId m = i \<and> sr_Plan m = plan \<and> sr_VuQuota m = word_of_int (shares ! k) \<and>
        co_mem c' (ss ! k) = deliver (NodeDown_StartRun m) (co_mem c (ss ! k))" if "k < length ss" for k
      using ho(5)[OF that, unfolded r] by (intro exI conjI) (auto simp: start_msg_def mem pl(1))
  qed (use ho(2-4) in simp_all)
qed

text \<open>
  C5. Starting a run divides exactly its peak: when \<open>StartRun\<close> is accepted, the participants are the
  healthy agents, one each, their quotas add up to the profile's peak and every agent whose queue
  has room receives one start command for this run carrying its own quota.
\<close>

theorem StartRun_shares_out:
  assumes "co_steps E (coord_New mem runmem cfg) c" and "orders (rt_sessions E)"
    and "StartRun E now c i name (Inr plan) source = (Inr p, c')" and "NewExecutor (tp_load plan) = Inr ex"
    and "fits (Peak ex) (session_weights (co_mem c) (by_ID (co_mem c) (healthySessions E c)))"
  shows "rn_phase (co_runmem c' p) = RUN_PHASE_STARTING \<and>
    sum_list (map (pa_VUQuota \<circ> snd) (rn_participants (co_runmem c' p))) = Peak ex \<and>
    fst ` set (rn_participants (co_runmem c' p)) = (\<lambda>s. se_ID (co_mem c s)) ` set (healthySessions E c) \<and>
    (\<forall>s \<in> set (healthySessions E c). \<exists>part m.
      map_of (rn_participants (co_runmem c' p)) (se_ID (co_mem c s)) = Some part \<and> sr_RunId m = i \<and>
      sr_VuQuota m = word_of_int (pa_VUQuota part) \<and> co_mem c' s = deliver (NodeDown_StartRun m) (co_mem c s))"
proof -
  let ?ss = "by_ID (co_mem c) (healthySessions E c)"
  obtain parts where h: "rn_phase (co_runmem c' p) = RUN_PHASE_STARTING"
      "rn_participants (co_runmem c' p) = map (\<lambda>x. (pa_AgentID x, x)) parts"
      "map pa_AgentID parts = map (\<lambda>s. se_ID (co_mem c s)) ?ss"
      "map pa_VUQuota parts = Largest (Peak ex) (session_weights (co_mem c) ?ss)"
      "\<And>k. k < length ?ss \<Longrightarrow> map_of (map (\<lambda>x. (pa_AgentID x, x)) parts) (se_ID (co_mem c (?ss ! k))) = Some (parts ! k)"
    and m: "\<And>k. k < length ?ss \<Longrightarrow> \<exists>m. sr_RunId m = i \<and> sr_Plan m = plan \<and>
        sr_VuQuota m = word_of_int (Largest (Peak ex) (session_weights (co_mem c) ?ss) ! k) \<and>
        co_mem c' (?ss ! k) = deliver (NodeDown_StartRun m) (co_mem c (?ss ! k))"
    by (rule StartRun_hands_out[OF assms(1-4) refl refl]) blast
  note ss = healthy_sessions(3)[OF co_steps_registry[OF assms(1) coord_New_registry] assms(2)]
  have each: "\<exists>part m. map_of (rn_participants (co_runmem c' p)) (se_ID (co_mem c s)) = Some part \<and> sr_RunId m = i \<and>
      sr_VuQuota m = word_of_int (pa_VUQuota part) \<and> co_mem c' s = deliver (NodeDown_StartRun m) (co_mem c s)"
    if "s \<in> set (healthySessions E c)" for s
  proof -
    have "s \<in> set ?ss" using that ss by blast
    then obtain k where k: "k < length ?ss" "s = ?ss ! k" unfolding in_set_conv_nth by blast
    have "k < length parts" using arg_cong[OF h(3), of length] k(1) by simp
    then have q: "Largest (Peak ex) (session_weights (co_mem c) ?ss) ! k = pa_VUQuota (parts ! k)"
      using arg_cong[OF h(4), of "\<lambda>l. l ! k"] by simp
    show ?thesis unfolding h(2) k(2) using h(5)[OF k(1)] m[OF k(1), unfolded q] by blast
  qed
  have "map (pa_VUQuota \<circ> snd) (rn_participants (co_runmem c' p)) = Largest (Peak ex) (session_weights (co_mem c) ?ss)"
    using h(4) by (simp add: h(2) comp_def)
  moreover have "fst ` set (rn_participants (co_runmem c' p)) = (\<lambda>s. se_ID (co_mem c s)) ` set (healthySessions E c)"
    using arg_cong[OF h(3), of set] ss by (simp add: h(2) image_image)
  ultimately show ?thesis using Largest_total[OF assms(5)] each h(1) by simp
qed

lemma rebalance_spec:
  fixes E :: "'h runtime"
  assumes act: "Active (co_runmem c p)" and hs: "healthySessions E c \<noteq> []" and ord: "orders (rt_sessions E)"
    and reg: "registry_ok (co_mem c) (co_sessions c)"
    and fit: "rn_peakVUs (co_runmem c p) = 0 \<or>
      fits (rn_peakVUs (co_runmem c p)) (session_weights (co_mem c) (by_ID (co_mem c) (healthySessions E c)))"
  shows "sum_list (map (pa_VUQuota \<circ> snd) (rn_participants (co_runmem (rebalance E c p) p))) = rn_peakVUs (co_runmem c p)"
    and "rn_scaleRamp (co_runmem (rebalance E c p) p) = 0"
    and "s \<in> set (healthySessions E c) \<Longrightarrow> \<exists>part m.
      map_of (rn_participants (co_runmem (rebalance E c p) p)) (se_ID (co_mem c s)) = Some part \<and>
      co_mem (rebalance E c p) s = deliver m (co_mem c s) \<and>
      (if known_to (co_runmem c p) (se_ID (co_mem c s))
       then \<exists>q. m = NodeDown_SetQuota q \<and> sq_RunId q = rn_id (co_runmem c p) \<and>
         sq_VuQuota q = word_of_int (pa_VUQuota part) \<and> sq_Ramp q = rn_scaleRamp (co_runmem c p)
       else \<exists>q. m = NodeDown_StartRun q \<and> sr_RunId q = rn_id (co_runmem c p) \<and> sr_VuQuota q = word_of_int (pa_VUQuota part))"
proof -
  let ?c0 = "upd_run p (\<lambda>r. r\<lparr>rn_scaleRamp := 0\<rparr>) c" and ?ss = "by_ID (co_mem c) (healthySessions E c)"
  let ?peak = "rn_peakVUs (co_runmem c p)" and ?ws = "session_weights (co_mem c) ?ss" and ?known = "known_to (co_runmem c p)"
  let ?f = "rebalance_one E p (length ?ss) (rn_scaleRamp (co_runmem c p)) ?known (Largest ?peak ?ws)
    (Largest (plan_rate (rn_plan (co_runmem c p))) ?ws)"
  obtain parts c1 where d: "send_all ?f ?c0 (enumerate 0 ?ss) = (parts, c1)" by force
  have known: "known_to ((co_runmem c p)\<lparr>rn_scaleRamp := 0\<rparr>) = ?known" by (simp add: known_to_def fun_eq_iff)
  have rb: "rebalance E c p = upd_run p (\<lambda>r. setParticipants r parts) c1"
    using act hs d by (simp add: rebalance_def Let_def known)
  note h = healthy_sessions[OF reg ord]
  have len: "length (Largest ?peak ?ws) = length ?ss" by simp
  have c0: "co_mem ?c0 = co_mem c" by simp
  note ho = rebalancing.handed_out[of ?ss ?c0, unfolded c0, OF h(1,2) len d]
  have run: "co_runmem c1 p = (co_runmem c p)\<lparr>rn_scaleRamp := 0\<rparr>"
    using rebalancing.all_runmem[of E p "length ?ss" "rn_scaleRamp (co_runmem c p)" ?known "Largest ?peak ?ws"
      "Largest (plan_rate (rn_plan (co_runmem c p))) ?ws" ?c0 "enumerate 0 ?ss"] d by simp
  have parts: "rn_participants (co_runmem (rebalance E c p) p) = map (\<lambda>x. (pa_AgentID x, x)) parts"
    using setParticipants_list[OF ho(1)] by (simp add: rb)
  show "sum_list (map (pa_VUQuota \<circ> snd) (rn_participants (co_runmem (rebalance E c p) p))) = ?peak"
    using ho(3) sum_Largest[OF fit] by (simp add: parts comp_def)
  show "rn_scaleRamp (co_runmem (rebalance E c p) p) = 0" using run by (simp add: rb setParticipants_def)
  assume "s \<in> set (healthySessions E c)"
  then have "s \<in> set ?ss" using h(3) by blast
  then obtain k where k: "k < length ?ss" "s = ?ss ! k" unfolding in_set_conv_nth by blast
  have q: "pa_VUQuota (parts ! k) = Largest ?peak ?ws ! k"
    using arg_cong[OF ho(3), of "\<lambda>l. l ! k"] arg_cong[OF ho(2), of length] k(1) by simp
  show "\<exists>part m. map_of (rn_participants (co_runmem (rebalance E c p) p)) (se_ID (co_mem c s)) = Some part \<and>
      co_mem (rebalance E c p) s = deliver m (co_mem c s) \<and>
      (if ?known (se_ID (co_mem c s))
       then \<exists>q. m = NodeDown_SetQuota q \<and> sq_RunId q = rn_id (co_runmem c p) \<and>
         sq_VuQuota q = word_of_int (pa_VUQuota part) \<and> sq_Ramp q = rn_scaleRamp (co_runmem c p)
       else \<exists>q. m = NodeDown_StartRun q \<and> sr_RunId q = rn_id (co_runmem c p) \<and> sr_VuQuota q = word_of_int (pa_VUQuota part))"
    unfolding parts k(2) using ho(4)[OF k(1)] ho(5)[OF k(1)] q
    by (intro exI[of _ "parts ! k"] exI conjI) (auto simp: rb rebalance_msg_def start_msg_def)
qed

text \<open>
  Rescaling a run redistributes exactly the new peak: after an accepted \<open>ScaleRun\<close> the quotas of
  the healthy agents add up to what was asked for, also when that is zero, the ramp is spent, and
  every reachable agent is told its share: one that already runs gets a new quota with the ramp,
  one that joined since gets a full start command.
\<close>

theorem ScaleRun_redistributes:
  assumes "co_steps E (coord_New mem runmem cfg) c" and "orders (rt_sessions E)" and "Lookup c i = Some p"
    and "ScaleRun E now c i peak ramp = (None, c')" and "healthySessions E c \<noteq> []"
    and "peak = 0 \<or> fits peak (session_weights (co_mem c) (by_ID (co_mem c) (healthySessions E c)))"
  shows "sum_list (map (pa_VUQuota \<circ> snd) (rn_participants (co_runmem c' p))) = peak \<and>
    rn_scaleRamp (co_runmem c' p) = 0 \<and>
    (\<forall>s \<in> set (healthySessions E c). \<exists>part m.
      map_of (rn_participants (co_runmem c' p)) (se_ID (co_mem c s)) = Some part \<and>
      co_mem c' s = deliver m (co_mem c s) \<and>
      (if known_to (co_runmem c p) (se_ID (co_mem c s))
       then \<exists>q. m = NodeDown_SetQuota q \<and> sq_RunId q = rn_id (co_runmem c p) \<and>
         sq_VuQuota q = word_of_int (pa_VUQuota part) \<and> sq_Ramp q = ramp
       else \<exists>q. m = NodeDown_StartRun q \<and> sr_RunId q = rn_id (co_runmem c p) \<and> sr_VuQuota q = word_of_int (pa_VUQuota part)))"
proof -
  let ?c0 = "upd_run p (\<lambda>r. r\<lparr>rn_peakVUs := peak, rn_scaleRamp := ramp\<rparr>) c"
  have act: "Active (co_runmem c p)" using assms(3,4) by (auto simp: ScaleRun_def split: if_splits)
  then have act0: "Active (co_runmem ?c0 p)" by (simp add: Active_def)
  obtain e where c': "c' = record_event E now (rebalance E ?c0 p) p e"
    using assms(3,4) act by (auto simp: ScaleRun_def Let_def split: if_splits)
  have reg: "registry_ok (co_mem ?c0) (co_sessions ?c0)"
    using co_steps_registry[OF assms(1) coord_New_registry] by simp
  have hs: "healthySessions E ?c0 = healthySessions E c" by (simp add: healthySessions_def)
  have known: "known_to (co_runmem ?c0 p) = known_to (co_runmem c p)" by (simp add: known_to_def fun_eq_iff)
  have peak: "rn_peakVUs (co_runmem ?c0 p) = peak" "rn_scaleRamp (co_runmem ?c0 p) = ramp"
    "rn_id (co_runmem ?c0 p) = rn_id (co_runmem c p)" "co_mem ?c0 = co_mem c" by simp_all
  have fields: "rn_participants (co_runmem c' p) = rn_participants (co_runmem (rebalance E ?c0 p) p)"
    "rn_scaleRamp (co_runmem c' p) = rn_scaleRamp (co_runmem (rebalance E ?c0 p) p)" "co_mem c' = co_mem (rebalance E ?c0 p)"
    by (simp_all add: c' addEvent_def)
  note rs = rebalance_spec[OF act0 _ assms(2) reg, unfolded hs peak known, OF assms(5,6)]
  show ?thesis unfolding fields using rs by blast
qed

subsection \<open>A coordinator with one agent and one run\<close>

lemma started_phase:
  assumes "rn_phase run = RUN_PHASE_PENDING"
  shows "rn_phase (co_runmem (started_state E now c run peak profile) (co_runtop c)) = RUN_PHASE_STARTING"
    "is_zero_time (rn_stoppingAt run) \<Longrightarrow> is_zero_time (rn_stoppingAt (co_runmem (started_state E now c run peak profile) (co_runtop c)))"
proof -
  obtain parts c1 where d: "dispatch E (entered c run) (co_runtop c) (healthySessions E c) peak = (parts, c1)" by force
  have "co_runmem c1 = co_runmem (entered c run)"
    using d dispatching.all_runmem by (metis (no_types, lifting) dispatch_def snd_conv)
  then show "rn_phase (co_runmem (started_state E now c run peak profile) (co_runtop c)) = RUN_PHASE_STARTING"
    "is_zero_time (rn_stoppingAt run) \<Longrightarrow> is_zero_time (rn_stoppingAt (co_runmem (started_state E now c run peak profile) (co_runtop c)))"
    using assms by (simp_all add: started_state_def d setPhase_def addEvent_def setParticipants_def Let_def)
qed

definition demo_runtime :: "list_hist runtime" where
  "demo_runtime = \<lparr>rt_hdr = list_hdr, rt_maphash = (\<lambda>_. 0), rt_fmt_g = (\<lambda>_. []), rt_fmt_4g = (\<lambda>_. []), rt_quote = (\<lambda>s. s),
     rt_series = (\<lambda>x. x), rt_points = (\<lambda>x. x), rt_sessions = (\<lambda>x. x), rt_parts = (\<lambda>x. x), rt_agents = (\<lambda>x. x),
     rt_subs = (\<lambda>x. x), rt_accs = (\<lambda>x. x), rt_fails = (\<lambda>x. x)\<rparr>"

definition demo_coord_config :: CoordConfig where
  "demo_coord_config = \<lparr>cf_HeartbeatInterval = 0, cf_MetricsInterval = 0, cf_AgentTimeout = 0, cf_StartDelay = 0,
     cf_Store = demo_sc, cf_MaxRunHistory = 1\<rparr>"

definition demo_coord :: "list_hist Coordinator" where
  "demo_coord = coord_New (\<lambda>_. demo_session) (\<lambda>_. demo_feed_run) demo_coord_config"

definition demo_joined :: "list_hist Coordinator" where
  "demo_joined = co_apply demo_runtime demo_coord (0, C_join demo_server ''peer'' (Inr (NodeUp_Hello demo_hello)) 0)"

definition demo_load_plan :: test_plan where
  "demo_load_plan = demo_plan\<lparr>tp_load := Some demo_profile\<rparr>"

definition demo_running :: "list_hist Coordinator" where
  "demo_running = co_apply demo_runtime demo_joined (1, C_StartRun ''run'' ''demo'' (Inr demo_load_plan) [])"

lemma demo_joined_facts:
  "co_sessions demo_joined = [(''a'', 0)]" "co_mem demo_joined = (\<lambda>_. demo_session)" "co_active demo_joined = None"
  "co_order demo_joined = []" "co_runtop demo_joined = 0" "cf_Store (co_cfg demo_joined) = demo_sc"
  by (simp_all add: demo_joined_def join_open_coordinator awaitHello_def demo_hello_def[THEN arg_cong[of _ _ nh_NodeId]]
      OnJoin_def registry_Add_def recordGlobal_def co_publish_def spawn_rebalance_def demo_coord_def coord_New_def
      NewSessionRegistry_def cf_applyDefaults_def demo_coord_config_def demo_sc_def fun_eq_iff Let_def flip: demo_session_def)

lemma demo_healthy: "healthySessions demo_runtime demo_joined = [0]" "orders (rt_sessions demo_runtime)"
  by (simp_all add: healthySessions_def registry_All_def demo_joined_facts demo_runtime_def orders_def)

lemma demo_steps: "co_steps demo_runtime demo_coord demo_joined" "co_steps demo_runtime demo_coord demo_running"
proof -
  have "co_steps demo_runtime demo_coord (co_apply demo_runtime demo_coord (0, C_join demo_server ''peer'' (Inr (NodeUp_Hello demo_hello)) 0))"
    by (rule co_step[OF co_done]) (simp add: demo_coord_def coord_New_def NewSessionRegistry_def)
  then show 1: "co_steps demo_runtime demo_coord demo_joined" by (simp only: demo_joined_def)
  show "co_steps demo_runtime demo_coord demo_running"
    unfolding demo_running_def by (rule co_step[OF 1]) (simp add: demo_joined_facts)
qed

definition demo_new_run :: "list_hist Run" where
  "demo_new_run = new_run demo_joined 1 ''run'' ''demo'' demo_load_plan demo_store (Ramping demo_ramp) []"

lemma demo_StartRun:
  "StartRun demo_runtime 1 demo_joined ''run'' ''demo'' (Inr demo_load_plan) [] = (Inr 0, demo_running)"
  "demo_running = started_state demo_runtime 1 demo_joined demo_new_run 100 (Describe (Ramping demo_ramp))"
proof -
  have "NewExecutor (tp_load demo_load_plan) = Inr (Ramping demo_ramp)" by (simp add: demo_load_plan_def demo_NewExecutor)
  from StartRun_accepts[OF this, of demo_runtime demo_joined demo_store 1 "''run''" "''demo''" "[]"]
  have s: "StartRun demo_runtime 1 demo_joined ''run'' ''demo'' (Inr demo_load_plan) [] =
    (Inr 0, started_state demo_runtime 1 demo_joined demo_new_run 100 (Describe (Ramping demo_ramp)))"
    using demo_store_New by (simp add: demo_healthy demo_joined_facts demo_new_run_def demo_ramp_def)
      (simp add: demo_runtime_def)
  then show "StartRun demo_runtime 1 demo_joined ''run'' ''demo'' (Inr demo_load_plan) [] = (Inr 0, demo_running)"
    "demo_running = started_state demo_runtime 1 demo_joined demo_new_run 100 (Describe (Ramping demo_ramp))"
    by (simp_all add: demo_running_def)
qed

lemma demo_running_run:
  "rn_phase (co_runmem demo_running 0) = RUN_PHASE_STARTING" "is_zero_time (rn_stoppingAt (co_runmem demo_running 0))"
  "rn_id (co_runmem demo_running 0) = ''run''" "rn_plan (co_runmem demo_running 0) = demo_load_plan"
proof -
  have p: "rn_phase demo_new_run = RUN_PHASE_PENDING" "is_zero_time (rn_stoppingAt demo_new_run)"
    by (simp_all add: demo_new_run_def) (simp add: new_run_def newRun_def is_zero_time_def)
  note st = started_phase[OF p(1), of demo_runtime 1 demo_joined 100 "Describe (Ramping demo_ramp)",
    folded demo_StartRun(2), unfolded demo_joined_facts(5)]
  show "rn_phase (co_runmem demo_running 0) = RUN_PHASE_STARTING" by (rule st(1))
  show "is_zero_time (rn_stoppingAt (co_runmem demo_running 0))" by (rule st(2)[OF p(2)])
  have "co_frame (entered demo_joined demo_new_run) demo_running" unfolding demo_StartRun(2) by (rule co_frame_started)
  then have "evolves demo_new_run (co_runmem demo_running 0)"
    using co_frame_run(1)[of "entered demo_joined demo_new_run" demo_running 0] by (simp add: demo_joined_facts)
  then show "rn_id (co_runmem demo_running 0) = ''run''" "rn_plan (co_runmem demo_running 0) = demo_load_plan"
    by (simp_all add: evolves_def demo_new_run_def)
qed

lemma demo_running_table:
  "co_runtop demo_running = 1" "co_active demo_running = Some 0" "Active (co_runmem demo_running 0)"
  "Lookup demo_running ''run'' = Some 0" "cf_MaxRunHistory (co_cfg demo_running) = 1"
proof -
  have f: "co_frame (entered demo_joined demo_new_run) demo_running" unfolding demo_StartRun(2) by (rule co_frame_started)
  show t: "co_runtop demo_running = 1" "co_active demo_running = Some 0"
    using f by (simp_all add: co_frame_def demo_joined_facts)
  show a: "Active (co_runmem demo_running 0)" by (simp add: Active_def demo_running_run)
  have ok: "runs_ok demo_running" by (rule co_steps_ok[OF demo_steps(2)[unfolded demo_coord_def] coord_New_ok])
  show "Lookup demo_running ''run'' = Some 0" using runs_okD(4)[OF ok t(2) a] by (simp add: Lookup_def demo_running_run)
  have "co_cfg demo_running = co_cfg demo_joined" using f by (simp add: co_frame_def)
  moreover have "co_cfg demo_joined = co_cfg demo_coord"
    using co_frame_apply[of "C_join demo_server ''peer'' (Inr (NodeUp_Hello demo_hello)) 0" demo_coord demo_runtime 0]
    by (simp add: demo_joined_def co_frame_def)
  ultimately show "cf_MaxRunHistory (co_cfg demo_running) = 1"
    by (simp add: demo_coord_def coord_New_def cf_applyDefaults_def demo_coord_config_def demo_sc_def Let_def)
qed

lemma dispatch_sessions:
  "co_sessions (snd (dispatch E c p ss peak)) = co_sessions c"
  "se_closed (co_mem (snd (dispatch E c p ss peak)) s) = se_closed (co_mem c s)"
  "se_Hello (co_mem (snd (dispatch E c p ss peak)) s) = se_Hello (co_mem c s)"
proof -
  have "reg_frame c (snd (dispatch E c p ss peak))"
    unfolding dispatch_def Let_def by (rule reg_frame_send_all[OF reg_frame_dispatch_one])
  then show "co_sessions (snd (dispatch E c p ss peak)) = co_sessions c" by (simp add: reg_frame_def)
qed (simp_all add: dispatch_def Let_def dispatching.all_frame)

lemma demo_running_sessions:
  "healthySessions demo_runtime demo_running = [0]" "nh_MaxVus (se_Hello (co_mem demo_running 0)) = 100"
proof -
  obtain parts c1 where d: "dispatch demo_runtime (entered demo_joined demo_new_run) 0 [0] 100 = (parts, c1)" by force
  have m: "co_mem demo_running = co_mem c1" "co_sessions demo_running = co_sessions c1"
    unfolding demo_StartRun(2) started_state_def by (simp_all add: demo_joined_facts demo_healthy d Let_def)
  have c1: "se_closed (co_mem c1 0) = False" "se_Hello (co_mem c1 0) = demo_hello" "co_sessions c1 = [(''a'', 0)]"
    using dispatch_sessions[of demo_runtime "entered demo_joined demo_new_run" 0 "[0]" 100] d
    by (simp_all add: demo_joined_facts) (simp add: demo_session_def new_session_def)
  show "healthySessions demo_runtime demo_running = [0]"
    by (simp add: healthySessions_def registry_All_def m c1 demo_runtime_def)
  show "nh_MaxVus (se_Hello (co_mem demo_running 0)) = 100" by (simp add: m c1 demo_hello_def)
qed

theorem verdict_is_final_witness:
  "rn_phase (co_runmem (co_apply demo_runtime
     (demo_running\<lparr>co_runmem := \<lambda>_. demo_feed_run\<lparr>rn_phase := RUN_PHASE_ABORTED\<rparr>\<rparr>) (9, C_tick)) 0) = RUN_PHASE_ABORTED"
proof -
  let ?c = "demo_running\<lparr>co_runmem := \<lambda>_. demo_feed_run\<lparr>rn_phase := RUN_PHASE_ABORTED\<rparr>\<rparr>"
  have "co_steps demo_runtime ?c (co_apply demo_runtime ?c (9, C_tick))" by (rule co_step[OF co_done]) simp
  from verdict_is_final[OF this, of 0] show ?thesis by (simp add: demo_running_table verdict_of_def)
qed

theorem one_run_at_a_time_witness:
  "ActiveRun demo_running = Some 0 \<and>
   (\<exists>e. StartRun demo_runtime 2 demo_running ''other'' ''n'' (Inr demo_load_plan) [] = (Inl e, demo_running))"
  using one_run_at_a_time[OF demo_steps(2)[unfolded demo_coord_def], of 0 2 "''other''" "''n''" "Inr demo_load_plan" "[]"]
    demo_running_table by simp

theorem history_bounded_witness: "length (co_order demo_running) \<le> 1"
  using history_bounded[OF demo_steps(2)[unfolded demo_coord_def]] demo_running_table by simp

theorem stop_ends_run_witness:
  "IsTerminal (rn_phase (co_runmem (co_tick demo_runtime 60000000000 (snd (StopRun demo_runtime 2 demo_running ''run'' True []))) 0))"
proof -
  obtain c1 where s: "StopRun demo_runtime 2 demo_running ''run'' True [] = (None, c1)"
    by (simp add: StopRun_def demo_running_table Let_def)
  have g: "GraceBudget (co_runmem demo_running 0) = 30000000000"
    by (simp add: GraceBudget_def demo_running_run demo_load_plan_def demo_profile_def defaultGraceBudget_def)
  show ?thesis
    using stop_ends_run[OF demo_steps(2)[unfolded demo_coord_def] demo_running_table(4) demo_running_run(2) _ s co_done refl, of 60000000000]
    by (simp add: s g stopTimeoutMargin_def is_zero_time_def zero_time_def)
qed

lemma demo_weights: "session_weights h (by_ID h [0]) = [max 1 (uint (nh_MaxVus (se_Hello (h 0))))]"
  by (simp add: session_weights_def by_ID_def sort_by_def)

lemma demo_fits:
  "fits (Peak (Ramping demo_ramp)) (session_weights (co_mem demo_joined) (by_ID (co_mem demo_joined) (healthySessions demo_runtime demo_joined)))"
proof -
  have "nh_MaxVus (se_Hello demo_session) = 100" by (simp add: demo_session_def new_session_def demo_hello_def)
  then show ?thesis by (simp add: demo_healthy demo_weights demo_joined_facts fits_def pos_sum_def demo_ramp_def)
qed

theorem StartRun_shares_out_witness:
  "sum_list (map (pa_VUQuota \<circ> snd) (rn_participants (co_runmem demo_running 0))) = 100"
  using StartRun_shares_out[OF demo_steps(1)[unfolded demo_coord_def] demo_healthy(2) demo_StartRun(1) _ demo_fits]
  by (simp add: demo_load_plan_def demo_NewExecutor demo_ramp_def)

theorem ScaleRun_redistributes_witness:
  "sum_list (map (pa_VUQuota \<circ> snd) (rn_participants (co_runmem (snd (ScaleRun demo_runtime 3 demo_running ''run'' 40 0)) 0))) = 40"
proof -
  obtain c1 where s: "ScaleRun demo_runtime 3 demo_running ''run'' 40 0 = (None, c1)"
    by (simp add: ScaleRun_def demo_running_table Let_def)
  have f: "fits 40 (session_weights (co_mem demo_running) (by_ID (co_mem demo_running) (healthySessions demo_runtime demo_running)))"
    by (simp add: demo_running_sessions demo_weights fits_def pos_sum_def)
  show ?thesis
    using ScaleRun_redistributes[OF demo_steps(2)[unfolded demo_coord_def] demo_healthy(2) demo_running_table(4) s _ disjI2[OF f]]
    by (simp add: s demo_running_sessions)
qed

end
