(* ===== verification/Supervisor.thy ===== *)
theory Supervisor
  imports Sessions
begin

text \<open>
  The contract between the session server of \<open>internal/control/server.go\<close> and its two handlers,
  the coordinator and the agent: a handler adds a session to its registry when it joins, removes
  it when it leaves, and otherwise leaves the registry and the sessions' ids alone. Under it,
  whatever streams open, talk and end in whatever order, between any steps of the handler's own,
  the registry holds exactly the current connection of every node.
\<close>

inductive serves :: "'c SessionHandler \<Rightarrow> ('c \<Rightarrow> registry) \<Rightarrow> ServerConfig \<Rightarrow> 'c \<Rightarrow> 'c \<times> conn_event list \<Rightarrow> bool" for H reg cfg c0 where
  fresh: "serves H reg cfg c0 (c0, [])"
| opened: "serves H reg cfg c0 (c, hist) \<Longrightarrow> p \<notin> set (joins hist) \<Longrightarrow> nh_NodeId hello \<noteq> [] \<Longrightarrow>
    join_open H cfg now peer (Inr (NodeUp_Hello hello)) p c = (answer, c') \<Longrightarrow> serves H reg cfg c0 (c', hist @ [Joined p])"
| received: "serves H reg cfg c0 (c, hist) \<Longrightarrow> serves H reg cfg c0 (receive_one H now p c msg, hist)"
| ended: "serves H reg cfg c0 (c, hist) \<Longrightarrow> p \<in> set (joins hist) \<Longrightarrow> serves H reg cfg c0 (join_close H now p c, hist @ [Left p])"
| own: "serves H reg cfg c0 (c, hist) \<Longrightarrow> reg c' = reg c \<Longrightarrow> (\<And>q. se_ID (h_memory H c' q) = se_ID (h_memory H c q)) \<Longrightarrow>
    serves H reg cfg c0 (c', hist)"

locale supervisor =
  fixes H :: "'c SessionHandler" and reg :: "'c \<Rightarrow> registry"
  assumes update_mem: "h_memory H (h_update H f c) = f (h_memory H c)" and update_reg: "reg (h_update H f c) = reg c"
    and join_reg: "reg (snd (h_OnJoin H now c p)) = snd (snd (registry_Add (h_memory H c) (reg c) p))"
    and join_ids: "se_ID (h_memory H (snd (h_OnJoin H now c p)) q) = se_ID (h_memory H c q)"
    and leave_reg: "reg (h_OnLeave H now c p) = snd (registry_Remove (h_memory H c) (reg c) p)"
    and leave_ids: "se_ID (h_memory H (h_OnLeave H now c p) q) = se_ID (h_memory H c q)"
    and talk_reg: "reg (h_OnHeartbeat H now c p beat) = reg c" "reg (h_OnMetrics H now c p batch) = reg c"
      "reg (h_OnRunStatus H now c p update) = reg c" "reg (h_OnLog H now c p event) = reg c"
    and talk_ids: "se_ID (h_memory H (h_OnHeartbeat H now c p beat) q) = se_ID (h_memory H c q)"
      "se_ID (h_memory H (h_OnMetrics H now c p batch) q) = se_ID (h_memory H c q)"
      "se_ID (h_memory H (h_OnRunStatus H now c p update) q) = se_ID (h_memory H c q)"
      "se_ID (h_memory H (h_OnLog H now c p event) q) = se_ID (h_memory H c q)"
begin

definition tracks :: "'c \<times> conn_event list \<Rightarrow> bool" where
  "tracks s \<longleftrightarrow> gowf (reg (fst s)) \<and>
     (\<forall>node. map_of (reg (fst s)) node = current_session (\<lambda>p. se_ID (h_memory H (fst s) p)) (snd s) node)"

lemma receive_frame:
  "reg (receive_one H now p c msg) = reg c" "se_ID (h_memory H (receive_one H now p c msg) q) = se_ID (h_memory H c q)"
  by (auto simp: receive_one_def Let_def talk_reg talk_ids update_mem update_reg split: NodeUp.split)

lemma tracks_open:
  assumes t: "tracks (c, hist)" and p: "p \<notin> set (joins hist)" and ne: "nh_NodeId hello \<noteq> []"
    and j: "join_open H cfg now peer (Inr (NodeUp_Hello hello)) p c = (answer, c')"
  shows "tracks (c', hist @ [Joined p])"
proof -
  let ?c = "h_update H (\<lambda>h. h(p := new_session cfg now peer hello)) c"
  have c': "c' = snd (h_OnJoin H now ?c p)"
    using j ne by (auto simp: join_open_def awaitHello_def split_beta Let_def split: option.splits prod.splits)
  have ids: "se_ID (h_memory H c' q) = se_ID (h_memory H ?c q)" for q by (simp add: c' join_ids)
  have r: "reg c' = gput (se_ID (h_memory H ?c p)) p (reg c)"
    by (simp add: c' join_reg update_reg registry_Add_def Let_def)
  have same: "current_session (\<lambda>q. se_ID (h_memory H c' q)) hist node = map_of (reg c) node" for node
    using t p by (simp add: tracks_def, intro current_session_cong) (auto simp: ids update_mem)
  have "map_of (reg c') node = current_session (\<lambda>q. se_ID (h_memory H c' q)) (hist @ [Joined p]) node" for node
    using same[of node] ids[of p] by (simp add: r)
  then show ?thesis using t by (simp add: tracks_def) (simp add: r)
qed

lemma tracks_end:
  assumes t: "tracks (c, hist)"
  shows "tracks (join_close H now p c, hist @ [Left p])"
proof -
  let ?c = "h_update H (\<lambda>h. session_Close h p) c"
  have ids: "se_ID (h_memory H (join_close H now p c) q) = se_ID (h_memory H c q)" for q
    by (simp add: join_close_def leave_ids update_mem)
  have r: "reg (join_close H now p c) = snd (registry_Remove (session_Close (h_memory H c) p) (reg c) p)"
    by (simp add: join_close_def leave_reg update_mem update_reg)
  have id: "map_of (reg c) node = Some p \<Longrightarrow> node = se_ID (h_memory H c p)" for node
    using t current_session_id[of "\<lambda>p. se_ID (h_memory H c p)" hist node p] by (simp add: tracks_def)
  have w: "gowf (reg c)" and look: "current_session (\<lambda>p. se_ID (h_memory H c p)) hist node = map_of (reg c) node" for node
    using t by (simp_all add: tracks_def)
  have "map_of (reg (join_close H now p c)) node = (if map_of (reg c) node = Some p then None else map_of (reg c) node)" for node
    using id[of node] w by (cases "node = se_ID (h_memory H c p)") (auto simp: r registry_Remove_def map_of_gdel)
  moreover have "gowf (reg (join_close H now p c))" using w by (simp add: r registry_Remove_def)
  ultimately show ?thesis by (simp add: tracks_def ids look)
qed

lemma serves_tracks:
  assumes "serves H reg cfg c0 s" "reg c0 = NewSessionRegistry"
  shows "tracks s"
  using assms
proof (induction rule: serves.induct)
  case fresh then show ?case by (simp add: tracks_def NewSessionRegistry_def gowf_def)
next
  case (opened c hist p hello now peer answer c')
  then show ?case using tracks_open by blast
next
  case (received c hist now p msg)
  then show ?case by (simp add: tracks_def receive_frame)
next
  case (ended c hist p now)
  then show ?case using tracks_end by blast
next
  case (own c hist c')
  then show ?case by (simp add: tracks_def)
qed

end

end
