(* ===== verification/AgentProps.thy ===== *)
theory AgentProps
  imports Agent CoordinatorProps Supervisor
begin

text \<open>
  What the agent promises the coordinator and its workers: the status it reports is the fold of
  its workers' last reports, a rebalance divides exactly its quota over the connected workers
  with one command each, and a displaced connection never evicts the one that replaced it. Two
  theorems show where the code falls short: a worker that reconnects after another has died can
  be given the virtual user ids of a third, and a run whose processes could not be started stays
  the agent's run.
\<close>

subsection \<open>The reported status\<close>

lemma length_filter_all: "length (filter P xs) = length xs \<longleftrightarrow> (\<forall>x \<in> set xs. P x)"
proof (induction xs)
  case (Cons x xs) then show ?case using le_imp_less_Suc[OF length_filter_le[of P xs]] by (cases "P x") auto
qed simp

lemma foldPhases_spec:
  "foldPhases phases iters =
     (if phases = [] then RUN_PHASE_PENDING
      else if \<exists>p \<in> set phases. snd p = RUN_PHASE_FAILED then RUN_PHASE_FAILED
      else if \<forall>p \<in> set phases. is_completed (snd p) then RUN_PHASE_COMPLETED
      else RUN_PHASE_RUNNING, sum_list (map snd iters))"
  by (auto simp: foldPhases_def Let_def length_filter_all filter_empty_conv)

lemma map_of_some_phase:
  assumes "gowf m"
  shows "(\<exists>p \<in> set m. P (snd p)) \<longleftrightarrow> (\<exists>k v. map_of m k = Some v \<and> P v)"
proof -
  have "map_of m k = Some v \<longleftrightarrow> (k, v) \<in> set m" for k v using assms by (simp add: gowf_def)
  then show ?thesis by force
qed

text \<open>
  The agent speaks for all of its workers: when one reports, the status sent on is a failure
  exactly when some connected worker's last report is one, completed exactly when all of them
  have finished, and running otherwise, whatever the reporting worker itself said.
\<close>

theorem agent_status_folds:
  assumes "gowf (an_workerPhase a)" and "int (length (cl_out (an_upstream a))) < cc_QueueSize (cl_cfg (an_upstream a))"
    and "a' = agent_OnRunStatus a s update"
  shows "\<exists>u. cl_out (an_upstream a') = cl_out (an_upstream a) @ [NodeUp_RunStatus u] \<and> ru_RunId u = ru_RunId update \<and>
    map_of (an_workerPhase a') (se_ID (an_mem a s)) = Some (ru_Phase update) \<and>
    (ru_Phase u = RUN_PHASE_FAILED \<longleftrightarrow> (\<exists>w. map_of (an_workerPhase a') w = Some RUN_PHASE_FAILED)) \<and>
    (ru_Phase u = RUN_PHASE_COMPLETED \<longleftrightarrow>
      (\<forall>w p. map_of (an_workerPhase a') w = Some p \<longrightarrow> p = RUN_PHASE_COMPLETED \<or> p = RUN_PHASE_ABORTED)) \<and>
    (ru_Phase u = RUN_PHASE_RUNNING \<or> IsTerminal (ru_Phase u))"
proof -
  define phases where "phases = gput (se_ID (an_mem a s)) (ru_Phase update) (an_workerPhase a)"
  obtain phase iterations where f: "foldPhases phases (if ru_CompletedIterations update > 0
      then gput (se_ID (an_mem a s)) (ru_CompletedIterations update) (an_workerIters a) else an_workerIters a) = (phase, iterations)"
    by force
  have w: "gowf phases" using assms(1) by (simp add: phases_def)
  have ne: "phases \<noteq> []" unfolding phases_def by (cases "an_workerPhase a") (auto split: if_splits)
  have a': "an_workerPhase a' = phases" "\<exists>u. cl_out (an_upstream a') = cl_out (an_upstream a) @ [NodeUp_RunStatus u] \<and>
      ru_RunId u = ru_RunId update \<and> ru_Phase u = phase"
    using f assms(2) by (simp_all add: assms(3) agent_OnRunStatus_def Let_def send_up_def SendRunStatus_def client_Send_def phases_def)
  have ph: "phase = (if \<exists>w. map_of phases w = Some RUN_PHASE_FAILED then RUN_PHASE_FAILED
      else if \<forall>w p. map_of phases w = Some p \<longrightarrow> is_completed p then RUN_PHASE_COMPLETED else RUN_PHASE_RUNNING)"
  proof -
    have "(\<forall>p \<in> set phases. is_completed (snd p)) \<longleftrightarrow> (\<forall>w p. map_of phases w = Some p \<longrightarrow> is_completed p)"
      using map_of_some_phase[OF w, of "\<lambda>v. \<not> is_completed v"] by blast
    moreover have "(\<exists>p \<in> set phases. snd p = RUN_PHASE_FAILED) \<longleftrightarrow> (\<exists>w. map_of phases w = Some RUN_PHASE_FAILED)"
      using map_of_some_phase[OF w, of "\<lambda>v. v = RUN_PHASE_FAILED"] by blast
    moreover have "phase = fst (foldPhases phases [])" using f by (simp add: foldPhases_spec)
    ultimately show ?thesis using ne by (simp only: foldPhases_spec fst_conv if_False)
  qed
  have "phase = RUN_PHASE_FAILED \<longleftrightarrow> (\<exists>w. map_of phases w = Some RUN_PHASE_FAILED)"
    "phase = RUN_PHASE_COMPLETED \<longleftrightarrow> (\<forall>w p. map_of phases w = Some p \<longrightarrow> is_completed p)"
    "phase = RUN_PHASE_RUNNING \<or> IsTerminal phase" unfolding ph by (auto simp: is_completed_def)
  moreover have "map_of phases (se_ID (an_mem a s)) = Some (ru_Phase update)" by (simp add: phases_def)
  ultimately show ?thesis using a' by (auto simp: is_completed_def)
qed

subsection \<open>Dividing the quota\<close>

definition worker_command :: "memory \<Rightarrow> int list \<Rightarrow> int list \<Rightarrow> int list \<Rightarrow> runState \<Rightarrow> nat \<Rightarrow> sref \<Rightarrow> NodeDown" where
  "worker_command mem vs rs its run i s =
     (if map_of (rs_dispatched run) (se_ID (mem s)) = Some True
      then NodeDown_SetQuota (worker_quota run (vs ! i) (rs ! i))
      else NodeDown_StartRun (worker_start run i (vs ! i) (rs ! i) (its ! i)))"

lemma worker_command_put:
  "se_ID (mem s) \<noteq> k \<Longrightarrow> worker_command mem vs rs its (run\<lparr>rs_dispatched := gput k True (rs_dispatched run)\<rparr>) i s = worker_command mem vs rs its run i s"
  by (simp add: worker_command_def worker_quota_def worker_start_def)

lemma worker_messages_spec:
  assumes "distinct (map (\<lambda>x. se_ID (mem (snd x))) xs)"
  shows "fst (worker_messages mem vs rs its run xs) = map (\<lambda>(i, s). (s, worker_command mem vs rs its run i s)) xs \<and>
    (\<exists>d. snd (worker_messages mem vs rs its run xs) = run\<lparr>rs_dispatched := d\<rparr> \<and>
      (\<forall>k. map_of d k = (if \<exists>x \<in> set xs. se_ID (mem (snd x)) = k then Some True else map_of (rs_dispatched run) k)))"
  using assms
proof (induction xs arbitrary: run)
  case (Cons x xs)
  obtain i s where x: "x = (i, s)" by force
  let ?put = "run\<lparr>rs_dispatched := gput (se_ID (mem s)) True (rs_dispatched run)\<rparr>"
  have d: "distinct (map (\<lambda>x. se_ID (mem (snd x))) xs)" and ne: "\<And>y. y \<in> set xs \<Longrightarrow> se_ID (mem (snd y)) \<noteq> se_ID (mem s)"
    using Cons.prems by (simp_all add: x image_iff) metis
  have same: "map (\<lambda>(i, s). (s, worker_command mem vs rs its ?put i s)) xs = map (\<lambda>(i, s). (s, worker_command mem vs rs its run i s)) xs"
    using ne by (intro map_cong refl) (auto simp: worker_command_put)
  have st: "worker_start ?put = worker_start run" by (simp add: worker_start_def fun_eq_iff)
  show ?case
  proof (cases "map_of (rs_dispatched run) (se_ID (mem s)) = Some True")
    case True
    from Cons.IH[OF d, of run] obtain e where "snd (worker_messages mem vs rs its run xs) = run\<lparr>rs_dispatched := e\<rparr>"
      "\<forall>k. map_of e k = (if \<exists>x \<in> set xs. se_ID (mem (snd x)) = k then Some True else map_of (rs_dispatched run) k)" by blast
    then show ?thesis using Cons.IH[OF d, of run] True
      by (intro conjI exI[of _ e]) (auto simp: x split_beta Let_def worker_command_def)
  next
    case False
    from Cons.IH[OF d, of ?put] obtain e where "snd (worker_messages mem vs rs its ?put xs) = run\<lparr>rs_dispatched := e\<rparr>"
      "\<forall>k. map_of e k = (if \<exists>x \<in> set xs. se_ID (mem (snd x)) = k then Some True else map_of (rs_dispatched ?put) k)" by auto
    then show ?thesis using Cons.IH[OF d, of ?put] same st False
      by (intro conjI exI[of _ e]) (auto simp: x split_beta Let_def worker_command_def)
  qed
next
  case Nil show ?case by (intro conjI exI[of _ "rs_dispatched run"]) simp_all
qed

lemma send_messages_spec:
  assumes "distinct (map fst ms)"
  shows "send_messages mem ms s = (case map_of ms s of Some msg \<Rightarrow> deliver msg (mem s) | None \<Rightarrow> mem s)"
  using assms
proof (induction ms arbitrary: mem)
  case (Cons m ms)
  have "send_messages mem (m # ms) s = send_messages (mem(fst m := deliver (snd m) (mem (fst m)))) ms s"
    by (simp add: send_messages_def split_beta session_Send_deliver)
  also have "\<dots> = (case map_of ms s of Some msg \<Rightarrow> deliver msg ((mem(fst m := deliver (snd m) (mem (fst m)))) s)
      | None \<Rightarrow> (mem(fst m := deliver (snd m) (mem (fst m)))) s)" using Cons by simp
  moreover have "map_of ms (fst m) = None" using Cons.prems by (simp add: map_of_eq_None_iff)
  ultimately show ?case by (cases m) (auto split: option.split)
qed (simp add: send_messages_def)

lemma workers_in_order:
  assumes "registry_ok mem r" "orders ord" "ss = by_ID mem (registry_All ord r)"
  shows "distinct ss" "set ss = snd ` set r" "length ss = length r" "inj_on (\<lambda>s. se_ID (mem s)) (set ss)"
proof -
  note all = registry_All_props[OF assms(1,2)]
  show "distinct ss" "set ss = snd ` set r" using all by (simp_all add: assms(3) by_ID_def)
  have "size (mset (ord r)) = size (mset r)" using assms(2) by (simp add: orders_def)
  then show "length ss = length r" by (simp add: assms(3) by_ID_def registry_All_def)
  have "map_of r (se_ID (mem s)) = Some s" if "s \<in> set ss" for s
    using assms(1) that all by (auto simp: assms(3) by_ID_def registry_ok_def gowf_def)
  then show "inj_on (\<lambda>s. se_ID (mem s)) (set ss)" by (auto intro!: inj_onI dest: arg_cong[of _ _ "map_of r"])
qed

lemma fits_equal: "0 \<le> q \<Longrightarrow> q < 2 ^ 32 \<Longrightarrow> 0 < n \<Longrightarrow> n < 2 ^ 30 \<Longrightarrow> q = 0 \<or> fits q (replicate n 1)"
proof -
  assume q: "0 \<le> q" "q < 2 ^ 32" and n: "0 < n" "n < 2 ^ 30"
  have "pos_sum (replicate n 1) = int n" by (induction n) (simp_all add: pos_sum_def)
  moreover have "q * int n \<le> 2 ^ 32 * 2 ^ 30" using q n by (intro mult_mono) simp_all
  ultimately show ?thesis using q n by (auto simp: fits_def)
qed

text \<open>What a rebalance does, with the shares it computes.\<close>

lemma agent_rebalance_spec:
  assumes reg: "registry_ok (an_mem a) (an_workers a)" "orders (ho_sessions HO)" and run: "an_run a = Some run"
    and ne: "an_workers a \<noteq> []" and ss: "ss = by_ID (an_mem a) (registry_All (ho_sessions HO) (an_workers a))"
    and w: "ws = replicate (length ss) 1"
  shows "(\<forall>k < length ss. an_mem (agent_rebalance HO a) (ss ! k) = deliver (worker_command (an_mem a) (Largest (rs_vuQuota run) ws)
        (Largest (rs_rateQuota run) ws) (Largest (min (uint (rs_iterationQuota run)) (2 ^ 31)) ws) run k (ss ! k)) (an_mem a (ss ! k))) \<and>
    (\<exists>d. an_run (agent_rebalance HO a) = Some (run\<lparr>rs_dispatched := d, rs_ramp := 0\<rparr>) \<and>
      (\<forall>s \<in> set ss. map_of d (se_ID (an_mem a s)) = Some True)) \<and> an_workers (agent_rebalance HO a) = an_workers a"
proof -
  note o = workers_in_order[OF reg ss]
  define vs rts its where sh: "vs = Largest (rs_vuQuota run) ws" "rts = Largest (rs_rateQuota run) ws"
    "its = Largest (min (uint (rs_iterationQuota run)) (2 ^ 31)) ws"
  let ?m = "worker_messages (an_mem a) vs rts its run (enumerate 0 ss)"
  have d: "distinct (map (\<lambda>x. se_ID (an_mem a (snd x))) (enumerate 0 ss))"
  proof -
    have "map (\<lambda>x. se_ID (an_mem a (snd x))) (enumerate 0 ss) = map (\<lambda>s. se_ID (an_mem a s)) (map snd (enumerate 0 ss))"
      unfolding map_map by (simp only: comp_def)
    then show ?thesis using o(1,4) by (simp add: distinct_map del: map_map)
  qed
  note spec = worker_messages_spec[OF d, of vs rts its run]
  have "ss \<noteq> []" using o(3) ne by auto
  then have r: "agent_rebalance HO a = a\<lparr>an_run := Some ((snd ?m)\<lparr>rs_ramp := 0\<rparr>), an_mem := send_messages (an_mem a) (fst ?m)\<rparr>"
    by (simp add: agent_rebalance_def run Let_def ss[symmetric] w[symmetric] sh split_beta)
  have fm: "map fst (fst ?m) = ss" using spec by (simp add: split_beta comp_def)
  have mo: "map_of (fst ?m) (ss ! k) = Some (worker_command (an_mem a) vs rts its run k (ss ! k))" if "k < length ss" for k
  proof -
    have "(k, ss ! k) \<in> set (enumerate 0 ss)" using that by (simp add: in_set_enumerate_eq)
    then have "(ss ! k, worker_command (an_mem a) vs rts its run k (ss ! k)) \<in> set (fst ?m)" using spec by force
    then show ?thesis using fm o(1) by (intro map_of_is_SomeI) simp_all
  qed
  have "an_mem (agent_rebalance HO a) (ss ! k) = deliver (worker_command (an_mem a) vs rts its run k (ss ! k)) (an_mem a (ss ! k))"
    if "k < length ss" for k
  proof -
    have "an_mem (agent_rebalance HO a) (ss ! k) = (case map_of (fst ?m) (ss ! k) of Some msg \<Rightarrow> deliver msg (an_mem a (ss ! k)) | None \<Rightarrow> an_mem a (ss ! k))"
      using send_messages_spec[of "fst ?m" "an_mem a" "ss ! k"] fm o(1) by (simp add: r)
    then show ?thesis unfolding mo[OF that] by simp
  qed
  moreover have "\<exists>x \<in> set (enumerate 0 ss). se_ID (an_mem a (snd x)) = se_ID (an_mem a s)" if "s \<in> set ss" for s
  proof -
    have "s \<in> snd ` set (enumerate 0 ss)" using that by (simp flip: set_map)
    then show ?thesis by auto
  qed
  ultimately show ?thesis unfolding sh[symmetric] using spec by (auto simp: r)
qed

text \<open>
  A rebalance divides exactly the agent's quota: the shares of the connected workers add up to it,
  each worker gets one command with its share, a quota change if it already runs and else a start
  with the id block of its place in the order, and all of them count as started afterwards.
\<close>

theorem agent_divides_quota:
  assumes "registry_ok (an_mem a) (an_workers a)" and "orders (ho_sessions HO)" and "an_run a = Some run"
    and "0 \<le> rs_vuQuota run" and "rs_vuQuota run < 2 ^ 32" and "an_workers a \<noteq> []" and "length (an_workers a) < 2 ^ 30"
    and "ss = by_ID (an_mem a) (registry_All (ho_sessions HO) (an_workers a))"
    and "shares = Largest (rs_vuQuota run) (replicate (length ss) 1)"
  shows "set ss = snd ` set (an_workers a) \<and> length shares = length ss \<and> sum_list shares = rs_vuQuota run \<and>
    (\<forall>k < length ss. \<exists>msg. an_mem (agent_rebalance HO a) (ss ! k) = deliver msg (an_mem a (ss ! k)) \<and>
      (if map_of (rs_dispatched run) (se_ID (an_mem a (ss ! k))) = Some True
       then \<exists>q. msg = NodeDown_SetQuota q \<and> sq_VuQuota q = word_of_int (shares ! k) \<and> sq_Ramp q = rs_ramp run
       else \<exists>m. msg = NodeDown_StartRun m \<and> sr_RunId m = rs_id run \<and> sr_VuQuota m = word_of_int (shares ! k) \<and>
         sr_VuIdBase m = WorkerBase (rs_vuIDBase run) (int k))) \<and>
    (\<exists>run'. an_run (agent_rebalance HO a) = Some run' \<and> rs_ramp run' = 0 \<and>
      (\<forall>s \<in> set ss. map_of (rs_dispatched run') (se_ID (an_mem a s)) = Some True))"
proof -
  note o = workers_in_order[OF assms(1,2,8)]
  note r = agent_rebalance_spec[OF assms(1-3,6,8) refl, folded assms(9)]
  have "sum_list shares = rs_vuQuota run"
    unfolding assms(9) using fits_equal[OF assms(4,5), of "length ss"] assms(6,7) o(3) by (intro sum_Largest) auto
  moreover have "\<exists>msg. an_mem (agent_rebalance HO a) (ss ! k) = deliver msg (an_mem a (ss ! k)) \<and>
      (if map_of (rs_dispatched run) (se_ID (an_mem a (ss ! k))) = Some True
       then \<exists>q. msg = NodeDown_SetQuota q \<and> sq_VuQuota q = word_of_int (shares ! k) \<and> sq_Ramp q = rs_ramp run
       else \<exists>m. msg = NodeDown_StartRun m \<and> sr_RunId m = rs_id run \<and> sr_VuQuota m = word_of_int (shares ! k) \<and>
         sr_VuIdBase m = WorkerBase (rs_vuIDBase run) (int k))" if "k < length ss" for k
    using r that by (auto simp: worker_command_def worker_quota_def worker_start_def)
  ultimately show ?thesis using r o(2) by (auto simp: assms(9))
qed

subsection \<open>A small fleet of workers\<close>

definition demo_host :: host where
  "demo_host = \<lparr>ho_NumCPU = 4, ho_Hostname = ''host'', ho_Version = ''v1'', ho_sessions = (\<lambda>m. m), ho_procs = (\<lambda>m. m)\<rparr>"

definition demo_worker :: "string \<Rightarrow> Session" where
  "demo_worker i = demo_session\<lparr>se_ID := i\<rparr>"

definition demo_worker_mem :: memory where
  "demo_worker_mem p = demo_worker (if p = 0 then ''a'' else if p = 1 then ''b'' else ''c'')"

definition demo_agent_config :: AgentConfig where
  "demo_agent_config = \<lparr>af_NodeID = ''n'', af_CoordinatorTarget = ''host:1'', af_Workers = 3, af_MaxVUs = 100, af_Labels = []\<rparr>"

definition demo_start :: StartRun where
  "demo_start = \<lparr>sr_RunId = ''run'', sr_Plan = demo_plan, sr_VuQuota = 7, sr_WorkerCount = 0, sr_IterationRateQuota = 0,
     sr_IterationQuota = 0, sr_StartAt = 1, sr_ShardIndex = 0, sr_ShardCount = 1, sr_VuIdBase = 0\<rparr>"

text \<open>Three workers are connected when the run is dispatched; then \<open>a\<close> dies and \<open>c\<close> loses its connection and comes back.\<close>

definition demo_agent :: Agent where
  "demo_agent = \<lparr>an_cfg = demo_agent_config, an_upstream = demo_client, an_mem = demo_worker_mem,
     an_workers = [(''a'', 0), (''b'', 1), (''c'', 2)], an_procs = [], an_run = Some (new_runState 0 demo_start), an_runtop = 1,
     an_vuByWorker = [], an_statsByWorker = [], an_workerPhase = [], an_workerIters = [], an_nextWorkerSeq = 3, an_activeVUs = 0,
     an_tasks = []\<rparr>"

definition demo_rejoined :: Agent where
  "demo_rejoined = run_task demo_host False (snd (agent_OnJoin (agent_OnLeave (agent_OnLeave (agent_rebalance demo_host demo_agent) 0) 2) 3))"

lemmas demo_agent_defs = demo_agent_def demo_host_def demo_worker_mem_def demo_worker_def new_runState_def demo_start_def

lemmas agent_steps_defs = agent_rebalance_def registry_All_def by_ID_def sort_by_def Let_def send_messages_def session_Send_def


text \<open>
  A run whose worker processes could not be started stays the agent's run although it has been
  reported as failed: a worker of it that did start, when it connects, is queued for its share.
\<close>

theorem failed_start_keeps_run:
  assumes "agent_OnStartRun HO now spawn a msg = (Some err, a')"
  shows "(\<exists>run. an_run a' = Some run \<and> rs_id run = sr_RunId msg) \<and>
    TaskRebalance \<in> set (an_tasks (snd (agent_OnJoin a' s)))"
proof -
  have spawned: "an_run (snd (spawnWorkers now b i fs)) = an_run b" for b i fs
  proof (induction fs arbitrary: b i)
    case (Cons f fs) then show ?case by (cases f) (simp_all add: spawnWorker_def Let_def)
  qed simp
  let ?s = "agent_stopRun HO a False ''superseded by a new run''"
  let ?b = "?s\<lparr>an_run := Some (new_runState (an_runtop ?s) msg), an_runtop := Suc (an_runtop ?s), an_workerPhase := [], an_workerIters := []\<rparr>"
  obtain e c where sp: "spawnWorkers now ?b 0 (map spawn [0..<nat (run_workers (an_cfg ?s) msg)]) = (e, c)" by force
  have "an_run c = Some (new_runState (an_runtop ?s) msg)"
    using arg_cong[OF sp, of "\<lambda>x. an_run (snd x)"] unfolding spawned by simp
  moreover have "an_run a' = an_run c"
    using assms sp by (simp add: agent_OnStartRun_def Let_def split: option.splits) (auto simp: agent_reportStatus_def send_up_def)
  ultimately have "an_run a' = Some (new_runState (an_runtop ?s) msg)" by simp
  then show ?thesis by (auto simp: new_runState_def agent_OnJoin_def split_beta Let_def)
qed

subsection \<open>The two supervisors\<close>

interpretation coordinators: supervisor "coordinator_handler E" co_sessions for E :: "'h runtime"
proof unfold_locales
  fix now :: go_time and c :: "'h Coordinator" and p q :: sref and beat batch update event
  show "co_sessions (snd (h_OnJoin (coordinator_handler E) now c p)) =
      snd (snd (registry_Add (h_memory (coordinator_handler E) c) (co_sessions c) p))"
    by (simp add: coordinator_handler_def OnJoin_def Let_def split_beta recordGlobal_def co_publish_def spawn_rebalance_def split: option.split)
qed (auto simp: coordinator_handler_def OnJoin_def OnLeave_def OnHeartbeat_def OnMetrics_def OnRunStatus_def OnLog_def Let_def split_beta
    recordGlobal_def record_event_def co_publish_def upd_run_def spawn_rebalance_def registry_Add_def registry_Remove_def
    split: option.splits)

interpretation agents: supervisor agent_handler an_workers
  by unfold_locales
    (auto simp: agent_handler_def agent_OnJoin_def agent_OnLeave_def agent_OnHeartbeat_def agent_OnMetrics_def agent_OnRunStatus_def
      agent_OnLog_def send_up_def Let_def split_beta registry_Add_def registry_Remove_def split: option.splits)

text \<open>The agent's own steps are steps of its server's \<open>serves\<close>.\<close>

definition agent_frame :: "Agent \<Rightarrow> Agent \<Rightarrow> bool" where
  "agent_frame a a' \<longleftrightarrow> an_workers a' = an_workers a \<and> (\<forall>q. se_ID (an_mem a' q) = se_ID (an_mem a q))"

lemma send_messages_ids: "se_ID (send_messages mem ms q) = se_ID (mem q)"
  by (induction ms arbitrary: mem) (simp_all add: send_messages_def split_beta)

lemma agent_frame_rebalance: "agent_frame a (agent_rebalance HO a)"
  by (auto simp: agent_frame_def agent_rebalance_def Let_def split_beta send_messages_ids split: option.split)

lemma agent_frame_tell: "agent_frame a (agent_reportStatus a runID phase message)" "agent_frame a (reportLog now a level runID message fs)"
  by (simp_all add: agent_frame_def agent_reportStatus_def reportLog_def send_up_def)

lemma agent_frame_stop:
  "agent_frame a (stop_begin HO a run graceful reason)" "agent_frame a (stop_end a ref)" "agent_frame a (terminateWorkers a)"
  by (simp_all add: agent_frame_def stop_begin_def stop_end_def terminateWorkers_def Broadcast_def se_ID_broadcast split: option.split)

lemma agent_frame_trans: "agent_frame a a' \<Longrightarrow> agent_frame a' a'' \<Longrightarrow> agent_frame a a''"
  by (simp add: agent_frame_def)

lemma agent_frame_upd:
  "agent_frame a (a\<lparr>an_tasks := ts\<rparr>)" "agent_frame a (a\<lparr>an_run := r\<rparr>)" "agent_frame a (a\<lparr>an_procs := ps\<rparr>)"
  by (simp_all add: agent_frame_def)

lemma agent_frame_stopRun: "agent_frame a (agent_stopRun HO a graceful reason)"
proof (cases "an_run a")
  case (Some run)
  show ?thesis unfolding agent_stopRun_def Some option.case
    by (rule agent_frame_trans[OF agent_frame_trans[OF agent_frame_stop(1) agent_frame_stop(2)] agent_frame_stop(3)])
qed (simp add: agent_stopRun_def agent_frame_def)

lemma agent_frame_spawn: "agent_frame a (snd (spawnWorkers now a i fs))"
proof (induction fs arbitrary: a i)
  case (Cons f fs)
  then show ?case by (cases f) (simp_all add: spawnWorker_def Let_def agent_frame_def)
qed (simp add: agent_frame_def)

lemma agent_frame_OnStartRun: "agent_frame a (snd (agent_OnStartRun HO now spawn a msg))"
proof -
  let ?s = "agent_stopRun HO a False ''superseded by a new run''"
  let ?b = "?s\<lparr>an_run := Some (new_runState (an_runtop ?s) msg), an_runtop := Suc (an_runtop ?s), an_workerPhase := [], an_workerIters := []\<rparr>"
  obtain e c where sp: "spawnWorkers now ?b 0 (map spawn [0..<nat (run_workers (an_cfg ?s) msg)]) = (e, c)" by force
  have "agent_frame ?b c" using agent_frame_spawn[of ?b now 0] by (metis snd_conv sp)
  moreover have "agent_frame a ?b" using agent_frame_stopRun[of a HO False] by (simp add: agent_frame_def)
  ultimately have "agent_frame a c" by (rule agent_frame_trans[rotated])
  then show ?thesis using sp by (cases e) (auto simp: agent_OnStartRun_def Let_def agent_frame_def agent_reportStatus_def send_up_def)
qed

lemma agent_frame_OnSetQuota: "agent_frame a (snd (agent_OnSetQuota HO quote a msg))"
  using agent_frame_trans[OF agent_frame_upd(2) agent_frame_rebalance]
  by (simp add: agent_OnSetQuota_def split: option.split) (simp add: agent_frame_def)

lemma agent_frame_exited: "agent_frame a (worker_exited HO now a runID wid)"
  using agent_frame_trans[OF agent_frame_upd(3) agent_frame_trans[OF agent_frame_tell(2) agent_frame_rebalance]] agent_frame_upd(3)
  by (simp add: worker_exited_def Let_def)

lemma agent_frame_dispatch: "agent_frame a (snd (dispatch_turn HO a runID n late))"
  using agent_frame_rebalance agent_frame_tell(1) by (auto simp: dispatch_turn_def) (simp_all add: agent_frame_def)

lemma agent_frame_task: "agent_frame a (run_task HO late a)"
proof (cases "an_tasks a")
  case (Cons task tasks)
  let ?a = "a\<lparr>an_tasks := tasks\<rparr>"
  have a: "agent_frame a a'" if "agent_frame ?a a'" for a' using agent_frame_trans[OF agent_frame_upd(1) that] .
  show ?thesis
  proof (cases task)
    case (TaskDispatch runID n)
    then show ?thesis using Cons agent_frame_dispatch[of ?a HO runID n late]
      by (auto simp: run_task_def Let_def split_beta agent_frame_def)
  next
    case (TaskStop graceful reason)
    then show ?thesis using Cons agent_frame_stop(1)[of ?a HO] by (auto simp: run_task_def Let_def agent_frame_def split: option.split)
  qed (use Cons a[OF agent_frame_rebalance] agent_frame_stop(2,3) in \<open>auto simp: run_task_def Let_def agent_frame_def\<close>)
qed (simp add: run_task_def agent_frame_def)

lemma agent_New_fields:
  "agent_New HO mem cfg = Inr a \<Longrightarrow> an_workers a = NewSessionRegistry \<and> an_run a = None"
  by (auto simp: agent_New_def Let_def split: if_splits sum.splits)

lemma handler_memory [simp]: "h_memory agent_handler = an_mem" "h_memory (coordinator_handler E) = co_mem"
  by (simp_all add: agent_handler_def coordinator_handler_def)

lemma agent_own:
  assumes "serves agent_handler an_workers scfg a0 (a, hist)" "agent_frame a a'"
  shows "serves agent_handler an_workers scfg a0 (a', hist)"
  by (rule serves.own[OF assms(1)]) (use assms(2) in \<open>simp_all add: agent_frame_def\<close>)

text \<open>
  C12. Neither supervisor ever confuses two connections of one node: through any interleaving of
  streams that open, talk and end late with the supervisor's own steps, the agent's registry of
  workers and the coordinator's registry of agents hold exactly each node's latest connection
  that has not ended.
\<close>

theorem supervisors_track_nodes:
  assumes "agent_New HO mem acfg = Inr a0" and "serves agent_handler an_workers scfg a0 (a, ahist)"
    and "serves (coordinator_handler E) co_sessions scfg (coord_New cmem runmem ccfg) (c, chist)"
  shows "map_of (an_workers a) node = current_session (\<lambda>p. se_ID (an_mem a p)) ahist node \<and>
    map_of (co_sessions c) node = current_session (\<lambda>p. se_ID (co_mem c p)) chist node"
proof -
  have "agents.tracks (a, ahist)" using agents.serves_tracks[OF assms(2)] agent_New_fields[OF assms(1)] by simp
  moreover have "coordinators.tracks E (c, chist)" by (rule coordinators.serves_tracks[OF assms(3)]) (simp add: coord_New_def)
  ultimately show ?thesis
    by (simp add: agents.tracks_def coordinators.tracks_def)
qed

subsection \<open>Concrete instances\<close>

lemma demo_agent_registry: "registry_ok demo_worker_mem [(''a'', 0), (''b'', 1), (''c'', 2)]"
  by (auto simp: registry_ok_def gowf_def demo_worker_mem_def demo_worker_def split: if_splits)

theorem agent_divides_quota_witness:
  "\<exists>run'. an_run (agent_rebalance demo_host demo_agent) = Some run' \<and>
    sum_list (Largest 7 (replicate (length (by_ID demo_worker_mem [0, 1, 2])) 1)) = 7"
proof -
  have "an_mem demo_agent = demo_worker_mem" "an_workers demo_agent = [(''a'', 0), (''b'', 1), (''c'', 2)]"
    "an_run demo_agent = Some (new_runState 0 demo_start)" "orders (ho_sessions demo_host)"
    "registry_All (ho_sessions demo_host) [(''a'', 0), (''b'', 1), (''c'', 2)] = [0, 1, 2]"
    by (simp_all add: demo_agent_def demo_host_def orders_def registry_All_def)
  then show ?thesis
    using agent_divides_quota[of demo_agent demo_host "new_runState 0 demo_start", OF _ _ _ _ _ _ _ refl refl] demo_agent_registry
    by (simp add: new_runState_def demo_start_def) blast
qed

definition demo_status :: RunStatusUpdate where
  "demo_status = \<lparr>ru_RunId = ''run'', ru_Phase = RUN_PHASE_RUNNING, ru_Message = [], ru_ActiveVus = 0, ru_CompletedIterations = 0\<rparr>"

theorem agent_status_folds_witness:
  "\<exists>u. cl_out (an_upstream (agent_OnRunStatus demo_agent 1 demo_status)) = cl_out demo_client @ [NodeUp_RunStatus u] \<and>
    ru_Phase u \<noteq> RUN_PHASE_COMPLETED"
proof -
  have d: "gowf (an_workerPhase demo_agent)" "an_upstream demo_agent = demo_client"
    "int (length (cl_out demo_client)) < cc_QueueSize (cl_cfg demo_client)"
    by (simp_all add: demo_agent_def gowf_def demo_client_def demo_client_config_def cc_applyDefaults_def Let_def)
  have p: "ru_Phase demo_status = RUN_PHASE_RUNNING" by (simp add: demo_status_def)
  from agent_status_folds[of demo_agent "agent_OnRunStatus demo_agent 1 demo_status" 1 demo_status, unfolded d(2) p, OF d(1,3) refl]
  show ?thesis using run_phase.distinct by blast
qed

theorem failed_start_keeps_run_witness:
  "\<exists>run. an_run (snd (agent_OnStartRun demo_host 0 (\<lambda>i. Some ''fork'') demo_agent demo_start)) = Some run \<and> rs_id run = ''run''"
proof -
  have "\<exists>err a'. agent_OnStartRun demo_host 0 (\<lambda>i. Some ''fork'') demo_agent demo_start = (Some err, a')"
    by (simp add: agent_OnStartRun_def Let_def run_workers_def max_def upt_rec spawnWorker_def split: option.split)
  then obtain err a' where "agent_OnStartRun demo_host 0 (\<lambda>i. Some ''fork'') demo_agent demo_start = (Some err, a')" by blast
  from failed_start_keeps_run[OF this] this show ?thesis by (simp add: demo_start_def)
qed

definition demo_agent0 :: Agent where
  "demo_agent0 = projr (agent_New demo_host demo_worker_mem demo_agent_config)"

theorem supervisors_track_nodes_witness:
  "map_of (an_workers (snd (join_open agent_handler demo_server 0 ''peer'' (Inr (NodeUp_Hello demo_hello)) 5 demo_agent0))) ''a'' = Some 5"
proof -
  have new: "agent_New demo_host demo_worker_mem demo_agent_config = Inr demo_agent0"
    by (simp add: demo_agent0_def agent_New_def NewClient_def agent_hello_def af_applyDefaults_def demo_agent_config_def Let_def)
  let ?a = "snd (join_open agent_handler demo_server 0 ''peer'' (Inr (NodeUp_Hello demo_hello)) 5 demo_agent0)"
  have "serves agent_handler an_workers demo_server demo_agent0 (?a, [] @ [Joined 5])"
    by (rule serves.opened[OF serves.fresh _ _ prod.collapse[symmetric]]) (simp_all add: demo_hello_def)
  from supervisors_track_nodes[OF new this serves.fresh, of "''a''"]
  have "map_of (an_workers ?a) ''a'' = current_session (\<lambda>p. se_ID (an_mem ?a p)) ([] @ [Joined 5]) ''a''" by blast
  then have "map_of (an_workers ?a) ''a'' = (if se_ID (an_mem ?a 5) = ''a'' then Some 5 else None)"
    by (simp only: current_session_Joined current_session_Nil)
  moreover have "se_ID (an_mem ?a 5) = ''a''"
    by (simp add: join_open_def awaitHello_def demo_hello_def agent_handler_def agent_OnJoin_def registry_Add_def new_session_def Let_def split_beta
      split: option.split)
  ultimately show ?thesis by simp
qed

end
