(* ===== verification/Durations.thy ===== *)
theory Durations
  imports VirtualUser "HOL-Library.Sublist"
begin

text \<open>
  What the configuration reads: \<open>strings.TrimSpace\<close>, \<open>strings.LastIndex\<close> and \<open>time.ParseDuration\<close> of the
  standard library, and on them \<open>ParsePause\<close> of \<open>pkg/loadwave/pause.go\<close> and \<open>parseThink\<close> of
  \<open>internal/scenario/declarative.go\<close>. The lemmas show that a printed duration is read back exactly,
  fractions through binary64 included, and so is a printed pause.
\<close>

subsection \<open>Strings\<close>

text \<open>The UTF-8 encodings of the runes \<open>unicode.IsSpace\<close> holds for.\<close>

definition spaces :: "string list" where
  "spaces = map (map char_of)
     ([[9], [10], [11], [12], [13], [32], [194, 133], [194, 160], [225, 154, 128]] @
      map (\<lambda>n. [226, 128, n]) ([128..<139] @ [168, 169, 175]) @ [[226, 129, 159], [227, 128, 128 :: nat]])"

function trim_with :: "string list \<Rightarrow> string \<Rightarrow> string" where
  "trim_with ps s =
     (case find (\<lambda>p. p \<noteq> [] \<and> prefix p s) ps of None \<Rightarrow> s | Some p \<Rightarrow> trim_with ps (drop (length p) s))"
  by pat_completeness auto
termination
proof (relation "measure (length \<circ> snd)")
  fix ps s p assume "find (\<lambda>p. p \<noteq> [] \<and> prefix p s) ps = Some p"
  then have "p \<noteq> []" "prefix p s" by (auto simp: find_Some_iff)
  then show "((ps, drop (length p) s), (ps, s)) \<in> measure (length \<circ> snd)" by (auto simp: prefix_def)
qed simp

declare trim_with.simps [simp del]

definition TrimSpace :: "string \<Rightarrow> string" where
  "TrimSpace s = rev (trim_with (map rev spaces) (rev (trim_with spaces s)))"

definition last_index :: "char \<Rightarrow> string \<Rightarrow> nat option" where
  "last_index c s =
     (let after = length (takeWhile (\<lambda>x. x \<noteq> c) (rev s))
      in if after < length s then Some (length s - after - 1) else None)"

definition is_digit :: "char \<Rightarrow> bool" where
  "is_digit c \<longleftrightarrow> 48 \<le> (of_char c :: nat) \<and> (of_char c :: nat) \<le> 57"

definition digit :: "char \<Rightarrow> nat" where
  "digit c = of_char c - 48"

subsection \<open>time.ParseDuration\<close>

fun leadingInt :: "nat \<Rightarrow> string \<Rightarrow> (nat \<times> string) option" where
  "leadingInt x [] = Some (x, [])"
| "leadingInt x (c # cs) =
     (if \<not> is_digit c then Some (x, c # cs)
      else if x > 2 ^ 63 div 10 then None
      else let x = x * 10 + digit c in if x > 2 ^ 63 then None else leadingInt x cs)"

fun leadingFraction :: "nat \<Rightarrow> float64 \<Rightarrow> bool \<Rightarrow> string \<Rightarrow> nat \<times> float64 \<times> string" where
  "leadingFraction x scale overflow [] = (x, scale, [])"
| "leadingFraction x scale overflow (c # cs) =
     (if \<not> is_digit c then (x, scale, c # cs)
      else if overflow then leadingFraction x scale True cs
      else if x > (2 ^ 63 - 1) div 10 then leadingFraction x scale True cs
      else let y = x * 10 + digit c in
        if y > 2 ^ 63 then leadingFraction x scale True cs else leadingFraction y (f_mul scale (Fin 10)) False cs)"

definition unitMap :: "(string, nat) gomap" where
  "unitMap = [(''ns'', 1), (''us'', 1000), (map char_of [194, 181, 115 :: nat], 1000), (map char_of [206, 188, 115 :: nat], 1000),
     (''ms'', 1000000), (''s'', 1000000000), (''m'', 60000000000), (''h'', 3600000000000)]"

definition unit_char :: "char \<Rightarrow> bool" where
  "unit_char c \<longleftrightarrow> c \<noteq> CHR ''.'' \<and> \<not> is_digit c"

text \<open>\<open>uint64\<close> of a float that is in range.\<close>

fun f_nat :: "float64 \<Rightarrow> nat" where
  "f_nat (Fin r) = nat (rat_trunc r)"
| "f_nat _ = 0"

text \<open>One round of the loop: a number with its unit, and the rest.\<close>

definition parse_term :: "string \<Rightarrow> (nat \<times> string) option" where
  "parse_term s =
     (if s = [] \<or> \<not> (hd s = CHR ''.'' \<or> is_digit (hd s)) then None
      else case leadingInt 0 s of
        None \<Rightarrow> None
      | Some (v, s1) \<Rightarrow>
          let pre = (length s1 \<noteq> length s);
              (f, scale, s2) = (if s1 \<noteq> [] \<and> hd s1 = CHR ''.'' then leadingFraction 0 (Fin 1) False (tl s1) else (0, Fin 1, s1));
              post = (s1 \<noteq> [] \<and> hd s1 = CHR ''.'' \<and> length s2 \<noteq> length (tl s1))
          in if \<not> pre \<and> \<not> post then None
             else
               let u = takeWhile unit_char s2; rest = dropWhile unit_char s2 in
               if u = [] then None
               else case map_of unitMap u of
                 None \<Rightarrow> None
               | Some unit \<Rightarrow>
                   if v > 2 ^ 63 div unit then None
                   else
                     let v = v * unit;
                         v = (if f > 0 then v + f_nat (f_mul (f_of_int (int f)) (f_div (f_of_int (int unit)) scale)) else v)
                     in if v > 2 ^ 63 then None else Some (v, rest))"

lemma leadingInt_shorter: "leadingInt x s = Some (v, rest) \<Longrightarrow> length rest \<le> length s"
  by (induction x s rule: leadingInt.induct) (auto simp: Let_def split: if_splits)

lemma leadingFraction_shorter: "leadingFraction x sc ov s = (f, sc', rest) \<Longrightarrow> length rest \<le> length s"
  by (induction x sc ov s rule: leadingFraction.induct) (auto simp: Let_def split: if_splits)

lemma dropWhile_shorter: "takeWhile p s \<noteq> [] \<Longrightarrow> length (dropWhile p s) < length s"
  by (cases s) (auto split: if_splits simp: length_dropWhile_le le_imp_less_Suc)

lemma parse_term_shorter: "parse_term s = Some (v, rest) \<Longrightarrow> length rest < length s"
proof -
  assume a: "parse_term s = Some (v, rest)"
  obtain v1 s1 where 1: "leadingInt 0 s = Some (v1, s1)" using a by (auto simp: parse_term_def split: if_splits option.splits)
  obtain f sc s2 where 2: "(f, sc, s2) = (if s1 \<noteq> [] \<and> hd s1 = CHR ''.'' then leadingFraction 0 (Fin 1) False (tl s1) else (0, Fin 1, s1))"
    by (metis prod_cases3)
  have "length s2 \<le> length s1" using 2 leadingFraction_shorter[of 0 "Fin 1" False "tl s1" f sc s2] by (auto split: if_splits)
  moreover have "takeWhile unit_char s2 \<noteq> []" "rest = dropWhile unit_char s2"
    using a by (auto simp: parse_term_def 1 2[symmetric] Let_def split: if_splits option.splits)
  ultimately show ?thesis using leadingInt_shorter[OF 1] dropWhile_shorter[of unit_char s2] by simp
qed

function parse_terms :: "nat \<Rightarrow> string \<Rightarrow> nat option" where
  "parse_terms d s =
     (if s = [] then Some d
      else case parse_term s of
        None \<Rightarrow> None
      | Some (v, rest) \<Rightarrow> let d = (d + v) mod 2 ^ 64 in if d > 2 ^ 63 then None else parse_terms d rest)"
  by pat_completeness auto
termination
  by (relation "measure (length \<circ> snd)") (auto dest: parse_term_shorter)

declare parse_terms.simps [simp del]

definition ParseDuration :: "string \<Rightarrow> duration option" where
  "ParseDuration s =
     (let neg = (s \<noteq> [] \<and> hd s = CHR ''-''); s = (if s \<noteq> [] \<and> (hd s = CHR ''-'' \<or> hd s = CHR ''+'') then tl s else s) in
      if s = ''0'' then Some 0
      else if s = [] then None
      else case parse_terms 0 s of
        None \<Rightarrow> None
      | Some d \<Rightarrow> if neg then Some (i64 (- i64 (int d))) else if d > 2 ^ 63 - 1 then None else Some (int d))"

subsection \<open>Pauses and think times\<close>

datatype pause_error = PauseEmpty | PauseDescends | PauseInvalid | PauseNegative

text \<open>The range form shared by both: the text around the last \<open>-\<close>, when both sides are durations.\<close>

definition split_range :: "string \<Rightarrow> (duration \<times> duration) option" where
  "split_range s =
     (case last_index (CHR ''-'') s of
        Some idx \<Rightarrow>
          if idx > 0
          then (case (ParseDuration (TrimSpace (take idx s)), ParseDuration (TrimSpace (drop (Suc idx) s))) of
                  (Some lo, Some hi) \<Rightarrow> Some (lo, hi)
                | _ \<Rightarrow> None)
          else None
      | None \<Rightarrow> None)"

definition ParsePause :: "string \<Rightarrow> pause_error + Pause" where
  "ParsePause spec =
     (let trimmed = TrimSpace spec in
      if trimmed = [] then Inl PauseEmpty
      else case split_range trimmed of
        Some (low, high) \<Rightarrow> if low < 0 \<or> high < low then Inl PauseDescends else Inr \<lparr>pz_Min = low, pz_Max = high\<rparr>
      | None \<Rightarrow>
          (case ParseDuration trimmed of
             None \<Rightarrow> Inl PauseInvalid
           | Some fixed \<Rightarrow> if fixed < 0 then Inl PauseNegative else Inr (NewPause fixed)))"

definition parseThink :: "string \<Rightarrow> pause_error + duration \<times> duration" where
  "parseThink spec =
     (let spec = TrimSpace spec in
      case split_range spec of
        Some (lo, hi) \<Rightarrow> if lo < 0 \<or> hi < lo then Inl PauseDescends else Inr (lo, hi)
      | None \<Rightarrow>
          (case ParseDuration spec of
             None \<Rightarrow> Inl PauseInvalid
           | Some fixed \<Rightarrow> if fixed < 0 then Inl PauseNegative else Inr (fixed, fixed)))"

subsection \<open>Digits read back\<close>

lemma digit_char [simp]: "n < 10 \<Longrightarrow> is_digit (char_of (48 + n))" "n < 10 \<Longrightarrow> digit (char_of (48 + n)) = n"
  by (simp_all add: is_digit_def digit_def take_bit_eq_mod)

lemma dec_digits_all [simp]: "list_all is_digit (dec_digits n)" and dec_digits_ne [simp]: "dec_digits n \<noteq> []"
proof -
  show "list_all is_digit (dec_digits n)"
  proof (induction n rule: dec_digits.induct)
    case (1 n)
    then show ?case by (subst dec_digits.simps) simp
  qed
  show "dec_digits n \<noteq> []" by (subst dec_digits.simps) simp
qed

lemma dec_value_step: "dec_value (c # cs) x = dec_value cs (x * 10 + digit c)"
  by (simp add: digit_def mult.commute)

lemma dec_value_ge: "x \<le> dec_value ds x"
proof (induction ds arbitrary: x)
  case (Cons c cs)
  then show ?case by (simp add: le_trans[OF _ Cons[of "10 * x + (of_char c - 48)"]])
qed simp

abbreviation (input) no_digit :: "string \<Rightarrow> bool" where
  "no_digit rest \<equiv> rest = [] \<or> \<not> is_digit (hd rest)"

lemma leadingInt_stop: "no_digit rest \<Longrightarrow> leadingInt x rest = Some (x, rest)"
  by (cases rest) simp_all

lemma leadingInt_digits:
  "list_all is_digit ds \<Longrightarrow> dec_value ds x \<le> 2 ^ 63 \<Longrightarrow> no_digit rest \<Longrightarrow>
   leadingInt x (ds @ rest) = Some (dec_value ds x, rest)"
proof (induction ds arbitrary: x)
  case (Cons c cs)
  let ?y = "x * 10 + digit c"
  have "?y \<le> 2 ^ 63" using dec_value_ge[of ?y cs] Cons.prems(2) unfolding dec_value_step by linarith
  then have "?y \<le> 2 ^ 63" "x \<le> 2 ^ 63 div 10" by (auto simp: less_eq_div_iff_mult_less_eq)
  then show ?case using Cons by (simp add: dec_value_step del: dec_value.simps)
qed (simp add: leadingInt_stop)

lemma fl_nat: "n \<le> 2 ^ 53 \<Longrightarrow> fl (of_nat n) = Fin (of_nat n)"
proof -
  assume n: "n \<le> 2 ^ 53"
  then have "(of_nat n :: rat) \<le> of_nat (2 ^ 53)" by (simp only: of_nat_le_iff)
  also have "\<dots> \<le> 2 ^ 200" by simp
  finally have "\<bar>of_nat n :: rat\<bar> \<le> 2 ^ 200" by simp
  moreover have "rnd64 (of_int (int n)) = of_int (int n)" using n by (intro rnd64_int) simp
  ultimately show ?thesis using fl_Fin[of "of_nat n"] by simp
qed

lemma pow10_small: "k \<le> 9 \<Longrightarrow> (10 :: nat) ^ k \<le> 2 ^ 53"
proof -
  assume "k \<le> 9"
  then have "(10 :: nat) ^ k \<le> 10 ^ 9" by (intro power_increasing) auto
  then show ?thesis by simp
qed

lemma scale_step: "k < 9 \<Longrightarrow> f_mul (Fin (10 ^ k)) (Fin 10) = Fin (10 ^ Suc k)"
  using fl_nat[of "10 ^ Suc k"] pow10_small[of "Suc k"] by (simp add: mult.commute)

lemma leadingFraction_digits:
  "list_all is_digit ds \<Longrightarrow> dec_value ds x \<le> 10 ^ 9 \<Longrightarrow> k + length ds \<le> 9 \<Longrightarrow> no_digit rest \<Longrightarrow>
   leadingFraction x (Fin (10 ^ k)) False (ds @ rest) = (dec_value ds x, Fin (10 ^ (k + length ds)), rest)"
proof (induction ds arbitrary: x k)
  case Nil then show ?case by (cases rest) simp_all
next
  case (Cons c cs)
  let ?y = "x * 10 + digit c"
  have "?y \<le> 10 ^ 9" using dec_value_ge[of ?y cs] Cons.prems(2) unfolding dec_value_step by linarith
  then have "?y \<le> 2 ^ 63" "x \<le> (2 ^ 63 - 1) div 10" by auto
  then show ?case using Cons.prems Cons.IH[of ?y "Suc k"] scale_step[of k]
    by (simp add: dec_value_step del: dec_value.simps power_Suc)
qed

lemma frac_nanos:
  assumes "k \<le> p" "p \<le> 9" "f * 10 ^ (p - k) \<le> 10 ^ 9"
  shows "f_nat (f_mul (f_of_int (int f)) (f_div (f_of_int (int (10 ^ p))) (Fin (10 ^ k)))) = f * 10 ^ (p - k)"
proof -
  have f: "f \<le> 10 ^ 9" using assms(3) by (metis le_trans mult_le_mono2 nat_mult_1_right one_le_numeral one_le_power)
  have a: "f_of_int (int f) = Fin (of_nat f)" using fl_nat[of f] f by (simp add: f_of_int_def)
  have b: "f_of_int (int (10 ^ p)) = Fin (10 ^ p)" using fl_nat[OF pow10_small[OF assms(2)]] by (simp add: f_of_int_def)
  have "(10 ^ p / 10 ^ k :: rat) = 10 ^ (p - k)" using assms(1) by (rule power_diff[symmetric, rotated]) simp
  then have "(10 ^ p / 10 ^ k :: rat) = of_nat (10 ^ (p - k))" by simp
  then have c: "f_div (Fin (10 ^ p)) (Fin (10 ^ k)) = Fin (of_nat (10 ^ (p - k)))"
    using fl_nat[OF pow10_small[of "p - k"]] assms(2) by simp
  have "fl (of_nat (f * 10 ^ (p - k))) = Fin (of_nat (f * 10 ^ (p - k)))" using assms(3) by (intro fl_nat) simp
  moreover have "(of_nat f :: rat) * of_nat (10 ^ (p - k)) = of_nat (f * 10 ^ (p - k))" by simp
  moreover have "rat_trunc (of_nat n) = int n" for n
  proof -
    have "\<lfloor>rat_of_nat n\<rfloor> = int n" using floor_of_int[of "int n", where ?'a = rat] by simp
    then show ?thesis by (simp add: rat_trunc_def)
  qed
  ultimately show ?thesis unfolding a b c by (simp only: f_mul.simps f_nat.simps nat_int)
qed

subsection \<open>A fraction is printed without loss\<close>

lemma dec_value_replicate: "dec_value (replicate j (CHR ''0'')) x = x * 10 ^ j"
  by (induction j arbitrary: x) simp_all

lemma dec_digits_length: "m < 10 ^ p \<Longrightarrow> 0 < p \<Longrightarrow> length (dec_digits m) \<le> p"
proof (induction m arbitrary: p rule: dec_digits.induct)
  case (1 m)
  show ?case
  proof (cases "m < 10")
    case True then show ?thesis using "1.prems" by (subst dec_digits.simps) simp
  next
    case False
    then obtain q where q: "p = Suc q" "0 < q" using "1.prems" by (cases p; cases "p - 1") auto
    then have "length (dec_digits (m div 10)) \<le> q" using 1 False by (intro 1) (auto simp: less_mult_imp_div_less mult.commute)
    then show ?thesis using False q by (subst dec_digits.simps) simp
  qed
qed

lemma fmt_frac_spec:
  assumes "0 < p"
  obtains "u mod 10 ^ p = 0" "fmt_frac u p = []"
  | ds where "fmt_frac u p = CHR ''.'' # ds" "list_all is_digit ds" "length ds \<le> p" "ds \<noteq> []" "0 < dec_value ds 0"
      "dec_value ds 0 * 10 ^ (p - length ds) = u mod 10 ^ p"
proof -
  define m where "m = u mod 10 ^ p"
  define ps where "ps = pad_left p (dec_digits m)"
  define ds where "ds = rev (dropWhile (\<lambda>c. c = CHR ''0'') (rev ps))"
  have len: "length ps = p" using dec_digits_length[of m p] assms by (simp add: ps_def pad_left_def m_def)
  have "is_digit (CHR ''0'')" by (simp add: is_digit_def)
  then have dig: "list_all is_digit ps" using dec_digits_all[of m] by (auto simp: ps_def pad_left_def list_all_iff)
  have val: "dec_value ps 0 = m" by (simp add: ps_def pad_left_def dec_value_append dec_value_replicate dec_value_digits)
  have zeros: "takeWhile (\<lambda>c. c = CHR ''0'') xs = replicate (length (takeWhile (\<lambda>c. c = CHR ''0'') xs)) (CHR ''0'')" for xs
    by (induction xs) auto
  have "ps = ds @ rev (takeWhile (\<lambda>c. c = CHR ''0'') (rev ps))"
    unfolding ds_def by (metis rev_append rev_rev_ident takeWhile_dropWhile_id)
  then obtain j where j: "ps = ds @ replicate j (CHR ''0'')" using zeros by (metis rev_replicate)
  have jl: "j = p - length ds" "length ds \<le> p" using arg_cong[OF j, of length] len by auto
  have v: "dec_value ds 0 * 10 ^ (p - length ds) = m"
    using val unfolding j by (simp add: dec_value_append dec_value_replicate jl(1))
  have ff: "fmt_frac u p = (if ds = [] then [] else CHR ''.'' # ds)" by (simp add: fmt_frac_def Let_def ds_def ps_def m_def)
  show thesis
  proof (cases "ds = []")
    case True
    then show thesis using that(1) ff v by (simp add: m_def)
  next
    case False
    have "0 < m"
    proof (rule ccontr)
      assume "\<not> 0 < m"
      then have "ps = replicate p (CHR ''0'')" using assms
        by (simp add: ps_def pad_left_def) (simp add: dec_digits.simps char_of_def bit_0 replicate_append_same flip: replicate_Suc)
      then show False using False by (simp add: ds_def dropWhile_eq_Nil_conv)
    qed
    then show thesis using that(2)[of ds] ff v False jl dig j by (cases "dec_value ds 0") (auto simp: m_def)
  qed
qed

subsection \<open>Durations read back\<close>

text \<open>One term: a whole number, perhaps a decimal fraction of a power-of-ten unit, and the unit.\<close>

lemma parse_term_int:
  assumes "map_of unitMap U = Some unit" "list_all unit_char U" "U \<noteq> []" "rest = [] \<or> \<not> unit_char (hd rest)" "i * unit \<le> 2 ^ 63"
  shows "parse_term (dec_digits i @ U @ rest) = Some (i * unit, rest)"
proof -
  have u: "0 < unit" using assms(1) by (auto simp: unitMap_def split: if_splits)
  then have i: "i \<le> 2 ^ 63 div unit" using assms(5) by (simp add: less_eq_div_iff_mult_less_eq)
  then have "i \<le> 2 ^ 63" by (meson div_le_dividend le_trans)
  moreover have nd: "unit_char (hd U)" using assms(2,3) by (cases U) auto
  ultimately have l: "leadingInt 0 (dec_digits i @ U @ rest) = Some (i, U @ rest)"
    using leadingInt_digits[of "dec_digits i" 0 "U @ rest"] assms(3) by (auto simp: dec_value_digits unit_char_def)
  have h: "is_digit (hd (dec_digits i @ U @ rest))" by (cases "dec_digits i") (use dec_digits_all[of i] dec_digits_ne[of i] in auto)
  have t: "takeWhile unit_char (U @ rest) = U" "dropWhile unit_char (U @ rest) = rest"
    using assms(2,4) by (auto simp: list_all_iff takeWhile_eq_all_conv[THEN iffD2] takeWhile_append2 dropWhile_append2) (cases rest; auto)+
  have dot: "hd (U @ rest) \<noteq> CHR ''.''" using nd assms(3) by (auto simp: unit_char_def)
  show ?thesis using l h t dot assms(1,3,5) i by (simp add: parse_term_def Let_def)
qed

lemma parse_term_frac:
  assumes "map_of unitMap U = Some (10 ^ p)" "list_all unit_char U" "U \<noteq> []" "rest = [] \<or> \<not> unit_char (hd rest)" "0 < p" "p \<le> 9"
    "i * 10 ^ p + u mod 10 ^ p \<le> 2 ^ 63"
  shows "parse_term (dec_digits i @ fmt_frac u p @ U @ rest) = Some (i * 10 ^ p + u mod 10 ^ p, rest)"
proof (cases rule: fmt_frac_spec[OF assms(5), of u])
  case 1
  then show ?thesis using parse_term_int[OF assms(1-4), of i] assms(7) by simp
next
  case (2 ds)
  have i: "i \<le> 2 ^ 63 div 10 ^ p" using assms(7) by (simp add: less_eq_div_iff_mult_less_eq)
  then have "i \<le> 2 ^ 63" by (meson div_le_dividend le_trans)
  then have l: "leadingInt 0 (dec_digits i @ (CHR ''.'' # ds @ U @ rest)) = Some (i, CHR ''.'' # ds @ U @ rest)"
    using leadingInt_digits[of "dec_digits i" 0 "CHR ''.'' # ds @ U @ rest"] by (simp add: dec_value_digits is_digit_def)
  have h: "is_digit (hd (dec_digits i @ xs))" for xs by (cases "dec_digits i") (use dec_digits_all[of i] dec_digits_ne[of i] in auto)
  have nd: "no_digit (U @ rest)" using assms(2,3) by (cases U) (auto simp: unit_char_def)
  have "u mod 10 ^ p < 10 ^ p" by simp
  also have "(10 :: nat) ^ p \<le> 10 ^ 9" using assms(6) by (intro power_increasing) auto
  finally have m: "dec_value ds 0 * 10 ^ (p - length ds) \<le> 10 ^ 9" using 2(6) by simp
  then have v: "dec_value ds 0 \<le> 10 ^ 9" by (metis le_trans mult_le_mono2 nat_mult_1_right one_le_numeral one_le_power)
  have f: "leadingFraction 0 (Fin 1) False (ds @ U @ rest) = (dec_value ds 0, Fin (10 ^ length ds), U @ rest)"
    using leadingFraction_digits[OF 2(2) v _ nd, of 0] 2(3) assms(6) by simp
  have t: "takeWhile unit_char (U @ rest) = U" "dropWhile unit_char (U @ rest) = rest"
    using assms(2,4) by (auto simp: list_all_iff takeWhile_eq_all_conv[THEN iffD2] takeWhile_append2 dropWhile_append2) (cases rest; auto)+
  note n = frac_nanos[OF 2(3) assms(6) m]
  have "f_of_int (int (10 ^ p)) = f_of_int (10 ^ p)" by simp
  then show ?thesis using l h f t n i 2 assms(1,3,7) by (simp add: parse_term_def Let_def)
qed

lemma parse_terms_step:
  assumes "parse_term (t @ rest) = Some (v, rest)" "t \<noteq> []" "d + v \<le> 2 ^ 63"
  shows "parse_terms d (t @ rest) = parse_terms (d + v) rest"
  using assms by (subst parse_terms.simps) (simp add: Let_def)

lemma parse_terms_end: "parse_terms d [] = Some d"
  by (simp add: parse_terms.simps)

lemma unit_strings:
  "list_all unit_char ''ns''" "list_all unit_char ''ms''" "list_all unit_char ''s''" "list_all unit_char ''m''" "list_all unit_char ''h''"
  "list_all unit_char (map char_of [194, 181, 115 :: nat])"
  by (simp_all add: unit_char_def is_digit_def char_of_def bit_0)

lemma unit_values:
  "map_of unitMap ''ns'' = Some 1" "map_of unitMap ''ms'' = Some (10 ^ 6)" "map_of unitMap ''s'' = Some (10 ^ 9)"
  "map_of unitMap ''m'' = Some 60000000000" "map_of unitMap ''h'' = Some 3600000000000" "map_of unitMap (map char_of [194, 181, 115 :: nat]) = Some (10 ^ 3)"
  by (simp_all add: unitMap_def char_of_def bit_0)

lemma digits_no_unit: "dec_digits i @ xs = [] \<or> \<not> unit_char (hd (dec_digits i @ xs))"
  using dec_digits_all[of i] dec_digits_ne[of i] by (cases "dec_digits i") (auto simp: unit_char_def)

definition duration_body :: "nat \<Rightarrow> string" where
  "duration_body u =
     (if u = 0 then ''0s''
      else if u < 1000 then fmt_unit u 0 ''ns''
      else if u < 1000000 then fmt_unit u 3 (map char_of [194, 181, 115 :: nat])
      else if u < 1000000000 then fmt_unit u 6 ''ms''
      else
        let secs = u div 1000000000; mins = secs div 60; hours = mins div 60 in
        (if hours > 0 then dec_digits hours @ ''h'' else []) @
        (if mins > 0 then dec_digits (mins mod 60) @ ''m'' else []) @
        dec_digits (secs mod 60) @ fmt_frac u 9 @ ''s'')"

lemma duration_String_body: "duration_String d = (if d < 0 then CHR ''-'' # duration_body (nat \<bar>d\<bar>) else duration_body (nat \<bar>d\<bar>))"
  by (simp add: duration_String_def duration_body_def Let_def)

lemma fmt_frac_0: "fmt_frac u 0 = []"
proof -
  have "dec_digits 0 = ''0''" by (simp add: dec_digits.simps char_of_def bit_0)
  then show ?thesis by (simp add: fmt_frac_def pad_left_def)
qed

lemma parse_terms_last: "parse_term t = Some (v, []) \<Longrightarrow> t \<noteq> [] \<Longrightarrow> d + v \<le> 2 ^ 63 \<Longrightarrow> parse_terms d t = Some (d + v)"
  using parse_terms_step[of t "[]" v d] by (simp add: parse_terms_end)

lemma hms_total:
  "u = u div 10 ^ 9 div 60 div 60 * 3600000000000 + u div 10 ^ 9 div 60 mod 60 * 60000000000 + (u div 10 ^ 9 mod 60 * 10 ^ 9 + u mod 10 ^ 9)"
  for u :: nat
proof -
  define s where "s = u div 10 ^ 9"
  define h m r where "h = s div 60 div 60" and "m = s div 60 mod 60" and "r = s mod 60"
  have "s = h * 3600 + m * 60 + r" 
    using div_mult_mod_eq[of s 60] div_mult_mod_eq[of "s div 60" 60] unfolding h_def m_def r_def by linarith
  moreover define t where "t = u mod 10 ^ 9"
  have "u = s * 10 ^ 9 + t" unfolding s_def t_def by (rule div_mult_mod_eq[symmetric])
  moreover have e: "(10 :: nat) ^ 9 = 1000000000" by simp
  ultimately have "u = h * 3600000000000 + m * 60000000000 + (r * 10 ^ 9 + t)" unfolding e by linarith
  then show ?thesis by (simp only: h_def m_def r_def s_def t_def)
qed

lemma parse_terms_hms:
  assumes "h * 3600000000000 + m * 60000000000 + (s * 10 ^ 9 + u mod 10 ^ 9) \<le> 2 ^ 63" "h' = 0 \<longrightarrow> h = 0" "m' = 0 \<longrightarrow> m = 0"
  shows "parse_terms 0 ((if h' > (0 :: nat) then dec_digits h @ ''h'' else []) @ (if m' > (0 :: nat) then dec_digits m @ ''m'' else []) @
      dec_digits s @ fmt_frac u 9 @ ''s'') =
    Some (h * 3600000000000 + m * 60000000000 + (s * 10 ^ 9 + u mod 10 ^ 9))"
proof -
  have s: "parse_terms d (dec_digits s @ fmt_frac u 9 @ ''s'') = Some (d + (s * 10 ^ 9 + u mod 10 ^ 9))"
    if "d + (s * 10 ^ 9 + u mod 10 ^ 9) \<le> 2 ^ 63" for d
    using parse_term_frac[OF unit_values(3) unit_strings(3), of "[]" s u] that by (intro parse_terms_last) auto
  have m: "parse_terms d ((if m' > 0 then dec_digits m @ ''m'' else []) @ dec_digits s @ fmt_frac u 9 @ ''s'') =
      Some (d + m * 60000000000 + (s * 10 ^ 9 + u mod 10 ^ 9))"
    if "d + m * 60000000000 + (s * 10 ^ 9 + u mod 10 ^ 9) \<le> 2 ^ 63" for d
  proof (cases "m' = 0")
    case True then show ?thesis using s[of d] that assms(3) by simp
  next
    case False
    have "parse_terms d ((dec_digits m @ ''m'') @ dec_digits s @ fmt_frac u 9 @ ''s'') = parse_terms (d + m * 60000000000) (dec_digits s @ fmt_frac u 9 @ ''s'')"
      using parse_term_int[OF unit_values(4) unit_strings(4) _ digits_no_unit, of m s "fmt_frac u 9 @ ''s''"] that
      by (intro parse_terms_step) simp_all
    then show ?thesis using False s[of "d + m * 60000000000"] that by simp
  qed
  show ?thesis
  proof (cases "h' = 0")
    case True then show ?thesis using m[of 0] assms by simp
  next
    case False
    let ?rest = "(if m' > 0 then dec_digits m @ ''m'' else []) @ dec_digits s @ fmt_frac u 9 @ ''s''"
    have nu: "?rest = [] \<or> \<not> unit_char (hd ?rest)"
      using digits_no_unit[of m "''m'' @ dec_digits s @ fmt_frac u 9 @ ''s''"] digits_no_unit[of s "fmt_frac u 9 @ ''s''"] by simp
    have "parse_terms 0 ((dec_digits h @ ''h'') @ ?rest) = parse_terms (0 + h * 3600000000000) ?rest"
      using parse_term_int[OF unit_values(5) unit_strings(5) _ nu, of h] assms(1) by (intro parse_terms_step) simp_all
    then show ?thesis using False m[of "h * 3600000000000"] assms(1) by simp
  qed
qed

lemma parse_duration_body: "u \<le> 2 ^ 63 \<Longrightarrow> parse_terms 0 (duration_body u) = Some u"
proof -
  assume u: "u \<le> 2 ^ 63"
  have ex: "u div 10 ^ p * 10 ^ p + u mod 10 ^ p = u" for p by (rule div_mult_mod_eq)
  have frac: "parse_terms 0 (fmt_unit u p U) = Some u" if "map_of unitMap U = Some (10 ^ p)" "list_all unit_char U" "U \<noteq> []" "0 < p" "p \<le> 9" for p U
    using parse_term_frac[OF that(1-3) _ that(4,5), of "[]" "u div 10 ^ p" u] u that(3) parse_terms_last[of _ u 0]
    by (simp add: fmt_unit_def ex)
  have z: "dec_digits 0 = ''0''" by (simp add: dec_digits.simps char_of_def bit_0)
  consider "u = 0" | "0 < u" "u < 1000" | "1000 \<le> u" "u < 1000000" | "1000000 \<le> u" "u < 1000000000" | "1000000000 \<le> u" by linarith
  then show ?thesis
  proof cases
    case 1
    have "parse_term (dec_digits 0 @ ''s'' @ []) = Some (0 * 10 ^ 9, [])" by (rule parse_term_int[OF unit_values(3) unit_strings(3)]) simp_all
    then show ?thesis using 1 parse_terms_last[of "''0s''" 0 0] by (simp add: duration_body_def z)
  next
    case 2
    have "parse_term (dec_digits u @ ''ns'' @ []) = Some (u * 1, [])" by (rule parse_term_int[OF unit_values(1) unit_strings(1)]) (use u in simp_all)
    then show ?thesis using 2 u parse_terms_last[of "dec_digits u @ ''ns''" u 0] by (simp add: duration_body_def fmt_unit_def fmt_frac_0)
  next
    case 3 then show ?thesis using frac[OF unit_values(6) unit_strings(6)] by (simp add: duration_body_def)
  next
    case 4 then show ?thesis using frac[OF unit_values(2) unit_strings(2)] by (simp add: duration_body_def)
  next
    case 5
    define s where "s = u div 10 ^ 9"
    have b: "duration_body u = (if s div 60 div 60 > 0 then dec_digits (s div 60 div 60) @ ''h'' else []) @
        (if s div 60 > 0 then dec_digits (s div 60 mod 60) @ ''m'' else []) @ dec_digits (s mod 60) @ fmt_frac u 9 @ ''s''"
      using 5 by (simp add: duration_body_def Let_def s_def)
    note t = hms_total[of u, folded s_def]
    have le: "s div 60 div 60 * 3600000000000 + s div 60 mod 60 * 60000000000 + (s mod 60 * 10 ^ 9 + u mod 10 ^ 9) \<le> 2 ^ 63"
      using u t by (simp only:)
    show ?thesis unfolding b using parse_terms_hms[OF le, of "s div 60 div 60" "s div 60"] t by simp
  qed
qed

lemma duration_body_head: "duration_body u \<noteq> []" "is_digit (hd (duration_body u))" "duration_body u \<noteq> ''0''" "last (duration_body u) = CHR ''s''"
proof -
  have d: "is_digit (hd (dec_digits i @ xs))" "dec_digits i @ xs \<noteq> []" for i xs
    using dec_digits_all[of i] dec_digits_ne[of i] by (cases "dec_digits i"; auto)+
  have z: "is_digit (CHR ''0'')" by (simp add: is_digit_def)
  show "duration_body u \<noteq> []" "is_digit (hd (duration_body u))" using d z by (auto simp: duration_body_def fmt_unit_def Let_def)
  show l: "last (duration_body u) = CHR ''s''" by (simp add: duration_body_def fmt_unit_def Let_def char_of_def bit_0)
  show "duration_body u \<noteq> ''0''"
  proof
    assume "duration_body u = ''0''"
    from arg_cong[OF this, of last] show False using l by simp
  qed
qed

text \<open>
  A printed duration is read back: \<open>ParseDuration\<close> inverts \<open>Duration.String\<close> on every \<open>int64\<close>, the
  fraction going through binary64 arithmetic.
\<close>

lemma ParseDuration_String:
  assumes "in_i64 d"
  shows "ParseDuration (duration_String d) = Some d"
proof -
  let ?u = "nat \<bar>d\<bar>"
  have u: "?u \<le> 2 ^ 63" using assms by (auto simp: in_i64_def)
  note h = duration_body_head[of ?u]
  have nd: "hd (duration_body ?u) \<noteq> CHR ''-''" "hd (duration_body ?u) \<noteq> CHR ''+''" using h(2) by (auto simp: is_digit_def)
  show ?thesis
  proof (cases "d < 0")
    case True
    have "i64 (- i64 (- d)) = d"
    proof (cases "d = - (2 ^ 63)")
      case True then show ?thesis by (simp add: i64_def)
    next
      case False
      then have "i64 (- d) = - d" using assms True by (intro i64_small) (auto simp: in_i64_def)
      then show ?thesis using assms by (simp add: i64_id)
    qed
    then show ?thesis using True h parse_duration_body[OF u] by (simp add: ParseDuration_def duration_String_body Let_def)
  next
    case False
    then have "?u \<le> 2 ^ 63 - 1" using assms by (auto simp: in_i64_def)
    then show ?thesis using False h nd parse_duration_body[OF u] by (simp add: ParseDuration_def duration_String_body Let_def)
  qed
qed

lemma trim_with_none: "s \<noteq> [] \<Longrightarrow> (\<And>p. p \<in> set ps \<Longrightarrow> p \<noteq> [] \<Longrightarrow> hd p \<noteq> hd s) \<Longrightarrow> trim_with ps s = s"
proof -
  assume s: "s \<noteq> []" and p: "\<And>p. p \<in> set ps \<Longrightarrow> p \<noteq> [] \<Longrightarrow> hd p \<noteq> hd s"
  have "\<not> (p \<noteq> [] \<and> prefix p s)" if "p \<in> set ps" for p
    using p[OF that] s by (cases p; cases s) auto
  then have "find (\<lambda>p. p \<noteq> [] \<and> prefix p s) ps = None" unfolding find_None_iff by blast
  then show ?thesis by (subst trim_with.simps) simp
qed

definition plain :: "char \<Rightarrow> bool" where
  "plain c \<longleftrightarrow> 33 \<le> (of_char c :: nat) \<and> (of_char c :: nat) < 128"

lemma spaces_ends: "p \<in> set spaces \<Longrightarrow> p \<noteq> [] \<and> \<not> plain (hd p) \<and> \<not> plain (last p)"
proof -
  have "list_all (\<lambda>p. p \<noteq> [] \<and> \<not> plain (hd p) \<and> \<not> plain (last p)) spaces"
    by (simp add: spaces_def plain_def upt_rec take_bit_eq_mod)
  then show "p \<in> set spaces \<Longrightarrow> p \<noteq> [] \<and> \<not> plain (hd p) \<and> \<not> plain (last p)" by (simp add: list_all_iff)
qed

lemma TrimSpace_plain: "s \<noteq> [] \<Longrightarrow> plain (hd s) \<Longrightarrow> plain (last s) \<Longrightarrow> TrimSpace s = s"
proof -
  assume s: "s \<noteq> []" "plain (hd s)" "plain (last s)"
  have "trim_with spaces s = s" using s by (intro trim_with_none) (metis spaces_ends)+
  moreover have "hd (rev p) \<noteq> hd (rev s)" if "p \<in> set spaces" for p using s spaces_ends[OF that] by (metis hd_rev)
  then have "trim_with (map rev spaces) (rev s) = rev s" using s by (intro trim_with_none) auto
  ultimately show ?thesis by (simp add: TrimSpace_def)
qed

lemma digit_plain: "is_digit c \<Longrightarrow> plain c"
  by (simp add: is_digit_def plain_def)

lemma s_plain: "plain (CHR ''s'')"
  by (simp add: plain_def)

lemma duration_body_trim: "TrimSpace (duration_body u) = duration_body u"
  using duration_body_head[of u] digit_plain by (intro TrimSpace_plain) (simp_all add: s_plain)

lemma duration_body_no_mark: "c \<in> {CHR ''-'', CHR '':'', CHR '',''} \<Longrightarrow> c \<notin> set (duration_body u)"
proof -
  assume c: "c \<in> {CHR ''-'', CHR '':'', CHR '',''}"
  have n: "list_all is_digit ds \<Longrightarrow> c \<notin> set ds" for ds using c by (auto simp: list_all_iff is_digit_def)
  have f: "c \<notin> set (fmt_frac u p)" for p
  proof (cases "p = 0")
    case False
    then have "0 < p" by simp
    then show ?thesis by (rule fmt_frac_spec[of p u]) (use c in \<open>auto dest: n\<close>)
  qed (simp add: fmt_frac_0)
  have d: "c \<notin> set (dec_digits n)" for n by (intro n) simp
  show ?thesis using f d c by (auto simp: duration_body_def fmt_unit_def Let_def char_of_def bit_0)
qed


lemmas duration_body_no_dash = duration_body_no_mark[of "CHR ''-''", simplified]

lemma last_index_none: "c \<notin> set s \<Longrightarrow> last_index c s = None"
proof -
  assume "c \<notin> set s"
  then have "takeWhile (\<lambda>x. x \<noteq> c) (rev s) = rev s" by (auto simp: takeWhile_eq_all_conv)
  then have "length (takeWhile (\<lambda>x. x \<noteq> c) (rev s)) = length s" by (simp only: length_rev)
  then show "last_index c s = None" unfolding last_index_def Let_def by (simp only: less_irrefl if_False)
qed

lemma last_index_split: "c \<notin> set b \<Longrightarrow> last_index c (a @ c # b) = Some (length a)"
proof -
  assume "c \<notin> set b"
  then have "takeWhile (\<lambda>x. x \<noteq> c) (rev b @ c # rev a) = rev b" by (subst takeWhile_append2) auto
  then show "last_index c (a @ c # b) = Some (length a)" by (simp add: last_index_def)
qed

text \<open>
  A printed pause is read back exactly: parsing the text of a pause whose bounds are in order
  gives that pause, whatever units and fractions the two durations need.
\<close>

theorem ParsePause_String:
  assumes "0 \<le> pz_Min p" and "pz_Min p \<le> pz_Max p" and "pz_Max p < 2 ^ 63"
  shows "ParsePause (pause_String p) = Inr p"
proof -
  let ?a = "duration_body (nat (pz_Min p))" and ?b = "duration_body (nat (pz_Max p))"
  have s: "duration_String (pz_Min p) = ?a" "duration_String (pz_Max p) = ?b" using assms by (simp_all add: duration_String_body)
  have r: "ParseDuration ?a = Some (pz_Min p)" "ParseDuration ?b = Some (pz_Max p)"
    using ParseDuration_String[of "pz_Min p"] ParseDuration_String[of "pz_Max p"] s assms by (auto simp: in_i64_def)
  have ne: "?a \<noteq> []" by (rule duration_body_head)
  have zero: "pz_Min p = 0 \<Longrightarrow> ?a = ''0s''" by (simp add: duration_body_def)
  have split: "split_range ?a = None" by (simp add: split_range_def last_index_none[OF duration_body_no_dash])
  show ?thesis
  proof (cases "pz_Max p \<le> pz_Min p")
    case True
    then have "pause_String p = ?a" using assms s zero by (auto simp: pause_String_def pause_IsZero_def)
    moreover have "NewPause (pz_Min p) = p" using True assms(2) by (cases p) (simp add: NewPause_def)
    ultimately show ?thesis using r(1) split ne assms(1) by (simp add: ParsePause_def duration_body_trim)
  next
    case False
    have ps: "pause_String p = ?a @ CHR ''-'' # ?b" using False assms s by (simp add: pause_String_def pause_IsZero_def)
    have "plain (hd ?a)" "plain (last ?b)" "?b \<noteq> []" using duration_body_head digit_plain by (simp_all add: s_plain)
    then have t: "TrimSpace (pause_String p) = pause_String p" unfolding ps using ne by (intro TrimSpace_plain) simp_all
    have "split_range (pause_String p) = Some (pz_Min p, pz_Max p)"
      unfolding ps split_range_def using last_index_split[OF duration_body_no_dash, of ?a] ne r
      by (simp add: duration_body_trim)
    moreover have "pause_String p \<noteq> []" by (simp add: ps)
    ultimately show ?thesis using t assms by (cases p) (simp add: ParsePause_def)
  qed
qed

theorem ParsePause_String_witness:
  "ParsePause (pause_String \<lparr>pz_Min = 1500000000, pz_Max = 3661000000000\<rparr>) = Inr \<lparr>pz_Min = 1500000000, pz_Max = 3661000000000\<rparr>"
  by (rule ParsePause_String) simp_all

end
