(* ===== verification/Template.thy ===== *)
theory Template
  imports Durations
begin

text \<open>
  \<open>internal/scenario/template.go\<close>: strings with \<open>${name}\<close> placeholders, parsed once and rendered
  in every iteration. The clock, the random numbers and the random bytes a placeholder reads are
  arguments, one set per placeholder. The lemmas show that the text of a parsed template is parsed
  back to it, and what rendering substitutes.
\<close>

subsection \<open>strings.Index\<close>

fun index_of :: "string \<Rightarrow> string \<Rightarrow> nat option" where
  "index_of p [] = (if p = [] then Some 0 else None)"
| "index_of p (c # cs) = (if prefix p (c # cs) then Some 0 else map_option Suc (index_of p cs))"

lemma index_of_Some: "index_of p s = Some i \<Longrightarrow> i \<le> length s \<and> prefix p (drop i s)"
  by (induction p s arbitrary: i rule: index_of.induct) (auto split: if_splits)

lemma index_of_first: "index_of p s = Some i \<Longrightarrow> j < i \<Longrightarrow> \<not> prefix p (drop j s)"
proof (induction p s arbitrary: i j rule: index_of.induct)
  case (2 p c cs)
  then show ?case by (cases j) (auto split: if_splits)
qed (auto split: if_splits)

lemma index_of_None: "index_of p s = None \<Longrightarrow> \<not> prefix p (drop j s)"
proof (induction p s arbitrary: j rule: index_of.induct)
  case (2 p c cs)
  then show ?case by (cases j) (auto split: if_splits)
qed (auto split: if_splits)

lemma index_of_eq:
  assumes "prefix p (drop i s)" "i \<le> length s" "\<And>j. j < i \<Longrightarrow> \<not> prefix p (drop j s)"
  shows "index_of p s = Some i"
proof (cases "index_of p s")
  case None then show ?thesis using index_of_None[OF None, of i] assms(1) by simp
next
  case (Some k)
  then have "\<not> k < i" "\<not> i < k" using assms index_of_Some[OF Some] index_of_first[OF Some] by auto
  then show ?thesis using Some by simp
qed

subsection \<open>Templates\<close>

record Template =
  t_literals :: "string list"
  t_names :: "string list"
  t_static :: bool

datatype template_error = Unterminated | EmptyPlaceholder

text \<open>The loop of \<open>ParseTemplate\<close>: the literals and the names of the rest of the text.\<close>

function template_loop :: "string \<Rightarrow> template_error + string list \<times> string list" where
  "template_loop rest =
     (case index_of ''${'' rest of
        None \<Rightarrow> Inr ([rest], [])
      | Some opn \<Rightarrow>
          (case index_of ''}'' (drop opn rest) of
             None \<Rightarrow> Inl Unterminated
           | Some e \<Rightarrow>
               let cls = opn + e; name = TrimSpace (take (cls - (opn + 2)) (drop (opn + 2) rest)) in
               if name = [] then Inl EmptyPlaceholder
               else case template_loop (drop (cls + 1) rest) of
                 Inl err \<Rightarrow> Inl err
               | Inr (ls, ns) \<Rightarrow> Inr (take opn rest # ls, name # ns)))"
  by pat_completeness auto
termination
proof (relation "measure length")
  fix rest opn e x xa
  assume "index_of ''${'' rest = Some opn"
  then have "prefix ''${'' (drop opn rest)" using index_of_Some by blast
  then have "rest \<noteq> []" by auto
  then show "(drop (x + 1) rest, rest) \<in> measure length" by (cases rest) auto
qed simp

declare template_loop.simps [simp del]

definition ParseTemplate :: "string \<Rightarrow> template_error + Template" where
  "ParseTemplate s =
     (if index_of ''${'' s = None then Inr \<lparr>t_literals = [s], t_names = [], t_static = True\<rparr>
      else case template_loop s of
        Inl err \<Rightarrow> Inl err
      | Inr (ls, ns) \<Rightarrow> Inr \<lparr>t_literals = ls, t_names = ns, t_static = False\<rparr>)"

text \<open>The shared loop of \<open>Render\<close> and \<open>String\<close>: what stands for the \<open>i\<close>-th name.\<close>

fun weave :: "(nat \<Rightarrow> string \<Rightarrow> string) \<Rightarrow> string list \<Rightarrow> string list \<Rightarrow> string" where
  "weave g [] ns = []"
| "weave g (l # ls) [] = l @ weave g ls []"
| "weave g (l # ls) (n # ns) = l @ g 0 n @ weave (\<lambda>i. g (Suc i)) ls ns"

definition tmpl_String :: "Template \<Rightarrow> string" where
  "tmpl_String t = (if t_static t then hd (t_literals t) else weave (\<lambda>_ n. ''${'' @ n @ ''}'') (t_literals t) (t_names t))"

subsection \<open>Variables\<close>

record 'v Vars =
  va_values :: "(string, string) gomap"
  va_vu :: "'v VU option"

text \<open>What a built-in reads when it is rendered.\<close>

record ambient =
  am_random :: int
  am_bytes :: "8 word list option" \<comment> \<open>\<open>rand.Read\<close>\<close>
  am_rfc3339 :: string
  am_unixMilli :: int

definition NewVars :: "'v VU option \<Rightarrow> (string, string) gomap \<Rightarrow> 'v Vars" where
  "NewVars vu declared = \<lparr>va_values = foldl (\<lambda>m (k, v). gput k v m) [] declared, va_vu = vu\<rparr>"

definition vars_Set :: "'v Vars \<Rightarrow> string \<Rightarrow> string \<Rightarrow> 'v Vars" where
  "vars_Set v name x = v\<lparr>va_values := gput name x (va_values v)\<rparr>"

definition hex_digit :: "nat \<Rightarrow> char" where
  "hex_digit n = (if n < 10 then char_of (48 + n) else char_of (87 + n))"

definition hex_Encode :: "8 word list \<Rightarrow> string" where
  "hex_Encode bs = concat (map (\<lambda>b. [hex_digit (unat b div 16), hex_digit (unat b mod 16)]) bs)"

unbundle bit_operations_syntax

definition newUUIDv4 :: "8 word list option \<Rightarrow> string" where
  "newUUIDv4 bytes =
     (case bytes of
        None \<Rightarrow> ''00000000-0000-4000-8000-000000000000''
      | Some b \<Rightarrow>
          let b = b[6 := ((b ! 6) AND 0x0f) OR 0x40];
              b = b[8 := ((b ! 8) AND 0x3f) OR 0x80]
          in hex_Encode (take 4 b) @ ''-'' @ hex_Encode (take 2 (drop 4 b)) @ ''-'' @ hex_Encode (take 2 (drop 6 b)) @ ''-'' @
             hex_Encode (take 2 (drop 8 b)) @ ''-'' @ hex_Encode (take 6 (drop 10 b)))"

definition builtin :: "ambient \<Rightarrow> 'v VU \<Rightarrow> string \<Rightarrow> string" where
  "builtin A vu name =
     (if name = ''__vu'' then fmt_d (vu_id vu)
      else if name = ''__iteration'' then fmt_d (vu_iteration vu)
      else if name = ''__shard'' then dec_digits (unat (sh_Index (vu_shard vu)))
      else if name = ''__shards'' then dec_digits (unat (sh_Count (vu_shard vu)))
      else if name = ''__random'' then fmt_d (am_random A)
      else if name = ''__uuid'' then newUUIDv4 (am_bytes A)
      else if name = ''__timestamp'' then am_rfc3339 A
      else if name = ''__unixMilli'' then fmt_d (am_unixMilli A)
      else [])"

definition vars_Get :: "ambient \<Rightarrow> 'v Vars \<Rightarrow> string \<Rightarrow> string" where
  "vars_Get A v name =
     (case map_of (va_values v) name of
        Some x \<Rightarrow> x
      | None \<Rightarrow> (case va_vu v of None \<Rightarrow> [] | Some vu \<Rightarrow> builtin A vu name))"

definition Render :: "(nat \<Rightarrow> ambient) \<Rightarrow> Template \<Rightarrow> 'v Vars \<Rightarrow> string" where
  "Render A t vars = (if t_static t then hd (t_literals t) else weave (\<lambda>i. vars_Get (A i) vars) (t_literals t) (t_names t))"

subsection \<open>Trimming\<close>

lemma trim_with_done: "(\<And>p. p \<in> set ps \<Longrightarrow> p \<noteq> [] \<Longrightarrow> \<not> prefix p s) \<Longrightarrow> trim_with ps s = s"
proof -
  assume "\<And>p. p \<in> set ps \<Longrightarrow> p \<noteq> [] \<Longrightarrow> \<not> prefix p s"
  then have "find (\<lambda>p. p \<noteq> [] \<and> prefix p s) ps = None" unfolding find_None_iff by blast
  then show ?thesis by (subst trim_with.simps) simp
qed

lemma trim_with_spec: "suffix (trim_with ps s) s \<and> (\<forall>p \<in> set ps. p \<noteq> [] \<longrightarrow> \<not> prefix p (trim_with ps s))"
proof (induction ps s rule: trim_with.induct)
  case (1 ps s)
  show ?case
  proof (cases "find (\<lambda>p. p \<noteq> [] \<and> prefix p s) ps")
    case None
    then have "\<forall>p \<in> set ps. p \<noteq> [] \<longrightarrow> \<not> prefix p s" unfolding find_None_iff by blast
    then show ?thesis using None by (subst (1 2) trim_with.simps) simp
  next
    case (Some p)
    then have t: "trim_with ps s = trim_with ps (drop (length p) s)" by (subst trim_with.simps) simp
    show ?thesis unfolding t using 1[OF Some] suffix_drop suffix_order.order_trans by blast
  qed
qed

lemma TrimSpace_idem: "TrimSpace (TrimSpace s) = TrimSpace s"
proof -
  define l where "l = trim_with spaces s"
  define r where "r = trim_with (map rev spaces) (rev l)"
  have l: "\<And>p. p \<in> set spaces \<Longrightarrow> p \<noteq> [] \<Longrightarrow> \<not> prefix p l" using trim_with_spec[of spaces s] by (auto simp: l_def)
  have r: "suffix r (rev l)" "\<And>p. p \<in> set (map rev spaces) \<Longrightarrow> p \<noteq> [] \<Longrightarrow> \<not> prefix p r"
    using trim_with_spec[of "map rev spaces" "rev l"] by (auto simp: r_def)
  have "prefix (rev r) l" using r(1) by (simp add: suffix_to_prefix)
  then have 1: "trim_with spaces (rev r) = rev r" using l prefix_order.order_trans by (intro trim_with_done) blast
  have 2: "trim_with (map rev spaces) r = r" using r(2) by (rule trim_with_done)
  show ?thesis by (simp add: TrimSpace_def 1 2 flip: l_def r_def)
qed

subsection \<open>The text of a template is parsed back\<close>

definition literal_ok :: "string \<Rightarrow> bool" where
  "literal_ok l \<longleftrightarrow> (\<forall>j. \<not> prefix ''${'' (drop j l))"

definition name_ok :: "string \<Rightarrow> bool" where
  "name_ok n \<longleftrightarrow> n \<noteq> [] \<and> TrimSpace n = n \<and> CHR ''}'' \<notin> set n"

lemma index_of_char_None: "index_of [c] s = None \<longleftrightarrow> c \<notin> set s"
  by (induction s) auto

lemma index_of_char_Some: "index_of [c] s = Some i \<Longrightarrow> c \<notin> set (take i s)"
proof (induction s arbitrary: i)
  case (Cons x s)
  then show ?case by (cases i) (auto split: if_splits)
qed simp

lemma set_TrimSpace: "set (TrimSpace s) \<subseteq> set s"
proof -
  have "set (trim_with spaces s) \<subseteq> set s" using trim_with_spec[of spaces s] set_mono_suffix by blast
  moreover have "set (trim_with (map rev spaces) (rev (trim_with spaces s))) \<subseteq> set (rev (trim_with spaces s))"
    using trim_with_spec[of "map rev spaces" "rev (trim_with spaces s)"] set_mono_suffix by blast
  ultimately show ?thesis unfolding TrimSpace_def set_rev by (rule order_trans[rotated])
qed

lemma template_loop_ok:
  "template_loop s = Inr (ls, ns) \<Longrightarrow> length ls = Suc (length ns) \<and> list_all literal_ok ls \<and> list_all name_ok ns"
proof (induction s arbitrary: ls ns rule: template_loop.induct)
  case (1 rest)
  show ?case
  proof (cases "index_of ''${'' rest")
    case None
    then have "ls = [rest]" "ns = []" using "1.prems" by (auto simp: template_loop.simps[of rest])
    then show ?thesis using index_of_None[OF None] by (simp add: literal_ok_def)
  next
    case (Some opn)
    then obtain e where e: "index_of ''}'' (drop opn rest) = Some e" using "1.prems" by (auto simp: template_loop.simps[of rest] split: option.splits)
    define name where "name = TrimSpace (take (opn + e - (opn + 2)) (drop (opn + 2) rest))"
    have l: "template_loop rest = (if name = [] then Inl EmptyPlaceholder else case template_loop (drop (opn + e + 1) rest) of
        Inl err \<Rightarrow> Inl err | Inr (ls, ns) \<Rightarrow> Inr (take opn rest # ls, name # ns))"
      by (subst template_loop.simps) (simp only: Some e name_def Let_def option.case)
    then obtain ls' ns' where r: "name \<noteq> []" "template_loop (drop (opn + e + 1) rest) = Inr (ls', ns')" "ls = take opn rest # ls'" "ns = name # ns'"
      using "1.prems" by (auto split: if_splits sum.splits)
    have IH: "length ls' = Suc (length ns') \<and> list_all literal_ok ls' \<and> list_all name_ok ns'"
      by (rule "1.IH"[OF Some e refl refl _ r(2)]) (use r(1) in \<open>simp add: name_def\<close>)
    have "literal_ok (take opn rest)" unfolding literal_ok_def
    proof (intro allI notI)
      fix j assume p: "prefix ''${'' (drop j (take opn rest))"
      then have "j < opn" by (cases "j < opn") auto
      moreover have "prefix ''${'' (drop j rest)" using p by (metis drop_take prefix_order.order_trans take_is_prefix)
      ultimately show False using index_of_first[OF Some] by blast
    qed
    moreover have "name_ok name"
    proof -
      have "CHR ''}'' \<notin> set (take e (drop opn rest))" by (rule index_of_char_Some[OF e])
      then have "CHR ''}'' \<notin> set (take (e - 2) (drop (opn + 2) rest))"
        by (metis add.commute drop_drop drop_take in_set_dropD)
      then show ?thesis using r(1) set_TrimSpace by (fastforce simp: name_ok_def name_def TrimSpace_idem)
    qed
    ultimately show ?thesis using IH r by simp
  qed
qed

lemma template_loop_weave:
  "length ls = Suc (length ns) \<Longrightarrow> list_all literal_ok ls \<Longrightarrow> list_all name_ok ns \<Longrightarrow>
   template_loop (weave (\<lambda>_ n. ''${'' @ n @ ''}'') ls ns) = Inr (ls, ns)"
proof (induction ns arbitrary: ls)
  case Nil
  then obtain l where l: "ls = [l]" by (cases ls) auto
  then have "index_of ''${'' l = None"
    using Nil(2) index_of_Some[of "''${''" l] by (cases "index_of ''${'' l") (auto simp: literal_ok_def)
  then show ?case using l by (subst template_loop.simps) simp
next
  case (Cons n ns)
  then obtain l ls' where l: "ls = l # ls'" "length ls' = Suc (length ns)" by (cases ls) auto
  define tail where "tail = weave (\<lambda>_ n. ''${'' @ n @ ''}'') ls' ns"
  define s where "s = l @ ''${'' @ n @ ''}'' @ tail"
  have ok: "literal_ok l" "name_ok n" using Cons.prems l by auto
  have i: "index_of ''${'' s = Some (length l)"
  proof (rule index_of_eq)
    fix j assume j: "j < length l"
    have no: "\<not> prefix ''${'' (drop j l)" using ok(1) by (simp add: literal_ok_def)
    obtain c cs where c: "drop j l = c # cs" using j by (cases "drop j l") auto
    then show "\<not> prefix ''${'' (drop j s)" using no j by (cases cs) (auto simp: s_def)
  qed (simp_all add: s_def)
  have e: "index_of ''}'' (drop (length l) s) = Some (2 + length n)"
  proof (rule index_of_eq)
    fix j assume j: "j < 2 + length n"
    have "drop (length l) s = (''${'' @ n) @ ''}'' @ tail" by (simp add: s_def)
    then have "drop j (drop (length l) s) = drop j (''${'' @ n) @ ''}'' @ tail" using j by (simp only: drop_append) simp
    moreover obtain c cs where "drop j (''${'' @ n) = c # cs" using j by (cases "drop j (''${'' @ n)") auto
    moreover from this have "c \<in> set (''${'' @ n)" by (metis in_set_dropD list.set_intros(1))
    then have "c \<noteq> CHR ''}''" using ok(2) by (auto simp: name_ok_def)
    ultimately show "\<not> prefix ''}'' (drop j (drop (length l) s))" by simp
  qed (simp_all add: s_def)
  have tk: "take (length l + (2 + length n) - (length l + 2)) (drop (length l + 2) s) = n" by (simp add: s_def)
  have "s = (l @ ''${'' @ n @ ''}'') @ tail" by (simp add: s_def)
  then have "drop (length (l @ ''${'' @ n @ ''}'')) s = tail" by (metis append_eq_conv_conj)
  then have dr: "drop (length l + (2 + length n) + 1) s = tail" by (simp add: numeral_3_eq_3)
  have lit: "take (length l) s = l" by (simp add: s_def)
  have nm: "TrimSpace n = n" "(n = []) = False" using ok(2) by (simp_all add: name_ok_def)
  have "template_loop s = (case template_loop tail of Inl err \<Rightarrow> Inl err | Inr (ls, ns) \<Rightarrow> Inr (l # ls, n # ns))"
    by (subst template_loop.simps) (simp only: i e option.case Let_def tk dr lit nm if_False)
  moreover have "template_loop tail = Inr (ls', ns)" unfolding tail_def using Cons l by (intro Cons.IH) auto
  ultimately show ?case using l by (simp add: s_def tail_def)
qed

text \<open>
  The text of a template stands for it: whatever a template was parsed from, the text \<open>String\<close>
  gives is accepted again and parsed to the same literals and names.
\<close>

theorem ParseTemplate_String:
  assumes "ParseTemplate s = Inr t"
  shows "ParseTemplate (tmpl_String t) = Inr t"
proof (cases "index_of ''${'' s = None")
  case True
  then show ?thesis using assms by (auto simp: ParseTemplate_def tmpl_String_def)
next
  case False
  then obtain ls ns where t: "template_loop s = Inr (ls, ns)" "t = \<lparr>t_literals = ls, t_names = ns, t_static = False\<rparr>"
    using assms by (auto simp: ParseTemplate_def split: sum.splits)
  note ok = template_loop_ok[OF t(1)]
  have w: "template_loop (weave (\<lambda>_ n. ''${'' @ n @ ''}'') ls ns) = Inr (ls, ns)" using ok by (intro template_loop_weave) auto
  have "ns \<noteq> []"
  proof
    assume "ns = []"
    then show False using t(1) False by (auto simp: template_loop.simps[of s] Let_def split: option.splits if_splits sum.splits)
  qed
  then have "index_of ''${'' (weave (\<lambda>_ n. ''${'' @ n @ ''}'') ls ns) \<noteq> None"
    using w by (subst (asm) template_loop.simps) (auto split: option.splits)
  then show ?thesis using w by (simp add: ParseTemplate_def tmpl_String_def t(2))
qed

theorem ParseTemplate_String_witness:
  "\<exists>t. ParseTemplate ''/a/${id}'' = Inr t \<and> t_names t = [''id''] \<and> ParseTemplate (tmpl_String t) = Inr t"
proof -
  have "TrimSpace ''id'' = ''id''" by (rule TrimSpace_plain) (simp_all add: plain_def)
  then have "template_loop ''/a/${id}'' = Inr ([''/a/'', []], [''id''])"
    by (simp add: template_loop.simps[of "''/a/${id}''"] template_loop.simps[of "[]"])
  then have "ParseTemplate ''/a/${id}'' = Inr \<lparr>t_literals = [''/a/'', []], t_names = [''id''], t_static = False\<rparr>"
    by (simp add: ParseTemplate_def)
  from ParseTemplate_String[OF this] this show ?thesis by simp
qed

end
