(* ===== verification/JsonPath.thy ===== *)
theory JsonPath
  imports Template
begin

text \<open>
  \<open>internal/scenario/jsonpath.go\<close>: accessors into a decoded JSON document. The codec of
  \<open>encoding/json\<close> and the shortest decimal form of a float are arguments. The lemmas show that the
  dotted and the bracketed notation mean the same path, and what a path extracts.
\<close>

subsection \<open>Paths\<close>

record pathStep =
  st_field :: string
  st_index :: int
  st_isIdx :: bool

record Path =
  pt_steps :: "pathStep list"
  pt_source :: string

text \<open>\<open>strconv.Atoi\<close>: \<open>None\<close> for a syntax error and for a number out of range.\<close>

definition Atoi :: "string \<Rightarrow> int option" where
  "Atoi s =
     (let neg = (s \<noteq> [] \<and> hd s = CHR ''-''); ds = (if s \<noteq> [] \<and> (hd s = CHR ''-'' \<or> hd s = CHR ''+'') then tl s else s) in
      if ds = [] \<or> \<not> list_all is_digit ds then None
      else let n = (if neg then - int (dec_value ds 0) else int (dec_value ds 0)) in if in_i64 n then Some n else None)"

text \<open>\<open>strings.Split\<close> at one character.\<close>

fun split_at :: "char \<Rightarrow> string \<Rightarrow> string list" where
  "split_at c [] = [[]]"
| "split_at c (x # xs) = (if x = c then [] # split_at c xs else (case split_at c xs of [] \<Rightarrow> [[x]] | w # ws \<Rightarrow> (x # w) # ws))"

definition TrimPrefix :: "string \<Rightarrow> string \<Rightarrow> string" where
  "TrimPrefix s p = (if prefix p s then drop (length p) s else s)"

definition splitPath :: "string \<Rightarrow> string list" where
  "splitPath expr =
     filter (\<lambda>part. part \<noteq> [])
       (split_at (CHR ''.'') (concat (map (\<lambda>c. if c = CHR ''['' then ''.'' else if c = CHR '']'' then [] else [c]) expr)))"

datatype path_error = PathEmpty | EmptySegment string | NegativeIndex string | ResolvesToNothing string

fun path_steps :: "string \<Rightarrow> string list \<Rightarrow> path_error + pathStep list" where
  "path_steps expr [] = Inr []"
| "path_steps expr (segment # segs) =
     (if segment = [] then Inl (EmptySegment expr)
      else case Atoi segment of
        Some idx \<Rightarrow>
          if idx < 0 then Inl (NegativeIndex expr)
          else (case path_steps expr segs of Inl e \<Rightarrow> Inl e | Inr ss \<Rightarrow> Inr (\<lparr>st_field = [], st_index = idx, st_isIdx = True\<rparr> # ss))
      | None \<Rightarrow>
          (case path_steps expr segs of Inl e \<Rightarrow> Inl e | Inr ss \<Rightarrow> Inr (\<lparr>st_field = segment, st_index = 0, st_isIdx = False\<rparr> # ss)))"

definition path_body :: "string \<Rightarrow> string" where
  "path_body trimmed = TrimPrefix (TrimPrefix (TrimPrefix trimmed ''$.'') ''$'') ''.''"

definition ParsePath :: "string \<Rightarrow> path_error + Path" where
  "ParsePath expr =
     (let trimmed = TrimSpace expr in
      if trimmed = [] then Inl PathEmpty
      else case path_steps expr (splitPath (path_body trimmed)) of
        Inl e \<Rightarrow> Inl e
      | Inr ss \<Rightarrow> if ss = [] then Inl (ResolvesToNothing expr) else Inr \<lparr>pt_steps = ss, pt_source = expr\<rparr>)"

subsection \<open>Documents\<close>

datatype json = JNull | JBool bool | JNum float64 | JStr string | JArr "json list" | JObj "(string \<times> json) list"

datatype step_error = ExpectedArray string | OutOfRange int nat | ExpectedObject string | NoField string

datatype extract_error = BodyEmpty string | NotJSON string | AtSegment string nat step_error | CannotRender

fun jsonKind :: "json \<Rightarrow> string" where
  "jsonKind JNull = ''null''"
| "jsonKind (JBool _) = ''a boolean''"
| "jsonKind (JNum _) = ''a number''"
| "jsonKind (JStr _) = ''a string''"
| "jsonKind (JArr _) = ''an array''"
| "jsonKind (JObj _) = ''an object''"

definition step_apply :: "pathStep \<Rightarrow> json \<Rightarrow> step_error + json" where
  "step_apply s node =
     (if st_isIdx s
      then (case node of
              JArr arr \<Rightarrow> if st_index s \<ge> int (length arr) then Inl (OutOfRange (st_index s) (length arr)) else Inr (arr ! nat (st_index s))
            | _ \<Rightarrow> Inl (ExpectedArray (jsonKind node)))
      else (case node of
              JObj obj \<Rightarrow> (case map_of obj (st_field s) of None \<Rightarrow> Inl (NoField (st_field s)) | Some v \<Rightarrow> Inr v)
            | _ \<Rightarrow> Inl (ExpectedObject (jsonKind node))))"

record json_codec =
  jc_Unmarshal :: "string \<Rightarrow> json option"
  jc_Marshal :: "json \<Rightarrow> string option"
  jc_FormatFloat :: "float64 \<Rightarrow> string"

definition stringify :: "platform \<Rightarrow> json_codec \<Rightarrow> json \<Rightarrow> extract_error + string" where
  "stringify P J v =
     (case v of
        JNull \<Rightarrow> Inr []
      | JStr s \<Rightarrow> Inr s
      | JBool b \<Rightarrow> Inr (if b then ''true'' else ''false'')
      | JNum x \<Rightarrow>
          let n = to_int64 (oob P) x in
          if f_eq x (f_of_int n) then Inr (fmt_d n) else Inr (jc_FormatFloat J x)
      | _ \<Rightarrow> (case jc_Marshal J v of None \<Rightarrow> Inl CannotRender | Some s \<Rightarrow> Inr s))"

fun walk :: "string \<Rightarrow> nat \<Rightarrow> pathStep list \<Rightarrow> json \<Rightarrow> extract_error + json" where
  "walk src i [] node = Inr node"
| "walk src i (s # ss) node =
     (case step_apply s node of Inl e \<Rightarrow> Inl (AtSegment src (i + 1) e) | Inr node \<Rightarrow> walk src (i + 1) ss node)"

definition Extract :: "platform \<Rightarrow> json_codec \<Rightarrow> Path \<Rightarrow> string \<Rightarrow> extract_error + string" where
  "Extract P J p data =
     (if data = [] then Inl (BodyEmpty (pt_source p))
      else case jc_Unmarshal J data of
        None \<Rightarrow> Inl (NotJSON (pt_source p))
      | Some doc \<Rightarrow> (case walk (pt_source p) 0 (pt_steps p) doc of Inl e \<Rightarrow> Inl e | Inr v \<Rightarrow> stringify P J v))"

subsection \<open>Both notations\<close>

definition seg_ok :: "string \<Rightarrow> bool" where
  "seg_ok s \<longleftrightarrow> s \<noteq> [] \<and> set s \<inter> set ''.[]$'' = {} \<and> list_all plain s"

definition seg_step :: "string \<Rightarrow> pathStep" where
  "seg_step s = (case Atoi s of Some i \<Rightarrow> \<lparr>st_field = [], st_index = i, st_isIdx = True\<rparr> | None \<Rightarrow> \<lparr>st_field = s, st_index = 0, st_isIdx = False\<rparr>)"

fun bracketed :: "string list \<Rightarrow> string" where
  "bracketed [] = []"
| "bracketed (s # ss) = s @ concat (map (\<lambda>t. ''['' @ t @ '']'') ss)"

lemma split_at_seg: "c \<notin> set w \<Longrightarrow> split_at c w = [w]"
  by (induction w) auto

lemma split_at_append: "c \<notin> set w \<Longrightarrow> split_at c (w @ c # xs) = w # split_at c xs"
  by (induction w) auto

definition unbracket :: "string \<Rightarrow> string" where
  "unbracket expr = concat (map (\<lambda>c. if c = CHR ''['' then ''.'' else if c = CHR '']'' then [] else [c]) expr)"

lemma unbracket_simps [simp]: "unbracket (xs @ ys) = unbracket xs @ unbracket ys" "unbracket [] = []"
  "unbracket (c # xs) = (if c = CHR ''['' then ''.'' else if c = CHR '']'' then [] else [c]) @ unbracket xs"
  by (simp_all add: unbracket_def)

lemma unbracket_seg: "set s \<inter> set ''.[]$'' = {} \<Longrightarrow> unbracket s = s"
  by (induction s) auto

lemma split_dotted: "ss \<noteq> [] \<Longrightarrow> (\<And>s. s \<in> set ss \<Longrightarrow> CHR ''.'' \<notin> set s) \<Longrightarrow> split_at (CHR ''.'') (strings_Join ''.'' ss) = ss"
proof (induction "''.''" ss rule: strings_Join.induct)
  case (2 x) then show ?case by (simp add: split_at_seg)
next
  case (3 x y xs)
  then have "split_at (CHR ''.'') (x @ CHR ''.'' # strings_Join ''.'' (y # xs)) = x # split_at (CHR ''.'') (strings_Join ''.'' (y # xs))"
    by (intro split_at_append) simp
  then show ?case using 3 by simp
qed simp

lemma unbracket_dotted: "(\<And>s. s \<in> set ss \<Longrightarrow> set s \<inter> set ''.[]$'' = {}) \<Longrightarrow> unbracket (strings_Join ''.'' ss) = strings_Join ''.'' ss"
proof (induction "''.''" ss rule: strings_Join.induct)
  case (2 x) then show ?case by (simp add: unbracket_seg)
next
  case (3 x y xs)
  then show ?case using unbracket_seg[of x] by simp
qed simp

lemma unbracket_bracketed:
  "ss \<noteq> [] \<Longrightarrow> (\<And>s. s \<in> set ss \<Longrightarrow> set s \<inter> set ''.[]$'' = {}) \<Longrightarrow> unbracket (bracketed ss) = strings_Join ''.'' ss"
proof (induction ss rule: induct_list012)
  case (2 x) then show ?case by (simp add: unbracket_seg)
next
  case (3 x y zs)
  have "unbracket (bracketed (y # zs)) = strings_Join ''.'' (y # zs)" using 3 by simp
  then show ?case using unbracket_seg[of x] 3(4)[of x] by simp
qed simp

lemma splitPath_both:
  assumes "ss \<noteq> []" "\<And>s. s \<in> set ss \<Longrightarrow> seg_ok s"
  shows "splitPath (strings_Join ''.'' ss) = ss" "splitPath (bracketed ss) = ss"
proof -
  have no: "set s \<inter> set ''.[]$'' = {}" "CHR ''.'' \<notin> set s" "s \<noteq> []" if "s \<in> set ss" for s using assms(2)[OF that] by (auto simp: seg_ok_def)
  have sp: "splitPath e = filter (\<lambda>part. part \<noteq> []) (split_at (CHR ''.'') (unbracket e))" for e by (simp add: splitPath_def unbracket_def)
  have "split_at (CHR ''.'') (strings_Join ''.'' ss) = ss" using assms(1) no by (intro split_dotted) auto
  moreover have "filter (\<lambda>part. part \<noteq> []) ss = ss" using no(3) by (simp add: filter_id_conv)
  ultimately show "splitPath (strings_Join ''.'' ss) = ss" "splitPath (bracketed ss) = ss"
    unfolding sp using unbracket_dotted[of ss] unbracket_bracketed[OF assms(1)] no(1) by simp_all
qed

lemma path_steps_segs:
  "(\<And>s. s \<in> set ss \<Longrightarrow> s \<noteq> [] \<and> (\<forall>i. Atoi s = Some i \<longrightarrow> 0 \<le> i)) \<Longrightarrow> path_steps expr ss = Inr (map seg_step ss)"
proof (induction ss)
  case (Cons s ss)
  have IH: "path_steps expr ss = Inr (map seg_step ss)" by (rule Cons.IH, rule Cons.prems) simp
  have "s \<noteq> []" "\<And>i. Atoi s = Some i \<Longrightarrow> 0 \<le> i" using Cons.prems[of s] by auto
  then show ?case using IH by (cases "Atoi s") (auto simp: seg_step_def)
qed simp

lemma TrimPrefix_dollar: "hd s \<noteq> CHR ''$'' \<Longrightarrow> hd s \<noteq> CHR ''.'' \<Longrightarrow> path_body s = s"
  by (cases s) (auto simp: path_body_def TrimPrefix_def)

text \<open>
  The dotted and the bracketed notation of a path mean the same: both, with or without a leading
  \<open>$.\<close>, are accepted and compiled to one step per segment, an index where the segment is a number
  and a field otherwise.
\<close>

theorem ParsePath_notations:
  assumes "ss \<noteq> []" and "\<And>s. s \<in> set ss \<Longrightarrow> seg_ok s \<and> (\<forall>i. Atoi s = Some i \<longrightarrow> 0 \<le> i)"
  shows "ParsePath (strings_Join ''.'' ss) = Inr \<lparr>pt_steps = map seg_step ss, pt_source = strings_Join ''.'' ss\<rparr> \<and>
    ParsePath (bracketed ss) = Inr \<lparr>pt_steps = map seg_step ss, pt_source = bracketed ss\<rparr> \<and>
    ParsePath (''$.'' @ bracketed ss) = Inr \<lparr>pt_steps = map seg_step ss, pt_source = ''$.'' @ bracketed ss\<rparr>"
proof -
  obtain s0 ss' where ss: "ss = s0 # ss'" using assms(1) by (cases ss) auto
  have ok: "\<And>s. s \<in> set ss \<Longrightarrow> seg_ok s" using assms(2) by blast
  have s0: "s0 \<noteq> []" "plain (hd s0)" "hd s0 \<noteq> CHR ''$''" "hd s0 \<noteq> CHR ''.''" using ok[of s0] by (cases s0; auto simp: ss seg_ok_def)+
  have st: "path_steps expr ss = Inr (map seg_step ss)" for expr using assms(2) by (intro path_steps_segs) (auto simp: seg_ok_def)
  have br: "plain (CHR '']'')" "plain (CHR ''$'')" by (simp_all add: plain_def)
  have last: "plain (last (strings_Join ''.'' ss))" "plain (last (bracketed ss))"
  proof -
    have l: "plain (last s)" "s \<noteq> []" if "s \<in> set ss" for s using ok[OF that] by (auto simp: seg_ok_def list_all_iff)
    have "xs \<noteq> [] \<Longrightarrow> set xs \<subseteq> set ss \<Longrightarrow> strings_Join ''.'' xs \<noteq> [] \<and> plain (last (strings_Join ''.'' xs))" for xs
      by (induction "''.''" xs rule: strings_Join.induct) (auto simp: l)
    then show "plain (last (strings_Join ''.'' ss))" using assms(1) by blast
    show "plain (last (bracketed ss))" using l(1)[of s0] br(1) by (cases ss' rule: rev_cases) (simp_all add: ss)
  qed
  have hd: "hd (strings_Join ''.'' ss) = hd s0" "hd (bracketed ss) = hd s0" "strings_Join ''.'' ss \<noteq> []" "bracketed ss \<noteq> []"
    using s0(1) by (cases ss'; simp add: ss)+
  have t: "TrimSpace (strings_Join ''.'' ss) = strings_Join ''.'' ss" "TrimSpace (bracketed ss) = bracketed ss"
    "TrimSpace (''$.'' @ bracketed ss) = ''$.'' @ bracketed ss"
    using hd last s0(2) br(2) by (intro TrimSpace_plain; simp)+
  have b: "path_body (strings_Join ''.'' ss) = strings_Join ''.'' ss" "path_body (bracketed ss) = bracketed ss"
    using hd(1,2) s0(3,4) by (simp_all add: TrimPrefix_dollar)
  moreover have "path_body (''$.'' @ bracketed ss) = path_body (bracketed ss)"
    using hd(2,4) s0(3,4) by (cases "bracketed ss") (auto simp: path_body_def TrimPrefix_def)
  ultimately show ?thesis using t splitPath_both[OF assms(1) ok] st hd(3,4) assms(1) by (simp add: ParsePath_def)
qed

theorem ParsePath_notations_witness:
  "ParsePath ''$.items[0]'' = Inr \<lparr>pt_steps = [\<lparr>st_field = ''items'', st_index = 0, st_isIdx = False\<rparr>,
     \<lparr>st_field = [], st_index = 0, st_isIdx = True\<rparr>], pt_source = ''$.items[0]''\<rparr>"
proof -
  have "seg_ok ''items''" "seg_ok ''0''" "Atoi ''items'' = None" "Atoi ''0'' = Some 0"
    by (simp_all add: seg_ok_def plain_def Atoi_def is_digit_def in_i64_def)
  moreover from this have "seg_ok s \<and> (\<forall>i. Atoi s = Some i \<longrightarrow> 0 \<le> i)" if "s \<in> set [''items'', ''0'']" for s using that by auto
  ultimately show ?thesis using ParsePath_notations[of "[''items'', ''0'']"] by (simp add: seg_step_def)
qed

end
