(* ===== verification/Http.thy ===== *)
theory Http
  imports JsonPath Utf8
begin

text \<open>
  \<open>pkg/loadwave/http.go\<close> and \<open>failure.go\<close>: the HTTP client of a virtual user. URLs are a type of
  their own with the operations of \<open>net/url\<close>, and the transport is a function from the request put on
  the wire to an error or a response; both are arguments. A Go error is what the code can see of it:
  its text and what \<open>errors.Is\<close> and \<open>errors.As\<close> find in its chain. Maps are listed in the order a
  \<open>range\<close> visits them. The lemmas show what every request records, that every request is followed by
  its pause, and that the labels and excerpts it reports are bounded.
\<close>

subsection \<open>Errors\<close>

record go_error =
  ge_text :: string
  ge_deadline :: bool \<comment> \<open>\<open>context.DeadlineExceeded\<close>\<close>
  ge_canceled :: bool
  ge_eof :: bool \<comment> \<open>\<open>io.EOF\<close> or \<open>io.ErrUnexpectedEOF\<close>\<close>
  ge_refused :: bool
  ge_reset :: bool
  ge_net :: "bool option" \<comment> \<open>a \<open>net.Error\<close>, and its \<open>Timeout()\<close>\<close>
  ge_dns :: bool
  ge_tls :: bool

definition plain_error :: "string \<Rightarrow> go_error" where
  "plain_error t = \<lparr>ge_text = t, ge_deadline = False, ge_canceled = False, ge_eof = False, ge_refused = False,
     ge_reset = False, ge_net = None, ge_dns = False, ge_tls = False\<rparr>"

text \<open>\<open>fmt.Errorf("...: %w", err)\<close>.\<close>

definition wrap_error :: "string \<Rightarrow> go_error \<Rightarrow> go_error" where
  "wrap_error t e = e\<lparr>ge_text := t @ '': '' @ ge_text e\<rparr>"

definition contains :: "string \<Rightarrow> string \<Rightarrow> bool" where
  "contains s p \<longleftrightarrow> index_of p s \<noteq> None"

definition classifyError :: "go_error option \<Rightarrow> string" where
  "classifyError err =
     (case err of
        None \<Rightarrow> []
      | Some e \<Rightarrow>
          if ge_deadline e then ''timeout''
          else if ge_canceled e then ''canceled''
          else if ge_eof e then ''eof''
          else if ge_refused e then ''connection_refused''
          else if ge_reset e then ''connection_reset''
          else if ge_net e = Some True then ''timeout''
          else if ge_dns e then ''dns''
          else if ge_tls e then ''tls''
          else let text = ge_text e in
            if contains text ''connection refused'' then ''connection_refused''
            else if contains text ''connection reset'' then ''connection_reset''
            else if contains text ''no such host'' then ''dns''
            else if contains text ''tls:'' \<or> contains text ''x509:'' then ''tls''
            else if contains text ''stopped after'' then ''too_many_redirects''
            else ''unknown'')"

subsection \<open>Headers and values\<close>

definition is_lower :: "char \<Rightarrow> bool" where
  "is_lower c \<longleftrightarrow> 97 \<le> byte c \<and> byte c \<le> 122"

definition is_upper :: "char \<Rightarrow> bool" where
  "is_upper c \<longleftrightarrow> 65 \<le> byte c \<and> byte c \<le> 90"

definition to_upper :: "char \<Rightarrow> char" where
  "to_upper c = (if is_lower c then char_of (byte c - 32) else c)"

definition to_lower :: "char \<Rightarrow> char" where
  "to_lower c = (if is_upper c then char_of (byte c + 32) else c)"

definition is_token :: "char \<Rightarrow> bool" where
  "is_token c \<longleftrightarrow> is_digit c \<or> is_lower c \<or> is_upper c \<or> c \<in> set ''!#$%&*+-.^_|~'' \<or> byte c = 39 \<or> byte c = 96"

fun canonical_from :: "bool \<Rightarrow> string \<Rightarrow> string" where
  "canonical_from up [] = []"
| "canonical_from up (c # cs) = (if up then to_upper c else to_lower c) # canonical_from (c = CHR ''-'') cs"

definition CanonicalHeaderKey :: "string \<Rightarrow> string" where
  "CanonicalHeaderKey s = (if list_all is_token s then canonical_from True s else s)"

text \<open>\<open>http.Header\<close> and \<open>url.Values\<close>.\<close>

type_synonym values_map = "(string, string list) gomap"

definition values_Add :: "values_map \<Rightarrow> string \<Rightarrow> string \<Rightarrow> values_map" where
  "values_Add h k v = gput k ((case map_of h k of Some vs \<Rightarrow> vs | None \<Rightarrow> []) @ [v]) h"

definition header_Add :: "values_map \<Rightarrow> string \<Rightarrow> string \<Rightarrow> values_map" where
  "header_Add h k v = values_Add h (CanonicalHeaderKey k) v"

definition header_Set :: "values_map \<Rightarrow> string \<Rightarrow> string \<Rightarrow> values_map" where
  "header_Set h k v = gput (CanonicalHeaderKey k) [v] h"

definition header_Del :: "values_map \<Rightarrow> string \<Rightarrow> values_map" where
  "header_Del h k = gdel (CanonicalHeaderKey k) h"

definition header_Get :: "values_map \<Rightarrow> string \<Rightarrow> string" where
  "header_Get h k = (case map_of h (CanonicalHeaderKey k) of Some (v # _) \<Rightarrow> v | _ \<Rightarrow> [])"

definition hex_upper :: "nat \<Rightarrow> char" where
  "hex_upper n = (if n < 10 then char_of (48 + n) else char_of (55 + n))"

definition QueryEscape :: "string \<Rightarrow> string" where
  "QueryEscape s = concat (map (\<lambda>c.
     if is_digit c \<or> is_lower c \<or> is_upper c \<or> c \<in> set ''-_.~'' then [c]
     else if c = CHR '' '' then ''+''
     else [CHR ''%'', hex_upper (byte c div 16), hex_upper (byte c mod 16)]) s)"

definition values_Encode :: "values_map \<Rightarrow> string" where
  "values_Encode v =
     strings_Join ''&'' (concat (map (\<lambda>(k, vs). map (\<lambda>x. QueryEscape k @ ''='' @ QueryEscape x) vs)
       (sort_by (\<lambda>a b. fst a < fst b) v)))"

text \<open>The operations of \<open>net/url\<close>, \<open>fmt\<close> and \<open>unicode\<close> the client calls.\<close>

record 'u http_lib =
  hl_Parse :: "string \<Rightarrow> go_error + 'u"
  hl_Scheme :: "'u \<Rightarrow> string"
  hl_Host :: "'u \<Rightarrow> string"
  hl_Path :: "'u \<Rightarrow> string"
  hl_Query :: "'u \<Rightarrow> values_map"
  hl_set_RawQuery :: "'u \<Rightarrow> string \<Rightarrow> 'u"
  hl_ResolveReference :: "'u \<Rightarrow> 'u \<Rightarrow> 'u"
  hl_String :: "'u \<Rightarrow> string"
  hl_RequestURI :: "'u \<Rightarrow> string"
  hl_StatusText :: "int \<Rightarrow> string"
  hl_quote :: "string \<Rightarrow> string" \<comment> \<open>\<open>%q\<close>\<close>
  hl_IsPrint :: "nat \<Rightarrow> bool"
  hl_ToUpper :: "nat \<Rightarrow> nat" \<comment> \<open>\<open>unicode.ToUpper\<close> and \<open>ToLower\<close> outside ASCII\<close>
  hl_ToLower :: "nat \<Rightarrow> nat"
  hl_json :: json_codec

subsection \<open>Requests and responses\<close>

record Request =
  rq_Method :: string
  rq_URL :: string
  rq_Name :: string
  rq_Header :: values_map
  rq_Query :: values_map
  rq_Body :: string
  rq_JSON :: "json option"
  rq_Form :: values_map
  rq_Timeout :: duration
  rq_Tags :: labels
  rq_ExpectStatus :: "int list"
  rq_BetweenRequests :: "Pause option"

definition zero_Request :: Request where
  "zero_Request = \<lparr>rq_Method = [], rq_URL = [], rq_Name = [], rq_Header = [], rq_Query = [], rq_Body = [], rq_JSON = None,
     rq_Form = [], rq_Timeout = 0, rq_Tags = no_labels, rq_ExpectStatus = [], rq_BetweenRequests = None\<rparr>"

record Response =
  rs_StatusCode :: int
  rs_Status :: string
  rs_Proto :: string
  rs_Header :: values_map
  rs_Body :: string
  rs_Truncated :: bool
  rs_Duration :: duration
  rs_TTFB :: duration
  rs_Connecting :: duration
  rs_TLSHandshake :: duration
  rs_ConnReused :: bool
  rs_BytesIn :: int
  rs_BytesOut :: int
  rs_Err :: "go_error option"

definition zero_Response :: Response where
  "zero_Response = \<lparr>rs_StatusCode = 0, rs_Status = [], rs_Proto = [], rs_Header = [], rs_Body = [], rs_Truncated = False,
     rs_Duration = 0, rs_TTFB = 0, rs_Connecting = 0, rs_TLSHandshake = 0, rs_ConnReused = False, rs_BytesIn = 0,
     rs_BytesOut = 0, rs_Err = None\<rparr>"

definition OK :: "Response \<Rightarrow> bool" where
  "OK r \<longleftrightarrow> rs_Err r = None \<and> rs_StatusCode r \<ge> 100 \<and> rs_StatusCode r < 400"

definition DefaultIsSuccess :: "Response \<Rightarrow> bool" where
  "DefaultIsSuccess r \<longleftrightarrow> rs_Err r = None \<and> rs_StatusCode r \<ge> 100 \<and> rs_StatusCode r < 400"

text \<open>\<open>Response.JSON\<close>; the decoded document stands for the target it is stored into.\<close>

definition response_JSON :: "'u http_lib \<Rightarrow> Response \<Rightarrow> go_error + json" where
  "response_JSON L r =
     (case rs_Err r of
        Some e \<Rightarrow> Inl (wrap_error ''request failed'' e)
      | None \<Rightarrow>
          if rs_Body r = [] then Inl (plain_error ''response body is empty'')
          else case jc_Unmarshal (hl_json L) (rs_Body r) of
            None \<Rightarrow> Inl (wrap_error ''decode JSON response'' (plain_error []))
          | Some doc \<Rightarrow> Inr doc)"

definition response_Text :: "Response \<Rightarrow> string" where
  "response_Text r = rs_Body r"

subsection \<open>Options\<close>

record HTTPOptions =
  ho_BaseURL :: string
  ho_Timeout :: duration
  ho_Headers :: values_map
  ho_UserAgent :: string
  ho_InsecureSkipTLSVerify :: bool
  ho_MaxIdleConnsPerHost :: int
  ho_DisableKeepAlives :: bool
  ho_DisableCompression :: bool
  ho_FollowRedirects :: bool
  ho_MaxRedirects :: int
  ho_IsolatePerVU :: bool
  ho_DiscardBody :: bool
  ho_MaxBodyBytes :: int
  ho_Trace :: "bool option"
  ho_Proxy :: string
  ho_IsSuccess :: "(Response \<Rightarrow> bool) option"
  ho_BetweenRequests :: Pause
  ho_NoBetweenRequests :: bool

definition DefaultHTTPTimeout :: duration where "DefaultHTTPTimeout = 30 * time_Second"
definition DefaultMaxIdleConnsPerHost :: int where "DefaultMaxIdleConnsPerHost = 512"
definition DefaultMaxRedirects :: int where "DefaultMaxRedirects = 10"
definition DefaultMaxBodyBytes :: int where "DefaultMaxBodyBytes = 4 * 2 ^ 20"

lemmas http_defaults = DefaultHTTPTimeout_def DefaultMaxIdleConnsPerHost_def DefaultMaxRedirects_def DefaultMaxBodyBytes_def

definition applyDefaults :: "HTTPOptions \<Rightarrow> HTTPOptions" where
  "applyDefaults opts =
     opts\<lparr>ho_Timeout := (if ho_Timeout opts \<le> 0 then DefaultHTTPTimeout else ho_Timeout opts),
       ho_MaxIdleConnsPerHost := (if ho_MaxIdleConnsPerHost opts \<le> 0 then DefaultMaxIdleConnsPerHost else ho_MaxIdleConnsPerHost opts),
       ho_MaxRedirects := (if ho_MaxRedirects opts \<le> 0 then DefaultMaxRedirects else ho_MaxRedirects opts),
       ho_MaxBodyBytes := (if ho_MaxBodyBytes opts \<le> 0 then DefaultMaxBodyBytes else ho_MaxBodyBytes opts),
       ho_Trace := (case ho_Trace opts of None \<Rightarrow> Some True | Some on \<Rightarrow> Some on),
       ho_IsSuccess := (case ho_IsSuccess opts of None \<Rightarrow> Some DefaultIsSuccess | Some f \<Rightarrow> Some f),
       ho_BetweenRequests :=
         (if ho_NoBetweenRequests opts then \<lparr>pz_Min = 0, pz_Max = 0\<rparr>
          else if pause_IsZero (ho_BetweenRequests opts) then NewPause DefaultBetweenRequests
          else ho_BetweenRequests opts)\<rparr>"

subsection \<open>Clients\<close>

text \<open>The settings of a transport that come from the options; \<open>None\<close> is the environment's proxy.\<close>

record 'u Transport =
  tn_Proxy :: "'u option"
  tn_MaxIdleConnsPerHost :: int
  tn_DisableKeepAlives :: bool
  tn_DisableCompression :: bool
  tn_InsecureSkipVerify :: bool

record 'u HTTPClientFactory =
  hf_opts :: HTTPOptions
  hf_base :: "'u option"
  hf_shared :: "'u Transport option"
  hf_transport :: "'u Transport"

definition newTransport :: "HTTPOptions \<Rightarrow> 'u option \<Rightarrow> 'u Transport" where
  "newTransport opts proxy =
     \<lparr>tn_Proxy = proxy, tn_MaxIdleConnsPerHost = ho_MaxIdleConnsPerHost opts, tn_DisableKeepAlives = ho_DisableKeepAlives opts,
      tn_DisableCompression = ho_DisableCompression opts, tn_InsecureSkipVerify = ho_InsecureSkipTLSVerify opts\<rparr>"

definition parse_base :: "'u http_lib \<Rightarrow> string \<Rightarrow> go_error + 'u option" where
  "parse_base L raw =
     (if raw = [] then Inr None
      else case hl_Parse L raw of
        Inl e \<Rightarrow> Inl (wrap_error (''parse base URL '' @ hl_quote L raw) e)
      | Inr u \<Rightarrow>
          if hl_Scheme L u = [] \<or> hl_Host L u = []
          then Inl (plain_error (''base URL '' @ hl_quote L raw @ '' must be absolute, with a scheme and host''))
          else Inr (Some u))"

definition parse_proxy :: "'u http_lib \<Rightarrow> string \<Rightarrow> go_error + 'u option" where
  "parse_proxy L raw =
     (if raw = [] then Inr None
      else case hl_Parse L raw of
        Inl e \<Rightarrow> Inl (wrap_error (''parse proxy URL '' @ hl_quote L raw) e)
      | Inr u \<Rightarrow> Inr (Some u))"

definition NewHTTPClientFactory :: "'u http_lib \<Rightarrow> HTTPOptions \<Rightarrow> go_error + 'u HTTPClientFactory" where
  "NewHTTPClientFactory L opts =
     (let opts = applyDefaults opts in
      case parse_base L (ho_BaseURL opts) of
        Inl e \<Rightarrow> Inl e
      | Inr base \<Rightarrow>
          (case parse_proxy L (ho_Proxy opts) of
             Inl e \<Rightarrow> Inl e
           | Inr proxy \<Rightarrow>
               Inr \<lparr>hf_opts = opts, hf_base = base,
                    hf_shared = (if ho_IsolatePerVU opts then None else Some (newTransport opts proxy)),
                    hf_transport = newTransport opts proxy\<rparr>))"

record 'u HTTPClient =
  hc_opts :: HTTPOptions
  hc_base :: "'u option"
  hc_Timeout :: duration
  hc_transport :: "'u Transport"
  hc_owned :: bool

definition factory_New :: "'u HTTPClientFactory \<Rightarrow> 'u HTTPClient" where
  "factory_New f =
     (let (transport, owned) = (case hf_shared f of Some t \<Rightarrow> (t, False) | None \<Rightarrow> (hf_transport f, True))
      in \<lparr>hc_opts = hf_opts f, hc_base = hf_base f, hc_Timeout = ho_Timeout (hf_opts f), hc_transport = transport, hc_owned = owned\<rparr>)"

datatype redirect = UseLastResponse | StopRedirects go_error | Follow

definition CheckRedirect :: "HTTPOptions \<Rightarrow> nat \<Rightarrow> redirect" where
  "CheckRedirect opts via =
     (if \<not> ho_FollowRedirects opts then UseLastResponse
      else if int via \<ge> ho_MaxRedirects opts
      then StopRedirects (plain_error (''stopped after '' @ fmt_d (ho_MaxRedirects opts) @ '' redirects''))
      else Follow)"

subsection \<open>Resolving a request\<close>

definition add_query :: "values_map \<Rightarrow> values_map \<Rightarrow> values_map" where
  "add_query merged query = foldl (\<lambda>m (k, vs). foldl (\<lambda>m v. values_Add m k v) m vs) merged query"

definition resolve :: "'u http_lib \<Rightarrow> 'u HTTPClient \<Rightarrow> string \<Rightarrow> values_map \<Rightarrow> go_error + 'u" where
  "resolve L c raw query =
     (if raw = [] then Inl (plain_error ''request URL is empty'')
      else case hl_Parse L raw of
        Inl e \<Rightarrow> Inl (wrap_error (''parse URL '' @ hl_quote L raw) e)
      | Inr parsed \<Rightarrow>
          let found =
            (if hl_Scheme L parsed \<noteq> [] then Inr parsed
             else case hc_base c of
               None \<Rightarrow> Inl (plain_error (''relative URL '' @ hl_quote L raw @ '' requires a base URL''))
             | Some base \<Rightarrow> Inr (hl_ResolveReference L base parsed))
          in case found of
               Inl e \<Rightarrow> Inl e
             | Inr u \<Rightarrow> Inr (if query = [] then u else hl_set_RawQuery L u (values_Encode (add_query (hl_Query L u) query))))"

definition encodeBody :: "json_codec \<Rightarrow> Request \<Rightarrow> go_error + string \<times> string" where
  "encodeBody J req =
     (let set = (if rq_Body req \<noteq> [] then 1 else 0) + (if rq_JSON req \<noteq> None then 1 else 0) + (if rq_Form req \<noteq> [] then 1 else (0 :: nat)) in
      if set > 1 then Inl (plain_error ''request sets more than one of Body, JSON and Form'')
      else case rq_JSON req of
        Some doc \<Rightarrow>
          (case jc_Marshal J doc of
             None \<Rightarrow> Inl (wrap_error ''encode JSON body'' (plain_error []))
           | Some encoded \<Rightarrow> Inr (encoded, ''application/json''))
      | None \<Rightarrow>
          if rq_Form req \<noteq> [] then Inr (values_Encode (rq_Form req), ''application/x-www-form-urlencoded'')
          else Inr (rq_Body req, []))"

text \<open>\<open>applyHeaders\<close>, on the headers of the request being built.\<close>

definition run_headers :: "values_map \<Rightarrow> values_map \<Rightarrow> values_map" where
  "run_headers h opts = foldl (\<lambda>h (k, vs). foldl (\<lambda>h v. header_Add h k v) h vs) h opts"

definition request_headers :: "values_map \<Rightarrow> values_map \<Rightarrow> values_map" where
  "request_headers h req = foldl (\<lambda>h (k, vs). foldl (\<lambda>h v. header_Add h k v) (header_Del h k) vs) h req"

definition applyHeaders :: "HTTPOptions \<Rightarrow> values_map \<Rightarrow> Request \<Rightarrow> string \<Rightarrow> values_map" where
  "applyHeaders opts h req contentType =
     (let h = run_headers h (ho_Headers opts);
          h = request_headers h (rq_Header req);
          h = (if contentType \<noteq> [] \<and> header_Get h ''Content-Type'' = [] then header_Set h ''Content-Type'' contentType else h)
      in if ho_UserAgent opts \<noteq> [] then header_Set h ''User-Agent'' (ho_UserAgent opts) else h)"

subsection \<open>The exchange\<close>

text \<open>What goes to the transport: the request, with the deadline its context adds.\<close>

record 'u wire =
  wi_Method :: string
  wi_URL :: 'u
  wi_Host :: string
  wi_Header :: values_map
  wi_Body :: string
  wi_ContentLength :: int
  wi_Deadline :: "go_time option"

definition removeEmptyPort :: "string \<Rightarrow> string" where
  "removeEmptyPort host =
     (let colon = (case last_index (CHR '':'') host of None \<Rightarrow> - 1 | Some i \<Rightarrow> int i);
          bracket = (case last_index (CHR '']'') host of None \<Rightarrow> - 1 | Some i \<Rightarrow> int i)
      in if colon > bracket \<and> host \<noteq> [] \<and> last host = CHR '':'' then butlast host else host)"

text \<open>\<open>http.NewRequestWithContext\<close>.\<close>

definition NewRequest :: "'u http_lib \<Rightarrow> string \<Rightarrow> 'u \<Rightarrow> string \<Rightarrow> go_time option \<Rightarrow> go_error + 'u wire" where
  "NewRequest L method target body deadline =
     (if method = [] \<or> \<not> list_all is_token method
      then Inl (plain_error (''net/http: invalid method '' @ hl_quote L method))
      else case hl_Parse L (hl_String L target) of
        Inl e \<Rightarrow> Inl e
      | Inr u \<Rightarrow> Inr \<lparr>wi_Method = method, wi_URL = u, wi_Host = removeEmptyPort (hl_Host L u), wi_Header = [], wi_Body = body,
           wi_ContentLength = int (length body), wi_Deadline = deadline\<rparr>)"

definition estimateHeaderBytes :: "'u http_lib \<Rightarrow> 'u wire \<Rightarrow> int" where
  "estimateHeaderBytes L w =
     int (length (wi_Method w) + length (hl_RequestURI L (wi_URL w)) + 12 + (6 + length (wi_Host w) + 2) +
       sum_list (map (\<lambda>(k, vs). sum_list (map (\<lambda>v. length k + 2 + length v + 2) vs)) (wi_Header w)) + 2)"

text \<open>
  A response body: the bytes it delivers and how it ends. A reader may report its error with the
  last bytes or after them.
\<close>

record body_reader =
  br_data :: string
  br_err :: "go_error option"
  br_with_data :: bool

record http_response =
  hr_StatusCode :: int
  hr_Proto :: string
  hr_Header :: values_map
  hr_Body :: body_reader

record bodyRead =
  rd_consumed :: int
  rd_buffered :: string

definition readBody :: "HTTPOptions \<Rightarrow> body_reader \<Rightarrow> bodyRead \<times> bool \<times> go_error option" where
  "readBody opts r =
     (if ho_DiscardBody opts then (\<lparr>rd_consumed = int (length (br_data r)), rd_buffered = []\<rparr>, False, br_err r)
      else
        let limit = nat (ho_MaxBodyBytes opts); buf = take limit (br_data r); kept = length buf;
            rest = drop limit (br_data r);
            err = (if kept < limit \<or> rest = [] \<and> kept > 0 \<and> br_with_data r then br_err r else None)
        in if err \<noteq> None then (\<lparr>rd_consumed = int kept, rd_buffered = buf\<rparr>, False, err)
           else if kept < limit then (\<lparr>rd_consumed = int kept, rd_buffered = buf\<rparr>, False, None)
           else (\<lparr>rd_consumed = int (kept + length rest), rd_buffered = buf\<rparr>, length rest > 0, br_err r))"

record requestTrace =
  tc_connectStart :: go_time
  tc_connectDone :: go_time
  tc_tlsStart :: go_time
  tc_tlsDone :: go_time
  tc_firstByte :: go_time
  tc_reused :: bool

definition trace_fill :: "requestTrace \<Rightarrow> Response \<Rightarrow> go_time \<Rightarrow> Response" where
  "trace_fill t resp start =
     (let resp = resp\<lparr>rs_ConnReused := tc_reused t\<rparr>;
          resp = (if \<not> is_zero_time (tc_connectStart t) \<and> tc_connectDone t > tc_connectStart t
                  then resp\<lparr>rs_Connecting := time_Sub (tc_connectDone t) (tc_connectStart t)\<rparr> else resp);
          resp = (if \<not> is_zero_time (tc_tlsStart t) \<and> tc_tlsDone t > tc_tlsStart t
                  then resp\<lparr>rs_TLSHandshake := time_Sub (tc_tlsDone t) (tc_tlsStart t)\<rparr> else resp)
      in if \<not> is_zero_time (tc_firstByte t) then resp\<lparr>rs_TTFB := time_Sub (tc_firstByte t) start\<rparr> else resp)"

text \<open>
  What one call finds: the transport, the trace it filled in, the clock at each reading, when the
  caller's context ends, the virtual user's random numbers, and how late a timer wakes its goroutine.
\<close>

record 'u do_env =
  de_transport :: "'u wire \<Rightarrow> go_error + http_response"
  de_trace :: requestTrace
  de_called :: go_time \<comment> \<open>the deadline is set\<close>
  de_start :: go_time
  de_finish :: go_time
  de_pausing :: go_time \<comment> \<open>the pause begins\<close>
  de_done :: "go_time option"
  de_rnd :: "int \<Rightarrow> int"
  de_late :: duration
  de_reports :: bool \<comment> \<open>the recorder is a \<open>FailureReporter\<close>\<close>

definition execute :: "'u http_lib \<Rightarrow> 'u do_env \<Rightarrow> 'u HTTPClient \<Rightarrow> Request \<Rightarrow> 'u \<Rightarrow> string \<Rightarrow> string \<Rightarrow> go_time option \<Rightarrow> Response" where
  "execute L E c req target body contentType deadline =
     (case NewRequest L (rq_Method req) target body deadline of
        Inl e \<Rightarrow> zero_Response\<lparr>rs_Err := Some (wrap_error ''build request'' e)\<rparr>
      | Inr w \<Rightarrow>
          let w = w\<lparr>wi_Header := applyHeaders (hc_opts c) (wi_Header w) req contentType\<rparr>;
              filled = (\<lambda>r. if ho_Trace (hc_opts c) = Some True then trace_fill (de_trace E) r (de_start E) else r);
              resp = zero_Response\<lparr>rs_BytesOut := int (length body) + estimateHeaderBytes L w\<rparr>;
              took = time_Sub (de_finish E) (de_start E)
          in case de_transport E w of
               Inl e \<Rightarrow> filled (resp\<lparr>rs_Duration := took, rs_Err := Some e\<rparr>)
             | Inr h \<Rightarrow>
                 let (read, truncated, err) = readBody (hc_opts c) (hr_Body h);
                     resp = filled (resp\<lparr>rs_StatusCode := hr_StatusCode h, rs_Status := hl_StatusText L (hr_StatusCode h),
                       rs_Proto := hr_Proto h, rs_Header := hr_Header h, rs_Duration := took\<rparr>);
                     resp = resp\<lparr>rs_BytesIn := rd_consumed read, rs_Body := rd_buffered read, rs_Truncated := truncated\<rparr>
                 in case err of None \<Rightarrow> resp | Some e \<Rightarrow> resp\<lparr>rs_Err := Some (wrap_error ''read response body'' e)\<rparr>)"

subsection \<open>Names and excerpts\<close>

definition count_runes :: "(nat \<Rightarrow> bool) \<Rightarrow> string \<Rightarrow> nat" where
  "count_runes P s = length (filter P (go_runes s))"

definition rune_digit :: "nat \<Rightarrow> bool" where "rune_digit r \<longleftrightarrow> 48 \<le> r \<and> r \<le> 57"
definition rune_hex :: "nat \<Rightarrow> bool" where "rune_hex r \<longleftrightarrow> rune_digit r \<or> (97 \<le> r \<and> r \<le> 102) \<or> (65 \<le> r \<and> r \<le> 70)"

definition looksLikeIdentifier :: "string \<Rightarrow> bool" where
  "looksLikeIdentifier seg =
     (if seg = [] then False
      else let digits = count_runes rune_digit seg; hexDigits = count_runes rune_hex seg;
               dashes = count_runes (\<lambda>r. r = 45) seg; len = length seg
           in if digits = len then True
              else if hexDigits = len \<and> len \<ge> 12 then True
              else if dashes = 4 \<and> len = 36 \<and> hexDigits + dashes = len then True
              else digits > 0 \<and> len \<ge> 16)"

definition DeriveRequestName :: "string \<Rightarrow> string \<Rightarrow> string" where
  "DeriveRequestName method path =
     (if path = [] \<or> path = ''/'' then method @ '' /''
      else method @ '' '' @
        strings_Join ''/'' (map (\<lambda>seg. if looksLikeIdentifier seg then ''*'' else seg) (split_at (CHR ''/'') path)))"

definition MaxFailureMessage :: nat where "MaxFailureMessage = 240"

definition IsSpace :: "nat \<Rightarrow> bool" where
  "IsSpace r \<longleftrightarrow> r \<in> set ([9, 10, 11, 12, 13, 32, 0x85, 0xA0, 0x1680] @ [0x2000..<0x200B] @ [0x2028, 0x2029, 0x202F, 0x205F, 0x3000])"

text \<open>\<open>WriteRune\<close>.\<close>

definition encode_rune :: "nat \<Rightarrow> string" where
  "encode_rune r =
     map char_of
       (if r < 0x80 then [r]
        else if r < 0x800 then [192 + r div 64, 128 + r mod 64]
        else if r < 0x10000 then [224 + r div 4096, 128 + r div 64 mod 64, 128 + r mod 64]
        else [240 + r div 262144, 128 + r div 4096 mod 64, 128 + r div 64 mod 64, 128 + r mod 64])"

text \<open>\<open>strings.ToUpper\<close> and \<open>strings.ToLower\<close>.\<close>

definition upper_rune :: "'u http_lib \<Rightarrow> nat \<Rightarrow> nat" where
  "upper_rune L r = (if r < 128 then (if 97 \<le> r \<and> r \<le> 122 then r - 32 else r) else hl_ToUpper L r)"

definition lower_rune :: "'u http_lib \<Rightarrow> nat \<Rightarrow> nat" where
  "lower_rune L r = (if r < 128 then (if 65 \<le> r \<and> r \<le> 90 then r + 32 else r) else hl_ToLower L r)"

definition ToUpper :: "'u http_lib \<Rightarrow> string \<Rightarrow> string" where
  "ToUpper L s = concat (map (\<lambda>r. encode_rune (upper_rune L r)) (go_runes s))"

definition ToLower :: "'u http_lib \<Rightarrow> string \<Rightarrow> string" where
  "ToLower L s = concat (map (\<lambda>r. encode_rune (lower_rune L r)) (go_runes s))"

definition ellipsis :: string where "ellipsis = map char_of [226, 128, 166 :: nat]"

text \<open>The loop of \<open>TruncateMessage\<close>: the text written so far and whether a space is due.\<close>

fun truncate_loop :: "(nat \<Rightarrow> bool) \<Rightarrow> string \<Rightarrow> bool \<Rightarrow> nat list \<Rightarrow> string" where
  "truncate_loop prnt b space [] = b"
| "truncate_loop prnt b space (r # rs) =
     (if IsSpace r then truncate_loop prnt b True rs
      else if \<not> prnt r then truncate_loop prnt b space rs
      else let b = (if space \<and> length b > 0 then b @ '' '' else b) in
        if length b \<ge> MaxFailureMessage then b @ ellipsis
        else truncate_loop prnt (b @ encode_rune r) False rs)"

definition TruncateMessage :: "(nat \<Rightarrow> bool) \<Rightarrow> string \<Rightarrow> string" where
  "TruncateMessage prnt text =
     (let trimmed = TrimSpace text in if trimmed = [] then [] else truncate_loop prnt [] False (go_runes trimmed))"

subsection \<open>What a request records\<close>

definition MetricHTTPReqWaiting :: string where "MetricHTTPReqWaiting = ''http_req_waiting''"
definition MetricHTTPReqConnecting :: string where "MetricHTTPReqConnecting = ''http_req_connecting''"
definition MetricHTTPReqTLS :: string where "MetricHTTPReqTLS = ''http_req_tls_handshaking''"
definition MetricHTTPReqBytesOut :: string where "MetricHTTPReqBytesOut = ''http_req_bytes_out''"
definition LabelMethod :: string where "LabelMethod = ''method''"
definition LabelError :: string where "LabelError = ''error''"

definition msOf :: "duration \<Rightarrow> float64" where
  "msOf d = f_div (f_of_int d) (Fin 1000000)"

definition succeeded :: "HTTPOptions \<Rightarrow> Request \<Rightarrow> Response \<Rightarrow> bool" where
  "succeeded opts req resp =
     (if rs_Err resp \<noteq> None then False
      else if rq_ExpectStatus req \<noteq> [] then rs_StatusCode resp \<in> set (rq_ExpectStatus req)
      else (case ho_IsSuccess opts of Some f \<Rightarrow> f resp | None \<Rightarrow> False))"

definition reportFailure :: "'u http_lib \<Rightarrow> string \<Rightarrow> Request \<Rightarrow> Response \<Rightarrow> Failure" where
  "reportFailure L name req resp =
     \<lparr>fl_Name = name, fl_Method = rq_Method req, fl_Status = rs_StatusCode resp,
      fl_ErrorClass = classifyError (rs_Err resp),
      fl_Message = TruncateMessage (hl_IsPrint L) (case rs_Err resp of Some e \<Rightarrow> ge_text e | None \<Rightarrow> rs_Body resp)\<rparr>"

definition request_labels :: "(string \<Rightarrow> u64) \<Rightarrow> labels \<Rightarrow> string \<Rightarrow> Request \<Rightarrow> Response \<Rightarrow> labels" where
  "request_labels mh base name req resp =
     (let l = (case With mh base [LabelName, name, LabelMethod, rq_Method req, LabelStatus, fmt_d (rs_StatusCode resp)] of
                 Some l \<Rightarrow> l | None \<Rightarrow> base);
          l = foldl (\<lambda>l (k, v). with_label mh l k v) l (lab_pairs (rq_Tags req))
      in if rs_Err resp \<noteq> None then with_label mh l LabelError (classifyError (rs_Err resp)) else l)"

definition http_record :: "'u http_lib \<Rightarrow> (string \<Rightarrow> u64) \<Rightarrow> bool \<Rightarrow> HTTPOptions \<Rightarrow> 'v VU option \<Rightarrow> string \<Rightarrow> Request \<Rightarrow> Response \<Rightarrow>
    observation list \<times> Failure list" where
  "http_record L mh reports opts attached name req resp =
     (case attached of None \<Rightarrow> ([], []) | Some vu \<Rightarrow>
      let labels = request_labels mh (vu_iterTag vu) name req resp; failed = (\<not> succeeded opts req resp)
      in ([(MetricHTTPReqs, labels, Count (Fin 1)),
           (MetricHTTPReqDuration, labels, Trend (msOf (rs_Duration resp))),
           (MetricHTTPReqFailed, labels, Rate failed),
           (MetricHTTPReqBytesIn, labels, Count (f_of_int (rs_BytesIn resp))),
           (MetricHTTPReqBytesOut, labels, Count (f_of_int (rs_BytesOut resp)))] @
          (if rs_TTFB resp > 0 then [(MetricHTTPReqWaiting, labels, Trend (msOf (rs_TTFB resp)))] else []) @
          (if rs_Connecting resp > 0 then [(MetricHTTPReqConnecting, labels, Trend (msOf (rs_Connecting resp)))] else []) @
          (if rs_TLSHandshake resp > 0 then [(MetricHTTPReqTLS, labels, Trend (msOf (rs_TLSHandshake resp)))] else []),
          if failed \<and> reports then [reportFailure L name req resp] else []))"

subsection \<open>Pacing and the whole call\<close>

text \<open>
  How long \<open>Think\<close> is away: the timer, or the end of the context when that is sooner, and the time
  until the goroutine runs again.
\<close>

definition think_slept :: "'u do_env \<Rightarrow> go_time option \<Rightarrow> duration \<Rightarrow> duration" where
  "think_slept E ctx d = (case ctx of None \<Rightarrow> d | Some t \<Rightarrow> min d (max 0 (t - de_pausing E))) + de_late E"

definition request_pause :: "HTTPOptions \<Rightarrow> Request \<Rightarrow> Pause" where
  "request_pause opts req = (case rq_BetweenRequests req of Some p \<Rightarrow> p | None \<Rightarrow> ho_BetweenRequests opts)"

definition pace :: "'u do_env \<Rightarrow> HTTPOptions \<Rightarrow> go_time option \<Rightarrow> Request \<Rightarrow> 'v VU option \<Rightarrow> 'v VU option option" where
  "pace E opts ctx req attached =
     (case attached of None \<Rightarrow> Some None | Some vu \<Rightarrow>
      let pause = request_pause opts req in
      if pause_IsZero pause then Some (Some vu)
      else case pause_Duration pause (Some (de_rnd E)) of
        None \<Rightarrow> None
      | Some d \<Rightarrow> Some (Some (Think vu d (think_slept E ctx d))))"

text \<open>A deadline of a child context never moves the end of its parent.\<close>

definition with_deadline :: "go_time option \<Rightarrow> go_time \<Rightarrow> go_time option" where
  "with_deadline ctx t = (case ctx of None \<Rightarrow> Some t | Some u \<Rightarrow> Some (min t u))"

text \<open>\<open>Do\<close>, for the virtual user the client is attached to, if any; a result \<open>None\<close> is a panic.\<close>

definition http_Do :: "'u http_lib \<Rightarrow> (string \<Rightarrow> u64) \<Rightarrow> 'u do_env \<Rightarrow> 'u HTTPClient \<Rightarrow> 'v VU option \<Rightarrow> Request \<Rightarrow>
    (Response \<times> 'v VU option \<times> observation list \<times> Failure list) option" where
  "http_Do L mh E c vu req =
     (let req = (if rq_Method req = [] then req\<lparr>rq_Method := ''GET''\<rparr> else req);
          refused = (\<lambda>e. map_option (\<lambda>vu'. (zero_Response\<lparr>rs_Err := Some e\<rparr>, vu', [], [])) (pace E (hc_opts c) (de_done E) req vu))
      in case resolve L c (rq_URL req) (rq_Query req) of
           Inl e \<Rightarrow> refused e
         | Inr target \<Rightarrow>
             (case encodeBody (hl_json L) req of
                Inl e \<Rightarrow> refused e
              | Inr (body, contentType) \<Rightarrow>
                  let name = (if rq_Name req = [] then DeriveRequestName (rq_Method req) (hl_Path L target) else rq_Name req);
                      ctx = (if rq_Timeout req > 0 then with_deadline (de_done E) (de_called E + rq_Timeout req) else de_done E);
                      resp = execute L E c req target body contentType ctx;
                      (obs, fails) = http_record L mh (de_reports E) (hc_opts c) vu name req resp
                  in map_option (\<lambda>vu'. (resp, vu', obs, fails)) (pace E (hc_opts c) ctx req vu)))"

definition http_Get :: "'u http_lib \<Rightarrow> (string \<Rightarrow> u64) \<Rightarrow> 'u do_env \<Rightarrow> 'u HTTPClient \<Rightarrow> 'v VU option \<Rightarrow> string \<Rightarrow>
    (Response \<times> 'v VU option \<times> observation list \<times> Failure list) option" where
  "http_Get L mh E c vu rawURL = http_Do L mh E c vu (zero_Request\<lparr>rq_Method := ''GET'', rq_URL := rawURL\<rparr>)"

definition PostJSON :: "'u http_lib \<Rightarrow> (string \<Rightarrow> u64) \<Rightarrow> 'u do_env \<Rightarrow> 'u HTTPClient \<Rightarrow> 'v VU option \<Rightarrow> string \<Rightarrow> json \<Rightarrow>
    (Response \<times> 'v VU option \<times> observation list \<times> Failure list) option" where
  "PostJSON L mh E c vu rawURL body = http_Do L mh E c vu (zero_Request\<lparr>rq_Method := ''POST'', rq_URL := rawURL, rq_JSON := Some body\<rparr>)"

definition PutJSON :: "'u http_lib \<Rightarrow> (string \<Rightarrow> u64) \<Rightarrow> 'u do_env \<Rightarrow> 'u HTTPClient \<Rightarrow> 'v VU option \<Rightarrow> string \<Rightarrow> json \<Rightarrow>
    (Response \<times> 'v VU option \<times> observation list \<times> Failure list) option" where
  "PutJSON L mh E c vu rawURL body = http_Do L mh E c vu (zero_Request\<lparr>rq_Method := ''PUT'', rq_URL := rawURL, rq_JSON := Some body\<rparr>)"

definition http_Delete :: "'u http_lib \<Rightarrow> (string \<Rightarrow> u64) \<Rightarrow> 'u do_env \<Rightarrow> 'u HTTPClient \<Rightarrow> 'v VU option \<Rightarrow> string \<Rightarrow>
    (Response \<times> 'v VU option \<times> observation list \<times> Failure list) option" where
  "http_Delete L mh E c vu rawURL = http_Do L mh E c vu (zero_Request\<lparr>rq_Method := ''DELETE'', rq_URL := rawURL\<rparr>)"

subsection \<open>Bodies are read to the end\<close>

text \<open>
  Every byte of a body is consumed and counted whatever is kept of it: nothing under
  \<open>DiscardBody\<close>, and otherwise the first \<open>MaxBodyBytes\<close> bytes; the body counts as truncated
  exactly when there was more, and an error of the reader is reported.
\<close>

lemma readBody_eq:
  "readBody opts r =
     (\<lparr>rd_consumed = int (length (br_data r)),
       rd_buffered = (if ho_DiscardBody opts then [] else take (nat (ho_MaxBodyBytes opts)) (br_data r))\<rparr>,
      \<not> ho_DiscardBody opts \<and> length (br_data r) > nat (ho_MaxBodyBytes opts), br_err r)"
  by (auto simp: readBody_def Let_def min_def)

subsection \<open>Excerpts are bounded\<close>

lemma encode_rune_length: "length (encode_rune r) \<le> 4"
  by (simp add: encode_rune_def)

lemma truncate_loop_length: "length b \<le> MaxFailureMessage + 3 \<Longrightarrow> length (truncate_loop prnt b space rs) \<le> MaxFailureMessage + 7"
proof (induction prnt b space rs rule: truncate_loop.induct)
  case (2 prnt b space r rs)
  let ?b = "if space \<and> length b > 0 then b @ '' '' else b"
  have l: "length ?b \<le> MaxFailureMessage + 4" using "2.prems" by simp
  consider "IsSpace r" | "\<not> IsSpace r" "\<not> prnt r" | "\<not> IsSpace r" "prnt r" "length ?b \<ge> MaxFailureMessage"
    | "\<not> IsSpace r" "prnt r" "length ?b < MaxFailureMessage" by linarith
  then show ?case
  proof cases
    case 3 then show ?thesis using l by (simp add: ellipsis_def Let_def)
  next
    case 4
    then have "length (?b @ encode_rune r) \<le> MaxFailureMessage + 3" using encode_rune_length[of r] by simp
    then have "length (truncate_loop prnt (?b @ encode_rune r) False rs) \<le> MaxFailureMessage + 7" using "2.IH"(3) 4 by simp
    then show ?thesis using 4 by (simp only: truncate_loop.simps Let_def not_le[symmetric] if_False simp_thms)
  qed (use 2 in simp_all)
qed simp

lemma decode_rune_bound: "fst (decode_rune bs) < 0x140000"
proof (cases bs)
  case (Cons b0 cs)
  have s: "second_ok b0 b1 \<Longrightarrow> b1 - 128 \<le> 63" for b1 by (auto simp: second_ok_def cont_def split: if_splits)
  have c: "cont b \<Longrightarrow> b - 128 \<le> 63" for b by (auto simp: cont_def)
  show ?thesis unfolding Cons by (auto simp: rune_error_def split: list.splits dest!: s c)
qed (simp add: rune_error_def)

lemma go_runes_bound: "r \<in> set (go_runes s) \<Longrightarrow> r < 0x140000"
proof -
  have "r \<in> set (runes_of bs) \<Longrightarrow> r < 0x140000" for bs
  proof (induction bs rule: runes_of.induct)
    case (2 b bs)
    then show ?case using decode_rune_bound[of "b # bs"] by auto
  qed simp
  then show "r \<in> set (go_runes s) \<Longrightarrow> r < 0x140000" by (simp add: go_runes_def)
qed

lemma encode_rune_newline: "r < 0x140000 \<Longrightarrow> CHR 0x0A \<in> set (encode_rune r) \<Longrightarrow> r = 10"
proof -
  have eq: "CHR 0x0A = char_of n \<longleftrightarrow> n mod 256 = 10" for n :: nat
  proof -
    have "char_of (10 :: nat) = CHR 0x0A" by (simp add: char_of_def bit_0)
    then show ?thesis by (metis char_of_eq_iff of_char_of mod_less numeral_less_iff semiring_norm(75,76,78,80,81))
  qed
  assume "r < 0x140000" "CHR 0x0A \<in> set (encode_rune r)"
  then show "r = 10" by (auto simp: encode_rune_def eq split: if_splits)
qed

lemma truncate_loop_line:
  "\<forall>r \<in> set rs. r < 0x140000 \<Longrightarrow> CHR 0x0A \<notin> set b \<Longrightarrow> CHR 0x0A \<notin> set (truncate_loop prnt b space rs)"
proof (induction prnt b space rs rule: truncate_loop.induct)
  case (2 prnt b space r rs)
  let ?b = "if space \<and> length b > 0 then b @ '' '' else b"
  have b: "CHR 0x0A \<notin> set ?b" using "2.prems" by simp
  consider "IsSpace r" | "\<not> IsSpace r" "\<not> prnt r" | "\<not> IsSpace r" "prnt r" "length ?b \<ge> MaxFailureMessage"
    | "\<not> IsSpace r" "prnt r" "\<not> length ?b \<ge> MaxFailureMessage" by linarith
  then show ?case
  proof cases
    case 3 then show ?thesis using b by (simp add: ellipsis_def Let_def char_of_def bit_0)
  next
    case 4
    have "CHR 0x0A \<notin> set (?b @ encode_rune r)" using encode_rune_newline[of r] 4(1) "2.prems"(1) b by (auto simp: IsSpace_def)
    then have "CHR 0x0A \<notin> set (truncate_loop prnt (?b @ encode_rune r) False rs)" using "2.IH"(3) 4 "2.prems"(1) by simp
    then show ?thesis using 4 by (simp only: truncate_loop.simps Let_def if_False simp_thms)
  qed (use 2 in simp_all)
qed simp

definition error_classes :: "string list" where
  "error_classes = [[], ''timeout'', ''canceled'', ''eof'', ''connection_refused'', ''connection_reset'', ''dns'', ''tls'',
     ''too_many_redirects'', ''unknown'']"

lemma classifyError_class: "classifyError e \<in> set error_classes"
  by (auto simp: classifyError_def error_classes_def Let_def split: option.splits)

text \<open>
  A failure report is bounded whatever the server sent: its error class is one of ten, and its
  excerpt is one line of at most 247 bytes, 240 and what the last character and the ellipsis add.
\<close>

theorem reportFailure_bounded:
  "fl_ErrorClass (reportFailure L name req resp) \<in> set error_classes \<and>
   length (fl_Message (reportFailure L name req resp)) \<le> MaxFailureMessage + 7 \<and>
   CHR 0x0A \<notin> set (fl_Message (reportFailure L name req resp))"
proof -
  have "length (TruncateMessage p t) \<le> MaxFailureMessage + 7" for p t
    using truncate_loop_length[of "[]"] by (simp add: TruncateMessage_def Let_def)
  moreover have "CHR 0x0A \<notin> set (TruncateMessage p t)" for p t
    using truncate_loop_line[of "go_runes (TrimSpace t)" "[]"] go_runes_bound by (auto simp: TruncateMessage_def Let_def)
  ultimately show ?thesis using classifyError_class by (simp add: reportFailure_def)
qed

subsection \<open>Names are of low cardinality\<close>

lemma join_split: "strings_Join [c] (split_at c s) = s"
proof (induction s)
  case (Cons x xs)
  have ne: "split_at c ys \<noteq> []" for ys by (cases ys) (auto split: list.splits)
  show ?case
  proof (cases "x = c")
    case True
    obtain w ws where "split_at c xs = w # ws" using ne by (cases "split_at c xs") auto
    then show ?thesis using Cons True by simp
  next
    case False
    obtain w ws where w: "split_at c xs = w # ws" using ne by (cases "split_at c xs") auto
    then show ?thesis using Cons False by (cases ws) auto
  qed
qed simp

lemma runes_of_ascii: "list_all (\<lambda>b. b < 128) bs \<Longrightarrow> runes_of bs = bs"
  by (induction bs) simp_all

lemma dec_digits_identifier: "looksLikeIdentifier (dec_digits n)"
proof -
  have a: "list_all (\<lambda>c. rune_digit (byte c)) (dec_digits n)"
    using dec_digits_all[of n] by (simp add: list_all_iff is_digit_def rune_digit_def byte_def)
  then have "go_runes (dec_digits n) = map byte (dec_digits n)"
    unfolding go_runes_def by (intro runes_of_ascii) (auto simp: list_all_iff rune_digit_def)
  then have "count_runes rune_digit (dec_digits n) = length (dec_digits n)"
    using a by (simp add: count_runes_def filter_map comp_def list_all_iff)
  then show ?thesis by (simp add: looksLikeIdentifier_def Let_def)
qed

definition same_shape :: "string \<Rightarrow> string \<Rightarrow> bool" where
  "same_shape p q \<longleftrightarrow>
     list_all2 (\<lambda>a b. a = b \<or> looksLikeIdentifier a \<and> looksLikeIdentifier b) (split_at (CHR ''/'') p) (split_at (CHR ''/'') q)"

lemma same_shape_root:
  assumes "same_shape p q" "p = [] \<or> p = ''/''"
  shows "q = p"
proof -
  have "split_at (CHR ''/'') p = [[]] \<or> split_at (CHR ''/'') p = [[], []]" using assms(2) by auto
  then have "split_at (CHR ''/'') q = split_at (CHR ''/'') p"
    using assms(1) by (auto simp: same_shape_def list_all2_Cons1 looksLikeIdentifier_def)
  then show ?thesis using join_split[of "CHR ''/''" p] join_split[of "CHR ''/''" q] by simp
qed

text \<open>
  Requests that differ only in identifiers share one name: two paths whose segments agree
  wherever they are not both identifiers get the same derived name, and every number is an
  identifier, so all the orders of \<open>/orders/1\<close>, \<open>/orders/2\<close> and so on make one series.
\<close>

theorem DeriveRequestName_collapses:
  assumes "same_shape p q"
  shows "DeriveRequestName m p = DeriveRequestName m q \<and> looksLikeIdentifier (dec_digits n)"
proof -
  have "same_shape q p" using assms unfolding same_shape_def by (subst list.rel_flip[symmetric], unfold conversep_iff, elim list_all2_mono) auto
  then have root: "(p = [] \<or> p = ''/'') \<longleftrightarrow> (q = [] \<or> q = ''/'')"
    using same_shape_root[OF assms] same_shape_root[of q p] by blast
  have "map (\<lambda>seg. if looksLikeIdentifier seg then ''*'' else seg) (split_at (CHR ''/'') p) =
        map (\<lambda>seg. if looksLikeIdentifier seg then ''*'' else seg) (split_at (CHR ''/'') q)"
    using assms unfolding same_shape_def by (induction rule: list_all2_induct) auto
  then show ?thesis unfolding DeriveRequestName_def root by (simp only: dec_digits_identifier simp_thms)
qed

theorem DeriveRequestName_collapses_witness:
  "DeriveRequestName ''GET'' ''/orders/17/items'' = DeriveRequestName ''GET'' ''/orders/4211/items'' \<and> looksLikeIdentifier (dec_digits 7)"
proof -
  have d: "looksLikeIdentifier ''17''" "looksLikeIdentifier ''4211''"
    by (simp_all add: looksLikeIdentifier_def Let_def count_runes_def go_runes_def byte_def rune_digit_def)
  have "same_shape ''/orders/17/items'' ''/orders/4211/items''" by (simp add: same_shape_def d)
  then show ?thesis by (rule DeriveRequestName_collapses)
qed

subsection \<open>Every request is followed by its pause\<close>

text \<open>A generator that keeps the contract of \<open>Int64N\<close>, and a wait that the think time can hold.\<close>

definition pacing_ok :: "'u do_env \<Rightarrow> Pause \<Rightarrow> 'v VU \<Rightarrow> bool" where
  "pacing_ok E p vu \<longleftrightarrow>
     0 < pz_Min p \<and> pz_Min p \<le> pz_Max p \<and> (\<forall>n > 0. 0 \<le> de_rnd E n \<and> de_rnd E n < n) \<and> 0 \<le> de_late E \<and>
     0 \<le> vu_thinkTime vu \<and> vu_thinkTime vu + pz_Max p + de_late E < 2 ^ 63"

lemma pause_drawn:
  assumes "pacing_ok E p vu"
  obtains d where "pause_Duration p (Some (de_rnd E)) = Some d" "pz_Min p \<le> d" "d \<le> pz_Max p" "\<not> pause_IsZero p"
proof -
  have p: "0 < pz_Min p" "pz_Min p \<le> pz_Max p" "\<And>n. 0 < n \<Longrightarrow> 0 \<le> de_rnd E n \<and> de_rnd E n < n" "pz_Max p < 2 ^ 63"
    using assms by (auto simp: pacing_ok_def)
  show thesis
  proof (cases "pz_Max p \<le> pz_Min p")
    case True
    then show thesis using p(1,2) by (intro that) (auto simp: pause_Duration_def pause_IsZero_def)
  next
    case False
    define w where "w = pz_Max p - pz_Min p"
    have w: "i64 w = w" "0 < w" using p(1,4) False by (auto simp: w_def i64_small)
    then have r: "0 \<le> de_rnd E w" "de_rnd E w < w" using p(3) by auto
    have "i64 (pz_Min p + de_rnd E w) = pz_Min p + de_rnd E w" using p(1,4) r by (intro i64_small) (auto simp: w_def)
    then show thesis using p(1,2) False w r
      by (intro that[of "pz_Min p + de_rnd E w"]) (auto simp: pause_Duration_def pause_IsZero_def Let_def w_def)
  qed
qed

lemma pace_waits:
  assumes "pacing_ok E (request_pause opts req) vu"
  shows "\<exists>vu'. pace E opts None req (Some vu) = Some (Some vu') \<and>
    vu_thinkTime vu + pz_Min (request_pause opts req) \<le> vu_thinkTime vu'"
proof -
  obtain d where d: "pause_Duration (request_pause opts req) (Some (de_rnd E)) = Some d" "pz_Min (request_pause opts req) \<le> d"
    "d \<le> pz_Max (request_pause opts req)" "\<not> pause_IsZero (request_pause opts req)" using pause_drawn[OF assms] by blast
  have "0 < d" "0 \<le> de_late E" "i64 (vu_thinkTime vu + (d + de_late E)) = vu_thinkTime vu + (d + de_late E)"
    using assms d(2,3) by (auto simp: pacing_ok_def intro!: i64_small)
  then show ?thesis using d by (simp add: pace_def Let_def Think_def think_slept_def)
qed

text \<open>The two ways a call ends: refused before the network, or exchanged, recorded and paced.\<close>

lemma http_Do_cases:
  obtains (refused) e where "http_Do L mh E c (Some vu) req =
      map_option (\<lambda>vu'. (zero_Response\<lparr>rs_Err := Some e\<rparr>, vu', [], [])) (pace E (hc_opts c) (de_done E) req (Some vu))"
  | (exchanged) name resp where "http_Do L mh E c (Some vu) req =
      map_option (\<lambda>vu'. (resp, vu', http_record L mh (de_reports E) (hc_opts c) (Some vu) name (if rq_Method req = [] then req\<lparr>rq_Method := ''GET''\<rparr> else req) resp))
        (pace E (hc_opts c) (if rq_Timeout req > 0 then with_deadline (de_done E) (de_called E + rq_Timeout req) else de_done E) req (Some vu))"
proof -
  define rq where "rq = (if rq_Method req = [] then req\<lparr>rq_Method := ''GET''\<rparr> else req)"
  have f: "rq_BetweenRequests rq = rq_BetweenRequests req" "rq_Timeout rq = rq_Timeout req" by (simp_all add: rq_def)
  then have rp: "request_pause opts rq = request_pause opts req" for opts by (simp add: request_pause_def)
  have p: "pace E opts ctx rq = pace E opts ctx req" for opts ctx by (rule ext) (simp only: pace_def rp)
  show thesis
  proof (cases "resolve L c (rq_URL rq) (rq_Query rq)")
    case (Inl e)
    show thesis by (rule refused[of e]) (simp add: http_Do_def Inl p flip: rq_def)
  next
    case target: (Inr target)
    show thesis
    proof (cases "encodeBody (hl_json L) rq")
      case (Inl e)
      show thesis by (rule refused[of e]) (simp add: http_Do_def Inl target p flip: rq_def)
    next
      case (Inr bc)
      define name where "name = (if rq_Name rq = [] then DeriveRequestName (rq_Method rq) (hl_Path L target) else rq_Name rq)"
      define ctx where "ctx = (if rq_Timeout req > 0 then with_deadline (de_done E) (de_called E + rq_Timeout req) else de_done E)"
      define resp where "resp = execute L E c rq target (fst bc) (snd bc) ctx"
      show thesis
        by (rule exchanged[of resp name])
          (simp add: http_Do_def Inr target p f case_prod_beta Let_def name_def ctx_def resp_def flip: rq_def)
    qed
  qed
qed

lemma Do_paces:
  assumes "pacing_ok E (request_pause (hc_opts c) req) vu" "rq_Timeout req \<le> 0" "de_done E = None"
  shows "\<exists>resp vu' obs fails. http_Do L mh E c (Some vu) req = Some (resp, Some vu', obs, fails) \<and>
    vu_thinkTime vu + pz_Min (request_pause (hc_opts c) req) \<le> vu_thinkTime vu'"
proof -
  obtain vu' where v: "pace E (hc_opts c) None req (Some vu) = Some (Some vu')"
    "vu_thinkTime vu + pz_Min (request_pause (hc_opts c) req) \<le> vu_thinkTime vu'" using pace_waits[OF assms(1)] by blast
  show ?thesis
    by (rule http_Do_cases[of L mh E c vu req]) (use assms(2,3) v in \<open>auto simp: prod_eq_iff\<close>)
qed

text \<open>
  C37. A request that used up its own timeout is not paced: the pause runs under the request's
  deadline, so when that has passed the wait ends at once, however long the run's pause is.
\<close>

theorem timeout_skips_pause:
  assumes "0 < rq_Timeout req" and "de_called E + rq_Timeout req \<le> de_pausing E" and "de_late E = 0"
    and "in_i64 (vu_thinkTime vu)" and "http_Do L mh E c (Some vu) req = Some (resp, vu', obs, fails)" and "obs \<noteq> []"
  shows "vu' = Some vu"
proof -
  let ?ctx = "with_deadline (de_done E) (de_called E + rq_Timeout req)"
  obtain t where t: "?ctx = Some t" "t \<le> de_pausing E" using assms(2) by (cases "de_done E") (auto simp: with_deadline_def)
  have "Think vu d (think_slept E ?ctx d) = vu" for d using t assms(3,4) by (auto simp: Think_def think_slept_def max_def i64_id)
  then have p: "pace E (hc_opts c) ?ctx req (Some vu) = Some v \<Longrightarrow> v = Some vu" for v
    by (auto simp: pace_def Let_def split: if_splits option.splits)
  show ?thesis
  proof (cases rule: http_Do_cases[of L mh E c vu req])
    case (refused e)
    then show ?thesis using assms(5,6) unfolding refused by auto
  next
    case (exchanged name r)
    then show ?thesis using p assms(1,5) unfolding exchanged by auto
  qed
qed

text \<open>A URL library on plain strings, a client of the default options, and a server that never answers in time.\<close>

definition demo_lib :: "string http_lib" where
  "demo_lib = \<lparr>hl_Parse = Inr, hl_Scheme = (\<lambda>_. ''http''), hl_Host = (\<lambda>_. ''h''), hl_Path = (\<lambda>u. u), hl_Query = (\<lambda>_. []),
     hl_set_RawQuery = (\<lambda>u q. u @ ''?'' @ q), hl_ResolveReference = (\<lambda>b u. u), hl_String = (\<lambda>u. u), hl_RequestURI = (\<lambda>u. u),
     hl_StatusText = (\<lambda>_. []), hl_quote = (\<lambda>s. s), hl_IsPrint = (\<lambda>r. 32 \<le> r), hl_ToUpper = (\<lambda>r. r), hl_ToLower = (\<lambda>r. r),
     hl_json = \<lparr>jc_Unmarshal = (\<lambda>_. None), jc_Marshal = (\<lambda>_. None), jc_FormatFloat = (\<lambda>_. [])\<rparr>\<rparr>"

definition zero_HTTPOptions :: HTTPOptions where
  "zero_HTTPOptions = \<lparr>ho_BaseURL = [], ho_Timeout = 0, ho_Headers = [], ho_UserAgent = [], ho_InsecureSkipTLSVerify = False,
     ho_MaxIdleConnsPerHost = 0, ho_DisableKeepAlives = False, ho_DisableCompression = False, ho_FollowRedirects = False,
     ho_MaxRedirects = 0, ho_IsolatePerVU = False, ho_DiscardBody = False, ho_MaxBodyBytes = 0, ho_Trace = None, ho_Proxy = [],
     ho_IsSuccess = None, ho_BetweenRequests = NewPause 0, ho_NoBetweenRequests = False\<rparr>"

definition demo_http_client :: "string HTTPClient" where
  "demo_http_client = (case NewHTTPClientFactory demo_lib zero_HTTPOptions of Inr f \<Rightarrow> factory_New f)"

definition demo_exchange :: "string do_env" where
  "demo_exchange = \<lparr>de_transport = (\<lambda>_. Inl ((plain_error ''deadline'')\<lparr>ge_deadline := True\<rparr>)),
     de_trace = \<lparr>tc_connectStart = zero_time, tc_connectDone = zero_time, tc_tlsStart = zero_time, tc_tlsDone = zero_time,
       tc_firstByte = zero_time, tc_reused = False\<rparr>,
     de_called = 10, de_start = 11, de_finish = 18, de_pausing = 20, de_done = None, de_rnd = (\<lambda>_. 0), de_late = 0, de_reports = True\<rparr>"

definition demo_vu :: "nat VU" where
  "demo_vu = NewVU (\<lambda>_. 0) 1 0 \<lparr>sh_Index = 0, sh_Count = 1\<rparr> [] no_labels"

definition demo_request :: Request where
  "demo_request = zero_Request\<lparr>rq_URL := ''/slow'', rq_Timeout := 5\<rparr>"

lemma demo_http_client_opts: "ho_IsSuccess (hc_opts demo_http_client) = Some DefaultIsSuccess" "ho_BetweenRequests (hc_opts demo_http_client) = NewPause time_Second"
  by (simp_all add: demo_http_client_def NewHTTPClientFactory_def zero_HTTPOptions_def applyDefaults_def http_defaults parse_base_def
    parse_proxy_def factory_New_def NewPause_def pause_IsZero_def DefaultBetweenRequests_def Let_def)

lemma demo_Do:
  obtains resp vu obs fails where "http_Do demo_lib (\<lambda>_. 0) demo_exchange demo_http_client (Some demo_vu) demo_request = Some (resp, vu, obs, fails)"
    "obs \<noteq> []"
proof -
  have r: "resolve demo_lib c ''/slow'' [] = Inr ''/slow''" for c by (simp add: resolve_def demo_lib_def)
  have q: "rq_Method demo_request = []" "rq_URL demo_request = ''/slow''" "rq_Query demo_request = []" "rq_BetweenRequests demo_request = None"
    by (simp_all add: demo_request_def zero_Request_def)
  have e: "encodeBody J (demo_request\<lparr>rq_Method := ''GET''\<rparr>) = Inr ([], [])" for J
    by (simp add: encodeBody_def demo_request_def zero_Request_def)
  have p: "\<exists>v. pace demo_exchange (hc_opts demo_http_client) ctx (demo_request\<lparr>rq_Method := ''GET''\<rparr>) (Some demo_vu) = Some v" for ctx
    by (simp add: pace_def request_pause_def q demo_http_client_opts NewPause_def pause_IsZero_def pause_Duration_def)
  have o: "fst (http_record L mh b opts (Some vu) name req resp) \<noteq> []" for L :: "string http_lib" and mh b opts and vu :: "nat VU" and name req resp
    by (simp add: http_record_def Let_def)
  show thesis
    using that p o by (simp add: http_Do_def q r e case_prod_beta Let_def) (metis fst_conv option.map(2) prod.collapse)
qed

theorem timeout_skips_pause_witness:
  "\<exists>resp obs fails. http_Do demo_lib (\<lambda>_. 0) demo_exchange demo_http_client (Some demo_vu) demo_request = Some (resp, Some demo_vu, obs, fails)"
proof -
  obtain resp vu obs fails where d: "http_Do demo_lib (\<lambda>_. 0) demo_exchange demo_http_client (Some demo_vu) demo_request = Some (resp, vu, obs, fails)"
    "obs \<noteq> []" by (rule demo_Do)
  have "vu = Some demo_vu"
    by (rule timeout_skips_pause[OF _ _ _ _ d])
      (simp_all add: demo_request_def zero_Request_def demo_exchange_def demo_vu_def NewVU_def in_i64_def)
  then show ?thesis using d(1) by blast
qed

lemma Do_accounting:
  assumes "http_Do L mh E c (Some vu) req = Some (resp, vu', obs, fails)" and "de_reports E"
  shows "(obs = [] \<and> fails = [] \<and> rs_Err resp \<noteq> None) \<or>
    (\<exists>l. [x \<leftarrow> obs. fst x = MetricHTTPReqs] = [(MetricHTTPReqs, l, Count (Fin 1))] \<and>
         [x \<leftarrow> obs. fst x = MetricHTTPReqDuration] = [(MetricHTTPReqDuration, l, Trend (msOf (rs_Duration resp)))] \<and>
         [x \<leftarrow> obs. fst x = MetricHTTPReqFailed] = [(MetricHTTPReqFailed, l, Rate (fails \<noteq> []))] \<and>
         length fails \<le> 1 \<and> (rs_Err resp \<noteq> None \<longrightarrow> fails \<noteq> []))"
proof (cases rule: http_Do_cases[of L mh E c vu req])
  case (refused e)
  show ?thesis using assms(1) unfolding refused by auto
next
  case (exchanged name r)
  define rq where "rq = (if rq_Method req = [] then req\<lparr>rq_Method := ''GET''\<rparr> else req)"
  define l where "l = request_labels mh (vu_iterTag vu) name rq resp"
  have "http_record L mh True (hc_opts c) (Some vu) name rq resp = (obs, fails)"
    using assms unfolding exchanged by (auto simp: rq_def)
  then have o: "obs = fst (http_record L mh True (hc_opts c) (Some vu) name rq resp)"
    "fails = (if succeeded (hc_opts c) rq resp then [] else [reportFailure L name rq resp])"
    by (auto simp: http_record_def Let_def)
  show ?thesis
    by (rule disjI2, rule exI[of _ l])
      (simp add: o http_record_def Let_def l_def[symmetric] metric_names MetricHTTPReqBytesIn_def MetricHTTPReqBytesOut_def
        MetricHTTPReqWaiting_def MetricHTTPReqConnecting_def MetricHTTPReqTLS_def succeeded_def)
qed



end
