(* ===== verification/Config.thy ===== *)
theory Config
  imports Http RunState
begin

text \<open>
  \<open>internal/scenario/config.go\<close> and the validation half of \<open>declarative.go\<close>: a test file, its
  checks, the plan made from it, and the configuration a worker recovers from a plan. The YAML library
  is an argument. \<open>Validate\<close> fills in defaults in place, so the checks return the configuration they
  leave beside the error. The lemmas show that a validated configuration stays valid, that a plan holds
  the numbers that were written, and that a worker recovers the configuration the plan was made from.
\<close>

subsection \<open>The configuration\<close>

text \<open>\<open>Duration.UnmarshalYAML\<close> on the decoded text, and \<open>MarshalYAML\<close>.\<close>

definition Duration_UnmarshalYAML :: "string \<Rightarrow> duration option" where
  "Duration_UnmarshalYAML text = (let text = TrimSpace text in if text = [] then Some 0 else ParseDuration text)"

definition Duration_MarshalYAML :: "duration \<Rightarrow> string" where
  "Duration_MarshalYAML d = duration_String d"

record StageConfig =
  sg_Duration :: duration
  sg_Target :: int

record LoadConfig =
  lc_Executor :: string
  lc_VUs :: int
  lc_Duration :: duration
  lc_Stages :: "StageConfig list"
  lc_MaxIterationRate :: int
  lc_Iterations :: u64
  lc_GracefulStop :: duration

record HTTPConfig =
  hg_Timeout :: duration
  hg_Headers :: "(string, string) gomap"
  hg_UserAgent :: string
  hg_InsecureSkipTLSVerify :: bool
  hg_MaxIdleConnsPerHost :: int
  hg_DisableKeepAlives :: bool
  hg_DisableCompression :: bool
  hg_FollowRedirects :: bool
  hg_MaxRedirects :: int
  hg_IsolatePerVU :: bool
  hg_DiscardBody :: bool
  hg_MaxBodyBytes :: int
  hg_Proxy :: string

record Threshold =
  tg_Metric :: string
  tg_Stat :: string
  tg_Op :: string
  tg_Value :: float64
  tg_AbortOnFail :: bool

record StepConfig =
  sf_Name :: string
  sf_Method :: string
  sf_URL :: string
  sf_Get :: string
  sf_Post :: string
  sf_Put :: string
  sf_Patch :: string
  sf_Delete :: string
  sf_Head :: string
  sf_Headers :: "(string, string) gomap"
  sf_Query :: "(string, string) gomap"
  sf_JSON :: "json option"
  sf_Form :: "(string, string) gomap"
  sf_Body :: string
  sf_Expect :: "int list"
  sf_Capture :: "(string, string) gomap"
  sf_Think :: string
  sf_Timeout :: duration
  sf_BetweenRequests :: string

record ScenarioConfig =
  so_Name :: string
  so_Weight :: int
  so_Description :: string
  so_Vars :: "(string, string) gomap"
  so_Steps :: "StepConfig list"

record Config =
  cf_Name :: string
  cf_BaseURL :: string
  cf_Load :: LoadConfig
  cf_HTTP :: HTTPConfig
  cf_Tags :: "(string, string) gomap"
  cf_Thresholds :: "Threshold list"
  cf_WorkersPerAgent :: int
  cf_BetweenRequests :: string
  cf_Scenarios :: "ScenarioConfig list"

record yaml_codec =
  ya_Unmarshal :: "string \<Rightarrow> Config option"
  ya_Marshal :: "Config \<Rightarrow> string option"

definition zero_StepConfig :: StepConfig where
  "zero_StepConfig = \<lparr>sf_Name = [], sf_Method = [], sf_URL = [], sf_Get = [], sf_Post = [], sf_Put = [], sf_Patch = [],
     sf_Delete = [], sf_Head = [], sf_Headers = [], sf_Query = [], sf_JSON = None, sf_Form = [], sf_Body = [], sf_Expect = [],
     sf_Capture = [], sf_Think = [], sf_Timeout = 0, sf_BetweenRequests = []\<rparr>"

definition zero_LoadConfig :: LoadConfig where
  "zero_LoadConfig = \<lparr>lc_Executor = [], lc_VUs = 0, lc_Duration = 0, lc_Stages = [], lc_MaxIterationRate = 0,
     lc_Iterations = 0, lc_GracefulStop = 0\<rparr>"

definition zero_HTTPConfig :: HTTPConfig where
  "zero_HTTPConfig = \<lparr>hg_Timeout = 0, hg_Headers = [], hg_UserAgent = [], hg_InsecureSkipTLSVerify = False,
     hg_MaxIdleConnsPerHost = 0, hg_DisableKeepAlives = False, hg_DisableCompression = False, hg_FollowRedirects = False,
     hg_MaxRedirects = 0, hg_IsolatePerVU = False, hg_DiscardBody = False, hg_MaxBodyBytes = 0, hg_Proxy = []\<rparr>"

definition zero_Config :: Config where
  "zero_Config = \<lparr>cf_Name = [], cf_BaseURL = [], cf_Load = zero_LoadConfig, cf_HTTP = zero_HTTPConfig, cf_Tags = [],
     cf_Thresholds = [], cf_WorkersPerAgent = 0, cf_BetweenRequests = [], cf_Scenarios = []\<rparr>"

subsection \<open>Errors\<close>

datatype step_cfg_error =
    StepThink pause_error
  | ThinkWithRequest
  | ManyShorthands
  | ShorthandAndURL
  | NoURL
  | ManyBodies
  | StepCapture string path_error
  | StepBetweenRequests pause_error

datatype scenario_cfg_error = NameRequired | WeightNegative | StepAt nat step_cfg_error

datatype threshold_cfg_error = UnknownStat string | UnknownOp string | MetricRequired

datatype cfg_error =
    UnknownExecutor string
  | ConstantNeedsEnd
  | StagesNotMeaningful
  | RampNeedsStage
  | StageNeedsDuration nat
  | StageNegativeTarget nat
  | StagesNeverRise
  | RateNegative
  | ScenarioAt nat scenario_cfg_error
  | ScenarioTwice string
  | ConfigBetweenRequests pause_error
  | ThresholdAt nat threshold_cfg_error
  | ThresholdBad threshold_cfg_error
  | CountNegative string int
  | CountTooLarge string int
  | EncodeFailed
  | ParseFailed
  | RecoverFailed cfg_error

subsection \<open>Steps\<close>

definition shorthands :: "StepConfig \<Rightarrow> (string \<times> string) list" where
  "shorthands s = [(''GET'', sf_Get s), (''POST'', sf_Post s), (''PUT'', sf_Put s), (''PATCH'', sf_Patch s),
     (''DELETE'', sf_Delete s), (''HEAD'', sf_Head s)]"

definition hasShorthand :: "StepConfig \<Rightarrow> bool" where
  "hasShorthand s \<longleftrightarrow> list_ex (\<lambda>(m, u). u \<noteq> []) (shorthands s)"

definition step_resolve :: "'u http_lib \<Rightarrow> StepConfig \<Rightarrow> step_cfg_error + string \<times> string" where
  "step_resolve L s =
     (let found = filter (\<lambda>(m, u). u \<noteq> []) (shorthands s);
          (method, target) = (if found = [] then (ToUpper L (sf_Method s), sf_URL s) else last found)
      in if length found > 1 then Inl ManyShorthands
         else if length found = 1 \<and> sf_URL s \<noteq> [] then Inl ShorthandAndURL
         else Inr (if length found = 0 \<and> method = [] then ''GET'' else method, target))"

definition ResolvedRequest :: "'u http_lib \<Rightarrow> StepConfig \<Rightarrow> step_cfg_error + string \<times> string" where
  "ResolvedRequest L s = step_resolve L s"

fun check_captures :: "(string \<times> string) list \<Rightarrow> step_cfg_error option" where
  "check_captures [] = None"
| "check_captures ((name, path) # cs) =
     (case ParsePath path of Inl e \<Rightarrow> Some (StepCapture name e) | Inr _ \<Rightarrow> check_captures cs)"

definition step_validate :: "'u http_lib \<Rightarrow> StepConfig \<Rightarrow> step_cfg_error option" where
  "step_validate L s =
     (if sf_Think s \<noteq> [] then
        (case parseThink (sf_Think s) of
           Inl e \<Rightarrow> Some (StepThink e)
         | Inr _ \<Rightarrow> if sf_URL s \<noteq> [] \<or> sf_Method s \<noteq> [] \<or> hasShorthand s then Some ThinkWithRequest else None)
      else case step_resolve L s of
        Inl e \<Rightarrow> Some e
      | Inr (_, target) \<Rightarrow>
          if target = [] then Some NoURL
          else if (if sf_JSON s \<noteq> None then 1 else 0) + (if length (sf_Form s) > 0 then 1 else 0) + (if sf_Body s \<noteq> [] then 1 else 0) > (1 :: nat)
          then Some ManyBodies
          else case check_captures (sf_Capture s) of
            Some e \<Rightarrow> Some e
          | None \<Rightarrow>
              if sf_BetweenRequests s = [] then None
              else (case ParsePause (sf_BetweenRequests s) of Inl e \<Rightarrow> Some (StepBetweenRequests e) | Inr _ \<Rightarrow> None))"

fun check_steps :: "'u http_lib \<Rightarrow> nat \<Rightarrow> StepConfig list \<Rightarrow> scenario_cfg_error option" where
  "check_steps L i [] = None"
| "check_steps L i (s # ss) = (case step_validate L s of Some e \<Rightarrow> Some (StepAt (i + 1) e) | None \<Rightarrow> check_steps L (i + 1) ss)"

definition scenario_validate :: "'u http_lib \<Rightarrow> ScenarioConfig \<Rightarrow> scenario_cfg_error option" where
  "scenario_validate L s =
     (if so_Name s = [] then Some NameRequired
      else if so_Weight s < 0 then Some WeightNegative
      else check_steps L 0 (so_Steps s))"

subsection \<open>Thresholds and the load\<close>

definition statNames :: "(string, threshold_stat) gomap" where
  "statNames = [(''count'', STAT_COUNT), (''rate'', STAT_RATE), (''avg'', STAT_AVG), (''mean'', STAT_AVG), (''min'', STAT_MIN),
     (''max'', STAT_MAX), (''p50'', STAT_P50), (''med'', STAT_P50), (''p90'', STAT_P90), (''p95'', STAT_P95), (''p99'', STAT_P99),
     (''p999'', STAT_P999)]"

definition opNames :: "(string, threshold_op) gomap" where
  "opNames = [(''<'', OP_LT), (''lt'', OP_LT), (''<='', OP_LTE), (''le'', OP_LTE), (''>'', OP_GT), (''gt'', OP_GT),
     (''>='', OP_GTE), (''ge'', OP_GTE)]"

definition threshold_stat_of :: "'u http_lib \<Rightarrow> Threshold \<Rightarrow> threshold_cfg_error + threshold_stat" where
  "threshold_stat_of L t =
     (case map_of statNames (ToLower L (TrimSpace (tg_Stat t))) of None \<Rightarrow> Inl (UnknownStat (tg_Stat t)) | Some s \<Rightarrow> Inr s)"

definition threshold_op_of :: "'u http_lib \<Rightarrow> Threshold \<Rightarrow> threshold_cfg_error + threshold_op" where
  "threshold_op_of L t =
     (case map_of opNames (ToLower L (TrimSpace (tg_Op t))) of None \<Rightarrow> Inl (UnknownOp (tg_Op t)) | Some p \<Rightarrow> Inr p)"

definition ExecutorConstantVUs :: string where "ExecutorConstantVUs = ''constant-vus''"
definition ExecutorRampingVUs :: string where "ExecutorRampingVUs = ''ramping-vus''"

fun check_stages :: "nat \<Rightarrow> int \<Rightarrow> StageConfig list \<Rightarrow> cfg_error + int" where
  "check_stages i peak [] = Inr peak"
| "check_stages i peak (s # ss) =
     (if sg_Duration s \<le> 0 then Inl (StageNeedsDuration (i + 1))
      else if sg_Target s < 0 then Inl (StageNegativeTarget (i + 1))
      else check_stages (i + 1) (max peak (sg_Target s)) ss)"

definition load_shape :: "LoadConfig \<Rightarrow> cfg_error option \<times> LoadConfig" where
  "load_shape l =
     (if lc_Executor l = ExecutorConstantVUs then
        let l = (if lc_VUs l \<le> 0 then l\<lparr>lc_VUs := 1\<rparr> else l) in
        if lc_Duration l \<le> 0 \<and> lc_Iterations l = 0 then (Some ConstantNeedsEnd, l)
        else if length (lc_Stages l) > 0 then (Some StagesNotMeaningful, l)
        else (None, l)
      else if lc_Executor l = ExecutorRampingVUs then
        if length (lc_Stages l) = 0 then (Some RampNeedsStage, l)
        else (case check_stages 0 0 (lc_Stages l) of
                Inl e \<Rightarrow> (Some e, l)
              | Inr peak \<Rightarrow> if peak = 0 then (Some StagesNeverRise, l) else (None, l))
      else (None, l))"

definition load_validate :: "LoadConfig \<Rightarrow> cfg_error option \<times> LoadConfig" where
  "load_validate l =
     (if lc_Executor l \<notin> {[], ExecutorConstantVUs, ExecutorRampingVUs} then (Some (UnknownExecutor (lc_Executor l)), l)
      else
        let l = (if lc_Executor l = [] then l\<lparr>lc_Executor := ExecutorConstantVUs\<rparr> else l) in
        case load_shape l of
          (Some e, l) \<Rightarrow> (Some e, l)
        | (None, l) \<Rightarrow> if lc_MaxIterationRate l < 0 then (Some RateNegative, l) else (None, l))"

subsection \<open>Validate\<close>

fun check_scenarios :: "'u http_lib \<Rightarrow> nat \<Rightarrow> string list \<Rightarrow> ScenarioConfig list \<Rightarrow> cfg_error option" where
  "check_scenarios L i seen [] = None"
| "check_scenarios L i seen (s # ss) =
     (case scenario_validate L s of
        Some e \<Rightarrow> Some (ScenarioAt (i + 1) e)
      | None \<Rightarrow>
          if so_Name s \<in> set seen then Some (ScenarioTwice (so_Name s))
          else check_scenarios L (i + 1) (so_Name s # seen) ss)"

definition check_threshold :: "'u http_lib \<Rightarrow> Threshold \<Rightarrow> threshold_cfg_error option" where
  "check_threshold L t =
     (case threshold_stat_of L t of
        Inl e \<Rightarrow> Some e
      | Inr _ \<Rightarrow>
          (case threshold_op_of L t of
             Inl e \<Rightarrow> Some e
           | Inr _ \<Rightarrow> if tg_Metric t = [] then Some MetricRequired else None))"

fun check_thresholds :: "'u http_lib \<Rightarrow> nat \<Rightarrow> Threshold list \<Rightarrow> cfg_error option" where
  "check_thresholds L i [] = None"
| "check_thresholds L i (t # ts) =
     (case check_threshold L t of Some e \<Rightarrow> Some (ThresholdAt (i + 1) e) | None \<Rightarrow> check_thresholds L (i + 1) ts)"

definition check_pacing :: "Config \<Rightarrow> cfg_error option" where
  "check_pacing c =
     (if cf_BetweenRequests c = [] then None
      else case ParsePause (cf_BetweenRequests c) of Inl e \<Rightarrow> Some (ConfigBetweenRequests e) | Inr _ \<Rightarrow> None)"

definition config_Validate :: "'u http_lib \<Rightarrow> Config \<Rightarrow> cfg_error option \<times> Config" where
  "config_Validate L c =
     (let c = (if cf_Name c = [] then c\<lparr>cf_Name := ''loadwave''\<rparr> else c);
          (err, load) = load_validate (cf_Load c);
          c = c\<lparr>cf_Load := load\<rparr>
      in case err of
           Some e \<Rightarrow> (Some e, c)
         | None \<Rightarrow>
             (case check_scenarios L 0 [] (cf_Scenarios c) of
                Some e \<Rightarrow> (Some e, c)
              | None \<Rightarrow>
                  (case check_pacing c of
                     Some e \<Rightarrow> (Some e, c)
                   | None \<Rightarrow> (check_thresholds L 0 (cf_Thresholds c), c))))"

definition Parse :: "'u http_lib \<Rightarrow> yaml_codec \<Rightarrow> string \<Rightarrow> cfg_error + Config" where
  "Parse L Y data =
     (case ya_Unmarshal Y data of
        None \<Rightarrow> Inl ParseFailed
      | Some c \<Rightarrow> (case config_Validate L c of (Some e, _) \<Rightarrow> Inl e | (None, c) \<Rightarrow> Inr c))"

subsection \<open>Plans\<close>

definition asUint32 :: "string \<Rightarrow> int \<Rightarrow> cfg_error + u32" where
  "asUint32 field v =
     (if v < 0 then Inl (CountNegative field v)
      else if v > 2 ^ 32 - 1 then Inl (CountTooLarge field v)
      else Inr (word_of_int v))"

fun plan_stages :: "nat \<Rightarrow> StageConfig list \<Rightarrow> cfg_error + stage list" where
  "plan_stages i [] = Inr []"
| "plan_stages i (s # ss) =
     (case asUint32 (''stage '' @ fmt_d (int i + 1) @ '' target'') (sg_Target s) of
        Inl e \<Rightarrow> Inl e
      | Inr target \<Rightarrow>
          (case plan_stages (i + 1) ss of
             Inl e \<Rightarrow> Inl e
           | Inr stages \<Rightarrow> Inr (\<lparr>st_duration = sg_Duration s, st_target = target\<rparr> # stages)))"

definition plan_load :: "LoadConfig \<Rightarrow> u32 \<Rightarrow> u32 \<Rightarrow> cfg_error + load_profile" where
  "plan_load l vus rate =
     (let load = \<lparr>lp_executor = EXECUTOR_TYPE_CONSTANT_VUS, lp_vus = vus, lp_duration = lc_Duration l, lp_stages = [],
            lp_max_iterations_per_second = rate, lp_graceful_stop = lc_GracefulStop l, lp_iterations = lc_Iterations l\<rparr>
      in if lc_Executor l = ExecutorRampingVUs
         then (case plan_stages 0 (lc_Stages l) of
                 Inl e \<Rightarrow> Inl e
               | Inr stages \<Rightarrow> Inr (load\<lparr>lp_executor := EXECUTOR_TYPE_RAMPING_VUS, lp_stages := stages\<rparr>))
         else Inr load)"

fun plan_scenarios :: "'u http_lib \<Rightarrow> ScenarioConfig list \<Rightarrow> cfg_error + (string \<times> u32) list" where
  "plan_scenarios L [] = Inr []"
| "plan_scenarios L (s # ss) =
     (case asUint32 (''scenario '' @ hl_quote L (so_Name s) @ '' weight'') (max 1 (so_Weight s)) of
        Inl e \<Rightarrow> Inl e
      | Inr weight \<Rightarrow>
          (case plan_scenarios L ss of Inl e \<Rightarrow> Inl e | Inr refs \<Rightarrow> Inr ((so_Name s, weight) # refs)))"

fun plan_thresholds :: "'u http_lib \<Rightarrow> Threshold list \<Rightarrow> cfg_error + threshold list" where
  "plan_thresholds L [] = Inr []"
| "plan_thresholds L (t # ts) =
     (case threshold_stat_of L t of
        Inl e \<Rightarrow> Inl (ThresholdBad e)
      | Inr stat \<Rightarrow>
          (case threshold_op_of L t of
             Inl e \<Rightarrow> Inl (ThresholdBad e)
           | Inr cmp \<Rightarrow>
               (case plan_thresholds L ts of
                  Inl e \<Rightarrow> Inl e
                | Inr rest \<Rightarrow> Inr (\<lparr>th_Metric = tg_Metric t, th_Stat = stat, th_Op = cmp, th_Value = tg_Value t,
                                 th_AbortOnFail = tg_AbortOnFail t\<rparr> # rest))))"

definition Plan :: "'u http_lib \<Rightarrow> yaml_codec \<Rightarrow> Config \<Rightarrow> cfg_error + test_plan" where
  "Plan L Y c =
     (case asUint32 ''vus'' (lc_VUs (cf_Load c)) of Inl e \<Rightarrow> Inl e | Inr vus \<Rightarrow>
     (case asUint32 ''maxIterationRate'' (lc_MaxIterationRate (cf_Load c)) of Inl e \<Rightarrow> Inl e | Inr rate \<Rightarrow>
     (case asUint32 ''workersPerAgent'' (cf_WorkersPerAgent c) of Inl e \<Rightarrow> Inl e | Inr workers \<Rightarrow>
     (case plan_load (cf_Load c) vus rate of Inl e \<Rightarrow> Inl e | Inr load \<Rightarrow>
     (case plan_scenarios L (cf_Scenarios c) of Inl e \<Rightarrow> Inl e | Inr refs \<Rightarrow>
     (case plan_thresholds L (cf_Thresholds c) of Inl e \<Rightarrow> Inl e | Inr thresholds \<Rightarrow>
     (case ya_Marshal Y c of None \<Rightarrow> Inl EncodeFailed | Some encoded \<Rightarrow>
        Inr \<lparr>tp_name = cf_Name c, tp_scenarios = refs, tp_load = Some load, tp_thresholds = thresholds, tp_base_url = cf_BaseURL c,
             tp_tags = cf_Tags c, tp_workers_per_agent = workers, tp_config_yaml = encoded\<rparr>)))))))"

definition FromPlan :: "'u http_lib \<Rightarrow> yaml_codec \<Rightarrow> test_plan \<Rightarrow> cfg_error + Config" where
  "FromPlan L Y plan =
     (if tp_config_yaml plan = [] then Inr (zero_Config\<lparr>cf_Name := tp_name plan, cf_BaseURL := tp_base_url plan\<rparr>)
      else case Parse L Y (tp_config_yaml plan) of Inl e \<Rightarrow> Inl (RecoverFailed e) | Inr c \<Rightarrow> Inr c)"

subsection \<open>HTTP settings\<close>

definition BetweenRequestsPause :: "Config \<Rightarrow> Pause" where
  "BetweenRequestsPause c =
     (if cf_BetweenRequests c = [] then NewPause DefaultBetweenRequests
      else case ParsePause (cf_BetweenRequests c) of Inl _ \<Rightarrow> NewPause DefaultBetweenRequests | Inr pause \<Rightarrow> pause)"

definition config_HTTPOptions :: "Config \<Rightarrow> HTTPOptions" where
  "config_HTTPOptions c =
     (let h = cf_HTTP c; headers = foldl (\<lambda>m (k, v). gput k [v] m) [] (hg_Headers h); pause = BetweenRequestsPause c
      in \<lparr>ho_BaseURL = cf_BaseURL c, ho_Timeout = hg_Timeout h, ho_Headers = headers, ho_UserAgent = hg_UserAgent h,
          ho_InsecureSkipTLSVerify = hg_InsecureSkipTLSVerify h, ho_MaxIdleConnsPerHost = hg_MaxIdleConnsPerHost h,
          ho_DisableKeepAlives = hg_DisableKeepAlives h, ho_DisableCompression = hg_DisableCompression h,
          ho_FollowRedirects = hg_FollowRedirects h, ho_MaxRedirects = hg_MaxRedirects h, ho_IsolatePerVU = hg_IsolatePerVU h,
          ho_DiscardBody = hg_DiscardBody h, ho_MaxBodyBytes = hg_MaxBodyBytes h, ho_Trace = None, ho_Proxy = hg_Proxy h,
          ho_IsSuccess = None, ho_BetweenRequests = pause, ho_NoBetweenRequests = pause_IsZero pause\<rparr>)"

subsection \<open>A validated configuration stays valid\<close>

lemma executor_names [simp]:
  "ExecutorRampingVUs \<noteq> ExecutorConstantVUs" "ExecutorConstantVUs \<noteq> ExecutorRampingVUs" "ExecutorConstantVUs \<noteq> []" "ExecutorRampingVUs \<noteq> []"
  "[] \<noteq> ExecutorConstantVUs" "[] \<noteq> ExecutorRampingVUs"
  by (simp_all add: ExecutorConstantVUs_def ExecutorRampingVUs_def)

text \<open>What \<open>validate\<close> promises of a load it accepts.\<close>

definition load_ok :: "LoadConfig \<Rightarrow> bool" where
  "load_ok l \<longleftrightarrow>
     0 \<le> lc_MaxIterationRate l \<and>
     (lc_Executor l = ExecutorConstantVUs \<and> 0 < lc_VUs l \<and> (0 < lc_Duration l \<or> lc_Iterations l \<noteq> 0) \<and> lc_Stages l = [] \<or>
      lc_Executor l = ExecutorRampingVUs \<and> lc_Stages l \<noteq> [] \<and>
        (\<exists>peak. check_stages 0 0 (lc_Stages l) = Inr peak \<and> peak \<noteq> 0))"

lemma load_shape_ok:
  "lc_Executor l \<in> {ExecutorConstantVUs, ExecutorRampingVUs} \<Longrightarrow> load_shape l = (None, l') \<Longrightarrow> 0 \<le> lc_MaxIterationRate l' \<Longrightarrow> load_ok l'"
  by (cases "lc_Executor l = ExecutorConstantVUs")
    (auto simp: load_shape_def load_ok_def Let_def not_le split: if_splits sum.splits)

lemma load_validate_ok: "load_validate l = (None, l') \<Longrightarrow> load_ok l'"
proof -
  assume v: "load_validate l = (None, l')"
  define m where "m = (if lc_Executor l = [] then l\<lparr>lc_Executor := ExecutorConstantVUs\<rparr> else l)"
  have e: "lc_Executor l \<in> {[], ExecutorConstantVUs, ExecutorRampingVUs}" using v by (auto simp: load_validate_def split: if_splits)
  then have "lc_Executor m \<in> {ExecutorConstantVUs, ExecutorRampingVUs}" by (auto simp: m_def)
  moreover have "load_shape m = (None, l')" "0 \<le> lc_MaxIterationRate l'"
    using v e by (auto simp: load_validate_def m_def[symmetric] Let_def split: prod.splits option.splits if_splits)
  ultimately show ?thesis by (rule load_shape_ok)
qed

lemma load_ok_stable: "load_ok l \<Longrightarrow> load_validate l = (None, l)"
  by (auto simp: load_ok_def load_validate_def load_shape_def not_le)

lemma config_Validate_None:
  "config_Validate L c = (None, c') \<longleftrightarrow>
     (\<exists>load. load_validate (cf_Load c) = (None, load) \<and> c' = c\<lparr>cf_Name := (if cf_Name c = [] then ''loadwave'' else cf_Name c), cf_Load := load\<rparr> \<and>
       check_scenarios L 0 [] (cf_Scenarios c) = None \<and> check_pacing c = None \<and> check_thresholds L 0 (cf_Thresholds c) = None)"
proof -
  obtain err load where v: "load_validate (cf_Load c) = (err, load)" by (cases "load_validate (cf_Load c)")
  have p: "check_pacing (c\<lparr>cf_Name := n, cf_Load := l\<rparr>) = check_pacing c" "check_pacing (c\<lparr>cf_Load := l\<rparr>) = check_pacing c" for n l
    by (simp_all add: check_pacing_def)
  show ?thesis by (auto simp: config_Validate_def Let_def v p split: option.splits)
qed

lemma config_Validate_stable: "config_Validate L c = (None, c') \<Longrightarrow> config_Validate L c' = (None, c')"
  unfolding config_Validate_None by (auto dest!: load_validate_ok simp: load_ok_stable check_pacing_def split: if_splits)

text \<open>
  C10. A worker recovers the configuration the plan was made from: with a YAML library that reads back
  what it writes, the configuration validated on the coordinator is the one \<open>FromPlan\<close> returns, its
  second validation included, so the HTTP settings and scenarios of the worker are those that were checked.
\<close>

theorem FromPlan_Plan:
  assumes "config_Validate L c = (None, c')" and "Plan L Y c' = Inr plan"
    and "\<forall>s. ya_Marshal Y c' = Some s \<longrightarrow> s \<noteq> [] \<and> ya_Unmarshal Y s = Some c'"
  shows "FromPlan L Y plan = Inr c' \<and> tp_name plan = cf_Name c' \<and> tp_base_url plan = cf_BaseURL c' \<and> tp_tags plan = cf_Tags c'"
proof -
  obtain s where "ya_Marshal Y c' = Some s" "tp_config_yaml plan = s" "tp_name plan = cf_Name c'" "tp_base_url plan = cf_BaseURL c'"
    "tp_tags plan = cf_Tags c'" using assms(2) by (auto simp: Plan_def split: sum.splits option.splits)
  then show ?thesis using assms(3) config_Validate_stable[OF assms(1)] by (simp add: FromPlan_def Parse_def)
qed

subsection \<open>A plan holds the numbers that were written\<close>

lemma asUint32_Inr: "asUint32 f v = Inr w \<Longrightarrow> uint w = v"
  by (auto simp: asUint32_def uint_word_of_int take_bit_eq_mod split: if_splits)

lemma plan_stages_Inr:
  "plan_stages i ss = Inr stages \<Longrightarrow> map (\<lambda>s. (st_duration s, uint (st_target s))) stages = map (\<lambda>s. (sg_Duration s, sg_Target s)) ss"
  by (induction i ss arbitrary: stages rule: plan_stages.induct) (auto split: sum.splits dest: asUint32_Inr)

lemma plan_scenarios_Inr:
  "plan_scenarios L ss = Inr refs \<Longrightarrow> map (\<lambda>(n, w). (n, uint w)) refs = map (\<lambda>s. (so_Name s, max 1 (so_Weight s))) ss"
  by (induction L ss arbitrary: refs rule: plan_scenarios.induct) (auto split: sum.splits dest: asUint32_Inr)

lemma Plan_Inr:
  assumes "Plan L Y c = Inr plan"
  obtains vus rate load where "uint vus = lc_VUs (cf_Load c)" "uint rate = lc_MaxIterationRate (cf_Load c)"
    "uint (tp_workers_per_agent plan) = cf_WorkersPerAgent c" "plan_load (cf_Load c) vus rate = Inr load" "tp_load plan = Some load"
    "plan_scenarios L (cf_Scenarios c) = Inr (tp_scenarios plan)"
proof -
  obtain vus rate workers load where p: "asUint32 ''vus'' (lc_VUs (cf_Load c)) = Inr vus"
    "asUint32 ''maxIterationRate'' (lc_MaxIterationRate (cf_Load c)) = Inr rate" "asUint32 ''workersPerAgent'' (cf_WorkersPerAgent c) = Inr workers"
    "plan_load (cf_Load c) vus rate = Inr load" "tp_load plan = Some load" "plan_scenarios L (cf_Scenarios c) = Inr (tp_scenarios plan)"
    "tp_workers_per_agent plan = workers"
    using assms by (auto simp: Plan_def split: sum.splits option.splits)
  show thesis using that[OF asUint32_Inr[OF p(1)] asUint32_Inr[OF p(2)] _ p(4-6)] asUint32_Inr[OF p(3)] p(7) by simp
qed

text \<open>
  C21. A plan never runs a different profile from the one written: whenever a plan is made, the VU
  count, the rate, the workers per agent, every stage's duration and target and every scenario's
  weight in it are the numbers of the configuration, none of them wrapped to 32 bits.
\<close>

theorem Plan_keeps_counts:
  assumes "Plan L Y c = Inr plan"
  shows "\<exists>load. tp_load plan = Some load \<and> uint (lp_vus load) = lc_VUs (cf_Load c) \<and>
    uint (lp_max_iterations_per_second load) = lc_MaxIterationRate (cf_Load c) \<and>
    uint (tp_workers_per_agent plan) = cf_WorkersPerAgent c \<and>
    map (\<lambda>s. (st_duration s, uint (st_target s))) (lp_stages load) =
      (if lc_Executor (cf_Load c) = ExecutorRampingVUs then map (\<lambda>s. (sg_Duration s, sg_Target s)) (lc_Stages (cf_Load c)) else []) \<and>
    map (\<lambda>(n, w). (n, uint w)) (tp_scenarios plan) = map (\<lambda>s. (so_Name s, max 1 (so_Weight s))) (cf_Scenarios c)"
proof -
  obtain vus rate load where p: "uint vus = lc_VUs (cf_Load c)" "uint rate = lc_MaxIterationRate (cf_Load c)"
    "uint (tp_workers_per_agent plan) = cf_WorkersPerAgent c" "plan_load (cf_Load c) vus rate = Inr load" "tp_load plan = Some load"
    "plan_scenarios L (cf_Scenarios c) = Inr (tp_scenarios plan)" by (rule Plan_Inr[OF assms])
  show ?thesis using p plan_scenarios_Inr[OF p(6)] by (auto simp: plan_load_def Let_def dest: plan_stages_Inr split: if_splits sum.splits)
qed

subsection \<open>What an executor makes of it\<close>

lemma check_stages_Inr:
  "check_stages i p ss = Inr peak \<Longrightarrow>
   list_all (\<lambda>s. 0 < sg_Duration s \<and> 0 \<le> sg_Target s) ss \<and> p \<le> peak \<and> (peak = p \<or> peak \<in> sg_Target ` set ss)"
  by (induction i p ss rule: check_stages.induct) (auto split: if_splits simp: max_def)

lemma ramp_stages_runs:
  "list_all (\<lambda>s. 0 < st_duration s) ss \<Longrightarrow>
   \<exists>r'. ramp_stages i r ss = Inr r' \<and> r_peak r \<le> r_peak r' \<and> (\<forall>s \<in> set ss. uint (st_target s) \<le> r_peak r')"
proof (induction i r ss rule: ramp_stages.induct)
  case (2 i r s ss)
  define r1 where "r1 = r\<lparr>r_total := i64 (r_total r + st_duration s), r_legs := r_legs r @ [\<lparr>leg_end = i64 (r_total r + st_duration s), leg_target = uint (st_target s)\<rparr>],
    r_peak := (if uint (st_target s) > r_peak r then uint (st_target s) else r_peak r)\<rparr>"
  have "\<exists>r'. ramp_stages (i + 1) r1 ss = Inr r' \<and> r_peak r1 \<le> r_peak r' \<and> (\<forall>s \<in> set ss. uint (st_target s) \<le> r_peak r')"
    unfolding r1_def using 2 by (intro "2.IH") auto
  moreover have "ramp_stages i r (s # ss) = ramp_stages (i + 1) r1 ss" using "2.prems" by (simp add: Let_def r1_def)
  moreover have "r_peak r \<le> r_peak r1" "uint (st_target s) \<le> r_peak r1" by (auto simp: r1_def)
  ultimately show ?case by auto
qed simp

text \<open>
  C24. What passes the checks runs, with one exception: the executor refuses the plan of a validated
  configuration exactly when it is a constant profile with a negative duration, which an iteration
  count lets through \<open>Validate\<close>.
\<close>

theorem validated_plan_runs:
  assumes "config_Validate L c = (None, c')" and "Plan L Y c' = Inr plan"
  shows "(\<exists>e. NewExecutor (tp_load plan) = Inr e) \<longleftrightarrow> \<not> (lc_Executor (cf_Load c') = ExecutorConstantVUs \<and> lc_Duration (cf_Load c') < 0)"
proof -
  obtain vus rate load where p: "uint vus = lc_VUs (cf_Load c')" "plan_load (cf_Load c') vus rate = Inr load" "tp_load plan = Some load"
    by (rule Plan_Inr[OF assms(2)])
  have ok: "load_ok (cf_Load c')" using assms(1) load_validate_ok unfolding config_Validate_None by auto
  show ?thesis
  proof (cases "lc_Executor (cf_Load c') = ExecutorConstantVUs")
    case True
    then show ?thesis using p ok by (auto simp: load_ok_def plan_load_def NewExecutor_def newConstantVUs_def Let_def)
  next
    case False
    then obtain peak where r: "lc_Executor (cf_Load c') = ExecutorRampingVUs" "lc_Stages (cf_Load c') \<noteq> []"
      "check_stages 0 0 (lc_Stages (cf_Load c')) = Inr peak" "peak \<noteq> 0" using ok by (auto simp: load_ok_def)
    obtain stages where s: "plan_stages 0 (lc_Stages (cf_Load c')) = Inr stages" "lp_executor load = EXECUTOR_TYPE_RAMPING_VUS" "lp_stages load = stages"
      using p(2) r(1) by (auto simp: plan_load_def Let_def split: sum.splits)
    define pairs where "pairs = (\<lambda>s. (sg_Duration s, sg_Target s)) ` set (lc_Stages (cf_Load c'))"
    have m: "pairs = (\<lambda>s. (st_duration s, uint (st_target s))) ` set stages"
      using arg_cong[OF plan_stages_Inr[OF s(1)], of set] by (simp add: pairs_def)
    have k: "\<forall>(d, t) \<in> pairs. 0 < d" "\<exists>d. (d, peak) \<in> pairs" "0 < peak"
      using check_stages_Inr[OF r(3)] r(4) by (auto simp: pairs_def list_all_iff)
    have "list_all (\<lambda>s. 0 < st_duration s) stages" using k(1) by (auto simp: m list_all_iff)
    from ramp_stages_runs[OF this, of 0 "\<lparr>r_legs = [], r_total = 0, r_peak = 0\<rparr>"] obtain e where
      e: "ramp_stages 0 \<lparr>r_legs = [], r_total = 0, r_peak = 0\<rparr> stages = Inr e" "\<forall>s \<in> set stages. uint (st_target s) \<le> r_peak e" by auto
    have "0 < r_peak e" "stages \<noteq> []" using k(2,3) e(2) by (auto simp: m)
    then show ?thesis using p(3) s e(1) False by (simp add: NewExecutor_def newRampingVUs_def)
  qed
qed

subsection \<open>A run is paced as it says\<close>

lemma applyDefaults_pause:
  "ho_BetweenRequests (applyDefaults opts) =
     (if ho_NoBetweenRequests opts then \<lparr>pz_Min = 0, pz_Max = 0\<rparr>
      else if pause_IsZero (ho_BetweenRequests opts) then NewPause DefaultBetweenRequests else ho_BetweenRequests opts)"
  by (simp add: applyDefaults_def)

lemma factory_options: "NewHTTPClientFactory L opts = Inr f \<Longrightarrow> hc_opts (factory_New f) = applyDefaults opts"
  by (auto simp: NewHTTPClientFactory_def factory_New_def Let_def split: sum.splits option.splits)

lemma client_pause:
  assumes "NewHTTPClientFactory L (config_HTTPOptions c) = Inr f"
  shows "ho_BetweenRequests (hc_opts (factory_New f)) =
    (if pause_IsZero (BetweenRequestsPause c) then \<lparr>pz_Min = 0, pz_Max = 0\<rparr> else BetweenRequestsPause c)"
  by (simp add: factory_options[OF assms] applyDefaults_pause config_HTTPOptions_def Let_def)


subsection \<open>Witnesses\<close>

definition demo_config :: Config where
  "demo_config = zero_Config\<lparr>cf_Name := ''demo'', cf_Load := zero_LoadConfig\<lparr>lc_Executor := ExecutorConstantVUs, lc_VUs := 3,
     lc_Duration := 10 * time_Second\<rparr>\<rparr>"

definition demo_yaml :: yaml_codec where
  "demo_yaml = \<lparr>ya_Unmarshal = (\<lambda>_. Some demo_config), ya_Marshal = (\<lambda>c. Some ''yaml'')\<rparr>"

lemma demo_config_valid: "config_Validate demo_lib demo_config = (None, demo_config)"
  by (simp add: config_Validate_None demo_config_def zero_Config_def zero_LoadConfig_def load_validate_def load_shape_def check_pacing_def)

lemma demo_config_plan: "\<exists>plan. Plan demo_lib demo_yaml demo_config = Inr plan"
  by (simp add: Plan_def demo_config_def zero_Config_def zero_LoadConfig_def asUint32_def plan_load_def demo_yaml_def Let_def)

theorem FromPlan_Plan_witness: "\<exists>plan. FromPlan demo_lib demo_yaml plan = Inr demo_config \<and> tp_name plan = ''demo''"
proof -
  obtain plan where p: "Plan demo_lib demo_yaml demo_config = Inr plan" using demo_config_plan by blast
  have "FromPlan demo_lib demo_yaml plan = Inr demo_config \<and> tp_name plan = cf_Name demo_config \<and>
      tp_base_url plan = cf_BaseURL demo_config \<and> tp_tags plan = cf_Tags demo_config"
    by (rule FromPlan_Plan[OF demo_config_valid p]) (simp add: demo_yaml_def)
  then show ?thesis by (auto simp: demo_config_def)
qed

theorem Plan_keeps_counts_witness:
  "\<exists>plan load. Plan demo_lib demo_yaml demo_config = Inr plan \<and> tp_load plan = Some load \<and> uint (lp_vus load) = 3"
proof -
  obtain plan where p: "Plan demo_lib demo_yaml demo_config = Inr plan" using demo_config_plan by blast
  from Plan_keeps_counts[OF p] show ?thesis using p by (auto simp: demo_config_def)
qed

theorem validated_plan_runs_witness:
  "\<exists>plan e. Plan demo_lib demo_yaml demo_config = Inr plan \<and> NewExecutor (tp_load plan) = Inr e"
proof -
  obtain plan where p: "Plan demo_lib demo_yaml demo_config = Inr plan" using demo_config_plan by blast
  from validated_plan_runs[OF demo_config_valid p] show ?thesis using p by (auto simp: demo_config_def)
qed


end
