(* ===== verification/Declarative.thy ===== *)
theory Declarative
  imports Config
begin

text \<open>
  \<open>internal/scenario/declarative.go\<close>: the scenarios a test file defines, compiled once and run in
  every iteration. The random numbers, bytes and clock a template reads, the HTTP exchange of each
  step and the waits are arguments of a run. The lemmas show what compiling and registering guarantee
  and what an iteration does up to its first failing step.
\<close>

subsection \<open>Compiled steps\<close>

record cstep =
  cs_name :: string
  cs_method :: string
  cs_url :: "Template option"
  cs_headers :: "(string, Template) gomap"
  cs_query :: "(string, Template) gomap"
  cs_body :: "Template option"
  cs_jsonDoc :: "json option"
  cs_form :: "(string, Template) gomap"
  cs_expect :: "int list"
  cs_capture :: "(string, Path) gomap"
  cs_timeout :: duration
  cs_pace :: "Pause option"
  cs_thinkMin :: duration
  cs_thinkMax :: duration
  cs_isThink :: bool

definition zero_cstep :: cstep where
  "zero_cstep = \<lparr>cs_name = [], cs_method = [], cs_url = None, cs_headers = [], cs_query = [], cs_body = None, cs_jsonDoc = None,
     cs_form = [], cs_expect = [], cs_capture = [], cs_timeout = 0, cs_pace = None, cs_thinkMin = 0, cs_thinkMax = 0, cs_isThink = False\<rparr>"

datatype compile_error =
    BadStep step_cfg_error
  | BadURL template_error
  | BadHeader string template_error
  | BadQuery string template_error
  | BadForm string template_error
  | BadBody template_error

fun compileTemplateMap :: "(string \<times> string) list \<Rightarrow> (string \<times> template_error) + (string, Template) gomap" where
  "compileTemplateMap [] = Inr []"
| "compileTemplateMap ((k, v) # rest) =
     (case ParseTemplate v of
        Inl e \<Rightarrow> Inl (k, e)
      | Inr t \<Rightarrow> (case compileTemplateMap rest of Inl e \<Rightarrow> Inl e | Inr m \<Rightarrow> Inr ((k, t) # m)))"

fun compile_captures :: "(string \<times> string) list \<Rightarrow> step_cfg_error + (string, Path) gomap" where
  "compile_captures [] = Inr []"
| "compile_captures ((name, expr) # rest) =
     (case ParsePath expr of
        Inl e \<Rightarrow> Inl (StepCapture name e)
      | Inr p \<Rightarrow> (case compile_captures rest of Inl e \<Rightarrow> Inl e | Inr m \<Rightarrow> Inr ((name, p) # m)))"

definition templatePath :: "'u http_lib \<Rightarrow> string \<Rightarrow> string" where
  "templatePath L raw =
     (let rest = (case index_of ''?'' raw of Some idx \<Rightarrow> take idx raw | None \<Rightarrow> raw)
      in case hl_Parse L raw of
           Inr u \<Rightarrow> if hl_Path L u \<noteq> [] then hl_Path L u else rest
         | Inl _ \<Rightarrow> rest)"

definition compile_pace :: "string \<Rightarrow> step_cfg_error + Pause option" where
  "compile_pace spec =
     (if spec = [] then Inr None
      else case ParsePause spec of Inl e \<Rightarrow> Inl (StepBetweenRequests e) | Inr p \<Rightarrow> Inr (Some p))"

definition compile_body :: "string \<Rightarrow> template_error + Template option" where
  "compile_body body =
     (if body = [] then Inr None else case ParseTemplate body of Inl e \<Rightarrow> Inl e | Inr t \<Rightarrow> Inr (Some t))"

definition compileStep :: "'u http_lib \<Rightarrow> StepConfig \<Rightarrow> compile_error + cstep" where
  "compileStep L cfg =
     (if sf_Think cfg \<noteq> [] then
        (case parseThink (sf_Think cfg) of
           Inl e \<Rightarrow> Inl (BadStep (StepThink e))
         | Inr (lo, hi) \<Rightarrow> Inr (zero_cstep\<lparr>cs_name := sf_Name cfg, cs_isThink := True, cs_thinkMin := lo, cs_thinkMax := hi\<rparr>))
      else
     (case step_resolve L cfg of Inl e \<Rightarrow> Inl (BadStep e) | Inr (method, target) \<Rightarrow>
     (case ParseTemplate target of Inl e \<Rightarrow> Inl (BadURL e) | Inr url \<Rightarrow>
     (case compileTemplateMap (sf_Headers cfg) of Inl (k, e) \<Rightarrow> Inl (BadHeader k e) | Inr headers \<Rightarrow>
     (case compileTemplateMap (sf_Query cfg) of Inl (k, e) \<Rightarrow> Inl (BadQuery k e) | Inr query \<Rightarrow>
     (case compileTemplateMap (sf_Form cfg) of Inl (k, e) \<Rightarrow> Inl (BadForm k e) | Inr form \<Rightarrow>
     (case compile_body (sf_Body cfg) of Inl e \<Rightarrow> Inl (BadBody e) | Inr body \<Rightarrow>
     (case compile_captures (sf_Capture cfg) of Inl e \<Rightarrow> Inl (BadStep e) | Inr capture \<Rightarrow>
     (case compile_pace (sf_BetweenRequests cfg) of Inl e \<Rightarrow> Inl (BadStep e) | Inr pce \<Rightarrow>
        Inr (zero_cstep\<lparr>
          cs_name := (if sf_Name cfg = [] then DeriveRequestName method (templatePath L (tmpl_String url)) else sf_Name cfg),
          cs_method := method, cs_url := Some url, cs_headers := headers, cs_query := query, cs_body := body,
          cs_jsonDoc := sf_JSON cfg, cs_form := form, cs_expect := sf_Expect cfg, cs_capture := capture,
          cs_timeout := sf_Timeout cfg, cs_pace := pce\<rparr>))))))))))"

subsection \<open>Building scenarios\<close>

record declarative =
  dc_name :: string
  dc_vars :: "(string, string) gomap"
  dc_steps :: "cstep list"

datatype build_error =
    NotRegistered string
  | AlsoRegistered string
  | CompileAt string nat compile_error
  | CompileDefault compile_error
  | BadBaseURL string go_error
  | RegisterFailed scenario_error

text \<open>
  A registry entry of a declarative scenario runs its runner; the runners are kept beside the
  registry, by the scenario's name.
\<close>

type_synonym runners = "(string, declarative) gomap"

fun compile_steps :: "'u http_lib \<Rightarrow> nat \<Rightarrow> StepConfig list \<Rightarrow> nat \<times> compile_error + cstep list" where
  "compile_steps L j [] = Inr []"
| "compile_steps L j (s # ss) =
     (case compileStep L s of
        Inl e \<Rightarrow> Inl (j + 1, e)
      | Inr c \<Rightarrow> (case compile_steps L (j + 1) ss of Inl e \<Rightarrow> Inl e | Inr cs \<Rightarrow> Inr (c # cs)))"

definition build_one :: "'u http_lib \<Rightarrow> scenarios \<times> runners \<Rightarrow> ScenarioConfig \<Rightarrow> build_error + scenarios \<times> runners" where
  "build_one L rr cfg =
     (let (registry, runners) = rr in
      if length (so_Steps cfg) = 0
      then (if scenario_Lookup registry (so_Name cfg) = None then Inl (NotRegistered (so_Name cfg)) else Inr (registry, runners))
      else if scenario_Lookup registry (so_Name cfg) \<noteq> None then Inl (AlsoRegistered (so_Name cfg))
      else case compile_steps L 0 (so_Steps cfg) of
        Inl (j, e) \<Rightarrow> Inl (CompileAt (so_Name cfg) j e)
      | Inr steps \<Rightarrow>
          (case Register registry \<lparr>sc_Name = so_Name cfg, sc_Weight = so_Weight cfg, sc_Description = so_Description cfg, sc_HasRun = True\<rparr> of
             (Some e, _) \<Rightarrow> Inl (RegisterFailed e)
           | (None, registry) \<Rightarrow>
               Inr (registry, gput (so_Name cfg) \<lparr>dc_name = so_Name cfg, dc_vars = so_Vars cfg, dc_steps = steps\<rparr> runners)))"

fun build_all :: "'u http_lib \<Rightarrow> scenarios \<times> runners \<Rightarrow> ScenarioConfig list \<Rightarrow> build_error + scenarios \<times> runners" where
  "build_all L rr [] = Inr rr"
| "build_all L rr (cfg # cfgs) = (case build_one L rr cfg of Inl e \<Rightarrow> Inl e | Inr rr \<Rightarrow> build_all L rr cfgs)"

definition DefaultScenarioName :: string where "DefaultScenarioName = ''default''"

definition registerDefaultScenario :: "'u http_lib \<Rightarrow> Config \<Rightarrow> scenarios \<times> runners \<Rightarrow> build_error + scenarios \<times> runners" where
  "registerDefaultScenario L c rr =
     (case hl_Parse L (cf_BaseURL c) of
        Inl e \<Rightarrow> Inl (BadBaseURL (cf_BaseURL c) e)
      | Inr target \<Rightarrow>
          let path = (if hl_Path L target = [] then ''/'' else hl_Path L target) in
          case compileStep L (zero_StepConfig\<lparr>sf_Name := DeriveRequestName ''GET'' path, sf_Get := path, sf_Expect := [200]\<rparr>) of
            Inl e \<Rightarrow> Inl (CompileDefault e)
          | Inr compiled \<Rightarrow>
              (case Register (fst rr) \<lparr>sc_Name = DefaultScenarioName, sc_Weight = 0,
                  sc_Description = ''Synthesised from --url: a single GET.'', sc_HasRun = True\<rparr> of
                 (Some e, _) \<Rightarrow> Inl (RegisterFailed e)
               | (None, registry) \<Rightarrow>
                   Inr (registry, gput DefaultScenarioName \<lparr>dc_name = DefaultScenarioName, dc_vars = [], dc_steps = [compiled]\<rparr> (snd rr))))"

definition BuildScenarios :: "'u http_lib \<Rightarrow> Config \<Rightarrow> scenarios \<Rightarrow> build_error + scenarios \<times> runners" where
  "BuildScenarios L c registry =
     (if length (cf_Scenarios c) = 0 \<and> scenario_Len registry = 0 \<and> cf_BaseURL c \<noteq> []
      then registerDefaultScenario L c (registry, [])
      else build_all L (registry, []) (cf_Scenarios c))"

subsection \<open>Running an iteration\<close>

text \<open>Where a template stands in a step; each rendering reads its own random numbers and clock.\<close>

datatype site = UrlSite | HeaderSite string | QuerySite string | FormSite string | BodySite | JsonSite "nat list"

record 'u step_env =
  se_ambient :: "site \<Rightarrow> nat \<Rightarrow> ambient"
  se_do :: "'u do_env"
  se_rnd :: "int \<Rightarrow> int"
  se_slept :: duration

text \<open>\<open>renderJSON\<close>; \<open>here\<close> is the position in the document.\<close>

fun renderJSON :: "(nat list \<Rightarrow> nat \<Rightarrow> ambient) \<Rightarrow> nat list \<Rightarrow> json \<Rightarrow> 'v Vars \<Rightarrow> json"
  and render_list :: "(nat list \<Rightarrow> nat \<Rightarrow> ambient) \<Rightarrow> nat list \<Rightarrow> nat \<Rightarrow> json list \<Rightarrow> 'v Vars \<Rightarrow> json list"
  and render_map :: "(nat list \<Rightarrow> nat \<Rightarrow> ambient) \<Rightarrow> nat list \<Rightarrow> nat \<Rightarrow> (string \<times> json) list \<Rightarrow> 'v Vars \<Rightarrow> (string \<times> json) list" where
  "renderJSON A here (JStr typed) vars =
     (if \<not> contains typed ''${'' then JStr typed
      else case ParseTemplate typed of Inl _ \<Rightarrow> JStr typed | Inr tmpl \<Rightarrow> JStr (Render (A here) tmpl vars))"
| "renderJSON A here (JObj typed) vars = JObj (render_map A here 0 typed vars)"
| "renderJSON A here (JArr typed) vars = JArr (render_list A here 0 typed vars)"
| "renderJSON A here JNull vars = JNull"
| "renderJSON A here (JBool b) vars = JBool b"
| "renderJSON A here (JNum x) vars = JNum x"
| "render_list A here i [] vars = []"
| "render_list A here i (v # vs) vars = renderJSON A (i # here) v vars # render_list A here (Suc i) vs vars"
| "render_map A here i [] vars = []"
| "render_map A here i ((k, v) # kvs) vars = (k, renderJSON A (i # here) v vars) # render_map A here (Suc i) kvs vars"

definition render_values :: "(string \<Rightarrow> nat \<Rightarrow> ambient) \<Rightarrow> (values_map \<Rightarrow> string \<Rightarrow> string \<Rightarrow> values_map) \<Rightarrow>
    (string, Template) gomap \<Rightarrow> 'v Vars \<Rightarrow> values_map" where
  "render_values A put ts vars = foldl (\<lambda>m (k, tmpl). put m k (Render (A k) tmpl vars)) [] ts"

text \<open>\<open>url.Values.Set\<close>, which does not change the key.\<close>

definition values_Set :: "values_map \<Rightarrow> string \<Rightarrow> string \<Rightarrow> values_map" where
  "values_Set m k v = gput k [v] m"

definition step_request :: "'u step_env \<Rightarrow> cstep \<Rightarrow> 'v Vars \<Rightarrow> Request" where
  "step_request S s vars =
     zero_Request\<lparr>
       rq_Method := cs_method s,
       rq_URL := (case cs_url s of Some t \<Rightarrow> Render (se_ambient S UrlSite) t vars | None \<Rightarrow> []),
       rq_Name := cs_name s, rq_Timeout := cs_timeout s, rq_ExpectStatus := cs_expect s, rq_BetweenRequests := cs_pace s,
       rq_Header := render_values (\<lambda>k. se_ambient S (HeaderSite k)) header_Set (cs_headers s) vars,
       rq_Query := render_values (\<lambda>k. se_ambient S (QuerySite k)) values_Set (cs_query s) vars,
       rq_Form := render_values (\<lambda>k. se_ambient S (FormSite k)) values_Set (cs_form s) vars,
       rq_Body := (case cs_body s of Some t \<Rightarrow> Render (se_ambient S BodySite) t vars | None \<Rightarrow> []),
       rq_JSON := map_option (\<lambda>doc. renderJSON (\<lambda>p. se_ambient S (JsonSite p)) [] doc vars) (cs_jsonDoc s)\<rparr>"

datatype iteration_error =
    RequestFailed string go_error
  | UnexpectedStatus string "int list" int
  | CaptureFailed string extract_error

fun capture_all :: "platform \<Rightarrow> json_codec \<Rightarrow> string \<Rightarrow> string \<Rightarrow> (string \<times> Path) list \<Rightarrow> 'v Vars \<Rightarrow> iteration_error + 'v Vars" where
  "capture_all P J step body [] vars = Inr vars"
| "capture_all P J step body ((name, path) # rest) vars =
     (case Extract P J path body of
        Inl e \<Rightarrow> Inl (CaptureFailed step e)
      | Inr v \<Rightarrow> capture_all P J step body rest (vars_Set vars name v))"

text \<open>
  What a step leaves: its error or the variables, the virtual user, and what was recorded. The
  request's failure is reported by the client, the check by the step.
\<close>

type_synonym ('v, 'r) outcome = "'r \<times> 'v VU \<times> observation list \<times> Failure list"

text \<open>Expectations and captures, on the response the client gave.\<close>

definition step_expect :: "platform \<Rightarrow> 'u http_lib \<Rightarrow> (string \<Rightarrow> u64) \<Rightarrow> cstep \<Rightarrow> 'v Vars \<Rightarrow> Response \<Rightarrow> 'v VU \<Rightarrow>
    (iteration_error + 'v Vars) \<times> observation list" where
  "step_expect P L mh s vars resp vu =
     (let ok = (rs_StatusCode resp \<in> set (cs_expect s));
          checked = (if cs_expect s \<noteq> [] then snd (Check mh vu (cs_name s) ok) else [])
      in (if cs_expect s \<noteq> [] \<and> \<not> ok then Inl (UnexpectedStatus (cs_name s) (cs_expect s) (rs_StatusCode resp))
          else capture_all P (hl_json L) (cs_name s) (rs_Body resp) (cs_capture s) vars, checked))"

definition runStep :: "platform \<Rightarrow> 'u http_lib \<Rightarrow> (string \<Rightarrow> u64) \<Rightarrow> 'u step_env \<Rightarrow> 'u HTTPClient \<Rightarrow> cstep \<Rightarrow> 'v Vars \<Rightarrow> 'v VU \<Rightarrow>
    ('v, iteration_error + 'v Vars) outcome option" where
  "runStep P L mh S c s vars vu =
     (case http_Do L mh (se_do S) c (Some vu) (step_request S s vars) of
        None \<Rightarrow> None
      | Some (resp, vu', obs, fails) \<Rightarrow>
          let vu' = (case vu' of Some v \<Rightarrow> v | None \<Rightarrow> vu) in
          case rs_Err resp of
            Some e \<Rightarrow> Some (Inl (RequestFailed (cs_name s) e), vu', obs, fails)
          | None \<Rightarrow>
              let (result, checked) = step_expect P L mh s vars resp vu' in
              Some (result, vu', obs @ checked, fails))"

fun run_steps :: "platform \<Rightarrow> 'u http_lib \<Rightarrow> (string \<Rightarrow> u64) \<Rightarrow> (nat \<Rightarrow> 'u step_env) \<Rightarrow> 'u HTTPClient \<Rightarrow> nat \<Rightarrow> cstep list \<Rightarrow> 'v Vars \<Rightarrow> 'v VU \<Rightarrow>
    ('v, iteration_error option) outcome option" where
  "run_steps P L mh S c i [] vars vu = Some (None, vu, [], [])"
| "run_steps P L mh S c i (s # ss) vars vu =
     (if cs_isThink s
      then run_steps P L mh S c (Suc i) ss vars
        (Think vu (think_between (cs_thinkMin s) (cs_thinkMax s) (se_rnd (S i))) (se_slept (S i)))
      else case runStep P L mh (S i) c s vars vu of
        None \<Rightarrow> None
      | Some (Inl e, vu, obs, fails) \<Rightarrow> Some (Some e, vu, obs, fails)
      | Some (Inr vars, vu, obs, fails) \<Rightarrow>
          map_option (\<lambda>(err, vu, obs', fails'). (err, vu, obs @ obs', fails @ fails')) (run_steps P L mh S c (Suc i) ss vars vu))"

definition declarative_run :: "platform \<Rightarrow> 'u http_lib \<Rightarrow> (string \<Rightarrow> u64) \<Rightarrow> (nat \<Rightarrow> 'u step_env) \<Rightarrow> 'u HTTPClient \<Rightarrow> declarative \<Rightarrow> 'v VU \<Rightarrow>
    ('v, iteration_error option) outcome option" where
  "declarative_run P L mh S c d vu = run_steps P L mh S c 0 (dc_steps d) (NewVars (Some vu) (dc_vars d)) vu"

subsection \<open>Compiling what was validated\<close>

fun template_fault :: "compile_error \<Rightarrow> bool" where
  "template_fault (BadStep _) = False"
| "template_fault _ = True"

lemma compile_captures_checked: "check_captures cs = None \<Longrightarrow> \<exists>m. compile_captures cs = Inr m"
  by (induction cs rule: check_captures.induct) (auto split: sum.splits)

lemma compileStep_checked:
  assumes "step_validate L s = None" "compileStep L s = Inl e"
  shows "template_fault e"
proof (cases "sf_Think s = []")
  case False
  then show ?thesis using assms by (auto simp: step_validate_def compileStep_def split: sum.splits)
next
  case True
  obtain verb target where r: "step_resolve L s = Inr (verb, target)" using assms(1) True by (auto simp: step_validate_def split: sum.splits)
  have v: "check_captures (sf_Capture s) = None" "sf_BetweenRequests s \<noteq> [] \<longrightarrow> (\<exists>p. ParsePause (sf_BetweenRequests s) = Inr p)"
    using assms(1) True r by (auto simp: step_validate_def split: if_splits option.splits sum.splits)
  obtain m where m: "compile_captures (sf_Capture s) = Inr m" using compile_captures_checked[OF v(1)] by blast
  have "\<exists>p. compile_pace (sf_BetweenRequests s) = Inr p" using v(2) by (auto simp: compile_pace_def)
  then obtain p where c: "compile_captures (sf_Capture s) = Inr m" "compile_pace (sf_BetweenRequests s) = Inr p" using m by blast
  show ?thesis using assms(2) True r c by (auto simp: compileStep_def split: sum.splits)
qed

lemma compile_steps_checked:
  "check_steps L i ss = None \<Longrightarrow> compile_steps L j ss = Inl (k, e) \<Longrightarrow> template_fault e"
proof (induction L j ss arbitrary: i rule: compile_steps.induct)
  case (2 L j s ss)
  have v: "step_validate L s = None" "check_steps L (i + 1) ss = None" using "2.prems"(1) by (auto split: option.splits)
  show ?case
  proof (cases "compileStep L s")
    case (Inl x) then show ?thesis using compileStep_checked[OF v(1)] "2.prems"(2) by auto
  next
    case (Inr c) then show ?thesis using "2.IH"[OF Inr v(2)] "2.prems"(2) by (auto split: sum.splits)
  qed
qed simp

fun late_fault :: "build_error \<Rightarrow> bool" where
  "late_fault (NotRegistered _) = True"
| "late_fault (AlsoRegistered _) = True"
| "late_fault (CompileAt _ _ e) = template_fault e"
| "late_fault (CompileDefault e) = template_fault e"
| "late_fault (BadBaseURL _ _) = True"
| "late_fault (RegisterFailed (BadName _)) = True"
| "late_fault (RegisterFailed _) = False"

lemma Register_fault: "fst (Register r s) = Some e \<Longrightarrow> sc_HasRun s \<Longrightarrow> 0 \<le> sc_Weight s \<Longrightarrow> map_of r (sc_Name s) = None \<Longrightarrow> late_fault (RegisterFailed e)"
  by (auto simp: Register_def Validate_def split: option.splits if_splits)

lemma build_one_fault:
  "scenario_validate L cfg = None \<Longrightarrow> build_one L rr cfg = Inl e \<Longrightarrow> late_fault e"
  by (auto simp: build_one_def scenario_validate_def scenario_Lookup_def compile_steps_checked Let_def case_prod_beta
    split: if_splits sum.splits option.splits intro!: Register_fault)

lemma build_all_fault:
  "check_scenarios L i seen cfgs = None \<Longrightarrow> build_all L rr cfgs = Inl e \<Longrightarrow> late_fault e"
proof (induction L rr cfgs arbitrary: i seen rule: build_all.induct)
  case (2 L rr cfg cfgs)
  have v: "scenario_validate L cfg = None" "check_scenarios L (i + 1) (so_Name cfg # seen) cfgs = None"
    using "2.prems"(1) by (auto split: option.splits if_splits)
  show ?case
  proof (cases "build_one L rr cfg")
    case (Inl x) then show ?thesis using build_one_fault[OF v(1)] "2.prems"(2) by auto
  next
    case (Inr rr') then show ?thesis using "2.IH"[OF Inr v(2)] "2.prems"(2) by auto
  qed
qed simp

lemma default_fault:
  assumes "registerDefaultScenario L c ([], []) = Inl e"
  shows "late_fault e"
proof -
  have "step_validate L (zero_StepConfig\<lparr>sf_Name := n, sf_Get := p, sf_Expect := [200]\<rparr>) = None" if "p \<noteq> []" for n p
    using that by (simp add: step_validate_def step_resolve_def shorthands_def zero_StepConfig_def)
  note cs = compileStep_checked[OF this]
  show ?thesis
  proof (cases "hl_Parse L (cf_BaseURL c)")
    case (Inl x) then show ?thesis using assms by (auto simp: registerDefaultScenario_def)
  next
    case (Inr u)
    define path where "path = (if hl_Path L u = [] then ''/'' else hl_Path L u)"
    have "path \<noteq> []" by (simp add: path_def)
    then show ?thesis using assms Inr cs[of path "DeriveRequestName ''GET'' path"]
      by (auto simp: registerDefaultScenario_def path_def[symmetric] Let_def case_prod_beta split: sum.splits option.splits intro!: Register_fault)
  qed
qed

text \<open>
  C36. What the validation misses: building the scenarios of a validated configuration can only fail
  for its base URL, for a name the registry rejects, lacks or already has, or for a template that
  does not parse; every other fault of a step is found by \<open>Validate\<close>.
\<close>

theorem validated_build_faults:
  assumes "config_Validate L c = (None, c')" and "BuildScenarios L c' registry = Inl e"
  shows "late_fault e"
proof -
  have v: "check_scenarios L 0 [] (cf_Scenarios c') = None" using assms(1) by (auto simp: config_Validate_None)
  show ?thesis
  proof (cases "length (cf_Scenarios c') = 0 \<and> scenario_Len registry = 0 \<and> cf_BaseURL c' \<noteq> []")
    case True
    then show ?thesis using assms(2) default_fault by (simp add: BuildScenarios_def scenario_Len_def)
  next
    case False
    then have "build_all L (registry, []) (cf_Scenarios c') = Inl e" using assms(2) unfolding BuildScenarios_def by (simp only: if_False)
    then show ?thesis by (rule build_all_fault[OF v])
  qed
qed

definition broken_config :: Config where
  "broken_config = demo_config\<lparr>cf_Scenarios := [\<lparr>so_Name = ''bad'', so_Weight = 1, so_Description = [], so_Vars = [],
     so_Steps = [zero_StepConfig\<lparr>sf_Get := ''${''\<rparr>]\<rparr>]\<rparr>"

theorem validated_build_faults_witness:
  "\<exists>e. config_Validate demo_lib broken_config = (None, broken_config) \<and> BuildScenarios demo_lib broken_config [] = Inl e \<and> late_fault e"
proof -
  have s: "cf_Scenarios broken_config = [\<lparr>so_Name = ''bad'', so_Weight = 1, so_Description = [], so_Vars = [],
     so_Steps = [zero_StepConfig\<lparr>sf_Get := ''${''\<rparr>]\<rparr>]" by (simp add: broken_config_def)
  have v: "config_Validate demo_lib broken_config = (None, broken_config)"
    by (simp add: config_Validate_None broken_config_def demo_config_def zero_Config_def zero_LoadConfig_def load_validate_def load_shape_def
      check_pacing_def scenario_validate_def step_validate_def step_resolve_def shorthands_def zero_StepConfig_def)
  have "ParseTemplate ''${'' = Inl Unterminated" by (simp add: ParseTemplate_def template_loop.simps[of "''${''"])
  then have "\<exists>e. BuildScenarios demo_lib broken_config [] = Inl e"
    by (simp add: BuildScenarios_def s build_one_def scenario_Lookup_def compileStep_def step_resolve_def shorthands_def zero_StepConfig_def)
  then show ?thesis using validated_build_faults[OF v] v by blast
qed

subsection \<open>What building registers\<close>

lemma compile_steps_length: "compile_steps L j ss = Inr cs \<Longrightarrow> length cs = length ss"
  by (induction L j ss arbitrary: cs rule: compile_steps.induct) (auto split: sum.splits)

lemma Register_ok: "Register r s = (None, r') \<Longrightarrow> map_of r' = (map_of r)(sc_Name s \<mapsto> s)"
  by (auto simp: Register_def split: option.splits if_splits)

text \<open>The runner of a scenario the configuration defines.\<close>

definition runner_for :: "ScenarioConfig \<Rightarrow> declarative \<Rightarrow> bool" where
  "runner_for cfg d \<longleftrightarrow> dc_vars d = so_Vars cfg \<and> length (dc_steps d) = length (so_Steps cfg)"

lemma build_one_registers:
  assumes "build_one L (r, ru) cfg = Inr (r', ru')"
  shows "map_of r \<subseteq>\<^sub>m map_of r'" "so_Name cfg \<in> dom (map_of r')" "\<forall>n \<in> dom (map_of r). map_of ru' n = map_of ru n"
    "so_Steps cfg \<noteq> [] \<Longrightarrow> map_of r (so_Name cfg) = None \<and> (\<exists>d. map_of ru' (so_Name cfg) = Some d \<and> runner_for cfg d)"
proof -
  consider (named) "so_Steps cfg = []" "map_of r (so_Name cfg) \<noteq> None" "r' = r" "ru' = ru"
    | (defined) steps where "so_Steps cfg \<noteq> []" "map_of r (so_Name cfg) = None" "compile_steps L 0 (so_Steps cfg) = Inr steps"
        "map_of r' = (map_of r)(so_Name cfg \<mapsto> \<lparr>sc_Name = so_Name cfg, sc_Weight = so_Weight cfg, sc_Description = so_Description cfg, sc_HasRun = True\<rparr>)"
        "ru' = gput (so_Name cfg) \<lparr>dc_name = so_Name cfg, dc_vars = so_Vars cfg, dc_steps = steps\<rparr> ru"
  proof (cases "so_Steps cfg = []")
    case True
    then have "build_one L (r, ru) cfg = (if map_of r (so_Name cfg) = None then Inl (NotRegistered (so_Name cfg)) else Inr (r, ru))"
      by (simp add: build_one_def scenario_Lookup_def)
    then have "map_of r (so_Name cfg) \<noteq> None" "r' = r" "ru' = ru" using assms by (cases "map_of r (so_Name cfg) = None"; simp)+
    with True show thesis by (rule that(1))
  next
    case False
    let ?s = "\<lparr>sc_Name = so_Name cfg, sc_Weight = so_Weight cfg, sc_Description = so_Description cfg, sc_HasRun = True\<rparr>"
    have n: "map_of r (so_Name cfg) = None"
      using assms False by (cases "map_of r (so_Name cfg) = None") (simp_all add: build_one_def scenario_Lookup_def)
    obtain steps where c: "compile_steps L 0 (so_Steps cfg) = Inr steps"
      using assms False n by (cases "compile_steps L 0 (so_Steps cfg)") (auto simp: build_one_def scenario_Lookup_def)
    obtain e r1 where g: "Register r ?s = (e, r1)" by fastforce
    have "build_one L (r, ru) cfg = (case e of Some e \<Rightarrow> Inl (RegisterFailed e)
        | None \<Rightarrow> Inr (r1, gput (so_Name cfg) \<lparr>dc_name = so_Name cfg, dc_vars = so_Vars cfg, dc_steps = steps\<rparr> ru))"
      using False by (simp add: build_one_def scenario_Lookup_def n c g)
    then have e: "e = None" "r1 = r'" "ru' = gput (so_Name cfg) \<lparr>dc_name = so_Name cfg, dc_vars = so_Vars cfg, dc_steps = steps\<rparr> ru"
      using assms by (cases e; simp)+
    have "map_of r' = (map_of r)(so_Name cfg \<mapsto> ?s)" using Register_ok[of r ?s r'] g e(1,2) by simp
    with False n c show thesis using e(3) by (rule that(2))
  qed
  then have "map_of r \<subseteq>\<^sub>m map_of r' \<and> so_Name cfg \<in> dom (map_of r') \<and> (\<forall>n \<in> dom (map_of r). map_of ru' n = map_of ru n) \<and>
    (so_Steps cfg \<noteq> [] \<longrightarrow> map_of r (so_Name cfg) = None \<and> (\<exists>d. map_of ru' (so_Name cfg) = Some d \<and> runner_for cfg d))"
  proof cases
    case named then show ?thesis by auto
  next
    case defined then show ?thesis using compile_steps_length[OF defined(3)] by (auto simp: map_le_def runner_for_def)
  qed
  then show "map_of r \<subseteq>\<^sub>m map_of r'" "so_Name cfg \<in> dom (map_of r')" "\<forall>n \<in> dom (map_of r). map_of ru' n = map_of ru n"
    "so_Steps cfg \<noteq> [] \<Longrightarrow> map_of r (so_Name cfg) = None \<and> (\<exists>d. map_of ru' (so_Name cfg) = Some d \<and> runner_for cfg d)" by blast+
qed

lemma build_all_registers:
  "build_all L (r, ru) cfgs = Inr (r', ru') \<Longrightarrow>
   map_of r \<subseteq>\<^sub>m map_of r' \<and> (\<forall>n \<in> dom (map_of r). map_of ru' n = map_of ru n) \<and>
   (\<forall>cfg \<in> set cfgs. so_Name cfg \<in> dom (map_of r') \<and>
     (so_Steps cfg \<noteq> [] \<longrightarrow> map_of r (so_Name cfg) = None \<and> (\<exists>d. map_of ru' (so_Name cfg) = Some d \<and> runner_for cfg d)))"
proof (induction cfgs arbitrary: r ru)
  case (Cons cfg cfgs)
  then obtain r1 ru1 where b: "build_one L (r, ru) cfg = Inr (r1, ru1)" "build_all L (r1, ru1) cfgs = Inr (r', ru')" by (auto split: sum.splits)
  note one = build_one_registers[OF b(1)]
  have dom: "dom (map_of r) \<subseteq> dom (map_of r1)" "dom (map_of r1) \<subseteq> dom (map_of r')" using one(1) Cons.IH[OF b(2)] map_le_implies_dom_le by blast+
  have "map_of r x = None" if "map_of r1 x = None" for x using dom(1) that by (auto simp: domIff)
  note none = this
  have ih: "map_of r1 \<subseteq>\<^sub>m map_of r'" "\<forall>n \<in> dom (map_of r1). map_of ru' n = map_of ru1 n"
    "\<forall>cfg \<in> set cfgs. so_Name cfg \<in> dom (map_of r') \<and> (so_Steps cfg \<noteq> [] \<longrightarrow>
      map_of r1 (so_Name cfg) = None \<and> (\<exists>d. map_of ru' (so_Name cfg) = Some d \<and> runner_for cfg d))"
    using Cons.IH[OF b(2)] by blast+
  have keep: "\<forall>n \<in> dom (map_of r). map_of ru' n = map_of ru n"
  proof
    fix n assume n: "n \<in> dom (map_of r)"
    then have "n \<in> dom (map_of r1)" using dom(1) by blast
    then show "map_of ru' n = map_of ru n" using one(3) ih(2) n by simp
  qed
  have "so_Name cfg \<in> dom (map_of r')" using one(2) dom(2) by blast
  moreover have "map_of ru' (so_Name cfg) = map_of ru1 (so_Name cfg)" using ih(2) one(2) by blast
  ultimately have hd: "so_Name cfg \<in> dom (map_of r') \<and> (so_Steps cfg \<noteq> [] \<longrightarrow>
      map_of r (so_Name cfg) = None \<and> (\<exists>d. map_of ru' (so_Name cfg) = Some d \<and> runner_for cfg d))"
    using one(4) by simp
  have tl: "\<forall>cfg \<in> set cfgs. so_Name cfg \<in> dom (map_of r') \<and> (so_Steps cfg \<noteq> [] \<longrightarrow>
      map_of r (so_Name cfg) = None \<and> (\<exists>d. map_of ru' (so_Name cfg) = Some d \<and> runner_for cfg d))"
    using ih(3) none by blast
  have "map_of r \<subseteq>\<^sub>m map_of r'" using map_le_trans[OF one(1) ih(1)] .
  with keep hd tl show ?case unfolding list.set(2) ball_simps(7) by blast
qed simp


definition browse_config :: Config where
  "browse_config = demo_config\<lparr>cf_Scenarios := [\<lparr>so_Name = ''browse'', so_Weight = 1, so_Description = [], so_Vars = [],
     so_Steps = [zero_StepConfig\<lparr>sf_Get := ''/''\<rparr>]\<rparr>]\<rparr>"


subsection \<open>What an iteration issues\<close>

abbreviation (input) reqs :: "observation list \<Rightarrow> nat" where
  "reqs obs \<equiv> length [x \<leftarrow> obs. fst x = MetricHTTPReqs]"

lemma http_record_counts: "reqs (fst (http_record L mh b opts (Some vu) name req resp)) = 1"
  "length (snd (http_record L mh b opts (Some vu) name req resp)) \<le> 1"
  by (simp_all add: http_record_def Let_def metric_names MetricHTTPReqBytesOut_def MetricHTTPReqWaiting_def MetricHTTPReqConnecting_def MetricHTTPReqTLS_def)

lemma Do_counts:
  assumes "http_Do L mh E c (Some vu) req = Some (resp, vu', obs, fails)"
  shows "reqs obs \<le> 1 \<and> length fails \<le> reqs obs \<and> (rs_Err resp = None \<longrightarrow> reqs obs = 1)"
proof (cases rule: http_Do_cases[of L mh E c vu req])
  case (refused e)
  show ?thesis using assms unfolding refused by auto
next
  case (exchanged name r)
  define rq where "rq = (if rq_Method req = [] then req\<lparr>rq_Method := ''GET''\<rparr> else req)"
  have "(obs, fails) = http_record L mh (de_reports E) (hc_opts c) (Some vu) name rq r" using assms unfolding exchanged rq_def by auto
  then have rec: "obs = fst (http_record L mh (de_reports E) (hc_opts c) (Some vu) name rq r)"
    "fails = snd (http_record L mh (de_reports E) (hc_opts c) (Some vu) name rq r)" by (metis fst_conv, metis snd_conv)
  show ?thesis unfolding rec http_record_counts(1) using http_record_counts(2) by simp
qed

lemma runStep_counts:
  assumes "runStep P L mh S c s vars vu = Some (r, vu', obs, fails)"
  shows "reqs obs \<le> 1 \<and> length fails \<le> reqs obs \<and> (\<forall>v. r = Inr v \<longrightarrow> reqs obs = 1)"
proof -
  obtain resp vu1 obs1 fails1 where d: "http_Do L mh (se_do S) c (Some vu) (step_request S s vars) = Some (resp, vu1, obs1, fails1)"
    using assms by (cases "http_Do L mh (se_do S) c (Some vu) (step_request S s vars)") (auto simp: runStep_def)
  show ?thesis
  proof (cases "rs_Err resp")
    case (Some e)
    then show ?thesis using assms Do_counts[OF d] by (auto simp: runStep_def d)
  next
    case None
    define v where "v = (case vu1 of Some v \<Rightarrow> v | None \<Rightarrow> vu)"
    have "obs = obs1 @ snd (step_expect P L mh s vars resp v)" "fails = fails1"
      using assms None by (auto simp: runStep_def d v_def case_prod_beta Let_def)
    moreover have "reqs (snd (step_expect P L mh s vars resp v)) = 0"
      by (simp add: step_expect_def Let_def Check_def MetricChecks_def MetricHTTPReqs_def)
    ultimately show ?thesis using Do_counts[OF d] None by simp
  qed
qed

lemma run_steps_counts:
  "run_steps P L mh S c i ss vars vu = Some (err, vu', obs, fails) \<Longrightarrow>
   reqs obs \<le> length [s \<leftarrow> ss. \<not> cs_isThink s] \<and> length fails \<le> reqs obs \<and>
   (err = None \<longrightarrow> reqs obs = length [s \<leftarrow> ss. \<not> cs_isThink s])"
proof (induction ss arbitrary: i vars vu obs fails)
  case (Cons s ss)
  show ?case
  proof (cases "cs_isThink s")
    case True
    then have "run_steps P L mh S c (Suc i) ss vars (Think vu (think_between (cs_thinkMin s) (cs_thinkMax s) (se_rnd (S i))) (se_slept (S i))) =
      Some (err, vu', obs, fails)" using Cons.prems by simp
    from Cons.IH[OF this] show ?thesis using True by simp
  next
    case False
    obtain r vu1 obs1 fails1 where st: "runStep P L mh (S i) c s vars vu = Some (r, vu1, obs1, fails1)"
      using Cons.prems False by (cases "runStep P L mh (S i) c s vars vu") auto
    show ?thesis
    proof (cases r)
      case (Inl e)
      then show ?thesis using Cons.prems False runStep_counts[OF st] by (auto simp: st)
    next
      case (Inr v)
      then obtain obs2 fails2 where r2: "run_steps P L mh S c (Suc i) ss v vu1 = Some (err, vu', obs2, fails2)" "obs = obs1 @ obs2" "fails = fails1 @ fails2"
        using Cons.prems False by (auto simp: st)
      show ?thesis using Cons.IH[OF r2(1)] runStep_counts[OF st] Inr False r2(2,3) by auto
    qed
  qed
qed simp

text \<open>
  An iteration counts the requests it made: it never records more requests than its scenario has
  request steps, reports at most one failure for each, and an iteration that returns no error has
  recorded exactly one request for every one of them.
\<close>

theorem iteration_counts_requests:
  assumes "declarative_run P L mh S c d vu = Some (err, vu', obs, fails)"
  shows "reqs obs \<le> length [s \<leftarrow> dc_steps d. \<not> cs_isThink s] \<and> length fails \<le> reqs obs \<and>
    (err = None \<longrightarrow> reqs obs = length [s \<leftarrow> dc_steps d. \<not> cs_isThink s])"
  using run_steps_counts assms unfolding declarative_run_def by blast

definition demo_runner :: declarative where
  "demo_runner = \<lparr>dc_name = ''browse'', dc_vars = [],
     dc_steps = [zero_cstep\<lparr>cs_name := ''home'', cs_url := Some \<lparr>t_literals = [''/''], t_names = [], t_static = True\<rparr>\<rparr>]\<rparr>"

definition demo_step_envs :: "nat \<Rightarrow> string step_env" where
  "demo_step_envs i = \<lparr>se_ambient = (\<lambda>_ _. \<lparr>am_random = 0, am_bytes = None, am_rfc3339 = [], am_unixMilli = 0\<rparr>), se_do = demo_exchange,
     se_rnd = (\<lambda>_. 0), se_slept = 0\<rparr>"

theorem iteration_counts_requests_witness:
  "\<exists>err vu obs fails. declarative_run \<lparr>fused = False, oob = (\<lambda>_. 0)\<rparr> demo_lib (\<lambda>_. 0) demo_step_envs demo_http_client demo_runner demo_vu = Some (err, vu, obs, fails) \<and>
     reqs obs \<le> 1 \<and> length fails \<le> 1"
proof -
  let ?P = "\<lparr>fused = False, oob = (\<lambda>_. 0)\<rparr>"
  define s where "s = hd (dc_steps demo_runner)"
  define rq where "rq = step_request (demo_step_envs 0) s (NewVars (Some demo_vu) [])"
  have s: "dc_steps demo_runner = [s]" "dc_vars demo_runner = []" "\<not> cs_isThink s" by (simp_all add: s_def demo_runner_def zero_cstep_def)
  have q: "rq_Timeout rq = 0" "rq_BetweenRequests rq = None"
    by (simp_all add: rq_def step_request_def s_def demo_runner_def zero_cstep_def)
  have "pacing_ok demo_exchange (request_pause (hc_opts demo_http_client) rq) demo_vu"
    by (simp add: request_pause_def q demo_http_client_opts pacing_ok_def NewPause_def demo_exchange_def demo_vu_def NewVU_def)
  then obtain resp vu obs fails where "http_Do demo_lib (\<lambda>_. 0) demo_exchange demo_http_client (Some demo_vu) rq = Some (resp, vu, obs, fails)"
    using Do_paces[of demo_exchange demo_http_client rq demo_vu demo_lib "\<lambda>_. 0"] q by (auto simp: demo_exchange_def)
  then have "\<exists>x. runStep ?P demo_lib (\<lambda>_. 0) (demo_step_envs 0) demo_http_client s (NewVars (Some demo_vu) []) demo_vu = Some x"
    by (cases "rs_Err resp") (simp_all add: runStep_def demo_step_envs_def rq_def case_prod_beta Let_def)
  then obtain r vu1 obs1 fails1 where r: "runStep ?P demo_lib (\<lambda>_. 0) (demo_step_envs 0) demo_http_client s (NewVars (Some demo_vu) []) demo_vu = Some (r, vu1, obs1, fails1)"
    by auto
  have "\<exists>x. declarative_run ?P demo_lib (\<lambda>_. 0) demo_step_envs demo_http_client demo_runner demo_vu = Some x"
    by (cases r) (simp_all add: declarative_run_def s r)
  then obtain err vu2 obs2 fails2 where d: "declarative_run ?P demo_lib (\<lambda>_. 0) demo_step_envs demo_http_client demo_runner demo_vu = Some (err, vu2, obs2, fails2)"
    by auto
  from iteration_counts_requests[OF d] show ?thesis using d s(1,3) by auto
qed

end
