(* ===== verification/Worker.thy ===== *)
theory Worker
  imports Agent Declarative
begin

text \<open>
  \<open>internal/worker/worker.go\<close>: the process that generates load. It is a \<open>Handler\<close> of the control
  client, runs one engine at a time and flushes the engine's recorder on wall-clock boundaries.
  The calls the engine makes to the recorder (\<open>en_reports\<close>) are delivered to it as they are made.
  \<open>execute\<close> and \<open>report\<close> run in goroutines of their own and are cut at the points where they wait;
  a start command that waits for the previous run to unwind is kept in \<open>wk_waiting\<close>. A flush is
  one step here; its interleaving with the virtual users is the subject of the recorder's theory.
\<close>

subsection \<open>Configuration and state\<close>

record WorkerConfig =
  wf_NodeID :: string
  wf_AgentTarget :: string
  wf_Registry :: "scenarios option"
  wf_MaxVUs :: int

definition DefaultMaxVUs :: int where "DefaultMaxVUs = 20000"

text \<open>The variables of the \<open>report\<close> loop.\<close>

record reporting =
  rp_interval :: duration
  rp_next :: go_time

record ('h, 'v) activeRun =
  ar_ref :: nat \<comment> \<open>the identity of the pointer\<close>
  ar_id :: string
  ar_stage :: run_stage
  ar_engine :: "'v Engine"
  ar_recorder :: "'h recorder"
  ar_http :: "string HTTPClientFactory"
  ar_runners :: runners \<comment> \<open>the compiled scenarios in the engine's registry\<close>
  ar_started :: bool \<comment> \<open>\<open>execute\<close> has set \<open>cancel\<close>\<close>
  ar_cancelled :: bool \<comment> \<open>the context of \<open>execute\<close>\<close>
  ar_report :: "reporting option" \<comment> \<open>the loop, while it runs\<close>

record ('h, 'v) Worker =
  wk_cfg :: WorkerConfig
  wk_client :: Client
  wk_metricsInterval :: duration
  wk_run :: "('h, 'v) activeRun option"
  wk_waiting :: "StartRun option"
  wk_runtop :: nat

datatype worker_error =
    WorkerNeedsNodeID | WorkerNeedsTarget | WorkerClient client_error
  | NoPlan | BadConfig cfg_error | BadScenarios build_error | BadHTTP go_error | RecorderPanic | WorkerEngine engine_error

text \<open>
  What a worker's methods take from outside: the host, the number of shards, the hash of the
  labels, the default registry, the libraries for URLs and YAML, and the text of an error. A
  URL is kept as a string.
\<close>

record worker_env =
  we_host :: host
  we_gomaxprocs :: int
  we_hash :: "string \<Rightarrow> u64"
  we_Default :: scenarios
  we_lib :: "string http_lib"
  we_yaml :: yaml_codec
  we_text :: "worker_error \<Rightarrow> string"
  we_quote :: "string \<Rightarrow> string"

definition wf_applyDefaults :: "worker_env \<Rightarrow> WorkerConfig \<Rightarrow> WorkerConfig" where
  "wf_applyDefaults E c =
     (let c = (if wf_Registry c = None then c\<lparr>wf_Registry := Some (we_Default E)\<rparr> else c)
      in if wf_MaxVUs c \<le> 0 then c\<lparr>wf_MaxVUs := DefaultMaxVUs\<rparr> else c)"

definition worker_hello :: "host \<Rightarrow> WorkerConfig \<Rightarrow> NodeHello" where
  "worker_hello HO c =
     \<lparr>nh_NodeId = wf_NodeID c, nh_Hostname = ho_Hostname HO, nh_Version = ho_Version HO, nh_CpuCores = of_nat (ho_NumCPU HO),
      nh_MaxWorkers = 0, nh_MaxVus = word_of_int (wf_MaxVUs c), nh_Labels = []\<rparr>"

definition worker_New :: "worker_env \<Rightarrow> WorkerConfig \<Rightarrow> worker_error + ('h, 'v) Worker" where
  "worker_New E cfg =
     (if wf_NodeID cfg = [] then Inl WorkerNeedsNodeID
      else if wf_AgentTarget cfg = [] then Inl WorkerNeedsTarget
      else let cfg = wf_applyDefaults E cfg in
        (case NewClient \<lparr>cc_Target = wf_AgentTarget cfg, cc_Hello = Some (worker_hello (we_host E) cfg), cc_HasHandler = True,
             cc_QueueSize = 0, cc_ReconnectMin = 0, cc_ReconnectMax = 0\<rparr> of
           Inl e \<Rightarrow> Inl (WorkerClient e)
         | Inr client \<Rightarrow> Inr \<lparr>wk_cfg = cfg, wk_client = client, wk_metricsInterval = DefaultMetricsInterval, wk_run = None,
             wk_waiting = None, wk_runtop = 0\<rparr>))"

subsection \<open>Telling the agent\<close>

definition current_vus :: "('h, 'v) Worker \<Rightarrow> u32" where
  "current_vus w = (case wk_run w of Some run \<Rightarrow> word_of_int (en_activeVUs (ar_engine run)) | None \<Rightarrow> 0)"

definition worker_heartbeat :: "workerUsage \<Rightarrow> ('h, 'v) Worker \<Rightarrow> NodeHeartbeat" where
  "worker_heartbeat self w =
     zero_heartbeat\<lparr>hb_CpuPercent := wu_cpuPercent self, hb_MemBytes := wu_memBytes self, hb_ActiveVus := current_vus w\<rparr>"

definition worker_reportStatus :: "('h, 'v) Worker \<Rightarrow> string \<Rightarrow> run_phase \<Rightarrow> string \<Rightarrow> u64 \<Rightarrow> ('h, 'v) Worker" where
  "worker_reportStatus w runID phase message iterations =
     w\<lparr>wk_client := snd (SendRunStatus (wk_client w) \<lparr>ru_RunId = runID, ru_Phase = phase, ru_Message = message,
         ru_ActiveVus = current_vus w, ru_CompletedIterations = iterations\<rparr>)\<rparr>"

definition worker_LogEvent :: "go_time \<Rightarrow> ('h, 'v) Worker \<Rightarrow> log_level \<Rightarrow> string \<Rightarrow> string \<Rightarrow> (string, string) gomap \<Rightarrow> ('h, 'v) Worker" where
  "worker_LogEvent now w level runID message fs =
     w\<lparr>wk_client := snd (SendLog (wk_client w) \<lparr>le_Time = Some now, le_Level = level, le_NodeId = wf_NodeID (wk_cfg w),
         le_RunId = runID, le_Message = message, le_Fields = fs\<rparr>)\<rparr>"

subsection \<open>Building a run\<close>

definition engine_config :: "test_plan \<Rightarrow> scenarios \<Rightarrow> StartRun \<Rightarrow> EngineConfig" where
  "engine_config plan registry msg =
     \<lparr>ec_Plan = Some plan, ec_Registry = Some registry, ec_Recorder = True, ec_HTTP = True, ec_StartAt = sr_StartAt msg,
      ec_VUQuota = uint (sr_VuQuota msg), ec_IterationRateQuota = uint (sr_IterationRateQuota msg),
      ec_IterationQuota = sr_IterationQuota msg, ec_VUIDBase = sr_VuIdBase msg,
      ec_Shard = \<lparr>sh_Index = sr_ShardIndex msg, sh_Count = sr_ShardCount msg\<rparr>\<rparr>"

definition worker_recorder_config :: RecorderConfig where
  "worker_recorder_config =
     \<lparr>rc_Shards = 0, rc_TrendShards = 0, rc_MaxSeries = 0, rc_Histogram = DefaultHistogramConfig, rc_MaxFailureKinds = 0\<rparr>"

text \<open>The options of the run's HTTP client; a plan's base URL stands in for one the configuration lacks.\<close>

definition worker_options :: "test_plan \<Rightarrow> Config \<Rightarrow> HTTPOptions" where
  "worker_options plan cfg =
     (let opts = config_HTTPOptions cfg in if ho_BaseURL opts = [] then opts\<lparr>ho_BaseURL := tp_base_url plan\<rparr> else opts)"

definition worker_build ::
  "worker_env \<Rightarrow> ('h, 'v) Worker \<Rightarrow> test_plan option \<Rightarrow> StartRun \<Rightarrow> worker_error + ('h, 'v) activeRun" where
  "worker_build E w plan msg =
     (case plan of None \<Rightarrow> Inl NoPlan
      | Some plan \<Rightarrow>
     (case FromPlan (we_lib E) (we_yaml E) plan of Inl err \<Rightarrow> Inl (BadConfig err)
      | Inr cfg \<Rightarrow>
     (case BuildScenarios (we_lib E) cfg (scenario_Clone (case wf_Registry (wk_cfg w) of Some r \<Rightarrow> r | None \<Rightarrow> [])) of
        Inl err \<Rightarrow> Inl (BadScenarios err)
      | Inr (registry, runners) \<Rightarrow>
     (case NewHTTPClientFactory (we_lib E) (worker_options plan cfg) of Inl err \<Rightarrow> Inl (BadHTTP err)
      | Inr http \<Rightarrow>
     (case NewRecorder (we_gomaxprocs E) worker_recorder_config of None \<Rightarrow> Inl RecorderPanic
      | Some recorder \<Rightarrow>
     (case engine_New (we_hash E) (engine_config plan registry msg) of Inl err \<Rightarrow> Inl (WorkerEngine err)
      | Inr engine \<Rightarrow>
          Inr \<lparr>ar_ref = wk_runtop w, ar_id = sr_RunId msg, ar_stage = Controlling, ar_engine = engine, ar_recorder = recorder,
            ar_http = http, ar_runners = runners, ar_started = False, ar_cancelled = False, ar_report = None\<rparr>))))))"

subsection \<open>Commands of the agent\<close>

definition worker_OnAccepted :: "('h, 'v) Worker \<Rightarrow> Accepted \<Rightarrow> string option \<times> ('h, 'v) Worker" where
  "worker_OnAccepted w msg =
     (None, if ac_MetricsInterval msg > 0 then w\<lparr>wk_metricsInterval := ac_MetricsInterval msg\<rparr> else w)"

definition upd_active :: "(('h, 'v) activeRun \<Rightarrow> ('h, 'v) activeRun) \<Rightarrow> ('h, 'v) Worker \<Rightarrow> ('h, 'v) Worker" where
  "upd_active f w = w\<lparr>wk_run := map_option f (wk_run w)\<rparr>"

text \<open>\<open>stopRun\<close> up to its wait.\<close>

definition cancel_run :: "('h, 'v) activeRun \<Rightarrow> ('h, 'v) activeRun" where
  "cancel_run run = run\<lparr>ar_cancelled := True, ar_engine := (ar_engine run)\<lparr>en_cancelled := True\<rparr>\<rparr>"

definition worker_stopRun :: "bool \<Rightarrow> string \<Rightarrow> ('h, 'v) Worker \<Rightarrow> ('h, 'v) Worker" where
  "worker_stopRun graceful reason =
     upd_active (\<lambda>run.
       let run = run\<lparr>ar_engine := engine_Stop (ar_engine run) graceful reason\<rparr>
       in if \<not> graceful \<and> ar_started run then cancel_run run else run)"

text \<open>\<open>OnStartRun\<close> after the wait.\<close>

definition start_built :: "worker_env \<Rightarrow> ('h, 'v) Worker \<Rightarrow> StartRun \<Rightarrow> string option \<times> ('h, 'v) Worker" where
  "start_built E w msg =
     (case worker_build E w (Some (sr_Plan msg)) msg of
        Inl err \<Rightarrow> (Some (we_text E err), worker_reportStatus w (sr_RunId msg) RUN_PHASE_FAILED (we_text E err) 0)
      | Inr run \<Rightarrow>
          (None, worker_reportStatus (w\<lparr>wk_run := Some run, wk_runtop := Suc (wk_runtop w)\<rparr>) (ar_id run) RUN_PHASE_STARTING
             ''engine built'' 0))"

definition worker_OnStartRun :: "worker_env \<Rightarrow> ('h, 'v) Worker \<Rightarrow> StartRun \<Rightarrow> string option \<times> ('h, 'v) Worker" where
  "worker_OnStartRun E w msg =
     (if wk_run w = None then start_built E w msg
      else (None, (worker_stopRun False ''superseded by a new run'' w)\<lparr>wk_waiting := Some msg\<rparr>))"

definition start_resumed :: "worker_env \<Rightarrow> ('h, 'v) Worker \<Rightarrow> string option \<times> ('h, 'v) Worker" where
  "start_resumed E w =
     (case (wk_waiting w, wk_run w) of
        (Some msg, None) \<Rightarrow> start_built E (w\<lparr>wk_waiting := None\<rparr>) msg
      | _ \<Rightarrow> (None, w))"

definition no_active_run :: "worker_env \<Rightarrow> string \<Rightarrow> string" where
  "no_active_run E runID = ''no run '' @ we_quote E runID @ '' is active on this worker''"

definition worker_OnSetQuota ::
  "worker_env \<Rightarrow> platform \<Rightarrow> go_time \<Rightarrow> ('h, 'v) Worker \<Rightarrow> SetQuota \<Rightarrow> string option \<times> ('h, 'v) Worker" where
  "worker_OnSetQuota E P now w msg =
     (case wk_run w of
        Some run \<Rightarrow>
          if ar_id run = sq_RunId msg
          then (None, upd_active (\<lambda>run. run\<lparr>ar_engine := engine_SetQuota P now (ar_engine run) (uint (sq_VuQuota msg))
                  (uint (sq_IterationRateQuota msg)) (sq_Ramp msg)\<rparr>) w)
          else (Some (no_active_run E (sq_RunId msg)), w)
      | None \<Rightarrow> (Some (no_active_run E (sq_RunId msg)), w))"

definition worker_OnStopRun :: "worker_env \<Rightarrow> ('h, 'v) Worker \<Rightarrow> StopRun \<Rightarrow> string option \<times> ('h, 'v) Worker" where
  "worker_OnStopRun E w msg =
     (case wk_run w of
        None \<Rightarrow> (None, w)
      | Some run \<Rightarrow>
          if sp_RunId msg \<noteq> [] \<and> ar_id run \<noteq> sp_RunId msg then (Some (no_active_run E (sp_RunId msg)), w)
          else let reason = (if sp_Reason msg = [] then ''stop requested'' else sp_Reason msg)
               in (None, upd_active (\<lambda>run. run\<lparr>ar_engine := engine_Stop (ar_engine run) (sp_Graceful msg) reason\<rparr>) w))"

definition worker_node :: "worker_env \<Rightarrow> platform \<Rightarrow> go_time \<Rightarrow> ('h, 'v) Worker Handler" where
  "worker_node E P now =
     \<lparr>n_OnAccepted = worker_OnAccepted, n_OnStartRun = worker_OnStartRun E, n_OnSetQuota = worker_OnSetQuota E P now,
      n_OnStopRun = worker_OnStopRun E\<rparr>"

subsection \<open>The reporting loop\<close>

definition report_begin :: "duration \<Rightarrow> go_time \<Rightarrow> reporting" where
  "report_begin metricsInterval now =
     (let interval = (if metricsInterval \<le> 0 then DefaultMetricsInterval else metricsInterval)
      in \<lparr>rp_interval = interval, rp_next = time_truncate now interval + interval\<rparr>)"

text \<open>The bucket a flush is for, whether the timer fired or the context ended.\<close>

definition report_bucket :: "reporting \<Rightarrow> go_time" where
  "report_bucket rp = rp_next rp - rp_interval rp"

text \<open>The rest of a turn; \<open>now\<close> is the time after the flush.\<close>

definition report_advance :: "reporting \<Rightarrow> go_time \<Rightarrow> reporting" where
  "report_advance rp now =
     (let next = rp_next rp + rp_interval rp
      in rp\<lparr>rp_next := if next < now then time_truncate now (rp_interval rp) + rp_interval rp else next\<rparr>)"

text \<open>The order in which a flush walks the recorder's maps.\<close>

record 'h flush_env =
  fe_hdr :: "'h hdr"
  fe_series :: "'h series_order"
  fe_failures :: "(failureKey \<times> failureEntry) list \<Rightarrow> (failureKey \<times> failureEntry) list"

definition worker_flush ::
  "'h flush_env \<Rightarrow> ('h, 'v) Worker \<Rightarrow> ('h, 'v) activeRun \<Rightarrow> go_time \<Rightarrow> duration \<Rightarrow> MetricBatch \<times> ('h, 'v) Worker" where
  "worker_flush F w run bucketStart width =
     (let (batch, recorder) = Flush (fe_hdr F) (fe_series F) (fe_failures F) (ar_recorder run) (ar_id run) (wf_NodeID (wk_cfg w))
            bucketStart width (word_of_int (en_activeVUs (ar_engine run)))
      in (batch, (upd_active (\<lambda>run. run\<lparr>ar_recorder := recorder\<rparr>) w)\<lparr>wk_client := snd (SendMetrics (wk_client w) batch)\<rparr>))"

subsection \<open>Executing a run\<close>

definition execute_begin :: "go_time \<Rightarrow> ('h, 'v) Worker \<Rightarrow> ('h, 'v) activeRun \<Rightarrow> ('h, 'v) Worker" where
  "execute_begin now w run =
     worker_reportStatus (upd_active (\<lambda>run. run\<lparr>ar_started := True, ar_report := Some (report_begin (wk_metricsInterval w) now)\<rparr>) w)
       (ar_id run) RUN_PHASE_RUNNING (scaled_Describe (en_executor (ar_engine run))) 0"

definition execute_end :: "('h, 'v) Worker \<Rightarrow> ('h, 'v) activeRun \<Rightarrow> string option \<Rightarrow> ('h, 'v) Worker" where
  "execute_end w run err =
     (let (phase, message) = (case err of Some e \<Rightarrow> (RUN_PHASE_FAILED, e) | None \<Rightarrow> (RUN_PHASE_COMPLETED, ''completed''));
          w = worker_reportStatus w (ar_id run) phase message (en_iterations (ar_engine run))
      in if map_option ar_ref (wk_run w) = Some (ar_ref run) then w\<lparr>wk_run := None\<rparr> else w)"

text \<open>The recorder calls of an engine step, in order; \<open>None\<close>: a call panics.\<close>

definition record_report ::
  "platform \<Rightarrow> 'h hdr \<Rightarrow> 'h recorder \<Rightarrow> int option \<times> observation \<Rightarrow> 'h recorder option" where
  "record_report P L r report =
     (case report of (vu, metric, ls, call) \<Rightarrow>
        (case vu of Some i \<Rightarrow> pinned_call P L r i metric ls call | None \<Rightarrow> shared_call P L r metric ls call))"

fun record_reports :: "platform \<Rightarrow> 'h hdr \<Rightarrow> 'h recorder \<Rightarrow> (int option \<times> observation) list \<Rightarrow> 'h recorder option" where
  "record_reports P L r [] = Some r"
| "record_reports P L r (x # xs) = (case record_report P L r x of None \<Rightarrow> None | Some r' \<Rightarrow> record_reports P L r' xs)"

end
