(* ===== verification/EngineProps.thy ===== *)
theory EngineProps
  imports Engine
begin

text \<open>
  The virtual user pool as an invariant of the engine's steps, and what follows from it: a resize
  gives every scenario exactly its share and leaves the users it keeps alone, ids are never
  reused, a budget of iterations is overshot by less than one pool, the control loop ends with the
  profile, and a run that is being stopped drains.
\<close>

named_theorems engine_defs \<open>one-step operations of the engine\<close>

subsection \<open>Counting users by stage\<close>

definition stages :: "'v Engine \<Rightarrow> vu_stage list" where
  "stages e = map vh_stage (en_vus e)"

definition users_in :: "(vu_stage \<Rightarrow> bool) \<Rightarrow> 'v Engine \<Rightarrow> nat" where
  "users_in S e = length (filter S (stages e))"

definition live :: "vu_stage \<Rightarrow> bool" where "live st \<longleftrightarrow> st \<noteq> VGone"
definition in_flight :: "vu_stage \<Rightarrow> bool" where "in_flight st \<longleftrightarrow> st = VWaiting \<or> st = VIterating"

lemma filter_update:
  "k < length xs \<Longrightarrow> length (filter S (xs[k := y])) + (if S (xs ! k) then 1 else 0) = length (filter S xs) + (if S y then 1 else 0)"
proof (induction xs arbitrary: k)
  case (Cons x xs) then show ?case by (cases k) (auto split: if_splits)
qed simp

lemma users_in_le: "users_in in_flight e \<le> users_in live e"
proof -
  have "length (filter in_flight xs) \<le> length (filter live xs)" for xs
    by (induction xs) (auto simp: in_flight_def live_def)
  then show ?thesis by (simp add: users_in_def)
qed

lemma upd_vu_fields [simp]:
  "en_cfg (upd_vu k f e) = en_cfg e" "en_groups (upd_vu k f e) = en_groups e" "en_weights (upd_vu k f e) = en_weights e"
  "en_activeVUs (upd_vu k f e) = en_activeVUs e" "en_iterations (upd_vu k f e) = en_iterations e"
  "en_nextVUID (upd_vu k f e) = en_nextVUID e" "en_cancelled (upd_vu k f e) = en_cancelled e"
  "en_executor (upd_vu k f e) = en_executor e" "en_limiter (upd_vu k f e) = en_limiter e"
  "en_graceful (upd_vu k f e) = en_graceful e" "en_timers (upd_vu k f e) = en_timers e"
  "en_stop (upd_vu k f e) = en_stop e" "en_stopped (upd_vu k f e) = en_stopped e"
  "length (en_vus (upd_vu k f e)) = length (en_vus e)"
  by (simp_all add: upd_vu_def)

lemma upd_vu_nth: "en_vus (upd_vu k f e) ! j = (if j = k \<and> k < length (en_vus e) then f (en_vus e ! k) else en_vus e ! j)"
  by (cases "k < length (en_vus e)") (auto simp: upd_vu_def nth_list_update list_update_beyond)

lemma stages_upd_vu: "stages (upd_vu k f e) = (stages e)[k := vh_stage (f (en_vus e ! k))]"
  by (simp add: stages_def upd_vu_def map_update)

lemma map_upd_same: "(\<And>h. p (f h) = p h) \<Longrightarrow> map p (en_vus (upd_vu k f e)) = map p (en_vus e)"
  by (cases "k < length (en_vus e)") (simp_all add: upd_vu_def map_update list_update_same_conv list_update_beyond)

lemma stages_upd_same: "(\<And>h. vh_stage (f h) = vh_stage h) \<Longrightarrow> stages (upd_vu k f e) = stages e"
  unfolding stages_def by (rule map_upd_same)

lemma users_in_upd:
  assumes "k < length (en_vus e)"
  shows "users_in S (upd_vu k f e) + (if S (vh_stage (en_vus e ! k)) then 1 else 0) =
    users_in S e + (if S (vh_stage (f (en_vus e ! k))) then 1 else 0)"
proof -
  have "stages e ! k = vh_stage (en_vus e ! k)" "k < length (stages e)" using assms by (simp_all add: stages_def)
  then show ?thesis using filter_update[of k "stages e" S "vh_stage (f (en_vus e ! k))"] unfolding users_in_def stages_upd_vu by simp
qed

subsection \<open>The invariant of the pool\<close>

definition pooled :: "'v Engine \<Rightarrow> nat list" where
  "pooled e = concat (map g_vus (en_groups e))"

definition pool_ok :: "'v Engine \<Rightarrow> bool" where
  "pool_ok e \<longleftrightarrow>
     map vh_id (en_vus e) = map (\<lambda>k. i64 (ec_VUIDBase (en_cfg e) + int k)) [0..<length (en_vus e)] \<and>
     en_nextVUID e = i64 (ec_VUIDBase (en_cfg e) + int (length (en_vus e))) \<and>
     en_activeVUs e = int (users_in live e) \<and>
     distinct (pooled e) \<and> (\<forall>k \<in> set (pooled e). k < length (en_vus e)) \<and>
     (\<forall>k < length (en_vus e). k \<notin> set (pooled e) \<longrightarrow> soft_done e k) \<and>
     en_iterations e = word_of_int (sum_list (map vh_n (en_vus e))) \<and>
     en_weights e = map g_weight (en_groups e)"

text \<open>A handle may lose its freedom to run but never its identity.\<close>

definition gentle :: "('v vuHandle \<Rightarrow> 'v vuHandle) \<Rightarrow> bool" where
  "gentle f \<longleftrightarrow> (\<forall>h. vh_id (f h) = vh_id h \<and> vh_n (f h) = vh_n h \<and> (vh_soft h \<longrightarrow> vh_soft (f h)) \<and>
     (vh_hard h \<longrightarrow> vh_hard (f h)))"

lemma soft_done_upd: "gentle f \<Longrightarrow> soft_done e j \<Longrightarrow> soft_done (upd_vu k f e) j"
  by (auto simp: soft_done_def upd_vu_nth gentle_def)

lemma pool_ok_upd:
  assumes "pool_ok e" "gentle f" "a = en_activeVUs e + int (users_in live (upd_vu k f e)) - int (users_in live e)"
  shows "pool_ok ((upd_vu k f e)\<lparr>en_activeVUs := a\<rparr>)"
  using assms map_upd_same[of vh_id f k e] map_upd_same[of vh_n f k e] soft_done_upd[OF assms(2), of e _ k]
  by (auto simp: pool_ok_def gentle_def users_in_def stages_def pooled_def soft_done_def)

lemma pool_ok_view:
  "pool_ok e \<Longrightarrow> pool_ok (e\<lparr>en_reports := x\<rparr>)" "pool_ok e \<Longrightarrow> pool_ok (e\<lparr>en_timers := y\<rparr>)"
  "pool_ok e \<Longrightarrow> pool_ok (e\<lparr>en_stop := s\<rparr>)" "pool_ok e \<Longrightarrow> pool_ok (e\<lparr>en_stopped := b\<rparr>)"
  "pool_ok e \<Longrightarrow> pool_ok (e\<lparr>en_executor := ex\<rparr>)" "pool_ok e \<Longrightarrow> pool_ok (e\<lparr>en_limiter := l\<rparr>)"
  "pool_ok e \<Longrightarrow> pool_ok (e\<lparr>en_cancelled := True\<rparr>)"
  by (auto simp: pool_ok_def users_in_def stages_def pooled_def soft_done_def)

subsection \<open>Operations keep the pool\<close>

lemma upd_vu_beyond: "\<not> k < length (en_vus e) \<Longrightarrow> upd_vu k f e = e"
  by (simp add: upd_vu_def list_update_beyond)

lemma pool_ok_gentle:
  assumes "pool_ok e" "gentle f" "live (vh_stage (f (en_vus e ! k))) = live (vh_stage (en_vus e ! k))"
  shows "pool_ok (upd_vu k f e)"
proof (cases "k < length (en_vus e)")
  case True
  then have "users_in live (upd_vu k f e) = users_in live e"
    using users_in_upd[of k e live f] assms(3) by (auto split: if_splits)
  then show ?thesis using pool_ok_upd[OF assms(1,2), of "en_activeVUs e" k] by (simp add: upd_vu_def)
qed (simp add: upd_vu_beyond assms(1))

lemma pool_ok_leave:
  assumes "pool_ok e" "k < length (en_vus e)" "vh_stage (en_vus e ! k) \<noteq> VGone"
  shows "pool_ok (leave e k)"
  unfolding leave_def
  using users_in_upd[OF assms(2), of live "\<lambda>h. h\<lparr>vh_stage := VGone, vh_hard := True\<rparr>"] assms(3)
  by (intro pool_ok_upd[OF assms(1)]) (auto simp: gentle_def live_def)

lemma pool_ok_vu_act: "pool_ok e \<Longrightarrow> pool_ok (vu_act mh e k a)"
  by (auto simp: vu_act_def gentle_def split_beta intro!: pool_ok_view pool_ok_gentle)

lemma sum_list_update_int: "k < length xs \<Longrightarrow> sum_list (xs[k := y]) = sum_list xs + y - xs ! k" for xs :: "int list"
  by (induction xs arbitrary: k) (auto simp: nth_Cons split: nat.splits)

lemma pool_ok_iterate_end:
  assumes "pool_ok e" "k < length (en_vus e)" "vh_stage (en_vus e ! k) = VIterating"
  shows "pool_ok (iterate_end e k took err)"
proof -
  let ?f = "\<lambda>h. h\<lparr>vh_stage := VIdle, vh_n := vh_n h + 1\<rparr> :: 'a vuHandle"
  have "map vh_id (en_vus (upd_vu k ?f e)) = map vh_id (en_vus e)" by (rule map_upd_same) simp
  moreover have "users_in live (upd_vu k ?f e) = users_in live e"
    using users_in_upd[OF assms(2), of live ?f] assms(3) by (simp add: live_def)
  moreover have "sum_list (map vh_n (en_vus (upd_vu k ?f e))) = sum_list (map vh_n (en_vus e)) + 1"
    using assms(2) by (simp add: upd_vu_def map_update sum_list_update_int)
  moreover have "soft_done (upd_vu k ?f e) j = soft_done e j" for j by (auto simp: soft_done_def upd_vu_nth)
  ultimately show ?thesis using assms(1)
    by (simp add: pool_ok_def iterate_end_def Let_def users_in_def stages_def pooled_def soft_done_def)
qed

lemma pool_ok_user:
  assumes "pool_ok e" "user_step mh e k ev = Some e'"
  shows "pool_ok e'"
proof -
  have k: "k < length (en_vus e)" using assms(2) by (simp add: user_step_def split: if_splits)
  note stay = pool_ok_gentle[OF assms(1), of _ k]
  show ?thesis using assms(2) k pool_ok_leave[OF assms(1) k] pool_ok_vu_act[OF assms(1)] pool_ok_iterate_end[OF assms(1) k]
    by (cases ev)
      (auto simp: user_step_def Let_def guarded_def vu_started_def iterate_head_def limiter_wait_def begin_iteration_def
        end_loop_def vu_stopped_def gentle_def live_def split: if_splits intro!: stay)
qed

subsection \<open>Resizing\<close>

text \<open>What a resize leaves alone, and the users it may add.\<close>

definition pool_ext :: "'v Engine \<Rightarrow> 'v Engine \<Rightarrow> bool" where
  "pool_ext e e' \<longleftrightarrow>
     en_cfg e' = en_cfg e \<and> en_executor e' = en_executor e \<and> en_iterations e' = en_iterations e \<and>
     en_cancelled e' = en_cancelled e \<and> en_weights e' = en_weights e \<and> en_limiter e' = en_limiter e \<and>
     length (en_groups e') = length (en_groups e) \<and>
     (\<exists>n. stages e' = stages e @ replicate n VStarting)"

lemma pool_ext_refl [simp]: "pool_ext e e"
  by (simp add: pool_ext_def)

lemma pool_ext_trans: "pool_ext e e' \<Longrightarrow> pool_ext e' e'' \<Longrightarrow> pool_ext e e''"
  unfolding pool_ext_def by (metis append.assoc replicate_add)

lemma pool_ext_length: "pool_ext e e' \<Longrightarrow> length (en_vus e) \<le> length (en_vus e')"
  unfolding pool_ext_def stages_def by (metis length_append length_map le_add1)

lemma startVU_ext: "pool_ext e (startVU mh e i)"
  by (auto simp: pool_ext_def startVU_def Let_def stages_def intro: exI[of _ 1])

lemma retire_last_ext: "pool_ext e (retire_last now i e)"
  using stages_upd_same[of "\<lambda>h. h\<lparr>vh_soft := True\<rparr>" _ e]
  by (auto simp: pool_ext_def retire_last_def retireVU_def Let_def stages_def intro!: exI[of _ 0])

lemma pooled_update:
  assumes "i < length gs"
  shows "mset (concat (map g_vus (gs[i := g]))) + mset (g_vus (gs ! i)) = mset (concat (map g_vus gs)) + mset (g_vus g)"
  using assms
proof (induction gs arbitrary: i)
  case (Cons a gs) then show ?case by (cases i) (auto simp: ac_simps)
qed simp

lemma i64_add: "i64 (i64 x + y) = i64 (x + y)"
  by (simp add: i64_def mod_simps algebra_simps)

lemma pool_ok_startVU:
  assumes ok: "pool_ok e" and i: "i < length (en_groups e)"
  shows "pool_ok (startVU mh e i)"
proof -
  let ?g = "en_groups e ! i" and ?n = "length (en_vus e)" and ?e' = "startVU mh e i"
  have m: "mset (pooled ?e') = mset (?n # pooled e)"
    using pooled_update[OF i, of "?g\<lparr>g_vus := g_vus ?g @ [?n]\<rparr>"] by (simp add: pooled_def startVU_def Let_def)
  have "distinct (?n # pooled e)" using ok by (auto simp: pool_ok_def)
  then have p: "set (pooled ?e') = insert ?n (set (pooled e))" "distinct (pooled ?e')"
    using mset_eq_setD[OF m] mset_eq_imp_distinct_iff[OF m] by simp_all
  have "users_in live ?e' = users_in live e + 1" by (simp add: users_in_def stages_def startVU_def Let_def live_def)
  moreover have "map g_weight (en_groups ?e') = map g_weight (en_groups e)"
    using i by (simp add: startVU_def Let_def map_update list_update_same_conv)
  moreover have "soft_done ?e' j = soft_done e j" if "j < ?n" for j
    using that by (simp add: soft_done_def startVU_def Let_def nth_append)
  moreover have "i64 (i64 (ec_VUIDBase (en_cfg e) + int ?n) + 1) = i64 (ec_VUIDBase (en_cfg e) + (1 + int ?n))"
    using i64_add[of "ec_VUIDBase (en_cfg e) + int ?n" 1] by (simp add: ac_simps)
  ultimately show ?thesis
    using ok p
    unfolding pool_ok_def by (auto simp: startVU_def Let_def less_Suc_eq)
qed

lemma retire_last_fields:
  assumes "i < length (en_groups e)"
  shows "en_groups (retire_last now i e) = (en_groups e)[i := (en_groups e ! i)\<lparr>g_vus := butlast (g_vus (en_groups e ! i))\<rparr>]"
    and "length (en_vus (retire_last now i e)) = length (en_vus e)"
    and "en_vus (retire_last now i e) ! k = (if k = last (g_vus (en_groups e ! i)) \<and> k < length (en_vus e)
      then (en_vus e ! k)\<lparr>vh_soft := True\<rparr> else en_vus e ! k)"
  by (simp_all add: retire_last_def retireVU_def Let_def upd_vu_nth)

lemma pool_ok_retire_last:
  assumes ok: "pool_ok e" and i: "i < length (en_groups e)" and ne: "g_vus (en_groups e ! i) \<noteq> []"
  shows "pool_ok (retire_last now i e)"
proof -
  let ?g = "en_groups e ! i" and ?e' = "retire_last now i e" and ?u = "upd_vu (last (g_vus (en_groups e ! i))) (\<lambda>h. h\<lparr>vh_soft := True\<rparr>) e"
  have "mset (g_vus ?g) = add_mset (last (g_vus ?g)) (mset (butlast (g_vus ?g)))"
    using arg_cong[OF append_butlast_last_id[OF ne], of mset] by simp
  then have m: "mset (pooled e) = mset (last (g_vus ?g) # pooled ?e')"
    using pooled_update[OF i, of "?g\<lparr>g_vus := butlast (g_vus ?g)\<rparr>"] by (simp add: pooled_def retire_last_fields[OF i])
  have p: "set (pooled e) = insert (last (g_vus ?g)) (set (pooled ?e'))" "distinct (pooled e) = distinct (last (g_vus ?g) # pooled ?e')"
    using mset_eq_setD[OF m] mset_eq_imp_distinct_iff[OF m] by simp_all
  have u: "pool_ok ?u" by (intro pool_ok_gentle ok) (simp_all add: gentle_def)
  have sd: "soft_done ?e' j = (j = last (g_vus ?g) \<and> j < length (en_vus e) \<or> soft_done e j)" for j
    by (auto simp: soft_done_def retire_last_fields[OF i]) (auto simp: retire_last_def retireVU_def Let_def)
  have "map g_weight (en_groups ?e') = map g_weight (en_groups e)"
    using i by (simp add: retire_last_fields[OF i] map_update list_update_same_conv)
  moreover have "en_vus ?e' = en_vus ?u" "users_in live ?e' = users_in live ?u" "en_nextVUID ?e' = en_nextVUID ?u" "en_weights ?e' = en_weights ?u"
    "en_activeVUs ?e' = en_activeVUs ?u" "en_iterations ?e' = en_iterations ?u" "en_cfg ?e' = en_cfg ?u"
    by (simp_all add: retire_last_def retireVU_def Let_def users_in_def stages_def)
  ultimately show ?thesis using ok u p sd unfolding pool_ok_def by auto
qed

lemma startVU_fields:
  "en_groups (startVU mh e i) = (en_groups e)[i := (en_groups e ! i)\<lparr>g_vus := g_vus (en_groups e ! i) @ [length (en_vus e)]\<rparr>]"
  "\<exists>h. en_vus (startVU mh e i) = en_vus e @ [h]" "length (en_vus (startVU mh e i)) = Suc (length (en_vus e))"
  by (simp_all add: startVU_def Let_def)

lemma grow_pool:
  assumes "i < length (en_groups e)"
  shows "pool_ext e (grow mh i n e)" "pool_ok e \<Longrightarrow> pool_ok (grow mh i n e)"
    "en_groups (grow mh i n e) = (en_groups e)[i := (en_groups e ! i)\<lparr>g_vus := g_vus (en_groups e ! i) @ [length (en_vus e)..<length (en_vus e) + n]\<rparr>]"
    "\<exists>new. length new = n \<and> en_vus (grow mh i n e) = en_vus e @ new"
  using assms
proof (induction n arbitrary: e)
  case (Suc n)
  { case 1 then show ?case using Suc(1)[of "startVU mh e i"] pool_ext_trans[OF startVU_ext] by (simp add: startVU_fields(1)) }
  { case 2 then show ?case using Suc(2)[of "startVU mh e i"] pool_ok_startVU[of e i mh] by (simp add: startVU_fields(1)) }
  { case 3 then show ?case using Suc(3)[of "startVU mh e i"]
      by (simp add: startVU_fields(1,3) upt_conv_Cons del: upt_Suc) }
  { case 4 then show ?case using Suc(4)[of "startVU mh e i"] startVU_fields(2)[of mh e i] by (force simp: startVU_fields(1)) }
qed simp_all

lemma shrink_pool:
  assumes "i < length (en_groups e)" "n \<le> length gs" "gs = g_vus (en_groups e ! i)"
  shows "pool_ext e (shrink now i n e) \<and> (pool_ok e \<longrightarrow> pool_ok (shrink now i n e)) \<and>
    en_groups (shrink now i n e) = (en_groups e)[i := (en_groups e ! i)\<lparr>g_vus := take (length gs - n) gs\<rparr>] \<and>
    length (en_vus (shrink now i n e)) = length (en_vus e) \<and>
    (\<forall>k. k \<notin> set (drop (length gs - n) gs) \<longrightarrow> en_vus (shrink now i n e) ! k = en_vus e ! k)"
  using assms
proof (induction n arbitrary: e gs)
  case (Suc n)
  let ?g = "en_groups e ! i" and ?r = "retire_last now i e"
  note r = retire_last_fields[OF Suc.prems(1)]
  have i: "i < length (en_groups ?r)" and g: "en_groups ?r ! i = ?g\<lparr>g_vus := butlast gs\<rparr>"
    using Suc.prems by (simp_all add: r)
  have n: "n \<le> length (butlast gs)" and ne: "gs \<noteq> []" "g_vus ?g \<noteq> []" using Suc.prems(2,3) by auto
  have tk: "take (length gs - Suc n) (butlast gs) = take (length gs - Suc n) gs" by (simp add: butlast_conv_take)
  have "set (drop (length gs - Suc n) gs) = insert (last gs) (set (drop (length gs - Suc n) (butlast gs)))"
    using ne Suc.prems(2) append_butlast_last_id[of gs] drop_append[of "length gs - Suc n" "butlast gs" "[last gs]"] by simp
  then show ?case
    using Suc.IH[OF i n, unfolded g] pool_ext_trans[OF retire_last_ext[of e now i]] pool_ok_retire_last[OF _ Suc.prems(1) ne(2)] Suc.prems(1,3)
    by (simp add: r(1,2) tk[unfolded Suc.prems(3)]) (simp add: r(3))
qed simp

text \<open>One group of a resize.\<close>

lemma resize_group_pool:
  assumes i: "i < length (en_groups e)" and want: "want = nat (shares ! i)" and gs: "gs = g_vus (en_groups e ! i)"
    and e': "e' = resize_group mh now shares e i"
  shows "pool_ext e e' \<and> (pool_ok e \<longrightarrow> pool_ok e') \<and>
    en_groups e' = (en_groups e)[i := (en_groups e ! i)\<lparr>g_vus := take want gs @
      [length (en_vus e)..<length (en_vus e) + (want - length gs)]\<rparr>] \<and>
    (\<forall>k < length (en_vus e). k \<notin> set (drop want gs) \<longrightarrow> en_vus e' ! k = en_vus e ! k)"
proof (cases "length gs \<le> want")
  case True
  obtain new where "en_vus (grow mh i (want - length gs) e) = en_vus e @ new" using grow_pool(4)[OF i] by blast
  moreover have "e' = grow mh i (want - length gs) e" using True by (simp add: e' resize_group_def Let_def want gs)
  ultimately show ?thesis using grow_pool(1-3)[OF i, of mh "want - length gs"] True by (auto simp: gs nth_append)
next
  case False
  then have "e' = shrink now i (length gs - want) e" "length gs - (length gs - want) = want"
    by (simp_all add: e' resize_group_def Let_def want gs)
  then show ?thesis using shrink_pool[OF i _ gs, of "length gs - want" now] False by simp
qed

lemma resize_groups_pool:
  assumes "m \<le> length (en_groups e)" and e': "e' = foldl (resize_group mh now shares) e [0..<m]"
  shows "pool_ext e e' \<and> (pool_ok e \<longrightarrow> pool_ok e') \<and>
    (\<forall>i < length (en_groups e). \<exists>fresh. en_groups e' ! i = (en_groups e ! i)\<lparr>g_vus :=
        (if i < m then take (nat (shares ! i)) (g_vus (en_groups e ! i)) @ fresh else g_vus (en_groups e ! i))\<rparr> \<and>
      length fresh = nat (shares ! i) - length (g_vus (en_groups e ! i)) \<and> (\<forall>k \<in> set fresh. length (en_vus e) \<le> k)) \<and>
    (\<forall>k < length (en_vus e). (\<forall>i < m. k \<notin> set (drop (nat (shares ! i)) (g_vus (en_groups e ! i)))) \<longrightarrow> en_vus e' ! k = en_vus e ! k)"
  using assms
proof (induction m arbitrary: e')
  case 0 then show ?case by (auto intro!: exI[of _ "replicate _ (length (en_vus e))"])
next
  case (Suc m)
  define e1 where "e1 = foldl (resize_group mh now shares) e [0..<m]"
  have IH: "pool_ext e e1" "pool_ok e \<longrightarrow> pool_ok e1"
    "\<And>i. i < length (en_groups e) \<Longrightarrow> \<exists>fresh. en_groups e1 ! i = (en_groups e ! i)\<lparr>g_vus :=
        (if i < m then take (nat (shares ! i)) (g_vus (en_groups e ! i)) @ fresh else g_vus (en_groups e ! i))\<rparr> \<and>
      length fresh = nat (shares ! i) - length (g_vus (en_groups e ! i)) \<and> (\<forall>k \<in> set fresh. length (en_vus e) \<le> k)"
    "\<And>k. k < length (en_vus e) \<Longrightarrow> (\<And>i. i < m \<Longrightarrow> k \<notin> set (drop (nat (shares ! i)) (g_vus (en_groups e ! i)))) \<Longrightarrow> en_vus e1 ! k = en_vus e ! k"
    using Suc.IH[OF _ e1_def] Suc.prems(1) by auto
  have m: "m < length (en_groups e1)" using Suc.prems(1) IH(1) by (simp add: pool_ext_def)
  have gm: "g_vus (en_groups e1 ! m) = g_vus (en_groups e ! m)" using IH(3)[of m] Suc.prems(1) by auto
  have e': "e' = resize_group mh now shares e1 m" using Suc.prems(2) by (simp add: e1_def)
  note step = resize_group_pool[OF m refl refl e', unfolded gm]
  note len = pool_ext_length[OF IH(1)]
  have "\<exists>fresh. en_groups e' ! i = (en_groups e ! i)\<lparr>g_vus :=
        (if i < Suc m then take (nat (shares ! i)) (g_vus (en_groups e ! i)) @ fresh else g_vus (en_groups e ! i))\<rparr> \<and>
      length fresh = nat (shares ! i) - length (g_vus (en_groups e ! i)) \<and> (\<forall>k \<in> set fresh. length (en_vus e) \<le> k)"
    if i: "i < length (en_groups e)" for i
  proof (cases "i = m")
    case True
    have "en_groups e1 ! m = en_groups e ! m" using IH(3)[OF i] True by auto
    then show ?thesis using step m len True
      by (intro exI[of _ "[length (en_vus e1)..<length (en_vus e1) + (nat (shares ! m) - length (g_vus (en_groups e ! m)))]"]) simp
  next
    case False then show ?thesis using IH(3)[OF i] step by (auto simp: less_Suc_eq)
  qed
  then show ?case using pool_ext_trans[OF IH(1)] step IH(2,4) len by auto
qed

subsection \<open>Every step keeps the pool\<close>

definition upd_all :: "('v vuHandle \<Rightarrow> 'v vuHandle) \<Rightarrow> 'v Engine \<Rightarrow> nat list \<Rightarrow> 'v Engine" where
  "upd_all f = foldl (\<lambda>e k. upd_vu k f e)"

lemma upd_all_pool:
  assumes "gentle f" "\<And>h. vh_stage (f h) = vh_stage h"
  shows "(pool_ok e \<longrightarrow> pool_ok (upd_all f e ks)) \<and> stages (upd_all f e ks) = stages e \<and>
    length (en_vus (upd_all f e ks)) = length (en_vus e) \<and> (\<forall>j. soft_done e j \<longrightarrow> soft_done (upd_all f e ks) j) \<and>
    ((\<forall>h. vh_soft (f h) \<or> vh_hard (f h)) \<longrightarrow> (\<forall>k \<in> set ks. k < length (en_vus e) \<longrightarrow> soft_done (upd_all f e ks) k))"
proof (induction ks rule: rev_induct)
  case (snoc k ks)
  let ?u = "upd_all f e ks"
  have "upd_all f e (ks @ [k]) = upd_vu k f ?u" by (simp add: upd_all_def)
  moreover have "vh_soft (f h) \<or> vh_hard (f h) \<Longrightarrow> k < length (en_vus ?u) \<Longrightarrow> h = en_vus ?u ! k \<Longrightarrow> soft_done (upd_vu k f ?u) k" for h
    by (auto simp: soft_done_def upd_vu_nth)
  ultimately show ?case
    using snoc soft_done_upd[OF assms(1), of ?u _ k] pool_ok_gentle[OF _ assms(1), of ?u k] stages_upd_same[OF assms(2), of k ?u] assms(2)
    by auto
qed (simp add: upd_all_def)

lemma upd_all_fields [simp]:
  "en_groups (upd_all f e ks) = en_groups e" "en_cfg (upd_all f e ks) = en_cfg e" "en_iterations (upd_all f e ks) = en_iterations e"
  "en_executor (upd_all f e ks) = en_executor e" "en_limiter (upd_all f e ks) = en_limiter e" "en_cancelled (upd_all f e ks) = en_cancelled e"
  "en_activeVUs (upd_all f e ks) = en_activeVUs e" "en_weights (upd_all f e ks) = en_weights e"
  by (induction ks arbitrary: e) (simp_all add: upd_all_def)

definition cancel_one :: "bool \<Rightarrow> 'v vuHandle \<Rightarrow> 'v vuHandle" where
  "cancel_one graceful h = (if graceful then h\<lparr>vh_soft := True\<rparr> else h\<lparr>vh_hard := True\<rparr>)"

lemma cancel_all_upd: "cancel_all graceful e = (upd_all (cancel_one graceful) e (pooled e))\<lparr>en_groups := map (\<lambda>g. g\<lparr>g_vus := []\<rparr>) (en_groups e)\<rparr>"
  by (simp add: cancel_all_def upd_all_def pooled_def cancel_one_def[abs_def] Let_def)

lemma cancel_one_gentle: "gentle (cancel_one graceful)" "vh_stage (cancel_one graceful h) = vh_stage h"
  "vh_soft (cancel_one graceful h) \<or> vh_hard (cancel_one graceful h)"
  by (simp_all add: gentle_def cancel_one_def)

lemma cancel_all_pool:
  assumes "pool_ok e"
  shows "pool_ok (cancel_all graceful e)" "pooled (cancel_all graceful e) = []" "stages (cancel_all graceful e) = stages e"
proof -
  let ?u = "upd_all (cancel_one graceful) e (pooled e)"
  note u = upd_all_pool[OF cancel_one_gentle(1,2), of e graceful "pooled e"]
  show p: "pooled (cancel_all graceful e) = []" by (simp add: cancel_all_upd pooled_def)
  show "stages (cancel_all graceful e) = stages e" using u by (simp add: cancel_all_upd stages_def)
  have "soft_done (cancel_all graceful e) k" if "k < length (en_vus e)" for k
    using that u assms cancel_one_gentle(3) by (auto simp: cancel_all_upd soft_done_def pool_ok_def)
  moreover have "map g_weight (map (\<lambda>g. g\<lparr>g_vus := []\<rparr>) (en_groups e)) = map g_weight (en_groups e)" by simp
  ultimately show "pool_ok (cancel_all graceful e)" using u assms p unfolding pool_ok_def
    by (simp add: cancel_all_upd users_in_def stages_def)
qed

lemma shutdown_begin_pool:
  assumes "pool_ok e"
  shows "pool_ok (shutdown_begin e req)" "pooled (shutdown_begin e req) = []" "stages (shutdown_begin e req) = stages e"
    "en_iterations (shutdown_begin e req) = en_iterations e" "en_cfg (shutdown_begin e req) = en_cfg e"
  using cancel_all_pool[OF assms] pool_ok_view(7)[OF cancel_all_pool(1)[OF assms]]
  by (simp_all add: shutdown_begin_def Let_def pooled_def stages_def) (simp_all add: cancel_all_upd)

lemma fire_timers_pool:
  "pool_ok e \<Longrightarrow> pool_ok (fire_timers now e)" "pooled (fire_timers now e) = pooled e" "stages (fire_timers now e) = stages e"
  "en_iterations (fire_timers now e) = en_iterations e" "en_cfg (fire_timers now e) = en_cfg e" "en_activeVUs (fire_timers now e) = en_activeVUs e"
proof -
  define ks where "ks = map snd (filter (\<lambda>(t, k). t \<le> now) (en_timers e))"
  let ?f = "\<lambda>h. h\<lparr>vh_hard := True\<rparr> :: 'a vuHandle"
  have e: "fire_timers now e = (upd_all ?f e ks)\<lparr>en_timers := filter (\<lambda>(t, k). \<not> t \<le> now) (en_timers e)\<rparr>"
    by (simp add: fire_timers_def upd_all_def ks_def)
  have "gentle ?f" "\<And>h. vh_stage (?f h) = vh_stage h" by (simp_all add: gentle_def)
  note u = upd_all_pool[OF this, of e ks]
  show "pool_ok e \<Longrightarrow> pool_ok (fire_timers now e)" using u by (simp add: e pool_ok_view(2))
  show "pooled (fire_timers now e) = pooled e" "stages (fire_timers now e) = stages e" "en_iterations (fire_timers now e) = en_iterations e"
    "en_cfg (fire_timers now e) = en_cfg e" "en_activeVUs (fire_timers now e) = en_activeVUs e"
    using u by (simp_all add: e pooled_def stages_def)
qed

lemma resize_pool: "pool_ext e (resize mh now e n)" "pool_ok e \<Longrightarrow> pool_ok (resize mh now e n)"
  using resize_groups_pool[OF order_refl refl, of e mh now "Largest (if n < 0 then 0 else n) (en_weights e)"]
  by (simp_all add: resize_def Let_def)

lemma pool_ext_view: "pool_ext e e' \<Longrightarrow> pool_ext e (e'\<lparr>en_reports := x\<rparr>)" "pool_ext e e' \<Longrightarrow> pool_ext e (e'\<lparr>en_stop := s\<rparr>)"
  by (simp_all add: pool_ext_def stages_def)

lemma control_turn_pool:
  assumes "control_turn P mh e ev = (r, e')"
  shows "pool_ext e e'" "pool_ok e \<Longrightarrow> pool_ok e'"
  using assms resize_pool[of e mh] pool_ext_view
  by (auto simp: control_turn_def Let_def reportGauges_def split: control_event.splits if_splits intro!: pool_ok_view pool_ext_view)

definition engine_inv :: "run_stage \<times> 'v Engine \<Rightarrow> bool" where
  "engine_inv s \<longleftrightarrow> pool_ok (snd s) \<and> (fst s \<noteq> Controlling \<longrightarrow> pooled (snd s) = [])"

lemma resolve_refs_fresh: "resolve_refs reg refs = Inr gs \<Longrightarrow> \<forall>g \<in> set gs. g_vus g = []"
  by (induction refs arbitrary: gs) (auto simp: Let_def split: option.splits sum.splits)

lemma resolveScenarios_fresh:
  "resolveScenarios reg refs = Inr (gs, ws) \<Longrightarrow> concat (map g_vus gs) = [] \<and> ws = map g_weight gs"
  using resolve_refs_fresh by (fastforce simp: resolveScenarios_def Let_def split: if_splits sum.splits)

lemma engine_New_fields:
  assumes "engine_New mh cfg = Inr e"
  shows "en_cfg e = cfg" "en_iterations e = 0" "en_vus e = []" "en_activeVUs e = 0" "en_nextVUID e = ec_VUIDBase cfg"
    "\<exists>reg refs. resolveScenarios reg refs = Inr (en_groups e, en_weights e)"
    "\<exists>plan base. ec_Plan cfg = Some plan \<and> NewExecutor (tp_load plan) = Inr base \<and> en_executor e = newScaled base (ec_VUQuota cfg)"
  using assms by (auto simp: engine_New_def split: option.splits if_splits sum.splits) metis+

lemma engine_New_inv:
  assumes "engine_New mh cfg = Inr e" "in_i64 (ec_VUIDBase cfg)"
  shows "engine_inv (Controlling, e)"
proof -
  note f = engine_New_fields[OF assms(1)]
  have "pooled e = []" "en_weights e = map g_weight (en_groups e)" using f(6) resolveScenarios_fresh by (auto simp: pooled_def)
  then show ?thesis using assms(2) by (simp add: engine_inv_def pool_ok_def f(1-5) users_in_def stages_def i64_id)
qed

lemma user_step_frame:
  assumes "user_step mh e k ev = Some e'"
  shows "en_groups e' = en_groups e" "en_cfg e' = en_cfg e" "length (en_vus e') = length (en_vus e)" "en_cancelled e' = en_cancelled e"
    "en_limiter e' = en_limiter e"
  using assms
  by (auto simp: user_step_def Let_def guarded_def vu_started_def leave_def iterate_head_def limiter_wait_def begin_iteration_def
    end_loop_def vu_stopped_def vu_act_def iterate_end_def split_beta split: if_splits user_event.splits)

lemma engine_step_inv: "engine_step P mh s s' \<Longrightarrow> engine_inv s \<Longrightarrow> engine_inv s'"
proof (induction rule: engine_step.induct)
  case (turn e ev e') then show ?case using control_turn_pool(2) by (auto simp: engine_inv_def)
next
  case (over e ev req e') then show ?case using control_turn_pool(2)[OF over(2)] shutdown_begin_pool[of e' req] by (auto simp: engine_inv_def)
next
  case (user e k ev e' st) then show ?case using pool_ok_user[OF _ user(1)] user_step_frame(1)[OF user(1)] by (auto simp: engine_inv_def pooled_def)
next
  case (timer st e now) then show ?case using fire_timers_pool(1)[of e] fire_timers_pool(2)[of _ e] by (auto simp: engine_inv_def)
qed (auto simp: engine_inv_def engine_Stop_def engine_SetQuota_def shutdown_expire_def Let_def pooled_def intro!: pool_ok_view)

lemma engine_steps_inv:
  assumes "(engine_step P mh)\<^sup>*\<^sup>* (Controlling, e) s" "engine_New mh cfg = Inr e" "in_i64 (ec_VUIDBase cfg)"
  shows "engine_inv s"
  using assms(1) by (induction rule: rtranclp_induct) (use engine_New_inv[OF assms(2,3)] engine_step_inv in auto)

subsection \<open>A resize reaches the shares\<close>

lemma distinct_concat_nth:
  "distinct (concat xss) \<Longrightarrow> i < length xss \<Longrightarrow> j < length xss \<Longrightarrow> x \<in> set (xss ! i) \<Longrightarrow> x \<in> set (xss ! j) \<Longrightarrow> i = j"
proof (induction xss arbitrary: i j)
  case (Cons ys xss)
  show ?case
  proof (cases i; cases j)
    fix i' j' assume ij: "i = Suc i'" "j = Suc j'"
    then have "i' = j'" using Cons.IH[of i' j'] Cons.prems by simp
    with ij show "i = j" by simp
  qed (use Cons.prems in \<open>auto dest: nth_mem\<close>)
qed simp

lemma int_sum_list: "int (sum_list (map f xs)) = sum_list (map (\<lambda>x. int (f x)) xs)"
  by (induction xs) simp_all

lemma resize_kept:
  assumes ok: "pool_ok e" and k: "k \<in> set (pooled (resize mh now e n))" "k < length (en_vus e)"
  shows "en_vus (resize mh now e n) ! k = en_vus e ! k"
proof -
  define shares e' where "shares = Largest (if n < 0 then 0 else n) (en_weights e)" and "e' = resize mh now e n"
  have e': "e' = foldl (resize_group mh now shares) e [0..<length (en_groups e)]" by (simp add: e'_def shares_def resize_def Let_def)
  note r = resize_groups_pool[OF order_refl e']
  let ?gs = "\<lambda>i. g_vus (en_groups e ! i)"
  have "length (en_groups e') = length (en_groups e)" using r by (simp add: pool_ext_def)
  moreover obtain g where "g \<in> set (en_groups e')" "k \<in> set (g_vus g)" using k(1) by (auto simp: pooled_def e'_def)
  ultimately obtain i where i: "i < length (en_groups e)" "k \<in> set (g_vus (en_groups e' ! i))" by (metis in_set_conv_nth)
  then have ki: "k \<in> set (take (nat (shares ! i)) (?gs i))" using r k(2) by fastforce
  have d: "distinct (concat (map g_vus (en_groups e)))" using ok by (simp add: pool_ok_def pooled_def)
  have "k \<notin> set (drop (nat (shares ! j)) (?gs j))" if "j < length (en_groups e)" for j
  proof
    assume kj: "k \<in> set (drop (nat (shares ! j)) (?gs j))"
    have "i = j" using distinct_concat_nth[OF d, of i j k] i(1) that in_set_takeD[OF ki] in_set_dropD[OF kj] by simp
    moreover have "distinct (?gs j)" using d that by (auto simp: distinct_concat_iff)
    ultimately show False using ki kj set_take_disj_set_drop_if_distinct[of "?gs j" "nat (shares ! j)"] by blast
  qed
  then show ?thesis using r k(2) by (simp flip: e'_def)
qed

lemma resize_sizes:
  assumes ok: "pool_ok e" and n: "n \<le> 0 \<or> fits n (en_weights e)"
  shows "map (int \<circ> length \<circ> g_vus) (en_groups (resize mh now e n)) = Largest (max n 0) (en_weights e)"
proof (rule nth_equalityI)
  define shares e' where "shares = Largest (max n 0) (en_weights e)" and "e' = resize mh now e n"
  have e': "e' = foldl (resize_group mh now shares) e [0..<length (en_groups e)]"
    by (simp add: e'_def shares_def resize_def Let_def max_def)
  note r = resize_groups_pool[OF order_refl e']
  have len: "length (en_weights e) = length (en_groups e)" using ok by (simp add: pool_ok_def)
  then show "length (map (int \<circ> length \<circ> g_vus) (en_groups e')) = length shares"
    using r by (simp add: pool_ext_def shares_def)
  show "map (int \<circ> length \<circ> g_vus) (en_groups e') ! i = shares ! i" if "i < length (map (int \<circ> length \<circ> g_vus) (en_groups e'))" for i
  proof -
    have i: "i < length (en_groups e)" using that r by (simp add: pool_ext_def)
    obtain fresh where "g_vus (en_groups e' ! i) = take (nat (shares ! i)) (g_vus (en_groups e ! i)) @ fresh"
      "length fresh = nat (shares ! i) - length (g_vus (en_groups e ! i))" using r i by force
    moreover have "0 \<le> shares ! i"
      unfolding shares_def by (rule Largest_nonneg[of "max n 0" "en_weights e"]) (use n i len in \<open>auto simp: max_def\<close>)
    ultimately show ?thesis using that by simp
  qed
qed

text \<open>
  C19. A resize brings the pool of any running engine to the asked size: every scenario ends with
  exactly its share of the total by weight, a user the pool keeps is not disturbed, and one it
  drops has been asked to stop.
\<close>

theorem resize_reaches_shares:
  assumes "engine_New mh cfg = Inr e0" and "in_i64 (ec_VUIDBase cfg)" and "(engine_step P mh)\<^sup>*\<^sup>* (Controlling, e0) (Controlling, e)"
    and "n \<le> 0 \<or> fits n (en_weights e)" and "e' = resize mh now e n"
  shows "map (int \<circ> length \<circ> g_vus) (en_groups e') = Largest (max n 0) (en_weights e) \<and>
    int (length (pooled e')) = max n 0 \<and>
    (\<forall>k \<in> set (pooled e'). k < length (en_vus e) \<longrightarrow> en_vus e' ! k = en_vus e ! k) \<and>
    (\<forall>k \<in> set (pooled e). k \<notin> set (pooled e') \<longrightarrow> soft_done e' k)"
proof -
  have ok: "pool_ok e" using engine_steps_inv[OF assms(3,1,2)] by (simp add: engine_inv_def)
  have ok': "pool_ok e'" "length (en_vus e) \<le> length (en_vus e')"
    using resize_pool(2)[OF ok] pool_ext_length[OF resize_pool(1)] by (simp_all add: assms(5))
  have "int (length (pooled e')) = sum_list (map (int \<circ> length \<circ> g_vus) (en_groups e'))"
    by (simp add: pooled_def length_concat comp_def int_sum_list)
  also have "\<dots> = max n 0" using resize_sizes[OF ok assms(4)] sum_Largest[of "max n 0"] assms(4)
    by (auto simp: assms(5) max_def)
  finally show ?thesis using resize_sizes[OF ok assms(4)] resize_kept[OF ok] ok ok' by (auto simp: assms(5) pool_ok_def)
qed

subsection \<open>Identities and counters\<close>

lemma i64_inj: "i64 x = i64 y \<Longrightarrow> \<bar>x - y\<bar> < 2 ^ 64 \<Longrightarrow> x = y"
proof -
  assume "i64 x = i64 y" and b: "\<bar>x - y\<bar> < 2 ^ 64"
  then have "(x + 2 ^ 63) mod 2 ^ 64 = (y + 2 ^ 63) mod 2 ^ 64" by (simp add: i64_def)
  then have "2 ^ 64 dvd (x + 2 ^ 63) - (y + 2 ^ 63)" by (rule mod_eq_dvd_iff[THEN iffD1])
  then have "2 ^ 64 dvd x - y" by simp
  then show "x = y" using b zdvd_imp_le[of "2 ^ 64" "\<bar>x - y\<bar>"] by (cases "x = y") auto
qed

text \<open>
  At every moment of a run the engine's books are right: the active count is the number of
  virtual users whose goroutine has not ended, no two users of the run have ever shared an id,
  and the iteration counter is the number of iterations its users have completed.
\<close>

theorem pool_accounts:
  assumes "engine_New mh cfg = Inr e0" and "in_i64 (ec_VUIDBase cfg)" and "(engine_step P mh)\<^sup>*\<^sup>* (Controlling, e0) (st, e)"
    and "length (en_vus e) \<le> 2 ^ 64"
  shows "en_activeVUs e = int (length (filter (\<lambda>h. vh_stage h \<noteq> VGone) (en_vus e))) \<and> distinct (map vh_id (en_vus e)) \<and>
    en_iterations e = word_of_int (sum_list (map vh_n (en_vus e)))"
proof -
  have ok: "pool_ok e" using engine_steps_inv[OF assms(3,1,2)] by (simp add: engine_inv_def)
  have "inj_on (\<lambda>k. i64 (b + int k)) {..<length (en_vus e)}" for b
  proof (rule inj_onI)
    fix x y assume "x \<in> {..<length (en_vus e)}" "y \<in> {..<length (en_vus e)}" "i64 (b + int x) = i64 (b + int y)"
    then show "x = y" using i64_inj[of "b + int x" "b + int y"] assms(4) by (simp add: abs_less_iff)
  qed
  then have "distinct (map vh_id (en_vus e))"
    using ok by (simp add: pool_ok_def distinct_map lessThan_atLeast0)
  moreover have "users_in live e = length (filter (\<lambda>h. vh_stage h \<noteq> VGone) (en_vus e))"
    by (simp add: users_in_def stages_def filter_map comp_def live_def)
  ultimately show ?thesis using ok by (simp add: pool_ok_def)
qed

subsection \<open>The iteration budget\<close>

lemma users_in_ext: "pool_ext e e' \<Longrightarrow> users_in in_flight e' = users_in in_flight e"
  by (auto simp: pool_ext_def users_in_def in_flight_def)

lemma unat_Suc_le: "unat (w + 1) \<le> unat w + 1" for w :: u64
  unfolding unat_word_ariths(1) by (rule order_trans[OF mod_less_eq_dividend]) simp

text \<open>Where an event takes the goroutine of a user, and from where.\<close>

fun from_stage :: "'v user_event \<Rightarrow> vu_stage set" where
  "from_stage (UStarted err) = {VStarting}"
| "from_stage UHead = {VIdle}"
| "from_stage (UWait err) = {VWaiting}"
| "from_stage (UEnd took err) = {VIterating}"
| "from_stage UStopped = {VStopping}"
| "from_stage (UAct a) = {VStarting, VIterating, VStopping}"

fun to_stage :: "'v Engine \<Rightarrow> nat \<Rightarrow> 'v user_event \<Rightarrow> vu_stage" where
  "to_stage e k (UStarted err) = (if err then VGone else VIdle)"
| "to_stage e k UHead = (let q = ec_IterationQuota (en_cfg e) in
     if soft_done e k \<or> q > 0 \<and> en_iterations e \<ge> q then VStopping else if en_limiter e \<noteq> None then VWaiting else VIterating)"
| "to_stage e k (UWait err) = (if err then VStopping else VIterating)"
| "to_stage e k (UEnd took err) = VIdle"
| "to_stage e k UStopped = VGone"
| "to_stage e k (UAct a) = vh_stage (en_vus e ! k)"

fun is_end :: "'v user_event \<Rightarrow> bool" where
  "is_end (UEnd took err) = True"
| "is_end _ = False"

fun is_act :: "'v user_event \<Rightarrow> bool" where
  "is_act (UAct a) = True"
| "is_act _ = False"

lemmas user_ops = vu_started_def leave_def iterate_head_def limiter_wait_def begin_iteration_def end_loop_def vu_stopped_def
  vu_act_def iterate_end_def

lemma user_step_stages:
  assumes "user_step mh e k ev = Some e'"
  shows "k < length (stages e)" "stages e ! k \<in> from_stage ev" "stages e' = (stages e)[k := to_stage e k ev]"
    "en_iterations e' = en_iterations e + (if is_end ev then 1 else 0)"
proof -
  show k: "k < length (stages e)" using assms by (simp add: user_step_def stages_def split: if_splits)
  show "stages e ! k \<in> from_stage ev" "en_iterations e' = en_iterations e + (if is_end ev then 1 else 0)"
    using assms k by (auto simp: user_step_def stages_def Let_def guarded_def user_ops split_beta split: if_splits user_event.splits)
  show "stages e' = (stages e)[k := to_stage e k ev]"
    using assms k by (cases ev) (auto simp: user_step_def stages_def upd_vu_def map_update Let_def guarded_def user_ops split_beta split: if_splits)
qed

lemma user_step_enabled:
  assumes "k < length (en_vus e)" "vh_stage (en_vus e ! k) \<noteq> VGone"
  shows "\<exists>ev. \<not> is_act ev \<and> user_step mh e k ev \<noteq> None"
proof (cases "vh_stage (en_vus e ! k)")
  case VStarting then show ?thesis using assms(1) by (intro exI[of _ "UStarted False"]) (simp add: user_step_def guarded_def)
next
  case VIdle then show ?thesis using assms(1) by (intro exI[of _ UHead]) (simp add: user_step_def guarded_def)
next
  case VWaiting then show ?thesis using assms(1) by (intro exI[of _ "UWait False"]) (simp add: user_step_def guarded_def)
next
  case VIterating then show ?thesis using assms(1) by (intro exI[of _ "UEnd 0 False"]) (simp add: user_step_def guarded_def)
next
  case VStopping then show ?thesis using assms(1) by (intro exI[of _ UStopped]) (simp add: user_step_def guarded_def)
qed (use assms(2) in simp)

lemma user_flight:
  assumes "user_step mh e k ev = Some e'" "0 < ec_IterationQuota (en_cfg e)"
  shows "unat (en_iterations e') + users_in in_flight e' \<le> unat (en_iterations e) + users_in in_flight e \<or>
    en_iterations e' < ec_IterationQuota (en_cfg e)"
proof -
  note s = user_step_stages[OF assms(1)]
  have "users_in in_flight e' + (if in_flight (stages e ! k) then 1 else 0) =
      users_in in_flight e + (if in_flight (to_stage e k ev) then 1 else 0)"
    using filter_update[OF s(1), of in_flight "to_stage e k ev"] by (simp add: users_in_def s(3))
  then show ?thesis using s(2,4) s(1) unat_Suc_le[of "en_iterations e"] assms(2)
    by (cases ev) (auto simp: in_flight_def Let_def stages_def not_le split: if_splits)
qed

lemma step_flight:
  assumes "engine_step P mh s s'" "engine_inv s" "0 < ec_IterationQuota (en_cfg (snd s))"
  shows "en_cfg (snd s') = en_cfg (snd s) \<and>
    (unat (en_iterations (snd s')) + users_in in_flight (snd s') \<le> unat (en_iterations (snd s)) + users_in in_flight (snd s) \<or>
     en_iterations (snd s') < ec_IterationQuota (en_cfg (snd s)))"
  using assms
proof (cases rule: engine_step.cases)
  case (turn e ev e')
  then show ?thesis using control_turn_pool(1)[OF turn(4)] users_in_ext[of e e'] by (simp add: pool_ext_def)
next
  case (over e ev req e')
  have "pool_ok e'" using assms(2) control_turn_pool(2)[OF over(4)] over(1) by (simp add: engine_inv_def)
  then show ?thesis using over control_turn_pool(1)[OF over(4)] users_in_ext[of e e'] shutdown_begin_pool[of e' req]
    by (simp add: pool_ext_def users_in_def)
next
  case (user e k ev e' st)
  then show ?thesis using user_flight[OF user(3)] user_step_frame(2)[OF user(3)] assms(3) by simp
next
  case (timer st e now)
  then show ?thesis using fire_timers_pool(3,4,5)[of now e] by (simp add: users_in_def)
qed (auto simp: engine_Stop_def engine_SetQuota_def shutdown_expire_def Let_def users_in_def stages_def)

text \<open>
  C20. A node overshoots its iteration budget by less than one pool: while no more than \<open>M\<close> virtual
  users run at any moment, the completed iterations and those under way together stay below the
  quota plus \<open>M\<close>, whatever the scenarios, the limiter, the operator and the timers do.
\<close>

theorem iteration_budget:
  assumes "engine_New mh cfg = Inr e0" and "in_i64 (ec_VUIDBase cfg)" and "0 < ec_IterationQuota cfg"
    and "(\<lambda>s s'. engine_step P mh s s' \<and> en_activeVUs (snd s') \<le> int M)\<^sup>*\<^sup>* (Controlling, e0) (st, e)"
  shows "unat (en_iterations e) + length (filter (\<lambda>h. vh_stage h = VWaiting \<or> vh_stage h = VIterating) (en_vus e))
    < unat (ec_IterationQuota cfg) + M"
proof -
  let ?q = "ec_IterationQuota cfg"
  have q: "0 < unat ?q" using assms(3) by (simp add: word_less_nat_alt)
  have "engine_inv s \<and> en_cfg (snd s) = cfg \<and> unat (en_iterations (snd s)) + users_in in_flight (snd s) < unat ?q + M"
    if "(\<lambda>s s'. engine_step P mh s s' \<and> en_activeVUs (snd s') \<le> int M)\<^sup>*\<^sup>* (Controlling, e0) s" for s
    using that
  proof (induction rule: rtranclp_induct)
    case base then show ?case using engine_New_inv[OF assms(1,2)] engine_New_fields[OF assms(1)] q by (simp add: users_in_def stages_def)
  next
    case (step s s')
    have inv: "engine_inv s'" using engine_step_inv step by blast
    then have "users_in in_flight (snd s') \<le> M"
      using step(2) users_in_le[of "snd s'"] by (simp add: engine_inv_def pool_ok_def)
    moreover have "unat (en_iterations (snd s')) < unat ?q" if "en_iterations (snd s') < ?q" using that by (simp add: word_less_nat_alt)
    ultimately show ?case using step_flight[of P mh s s'] step assms(3) inv by auto
  qed
  from this[OF assms(4)] show ?thesis by (simp add: users_in_def stages_def filter_map comp_def in_flight_def)
qed

subsection \<open>A stopped run drains\<close>

fun stage_left :: "vu_stage \<Rightarrow> nat" where
  "stage_left VWaiting = 4"
| "stage_left VStarting = 3"
| "stage_left VIterating = 3"
| "stage_left VIdle = 2"
| "stage_left VStopping = 1"
| "stage_left VGone = 0"

definition drain_left :: "'v Engine \<Rightarrow> nat" where
  "drain_left e = sum_list (map stage_left (stages e))"

lemma drain_left_bound: "drain_left e \<le> 4 * length (en_vus e)"
proof -
  have "sum_list (map stage_left xs) \<le> 4 * length xs" for xs
  proof (induction xs)
    case (Cons x xs) then show ?case by (cases x) simp_all
  qed simp
  then show ?thesis unfolding drain_left_def by (metis length_map stages_def)
qed

lemma sum_list_update_nat: "k < length xs \<Longrightarrow> sum_list (xs[k := y]) + xs ! k = sum_list xs + y" for xs :: "nat list"
  by (induction xs arbitrary: k) (auto simp: nth_Cons split: nat.splits)

lemma user_step_drains:
  assumes "user_step mh e k ev = Some e'" "soft_done e k"
  shows "drain_left e' + (if is_act ev then 0 else 1) \<le> drain_left e"
proof -
  note s = user_step_stages[OF assms(1)]
  have "drain_left e' + stage_left (stages e ! k) = drain_left e + stage_left (to_stage e k ev)"
    using sum_list_update_nat[of k "map stage_left (stages e)" "stage_left (to_stage e k ev)"] s(1) by (simp add: drain_left_def s(3) map_update)
  then show ?thesis using s(1,2) assms(2) by (cases ev) (auto simp: Let_def stages_def split: if_splits)
qed

lemma user_step_soft: "user_step mh e k ev = Some e' \<Longrightarrow> soft_done e j \<Longrightarrow> soft_done e' j"
  by (auto simp: user_step_def Let_def guarded_def user_ops soft_done_def upd_vu_nth split_beta split: if_splits user_event.splits)

lemma run_users_drains:
  assumes "run_users mh e evs = Some e'" "\<And>k. k < length (en_vus e) \<Longrightarrow> soft_done e k"
  shows "drain_left e' + length (filter (\<lambda>(k, ev). \<not> is_act ev) evs) \<le> drain_left e \<and> length (en_vus e') = length (en_vus e)"
  using assms
proof (induction mh e evs rule: run_users.induct)
  case (2 mh e k ev evs)
  then obtain e1 where e1: "user_step mh e k ev = Some e1" "run_users mh e1 evs = Some e'" by (auto split: option.splits)
  have k: "k < length (en_vus e)" using user_step_stages(1)[OF e1(1)] by (simp add: stages_def)
  show ?case
    using 2(1)[OF e1] user_step_soft[OF e1(1)] user_step_frame(3)[OF e1(1)] user_step_drains[OF e1(1)] 2(3) k by (auto split: if_splits)
qed simp

text \<open>
  C18. A run that has been told to stop drains: from there on, whatever the order in which the virtual
  users go on, they take at most four steps each besides what their scenarios do inside a hook or
  an iteration, and once none of them can take another step all have left and \<open>Run\<close> returns.
\<close>

theorem drain_terminates:
  assumes "engine_New mh cfg = Inr e0" and "in_i64 (ec_VUIDBase cfg)" and "(engine_step P mh)\<^sup>*\<^sup>* (Controlling, e0) (Draining, e)"
    and "run_users mh e evs = Some e'"
  shows "length (filter (\<lambda>(k, ev). \<not> is_act ev) evs) \<le> 4 * length (en_vus e) \<and>
    ((\<forall>k ev. \<not> is_act ev \<longrightarrow> user_step mh e' k ev = None) \<longrightarrow> engine_step P mh (Draining, e') (Finished, e'))"
proof -
  have "pool_ok e" "pooled e = []" using engine_steps_inv[OF assms(3,1,2)] by (simp_all add: engine_inv_def)
  then have "\<And>k. k < length (en_vus e) \<Longrightarrow> soft_done e k" by (simp add: pool_ok_def)
  note d = run_users_drains[OF assms(4) this]
  have "wait_done e'" if "\<forall>k ev. \<not> is_act ev \<longrightarrow> user_step mh e' k ev = None"
    unfolding wait_done_def using that user_step_enabled[of _ e' mh] by (metis in_set_conv_nth)
  then show ?thesis using d drain_left_bound[of e] by (auto intro: engine_step.drained)
qed

subsection \<open>The control loop ends with the profile\<close>

lemma control_past_end:
  assumes "Tick now \<in> set evs" "0 < d" "d < 2 ^ 63" "ec_StartAt (en_cfg e) + d \<le> now" "d = scaled_Duration (en_executor e)"
  shows "\<exists>req e'. control P mh e evs = Some (req, e') \<and> ((\<forall>ev \<in> set evs. \<exists>t. ev = Tick t) \<longrightarrow> rq_graceful req)"
  using assms
proof (induction evs arbitrary: e)
  case (Cons ev evs)
  obtain r e1 where t: "control_turn P mh e ev = (r, e1)" by force
  note x = control_turn_pool(1)[OF t]
  show ?case
  proof (cases r)
    case None
    have "d \<le> time_Sub now (ec_StartAt (en_cfg e))" using Cons.prems by (intro time_Sub_ge) simp_all
    then have "ev \<noteq> Tick now" using t None Cons.prems(2,5) by (auto simp: control_turn_def Let_def)
    then have "Tick now \<in> set evs" using Cons.prems(1) by auto
    moreover have "en_cfg e1 = en_cfg e" "en_executor e1 = en_executor e" using x by (simp_all add: pool_ext_def)
    ultimately obtain req e' where "control P mh e1 evs = Some (req, e')" "(\<forall>ev \<in> set evs. \<exists>t. ev = Tick t) \<longrightarrow> rq_graceful req"
      using Cons.IH[of e1] Cons.prems(2-5) by metis
    then show ?thesis using t None by simp
  next
    case (Some req)
    then show ?thesis using t by (auto simp: control_turn_def Let_def split: if_splits)
  qed
qed simp

text \<open>
  The control loop ends: with a tick every 100 ms it returns no later than the first tick at or
  after the end of a profile that has one, and with nothing but ticks the end it orders is graceful.
\<close>

theorem control_returns:
  assumes "d = scaled_Duration (en_executor e)" and "0 < d" and "d < 2 ^ 63"
    and "ec_StartAt (en_cfg e) + d \<le> t0 + int n * tickInterval"
  shows "\<exists>req e'. control P mh e (map (\<lambda>i. Tick (t0 + int i * tickInterval)) [0..<Suc n]) = Some (req, e') \<and> rq_graceful req"
  using control_past_end[of "t0 + int n * tickInterval" "map (\<lambda>i. Tick (t0 + int i * tickInterval)) [0..<Suc n]", OF _ assms(2-4,1)] by auto

subsection \<open>A small engine\<close>

definition demo_scenario :: Scenario where
  "demo_scenario = \<lparr>sc_Name = ''browse'', sc_Weight = 0, sc_Description = [], sc_HasRun = True\<rparr>"

definition demo_constant :: load_profile where
  "demo_constant = \<lparr>lp_executor = EXECUTOR_TYPE_CONSTANT_VUS, lp_vus = 2, lp_duration = time_Second, lp_stages = [],
     lp_max_iterations_per_second = 0, lp_graceful_stop = 0, lp_iterations = 0\<rparr>"

definition demo_engine_plan :: test_plan where
  "demo_engine_plan = demo_plan\<lparr>tp_scenarios := [(''browse'', 1)], tp_load := Some demo_constant\<rparr>"

definition demo_engine_cfg :: EngineConfig where
  "demo_engine_cfg = \<lparr>ec_Plan = Some demo_engine_plan, ec_Registry = Some [(''browse'', demo_scenario)], ec_Recorder = True, ec_HTTP = True,
     ec_StartAt = 0, ec_VUQuota = 2, ec_IterationRateQuota = 0, ec_IterationQuota = 3, ec_VUIDBase = 0,
     ec_Shard = \<lparr>sh_Index = 0, sh_Count = 1\<rparr>\<rparr>"

definition demo_engine :: "unit Engine" where
  "demo_engine = \<lparr>en_cfg = demo_engine_cfg, en_executor = newScaled (Constant \<lparr>c_vus = 2, c_duration = time_Second\<rparr>) 2,
     en_groups = [\<lparr>g_scenario = demo_scenario, g_weight = 1, g_vus = []\<rparr>], en_weights = [1], en_graceful = DefaultGracefulStop,
     en_planTags = LabelsFromMap (\<lambda>_. 0) [], en_limiter = None, en_activeVUs = 0, en_iterations = 0, en_nextVUID = 0, en_stop = None,
     en_stopped = False, en_cancelled = False, en_vus = [], en_timers = [], en_reports = []\<rparr>"

lemma demo_engine_New: "engine_New (\<lambda>_. 0) demo_engine_cfg = Inr demo_engine"
proof -
  have "NewExecutor (Some demo_constant) = Inr (Constant \<lparr>c_vus = 2, c_duration = time_Second\<rparr>)"
    by (simp add: NewExecutor_def newConstantVUs_def demo_constant_def)
  moreover have "resolveScenarios [(''browse'', demo_scenario)] [(''browse'', 1)] =
      Inr ([\<lparr>g_scenario = demo_scenario, g_weight = 1, g_vus = []\<rparr>], [1])"
    by (simp add: resolveScenarios_def scenario_Lookup_def)
  moreover have "graceful_of (Some demo_constant) = DefaultGracefulStop" by (simp add: graceful_of_def demo_constant_def)
  ultimately show ?thesis by (simp add: engine_New_def demo_engine_cfg_def demo_engine_plan_def demo_engine_def demo_plan_def)
qed

lemma demo_base: "in_i64 (ec_VUIDBase demo_engine_cfg)" "ec_IterationQuota demo_engine_cfg = 3"
  by (simp_all add: demo_engine_cfg_def in_i64_def)

theorem resize_reaches_shares_witness:
  "int (length (pooled (resize (\<lambda>_. 0) 5 demo_engine 2))) = 2"
  using resize_reaches_shares[OF demo_engine_New demo_base(1) rtranclp.rtrancl_refl, of 2 _ 5]
  by (simp add: demo_engine_def fits_def pos_sum_def)

abbreviation (input) demo_platform :: platform where "demo_platform \<equiv> \<lparr>fused = False, oob = (\<lambda>_. 0)\<rparr>"

text \<open>Its first tick starts two users; then the run is told to stop.\<close>

definition demo_pool :: "unit Engine" where
  "demo_pool = reportGauges (\<lambda>_. 0) (startVU (\<lambda>_. 0) (startVU (\<lambda>_. 0) demo_engine 0) 0)"

lemma demo_first_tick: "control_turn demo_platform (\<lambda>_. 0) demo_engine (Tick 0) = (None, demo_pool)"
proof -
  have t: "scaled_TargetAt demo_platform (en_executor demo_engine) 0 = 2"
    by (simp add: demo_engine_def scaled_TargetAt_def newScaled_def quotaAt_def scale_share_def constant_TargetAt_def)
  have "Largest 2 [1] = [2]" by code_simp
  moreover have "en_weights demo_engine = [1]" "length (en_groups demo_engine) = 1" "g_vus (en_groups demo_engine ! 0) = []"
    by (simp_all add: demo_engine_def)
  ultimately have "resize (\<lambda>_. 0) 0 demo_engine 2 = startVU (\<lambda>_. 0) (startVU (\<lambda>_. 0) demo_engine 0) 0"
    by (simp add: resize_def resize_group_def Let_def numeral_2_eq_2)
  moreover have "scaled_Duration (en_executor demo_engine) = time_Second" "en_iterations demo_engine = 0"
    "ec_StartAt (en_cfg demo_engine) = 0" "ec_IterationQuota (en_cfg demo_engine) = 3"
    by (simp_all add: demo_engine_def scaled_Duration_def newScaled_def demo_engine_cfg_def)
  ultimately show ?thesis by (simp add: control_turn_def Let_def t demo_pool_def time_Sub_def)
qed

lemma started_fields:
  "en_activeVUs (startVU mh e i) = en_activeVUs e + 1" "en_stop (startVU mh e i) = en_stop e" "en_stopped (startVU mh e i) = en_stopped e"
  "en_iterations (startVU mh e i) = en_iterations e" "map vh_stage (en_vus (startVU mh e i)) = map vh_stage (en_vus e) @ [VStarting]"
  by (simp_all add: startVU_def Let_def)

lemma demo_pool_vus: "map vh_stage (en_vus demo_pool) = [VStarting, VStarting]" "en_activeVUs demo_pool = 2" "en_stop demo_pool = None"
  "en_stopped demo_pool = False" "en_iterations demo_pool = 0"
  by (simp_all add: demo_pool_def reportGauges_def started_fields) (simp_all add: demo_engine_def)

lemma demo_reach: "engine_step demo_platform (\<lambda>_. 0) (Controlling, demo_engine) (Controlling, demo_pool)"
  by (rule engine_step.turn[OF _ demo_first_tick]) simp

theorem pool_accounts_witness: "en_activeVUs demo_pool = 2 \<and> distinct (map vh_id (en_vus demo_pool)) \<and> en_iterations demo_pool = 0"
proof -
  have "length (en_vus demo_pool) = 2" using arg_cong[OF demo_pool_vus(1), of length] by simp
  then show ?thesis
    using pool_accounts[OF demo_engine_New demo_base(1) r_into_rtranclp, OF demo_reach] by (simp add: demo_pool_vus)
qed

theorem iteration_budget_witness: "unat (en_iterations demo_pool) < 5"
proof -
  have "engine_step demo_platform (\<lambda>_. 0) (Controlling, demo_engine) (Controlling, demo_pool) \<and> en_activeVUs (snd (Controlling, demo_pool)) \<le> int 2"
    using demo_reach demo_pool_vus(2) by simp
  from iteration_budget[where M = 2, OF demo_engine_New demo_base(1) _ r_into_rtranclp, OF _ this] show ?thesis by (simp add: demo_base)
qed

theorem control_returns_witness:
  "\<exists>req e'. control demo_platform (\<lambda>_. 0) demo_engine (map (\<lambda>i. Tick (0 + int i * tickInterval)) [0..<Suc 10]) = Some (req, e') \<and>
    rq_graceful req"
  by (rule control_returns[OF refl]) (simp_all add: demo_engine_def scaled_Duration_def newScaled_def demo_engine_cfg_def tickInterval_def)

definition demo_draining :: "unit Engine" where
  "demo_draining = shutdown_begin ((engine_Stop demo_pool True [])\<lparr>en_stop := None\<rparr>) \<lparr>rq_graceful = True, rq_reason = []\<rparr>"

lemma demo_drain_reach:
  "(engine_step demo_platform (\<lambda>_. 0))\<^sup>*\<^sup>* (Controlling, demo_engine) (Draining, demo_draining)"
proof -
  let ?s = "engine_step demo_platform (\<lambda>_. 0) :: run_stage \<times> unit Engine \<Rightarrow> _" and ?e = "engine_Stop demo_pool True []"
  have e: "en_stop ?e = Some \<lparr>rq_graceful = True, rq_reason = []\<rparr>" by (simp add: engine_Stop_def demo_pool_vus)
  have a: "?s (Controlling, demo_pool) (Controlling, ?e)" by (rule engine_step.ask)
  have ov: "?s (Controlling, ?e) (Draining, demo_draining)"
    unfolding demo_draining_def by (rule engine_step.over[of _ StopReceived]) (simp_all add: e control_turn_def)
  note c = converse_rtranclp_into_rtranclp[of ?s]
  show ?thesis by (rule c[OF demo_reach c[OF a c[OF ov rtranclp.rtrancl_refl]]])
qed

theorem drain_terminates_witness:
  "\<exists>e'. run_users (\<lambda>_. 0) demo_draining [(0, UStarted False), (0, UHead)] = Some e' \<and>
    length (filter (\<lambda>(k, ev). \<not> is_act ev) [(0 :: nat, UStarted False :: unit user_event), (0, UHead)]) \<le> 4 * length (en_vus demo_draining)"
proof -
  have "engine_inv (Controlling, demo_pool)" by (rule engine_step_inv[OF demo_reach engine_New_inv[OF demo_engine_New demo_base(1)]])
  then have ok: "pool_ok ((engine_Stop demo_pool True [])\<lparr>en_stop := None\<rparr>)"
    by (auto simp: engine_inv_def engine_Stop_def intro!: pool_ok_view)
  have "stages demo_draining = stages ((engine_Stop demo_pool True [])\<lparr>en_stop := None\<rparr>)"
    unfolding demo_draining_def by (rule shutdown_begin_pool(3)[OF ok])
  then have "map vh_stage (en_vus demo_draining) = [VStarting, VStarting]"
    using demo_pool_vus(1) by (simp add: stages_def engine_Stop_def split: if_splits)
  then have "0 < length (en_vus demo_draining)" "vh_stage (en_vus demo_draining ! 0) = VStarting" by auto
  then have "\<exists>e'. run_users (\<lambda>_. 0) demo_draining [(0, UStarted False), (0, UHead)] = Some e'"
    by (simp add: user_step_def guarded_def vu_started_def upd_vu_nth)
  then show ?thesis using drain_terminates[OF demo_engine_New demo_base(1) demo_drain_reach] by blast
qed

end
