(* ===== verification/WorkerProps.thy ===== *)
theory WorkerProps
  imports Worker EngineProps "HOL-Library.Sublist"
begin

text \<open>
  The worker as a step relation over its commands, its engine, its reporting loop and the end of
  a run, with what it sent as a trace. The lemmas show that no bucket of a run is reported twice,
  and that a run's batches add up to what its engine recorded.
\<close>

subsection \<open>The worker as a step relation\<close>

text \<open>The trace keeps every flushed batch with the run it is for, and the runs that ended.\<close>

record ('h, 'v) worker_trace =
  wt_worker :: "('h, 'v) Worker"
  wt_batches :: "(nat \<times> MetricBatch) list"
  wt_ended :: "('h, 'v) activeRun list"

definition trace_start :: "('h, 'v) Worker \<Rightarrow> ('h, 'v) worker_trace" where
  "trace_start w = \<lparr>wt_worker = w, wt_batches = [], wt_ended = []\<rparr>"

definition run_batches :: "nat \<Rightarrow> ('h, 'v) worker_trace \<Rightarrow> MetricBatch list" where
  "run_batches ref t = map snd (filter (\<lambda>p. fst p = ref) (wt_batches t))"

abbreviation with_worker :: "('h, 'v) worker_trace \<Rightarrow> ('h, 'v) Worker \<Rightarrow> ('h, 'v) worker_trace" where
  "with_worker t w \<equiv> t\<lparr>wt_worker := w\<rparr>"

definition trace_flush ::
  "'h flush_env \<Rightarrow> ('h, 'v) worker_trace \<Rightarrow> ('h, 'v) activeRun \<Rightarrow> reporting \<Rightarrow> reporting option \<Rightarrow> ('h, 'v) worker_trace" where
  "trace_flush F t run rp rp' =
     (let (batch, w) = worker_flush F (wt_worker t) run (report_bucket rp) (rp_interval rp)
      in t\<lparr>wt_worker := upd_active (\<lambda>run. run\<lparr>ar_report := rp'\<rparr>) w, wt_batches := wt_batches t @ [(ar_ref run, batch)]\<rparr>)"

text \<open>
  A report carries labels of the type \<open>Labels\<close>, which only its constructors make. \<open>aborted\<close> is
  the return of \<open>engine.Run\<close> before its control loop: a setup hook failed, or the context ended.
\<close>

definition report_labels :: "(string \<Rightarrow> u64) \<Rightarrow> int option \<times> observation \<Rightarrow> bool" where
  "report_labels mh report \<longleftrightarrow> labels_ok mh (fst (snd (snd report)))"

inductive worker_step ::
  "worker_env \<Rightarrow> platform \<Rightarrow> 'h flush_env \<Rightarrow> ('h, 'v) worker_trace \<Rightarrow> ('h, 'v) worker_trace \<Rightarrow> bool" for E P F where
  accepted: "w = wt_worker t \<Longrightarrow> wk_waiting w = None \<Longrightarrow>
    worker_step E P F t (with_worker t (snd (worker_OnAccepted w m)))"
| start_run: "w = wt_worker t \<Longrightarrow> wk_waiting w = None \<Longrightarrow>
    worker_step E P F t (with_worker t (snd (worker_OnStartRun E w msg)))"
| resumed: "w = wt_worker t \<Longrightarrow> worker_step E P F t (with_worker t (snd (start_resumed E w)))"
| set_quota: "w = wt_worker t \<Longrightarrow> wk_waiting w = None \<Longrightarrow>
    worker_step E P F t (with_worker t (snd (worker_OnSetQuota E P now w q)))"
| stop_run: "w = wt_worker t \<Longrightarrow> wk_waiting w = None \<Longrightarrow>
    worker_step E P F t (with_worker t (snd (worker_OnStopRun E w s)))"
| shutdown: "w = wt_worker t \<Longrightarrow> worker_step E P F t (with_worker t (worker_stopRun True reason w))"
| executing: "w = wt_worker t \<Longrightarrow> wk_run w = Some run \<Longrightarrow> \<not> ar_started run \<Longrightarrow>
    worker_step E P F t (with_worker t (execute_begin now w run))"
| engine: "w = wt_worker t \<Longrightarrow> wk_run w = Some run \<Longrightarrow> ar_started run \<Longrightarrow>
    engine_step P (we_hash E) (ar_stage run, ar_engine run) (stage, e) \<Longrightarrow>
    en_reports e = en_reports (ar_engine run) @ reports \<Longrightarrow> list_all (report_labels (we_hash E)) reports \<Longrightarrow>
    record_reports P (fe_hdr F) (ar_recorder run) reports = Some r \<Longrightarrow>
    worker_step E P F t (with_worker t (upd_active (\<lambda>run. run\<lparr>ar_stage := stage, ar_engine := e, ar_recorder := r\<rparr>) w))"
| aborted: "w = wt_worker t \<Longrightarrow> wk_run w = Some run \<Longrightarrow> ar_started run \<Longrightarrow> ar_stage run = Controlling \<Longrightarrow>
    en_vus (ar_engine run) = [] \<Longrightarrow>
    worker_step E P F t (with_worker t (upd_active (\<lambda>run. run\<lparr>ar_stage := Finished\<rparr>) w))"
| tick: "wk_run (wt_worker t) = Some run \<Longrightarrow> ar_report run = Some rp \<Longrightarrow> rp_next rp \<le> now \<Longrightarrow>
    worker_step E P F t (trace_flush F t run rp (Some (report_advance rp now)))"
| last_flush: "wk_run (wt_worker t) = Some run \<Longrightarrow> ar_report run = Some rp \<Longrightarrow> ar_cancelled run \<or> ar_stage run = Finished \<Longrightarrow>
    worker_step E P F t (trace_flush F t run rp None)"
| ended: "w = wt_worker t \<Longrightarrow> wk_run w = Some run \<Longrightarrow> ar_started run \<Longrightarrow> ar_stage run = Finished \<Longrightarrow> ar_report run = None \<Longrightarrow>
    worker_step E P F t (t\<lparr>wt_worker := execute_end w run err, wt_ended := wt_ended t @ [run]\<rparr>)"

subsection \<open>Delivering reports\<close>

definition series_count :: "string \<Rightarrow> labels \<Rightarrow> (int option \<times> observation) list \<Rightarrow> nat" where
  "series_count metric ls xs = length (filter (\<lambda>(vu, m, l, c). (m, l) = (metric, ls)) xs)"

lemma series_count_simps [simp]:
  "series_count metric ls [] = 0" "series_count metric ls (xs @ ys) = series_count metric ls xs + series_count metric ls ys"
  by (simp_all add: series_count_def)

lemma rec_ok_rr [simp]: "rec_ok mh (r\<lparr>re_rr := n\<rparr>) = rec_ok mh r" "held (r\<lparr>re_rr := n\<rparr>) = held r"
  by (auto simp: rec_ok_def masks_ok_def cap_ok_def held_def fun_eq_iff)

lemma record_call_spec:
  assumes "rec_ok mh r" "labels_ok mh ls"
  obtains r' where "record_call P L r metric ls hint call = Some r'" "rec_ok mh r'"
    "re_dropped r' = re_dropped r + 1 \<and> held r' = held r \<or>
     re_dropped r' = re_dropped r \<and>
     (\<forall>metric' ls'. held r' metric' ls' = held r metric' ls' + (if (metric', ls') = (metric, ls) then 1 else 0))"
  using rec_record_spec[OF assms, of P L _ metric _ _ hint] that
  by (cases call) (simp_all add: record_call_def, blast+)

lemma record_report_spec:
  assumes "rec_ok mh r" "report_labels mh x"
  obtains r' taken where "record_report P L r x = Some r'" "rec_ok mh r'" "subseq taken [x]"
    "re_dropped r' + of_nat (length taken) = re_dropped r + 1"
    "\<And>metric ls. held r' metric ls = held r metric ls + of_nat (series_count metric ls taken)"
proof -
  obtain vu metric ls call where x: "x = (vu, metric, ls, call)" by (cases x) auto
  have ls: "labels_ok mh ls" using assms(2) by (simp add: report_labels_def x)
  define r0 where "r0 = (if vu = None then r\<lparr>re_rr := re_rr r + 1\<rparr> else r)"
  have r0: "rec_ok mh r0" "re_dropped r0 = re_dropped r" "held r0 = held r" using assms(1) by (simp_all add: r0_def)
  obtain hint where d: "record_report P L r x = record_call P L r0 metric ls hint call"
    by (cases vu) (auto simp: record_report_def x r0_def pinned_call_def shared_call_def Let_def)
  obtain r' where r': "record_call P L r0 metric ls hint call = Some r'" "rec_ok mh r'"
    "re_dropped r' = re_dropped r0 + 1 \<and> held r' = held r0 \<or> re_dropped r' = re_dropped r0 \<and>
     (\<forall>metric' ls'. held r' metric' ls' = held r0 metric' ls' + (if (metric', ls') = (metric, ls) then 1 else 0))"
    by (rule record_call_spec[OF r0(1) ls])
  from r'(3) show thesis
  proof
    assume "re_dropped r' = re_dropped r0 + 1 \<and> held r' = held r0"
    then show thesis using that[of r' "[]"] d r' r0 by simp
  next
    assume "re_dropped r' = re_dropped r0 \<and>
     (\<forall>metric' ls'. held r' metric' ls' = held r0 metric' ls' + (if (metric', ls') = (metric, ls) then 1 else 0))"
    then show thesis using that[of r' "[x]"] d r' r0 by (auto simp: x series_count_def)
  qed
qed

lemma record_reports_spec:
  assumes "rec_ok mh r" "list_all (report_labels mh) xs"
  obtains r' taken where "record_reports P L r xs = Some r'" "rec_ok mh r'" "subseq taken xs"
    "re_dropped r' + of_nat (length taken) = re_dropped r + of_nat (length xs)"
    "\<And>metric ls. held r' metric ls = held r metric ls + of_nat (series_count metric ls taken)"
  using assms
proof (induction xs arbitrary: r thesis)
  case Nil then show thesis using Nil.prems(1)[of r "[]"] by simp
next
  case (Cons x xs)
  obtain r1 t1 where 1: "record_report P L r x = Some r1" "rec_ok mh r1" "subseq t1 [x]"
    "re_dropped r1 + of_nat (length t1) = re_dropped r + 1"
    "\<And>metric ls. held r1 metric ls = held r metric ls + of_nat (series_count metric ls t1)"
    using record_report_spec[of mh r x P L] Cons.prems by auto
  obtain r2 t2 where 2: "record_reports P L r1 xs = Some r2" "rec_ok mh r2" "subseq t2 xs"
    "re_dropped r2 + of_nat (length t2) = re_dropped r1 + of_nat (length xs)"
    "\<And>metric ls. held r2 metric ls = held r1 metric ls + of_nat (series_count metric ls t2)"
    using Cons.IH[of r1] 1(2) Cons.prems(3) by auto
  have "subseq (t1 @ t2) (x # xs)" using list_emb_append_mono[OF 1(3) 2(3)] by simp
  moreover have "re_dropped r2 + of_nat (length (t1 @ t2)) = (re_dropped r2 + of_nat (length t2)) + of_nat (length t1)" by (simp add: ac_simps)
  then have "re_dropped r2 + of_nat (length (t1 @ t2)) = (re_dropped r1 + of_nat (length t1)) + of_nat (length xs)"
    unfolding 2(4) by (simp add: ac_simps)
  then have "re_dropped r2 + of_nat (length (t1 @ t2)) = re_dropped r + of_nat (length (x # xs))"
    unfolding 1(4) by (simp add: ac_simps)
  ultimately show thesis
    using Cons.prems(1)[of r2 "t1 @ t2"] 1(1,5) 2(1,2,5) by (simp add: algebra_simps)
qed

subsection \<open>What the steps keep\<close>

definition on_grid :: "duration \<Rightarrow> go_time \<Rightarrow> bool" where
  "on_grid d t \<longleftrightarrow> d dvd t - zero_time"

lemma on_grid_add: "on_grid d (t + d) \<longleftrightarrow> on_grid d t" "on_grid d (t - d) \<longleftrightarrow> on_grid d t"
proof -
  have "t + d - zero_time = (t - zero_time) + d" "t - zero_time = (t - d - zero_time) + d" by simp_all
  then show "on_grid d (t + d) \<longleftrightarrow> on_grid d t" "on_grid d (t - d) \<longleftrightarrow> on_grid d t"
    unfolding on_grid_def by (simp_all only: dvd_add_left_iff[OF dvd_refl])
qed

lemma on_grid_truncate: "0 < d \<Longrightarrow> on_grid d (time_truncate t d)"
proof -
  assume "0 < d"
  then have "time_truncate t d - zero_time = (t - zero_time) - (t - zero_time) mod d" by (simp add: time_truncate_def)
  then show ?thesis unfolding on_grid_def by (simp only: dvd_minus_mod)
qed

definition buckets_ok :: "duration \<Rightarrow> MetricBatch list \<Rightarrow> bool" where
  "buckets_ok d bs \<longleftrightarrow> 0 < d \<and> sorted_wrt (<) (map mb_BucketStart bs) \<and>
     (\<forall>b \<in> set bs. mb_BucketWidth b = d \<and> on_grid d (mb_BucketStart b))"

definition report_ok :: "reporting \<Rightarrow> MetricBatch list \<Rightarrow> bool" where
  "report_ok rp bs \<longleftrightarrow> buckets_ok (rp_interval rp) bs \<and> on_grid (rp_interval rp) (rp_next rp) \<and>
     (\<forall>b \<in> set bs. mb_BucketStart b < report_bucket rp)"

lemma report_begin_ok: "report_ok (report_begin d now) []"
  by (auto simp: report_ok_def buckets_ok_def report_begin_def Let_def on_grid_add on_grid_truncate DefaultMetricsInterval_def)

lemma report_flushed:
  assumes "report_ok rp bs" "mb_BucketStart b = report_bucket rp" "mb_BucketWidth b = rp_interval rp"
  shows "buckets_ok (rp_interval rp) (bs @ [b])" "report_ok (report_advance rp now) (bs @ [b])"
proof -
  have d: "0 < rp_interval rp" using assms(1) by (simp add: report_ok_def buckets_ok_def)
  show b: "buckets_ok (rp_interval rp) (bs @ [b])"
    using assms by (auto simp: report_ok_def buckets_ok_def sorted_wrt_append report_bucket_def on_grid_add)
  have i: "rp_interval (report_advance rp now) = rp_interval rp" by (simp add: report_advance_def Let_def)
  have "report_bucket rp < report_bucket (report_advance rp now)"
    using d time_truncate_gt[OF d, of now] by (simp add: report_bucket_def report_advance_def Let_def)
  moreover have "on_grid (rp_interval rp) (rp_next (report_advance rp now))"
    using assms(1) d by (simp add: report_advance_def Let_def report_ok_def on_grid_add on_grid_truncate)
  ultimately show "report_ok (report_advance rp now) (bs @ [b])"
    using assms b i by (auto simp: report_ok_def)
qed

text \<open>The batches of a run and what its recorder still holds are what its engine reported, less the drops.\<close>

definition settled :: "(string \<Rightarrow> u64) \<Rightarrow> MetricBatch list \<Rightarrow> ('h, 'v) activeRun \<Rightarrow> bool" where
  "settled mh bs run \<longleftrightarrow> (\<exists>taken. subseq taken (en_reports (ar_engine run)) \<and>
     (\<forall>metric ls. labels_ok mh ls \<longrightarrow> sum_list (map (batch_count metric ls) bs) + held (ar_recorder run) metric ls =
        of_nat (series_count metric ls taken)) \<and>
     re_dropped (ar_recorder run) + of_nat (length taken) = of_nat (length (en_reports (ar_engine run))))"

definition empty_recorder :: "(string \<Rightarrow> u64) \<Rightarrow> ('h, 'v) activeRun \<Rightarrow> bool" where
  "empty_recorder mh run \<longleftrightarrow> (\<forall>metric ls. labels_ok mh ls \<longrightarrow> held (ar_recorder run) metric ls = 0)"

definition run_ok :: "(string \<Rightarrow> u64) \<Rightarrow> MetricBatch list \<Rightarrow> ('h, 'v) activeRun \<Rightarrow> bool" where
  "run_ok mh bs run \<longleftrightarrow> rec_ok mh (ar_recorder run) \<and> settled mh bs run \<and> (\<exists>d. buckets_ok d bs) \<and>
     (ar_stage run = Finished \<longrightarrow> wait_done (ar_engine run)) \<and>
     (\<not> ar_started run \<longrightarrow> bs = [] \<and> ar_report run = None) \<and>
     (\<forall>rp. ar_report run = Some rp \<longrightarrow> report_ok rp bs) \<and>
     (ar_started run \<and> ar_report run = None \<and> \<not> ar_cancelled run \<longrightarrow> ar_stage run = Finished \<and> empty_recorder mh run)"

definition ended_ok :: "(string \<Rightarrow> u64) \<Rightarrow> MetricBatch list \<Rightarrow> ('h, 'v) activeRun \<Rightarrow> bool" where
  "ended_ok mh bs run \<longleftrightarrow> \<not> ar_cancelled run \<longrightarrow> settled mh bs run \<and> empty_recorder mh run"

definition trace_ok :: "(string \<Rightarrow> u64) \<Rightarrow> ('h, 'v) worker_trace \<Rightarrow> bool" where
  "trace_ok mh t \<longleftrightarrow>
     (\<forall>ref. \<exists>d. buckets_ok d (run_batches ref t)) \<and>
     (\<forall>ref \<ge> wk_runtop (wt_worker t). run_batches ref t = []) \<and>
     (\<forall>run \<in> set (wt_ended t). ar_ref run < wk_runtop (wt_worker t) \<and>
        Some (ar_ref run) \<noteq> map_option ar_ref (wk_run (wt_worker t)) \<and> ended_ok mh (run_batches (ar_ref run) t) run) \<and>
     (\<forall>run. wk_run (wt_worker t) = Some run \<longrightarrow> ar_ref run < wk_runtop (wt_worker t) \<and> run_ok mh (run_batches (ar_ref run) t) run)"

definition mild :: "('h, 'v) activeRun \<Rightarrow> ('h, 'v) activeRun \<Rightarrow> bool" where
  "mild run run' \<longleftrightarrow> ar_ref run' = ar_ref run \<and> ar_recorder run' = ar_recorder run \<and> ar_started run' = ar_started run \<and>
     ar_report run' = ar_report run \<and> ar_stage run' = ar_stage run \<and> (ar_cancelled run \<longrightarrow> ar_cancelled run') \<and>
     en_reports (ar_engine run') = en_reports (ar_engine run) \<and> (wait_done (ar_engine run) \<longrightarrow> wait_done (ar_engine run'))"

lemma mild_refl [simp]: "mild run run"
  by (simp add: mild_def)

lemma run_ok_mild: "run_ok mh bs run \<Longrightarrow> mild run run' \<Longrightarrow> run_ok mh bs run'"
  by (auto simp: run_ok_def mild_def settled_def empty_recorder_def)

lemma trace_ok_mild:
  assumes "trace_ok mh t" "wk_runtop w = wk_runtop (wt_worker t)" "rel_option mild (wk_run (wt_worker t)) (wk_run w)"
  shows "trace_ok mh (with_worker t w)"
proof -
  have b: "run_batches ref (with_worker t w) = run_batches ref t" for ref by (simp add: run_batches_def)
  show ?thesis
  proof (cases "wk_run (wt_worker t)")
    case None
    then have "wk_run w = None" using assms(3) by simp
    then show ?thesis using assms(1,2) None unfolding trace_ok_def b by simp
  next
    case (Some run)
    then obtain run' where r: "wk_run w = Some run'" "mild run run'" using assms(3) by (auto simp: option_rel_Some1)
    then have "ar_ref run' = ar_ref run" by (simp add: mild_def)
    then show ?thesis using assms(1,2) Some r run_ok_mild[of mh _ run run'] unfolding trace_ok_def b by auto
  qed
qed

lemma worker_reportStatus_fields [simp]:
  "wk_run (worker_reportStatus w i ph m n) = wk_run w" "wk_runtop (worker_reportStatus w i ph m n) = wk_runtop w"
  "wk_waiting (worker_reportStatus w i ph m n) = wk_waiting w"
  by (simp_all add: worker_reportStatus_def)

lemma upd_active_fields [simp]:
  "wk_run (upd_active f w) = map_option f (wk_run w)" "wk_runtop (upd_active f w) = wk_runtop w" "wk_waiting (upd_active f w) = wk_waiting w"
  by (simp_all add: upd_active_def)

lemma rel_option_map: "(\<And>x. R x (f x)) \<Longrightarrow> rel_option R opt (map_option f opt)"
  by (cases opt) simp_all

lemma engine_reports_kept [simp]:
  "en_reports (engine_Stop e g r) = en_reports e" "en_reports (engine_SetQuota P now e vus rate ramp) = en_reports e"
  "wait_done (engine_Stop e g r) = wait_done e" "wait_done (engine_SetQuota P now e vus rate ramp) = wait_done e"
  "wait_done (e\<lparr>en_cancelled := b\<rparr>) = wait_done e"
  by (simp_all add: engine_Stop_def engine_SetQuota_def wait_done_def Let_def)

lemma stopRun_mild: "rel_option mild (wk_run w) (wk_run (worker_stopRun g r w))" "wk_runtop (worker_stopRun g r w) = wk_runtop w"
  by (auto simp: worker_stopRun_def mild_def cancel_run_def Let_def intro!: rel_option_map)

lemma worker_recorder_New: "\<exists>r. NewRecorder g worker_recorder_config = Some r"
proof -
  define m where "m = min g defaultMaxScalarShard"
  have m: "m \<le> 16" by (simp add: m_def defaultMaxScalarShard_def)
  then obtain k where k: "roundUpPow2 m = 2 ^ k" "1 < m \<Longrightarrow> (2 :: int) ^ k < 2 * m" using roundUpPow2_spec[of m] by auto
  have "roundUpPow2 m \<le> 32"
  proof (cases "1 < m")
    case True then show ?thesis using k m by linarith
  next
    case False then show ?thesis by (simp add: roundUpPow2_def)
  qed
  moreover have "0 \<le> roundUpPow2 m" using k(1) by simp
  ultimately show ?thesis
    by (simp add: NewRecorder_def rc_applyDefaults_def worker_recorder_config_def Let_def max_make_def m_def[symmetric])
qed

lemma worker_build_ok:
  assumes "worker_build E w plan msg = Inr run"
  shows "ar_ref run = wk_runtop w" "run_ok (we_hash E) [] run"
proof -
  obtain p reg rec e http rs where b: "plan = Some p" "NewRecorder (we_gomaxprocs E) worker_recorder_config = Some rec"
      "engine_New (we_hash E) (engine_config p reg msg) = Inr e"
      "run = \<lparr>ar_ref = wk_runtop w, ar_id = sr_RunId msg, ar_stage = Controlling, ar_engine = e, ar_recorder = rec,
            ar_http = http, ar_runners = rs, ar_started = False, ar_cancelled = False, ar_report = None\<rparr>"
    using assms unfolding worker_build_def by (auto split: option.splits sum.splits prod.splits)
  show "ar_ref run = wk_runtop w" by (simp add: b(4))
  have "rec_ok (we_hash E) rec" using NewRecorder_ok[OF b(2)] by (simp add: worker_recorder_config_def)
  moreover have "en_reports e = []" using b(3) by (auto simp: engine_New_def split: option.splits sum.splits if_splits)
  ultimately show "run_ok (we_hash E) [] run"
    using NewRecorder_empty[OF b(2)] by (auto simp: run_ok_def b(4) settled_def buckets_ok_def intro!: exI[of _ 1])
qed

lemma trace_ok_start:
  assumes "trace_ok (we_hash E) t" "wk_run w = None" "wk_runtop w = wk_runtop (wt_worker t)" "wk_run (wt_worker t) = None"
  shows "trace_ok (we_hash E) (with_worker t (snd (start_built E w msg)))"
proof (cases "worker_build E w (Some (sr_Plan msg)) msg")
  case (Inl err)
  then show ?thesis using assms by (intro trace_ok_mild) (simp_all add: start_built_def)
next
  case (Inr run)
  have b: "run_batches ref (with_worker t w') = run_batches ref t" for ref w' by (simp add: run_batches_def)
  show ?thesis using assms worker_build_ok[OF Inr] unfolding trace_ok_def b
    by (auto simp: start_built_def Inr less_Suc_eq)
qed

lemma run_batches_append: "run_batches ref (t\<lparr>wt_worker := w, wt_batches := wt_batches t @ [(k, b)]\<rparr>) =
  run_batches ref t @ (if k = ref then [b] else [])"
  by (simp add: run_batches_def)

text \<open>A step of the current run alone, which may add a batch to it.\<close>

lemma trace_ok_run:
  assumes "trace_ok mh t" "wk_run (wt_worker t) = Some run" "ar_ref run' = ar_ref run"
    "wk_run w = Some run'" "wk_runtop w = wk_runtop (wt_worker t)" "wt_worker t' = w" "wt_ended t' = wt_ended t"
    "\<And>ref. run_batches ref t' = run_batches ref t @ (if ref = ar_ref run then bs else [])"
    "run_ok mh (run_batches (ar_ref run) t @ bs) run'"
  shows "trace_ok mh t'"
proof -
  have "\<exists>d. buckets_ok d (run_batches (ar_ref run) t @ bs)" using assms(9) by (simp add: run_ok_def)
  then show ?thesis using assms(1-7,9) unfolding trace_ok_def assms(8) by auto
qed

lemma trace_ok_run_only:
  assumes "trace_ok mh t" "wk_run (wt_worker t) = Some run" "ar_ref run' = ar_ref run"
    "wk_run w = Some run'" "wk_runtop w = wk_runtop (wt_worker t)" "run_ok mh (run_batches (ar_ref run) t) run'"
  shows "trace_ok mh (with_worker t w)"
  using trace_ok_run[OF assms(1-5), of "with_worker t w" "[]"] assms(6) by (simp add: run_batches_def)

lemma fire_timers_kept [simp]:
  "wait_done (fire_timers now e) = wait_done e" "en_reports (fire_timers now e) = en_reports e"
proof -
  have f: "map vh_stage (en_vus (foldl (\<lambda>e k. upd_vu k (\<lambda>h. h\<lparr>vh_hard := True\<rparr>) e) e0 ks)) = map vh_stage (en_vus e0) \<and>
      en_reports (foldl (\<lambda>e k. upd_vu k (\<lambda>h. h\<lparr>vh_hard := True\<rparr>) e) e0 ks) = en_reports e0" for e0 :: "'a Engine" and ks
    by (induction ks arbitrary: e0) (simp_all add: map_upd_same, simp add: upd_vu_def)
  then show "en_reports (fire_timers now e) = en_reports e" by (simp add: fire_timers_def)
  have "map vh_stage (en_vus (fire_timers now e)) = map vh_stage (en_vus e)" using f by (simp add: fire_timers_def)
  then have "set (map vh_stage (en_vus (fire_timers now e))) = set (map vh_stage (en_vus e))" by (simp only:)
  moreover have "wait_done e \<longleftrightarrow> set (map vh_stage (en_vus e)) \<subseteq> {VGone}" for e :: "'a Engine" by (auto simp: wait_done_def)
  ultimately show "wait_done (fire_timers now e) = wait_done e" by (simp only:)
qed

lemma user_step_live: "user_step mh e k ev = Some e' \<Longrightarrow> \<not> wait_done e"
proof
  assume u: "user_step mh e k ev = Some e'" and "wait_done e"
  then have "k < length (en_vus e)" "vh_stage (en_vus e ! k) = VGone" by (auto simp: user_step_def wait_done_def split: if_splits)
  then show False using u by (cases ev) (simp_all add: user_step_def guarded_def)
qed

lemma engine_step_finished:
  "engine_step P mh s s' \<Longrightarrow> fst s = Finished \<longrightarrow> wait_done (snd s) \<Longrightarrow>
   (fst s' = Finished \<longrightarrow> wait_done (snd s')) \<and>
   (fst s = Finished \<longrightarrow> fst s' = Finished \<and> en_reports (snd s') = en_reports (snd s))"
  by (induction rule: engine_step.induct) (auto dest: user_step_live)

lemma Flush_dropped: "Flush L ord ford r i n start width vus = (batch, r') \<Longrightarrow> re_dropped r' = re_dropped r"
proof -
  have "re_dropped (foldl (flush_shard L ord) q xs) = re_dropped q" for q :: "'a recorder" and xs
    by (induction xs arbitrary: q) simp_all
  then show "Flush L ord ford r i n start width vus = (batch, r') \<Longrightarrow> re_dropped r' = re_dropped r"
    by (auto simp: Flush_def flush_end_def flush_begin_def split: prod.splits)
qed

lemma worker_flush_run:
  assumes "worker_flush F w run start width = (batch, w')" "orders (fe_series F)" "wk_run w = Some run" "rec_ok mh (ar_recorder run)"
    "settled mh bs run"
  obtains r where "wk_run w' = Some (run\<lparr>ar_recorder := r\<rparr>)" "wk_runtop w' = wk_runtop w" "rec_ok mh r"
    "mb_BucketStart batch = start" "mb_BucketWidth batch = width" "settled mh (bs @ [batch]) (run\<lparr>ar_recorder := r\<rparr>)"
    "empty_recorder mh (run\<lparr>ar_recorder := r\<rparr>)"
proof -
  obtain r where f: "Flush (fe_hdr F) (fe_series F) (fe_failures F) (ar_recorder run) (ar_id run) (wf_NodeID (wk_cfg w)) start width
      (word_of_int (en_activeVUs (ar_engine run))) = (batch, r)"
    and w': "w' = (upd_active (\<lambda>run. run\<lparr>ar_recorder := r\<rparr>) w)\<lparr>wk_client := snd (SendMetrics (wk_client w) batch)\<rparr>"
    using assms(1) by (auto simp: worker_flush_def split: prod.splits)
  have s: "mb_BucketStart batch = start" "mb_BucketWidth batch = width"
    using f by (auto simp: Flush_def flush_end_def split: prod.splits)
  have ok: "rec_ok mh r" "re_dropped r = re_dropped (ar_recorder run)"
    using Flush_reports_everything[OF assms(4) no_labels_ok assms(2) f] Flush_dropped[OF f] by auto
  have b: "batch_count metric ls batch = held (ar_recorder run) metric ls" "held r metric ls = 0" if "labels_ok mh ls" for metric ls
    using Flush_reports_everything[OF assms(4) that assms(2) f] by auto
  have "settled mh (bs @ [batch]) (run\<lparr>ar_recorder := r\<rparr>)"
    using assms(5) b ok(2) by (auto simp: settled_def)
  then show thesis using that[of r] w' assms(3) s ok b by (simp add: empty_recorder_def)
qed

lemma trace_flush_ok:
  assumes "trace_ok mh t" "wk_run (wt_worker t) = Some run" "ar_report run = Some rp" "orders (fe_series F)"
    "rp' = Some (report_advance rp now) \<or> rp' = None \<and> (ar_cancelled run \<or> ar_stage run = Finished)"
  shows "trace_ok mh (trace_flush F t run rp rp')"
proof -
  let ?bs = "run_batches (ar_ref run) t"
  obtain batch w where f: "worker_flush F (wt_worker t) run (report_bucket rp) (rp_interval rp) = (batch, w)" by force
  have run: "run_ok mh ?bs run" using assms(1,2) by (simp add: trace_ok_def)
  then have "rec_ok mh (ar_recorder run)" "settled mh ?bs run" and rep: "report_ok rp ?bs"
    using assms(3) by (auto simp: run_ok_def)
  then obtain r where r: "wk_run w = Some (run\<lparr>ar_recorder := r\<rparr>)" "wk_runtop w = wk_runtop (wt_worker t)" "rec_ok mh r"
    "mb_BucketStart batch = report_bucket rp" "mb_BucketWidth batch = rp_interval rp"
    "settled mh (?bs @ [batch]) (run\<lparr>ar_recorder := r\<rparr>)" "empty_recorder mh (run\<lparr>ar_recorder := r\<rparr>)"
    using worker_flush_run[OF f assms(4,2)] by blast
  define run' where "run' = run\<lparr>ar_recorder := r, ar_report := rp'\<rparr>"
  have "settled mh (?bs @ [batch]) run'" "empty_recorder mh run'"
    using r(6,7) by (simp_all add: run'_def settled_def empty_recorder_def)
  then have "run_ok mh (?bs @ [batch]) run'"
    using run r(3) report_flushed(1)[OF rep r(4,5)] report_flushed(2)[OF rep r(4,5), of now] assms(3,5) by (auto simp: run_ok_def run'_def)
  moreover have "trace_flush F t run rp rp' = t\<lparr>wt_worker := upd_active (\<lambda>run. run\<lparr>ar_report := rp'\<rparr>) w,
      wt_batches := wt_batches t @ [(ar_ref run, batch)]\<rparr>" by (simp add: trace_flush_def f)
  ultimately show ?thesis using r(1,2)
    by (intro trace_ok_run[OF assms(1,2), of run' "upd_active (\<lambda>run. run\<lparr>ar_report := rp'\<rparr>) w" _ "[batch]"])
      (auto simp: run'_def run_batches_def)
qed

lemma engine_run_ok:
  assumes "run_ok mh bs run" "ar_started run" "engine_step P mh (ar_stage run, ar_engine run) (stage, e)"
    "en_reports e = en_reports (ar_engine run) @ reports" "list_all (report_labels mh) reports"
    "record_reports P L (ar_recorder run) reports = Some r"
  shows "run_ok mh bs (run\<lparr>ar_stage := stage, ar_engine := e, ar_recorder := r\<rparr>)"
proof -
  have ok: "rec_ok mh (ar_recorder run)" using assms(1) by (simp add: run_ok_def)
  obtain new where new: "rec_ok mh r" "subseq new reports" "re_dropped r + of_nat (length new) = re_dropped (ar_recorder run) + of_nat (length reports)"
    "\<And>metric ls. held r metric ls = held (ar_recorder run) metric ls + of_nat (series_count metric ls new)"
    by (rule record_reports_spec[OF ok assms(5), of P L]) (use assms(6) in \<open>simp\<close>)
  obtain taken where old: "subseq taken (en_reports (ar_engine run))"
     "\<And>metric ls. labels_ok mh ls \<Longrightarrow> sum_list (map (batch_count metric ls) bs) + held (ar_recorder run) metric ls = of_nat (series_count metric ls taken)"
     "re_dropped (ar_recorder run) + of_nat (length taken) = of_nat (length (en_reports (ar_engine run)))"
    using assms(1) by (auto simp: run_ok_def settled_def)
  have "settled mh bs (run\<lparr>ar_stage := stage, ar_engine := e, ar_recorder := r\<rparr>)"
    unfolding settled_def
  proof (intro exI[of _ "taken @ new"] conjI allI impI)
    show "subseq (taken @ new) (en_reports (ar_engine (run\<lparr>ar_stage := stage, ar_engine := e, ar_recorder := r\<rparr>)))"
      using list_emb_append_mono[OF old(1) new(2)] assms(4) by simp
    fix metric ls assume "labels_ok mh ls"
    then show "sum_list (map (batch_count metric ls) bs) + held (ar_recorder (run\<lparr>ar_stage := stage, ar_engine := e, ar_recorder := r\<rparr>)) metric ls =
        of_nat (series_count metric ls (taken @ new))"
      using old(2)[of ls metric] new(4)[of metric ls] by (simp flip: old(2)) 
  next
    have "re_dropped r + of_nat (length (taken @ new)) = (re_dropped r + of_nat (length new)) + of_nat (length taken)" by (simp add: ac_simps)
    also have "\<dots> = (re_dropped (ar_recorder run) + of_nat (length taken)) + of_nat (length reports)" unfolding new(3) by (simp add: ac_simps)
    also have "\<dots> = of_nat (length (en_reports (ar_engine run)) + length reports)" unfolding old(3) by simp
    finally show "re_dropped (ar_recorder (run\<lparr>ar_stage := stage, ar_engine := e, ar_recorder := r\<rparr>)) + of_nat (length (taken @ new)) =
        of_nat (length (en_reports (ar_engine (run\<lparr>ar_stage := stage, ar_engine := e, ar_recorder := r\<rparr>))))"
      using assms(4) by simp
  qed
  moreover have fin: "stage = Finished \<longrightarrow> wait_done e" "ar_stage run = Finished \<longrightarrow> stage = Finished \<and> en_reports e = en_reports (ar_engine run)"
    using engine_step_finished[OF assms(3)] assms(1) by (auto simp: run_ok_def)
  moreover have "held r = held (ar_recorder run)" if "ar_stage run = Finished"
    using fin(2) that assms(4) assms(6) by simp
  ultimately show ?thesis
    using assms(1,2) new(1) by (auto simp: run_ok_def empty_recorder_def)
qed

lemma worker_step_ok:
  "worker_step E P F t t' \<Longrightarrow> orders (fe_series F) \<Longrightarrow> trace_ok (we_hash E) t \<Longrightarrow> trace_ok (we_hash E) t'"
proof (induction rule: worker_step.induct)
  case (accepted w t m)
  then show ?case by (intro trace_ok_mild) (auto simp: worker_OnAccepted_def option.rel_refl)
next
  case (start_run w t msg)
  show ?case
  proof (cases "wk_run w")
    case None
    then show ?thesis using start_run trace_ok_start[of E t w msg] by (simp add: worker_OnStartRun_def)
  next
    case (Some run)
    then show ?thesis using start_run stopRun_mild[where w = w] by (intro trace_ok_mild) (simp_all add: worker_OnStartRun_def)
  qed
next
  case (resumed w t)
  then show ?case
    using trace_ok_start[of E t "w\<lparr>wk_waiting := None\<rparr>"] trace_ok_mild[of "we_hash E" t w]
    by (auto simp: start_resumed_def option.rel_refl split: option.splits)
next
  case (set_quota w t now q)
  then show ?case
    by (intro trace_ok_mild) (auto simp: worker_OnSetQuota_def option.rel_refl mild_def split: option.splits intro!: rel_option_map)
next
  case (stop_run w t s)
  then show ?case
    by (intro trace_ok_mild) (auto simp: worker_OnStopRun_def option.rel_refl mild_def Let_def split: option.splits intro!: rel_option_map)
next
  case (shutdown w t reason)
  then show ?case using stopRun_mild[where w = w and g = True and r = reason] by (intro trace_ok_mild) simp_all
next
  case (executing w t run now)
  let ?run = "run\<lparr>ar_started := True, ar_report := Some (report_begin (wk_metricsInterval w) now)\<rparr>"
  have "run_ok (we_hash E) (run_batches (ar_ref run) t) run" using executing by (simp add: trace_ok_def)
  then have r: "run_ok (we_hash E) (run_batches (ar_ref run) t) ?run"
    using executing(3) report_begin_ok by (auto simp: run_ok_def settled_def empty_recorder_def)
  show ?case using executing by (intro trace_ok_run_only[OF _ _ _ _ _ r]) (auto simp: execute_begin_def)
next
  case (engine w t run stage e reports r)
  let ?run = "run\<lparr>ar_stage := stage, ar_engine := e, ar_recorder := r\<rparr>"
  have "run_ok (we_hash E) (run_batches (ar_ref run) t) run" using engine by (simp add: trace_ok_def)
  then have r: "run_ok (we_hash E) (run_batches (ar_ref run) t) ?run" using engine_run_ok engine.hyps(3-7) by fastforce
  show ?case using engine by (intro trace_ok_run_only[OF _ _ _ _ _ r]) auto
next
  case (aborted w t run)
  let ?run = "run\<lparr>ar_stage := Finished\<rparr>"
  have "run_ok (we_hash E) (run_batches (ar_ref run) t) run" using aborted by (simp add: trace_ok_def)
  then have r: "run_ok (we_hash E) (run_batches (ar_ref run) t) ?run"
    using aborted by (auto simp: run_ok_def settled_def empty_recorder_def wait_done_def)
  show ?case using aborted by (intro trace_ok_run_only[OF _ _ _ _ _ r]) auto
next
  case (tick t run rp now)
  then show ?case using trace_flush_ok[of "we_hash E" t run rp F "Some (report_advance rp now)" now] by simp
next
  case (last_flush t run rp)
  then show ?case using trace_flush_ok[of "we_hash E" t run rp F None] by simp
next
  case (ended w t run err)
  have ok: "run_ok (we_hash E) (run_batches (ar_ref run) t) run" "ar_ref run < wk_runtop w" using ended by (auto simp: trace_ok_def)
  have w: "wk_run (execute_end w run err) = None" "wk_runtop (execute_end w run err) = wk_runtop w"
    using ended by (auto simp: execute_end_def Let_def split: option.splits prod.splits)
  have "ended_ok (we_hash E) (run_batches (ar_ref run) t) run" using ok ended by (auto simp: ended_ok_def run_ok_def)
  then show ?case using ended ok(2) w unfolding trace_ok_def by (auto simp: run_batches_def)
qed

lemma worker_reach_ok:
  assumes "worker_New E cfg = Inr w" "orders (fe_series F)" "(worker_step E P F)\<^sup>*\<^sup>* (trace_start w) t"
  shows "trace_ok (we_hash E) t"
  using assms(3)
proof (induction rule: rtranclp_induct)
  case base
  have "wk_run w = None" using assms(1) by (auto simp: worker_New_def Let_def split: if_splits sum.splits)
  then show ?case by (auto simp: trace_ok_def trace_start_def run_batches_def buckets_ok_def intro: exI[of _ 1])
next
  case (step y z)
  then show ?case using worker_step_ok assms(2) by blast
qed

text \<open>
  No bucket of a run is reported twice: over any sequence of commands, engine steps, stalls and
  stops, the batches a worker sends for one run start at strictly increasing instants, all on the
  wall-clock grid of one fixed interval, which is also the width they carry.
\<close>

theorem worker_buckets_once:
  assumes "worker_New E cfg = Inr w" and "orders (fe_series F)" and "(worker_step E P F)\<^sup>*\<^sup>* (trace_start w) t"
  shows "sorted_wrt (<) (map mb_BucketStart (run_batches ref t)) \<and>
    (\<exists>d > 0. \<forall>b \<in> set (run_batches ref t). mb_BucketWidth b = d \<and> (mb_BucketStart b - zero_time) mod d = 0)"
  using worker_reach_ok[OF assms] unfolding trace_ok_def buckets_ok_def on_grid_def dvd_eq_mod_eq_0 by blast

text \<open>
  C6. A run's last moments are not discarded: once a run that was not superseded has ended, its
  batches add up, for every series, to what its engine recorded, less the observations that the
  series budget dropped, and those are counted.
\<close>

theorem worker_reports_run:
  assumes "worker_New E cfg = Inr w" and "orders (fe_series F)" and "(worker_step E P F)\<^sup>*\<^sup>* (trace_start w) t"
    and "run \<in> set (wt_ended t)" and "\<not> ar_cancelled run"
  shows "\<exists>taken. subseq taken (en_reports (ar_engine run)) \<and>
    Dropped (ar_recorder run) + of_nat (length taken) = of_nat (length (en_reports (ar_engine run))) \<and>
    (\<forall>metric ls. labels_ok (we_hash E) ls \<longrightarrow>
       sum_list (map (batch_count metric ls) (run_batches (ar_ref run) t)) = of_nat (series_count metric ls taken))"
proof -
  have "settled (we_hash E) (run_batches (ar_ref run) t) run" "empty_recorder (we_hash E) run"
    using worker_reach_ok[OF assms(1-3)] assms(4,5) by (auto simp: trace_ok_def ended_ok_def)
  then show ?thesis by (auto simp: settled_def empty_recorder_def Dropped_def)
qed

subsection \<open>A small run\<close>

definition demo_process_env :: worker_env where
  "demo_process_env = \<lparr>we_host = \<lparr>ho_NumCPU = 1, ho_Hostname = [], ho_Version = [], ho_sessions = (\<lambda>m. m), ho_procs = (\<lambda>m. m)\<rparr>,
     we_gomaxprocs = 1, we_hash = (\<lambda>_. 0), we_Default = [(''browse'', demo_scenario)], we_lib = demo_lib,
     we_yaml = demo_yaml, we_text = (\<lambda>_. []), we_quote = (\<lambda>s. s)\<rparr>"

definition demo_flush_env :: "list_hist flush_env" where
  "demo_flush_env = \<lparr>fe_hdr = list_hdr, fe_series = (\<lambda>m. m), fe_failures = (\<lambda>m. m)\<rparr>"

definition demo_command :: StartRun where
  "demo_command = \<lparr>sr_RunId = ''r'', sr_Plan = demo_engine_plan, sr_VuQuota = 2, sr_WorkerCount = 0, sr_IterationRateQuota = 0,
     sr_IterationQuota = 3, sr_StartAt = 0, sr_ShardIndex = 0, sr_ShardCount = 1, sr_VuIdBase = 0\<rparr>"

definition demo_process :: "(list_hist, unit) Worker" where
  "demo_process = (case worker_New demo_process_env \<lparr>wf_NodeID = ''w'', wf_AgentTarget = ''a'', wf_Registry = None, wf_MaxVUs = 0\<rparr> of
     Inr w \<Rightarrow> w | Inl _ \<Rightarrow> undefined)"

abbreviation (input) demo_step :: "(list_hist, unit) worker_trace \<Rightarrow> (list_hist, unit) worker_trace \<Rightarrow> bool" where
  "demo_step \<equiv> worker_step demo_process_env demo_platform demo_flush_env"

lemma demo_process_New:
  "worker_New demo_process_env \<lparr>wf_NodeID = ''w'', wf_AgentTarget = ''a'', wf_Registry = None, wf_MaxVUs = 0\<rparr> = Inr demo_process"
  "wk_run demo_process = None" "wk_waiting demo_process = None" "wk_runtop demo_process = 0"
  by (simp_all add: demo_process_def worker_New_def Let_def wf_applyDefaults_def NewClient_def worker_hello_def)

lemma demo_orders: "orders (fe_series demo_flush_env)"
  by (simp add: demo_flush_env_def orders_def)

text \<open>A run in progress, at a given stage of its engine.\<close>

definition running :: "(list_hist, unit) worker_trace \<Rightarrow> run_stage \<times> unit Engine \<Rightarrow> bool" where
  "running t s \<longleftrightarrow> demo_step\<^sup>*\<^sup>* (trace_start demo_process) t \<and> (\<exists>run. wk_run (wt_worker t) = Some run \<and> ar_started run \<and> \<not> ar_cancelled run \<and>
     ar_report run \<noteq> None \<and> (ar_stage run, ar_engine run) = s)"

lemma running_engine:
  assumes "running t (stage, e)" "engine_step demo_platform (\<lambda>_. 0) (stage, e) (stage', e')" "en_reports e' = en_reports e @ reports"
    "list_all (report_labels (\<lambda>_. 0)) reports"
  shows "\<exists>t'. running t' (stage', e')"
proof -
  obtain run where run: "demo_step\<^sup>*\<^sup>* (trace_start demo_process) t" "wk_run (wt_worker t) = Some run" "ar_started run" "\<not> ar_cancelled run"
      "ar_report run \<noteq> None" "ar_stage run = stage" "ar_engine run = e"
    using assms(1) by (auto simp: running_def)
  have h: "we_hash demo_process_env = (\<lambda>_. 0)" by (simp add: demo_process_env_def)
  have ok: "rec_ok (\<lambda>_. 0) (ar_recorder run)"
    using worker_reach_ok[OF demo_process_New(1) demo_orders run(1)] run(2) by (simp add: trace_ok_def h run_ok_def)
  obtain r where r: "record_reports demo_platform (fe_hdr demo_flush_env) (ar_recorder run) reports = Some r"
    by (rule record_reports_spec[OF ok assms(4), of demo_platform "fe_hdr demo_flush_env"])
  let ?t = "with_worker t (upd_active (\<lambda>run. run\<lparr>ar_stage := stage', ar_engine := e', ar_recorder := r\<rparr>) (wt_worker t))"
  have "demo_step t ?t"
    by (rule worker_step.engine[OF refl run(2,3) _ _ _ r]) (use assms(2-4) run(6,7) h in simp_all)
  then show ?thesis using run by (intro exI[of _ ?t]) (simp add: running_def rtranclp.rtrancl_into_rtrancl)
qed

lemma engine_config_demo: "engine_config demo_engine_plan [(''browse'', demo_scenario)] demo_command = demo_engine_cfg"
  by (simp add: engine_config_def demo_command_def demo_engine_cfg_def)

text \<open>A plan without configuration runs the scenarios of the binary.\<close>

definition demo_factory :: "test_plan \<Rightarrow> string HTTPClientFactory" where
  "demo_factory plan = (case NewHTTPClientFactory demo_lib (worker_options plan (zero_Config\<lparr>cf_Name := tp_name plan, cf_BaseURL := tp_base_url plan\<rparr>)) of
     Inr f \<Rightarrow> f | Inl _ \<Rightarrow> undefined)"

lemma demo_build:
  assumes "tp_config_yaml plan = []" "tp_base_url plan = []"
  shows "FromPlan L Y plan = Inr (zero_Config\<lparr>cf_Name := tp_name plan, cf_BaseURL := tp_base_url plan\<rparr>)"
    "BuildScenarios L (zero_Config\<lparr>cf_Name := tp_name plan, cf_BaseURL := tp_base_url plan\<rparr>) reg = Inr (reg, [])"
    "NewHTTPClientFactory demo_lib (worker_options plan (zero_Config\<lparr>cf_Name := tp_name plan, cf_BaseURL := tp_base_url plan\<rparr>)) = Inr (demo_factory plan)"
proof -
  show "FromPlan L Y plan = Inr (zero_Config\<lparr>cf_Name := tp_name plan, cf_BaseURL := tp_base_url plan\<rparr>)"
    "BuildScenarios L (zero_Config\<lparr>cf_Name := tp_name plan, cf_BaseURL := tp_base_url plan\<rparr>) reg = Inr (reg, [])"
    using assms by (simp_all add: FromPlan_def BuildScenarios_def zero_Config_def)
  have "ho_BaseURL (applyDefaults opts) = ho_BaseURL opts" "ho_Proxy (applyDefaults opts) = ho_Proxy opts" for opts
    by (simp_all add: applyDefaults_def)
  then have "\<exists>f. NewHTTPClientFactory demo_lib (worker_options plan (zero_Config\<lparr>cf_Name := tp_name plan, cf_BaseURL := tp_base_url plan\<rparr>)) = Inr f"
    using assms by (simp add: NewHTTPClientFactory_def worker_options_def config_HTTPOptions_def zero_Config_def zero_HTTPConfig_def
      parse_base_def parse_proxy_def Let_def)
  then show "NewHTTPClientFactory demo_lib (worker_options plan (zero_Config\<lparr>cf_Name := tp_name plan, cf_BaseURL := tp_base_url plan\<rparr>)) = Inr (demo_factory plan)"
    by (auto simp: demo_factory_def)
qed

lemma running_start: "\<exists>t. running t (Controlling, demo_engine)"
proof -
  obtain rec :: "list_hist recorder" where rec: "NewRecorder 1 worker_recorder_config = Some rec" using worker_recorder_New by blast
  define run where "run = \<lparr>ar_ref = 0, ar_id = ''r'', ar_stage = Controlling, ar_engine = demo_engine, ar_recorder = rec,
            ar_http = demo_factory demo_engine_plan, ar_runners = [], ar_started = False, ar_cancelled = False, ar_report = None\<rparr>"
  have h: "we_hash demo_process_env = (\<lambda>_. 0)" "we_gomaxprocs demo_process_env = 1" "we_lib demo_process_env = demo_lib"
    "scenario_Clone (case wf_Registry (wk_cfg demo_process) of Some r \<Rightarrow> r | None \<Rightarrow> []) = [(''browse'', demo_scenario)]"
    by (simp_all add: demo_process_env_def demo_process_def worker_New_def Let_def wf_applyDefaults_def NewClient_def worker_hello_def scenario_Clone_def)
  have "tp_config_yaml demo_engine_plan = []" "tp_base_url demo_engine_plan = []" by (simp_all add: demo_engine_plan_def demo_plan_def)
  note b = demo_build[OF this]
  have "worker_build demo_process_env demo_process (Some demo_engine_plan) demo_command = Inr run"
    by (simp add: worker_build_def h b rec engine_config_demo demo_engine_New run_def demo_process_New) (simp add: demo_command_def)
  moreover have "sr_Plan demo_command = demo_engine_plan" by (simp add: demo_command_def)
  ultimately have s: "wk_run (snd (worker_OnStartRun demo_process_env demo_process demo_command)) = Some run"
    by (simp add: worker_OnStartRun_def demo_process_New start_built_def)
  define t1 where "t1 = with_worker (trace_start demo_process) (snd (worker_OnStartRun demo_process_env demo_process demo_command))"
  have 1: "demo_step (trace_start demo_process) t1"
    unfolding t1_def by (rule worker_step.start_run) (simp_all add: trace_start_def demo_process_New)
  have r1: "wk_run (wt_worker t1) = Some run" by (simp add: t1_def s)
  have 2: "demo_step t1 (with_worker t1 (execute_begin 0 (wt_worker t1) run))"
    by (rule worker_step.executing[OF refl r1]) (simp add: run_def)
  have "running (with_worker t1 (execute_begin 0 (wt_worker t1) run)) (Controlling, demo_engine)"
    unfolding running_def using 1 2 r1 by (auto simp: execute_begin_def run_def)
  then show ?thesis by blast
qed

lemma engine_reports_fields [simp]:
  "en_reports (upd_vu k f e) = en_reports e" "en_reports (leave e k) = en_reports e" "en_reports (upd_all f e ks) = en_reports e"
  "en_reports (shutdown_begin e req) = en_reports e" "en_reports (startVU mh e i) = en_reports e"
proof -
  show u: "en_reports (upd_vu k f e) = en_reports e" for k and f :: "'a vuHandle \<Rightarrow> 'a vuHandle" and e by (simp add: upd_vu_def)
  then show "en_reports (leave e k) = en_reports e" by (simp add: leave_def)
  show a: "en_reports (upd_all f e ks) = en_reports e" for f :: "'a vuHandle \<Rightarrow> 'a vuHandle" and ks
    by (induction ks rule: rev_induct) (simp_all add: upd_all_def u)
  then show "en_reports (shutdown_begin e req) = en_reports e" by (simp add: shutdown_begin_def cancel_all_upd Let_def)
  show "en_reports (startVU mh e i) = en_reports e" by (simp add: startVU_def Let_def)
qed

lemma demo_pool_reports: "\<exists>ls c. en_reports demo_pool = [(None, MetricVUs, ls, c)] \<and> labels_ok (\<lambda>_. 0) ls"
proof -
  have t: "en_planTags demo_pool = LabelsFromMap (\<lambda>_. 0) []" by (simp add: demo_pool_def reportGauges_def startVU_def Let_def demo_engine_def)
  have "labels_ok (\<lambda>_. 0) (LabelsFromMap (\<lambda>_. 0) [])" by (simp add: LabelsFromMap_spec)
  then have "labels_ok (\<lambda>_. 0) (with_label (\<lambda>_. 0) (LabelsFromMap (\<lambda>_. 0) []) k v)" for k v
    using With_spec[of "\<lambda>_. 0" "LabelsFromMap (\<lambda>_. 0) []" "[k, v]"] by (auto simp: with_label_def split: option.splits)
  moreover have "length (en_groups demo_pool) = 1" "en_reports demo_engine = []"
    by (simp_all add: demo_pool_def reportGauges_def startVU_def Let_def demo_engine_def)
  ultimately show ?thesis
    by (auto simp: demo_pool_def reportGauges_def startVU_def Let_def demo_engine_def)
qed

definition demo_over :: "unit Engine" where
  "demo_over = leave (leave demo_draining 0) 1"

lemma demo_draining_stages: "map vh_stage (en_vus demo_draining) = [VStarting, VStarting]"
proof -
  have "engine_inv (Controlling, demo_pool)" by (rule engine_step_inv[OF demo_reach engine_New_inv[OF demo_engine_New demo_base(1)]])
  then have ok: "pool_ok ((engine_Stop demo_pool True [])\<lparr>en_stop := None\<rparr>)"
    by (auto simp: engine_inv_def engine_Stop_def intro!: pool_ok_view)
  have "stages demo_draining = stages ((engine_Stop demo_pool True [])\<lparr>en_stop := None\<rparr>)"
    unfolding demo_draining_def by (rule shutdown_begin_pool(3)[OF ok])
  then show ?thesis using demo_pool_vus(1) by (simp add: stages_def engine_Stop_def split: if_splits)
qed

lemma leave_stages: "map vh_stage (en_vus (leave e k)) = (map vh_stage (en_vus e))[k := VGone]"
  using stages_upd_vu[of k "\<lambda>h. h\<lparr>vh_stage := VGone, vh_hard := True\<rparr>" e] by (simp add: leave_def stages_def)

lemma user_leaves:
  "k < length (en_vus e) \<Longrightarrow> vh_stage (en_vus e ! k) = VStarting \<Longrightarrow> engine_step P mh (st, e) (st, leave e k)"
  by (rule engine_step.user[of _ _ k "UStarted True"]) (simp add: user_step_def guarded_def vu_started_def)

lemma demo_over_steps:
  "engine_step demo_platform (\<lambda>_. 0) (Draining, demo_draining) (Draining, leave demo_draining 0)"
  "engine_step demo_platform (\<lambda>_. 0) (Draining, leave demo_draining 0) (Draining, demo_over)"
  "engine_step demo_platform (\<lambda>_. 0) (Draining, demo_over) (Finished, demo_over)"
proof -
  let ?m = "map vh_stage (en_vus (leave demo_draining 0))"
  have n: "length (en_vus demo_draining) = 2" using arg_cong[OF demo_draining_stages, of length] by simp
  show "engine_step demo_platform (\<lambda>_. 0) (Draining, demo_draining) (Draining, leave demo_draining 0)"
    using n arg_cong[OF demo_draining_stages, of "\<lambda>xs. xs ! 0"] by (intro user_leaves) simp_all
  have m: "?m = [VGone, VStarting]" by (simp add: leave_stages demo_draining_stages)
  have n': "length (en_vus (leave demo_draining 0)) = 2" using arg_cong[OF m, of length] by simp
  show "engine_step demo_platform (\<lambda>_. 0) (Draining, leave demo_draining 0) (Draining, demo_over)"
    unfolding demo_over_def using n' arg_cong[OF m, of "\<lambda>xs. xs ! 1"] by (intro user_leaves) simp_all
  have "map vh_stage (en_vus demo_over) = [VGone, VGone]" unfolding demo_over_def by (subst leave_stages) (simp add: m)
  then have "set (map vh_stage (en_vus demo_over)) = {VGone}" by simp
  then have "wait_done demo_over" by (auto simp: wait_done_def)
  then show "engine_step demo_platform (\<lambda>_. 0) (Draining, demo_over) (Finished, demo_over)" by (rule engine_step.drained)
qed

lemma running_quiet:
  "running t s \<Longrightarrow> engine_step demo_platform (\<lambda>_. 0) s s' \<Longrightarrow> en_reports (snd s') = en_reports (snd s) \<Longrightarrow> \<exists>t'. running t' s'"
  using running_engine[of t "fst s" "snd s" "fst s'" "snd s'" "[]"] by simp

lemma running_over: "\<exists>t. running t (Finished, demo_over)"
proof -
  let ?e = "engine_Stop demo_pool True []"
  have e: "en_stop ?e = Some \<lparr>rq_graceful = True, rq_reason = []\<rparr>" by (simp add: engine_Stop_def demo_pool_vus)
  have ov: "engine_step demo_platform (\<lambda>_. 0) (Controlling, ?e) (Draining, demo_draining)"
    unfolding demo_draining_def by (rule engine_step.over[of _ StopReceived]) (simp_all add: e control_turn_def)
  obtain t where "running t (Controlling, demo_engine)" using running_start by blast
  moreover obtain ls c where "en_reports demo_pool = [(None, MetricVUs, ls, c)]" "labels_ok (\<lambda>_. 0) ls" using demo_pool_reports by blast
  moreover have "en_reports demo_engine = []" by (simp add: demo_engine_def)
  ultimately obtain t1 where "running t1 (Controlling, demo_pool)"
    using running_engine[OF _ demo_reach] by (fastforce simp: report_labels_def)
  then obtain t2 where "running t2 (Controlling, ?e)" using running_quiet engine_step.ask by fastforce
  then obtain t3 where "running t3 (Draining, demo_draining)" using running_quiet[OF _ ov] by (auto simp: demo_draining_def)
  then obtain t4 where "running t4 (Draining, leave demo_draining 0)" using running_quiet[OF _ demo_over_steps(1)] by auto
  then obtain t5 where "running t5 (Draining, demo_over)" using running_quiet[OF _ demo_over_steps(2)] by (auto simp: demo_over_def)
  then show ?thesis using running_quiet[OF _ demo_over_steps(3)] by auto
qed

lemma demo_ended:
  "\<exists>t run. demo_step\<^sup>*\<^sup>* (trace_start demo_process) t \<and> run \<in> set (wt_ended t) \<and> \<not> ar_cancelled run \<and> ar_engine run = demo_over \<and>
     run_batches (ar_ref run) t \<noteq> []"
proof -
  obtain t run where run: "demo_step\<^sup>*\<^sup>* (trace_start demo_process) t" "wk_run (wt_worker t) = Some run" "ar_started run" "\<not> ar_cancelled run"
      "ar_report run \<noteq> None" "ar_stage run = Finished" "ar_engine run = demo_over"
    using running_over by (auto simp: running_def)
  then obtain rp where rp: "ar_report run = Some rp" by auto
  obtain batch w where f: "worker_flush demo_flush_env (wt_worker t) run (report_bucket rp) (rp_interval rp) = (batch, w)" by force
  define t1 where "t1 = trace_flush demo_flush_env t run rp None"
  have t1: "t1 = t\<lparr>wt_worker := upd_active (\<lambda>run. run\<lparr>ar_report := None\<rparr>) w, wt_batches := wt_batches t @ [(ar_ref run, batch)]\<rparr>"
    by (simp add: t1_def trace_flush_def f)
  obtain r where "wk_run w = Some (run\<lparr>ar_recorder := r\<rparr>)"
    using f run(2) by (auto simp: worker_flush_def split: prod.splits)
  then obtain run' where r': "wk_run (wt_worker t1) = Some run'" "ar_ref run' = ar_ref run" "ar_started run'" "\<not> ar_cancelled run'"
      "ar_report run' = None" "ar_stage run' = Finished" "ar_engine run' = demo_over"
    using run(3,4,6,7) by (auto simp: t1)
  have 1: "demo_step t t1" unfolding t1_def by (rule worker_step.last_flush[OF run(2) rp]) (simp add: run(6))
  define t2 where "t2 = t1\<lparr>wt_worker := execute_end (wt_worker t1) run' None, wt_ended := wt_ended t1 @ [run']\<rparr>"
  have 2: "demo_step t1 t2" unfolding t2_def by (rule worker_step.ended[OF refl r'(1,3,6,5)])
  have "demo_step\<^sup>*\<^sup>* (trace_start demo_process) t2" using run(1) 1 2 by (meson rtranclp.rtrancl_into_rtrancl)
  moreover have "run' \<in> set (wt_ended t2)" by (simp add: t2_def)
  moreover have "run_batches (ar_ref run') t2 \<noteq> []" by (simp add: t2_def t1 run_batches_def r'(2))
  ultimately show ?thesis using r'(4,7) by blast
qed

theorem worker_buckets_once_witness:
  "\<exists>t ref. run_batches ref t \<noteq> [] \<and> demo_step\<^sup>*\<^sup>* (trace_start demo_process) t \<and>
    sorted_wrt (<) (map mb_BucketStart (run_batches ref t))"
proof -
  obtain t run where t: "demo_step\<^sup>*\<^sup>* (trace_start demo_process) t" "run_batches (ar_ref run) t \<noteq> []" "run \<in> set (wt_ended t)"
    using demo_ended by blast
  then show ?thesis using worker_buckets_once[OF demo_process_New(1) demo_orders t(1), of "ar_ref run"] by blast
qed

theorem worker_reports_run_witness:
  "\<exists>t run taken. demo_step\<^sup>*\<^sup>* (trace_start demo_process) t \<and> run \<in> set (wt_ended t) \<and> length (en_reports (ar_engine run)) = 1 \<and>
    Dropped (ar_recorder run) + of_nat (length taken) = 1 \<and>
    sum_list (map (batch_count MetricVUs no_labels) (run_batches (ar_ref run) t)) = of_nat (series_count MetricVUs no_labels taken)"
proof -
  obtain t run where t: "demo_step\<^sup>*\<^sup>* (trace_start demo_process) t" "run \<in> set (wt_ended t)" "\<not> ar_cancelled run" "ar_engine run = demo_over"
    using demo_ended by blast
  have "en_reports demo_over = en_reports demo_pool" by (simp add: demo_over_def demo_draining_def)
  then have n: "length (en_reports (ar_engine run)) = 1" using demo_pool_reports t(4) by auto
  obtain taken where tk: "Dropped (ar_recorder run) + of_nat (length taken) = of_nat (length (en_reports (ar_engine run)))"
      "\<And>metric ls. labels_ok (we_hash demo_process_env) ls \<Longrightarrow> sum_list (map (batch_count metric ls) (run_batches (ar_ref run) t)) = of_nat (series_count metric ls taken)"
    using worker_reports_run[OF demo_process_New(1) demo_orders t(1-3)] by blast
  have "sum_list (map (batch_count MetricVUs no_labels) (run_batches (ar_ref run) t)) = of_nat (series_count MetricVUs no_labels taken)"
    by (rule tk(2)) simp
  then show ?thesis using t(1,2) n tk(1) by (intro exI[of _ t] exI[of _ run] exI[of _ taken]) simp
qed

end
