(* ===== verification/Report.thy ===== *)
theory Report
  imports CoordinatorProps Durations
begin

text \<open>
  \<open>internal/report\<close>: the HTML report of a run, with the exit code \<open>internal/cli/run.go\<close> gives to it.
  Formatting a float with a number of decimals, formatting a time and converting an out-of-range
  float are arguments, and so is the order in which \<open>range\<close> visits the endpoints of a tick, on which
  the rounding of their sum depends. The template that lays the data out is not modelled; the charts
  are, down to the text of the SVG. The lemmas show that counts are printed without loss, that
  averaging a series down uses every point once and stays inside the plot, which endpoints are
  charted, and when the report and the exit code call a run a success.
\<close>

subsection \<open>Formatting\<close>

text \<open>\<open>%.nf\<close>, and the \<open>uint64\<close> of a float.\<close>

record report_lib =
  rl_fixed :: "nat \<Rightarrow> float64 \<Rightarrow> string"
  rl_clock :: "go_time \<Rightarrow> string" \<comment> \<open>\<open>15:04:05\<close>\<close>
  rl_stamp :: "go_time \<Rightarrow> string" \<comment> \<open>\<open>20060102-150405\<close> in UTC\<close>
  rl_platform :: platform
  rl_uint64 :: "float64 \<Rightarrow> u64" \<comment> \<open>outside the range of the type\<close>

fun to_uint64 :: "(float64 \<Rightarrow> u64) \<Rightarrow> float64 \<Rightarrow> u64" where
  "to_uint64 out (Fin x) = (if 0 \<le> rat_trunc x \<and> rat_trunc x < 2 ^ 64 then word_of_int (rat_trunc x) else out (Fin x))"
| "to_uint64 out x = out x"

definition em_dash :: string where
  "em_dash = map char_of [226, 128, 148 :: nat]"

definition micro_s :: string where
  "micro_s = map char_of [194, 181, 115 :: nat]"

definition formatMillis :: "report_lib \<Rightarrow> float64 \<Rightarrow> string" where
  "formatMillis R ms =
     (if f_le ms (Fin 0) then em_dash
      else if f_lt ms (Fin 1) then rl_fixed R 0 (f_mul ms (Fin 1000)) @ micro_s
      else if f_lt ms (Fin 1000) then (if f_lt ms (Fin 10) then rl_fixed R 1 ms @ ''ms'' else rl_fixed R 0 ms @ ''ms'')
      else rl_fixed R 2 (f_div ms (Fin 1000)) @ ''s'')"

text \<open>The loop of \<open>formatCount\<close>, over the digits that are left.\<close>

fun count_groups :: "string \<Rightarrow> string \<Rightarrow> string" where
  "count_groups b rest =
     (if rest = [] then b else count_groups (b @ (if length b > 0 then '','' else []) @ take 3 rest) (drop 3 rest))"

declare count_groups.simps [simp del]

definition formatCount :: "u64 \<Rightarrow> string" where
  "formatCount n =
     (let text = dec_digits (unat n) in
      if length text \<le> 3 then text
      else let lead = length text mod 3 in count_groups (take lead text) (drop lead text))"

definition formatPercent :: "report_lib \<Rightarrow> float64 \<Rightarrow> string" where
  "formatPercent R ratio =
     (if f_le ratio (Fin 0) then ''0%''
      else if f_lt ratio (fl (1 / 10000)) then ''<0.01%''
      else rl_fixed R 2 (f_mul ratio (Fin 100)) @ ''%'')"

definition byte_units :: "string list" where
  "byte_units = [''B'', ''KiB'', ''MiB'', ''GiB'', ''TiB'']"

fun scale_bytes :: "float64 \<Rightarrow> string list \<Rightarrow> float64 \<times> string list" where
  "scale_bytes v (u # w # us) = (if f_le (Fin 1024) v then scale_bytes (f_div v (Fin 1024)) (w # us) else (v, u # w # us))"
| "scale_bytes v us = (v, us)"

definition formatBytes :: "report_lib \<Rightarrow> float64 \<Rightarrow> string" where
  "formatBytes R n =
     (if f_le n (Fin 0) then em_dash
      else let (v, us) = scale_bytes n byte_units in
        if length us = length byte_units then rl_fixed R 0 v @ '' '' @ hd us else rl_fixed R 1 v @ '' '' @ hd us)"

definition duration_Minutes :: "duration \<Rightarrow> float64" where
  "duration_Minutes d = f_add (f_of_int (go_div d (60 * time_Second))) (f_div (f_of_int (go_mod d (60 * time_Second))) (Fin 60000000000))"

definition duration_Hours :: "duration \<Rightarrow> float64" where
  "duration_Hours d = f_add (f_of_int (go_div d (3600 * time_Second))) (f_div (f_of_int (go_mod d (3600 * time_Second))) (Fin 3600000000000))"

text \<open>\<open>time.Duration(seconds * float64(time.Second))\<close>.\<close>

definition seconds_duration :: "report_lib \<Rightarrow> float64 \<Rightarrow> duration" where
  "seconds_duration R seconds = to_int64 (oob (rl_platform R)) (f_mul seconds (Fin 1000000000))"

definition formatSeconds :: "report_lib \<Rightarrow> float64 \<Rightarrow> string" where
  "formatSeconds R seconds =
     (let d = seconds_duration R seconds; whole = to_int64 (oob (rl_platform R)) in
      if d \<le> 0 then em_dash
      else if d < 60 * time_Second then rl_fixed R 0 (duration_Seconds d) @ ''s''
      else if d < 3600 * time_Second
        then fmt_d (whole (duration_Minutes d)) @ ''m '' @ fmt_d (go_mod (whole (duration_Seconds d)) 60) @ ''s''
      else fmt_d (whole (duration_Hours d)) @ ''h '' @ fmt_d (go_mod (whole (duration_Minutes d)) 60) @ ''m'')"

subsection \<open>Charts\<close>

definition chartWidth :: int where "chartWidth = 840"
definition chartHeight :: int where "chartHeight = 240"
definition marginLeft :: int where "marginLeft = 56"
definition marginRight :: int where "marginRight = 14"
definition marginTop :: int where "marginTop = 12"
definition marginBottom :: int where "marginBottom = 28"
definition plotWidth :: int where "plotWidth = chartWidth - marginLeft - marginRight"
definition plotHeight :: int where "plotHeight = chartHeight - marginTop - marginBottom"
definition gridLines :: nat where "gridLines = 4"
definition maxPlotPoints :: nat where "maxPlotPoints = 420"

lemmas geometry = chartWidth_def chartHeight_def marginLeft_def marginRight_def marginTop_def marginBottom_def plotWidth_def
  plotHeight_def gridLines_def

record chart_series =
  cs_Label :: string
  cs_Color :: string
  cs_Points :: "float64 list"
  cs_Fill :: bool

record Chart =
  ch_Title :: string
  ch_Name :: string
  ch_Hint :: string
  ch_X :: "go_time list"
  ch_Series :: "chart_series list"
  ch_Format :: "(float64 \<Rightarrow> string) option"
  ch_Stacked :: bool

definition chart_Empty :: "Chart \<Rightarrow> bool" where
  "chart_Empty c \<longleftrightarrow>
     (if length (ch_X c) < 2 then True
      else if list_ex (\<lambda>s. list_ex (\<lambda>v. f_lt (Fin 0) v) (cs_Points s)) (ch_Series c) then False
      else False)"

definition chart_format :: "report_lib \<Rightarrow> Chart \<Rightarrow> float64 \<Rightarrow> string" where
  "chart_format R c v = (case ch_Format c of None \<Rightarrow> rl_fixed R 0 v | Some f \<Rightarrow> f v)"

record LegendEntry =
  ln_Label :: string
  ln_Color :: string
  ln_Value :: string

definition Legend :: "report_lib \<Rightarrow> Chart \<Rightarrow> LegendEntry list" where
  "Legend R c =
     map (\<lambda>s. \<lparr>ln_Label = cs_Label s, ln_Color = cs_Color s,
        ln_Value = (if length (cs_Points s) > 0 then chart_format R c (last (cs_Points s)) else em_dash)\<rparr>) (ch_Series c)"

definition upperBound :: "chart_series list \<Rightarrow> float64" where
  "upperBound series =
     (let upper = foldl (\<lambda>u s. foldl (\<lambda>u v. if f_lt u v then v else u) u (cs_Points s)) (Fin 0) series
      in if f_le upper (Fin 0) then Fin 1 else f_mul upper (fl (11 / 10)))"

definition clamp :: "float64 \<Rightarrow> float64" where
  "clamp v = (if v = NaN \<or> f_lt v (Fin 0) then Fin 0 else if f_lt (Fin 1) v then Fin 1 else v)"

text \<open>The loop of \<open>accumulate\<close>: \<open>running\<close> are the points of the band below, none at first.\<close>

fun accumulate_from :: "float64 list \<Rightarrow> chart_series list \<Rightarrow> chart_series list" where
  "accumulate_from running [] = []"
| "accumulate_from running (s # ss) =
     (let next = map (\<lambda>(j, v). let previous = (if j < length running then running ! j else Fin 0); v = (if v = NaN then Fin 0 else v)
                       in f_add previous v) (enumerate 0 (cs_Points s))
      in \<lparr>cs_Label = cs_Label s, cs_Color = cs_Color s, cs_Points = next, cs_Fill = False\<rparr> # accumulate_from next ss)"

definition accumulate :: "chart_series list \<Rightarrow> chart_series list" where
  "accumulate series = accumulate_from [] series"

text \<open>One bucket of \<open>downsample\<close>: the indices it averages, and their mean.\<close>

definition window :: "nat \<Rightarrow> nat \<Rightarrow> nat \<times> nat" where
  "window n bucket =
     (let start = bucket * n div maxPlotPoints; fin = (bucket + 1) * n div maxPlotPoints;
          fin = (if fin \<le> start then start + 1 else fin);
          fin = (if fin > n then n else fin)
      in (start, fin))"

definition window_points :: "float64 list \<Rightarrow> nat \<times> nat \<Rightarrow> float64 list" where
  "window_points points w = take (min (snd w) (length points) - fst w) (drop (fst w) points)"

definition window_mean :: "float64 list \<Rightarrow> nat \<times> nat \<Rightarrow> float64" where
  "window_mean points w =
     (let vs = window_points points w in
      if length vs > 0 then f_div (foldl f_add (Fin 0) vs) (f_of_int (int (length vs))) else Fin 0)"

definition downsample :: "Chart \<Rightarrow> go_time list \<times> chart_series list" where
  "downsample c =
     (let n = length (ch_X c) in
      if n \<le> maxPlotPoints then (ch_X c, ch_Series c)
      else let windows = map (window n) [0..<maxPlotPoints] in
        (map (\<lambda>w. ch_X c ! fst w) windows,
         map (\<lambda>s. \<lparr>cs_Label = cs_Label s, cs_Color = cs_Color s, cs_Points = map (window_mean (cs_Points s)) windows,
                    cs_Fill = cs_Fill s\<rparr>) (ch_Series c)))"


subsection \<open>The SVG\<close>

text \<open>\<open>template.HTMLEscapeString\<close>.\<close>

definition escape_char :: "char \<Rightarrow> string" where
  "escape_char c =
     (if c = char_of (0 :: nat) then map char_of [239, 191, 189 :: nat]
      else if c = CHR 0x22 then ''&#34;''
      else if c = CHR 0x27 then ''&#39;''
      else if c = CHR ''&'' then ''&amp;''
      else if c = CHR ''<'' then ''&lt;''
      else if c = CHR ''>'' then ''&gt;''
      else [c])"

definition HTMLEscapeString :: "string \<Rightarrow> string" where
  "HTMLEscapeString s = concat (map escape_char s)"

text \<open>An attribute with its quotes.\<close>

definition attr :: "string \<Rightarrow> string \<Rightarrow> string" where
  "attr name val = name @ ''='' @ [CHR 0x22] @ val @ [CHR 0x22]"

definition f_sub :: "float64 \<Rightarrow> float64 \<Rightarrow> float64" where
  "f_sub a b = f_add a (f_neg b)"

text \<open>\<open>marginTop + plotHeight*(1-fraction)\<close>.\<close>

definition plot_y :: "report_lib \<Rightarrow> float64 \<Rightarrow> float64" where
  "plot_y R fraction = f_muladd (fused (rl_platform R)) (f_of_int plotHeight) (f_sub (Fin 1) fraction) (f_of_int marginTop)"

definition grid_line :: "report_lib \<Rightarrow> Chart \<Rightarrow> float64 \<Rightarrow> nat \<Rightarrow> string" where
  "grid_line R c upper i =
     (let fraction = f_div (f_of_int (int i)) (f_of_int (int gridLines)); y = plot_y R fraction; val = f_mul upper fraction;
          ys = rl_fixed R 1 y
      in ''<line '' @ attr ''class'' ''grid'' @ '' '' @ attr ''x1'' (fmt_d marginLeft) @ '' '' @ attr ''y1'' ys @ '' '' @
           attr ''x2'' (fmt_d (marginLeft + plotWidth)) @ '' '' @ attr ''y2'' ys @ ''/>'' @
         ''<text '' @ attr ''class'' ''ylabel'' @ '' '' @ attr ''x'' (fmt_d (marginLeft - 8)) @ '' '' @
           attr ''y'' (rl_fixed R 1 (f_add y (Fin (7 / 2)))) @ ''>'' @ HTMLEscapeString (chart_format R c val) @ ''</text>'')"

definition writeGrid :: "report_lib \<Rightarrow> Chart \<Rightarrow> float64 \<Rightarrow> string" where
  "writeGrid R c upper = concat (map (grid_line R c upper) [0..<gridLines + 1])"

definition x_label :: "report_lib \<Rightarrow> go_time list \<Rightarrow> nat \<Rightarrow> string" where
  "x_label R xs i =
     (let fraction = f_div (f_of_int (int i)) (f_of_int 4);
          index = to_int64 (oob (rl_platform R)) (f_mul fraction (f_of_int (int (length xs) - 1)));
          x = f_muladd (fused (rl_platform R)) (f_of_int plotWidth) fraction (f_of_int marginLeft);
          anchor = (if i = 0 then ''start'' else if i = 4 then ''end'' else ''middle'')
      in ''<text '' @ attr ''class'' ''xlabel'' @ '' '' @ attr ''x'' (rl_fixed R 1 x) @ '' '' @ attr ''y'' (fmt_d (chartHeight - 8)) @
           '' '' @ attr ''text-anchor'' anchor @ ''>'' @ rl_clock R (xs ! nat index) @ ''</text>'')"

definition writeXLabels :: "report_lib \<Rightarrow> go_time list \<Rightarrow> string" where
  "writeXLabels R xs = concat (map (x_label R xs) [0..<5])"

definition fillOpacity :: "bool \<Rightarrow> string" where
  "fillOpacity stacked = (if stacked then ''1'' else ''0.14'')"

text \<open>The coordinates of a line: the points spread over the width, the values clamped to the height.\<close>

definition point_x :: "nat \<Rightarrow> nat \<Rightarrow> float64" where
  "point_x n i =
     (if n > 1 then f_add (f_of_int marginLeft) (f_div (f_mul (f_of_int plotWidth) (f_of_int (int i))) (f_of_int (int n - 1)))
      else f_of_int marginLeft)"

definition point_y :: "report_lib \<Rightarrow> float64 \<Rightarrow> float64 \<Rightarrow> float64" where
  "point_y R upper v = plot_y R (clamp (f_div v upper))"

definition series_coords :: "report_lib \<Rightarrow> float64 \<Rightarrow> float64 list \<Rightarrow> (float64 \<times> float64) list" where
  "series_coords R upper points = map (\<lambda>(i, v). (point_x (length points) i, point_y R upper v)) (enumerate 0 points)"

definition writeSeries :: "report_lib \<Rightarrow> Chart \<Rightarrow> chart_series \<Rightarrow> float64 \<Rightarrow> nat \<Rightarrow> string" where
  "writeSeries R c s upper slot =
     (if length (cs_Points s) = 0 then []
      else
        let coords = map (\<lambda>(x, y). rl_fixed R 1 x @ '','' @ rl_fixed R 1 y) (series_coords R upper (cs_Points s));
            line = strings_Join '' '' coords; sl = fmt_d (int slot + 1); base = fmt_d (marginTop + plotHeight);
            area = (if cs_Fill s \<or> ch_Stacked c
              then ''<polygon '' @ attr ''class'' (''area s'' @ sl) @ '' '' @ attr ''fill'' (cs_Color s) @ '' '' @
                     attr ''fill-opacity'' (fillOpacity (ch_Stacked c)) @ '' '' @
                     attr ''points'' (rl_fixed R 1 (f_of_int marginLeft) @ '','' @ base @ '' '' @ line @ '' '' @
                       rl_fixed R 1 (f_of_int (marginLeft + plotWidth)) @ '','' @ base) @ ''/>''
              else []);
            (stroke, cls) = (if ch_Stacked c then (''var(--surface)'', ''band-edge'') else (cs_Color s, ''line''))
        in area @ ''<polyline '' @ attr ''class'' (cls @ '' s'' @ sl) @ '' '' @ attr ''fill'' ''none'' @ '' '' @ attr ''stroke'' stroke @ '' '' @
             attr ''points'' line @ ''/>'')"

definition chart_SVG :: "report_lib \<Rightarrow> Chart \<Rightarrow> string" where
  "chart_SVG R c =
     (if length (ch_X c) < 2 \<or> length (ch_Series c) = 0 then []
      else
        let (xs, series) = downsample c; plotted = (if ch_Stacked c then accumulate series else series);
            upper = upperBound plotted;
            order = (if ch_Stacked c then rev [0..<length plotted] else [0..<length plotted])
        in ''<svg '' @ attr ''class'' ''chart'' @ '' '' @ attr ''viewBox'' (''0 0 '' @ fmt_d chartWidth @ '' '' @ fmt_d chartHeight) @ '' '' @
             attr ''preserveAspectRatio'' ''none'' @ '' '' @ attr ''role'' ''img'' @ '' '' @
             attr ''aria-label'' (HTMLEscapeString (ch_Title c)) @ ''>'' @
           writeGrid R c upper @ writeXLabels R xs @
           concat (map (\<lambda>i. writeSeries R c (plotted ! i) upper i) order) @ ''</svg>'')"


subsection \<open>The report\<close>

definition endpointColors :: "string list" where
  "endpointColors = [''#2a78d6'', ''#eb6834'', ''#1baf7a'', ''#eda100'', ''#e87ba4'', ''#008300'', ''#4a3aa7'', ''#e34948'']"

definition statusColors :: "(string, string) gomap" where
  "statusColors = [(''2xx'', ''#0ca30c''), (''3xx'', ''#2a78d6''), (''4xx'', ''#eda100''), (''5xx'', ''#d03b3b''),
     (''error'', ''#4a3aa7''), (''1xx'', ''#7a7873''), (''other'', ''#7a7873'')]"

definition maxChartedEndpoints :: nat where "maxChartedEndpoints = 8"

definition statusOrder :: "string list" where
  "statusOrder = [''2xx'', ''3xx'', ''4xx'', ''5xx'', ''error'', ''1xx'', ''other'']"

record Verdict =
  vd_Passed :: bool
  vd_Label :: string
  vd_Detail :: string

record Stat =
  sv_Label :: string
  sv_Value :: string
  sv_Detail :: string

record Card =
  cd_Index :: nat
  cd_Title :: string
  cd_Views :: "Chart list"
  cd_Default :: nat

definition card_Multi :: "Card \<Rightarrow> bool" where
  "card_Multi c \<longleftrightarrow> length (cd_Views c) > 1"

definition orDefault :: "string \<Rightarrow> string \<Rightarrow> string" where
  "orDefault val fallback = (if TrimSpace val = [] then fallback else val)"

definition plural :: "int \<Rightarrow> string \<Rightarrow> string \<Rightarrow> string" where
  "plural n one many = (if n = 1 then fmt_d n @ '' '' @ one else fmt_d n @ '' '' @ many)"

definition verdictOf :: "RunState.Summary \<Rightarrow> Verdict" where
  "verdictOf run =
     (if sm_Phase run = PhaseFailed
      then \<lparr>vd_Passed = False, vd_Label = ''Run failed'', vd_Detail = orDefault (sm_Failure run) ''the run could not be completed''\<rparr>
      else if sm_Breached run
      then let failing = int (length (filter (\<lambda>t. tr_Evaluated t \<and> \<not> tr_Passed t) (sm_Thresholds run))) in
        \<lparr>vd_Passed = False, vd_Label = ''Thresholds breached'',
         vd_Detail = ''The run completed, but '' @ plural failing ''threshold'' ''thresholds'' @ '' did not hold.''\<rparr>
      else if sm_Phase run = PhaseAborted
      then \<lparr>vd_Passed = False, vd_Label = ''Aborted'', vd_Detail = orDefault (sm_StopReason run) ''the run was stopped early''\<rparr>
      else if length (sm_Thresholds run) = 0
      then \<lparr>vd_Passed = True, vd_Label = ''Completed'',
         vd_Detail = ''No thresholds were defined, so there is nothing to pass or fail.''\<rparr>
      else \<lparr>vd_Passed = True, vd_Label = ''Passed'',
         vd_Detail = ''The run completed and all '' @ plural (int (length (sm_Thresholds run))) ''threshold'' ''thresholds'' @ '' held.''\<rparr>)"

definition ratioCount :: "report_lib \<Rightarrow> SeriesSummary \<Rightarrow> u64" where
  "ratioCount R s =
     to_uint64 (rl_uint64 R) (f_muladd (fused (rl_platform R)) (ss_Rate s) (f_of_int (uint (ss_Count s))) (Fin (1 / 2)))"

definition total_of :: "(string, SeriesSummary) gomap \<Rightarrow> string \<Rightarrow> SeriesSummary" where
  "total_of totals m = (case map_of totals m of Some s \<Rightarrow> s | None \<Rightarrow> zero_summary)"

definition percentile :: "SeriesSummary \<Rightarrow> string \<Rightarrow> float64" where
  "percentile s k = (case map_of (ss_Percentiles s) k of Some v \<Rightarrow> v | None \<Rightarrow> Fin 0)"

definition stat :: "string \<Rightarrow> string \<Rightarrow> Stat" where
  "stat label val = \<lparr>sv_Label = label, sv_Value = val, sv_Detail = []\<rparr>"

text \<open>A rate with the counts behind it, where the metric was measured.\<close>

definition rate_stat :: "report_lib \<Rightarrow> (string, SeriesSummary) gomap \<Rightarrow> string \<Rightarrow> string \<Rightarrow> Stat list" where
  "rate_stat R totals metric label =
     (case map_of totals metric of
        Some s \<Rightarrow>
          if ss_Count s > 0
          then [\<lparr>sv_Label = label, sv_Value = formatPercent R (ss_Rate s),
                 sv_Detail = formatCount (ratioCount R s) @ '' of '' @ formatCount (ss_Count s)\<rparr>]
          else []
      | None \<Rightarrow> [])"

text \<open>The run is there: \<open>Build\<close> has checked it.\<close>

definition headline :: "report_lib \<Rightarrow> Snapshot \<Rightarrow> RunState.Summary \<Rightarrow> Stat list" where
  "headline R snap run =
     (let totals = sn_Totals snap; elapsed = seconds_duration R (duration_Seconds (sm_Elapsed run));
          requests = ss_Count (total_of totals MetricHTTPReqs)
      in [stat ''Requests'' (formatCount requests)] @
         (if elapsed > 0
          then [stat ''Throughput'' (formatCount (to_uint64 (rl_uint64 R) (f_div (f_of_int (uint requests)) (duration_Seconds elapsed))) @ ''/s'')]
          else []) @
         [stat ''Iterations'' (formatCount (ss_Count (total_of totals MetricIterations))),
          stat ''Peak VUs'' (formatCount (word_of_int (sm_PeakVUs run)))] @
         (case map_of totals MetricHTTPReqDuration of
            Some d \<Rightarrow>
              if ss_Count d > 0
              then [stat ''Avg'' (formatMillis R (ss_Avg d)), stat ''p95'' (formatMillis R (percentile d ''p95'')),
                    stat ''p99'' (formatMillis R (percentile d ''p99''))]
              else []
          | None \<Rightarrow> []) @
         rate_stat R totals MetricHTTPReqFailed ''Error rate'' @
         rate_stat R totals MetricChecks ''Checks'')"

definition palette :: "string list \<Rightarrow> (string, string) gomap" where
  "palette names =
     foldl (\<lambda>slot (i, name). gput name (endpointColors ! (i mod length endpointColors)) slot) []
       (enumerate 0 (sort_by (<) names))"

definition color_of :: "(string, string) gomap \<Rightarrow> string \<Rightarrow> string" where
  "color_of slot name = (case map_of slot name of Some c \<Rightarrow> c | None \<Rightarrow> [])"

definition endpoint_points :: "TickDTO list \<Rightarrow> string \<Rightarrow> float64 list" where
  "endpoint_points ticks name =
     map (\<lambda>tick. case map_of (tk_Endpoints tick) name of Some point \<Rightarrow> et_Avg point | None \<Rightarrow> Fin 0) ticks"

definition endpointSeries :: "TickDTO list \<Rightarrow> string list \<Rightarrow> chart_series list" where
  "endpointSeries ticks names =
     (let slot = palette names in
      map (\<lambda>name. \<lparr>cs_Label = name, cs_Color = color_of slot name, cs_Points = endpoint_points ticks name, cs_Fill = False\<rparr>) names)"

definition tag_of :: "SeriesSummary \<Rightarrow> string \<Rightarrow> string" where
  "tag_of s k = (case map_of (ss_Tags s) k of Some v \<Rightarrow> v | None \<Rightarrow> [])"

definition owners_of :: "(string, string list) gomap \<Rightarrow> string \<Rightarrow> string list" where
  "owners_of owners name = (case map_of owners name of Some ss \<Rightarrow> ss | None \<Rightarrow> [])"

definition owner_step :: "(string, string list) gomap \<Rightarrow> SeriesSummary \<Rightarrow> (string, string list) gomap" where
  "owner_step owners entry =
     (if ss_Metric entry \<noteq> MetricHTTPReqDuration then owners
      else let name = tag_of entry LabelName; scenario = tag_of entry LabelScenario in
        if name = [] \<or> scenario = [] then owners
        else if scenario \<notin> set (owners_of owners name) then gput name (owners_of owners name @ [scenario]) owners
        else owners)"

definition scenariosByEndpoint :: "SeriesSummary list \<Rightarrow> (string, string list) gomap" where
  "scenariosByEndpoint series = foldl owner_step [] series"

record step_line =
  sl_label :: string
  sl_name :: string
  sl_scenario :: string
  sl_rank :: nat

definition step_lines :: "(string, string list) gomap \<Rightarrow> nat \<times> string \<Rightarrow> step_line list" where
  "step_lines owners rn =
     (case rn of (rank, name) \<Rightarrow>
        let scenarios = owners_of owners name in
        if length scenarios = 0 then [\<lparr>sl_label = name, sl_name = name, sl_scenario = [], sl_rank = rank\<rparr>]
        else map (\<lambda>sc. \<lparr>sl_label = sc @ '' '' @ map char_of [194, 183 :: nat] @ '' '' @ name, sl_name = name, sl_scenario = sc,
                        sl_rank = rank\<rparr>) scenarios)"

definition step_less :: "step_line \<Rightarrow> step_line \<Rightarrow> bool" where
  "step_less left right =
     (if sl_scenario left \<noteq> sl_scenario right
      then if sl_scenario left = [] then False
           else if sl_scenario right = [] then True
           else sl_scenario left < sl_scenario right
      else sl_rank left < sl_rank right)"

definition stepSeries :: "TickDTO list \<Rightarrow> string list \<Rightarrow> (string, string list) gomap \<Rightarrow> chart_series list" where
  "stepSeries ticks names owners =
     (let steps = sort_by step_less (concat (map (step_lines owners) (enumerate 0 names)));
          steps = (if length steps > maxChartedEndpoints then take maxChartedEndpoints steps else steps);
          slot = palette (map sl_label steps)
      in map (\<lambda>s. \<lparr>cs_Label = sl_label s, cs_Color = color_of slot (sl_label s), cs_Points = endpoint_points ticks (sl_name s),
                    cs_Fill = False\<rparr>) steps)"


text \<open>The requests of each name over the whole timeline, then the names by requests, the name breaking ties.\<close>

definition add_requests :: "(string, u64) gomap \<Rightarrow> string \<times> u64 \<Rightarrow> (string, u64) gomap" where
  "add_requests m np = (case np of (name, n) \<Rightarrow> gput name ((case map_of m name of Some k \<Rightarrow> k | None \<Rightarrow> 0) + n) m)"

definition busier :: "(string, u64) gomap \<Rightarrow> string \<Rightarrow> string \<Rightarrow> bool" where
  "busier requests a b =
     (let ra = the (map_of requests a); rb = the (map_of requests b) in if ra \<noteq> rb then ra > rb else a < b)"

definition endpoint_requests :: "TickDTO list \<Rightarrow> (string, u64) gomap" where
  "endpoint_requests ticks =
     foldl add_requests [] (concat (map (\<lambda>tick. map (\<lambda>(name, point). (name, et_Requests point)) (tk_Endpoints tick)) ticks))"

definition scenario_requests :: "TickDTO list \<Rightarrow> (string, u64) gomap" where
  "scenario_requests ticks =
     foldl add_requests [] (concat (map (\<lambda>tick. map (\<lambda>(name, point). (name, sk_Requests point)) (tk_Scenarios tick)) ticks))"

definition chartedEndpoints :: "TickDTO list \<Rightarrow> string list \<times> nat" where
  "chartedEndpoints ticks =
     (let requests = endpoint_requests ticks in
      if length requests = 0 then ([], 0)
      else let names = sort_by (busier requests) (map fst requests) in
        if length names \<le> maxChartedEndpoints then (names, 0)
        else (take maxChartedEndpoints names, length names - maxChartedEndpoints))"

type_synonym tick_order = "(string \<times> EndpointTick) list \<Rightarrow> (string \<times> EndpointTick) list"

definition pass_cost :: "tick_order \<Rightarrow> (string, string list) gomap \<Rightarrow> string \<Rightarrow> TickDTO \<Rightarrow> float64" where
  "pass_cost ord owners scenario tick =
     foldl (\<lambda>acc (name, point). if scenario \<in> set (owners_of owners name) then f_add acc (et_Avg point) else acc) (Fin 0)
       (ord (tk_Endpoints tick))"

definition scenarioSeries :: "tick_order \<Rightarrow> TickDTO list \<Rightarrow> (string, string list) gomap \<Rightarrow> chart_series list" where
  "scenarioSeries ord ticks owners =
     (let requests = scenario_requests ticks in
      if length requests = 0 then []
      else let names = sort_by (busier requests) (map fst requests);
               names = (if length names > maxChartedEndpoints then take maxChartedEndpoints names else names);
               slot = palette names
           in map (\<lambda>sc. \<lparr>cs_Label = sc, cs_Color = color_of slot sc, cs_Points = map (pass_cost ord owners sc) ticks, cs_Fill = False\<rparr>) names)"

definition status_count :: "TickDTO \<Rightarrow> string \<Rightarrow> u64" where
  "status_count tick cls = (case map_of (tk_Status tick) cls of Some n \<Rightarrow> n | None \<Rightarrow> 0)"

definition statusSeries :: "TickDTO list \<Rightarrow> chart_series list" where
  "statusSeries ticks =
     map (\<lambda>cls. \<lparr>cs_Label = cls, cs_Color = color_of statusColors cls,
                  cs_Points = map (\<lambda>tick. f_of_int (uint (status_count tick cls))) ticks, cs_Fill = False\<rparr>)
       (filter (\<lambda>cls. list_ex (\<lambda>tick. map_of (tk_Status tick) cls \<noteq> None) ticks) statusOrder)"

definition plain_chart :: "string \<Rightarrow> string \<Rightarrow> go_time list \<Rightarrow> (float64 \<Rightarrow> string) \<Rightarrow> chart_series list \<Rightarrow> Chart" where
  "plain_chart title hint xs fmt series =
     \<lparr>ch_Title = title, ch_Name = [], ch_Hint = hint, ch_X = xs, ch_Series = series, ch_Format = Some fmt, ch_Stacked = False\<rparr>"

definition responseTimeCard :: "report_lib \<Rightarrow> tick_order \<Rightarrow> Snapshot \<Rightarrow> go_time list \<Rightarrow> string list \<Rightarrow> Card" where
  "responseTimeCard R ord snap xs names =
     (let ticks = sn_Ticks snap;
          view = (\<lambda>name hint series. (plain_chart ''Response time'' hint xs (formatMillis R) series)\<lparr>ch_Name := name\<rparr>);
          owners = scenariosByEndpoint (sn_Series snap);
          steps = stepSeries ticks names owners; scenarios = scenarioSeries ord ticks owners
      in \<lparr>cd_Index = 0, cd_Title = ''Response time'',
          cd_Views =
            [view ''Total'' ''mean across every request''
               [\<lparr>cs_Label = ''average'', cs_Color = ''#2a78d6'', cs_Points = map tk_Avg ticks, cs_Fill = True\<rparr>],
             view ''Individual'' ''average per endpoint'' (endpointSeries ticks names)] @
            (if length owners > 0 \<and> length steps > 0 then [view ''Step'' ''average per step, grouped by scenario'' steps] else []) @
            (if length scenarios > 0 then [view ''Scenario'' (''each scenario'' @ [CHR 0x27] @ ''s own step averages summed'') scenarios] else []),
          cd_Default = 1\<rparr>)"

definition count_format :: "report_lib \<Rightarrow> float64 \<Rightarrow> string" where
  "count_format R v = formatCount (to_uint64 (rl_uint64 R) v)"

definition charts :: "report_lib \<Rightarrow> tick_order \<Rightarrow> Snapshot \<Rightarrow> Card list \<times> nat" where
  "charts R ord snap =
     (let ticks = sn_Ticks snap in
      if length ticks < 2 then ([], 0)
      else
        let xs = map (\<lambda>tick. tk_T tick * 1000000) ticks;
            single = (\<lambda>title hint label color points.
              \<lparr>cd_Index = 0, cd_Title = title,
               cd_Views = [plain_chart title hint xs (count_format R)
                 [\<lparr>cs_Label = label, cs_Color = color, cs_Points = points, cs_Fill = True\<rparr>]], cd_Default = 0\<rparr>);
            out = [single ''Virtual users'' ''concurrent simulated clients'' ''VUs'' ''#2a78d6''
                     (map (\<lambda>tick. f_of_int (uint (tk_VUs tick))) ticks),
                   single ''Requests per second'' ''throughput as measured by the generators'' ''req/s'' ''#1baf7a'' (map tk_RPS ticks)];
            (names, omitted) = chartedEndpoints ticks;
            out = (if length names > 0 then out @ [responseTimeCard R ord snap xs names] else out);
            status = statusSeries ticks;
            out = (if length status > 0
              then out @ [\<lparr>cd_Index = 0, cd_Title = ''Responses by status'',
                     cd_Views = [(plain_chart ''Responses by status'' ''stacked; transport failures counted separately'' xs (count_format R) status)
                                   \<lparr>ch_Stacked := True\<rparr>], cd_Default = 0\<rparr>]
              else out)
        in (map (\<lambda>(i, card). card\<lparr>cd_Index := i\<rparr>) (enumerate 0 out), omitted))"

definition warnings :: "Stats \<Rightarrow> string list" where
  "warnings stats =
     (if sx_DroppedByNode stats > 0
      then [formatCount (sx_DroppedByNode stats) @
            '' samples were dropped by nodes that hit their series cap, so the figures below understate the run. A high-cardinality tag is the usual cause.'']
      else []) @
     (if sx_DroppedSeries stats > 0
      then [formatCount (sx_DroppedSeries stats) @ '' series were dropped by the coordinator'' @ [CHR 0x27] @ ''s cardinality limit.''] else []) @
     (if sx_DroppedLate stats > 0
      then [formatCount (sx_DroppedLate stats) @ '' metric batches arrived too late to be counted. Check clock skew between hosts.''] else []) @
     (if sx_DroppedEndpoints stats > 0
      then [formatCount (sx_DroppedEndpoints stats) @ '' endpoint observations were left out of the timeline, which hit its endpoint cap.''] else []) @
     (if sx_DroppedFailures stats > 0
      then [formatCount (sx_DroppedFailures stats) @
            '' further kinds of failure were not recorded; the counts shown are complete only for the kinds listed.'']
      else [])"

definition failureCode :: "FailureSample \<Rightarrow> string" where
  "failureCode f =
     (if fk_status (fs_key f) > 0 then fmt_d (fk_status (fs_key f))
      else if fk_errorClass (fs_key f) \<noteq> []
      then map (\<lambda>c. if c = CHR ''_'' then CHR '' '' else c) (fk_errorClass (fs_key f))
      else ''no response'')"

text \<open>Without the version.\<close>

record report_data =
  rd_Run :: RunState.Summary
  rd_Generated :: go_time
  rd_Verdict :: Verdict
  rd_Totals :: "(string, SeriesSummary) gomap"
  rd_Headline :: "Stat list"
  rd_Cards :: "Card list"
  rd_Endpoints :: "EndpointSummary list"
  rd_Failures :: "FailureSample list"
  rd_Thresholds :: "ThresholdResult list"
  rd_Agents :: "AgentInfo list"
  rd_Events :: "Event list"
  rd_Warnings :: "string list"
  rd_OmittedEnds :: nat

definition report_Build :: "report_lib \<Rightarrow> tick_order \<Rightarrow> Snapshot \<Rightarrow> go_time \<Rightarrow> string + report_data" where
  "report_Build R ord snap now =
     (case sn_Run snap of
        None \<Rightarrow> Inl ''the snapshot has no run to report on''
      | Some run \<Rightarrow>
          let (cards, omitted) = charts R ord snap in
          Inr \<lparr>rd_Run = run, rd_Generated = now, rd_Verdict = verdictOf run, rd_Totals = sn_Totals snap, rd_Headline = headline R snap run,
               rd_Cards = cards, rd_Endpoints = sn_Endpoints snap, rd_Failures = sn_Failures snap, rd_Thresholds = sm_Thresholds run,
               rd_Agents = sn_Agents snap, rd_Events = sn_Events snap, rd_Warnings = warnings (sm_Stats run), rd_OmittedEnds = omitted\<rparr>)"

definition report_Filename :: "report_lib \<Rightarrow> RunState.Summary \<Rightarrow> string" where
  "report_Filename R run =
     (let name = (if sm_Name run = [] then ''loadwave'' else sm_Name run) in name @ ''-'' @ rl_stamp R (sm_CreatedAt run) @ ''.html'')"

subsection \<open>The exit code\<close>

text \<open>\<open>verdict\<close> of \<open>internal/cli/run.go\<close> and the end of \<open>Execute\<close>; \<open>breached\<close> is \<open>run.Breached()\<close> at that time.\<close>

definition ExitOK :: int where "ExitOK = 0"
definition ExitError :: int where "ExitError = 1"
definition ExitThresholdBreached :: int where "ExitThresholdBreached = 2"
definition ExitInterrupted :: int where "ExitInterrupted = 130"

record exitError =
  ee_code :: int
  ee_message :: string

definition cli_verdict :: "Snapshot \<Rightarrow> bool \<Rightarrow> exitError option" where
  "cli_verdict snap breached =
     (case sn_Run snap of
        None \<Rightarrow> Some \<lparr>ee_code = ExitError, ee_message = ''the run produced no results''\<rparr>
      | Some run \<Rightarrow>
          if sm_Phase run = PhaseFailed then Some \<lparr>ee_code = ExitError, ee_message = ''run failed: '' @ sm_Failure run\<rparr>
          else if breached
          then Some \<lparr>ee_code = ExitThresholdBreached, ee_message = ''one or more thresholds were breached''\<rparr>
          else None)"

definition exit_code :: "exitError option \<Rightarrow> int" where
  "exit_code err = (case err of None \<Rightarrow> ExitOK | Some coded \<Rightarrow> ee_code coded)"


subsection \<open>Counts are printed without loss\<close>

fun comma_groups :: "string \<Rightarrow> string" where
  "comma_groups (a # b # c # rest) = CHR '','' # a # b # c # comma_groups rest"
| "comma_groups _ = []"

lemma count_groups_commas: "b \<noteq> [] \<Longrightarrow> length rest mod 3 = 0 \<Longrightarrow> count_groups b rest = b @ comma_groups rest"
proof (induction rest arbitrary: b rule: comma_groups.induct)
  case (1 x y z rest)
  have "count_groups b (x # y # z # rest) = count_groups (b @ [CHR '','', x, y, z]) rest"
    using 1(2) by (subst count_groups.simps) simp
  moreover have "length rest mod 3 = 0" using 1(3) by simp
  ultimately show ?case using 1(1)[of "b @ [CHR '','', x, y, z]"] by simp
qed (simp_all add: count_groups.simps)

lemma formatCount_shape:
  obtains h r where "formatCount n = h @ comma_groups r" "dec_digits (unat n) = h @ r" "length r mod 3 = 0" "0 < length h" "length h \<le> 3"
proof -
  define ds where "ds = dec_digits (unat n)"
  have ne: "ds \<noteq> []" by (simp add: ds_def)
  show thesis
  proof (cases "length ds \<le> 3")
    case True
    then show thesis using that[of ds "[]"] ne by (simp add: formatCount_def ds_def[symmetric])
  next
    case False
    define lead where "lead = length ds mod 3"
    have fc: "formatCount n = count_groups (take lead ds) (drop lead ds)"
      using False by (simp add: formatCount_def ds_def[symmetric] lead_def Let_def)
    show thesis
    proof (cases "lead = 0")
      case True
      have l: "length (drop 3 ds) mod 3 = 0" using True False by (simp add: lead_def) presburger
      have "formatCount n = count_groups (take 3 ds) (drop 3 ds)"
        using fc True ne by (subst (asm) count_groups.simps) simp
      also have "count_groups (take 3 ds) (drop 3 ds) = take 3 ds @ comma_groups (drop 3 ds)"
        using ne l by (intro count_groups_commas) auto
      finally show thesis using that[of "take 3 ds" "drop 3 ds"] l ne by (auto simp: ds_def[symmetric])
    next
      case nz: False
      have l: "length (drop lead ds) mod 3 = 0" by (simp add: lead_def)
      have "formatCount n = take lead ds @ comma_groups (drop lead ds)"
        unfolding fc using nz ne l by (intro count_groups_commas) auto
      then show thesis using that[of "take lead ds" "drop lead ds"] l nz False by (auto simp: ds_def[symmetric] lead_def)
    qed
  qed
qed

lemma comma_groups_filter: "CHR '','' \<notin> set r \<Longrightarrow> length r mod 3 = 0 \<Longrightarrow> filter (\<lambda>c. c \<noteq> CHR '','') (comma_groups r) = r"
proof (induction r rule: comma_groups.induct)
  case (1 a b c rest)
  then have "length rest mod 3 = 0" by simp
  then show ?case using 1 by auto
qed auto

lemma comma_groups_nth:
  "CHR '','' \<notin> set r \<Longrightarrow> j < length (comma_groups r) \<Longrightarrow> (comma_groups r ! j = CHR '','') = (j mod 4 = 0)"
proof (induction r arbitrary: j rule: comma_groups.induct)
  case (1 a b c rest)
  consider "j < 4" | j' where "j = j' + 4" by (metis add.commute le_Suc_ex not_less)
  then show ?case
  proof cases
    case 1
    then consider "j = 0" | "j = 1" | "j = 2" | "j = 3" by linarith
    then show ?thesis using "1.prems"(1) by cases (simp_all add: nth_Cons', blast+)
  next
    case 2
    then show ?thesis using "1.IH"[of j'] "1.prems" by simp
  qed
qed auto

lemma comma_groups_length: "length r mod 3 = 0 \<Longrightarrow> length (comma_groups r) mod 4 = 0"
proof (induction r rule: comma_groups.induct)
  case (1 a b c rest)
  then have "length rest mod 3 = 0" by simp
  then show ?case using 1 by simp
qed auto

lemma digits_no_comma: "CHR '','' \<notin> set (dec_digits n)"
proof -
  have "list_all is_digit (dec_digits n)" by simp
  then show ?thesis by (auto simp: list_all_iff is_digit_def)
qed

text \<open>
  A count is printed without loss and grouped in threes: without its commas it is the decimal
  number, which reads back as the count, and a comma stands at exactly every fourth place from
  the right.
\<close>

theorem formatCount_reads:
  "filter (\<lambda>c. c \<noteq> CHR '','') (formatCount n) = dec_digits (unat n) \<and>
   dec_value (filter (\<lambda>c. c \<noteq> CHR '','') (formatCount n)) 0 = unat n \<and>
   hd (formatCount n) \<noteq> CHR '','' \<and>
   (\<forall>i < length (formatCount n). (rev (formatCount n) ! i = CHR '','') = (i mod 4 = 3))"
proof -
  obtain h r where s: "formatCount n = h @ comma_groups r" "dec_digits (unat n) = h @ r" "length r mod 3 = 0" "0 < length h" "length h \<le> 3"
    by (rule formatCount_shape)
  have nc: "CHR '','' \<notin> set h" "CHR '','' \<notin> set r" using digits_no_comma[of "unat n"] by (auto simp: s(2))
  then have "filter (\<lambda>c. c \<noteq> CHR '','') h = h" by (simp add: filter_id_conv) metis
  then have f: "filter (\<lambda>c. c \<noteq> CHR '','') (formatCount n) = dec_digits (unat n)"
    using comma_groups_filter[OF nc(2) s(3)] by (simp add: s(1,2))
  have hd: "hd (formatCount n) \<noteq> CHR '',''" using nc(1) s(4) by (cases h) (auto simp: s(1))
  have "(rev (formatCount n) ! i = CHR '','') = (i mod 4 = 3)" if i: "i < length (formatCount n)" for i
  proof -
    obtain k where k: "length (comma_groups r) = 4 * k" using comma_groups_length[OF s(3)] by auto
    have n: "rev (formatCount n) ! i = (h @ comma_groups r) ! (length h + 4 * k - 1 - i)" using i rev_nth[of i "h @ comma_groups r"] by (simp add: s(1) k del: rev_append)
    show ?thesis
    proof (cases "i < 4 * k")
      case True
      then have "length h + 4 * k - 1 - i = length h + (4 * k - 1 - i)" by simp
      then have "rev (formatCount n) ! i = comma_groups r ! (4 * k - 1 - i)" using n by simp
      moreover have "((4 * k - 1 - i) mod 4 = 0) = (i mod 4 = 3)" using True by presburger
      ultimately show ?thesis using comma_groups_nth[OF nc(2), of "4 * k - 1 - i"] True k by simp
    next
      case False
      then have lt: "length h + 4 * k - 1 - i < length h" using i s(4) by (simp add: s(1) k)
      then have "rev (formatCount n) ! i \<in> set h" unfolding n by (simp add: nth_append)
      then have "rev (formatCount n) ! i \<noteq> CHR '',''" using nc(1) by auto
      moreover have "i mod 4 \<noteq> 3" using False i s(5) k by (simp add: s(1)) presburger
      ultimately show ?thesis by simp
    qed
  qed
  then show ?thesis using f hd by (simp add: dec_value_digits)
qed


subsection \<open>Averaging down\<close>

lemma concat_windows: "mono f \<Longrightarrow> f 0 = (0 :: nat) \<Longrightarrow> concat (map (\<lambda>b. take (f (b + 1) - f b) (drop (f b) xs)) [0..<k]) = take (f k) xs"
proof (induction k)
  case (Suc k)
  have "take (f k) xs @ take (f (k + 1) - f k) (drop (f k) xs) = take (f (Suc k)) xs"
    using monoD[OF Suc.prems(1), of k "Suc k"] by (metis Suc_eq_plus1 le_add_diff_inverse le_add2 plus_1_eq_Suc take_add)
  then show ?case using Suc by simp
qed simp

lemma window_bounds:
  assumes "maxPlotPoints < n" "b < maxPlotPoints"
  shows "window n b = (b * n div maxPlotPoints, (b + 1) * n div maxPlotPoints)"
    and "b * n div maxPlotPoints < (b + 1) * n div maxPlotPoints" "(b + 1) * n div maxPlotPoints \<le> n"
proof -
  have "(b * n + maxPlotPoints) div maxPlotPoints \<le> (b + 1) * n div maxPlotPoints" using assms by (intro div_le_mono) simp
  then show lt: "b * n div maxPlotPoints < (b + 1) * n div maxPlotPoints" using assms by simp
  have "(b + 1) * n div maxPlotPoints \<le> maxPlotPoints * n div maxPlotPoints" using assms by (intro div_le_mono mult_le_mono1) simp
  then show le: "(b + 1) * n div maxPlotPoints \<le> n" using assms by simp
  show "window n b = (b * n div maxPlotPoints, (b + 1) * n div maxPlotPoints)"
    unfolding window_def Let_def using lt le by auto
qed

text \<open>
  C25. Averaging a long run down for a chart loses no measurement: the windows of the averages, one
  after the other, are the points of the series, each once and in order; none of them is empty, and
  there are exactly as many as the chart allows, each at the time of its first point.
\<close>

theorem downsample_partitions:
  assumes "maxPlotPoints < length (ch_X c)" "s \<in> set (ch_Series c)" "length (cs_Points s) = length (ch_X c)"
  shows "\<exists>windows xs series s'. downsample c = (xs, series) \<and> s' \<in> set series \<and> cs_Label s' = cs_Label s \<and>
    length windows = maxPlotPoints \<and> concat windows = cs_Points s \<and> [] \<notin> set windows \<and>
    xs = map (\<lambda>i. ch_X c ! length (concat (take i windows))) [0..<maxPlotPoints] \<and>
    cs_Points s' = map (\<lambda>w. f_div (foldl f_add (Fin 0) w) (f_of_int (int (length w)))) windows"
proof -
  define n f where "n = length (ch_X c)" and "f = (\<lambda>b. b * n div maxPlotPoints)"
  let ?p = "cs_Points s"
  define windows where "windows = map (\<lambda>b. take (f (b + 1) - f b) (drop (f b) ?p)) [0..<maxPlotPoints]"
  have m: "mono f" "f 0 = 0" by (auto simp: f_def mono_def intro: div_le_mono)
  have wb: "window n b = (f b, f (b + 1)) \<and> f b < f (b + 1) \<and> f (b + 1) \<le> n" if "b < maxPlotPoints" for b
    using window_bounds[of n b] that assms(1) by (simp add: n_def f_def)
  have pts: "window_points ?p (window n b) = take (f (b + 1) - f b) (drop (f b) ?p)" if "b < maxPlotPoints" for b
    using wb[OF that] assms(3) by (simp add: window_points_def n_def)
  have ne: "take (f (b + 1) - f b) (drop (f b) ?p) \<noteq> []" if "b < maxPlotPoints" for b
    using wb[OF that] assms(3) by (simp add: n_def)
  have last: "f maxPlotPoints = n" by (simp add: f_def maxPlotPoints_def)
  have cat: "concat windows = ?p" using concat_windows[OF m, of ?p maxPlotPoints] last assms(3) by (simp add: windows_def n_def)
  have pre: "length (concat (take i windows)) = f i" if "i < maxPlotPoints" for i
  proof -
    have "take i windows = map (\<lambda>b. take (f (b + 1) - f b) (drop (f b) ?p)) [0..<i]" using that by (simp add: windows_def take_map)
    then have "concat (take i windows) = take (f i) ?p" using concat_windows[OF m, of ?p i] by simp
    then show ?thesis using wb[OF that] assms(3) by (simp add: n_def)
  qed
  define s' where "s' = \<lparr>cs_Label = cs_Label s, cs_Color = cs_Color s, cs_Points = map (window_mean ?p) (map (window n) [0..<maxPlotPoints]),
    cs_Fill = cs_Fill s\<rparr>"
  define xs series where "xs = fst (downsample c)" and "series = snd (downsample c)"
  have ds: "xs = map (\<lambda>w. ch_X c ! fst w) (map (window n) [0..<maxPlotPoints])" "s' \<in> set series"
    using assms(1,2) by (auto simp: xs_def series_def downsample_def Let_def n_def s'_def)
  have "window_mean ?p (window n b) = f_div (foldl f_add (Fin 0) (windows ! b)) (f_of_int (int (length (windows ! b))))" if "b < maxPlotPoints" for b
    using ne[OF that] that by (simp add: window_mean_def pts windows_def Let_def)
  then have "cs_Points s' = map (\<lambda>w. f_div (foldl f_add (Fin 0) w) (f_of_int (int (length w)))) windows"
    unfolding s'_def by (intro nth_equalityI) (simp_all add: windows_def)
  moreover have "xs = map (\<lambda>i. ch_X c ! length (concat (take i windows))) [0..<maxPlotPoints]" using wb by (simp add: ds(1) pre)
  moreover have "downsample c = (xs, series)" by (simp add: xs_def series_def)
  moreover have "[] \<notin> set windows" using ne by (auto simp: windows_def)
  moreover have "length windows = maxPlotPoints" by (simp add: windows_def)
  moreover have "cs_Label s' = cs_Label s" by (simp add: s'_def)
  ultimately show ?thesis using cat ds(2) by blast
qed

lemma downsample_bounded: "length (fst (downsample c)) \<le> maxPlotPoints"
  by (simp add: downsample_def Let_def)

subsection \<open>Inside the plot\<close>

lemma fl_between:
  assumes "of_int a \<le> x" "x \<le> of_int b" "\<bar>a\<bar> \<le> 2 ^ 53" "\<bar>b\<bar> \<le> 2 ^ 53"
  shows "\<exists>y. fl x = Fin y \<and> of_int a \<le> y \<and> y \<le> of_int b"
proof -
  have "\<bar>of_int a :: rat\<bar> \<le> of_int (2 ^ 53)" "\<bar>of_int b :: rat\<bar> \<le> of_int (2 ^ 53)"
    using assms(3,4) by (simp_all only: of_int_abs[symmetric] of_int_le_iff)
  then have "\<bar>x\<bar> \<le> 2 ^ 200" using assms(1,2) by (simp add: abs_le_iff)
  then show ?thesis
    using fl_Fin[of x] rnd64_mono[OF assms(1)] rnd64_mono[OF assms(2)] rnd64_int[OF assms(3)] rnd64_int[OF assms(4)] by simp
qed

lemma f_of_int_exact: "\<bar>n\<bar> \<le> 2 ^ 53 \<Longrightarrow> f_of_int n = Fin (of_int n)"
  using fl_between[of n "of_int n" n] by (auto simp: f_of_int_def)

lemma clamp_unit: "\<exists>q. clamp v = Fin q \<and> 0 \<le> q \<and> q \<le> 1"
  by (cases v) (auto simp: clamp_def)

lemma plot_y_inside:
  assumes "0 \<le> q" "q \<le> 1"
  shows "\<exists>b. plot_y R (Fin q) = Fin b \<and> of_int marginTop \<le> b \<and> b \<le> of_int (marginTop + plotHeight)"
proof -
  obtain u where u: "fl (1 + - q) = Fin u" "0 \<le> u" "u \<le> 1" using fl_between[of 0 "1 + - q" 1] assms by auto
  obtain w where w: "fl (200 * u) = Fin w" "0 \<le> w" "w \<le> 200" using fl_between[of 0 "200 * u" 200] u by auto
  have c: "f_of_int plotHeight = Fin 200" "f_of_int marginTop = Fin 12"
    using f_of_int_exact[of 200] f_of_int_exact[of 12] by (simp_all add: geometry)
  show ?thesis
  proof (cases "fused (rl_platform R)")
    case True
    then show ?thesis using fl_between[of 12 "200 * u + 12" 212] u by (simp add: plot_y_def f_sub_def f_muladd_def c) (simp add: geometry)
  next
    case False
    then show ?thesis using fl_between[of 12 "12 + w" 212] u w by (simp add: plot_y_def f_sub_def f_muladd_def c) (simp add: geometry)
  qed
qed

lemma point_x_inside:
  assumes "i < n" "n \<le> 2 ^ 40"
  shows "\<exists>a. point_x n i = Fin a \<and> of_int marginLeft \<le> a \<and> a \<le> of_int (marginLeft + plotWidth)"
proof -
  have c: "f_of_int plotWidth = Fin 770" "f_of_int marginLeft = Fin 56"
    using f_of_int_exact[of 770] f_of_int_exact[of 56] by (simp_all add: geometry)
  show ?thesis
  proof (cases "n > 1")
    case True
    define m where "m = int n - 1"
    have m: "0 < m" "int i \<le> m" "m \<le> 2 ^ 40" using assms True by (auto simp: m_def)
    have e: "f_of_int (int i) = Fin (of_int (int i))" "f_of_int m = Fin (of_int m)" "fl (of_int (770 * int i)) = Fin (of_int (770 * int i))"
      using m f_of_int_exact[of "int i"] f_of_int_exact[of m] f_of_int_exact[of "770 * int i"] by (simp_all add: f_of_int_def)
    have r: "(of_int m :: rat) > 0" "(of_int (770 * int i) :: rat) \<le> of_int (770 * m)" using m by (simp_all only: of_int_le_iff of_int_0_less_iff)
    then have q: "0 \<le> (of_int (770 * int i) / of_int m :: rat)" "(of_int (770 * int i) / of_int m :: rat) \<le> 770"
      by (simp_all add: pos_divide_le_eq)
    obtain w where w: "fl (of_int (770 * int i) / of_int m) = Fin w" "0 \<le> w" "w \<le> 770"
      using fl_between[of 0 "of_int (770 * int i) / of_int m" 770] q by auto
    have "point_x n i = fl (56 + w)" using True w e r by (simp add: point_x_def c m_def[symmetric])
    then show ?thesis using fl_between[of 56 "56 + w" 826] w by (simp add: geometry)
  qed (simp add: point_x_def c, simp add: geometry)
qed

text \<open>
  Every line of a chart stays inside its plot: whatever the values are (infinities and values that
  are not numbers included) and whatever ceiling they are scaled by, each point has finite
  coordinates between the margins.
\<close>

theorem series_inside_plot:
  assumes "length points \<le> 2 ^ 40" "(x, y) \<in> set (series_coords R upper points)"
  shows "\<exists>a b. x = Fin a \<and> of_int marginLeft \<le> a \<and> a \<le> of_int (marginLeft + plotWidth) \<and>
    y = Fin b \<and> of_int marginTop \<le> b \<and> b \<le> of_int (marginTop + plotHeight)"
proof -
  obtain i v where p: "i < length points" "x = point_x (length points) i" "y = point_y R upper v"
    using assms(2) by (auto simp: series_coords_def in_set_enumerate_eq)
  obtain q where "clamp (f_div v upper) = Fin q" "0 \<le> q" "q \<le> 1" using clamp_unit by blast
  then show ?thesis using plot_y_inside[of q R] point_x_inside[OF p(1) assms(1)] p(2,3) by (auto simp: point_y_def)
qed


subsection \<open>Which endpoints are charted\<close>

lemma foldl_add_requests_gowf: "gowf m \<Longrightarrow> gowf (foldl add_requests m xs)"
  by (induction xs arbitrary: m) (auto simp: add_requests_def gomap_simps split: prod.splits)

interpretation busy: go_less "busier requests" for requests
  by unfold_locales (auto simp: busier_def Let_def split: if_splits)

lemma palette_fold:
  "distinct (map snd xs) \<Longrightarrow> (\<And>i name. (i, name) \<in> set xs \<Longrightarrow> map_of m name = None) \<Longrightarrow>
   map_of (foldl (\<lambda>slot (i, name). gput name (f i) slot) m xs) name =
     (case map_of (map (\<lambda>(i, n). (n, f i)) xs) name of Some c \<Rightarrow> Some c | None \<Rightarrow> map_of m name)"
proof (induction xs arbitrary: m)
  case (Cons x xs)
  obtain i n where x: "x = (i, n)" by force
  have "map_of (gput n (f i) m) n' = None" if "(j, n') \<in> set xs" for j n'
    using that Cons.prems by (force simp: x gomap_simps)
  moreover have "map_of (map (\<lambda>(i, n). (n, f i)) xs) n = None" using Cons.prems(1) by (force simp: x map_of_eq_None_iff)
  ultimately show ?case using Cons by (auto simp: x gomap_simps split: option.splits)
qed simp

lemma palette_nth:
  assumes "distinct names" "sort_by (<) names = ns" "i < length ns"
  shows "color_of (palette names) (ns ! i) = endpointColors ! (i mod length endpointColors)"
proof -
  have d: "distinct ns" using assms(1,2) by (metis distinct_sort_by)
  have "map_of (map (\<lambda>(i, n). (n, endpointColors ! (i mod length endpointColors))) (enumerate 0 ns)) (ns ! i) =
      Some (endpointColors ! (i mod length endpointColors))"
    using d assms(3) by (intro map_of_is_SomeI) (auto simp: comp_def case_prod_beta in_set_enumerate_eq image_iff intro!: bexI[of _ "(i, ns ! i)"])
  then show ?thesis using palette_fold[of "enumerate 0 ns" "[]" "\<lambda>i. endpointColors ! (i mod length endpointColors)" "ns ! i"] d
    by (simp add: palette_def assms(2) color_of_def)
qed

lemma endpointColors_distinct: "distinct endpointColors" "length endpointColors = 8"
  by (simp_all add: endpointColors_def)

lemma palette_inj:
  assumes "distinct names" "length names \<le> 8" "a \<in> set names" "b \<in> set names" "a \<noteq> b"
  shows "color_of (palette names) a \<noteq> color_of (palette names) b"
proof -
  define ns where "ns = sort_by (<) names"
  have len: "length ns \<le> 8" "set ns = set names" using assms(2) by (simp_all add: ns_def)
  obtain i j where ij: "i < length ns" "ns ! i = a" "j < length ns" "ns ! j = b" using assms(3,4) len by (metis in_set_conv_nth)
  then have "i \<noteq> j" "i mod 8 = i" "j mod 8 = j" using assms(5) len by auto
  then show ?thesis
    using palette_nth[OF assms(1) ns_def[symmetric] ij(1)] palette_nth[OF assms(1) ns_def[symmetric] ij(3)] ij len
      endpointColors_distinct by (simp add: nth_eq_iff_index_eq)
qed

text \<open>
  The response-time chart shows the busiest endpoints: at most eight, each with a colour of its own;
  the number of those left off is reported; and no endpoint that was left off has had more requests
  than one that is shown.
\<close>

theorem chartedEndpoints_busiest:
  assumes "chartedEndpoints ticks = (names, omitted)"
  defines "requests \<equiv> endpoint_requests ticks"
  shows "length names \<le> maxChartedEndpoints \<and> length names + omitted = length requests \<and> set names \<subseteq> gokeys requests \<and>
    (\<forall>a \<in> set names. \<forall>b \<in> gokeys requests - set names. the (map_of requests b) \<le> the (map_of requests a)) \<and>
    (\<forall>a \<in> set names. \<forall>b \<in> set names. a \<noteq> b \<longrightarrow> color_of (palette names) a \<noteq> color_of (palette names) b)"
proof (cases "length requests = 0")
  case True
  then show ?thesis using assms(1) by (simp add: chartedEndpoints_def requests_def gokeys_def)
next
  case False
  define all where "all = sort_by (busier requests) (map fst requests)"
  have "gowf requests" unfolding requests_def endpoint_requests_def by (rule foldl_add_requests_gowf) (simp add: gowf_def)
  then have d: "distinct all" "set all = gokeys requests" "length all = length requests"
    by (simp_all add: all_def gowf_def gokeys_def)
  have n: "names = take maxChartedEndpoints all" "omitted = length all - maxChartedEndpoints"
    using assms(1) False by (auto simp: chartedEndpoints_def requests_def all_def Let_def split: if_splits)
  have "the (map_of requests b) \<le> the (map_of requests a)" if "a \<in> set names" "b \<in> gokeys requests - set names" for a b
  proof -
    have "b \<in> set (drop maxChartedEndpoints all)" using that(2) d(2) n(1) by (metis DiffE Un_iff append_take_drop_id set_append)
    moreover have "sorted_wrt (\<lambda>x y. \<not> busier requests y x) (take maxChartedEndpoints all @ drop maxChartedEndpoints all)"
      using busy.sorted_sort_by[of requests "map fst requests"] by (simp add: all_def)
    ultimately have "\<not> busier requests b a" using that(1) unfolding sorted_wrt_append n(1) by blast
    then show ?thesis by (auto simp: busier_def Let_def split: if_splits)
  qed
  moreover have "color_of (palette names) a \<noteq> color_of (palette names) b" if "a \<in> set names" "b \<in> set names" "a \<noteq> b" for a b
    using palette_inj[OF _ _ that] d(1) by (simp add: n(1) maxChartedEndpoints_def)
  moreover have "set names \<subseteq> gokeys requests" using d(2) n(1) set_take_subset by metis
  ultimately show ?thesis using d(3) n by (auto simp: maxChartedEndpoints_def)
qed

subsection \<open>Verdicts\<close>

lemma phase_names: "PhaseName p = PhaseFailed \<longleftrightarrow> p = RUN_PHASE_FAILED" "PhaseName p = PhaseAborted \<longleftrightarrow> p = RUN_PHASE_ABORTED"
  by (cases p; simp add: phase_strings)+

text \<open>
  C40. The report and the exit code judge a run alike, and neither waits for it to complete: for a
  snapshot of a run the report says passed exactly when the run has not failed, was not aborted and no
  threshold is breached, also while it is still going and where thresholds were never evaluated;
  the exit code is 1 for a failed run, 2 for a breach and 0 for all others, aborted runs included,
  and never 130.
\<close>

theorem verdict_ignores_completion:
  assumes "Lookup c runID = Some p"
  defines "r \<equiv> co_runmem c p"
  shows "\<exists>snap run. RunSnapshot E now c runID = Some snap \<and> sn_Run snap = Some run \<and>
    vd_Passed (verdictOf run) = (rn_phase r \<notin> {RUN_PHASE_FAILED, RUN_PHASE_ABORTED} \<and> \<not> rn_breached r) \<and>
    exit_code (cli_verdict snap (rn_breached r)) =
      (if rn_phase r = RUN_PHASE_FAILED then ExitError else if rn_breached r then ExitThresholdBreached else ExitOK)"
proof -
  let ?run = "run_Summary now (rt_parts E) r (profileOf r)"
  have s: "RunSnapshot E now c runID = Some (run_snapshot E now c p (rn_events r))" "sn_Run (run_snapshot E now c p (rn_events r)) = Some ?run"
    using assms(1) by (simp_all add: RunSnapshot_def run_snapshot_def r_def Let_def)
  have f: "sm_Phase ?run = PhaseName (rn_phase r)" "sm_Breached ?run = rn_breached r" by (simp_all add: run_Summary_def)
  have "vd_Passed (verdictOf ?run) = (rn_phase r \<notin> {RUN_PHASE_FAILED, RUN_PHASE_ABORTED} \<and> \<not> rn_breached r)"
    by (simp add: verdictOf_def f phase_names Let_def)
  moreover have "exit_code (cli_verdict (run_snapshot E now c p (rn_events r)) (rn_breached r)) =
      (if rn_phase r = RUN_PHASE_FAILED then ExitError else if rn_breached r then ExitThresholdBreached else ExitOK)"
    by (simp add: cli_verdict_def s(2) f phase_names exit_code_def)
  ultimately show ?thesis using s by blast
qed

lemma warnings_empty:
  "warnings s = [] \<longleftrightarrow> sx_DroppedByNode s = 0 \<and> sx_DroppedSeries s = 0 \<and> sx_DroppedLate s = 0 \<and> sx_DroppedEndpoints s = 0 \<and> sx_DroppedFailures s = 0"
  by (simp add: warnings_def word_gt_0)


subsection \<open>Witnesses\<close>

definition demo_report_lib :: report_lib where
  "demo_report_lib = \<lparr>rl_fixed = (\<lambda>_ _. []), rl_clock = (\<lambda>_. []), rl_stamp = (\<lambda>_. []), rl_platform = \<lparr>fused = False, oob = (\<lambda>_. 0)\<rparr>,
     rl_uint64 = (\<lambda>_. 0)\<rparr>"

definition demo_chart_series :: chart_series where
  "demo_chart_series = \<lparr>cs_Label = ''req/s'', cs_Color = [], cs_Points = replicate 500 (Fin 1), cs_Fill = True\<rparr>"

definition demo_chart :: Chart where
  "demo_chart = plain_chart ''Requests per second'' [] (replicate 500 0) (\<lambda>_. []) [demo_chart_series]"

theorem downsample_partitions_witness:
  "\<exists>windows xs series s'. downsample demo_chart = (xs, series) \<and> s' \<in> set series \<and> cs_Label s' = ''req/s'' \<and>
     length windows = maxPlotPoints \<and> concat windows = replicate 500 (Fin 1) \<and> [] \<notin> set windows \<and>
     xs = map (\<lambda>i. ch_X demo_chart ! length (concat (take i windows))) [0..<maxPlotPoints] \<and>
     cs_Points s' = map (\<lambda>w. f_div (foldl f_add (Fin 0) w) (f_of_int (int (length w)))) windows"
proof -
  have c: "length (ch_X demo_chart) = 500" "ch_Series demo_chart = [demo_chart_series]" "cs_Points demo_chart_series = replicate 500 (Fin 1)"
    "cs_Label demo_chart_series = ''req/s''" by (simp_all add: demo_chart_def plain_chart_def demo_chart_series_def)
  show ?thesis using downsample_partitions[of demo_chart demo_chart_series] unfolding c by (simp add: maxPlotPoints_def)
qed

theorem series_inside_plot_witness:
  "\<exists>a b. point_x 2 1 = Fin a \<and> of_int marginLeft \<le> a \<and> a \<le> of_int (marginLeft + plotWidth) \<and>
     point_y demo_report_lib (Fin 3) PInf = Fin b \<and> of_int marginTop \<le> b \<and> b \<le> of_int (marginTop + plotHeight)"
  by (rule series_inside_plot[of "[NaN, PInf]" _ _ demo_report_lib "Fin 3"]) (simp, simp add: series_coords_def numeral_2_eq_2)

definition demo_tick :: TickDTO where
  "demo_tick = \<lparr>tk_T = 0, tk_VUs = 1, tk_Requests = 5, tk_Failures = 0, tk_Iterations = 5, tk_RPS = Fin 5, tk_ErrorRate = Fin 0,
     tk_Avg = Fin 10, tk_P50 = Fin 10, tk_P90 = Fin 10, tk_P95 = Fin 10, tk_P99 = Fin 10, tk_Status = [(''2xx'', 5)], tk_Scenarios = [],
     tk_Endpoints = [(''a'', \<lparr>et_Avg = Fin 10, et_Requests = 2, et_ErrorRate = Fin 0\<rparr>), (''b'', \<lparr>et_Avg = Fin 10, et_Requests = 3, et_ErrorRate = Fin 0\<rparr>)]\<rparr>"

theorem chartedEndpoints_busiest_witness:
  "chartedEndpoints [demo_tick] = ([''b'', ''a''], 0) \<and>
   color_of (palette [''b'', ''a'']) ''b'' \<noteq> color_of (palette [''b'', ''a'']) ''a''"
proof -
  have r: "endpoint_requests [demo_tick] = [(''a'', 2), (''b'', 3)]"
    by (simp add: endpoint_requests_def demo_tick_def add_requests_def)
  have c: "chartedEndpoints [demo_tick] = ([''b'', ''a''], 0)"
    by (simp add: chartedEndpoints_def r sort_by_def busier_def maxChartedEndpoints_def)
  show ?thesis using chartedEndpoints_busiest[OF c] c by simp
qed

theorem verdict_ignores_completion_witness:
  "\<exists>snap run. RunSnapshot demo_runtime 0 (demo_coord\<lparr>co_runs := [(''run'', 0)]\<rparr>) ''run'' = Some snap \<and> sn_Run snap = Some run \<and>
     vd_Passed (verdictOf run) \<and> Active demo_feed_run \<and> exit_code (cli_verdict snap False) = ExitOK"
proof -
  have l: "Lookup (demo_coord\<lparr>co_runs := [(''run'', 0)]\<rparr>) ''run'' = Some 0" by (simp add: Lookup_def)
  have m: "co_runmem (demo_coord\<lparr>co_runs := [(''run'', 0)]\<rparr>) 0 = demo_feed_run" by (simp add: demo_coord_def coord_New_def)
  have p: "rn_phase demo_feed_run = RUN_PHASE_PENDING" "\<not> rn_breached demo_feed_run" "Active demo_feed_run"
    by (simp_all add: demo_feed_run_def newRun_def Active_def)
  show ?thesis using verdict_ignores_completion[OF l, of demo_runtime 0] p unfolding m by auto
qed

end
