(* ===== verification/Flags.thy ===== *)
theory Flags
  imports Declarative
begin

text \<open>
  \<open>internal/cli/config.go\<close>: the flags of \<open>run\<close> and \<open>validate\<close>, overlaid on a test file or standing in
  for one, and the check of \<open>run.go\<close> that the scenarios can be built. Reading the file and
  \<open>strconv.ParseFloat\<close> are arguments. The lemmas show that without flags a file is run as it was
  parsed, that what is loaded is valid, that stages written as text are read back, and that the
  numbers flags carry fit the plan.
\<close>

subsection \<open>strings and strconv\<close>

text \<open>\<open>strings.Cut\<close>, \<open>strings.Split\<close> at a one-byte separator, and \<open>strconv.ParseInt(s, 10, 32)\<close>.\<close>

definition Cut :: "string \<Rightarrow> string \<Rightarrow> (string \<times> string) option" where
  "Cut s sep = map_option (\<lambda>i. (take i s, drop (i + length sep) s)) (index_of sep s)"

fun split_on :: "char \<Rightarrow> string \<Rightarrow> string list" where
  "split_on c [] = [[]]"
| "split_on c (x # xs) =
     (if x = c then [] # split_on c xs else (case split_on c xs of [] \<Rightarrow> [[x]] | w # ws \<Rightarrow> (x # w) # ws))"

definition ParseInt32 :: "string \<Rightarrow> int option" where
  "ParseInt32 s =
     (let neg = (s \<noteq> [] \<and> hd s = CHR ''-'');
          body = (if s \<noteq> [] \<and> (hd s = CHR ''-'' \<or> hd s = CHR ''+'') then tl s else s)
      in if body = [] \<or> \<not> list_all is_digit body then None
         else let v = int (dec_value body 0); v = (if neg then - v else v)
              in if - (2 ^ 31) \<le> v \<and> v < 2 ^ 31 then Some v else None)"

subsection \<open>The flags\<close>

record planFlags =
  pf_url :: string
  pf_name :: string
  pf_vus :: int
  pf_duration :: duration
  pf_stages :: string
  pf_iterations :: u64
  pf_rate :: int
  pf_workers :: int
  pf_gracefulSt :: duration
  pf_tags :: "string list"
  pf_scenarios :: "string list"
  pf_thresholds :: "string list"
  pf_insecure :: bool
  pf_headers :: "string list"
  pf_timeout :: duration
  pf_betweenReq :: string

text \<open>The values \<open>register\<close> gives to flags that are not on the command line.\<close>

definition register :: planFlags where
  "register = \<lparr>pf_url = [], pf_name = [], pf_vus = 0, pf_duration = 0, pf_stages = [], pf_iterations = 0, pf_rate = 0,
     pf_workers = 0, pf_gracefulSt = 0, pf_tags = [], pf_scenarios = [], pf_thresholds = [], pf_insecure = False,
     pf_headers = [], pf_timeout = 0, pf_betweenReq = []\<rparr>"

datatype stage_error = StageShape string | StageDuration string | StageTarget string | StageBelowZero string | NoStages
datatype threshold_text_error = NoColon | MetricEmpty | NotANumber string | NoComparison
datatype pair_error = NoSeparator string | KeyEmpty

datatype flag_error =
    ReadFailed string
  | FileRejected string cfg_error
  | FlagPacing pause_error
  | FlagStages stage_error
  | FlagTag string pair_error
  | FlagHeader string pair_error
  | FlagScenario string
  | FlagThreshold string threshold_text_error
  | NothingToRun
  | ConfigRejected cfg_error
  | ScenariosRejected build_error
  | NoScenarios

subsection \<open>Values written as text\<close>

definition parse_stage :: "string \<Rightarrow> stage_error + StageConfig" where
  "parse_stage part =
     (case Cut part '':'' of
        None \<Rightarrow> Inl (StageShape part)
      | Some (rawDuration, rawTarget) \<Rightarrow>
          (case ParseDuration (TrimSpace rawDuration) of
             None \<Rightarrow> Inl (StageDuration part)
           | Some duration \<Rightarrow>
               (case ParseInt32 (TrimSpace rawTarget) of
                  None \<Rightarrow> Inl (StageTarget part)
                | Some target \<Rightarrow>
                    if target < 0 then Inl (StageBelowZero part)
                    else Inr \<lparr>sg_Duration = duration, sg_Target = target\<rparr>)))"

fun parse_parts :: "string list \<Rightarrow> stage_error + StageConfig list" where
  "parse_parts [] = Inr []"
| "parse_parts (part # parts) =
     (let part = TrimSpace part in
      if part = [] then parse_parts parts
      else case parse_stage part of
        Inl e \<Rightarrow> Inl e
      | Inr stage \<Rightarrow> (case parse_parts parts of Inl e \<Rightarrow> Inl e | Inr stages \<Rightarrow> Inr (stage # stages)))"

definition parseStages :: "string \<Rightarrow> stage_error + StageConfig list" where
  "parseStages spec =
     (case parse_parts (split_on (CHR '','') spec) of
        Inl e \<Rightarrow> Inl e
      | Inr stages \<Rightarrow> if length stages = 0 then Inl NoStages else Inr stages)"

definition thresholdOperators :: "string list" where
  "thresholdOperators = [''<='', ''>='', ''<'', ''>'']"

fun try_operators :: "(string \<Rightarrow> float64 option) \<Rightarrow> string \<Rightarrow> string \<Rightarrow> string list \<Rightarrow> threshold_text_error + Threshold" where
  "try_operators ParseFloat metric rest [] = Inl NoComparison"
| "try_operators ParseFloat metric rest (cmp # cmps) =
     (case Cut rest cmp of
        None \<Rightarrow> try_operators ParseFloat metric rest cmps
      | Some (stat, rawValue) \<Rightarrow>
          (case ParseFloat (TrimSpace rawValue) of
             None \<Rightarrow> Inl (NotANumber rawValue)
           | Some value \<Rightarrow> Inr \<lparr>tg_Metric = metric, tg_Stat = TrimSpace stat, tg_Op = cmp, tg_Value = value,
                            tg_AbortOnFail = False\<rparr>))"

definition parseThreshold :: "(string \<Rightarrow> float64 option) \<Rightarrow> string \<Rightarrow> threshold_text_error + Threshold" where
  "parseThreshold ParseFloat spec =
     (case Cut spec '':'' of
        None \<Rightarrow> Inl NoColon
      | Some (metric, rest) \<Rightarrow>
          let metric = TrimSpace metric in
          if metric = [] then Inl MetricEmpty else try_operators ParseFloat metric rest thresholdOperators)"

definition splitPair :: "string \<Rightarrow> string \<Rightarrow> pair_error + string \<times> string" where
  "splitPair raw sep =
     (case Cut raw sep of
        None \<Rightarrow> Inl (NoSeparator sep)
      | Some (key, val) \<Rightarrow> let key = TrimSpace key in if key = [] then Inl KeyEmpty else Inr (key, TrimSpace val))"

subsection \<open>Overlaying the flags\<close>

fun put_pairs :: "string \<Rightarrow> (string \<Rightarrow> pair_error \<Rightarrow> flag_error) \<Rightarrow> string list \<Rightarrow> (string, string) gomap \<Rightarrow> flag_error + (string, string) gomap" where
  "put_pairs sep err [] m = Inr m"
| "put_pairs sep err (raw # raws) m =
     (case splitPair raw sep of Inl e \<Rightarrow> Inl (err raw e) | Inr (key, val) \<Rightarrow> put_pairs sep err raws (gput key val m))"

definition scenario_choice :: "string \<Rightarrow> flag_error + string \<times> int" where
  "scenario_choice raw =
     (case Cut raw ''='' of
        None \<Rightarrow> Inr (TrimSpace raw, 1)
      | Some (key, val) \<Rightarrow>
          (case ParseInt32 (TrimSpace val) of
             None \<Rightarrow> Inl (FlagScenario raw)
           | Some parsed \<Rightarrow> if parsed \<le> 0 then Inl (FlagScenario raw) else Inr (TrimSpace key, parsed)))"

definition choose_scenario :: "ScenarioConfig list \<Rightarrow> string \<times> int \<Rightarrow> ScenarioConfig" where
  "choose_scenario have choice =
     (case find (\<lambda>defined. so_Name defined = fst choice) have of
        Some defined \<Rightarrow> defined\<lparr>so_Weight := snd choice\<rparr>
      | None \<Rightarrow> \<lparr>so_Name = fst choice, so_Weight = snd choice, so_Description = [], so_Vars = [], so_Steps = []\<rparr>)"

fun select_scenarios :: "ScenarioConfig list \<Rightarrow> string list \<Rightarrow> flag_error + ScenarioConfig list" where
  "select_scenarios have [] = Inr []"
| "select_scenarios have (raw # raws) =
     (case scenario_choice raw of
        Inl e \<Rightarrow> Inl e
      | Inr choice \<Rightarrow>
          (case select_scenarios have raws of Inl e \<Rightarrow> Inl e | Inr selected \<Rightarrow> Inr (choose_scenario have choice # selected)))"

definition applyScenarios :: "planFlags \<Rightarrow> Config \<Rightarrow> flag_error + Config" where
  "applyScenarios f c =
     (if length (pf_scenarios f) = 0 then Inr c
      else case select_scenarios (cf_Scenarios c) (pf_scenarios f) of
        Inl e \<Rightarrow> Inl e
      | Inr selected \<Rightarrow> Inr (c\<lparr>cf_Scenarios := selected\<rparr>))"

fun parse_thresholds :: "(string \<Rightarrow> float64 option) \<Rightarrow> string list \<Rightarrow> flag_error + Threshold list" where
  "parse_thresholds ParseFloat [] = Inr []"
| "parse_thresholds ParseFloat (raw # raws) =
     (case parseThreshold ParseFloat raw of
        Inl e \<Rightarrow> Inl (FlagThreshold raw e)
      | Inr t \<Rightarrow> (case parse_thresholds ParseFloat raws of Inl e \<Rightarrow> Inl e | Inr ts \<Rightarrow> Inr (t # ts)))"

definition applyThresholds :: "(string \<Rightarrow> float64 option) \<Rightarrow> planFlags \<Rightarrow> Config \<Rightarrow> flag_error + Config" where
  "applyThresholds ParseFloat f c =
     (case parse_thresholds ParseFloat (pf_thresholds f) of
        Inl e \<Rightarrow> Inl e
      | Inr ts \<Rightarrow> Inr (c\<lparr>cf_Thresholds := cf_Thresholds c @ ts\<rparr>))"

text \<open>The flags that are plain values, in the order of \<open>apply\<close>.\<close>

definition apply_load :: "planFlags \<Rightarrow> LoadConfig \<Rightarrow> LoadConfig" where
  "apply_load f l =
     (let l = (if pf_vus f > 0 then l\<lparr>lc_VUs := pf_vus f\<rparr> else l);
          l = (if pf_duration f > 0 then l\<lparr>lc_Duration := pf_duration f\<rparr> else l);
          l = (if pf_iterations f > 0 then l\<lparr>lc_Iterations := pf_iterations f\<rparr> else l);
          l = (if pf_rate f > 0 then l\<lparr>lc_MaxIterationRate := pf_rate f\<rparr> else l)
      in if pf_gracefulSt f > 0 then l\<lparr>lc_GracefulStop := pf_gracefulSt f\<rparr> else l)"

definition apply_http :: "planFlags \<Rightarrow> HTTPConfig \<Rightarrow> HTTPConfig" where
  "apply_http f h =
     (let h = (if pf_insecure f then h\<lparr>hg_InsecureSkipTLSVerify := True\<rparr> else h)
      in if pf_timeout f > 0 then h\<lparr>hg_Timeout := pf_timeout f\<rparr> else h)"

definition apply_values :: "planFlags \<Rightarrow> Config \<Rightarrow> Config" where
  "apply_values f c =
     (let c = (if pf_name f \<noteq> [] then c\<lparr>cf_Name := pf_name f\<rparr> else c);
          c = (if pf_url f \<noteq> [] then c\<lparr>cf_BaseURL := pf_url f\<rparr> else c);
          c = c\<lparr>cf_Load := apply_load f (cf_Load c)\<rparr>;
          c = (if pf_workers f > 0 then c\<lparr>cf_WorkersPerAgent := pf_workers f\<rparr> else c)
      in c\<lparr>cf_HTTP := apply_http f (cf_HTTP c)\<rparr>)"

definition apply_pacing :: "planFlags \<Rightarrow> Config \<Rightarrow> flag_error + Config" where
  "apply_pacing f c =
     (if pf_betweenReq f = [] then Inr c
      else case ParsePause (pf_betweenReq f) of
        Inl e \<Rightarrow> Inl (FlagPacing e)
      | Inr _ \<Rightarrow> Inr (c\<lparr>cf_BetweenRequests := pf_betweenReq f\<rparr>))"

definition apply_stages :: "planFlags \<Rightarrow> Config \<Rightarrow> flag_error + Config" where
  "apply_stages f c =
     (if pf_stages f = [] then Inr c
      else case parseStages (pf_stages f) of
        Inl e \<Rightarrow> Inl (FlagStages e)
      | Inr stages \<Rightarrow> Inr (c\<lparr>cf_Load := (cf_Load c)\<lparr>lc_Stages := stages, lc_Executor := ExecutorRampingVUs\<rparr>\<rparr>))"

definition apply_tags :: "planFlags \<Rightarrow> Config \<Rightarrow> flag_error + Config" where
  "apply_tags f c =
     (case put_pairs ''='' FlagTag (pf_tags f) (cf_Tags c) of Inl e \<Rightarrow> Inl e | Inr m \<Rightarrow> Inr (c\<lparr>cf_Tags := m\<rparr>))"

definition apply_headers :: "planFlags \<Rightarrow> Config \<Rightarrow> flag_error + Config" where
  "apply_headers f c =
     (case put_pairs '':'' FlagHeader (pf_headers f) (hg_Headers (cf_HTTP c)) of
        Inl e \<Rightarrow> Inl e
      | Inr m \<Rightarrow> Inr (c\<lparr>cf_HTTP := (cf_HTTP c)\<lparr>hg_Headers := m\<rparr>\<rparr>))"

text \<open>One step after another, until the first error.\<close>

definition and_then :: "'e + 'a \<Rightarrow> ('a \<Rightarrow> 'e + 'b) \<Rightarrow> 'e + 'b" where
  "and_then r f = (case r of Inl e \<Rightarrow> Inl e | Inr x \<Rightarrow> f x)"

definition flags_apply :: "(string \<Rightarrow> float64 option) \<Rightarrow> planFlags \<Rightarrow> Config \<Rightarrow> flag_error + Config" where
  "flags_apply ParseFloat f c =
     and_then (apply_pacing f (apply_values f c)) (\<lambda>c.
     and_then (apply_stages f c) (\<lambda>c.
     and_then (apply_tags f c) (\<lambda>c.
     and_then (apply_headers f c) (\<lambda>c.
     and_then (applyScenarios f c) (applyThresholds ParseFloat f)))))"

definition read_config :: "'u http_lib \<Rightarrow> yaml_codec \<Rightarrow> (string \<Rightarrow> string option) \<Rightarrow> string \<Rightarrow> flag_error + Config" where
  "read_config L Y ReadFile path =
     (if path = [] then Inr zero_Config
      else case ReadFile path of
        None \<Rightarrow> Inl (ReadFailed path)
      | Some data \<Rightarrow> (case Parse L Y data of Inl e \<Rightarrow> Inl (FileRejected path e) | Inr c \<Rightarrow> Inr c))"

definition load :: "'u http_lib \<Rightarrow> yaml_codec \<Rightarrow> (string \<Rightarrow> float64 option) \<Rightarrow> (string \<Rightarrow> string option) \<Rightarrow> planFlags \<Rightarrow> string \<Rightarrow> flag_error + Config" where
  "load L Y ParseFloat ReadFile f path =
     and_then (read_config L Y ReadFile path) (\<lambda>c.
     and_then (flags_apply ParseFloat f c) (\<lambda>c.
       if path = [] \<and> lc_VUs (cf_Load c) = 0 \<and> length (lc_Stages (cf_Load c)) = 0 then Inl NothingToRun
       else case config_Validate L c of (Some e, _) \<Rightarrow> Inl (ConfigRejected e) | (None, c) \<Rightarrow> Inr c))"

text \<open>\<open>verifyScenarios\<close> of \<open>run.go\<close>.\<close>

definition verifyScenarios :: "'u http_lib \<Rightarrow> scenarios \<Rightarrow> Config \<Rightarrow> flag_error option" where
  "verifyScenarios L registry c =
     (case BuildScenarios L c (scenario_Clone registry) of
        Inl e \<Rightarrow> Some (ScenariosRejected e)
      | Inr (probe, _) \<Rightarrow> if scenario_Len probe = 0 then Some NoScenarios else None)"


subsection \<open>What is loaded\<close>

lemma and_then_simps [simp]: "and_then (Inl e) f = Inl e" "and_then (Inr x) f = f x"
  by (simp_all add: and_then_def)

lemma and_then_Inr: "and_then r f = Inr y \<longleftrightarrow> (\<exists>x. r = Inr x \<and> f x = Inr y)"
  by (cases r) simp_all

lemma no_flags_apply: "flags_apply ParseFloat register c = Inr c"
  by (simp add: flags_apply_def register_def apply_pacing_def apply_values_def apply_load_def apply_http_def apply_stages_def
      apply_tags_def apply_headers_def applyScenarios_def applyThresholds_def)

lemma config_Validate_self:
  "config_Validate L c = (None, c) \<longleftrightarrow> cf_Name c \<noteq> [] \<and> load_ok (cf_Load c) \<and> check_scenarios L 0 [] (cf_Scenarios c) = None \<and>
     check_pacing c = None \<and> check_thresholds L 0 (cf_Thresholds c) = None"
proof
  assume "config_Validate L c = (None, c)"
  then obtain load where l: "load_validate (cf_Load c) = (None, load)" "check_scenarios L 0 [] (cf_Scenarios c) = None"
      "check_pacing c = None" "check_thresholds L 0 (cf_Thresholds c) = None"
    and c: "c = c\<lparr>cf_Name := (if cf_Name c = [] then ''loadwave'' else cf_Name c), cf_Load := load\<rparr>"
    unfolding config_Validate_None by blast
  have "cf_Name c \<noteq> []" "cf_Load c = load" using arg_cong[OF c, of cf_Name] arg_cong[OF c, of cf_Load] by (auto split: if_splits)
  then show "cf_Name c \<noteq> [] \<and> load_ok (cf_Load c) \<and> check_scenarios L 0 [] (cf_Scenarios c) = None \<and>
     check_pacing c = None \<and> check_thresholds L 0 (cf_Thresholds c) = None" using l load_validate_ok by simp
qed (simp add: config_Validate_None load_ok_stable)

lemma Parse_valid: "Parse L Y data = Inr c \<Longrightarrow> config_Validate L c = (None, c)"
  by (auto simp: Parse_def split: option.splits prod.splits intro: config_Validate_stable)

lemma load_valid:
  assumes "load L Y ParseFloat ReadFile f path = Inr c"
  shows "config_Validate L c = (None, c)"
  using assms by (auto simp: load_def and_then_Inr split: if_splits option.splits prod.splits intro: config_Validate_stable)

text \<open>
  Without flags the command line runs exactly the configuration the parser makes of the file:
  what the dashboard accepts as the text of a run is what \<open>loadwave run\<close> accepts as its file.
\<close>

theorem load_without_flags:
  assumes "path \<noteq> []" "ReadFile path = Some data"
  shows "load L Y ParseFloat ReadFile register path = map_sum (FileRejected path) id (Parse L Y data)"
proof (cases "Parse L Y data")
  case (Inr c)
  then show ?thesis using assms Parse_valid[OF Inr] by (simp add: load_def read_config_def no_flags_apply)
qed (simp add: assms load_def read_config_def)

subsection \<open>Stages as text\<close>

lemma ParseInt32_range: "ParseInt32 s = Some v \<Longrightarrow> - (2 ^ 31) \<le> v \<and> v < 2 ^ 31"
  by (auto simp: ParseInt32_def Let_def split: if_splits)

lemma digit_not_sign: "is_digit c \<Longrightarrow> c \<noteq> CHR ''-'' \<and> c \<noteq> CHR ''+'' \<and> c \<noteq> CHR '':'' \<and> c \<noteq> CHR '',''"
  by (auto simp: is_digit_def)

lemma ParseInt32_fmt_d:
  assumes "0 \<le> v" "v < 2 ^ 31"
  shows "ParseInt32 (fmt_d v) = Some v"
proof -
  have d: "list_all is_digit (dec_digits (nat v))" "dec_digits (nat v) \<noteq> []" by simp_all
  then have "is_digit (hd (dec_digits (nat v)))" by (auto simp: list_all_iff)
  then show ?thesis using assms d digit_not_sign by (auto simp: ParseInt32_def fmt_d_def dec_value_digits Let_def)
qed

lemma index_of_char: "c \<notin> set a \<Longrightarrow> index_of [c] (a @ c # b) = Some (length a)"
  by (induction a) auto

lemma Cut_char: "c \<notin> set a \<Longrightarrow> Cut (a @ c # b) [c] = Some (a, b)"
  by (simp add: Cut_def index_of_char)

lemma split_on_ne: "split_on c s \<noteq> []"
  by (cases s) (auto split: list.splits)

lemma split_on_none: "c \<notin> set s \<Longrightarrow> split_on c s = [s]"
  by (induction s) auto

lemma split_on_join: "c \<notin> set s \<Longrightarrow> split_on c (s @ c # rest) = s # split_on c rest"
  by (induction s) auto

text \<open>A stage in the notation of the flag.\<close>

definition stage_text :: "StageConfig \<Rightarrow> string" where
  "stage_text s = duration_String (sg_Duration s) @ CHR '':'' # fmt_d (sg_Target s)"

definition stage_fits :: "StageConfig \<Rightarrow> bool" where
  "stage_fits s \<longleftrightarrow> 0 \<le> sg_Duration s \<and> sg_Duration s < 2 ^ 63 \<and> 0 \<le> sg_Target s \<and> sg_Target s < 2 ^ 31"


lemma stage_text_plain: "CHR '','' \<notin> set (stage_text s)" "TrimSpace (stage_text s) = stage_text s" "stage_text s \<noteq> []"
  if "stage_fits s"
proof -
  let ?b = "duration_body (nat (sg_Duration s))" and ?t = "dec_digits (nat (sg_Target s))"
  have t: "stage_text s = ?b @ CHR '':'' # ?t"
    using that by (simp add: stage_text_def stage_fits_def duration_String_body fmt_d_def)
  have d: "list_all is_digit ?t" "?t \<noteq> []" by simp_all
  show "CHR '','' \<notin> set (stage_text s)"
    using d digit_not_sign duration_body_no_mark[of "CHR '',''"] by (auto simp: t list_all_iff)
  have "is_digit (last ?t)" using d by (auto simp: list_all_iff)
  then show "TrimSpace (stage_text s) = stage_text s"
    using duration_body_head[of "nat (sg_Duration s)"] d digit_plain by (intro TrimSpace_plain) (auto simp: t)
  show "stage_text s \<noteq> []" by (simp add: t)
qed

lemma parse_stage_text:
  assumes "stage_fits s"
  shows "parse_stage (stage_text s) = Inr s"
proof -
  let ?b = "duration_body (nat (sg_Duration s))"
  have b: "duration_String (sg_Duration s) = ?b" "in_i64 (sg_Duration s)" "CHR '':'' \<notin> set ?b"
    using assms duration_body_no_mark[of "CHR '':''"] by (simp_all add: stage_fits_def duration_String_body in_i64_def)
  have d: "list_all plain (dec_digits n)" "dec_digits n \<noteq> []" for n
    using list.pred_mono_strong[OF dec_digits_all digit_plain] by simp_all
  then have "plain (hd (dec_digits n))" "plain (last (dec_digits n))" for n
    by (metis hd_in_set list_all_iff, metis last_in_set list_all_iff)
  then have t: "TrimSpace (fmt_d (sg_Target s)) = fmt_d (sg_Target s)"
    using assms d by (intro TrimSpace_plain) (auto simp: fmt_d_def stage_fits_def)
  have "Cut (stage_text s) '':'' = Some (?b, fmt_d (sg_Target s))" using Cut_char[OF b(3)] by (simp add: stage_text_def b(1))
  then show ?thesis
    using assms ParseDuration_String[OF b(2)] ParseInt32_fmt_d[of "sg_Target s"]
    by (simp add: parse_stage_def duration_body_trim b(1) t stage_fits_def)
qed

lemma parse_parts_texts: "list_all stage_fits ss \<Longrightarrow> parse_parts (map stage_text ss) = Inr ss"
  by (induction ss) (simp_all add: stage_text_plain parse_stage_text Let_def)

lemma split_texts:
  "list_all stage_fits ss \<Longrightarrow> ss \<noteq> [] \<Longrightarrow> split_on (CHR '','') (strings_Join '','' (map stage_text ss)) = map stage_text ss"
proof (induction ss)
  case (Cons s ss)
  then show ?case
    by (cases ss) (simp_all add: split_on_none split_on_join stage_text_plain)
qed simp

text \<open>
  C27. A ramping profile written as the flag \<open>--stages\<close> takes it is read back exactly, however the
  durations are printed; so is the profile of a plan, whose targets and durations have these ranges.
\<close>

theorem parseStages_roundtrip:
  assumes "ss \<noteq> []" "list_all stage_fits ss"
  shows "parseStages (strings_Join '','' (map stage_text ss)) = Inr ss"
  using assms by (simp add: parseStages_def split_texts parse_parts_texts)

definition demo_stages :: "StageConfig list" where
  "demo_stages = [\<lparr>sg_Duration = 90 * time_Second, sg_Target = 100\<rparr>, \<lparr>sg_Duration = 1500000, sg_Target = 0\<rparr>]"

theorem parseStages_roundtrip_witness:
  "parseStages (strings_Join '','' (map stage_text demo_stages)) = Inr demo_stages"
  by (rule parseStages_roundtrip) (simp_all add: demo_stages_def stage_fits_def)

subsection \<open>The numbers of a plan\<close>

lemma parse_parts_fits: "parse_parts parts = Inr ss \<Longrightarrow> s \<in> set ss \<Longrightarrow> 0 \<le> sg_Target s \<and> sg_Target s < 2 ^ 31"
proof (induction parts arbitrary: ss)
  case (Cons part parts)
  show ?case
  proof (cases "TrimSpace part = []")
    case True then show ?thesis using Cons by simp
  next
    case False
    then obtain s0 rest where p: "parse_stage (TrimSpace part) = Inr s0" "parse_parts parts = Inr rest" "ss = s0 # rest"
      using Cons.prems(1) by (auto simp: Let_def split: sum.splits)
    have "0 \<le> sg_Target s0 \<and> sg_Target s0 < 2 ^ 31"
      using p(1) ParseInt32_range by (auto simp: parse_stage_def split: option.splits if_splits)
    then show ?thesis using Cons.IH[OF p(2)] Cons.prems(2) p(3) by auto
  qed
qed simp

lemma asUint32_fits: "0 \<le> v \<Longrightarrow> v < 2 ^ 31 \<Longrightarrow> asUint32 field v = Inr (word_of_int v)"
  by (simp add: asUint32_def)

lemma plan_stages_fits: "\<forall>s \<in> set ss. 0 \<le> sg_Target s \<and> sg_Target s < 2 ^ 31 \<Longrightarrow> \<exists>stages. plan_stages i ss = Inr stages"
proof (induction ss arbitrary: i)
  case (Cons s ss)
  then obtain stages where "plan_stages (i + 1) ss = Inr stages" by fastforce
  then show ?case using Cons.prems by (simp add: asUint32_fits)
qed simp

lemma select_scenarios_fits: "select_scenarios have raws = Inr ss \<Longrightarrow> s \<in> set ss \<Longrightarrow> 0 < so_Weight s \<and> so_Weight s < 2 ^ 31"
proof (induction raws arbitrary: ss)
  case (Cons raw raws)
  obtain choice rest where c: "scenario_choice raw = Inr choice" "select_scenarios have raws = Inr rest"
    "ss = choose_scenario have choice # rest" using Cons.prems(1) by (auto split: sum.splits)
  have "0 < snd choice \<and> snd choice < 2 ^ 31"
    using c(1) ParseInt32_range by (auto simp: scenario_choice_def split: option.splits if_splits)
  then have "0 < so_Weight (choose_scenario have choice) \<and> so_Weight (choose_scenario have choice) < 2 ^ 31"
    by (simp add: choose_scenario_def split: option.splits)
  then show ?case using Cons.IH[OF c(2)] Cons.prems(2) c(3) by auto
qed simp

lemma plan_scenarios_fits: "\<forall>s \<in> set ss. 0 < so_Weight s \<and> so_Weight s < 2 ^ 31 \<Longrightarrow> \<exists>refs. plan_scenarios L ss = Inr refs"
proof (induction ss)
  case (Cons s ss)
  then obtain refs where "plan_scenarios L ss = Inr refs" by fastforce
  then show ?case using Cons.prems by (simp add: asUint32_fits max_def)
qed simp


lemma select_scenarios_length: "select_scenarios have raws = Inr ss \<Longrightarrow> length ss = length raws"
  by (induction raws arbitrary: ss) (auto split: sum.splits)


text \<open>
  Stages and weights given on the command line are never what stops a plan from being made: both
  are parsed at 32 bits, so the plan holds them as they were written.
\<close>

theorem flags_fit_plan:
  assumes "flags_apply ParseFloat f c = Inr c'"
  shows "(pf_stages f \<noteq> [] \<longrightarrow> lc_Executor (cf_Load c') = ExecutorRampingVUs \<and>
            (\<exists>stages. plan_stages 0 (lc_Stages (cf_Load c')) = Inr stages \<and> map (uint \<circ> st_target) stages = map sg_Target (lc_Stages (cf_Load c')))) \<and>
         (pf_scenarios f \<noteq> [] \<longrightarrow> length (cf_Scenarios c') = length (pf_scenarios f) \<and>
            (\<exists>refs. plan_scenarios L (cf_Scenarios c') = Inr refs \<and> map (uint \<circ> snd) refs = map so_Weight (cf_Scenarios c')))"
proof -
  obtain c1 c2 c3 c4 c5 where steps: "apply_pacing f (apply_values f c) = Inr c1" "apply_stages f c1 = Inr c2"
    "apply_tags f c2 = Inr c3" "apply_headers f c3 = Inr c4" "applyScenarios f c4 = Inr c5" "applyThresholds ParseFloat f c5 = Inr c'"
    using assms by (auto simp: flags_apply_def and_then_Inr)
  have load: "cf_Load c' = cf_Load c2"
    using steps(3-6) by (auto simp: apply_tags_def apply_headers_def applyScenarios_def applyThresholds_def split: sum.splits if_splits)
  have scen: "cf_Scenarios c' = cf_Scenarios c5" using steps(6) by (auto simp: applyThresholds_def split: sum.splits)
  have "lc_Executor (cf_Load c2) = ExecutorRampingVUs \<and>
      (\<exists>stages. plan_stages 0 (lc_Stages (cf_Load c2)) = Inr stages \<and> map (uint \<circ> st_target) stages = map sg_Target (lc_Stages (cf_Load c2)))"
    if ne: "pf_stages f \<noteq> []"
  proof -
    obtain ss where ss: "parseStages (pf_stages f) = Inr ss" "lc_Stages (cf_Load c2) = ss" "lc_Executor (cf_Load c2) = ExecutorRampingVUs"
      using steps(2) ne by (auto simp: apply_stages_def split: sum.splits)
    then have "\<forall>s \<in> set ss. 0 \<le> sg_Target s \<and> sg_Target s < 2 ^ 31"
      using parse_parts_fits by (auto simp: parseStages_def split: sum.splits if_splits)
    then obtain stages where "plan_stages 0 ss = Inr stages" using plan_stages_fits by blast
    then show ?thesis using ss arg_cong[OF plan_stages_Inr, of 0 ss stages "map snd"] by (simp add: comp_def)
  qed
  moreover have "length (cf_Scenarios c5) = length (pf_scenarios f) \<and>
      (\<exists>refs. plan_scenarios L (cf_Scenarios c5) = Inr refs \<and> map (uint \<circ> snd) refs = map so_Weight (cf_Scenarios c5))"
    if "pf_scenarios f \<noteq> []"
  proof -
    have sel: "select_scenarios (cf_Scenarios c4) (pf_scenarios f) = Inr (cf_Scenarios c5)"
      using steps(5) that by (auto simp: applyScenarios_def split: sum.splits)
    note w = select_scenarios_fits[OF sel]
    then obtain refs where refs: "plan_scenarios L (cf_Scenarios c5) = Inr refs" using plan_scenarios_fits by blast
    have "map (uint \<circ> snd) refs = map (\<lambda>s. max 1 (so_Weight s)) (cf_Scenarios c5)"
      using arg_cong[OF plan_scenarios_Inr[OF refs], of "map snd"] by (simp add: comp_def case_prod_beta)
    also have "\<dots> = map so_Weight (cf_Scenarios c5)" using w by (fastforce simp: max_def)
    finally show ?thesis using refs select_scenarios_length[OF sel] by auto
  qed
  ultimately show ?thesis by (simp add: load scen)
qed


subsection \<open>Flags that are not kept\<close>

lemma ramping_executor:
  assumes "Plan L Y c = Inr plan" "lc_Executor (cf_Load c) = ExecutorRampingVUs"
  obtains stages load where "plan_stages 0 (lc_Stages (cf_Load c)) = Inr stages" "tp_load plan = Some load"
    "NewExecutor (tp_load plan) = newRampingVUs load" "lp_stages load = stages"
proof -
  obtain vus rate load where p: "plan_load (cf_Load c) vus rate = Inr load" "tp_load plan = Some load" by (rule Plan_Inr[OF assms(1)])
  then obtain stages where "plan_stages 0 (lc_Stages (cf_Load c)) = Inr stages" "lp_executor load = EXECUTOR_TYPE_RAMPING_VUS"
    "lp_stages load = stages" using assms(2) by (auto simp: plan_load_def Let_def split: sum.splits)
  then show thesis using that p(2) by (simp add: NewExecutor_def)
qed

text \<open>
  C39. \<open>--vus\<close> and \<open>--duration\<close> do not override a file that ramps: the command line accepts them,
  and the executor of the run is that of the file, whatever numbers were given.
\<close>

theorem ramping_file_ignores_vus:
  assumes "path \<noteq> []" "ReadFile path = Some data" "Parse L Y data = Inr c" "lc_Executor (cf_Load c) = ExecutorRampingVUs"
  shows "\<exists>c'. load L Y ParseFloat ReadFile (register\<lparr>pf_vus := n, pf_duration := d\<rparr>) path = Inr c' \<and>
    (\<forall>p p'. Plan L Y c = Inr p \<and> Plan L Y c' = Inr p' \<longrightarrow> NewExecutor (tp_load p') = NewExecutor (tp_load p))"
proof -
  let ?f = "register\<lparr>pf_vus := n, pf_duration := d\<rparr>"
  define c' where "c' = c\<lparr>cf_Load := apply_load ?f (cf_Load c)\<rparr>"
  have same: "lc_Stages (cf_Load c') = lc_Stages (cf_Load c)" "lc_Executor (cf_Load c') = ExecutorRampingVUs"
    "lc_MaxIterationRate (cf_Load c') = lc_MaxIterationRate (cf_Load c)"
    using assms(4) by (simp_all add: c'_def apply_load_def register_def Let_def)
  have overlaid: "flags_apply ParseFloat ?f c = Inr c'"
    by (simp add: flags_apply_def register_def apply_pacing_def apply_values_def apply_http_def apply_stages_def
        apply_tags_def apply_headers_def applyScenarios_def applyThresholds_def c'_def)
  have "load_ok (cf_Load c')" if "load_ok (cf_Load c)" using that same assms(4) by (simp add: load_ok_def)
  then have "config_Validate L c' = (None, c')"
    using Parse_valid[OF assms(3)] by (auto simp: config_Validate_self check_pacing_def c'_def)
  then have "load L Y ParseFloat ReadFile ?f path = Inr c'"
    using assms(1-3) by (simp add: load_def read_config_def overlaid)
  moreover have "NewExecutor (tp_load p') = NewExecutor (tp_load p)" if p: "Plan L Y c = Inr p" "Plan L Y c' = Inr p'" for p p'
  proof -
    obtain stages load where a: "plan_stages 0 (lc_Stages (cf_Load c)) = Inr stages" "NewExecutor (tp_load p) = newRampingVUs load"
      "lp_stages load = stages" by (rule ramping_executor[OF p(1) assms(4)])
    obtain stages' load' where b: "plan_stages 0 (lc_Stages (cf_Load c')) = Inr stages'" "NewExecutor (tp_load p') = newRampingVUs load'"
      "lp_stages load' = stages'" by (rule ramping_executor[OF p(2) same(2)])
    show ?thesis using a b same(1) by (simp add: newRampingVUs_def)
  qed
  ultimately show ?thesis by blast
qed

subsection \<open>Thresholds as text\<close>

lemma Cut_none: "c \<notin> set s \<Longrightarrow> Cut s (c # cs) = None"
  by (induction s) (auto simp: Cut_def)

lemma Cut_pair: "a \<notin> set s \<Longrightarrow> Cut (s @ a # b # rest) [a, b] = Some (s, rest)"
proof -
  assume "a \<notin> set s"
  then have "index_of [a, b] (s @ a # b # rest) = Some (length s)" by (induction s) auto
  then show ?thesis by (simp add: Cut_def)
qed

lemma Cut_no_pair: "a \<notin> set s \<Longrightarrow> a \<notin> set rest \<Longrightarrow> b \<notin> set rest \<Longrightarrow> Cut (s @ a # rest) [a, b] = None"
proof -
  assume r: "a \<notin> set rest" "b \<notin> set rest"
  then have "index_of [a, b] rest = None" using Cut_none[of a rest "[b]"] by (simp add: Cut_def)
  moreover have "\<not> prefix [b] rest" using r(2) by (cases rest) auto
  moreover assume "a \<notin> set s"
  ultimately have "index_of [a, b] (s @ a # rest) = None" by (induction s) auto
  then show ?thesis by (simp add: Cut_def)
qed

text \<open>
  A threshold written as \<open>metric:stat<value\<close> is read back with each of the four comparisons; \<open><=\<close> is
  never taken for \<open><\<close> with an equals sign before the number.
\<close>

theorem parseThreshold_reads:
  assumes "cmp \<in> set thresholdOperators" "ParseFloat number = Some v"
    and "TrimSpace metric = metric" "metric \<noteq> []" "CHR '':'' \<notin> set metric"
    and "TrimSpace stat = stat" "CHR ''<'' \<notin> set stat" "CHR ''>'' \<notin> set stat"
    and "TrimSpace number = number" "CHR ''<'' \<notin> set number" "CHR ''>'' \<notin> set number" "CHR ''='' \<notin> set number"
  shows "parseThreshold ParseFloat (metric @ '':'' @ stat @ cmp @ number) =
    Inr \<lparr>tg_Metric = metric, tg_Stat = stat, tg_Op = cmp, tg_Value = v, tg_AbortOnFail = False\<rparr>"
proof -
  let ?t = "\<lparr>tg_Metric = metric, tg_Stat = stat, tg_Op = cmp, tg_Value = v, tg_AbortOnFail = False\<rparr>"
  have "try_operators ParseFloat metric (stat @ cmp @ number) thresholdOperators = Inr ?t"
  proof -
    consider "cmp = ''<=''" | "cmp = ''>=''" | "cmp = ''<''" | "cmp = ''>''" using assms(1) by (auto simp: thresholdOperators_def)
    then show ?thesis
    proof cases
      case 1 then show ?thesis using assms by (simp add: thresholdOperators_def Cut_pair)
    next
      case 2 then show ?thesis using assms by (simp add: thresholdOperators_def Cut_pair Cut_none)
    next
      case 3 then show ?thesis using assms by (simp add: thresholdOperators_def Cut_no_pair Cut_none Cut_char)
    next
      case 4 then show ?thesis using assms by (simp add: thresholdOperators_def Cut_no_pair Cut_none Cut_char)
    qed
  qed
  then show ?thesis using assms(3,4) by (simp add: parseThreshold_def Cut_char[OF assms(5)])
qed


subsection \<open>Witnesses\<close>

definition ramp_config :: Config where
  "ramp_config = zero_Config\<lparr>cf_Name := ''ramp'', cf_Load := zero_LoadConfig\<lparr>lc_Executor := ExecutorRampingVUs, lc_VUs := 0,
     lc_Stages := [\<lparr>sg_Duration = 30 * time_Second, sg_Target = 100\<rparr>]\<rparr>\<rparr>"

definition ramp_yaml :: yaml_codec where
  "ramp_yaml = \<lparr>ya_Unmarshal = (\<lambda>_. Some ramp_config), ya_Marshal = (\<lambda>c. Some ''yaml'')\<rparr>"

lemma ramp_config_parse: "Parse demo_lib ramp_yaml data = Inr ramp_config"
proof -
  have "config_Validate demo_lib ramp_config = (None, ramp_config)"
    by (simp add: config_Validate_self ramp_config_def zero_Config_def zero_LoadConfig_def load_ok_def check_pacing_def)
  then show ?thesis by (simp add: Parse_def ramp_yaml_def)
qed

theorem load_without_flags_witness:
  "load demo_lib ramp_yaml (\<lambda>_. None) (\<lambda>_. Some ''text'') register ''test.yaml'' = Inr ramp_config"
  using load_without_flags[of "''test.yaml''" "\<lambda>_. Some ''text''" "''text''" demo_lib ramp_yaml "\<lambda>_. None"]
  by (simp add: ramp_config_parse)

theorem flags_fit_plan_witness:
  "\<exists>c'. flags_apply (\<lambda>_. None) (register\<lparr>pf_scenarios := [''browse'']\<rparr>) ramp_config = Inr c' \<and> length (cf_Scenarios c') = 1"
proof -
  have "index_of ''='' ''browse'' = None" by simp
  then have "scenario_choice ''browse'' = Inr (TrimSpace ''browse'', 1)" by (simp add: scenario_choice_def Cut_def)
  then obtain c' where c: "flags_apply (\<lambda>_. None) (register\<lparr>pf_scenarios := [''browse'']\<rparr>) ramp_config = Inr c'"
    by (simp add: flags_apply_def register_def apply_pacing_def apply_stages_def apply_tags_def apply_headers_def
        applyScenarios_def applyThresholds_def)
  have "length (cf_Scenarios c') = 1"
    using flags_fit_plan[OF c, of demo_lib] by (simp add: register_def)
  then show ?thesis using c by blast
qed

theorem ramping_file_ignores_vus_witness:
  "\<exists>c'. load demo_lib ramp_yaml (\<lambda>_. None) (\<lambda>_. Some ''text'') (register\<lparr>pf_vus := 500, pf_duration := 60 * time_Second\<rparr>) ''test.yaml'' = Inr c' \<and>
     (\<forall>p p'. Plan demo_lib ramp_yaml ramp_config = Inr p \<and> Plan demo_lib ramp_yaml c' = Inr p' \<longrightarrow>
       NewExecutor (tp_load p') = NewExecutor (tp_load p))"
  by (rule ramping_file_ignores_vus[of _ _ "''text''"]) (simp_all add: ramp_config_parse, simp add: ramp_config_def)

theorem parseThreshold_reads_witness:
  "parseThreshold (\<lambda>s. if s = ''500'' then Some (Fin 500) else None) ''http_req_duration:p95<=500'' =
     Inr \<lparr>tg_Metric = ''http_req_duration'', tg_Stat = ''p95'', tg_Op = ''<='', tg_Value = Fin 500, tg_AbortOnFail = False\<rparr>"
proof -
  have t: "TrimSpace ''http_req_duration'' = ''http_req_duration''" "TrimSpace ''p95'' = ''p95''" "TrimSpace ''500'' = ''500''"
    by (rule TrimSpace_plain; simp add: plain_def)+
  have "parseThreshold (\<lambda>s. if s = ''500'' then Some (Fin 500) else None) (''http_req_duration'' @ '':'' @ ''p95'' @ ''<='' @ ''500'') =
     Inr \<lparr>tg_Metric = ''http_req_duration'', tg_Stat = ''p95'', tg_Op = ''<='', tg_Value = Fin 500, tg_AbortOnFail = False\<rparr>"
    by (rule parseThreshold_reads) (simp_all add: t, simp add: thresholdOperators_def)
  then show ?thesis by simp
qed

end
