(* ===== verification/Api.thy ===== *)
theory Api
  imports Report Flags
begin

text \<open>
  \<open>internal/httpapi\<close>: the dashboard's REST interface as functions from the state of the process (the
  coordinator, the files a save may write, the shutdowns asked for) to an answer and the next state,
  and the form a configuration is shown in (\<open>draft.go\<close>). What the handlers get from libraries is in an
  environment: JSON, the texts of errors, the template engine, the error of writing a file. Serving the
  embedded application and the WebSocket are not modelled; the updates the latter sends are those of
  \<open>LiveFeed\<close>. The lemmas show that a read-only server changes nothing, that a saved file can be read,
  that a configuration called valid can be started and built, and that nothing a client sends can
  forge a log line.
\<close>

subsection \<open>The server\<close>

record api_config =
  ac_ReadOnly :: bool
  ac_OnShutdown :: bool \<comment> \<open>whether it is set\<close>
  ac_Registry :: "scenarios option"

record 'h api_state =
  as_coord :: "'h Coordinator"
  as_files :: "(string, string) gomap"
  as_shutdowns :: "string list"

record request_body =
  rq_bytes :: string
  rq_err :: "string option" \<comment> \<open>what reading fails with after the bytes\<close>

definition maxRequestBody :: nat where "maxRequestBody = 2 ^ 20"

text \<open>The limited reader ends the body before a later error is seen.\<close>

definition api_readBody :: "request_body \<Rightarrow> string + string" where
  "api_readBody r =
     (let data = take (maxRequestBody + 1) (rq_bytes r) in
      case (if length (rq_bytes r) \<le> maxRequestBody then rq_err r else None) of
        Some e \<Rightarrow> Inl (''read request body: '' @ e)
      | None \<Rightarrow>
          if length data > maxRequestBody then Inl (''request body exceeds '' @ fmt_d (int maxRequestBody) @ '' bytes'')
          else Inr data)"

subsection \<open>Logging a path\<close>

definition maxLoggedPath :: nat where "maxLoggedPath = 256"

text \<open>\<open>unicode.IsControl\<close>.\<close>

definition IsControl :: "nat \<Rightarrow> bool" where
  "IsControl r \<longleftrightarrow> r < 32 \<or> (127 \<le> r \<and> r < 160)"

text \<open>\<open>strings.ReplaceAll\<close> with a one-byte pattern, and \<open>strings.Map\<close>.\<close>

definition replace_char :: "char \<Rightarrow> string \<Rightarrow> string \<Rightarrow> string" where
  "replace_char c new s = concat (map (\<lambda>x. if x = c then new else [x]) s)"

definition strings_Map :: "(nat \<Rightarrow> nat) \<Rightarrow> string \<Rightarrow> string" where
  "strings_Map f s = concat (map (\<lambda>r. encode_rune (f r)) (go_runes s))"

definition logPath :: "string \<Rightarrow> string" where
  "logPath urlPath =
     (let truncated = length urlPath > maxLoggedPath; path = (if truncated then take maxLoggedPath urlPath else urlPath);
          cleaned = replace_char (CHR 0x0A) (encode_rune rune_error) path;
          cleaned = replace_char (CHR 0x0D) (encode_rune rune_error) cleaned;
          cleaned = strings_Map (\<lambda>c. if IsControl c then rune_error else c) cleaned
      in if truncated then cleaned @ map char_of [226, 128, 166 :: nat] else cleaned)"

subsection \<open>A configuration as a form\<close>

record draftStage =
  ds_Duration :: string
  ds_Target :: string

record draftPair =
  dp_Key :: string
  dp_Value :: string

record draftThreshold =
  dt_Metric :: string
  dt_Stat :: string
  dt_Op :: string
  dt_Value :: string
  dt_AbortOnFail :: bool

record draftStep =
  dk_Kind :: string
  dk_Name :: string
  dk_Method :: string
  dk_URL :: string
  dk_Expect :: string
  dk_Headers :: "draftPair list"
  dk_Query :: "draftPair list"
  dk_BodyKind :: string
  dk_Body :: string
  dk_Form :: "draftPair list"
  dk_Capture :: "draftPair list"
  dk_BetweenRequests :: string
  dk_Timeout :: string
  dk_Think :: string

record draftScenario =
  dn_Name :: string
  dn_Weight :: string
  dn_Description :: string
  dn_Steps :: "draftStep list"

record draft =
  dr_Name :: string
  dr_BaseURL :: string
  dr_Executor :: string
  dr_VUs :: string
  dr_Duration :: string
  dr_Stages :: "draftStage list"
  dr_GracefulStop :: string
  dr_MaxIterationRate :: string
  dr_Iterations :: string
  dr_BetweenRequests :: string
  dr_WorkersPerAgent :: string
  dr_Timeout :: string
  dr_FollowRedirects :: bool
  dr_InsecureSkipTLSVerify :: bool
  dr_Headers :: "draftPair list"
  dr_Tags :: "draftPair list"
  dr_Thresholds :: "draftThreshold list"
  dr_Scenarios :: "draftScenario list"

definition intOrBlank :: "int \<Rightarrow> string" where
  "intOrBlank v = (if v \<le> 0 then [] else fmt_d v)"

definition uintOrBlank :: "u64 \<Rightarrow> string" where
  "uintOrBlank v = (if v = 0 then [] else dec_digits (unat v))"

definition durationOrBlank :: "duration \<Rightarrow> string" where
  "durationOrBlank d = (if d \<le> 0 then [] else duration_String d)"

definition expectToText :: "int list \<Rightarrow> string" where
  "expectToText codes = (if length codes = 0 then [] else strings_Join '', '' (map fmt_d codes))"

definition pairsFromMap :: "(string, string) gomap \<Rightarrow> draftPair list" where
  "pairsFromMap m =
     (if length m = 0 then []
      else map (\<lambda>k. \<lparr>dp_Key = k, dp_Value = the (map_of m k)\<rparr>) (sort_by (<) (map fst m)))"

definition jsonBodyToText :: "(json \<Rightarrow> string option) \<Rightarrow> json \<Rightarrow> string" where
  "jsonBodyToText Marshal v = (case Marshal v of None \<Rightarrow> [] | Some encoded \<Rightarrow> encoded)"

definition blank_step :: draftStep where
  "blank_step = \<lparr>dk_Kind = [], dk_Name = [], dk_Method = [], dk_URL = [], dk_Expect = [], dk_Headers = [], dk_Query = [], dk_BodyKind = [],
     dk_Body = [], dk_Form = [], dk_Capture = [], dk_BetweenRequests = [], dk_Timeout = [], dk_Think = []\<rparr>"

definition draftStepFrom :: "'u http_lib \<Rightarrow> (json \<Rightarrow> string option) \<Rightarrow> StepConfig \<Rightarrow> draftStep" where
  "draftStepFrom L Marshal s =
     (if sf_Think s \<noteq> [] then blank_step\<lparr>dk_Kind := ''think'', dk_Think := sf_Think s\<rparr>
      else
        let (meth, url) = (case ResolvedRequest L s of Inl _ \<Rightarrow> (''GET'', sf_URL s) | Inr mu \<Rightarrow> mu);
            step = blank_step\<lparr>dk_Kind := ''request'', dk_Name := sf_Name s, dk_Method := meth, dk_URL := url,
              dk_Expect := expectToText (sf_Expect s), dk_Headers := pairsFromMap (sf_Headers s), dk_Query := pairsFromMap (sf_Query s),
              dk_Capture := pairsFromMap (sf_Capture s), dk_BetweenRequests := sf_BetweenRequests s,
              dk_Timeout := durationOrBlank (sf_Timeout s), dk_BodyKind := ''none''\<rparr>
        in case sf_JSON s of
             Some v \<Rightarrow> step\<lparr>dk_BodyKind := ''json'', dk_Body := jsonBodyToText Marshal v\<rparr>
           | None \<Rightarrow>
               if length (sf_Form s) > 0 then step\<lparr>dk_BodyKind := ''form'', dk_Form := pairsFromMap (sf_Form s)\<rparr>
               else if sf_Body s \<noteq> [] then step\<lparr>dk_BodyKind := ''raw'', dk_Body := sf_Body s\<rparr>
               else step)"

definition draftScenarioFrom :: "'u http_lib \<Rightarrow> (json \<Rightarrow> string option) \<Rightarrow> ScenarioConfig \<Rightarrow> draftScenario" where
  "draftScenarioFrom L Marshal s =
     \<lparr>dn_Name = so_Name s, dn_Weight = intOrBlank (so_Weight s), dn_Description = so_Description s,
      dn_Steps = map (draftStepFrom L Marshal) (so_Steps s)\<rparr>"

definition draftFromConfig :: "'u http_lib \<Rightarrow> (json \<Rightarrow> string option) \<Rightarrow> (float64 \<Rightarrow> string) \<Rightarrow> Config \<Rightarrow> draft" where
  "draftFromConfig L Marshal FormatFloat c =
     (let load = cf_Load c; ramping = (lc_Executor load = ExecutorRampingVUs) in
      \<lparr>dr_Name = cf_Name c, dr_BaseURL = cf_BaseURL c, dr_Executor = lc_Executor load,
       dr_VUs = (if ramping then [] else intOrBlank (lc_VUs load)),
       dr_Duration = (if ramping then [] else durationOrBlank (lc_Duration load)),
       dr_Stages = (if ramping then map (\<lambda>s. \<lparr>ds_Duration = duration_String (sg_Duration s), ds_Target = fmt_d (sg_Target s)\<rparr>) (lc_Stages load)
                    else []),
       dr_GracefulStop = durationOrBlank (lc_GracefulStop load), dr_MaxIterationRate = intOrBlank (lc_MaxIterationRate load),
       dr_Iterations = uintOrBlank (lc_Iterations load), dr_BetweenRequests = cf_BetweenRequests c,
       dr_WorkersPerAgent = intOrBlank (cf_WorkersPerAgent c), dr_Timeout = durationOrBlank (hg_Timeout (cf_HTTP c)),
       dr_FollowRedirects = hg_FollowRedirects (cf_HTTP c), dr_InsecureSkipTLSVerify = hg_InsecureSkipTLSVerify (cf_HTTP c),
       dr_Headers = pairsFromMap (hg_Headers (cf_HTTP c)), dr_Tags = pairsFromMap (cf_Tags c),
       dr_Thresholds = map (\<lambda>t. \<lparr>dt_Metric = tg_Metric t, dt_Stat = tg_Stat t, dt_Op = tg_Op t, dt_Value = FormatFloat (tg_Value t),
                                  dt_AbortOnFail = tg_AbortOnFail t\<rparr>) (cf_Thresholds c),
       dr_Scenarios = map (draftScenarioFrom L Marshal) (cf_Scenarios c)\<rparr>)"


subsection \<open>Validation\<close>

record ValidateScenario =
  vs_Name :: string
  vs_Weight :: int
  vs_Description :: string
  vs_Steps :: nat
  vs_Source :: string

record ValidateSummary =
  vy_Name :: string
  vy_BaseURL :: string
  vy_Profile :: string
  vy_PeakVUs :: int
  vy_DurationSeconds :: float64
  vy_Iterations :: u64
  vy_IterationRate :: int
  vy_WorkersPerAgent :: int
  vy_BetweenRequests :: string
  vy_PacingDefaulted :: bool
  vy_Scenarios :: "ValidateScenario list"
  vy_Thresholds :: "string list"

record ValidateResult =
  vr_Valid :: bool
  vr_Error :: string
  vr_Summary :: "ValidateSummary option"

record ('h, 'u) api_env =
  ae_runtime :: "'h runtime"
  ae_lib :: "'u http_lib"
  ae_yaml :: yaml_codec
  ae_report :: report_lib
  ae_ticks :: tick_order
  ae_cfg_text :: "cfg_error \<Rightarrow> string"
  ae_build_text :: "build_error \<Rightarrow> string"
  ae_exec_text :: "executor_error \<Rightarrow> string"
  ae_start_text :: "start_error \<Rightarrow> string"
  ae_run_text :: "run_error \<Rightarrow> string"
  ae_stop_json :: "string \<Rightarrow> string + bool option \<times> string"
  ae_scale_json :: "string \<Rightarrow> string + int \<times> float64"
  ae_Marshal :: "json \<Rightarrow> string option"
  ae_FormatFloat :: "float64 \<Rightarrow> string"
  ae_WriteFile :: "string \<Rightarrow> string \<Rightarrow> (string \<times> string option) option" \<comment> \<open>the error, and what of the data it left in the file\<close>
  ae_Render :: "report_data \<Rightarrow> string option"
  ae_NewRunID :: string

definition invalid :: "string \<Rightarrow> ValidateResult" where
  "invalid err = \<lparr>vr_Valid = False, vr_Error = err, vr_Summary = None\<rparr>"

text \<open>What a declared scenario says of itself; names are not declared twice.\<close>

definition declared_of :: "Config \<Rightarrow> string \<Rightarrow> nat \<times> string" where
  "declared_of c name =
     (case find (\<lambda>d. so_Name d = name) (cf_Scenarios c) of
        Some d \<Rightarrow> (length (so_Steps d), so_Description d)
      | None \<Rightarrow> (0, []))"

definition scenario_row :: "Config \<Rightarrow> string list \<Rightarrow> scenarios \<Rightarrow> string \<Rightarrow> ValidateScenario" where
  "scenario_row c compiledIn registry name =
     \<lparr>vs_Name = name, vs_Weight = EffectiveWeight (the (scenario_Lookup registry name)), vs_Description = snd (declared_of c name),
      vs_Steps = fst (declared_of c name), vs_Source = (if name \<in> set compiledIn then ''go'' else ''yaml'')\<rparr>"

definition plan_summary :: "('h, 'u) api_env \<Rightarrow> Config \<Rightarrow> test_plan \<Rightarrow> executor \<Rightarrow> ValidateScenario list \<Rightarrow> ValidateSummary" where
  "plan_summary A c plan executor rows =
     (let pacing = BetweenRequestsPause c in
      \<lparr>vy_Name = cf_Name c, vy_BaseURL = cf_BaseURL c, vy_Profile = Describe executor, vy_PeakVUs = Peak executor,
       vy_DurationSeconds = duration_Seconds (Duration executor),
       vy_Iterations = (case tp_load plan of Some l \<Rightarrow> lp_iterations l | None \<Rightarrow> 0), vy_IterationRate = plan_rate plan,
       vy_WorkersPerAgent = cf_WorkersPerAgent c, vy_BetweenRequests = pause_String pacing,
       vy_PacingDefaulted = (cf_BetweenRequests c = []), vy_Scenarios = rows,
       vy_Thresholds = map (\<lambda>t. tg_Metric t @ '' '' @ tg_Stat t @ '' '' @ tg_Op t @ '' '' @ rt_fmt_g (ae_runtime A) (tg_Value t)) (cf_Thresholds c)\<rparr>)"

definition fresh_registry :: "api_config \<Rightarrow> scenarios" where
  "fresh_registry cfg = (case ac_Registry cfg of Some r \<Rightarrow> scenario_Clone r | None \<Rightarrow> NewScenarios)"

definition validateConfig :: "('h, 'u) api_env \<Rightarrow> api_config \<Rightarrow> string \<Rightarrow> ValidateResult" where
  "validateConfig A cfg body =
     (case Parse (ae_lib A) (ae_yaml A) body of
        Inl e \<Rightarrow> invalid (ae_cfg_text A e)
      | Inr c \<Rightarrow>
          (case BuildScenarios (ae_lib A) c (fresh_registry cfg) of
             Inl e \<Rightarrow> invalid (ae_build_text A e)
           | Inr (registry, _) \<Rightarrow>
               if scenario_Len registry = 0
               then invalid ''no scenarios to run: add one, or set a base URL for a single-request smoke test''
               else
                 (case Plan (ae_lib A) (ae_yaml A) c of
                    Inl e \<Rightarrow> invalid (ae_cfg_text A e)
                  | Inr plan \<Rightarrow>
                      (case NewExecutor (tp_load plan) of
                         Inl e \<Rightarrow> invalid (ae_exec_text A e)
                       | Inr executor \<Rightarrow>
                           \<lparr>vr_Valid = True, vr_Error = [],
                            vr_Summary = Some (plan_summary A c plan executor
                              (map (scenario_row c (Names (fresh_registry cfg)) registry) (Names registry)))\<rparr>))))"

subsection \<open>The handlers\<close>

datatype api_body =
    ErrorBody string
  | SnapshotBody Snapshot
  | AgentsBody "AgentInfo list"
  | RunsBody "RunState.Summary list"
  | ConfigBody string string "draft option"
  | SavedBody string
  | SeriesBody "SeriesSummary list"
  | ReportBody string string
  | StartedBody string
  | StoppingBody string
  | ScaledBody int float64
  | ValidateBody ValidateResult
  | HealthBody nat bool
  | ShuttingDownBody

type_synonym response = "nat \<times> api_body"

definition no_run :: "('h, 'u) api_env \<Rightarrow> string \<Rightarrow> response" where
  "no_run A i = (404, ErrorBody (''no run '' @ rt_quote (ae_runtime A) i))"

definition handleHealth :: "('h, 'u) api_env \<Rightarrow> api_config \<Rightarrow> 'h api_state \<Rightarrow> response" where
  "handleHealth A cfg s = (200, HealthBody (length (Agents (ae_runtime A) (as_coord s))) (ac_OnShutdown cfg \<and> \<not> ac_ReadOnly cfg))"

definition handleSnapshot :: "('h, 'u) api_env \<Rightarrow> go_time \<Rightarrow> 'h api_state \<Rightarrow> response" where
  "handleSnapshot A now s = (200, SnapshotBody (coord_Snapshot (ae_runtime A) now (as_coord s)))"

definition handleAgents :: "('h, 'u) api_env \<Rightarrow> 'h api_state \<Rightarrow> response" where
  "handleAgents A s = (200, AgentsBody (Agents (ae_runtime A) (as_coord s)))"

definition handleListRuns :: "('h, 'u) api_env \<Rightarrow> go_time \<Rightarrow> 'h api_state \<Rightarrow> response" where
  "handleListRuns A now s = (200, RunsBody (Runs (ae_runtime A) now (as_coord s)))"

definition handleGetRun :: "('h, 'u) api_env \<Rightarrow> go_time \<Rightarrow> 'h api_state \<Rightarrow> string \<Rightarrow> response" where
  "handleGetRun A now s i =
     (case RunSnapshot (ae_runtime A) now (as_coord s) i of None \<Rightarrow> no_run A i | Some snap \<Rightarrow> (200, SnapshotBody snap))"

definition handleGetRunConfig :: "('h, 'u) api_env \<Rightarrow> 'h api_state \<Rightarrow> string \<Rightarrow> response" where
  "handleGetRunConfig A s i =
     (case Lookup (as_coord s) i of
        None \<Rightarrow> no_run A i
      | Some p \<Rightarrow>
          let run = co_runmem (as_coord s) p in
          (200, ConfigBody (tp_config_yaml (rn_plan run)) (rn_sourcePath run)
             (case FromPlan (ae_lib A) (ae_yaml A) (rn_plan run) of
                Inl _ \<Rightarrow> None
              | Inr c \<Rightarrow> Some (draftFromConfig (ae_lib A) (ae_Marshal A) (ae_FormatFloat A) c))))"

definition handleRunSeries :: "('h, 'u) api_env \<Rightarrow> 'h api_state \<Rightarrow> string \<Rightarrow> response" where
  "handleRunSeries A s i =
     (case Lookup (as_coord s) i of
        None \<Rightarrow> no_run A i
      | Some p \<Rightarrow> (200, SeriesBody (StoreViews.Summary (rt_hdr (ae_runtime A)) (rt_series (ae_runtime A)) (rn_store (co_runmem (as_coord s) p)))))"

definition handleRunReport :: "('h, 'u) api_env \<Rightarrow> go_time \<Rightarrow> 'h api_state \<Rightarrow> string \<Rightarrow> response" where
  "handleRunReport A now s i =
     (case RunSnapshot (ae_runtime A) now (as_coord s) i of
        None \<Rightarrow> no_run A i
      | Some snap \<Rightarrow>
          (case report_Build (ae_report A) (ae_ticks A) snap now of
             Inl e \<Rightarrow> (409, ErrorBody e)
           | Inr data \<Rightarrow>
               (case ae_Render A data of
                  None \<Rightarrow> (500, ErrorBody ''could not render the report'')
                | Some html \<Rightarrow> (200, ReportBody (report_Filename (ae_report A) (rd_Run data)) html))))"

definition handleValidate :: "('h, 'u) api_env \<Rightarrow> api_config \<Rightarrow> request_body \<Rightarrow> response" where
  "handleValidate A cfg r =
     (case api_readBody r of
        Inl e \<Rightarrow> (400, ErrorBody e)
      | Inr body \<Rightarrow> (200, ValidateBody (if length body = 0 then invalid ''the configuration is empty'' else validateConfig A cfg body)))"

text \<open>The guard of the handlers that change something.\<close>

definition guardReadOnly :: "api_config \<Rightarrow> 'h api_state \<Rightarrow> response \<times> 'h api_state \<Rightarrow> response \<times> 'h api_state" where
  "guardReadOnly cfg s result = (if ac_ReadOnly cfg then ((403, ErrorBody ''this dashboard is read-only''), s) else result)"

definition handleSaveRunConfig :: "('h, 'u) api_env \<Rightarrow> api_config \<Rightarrow> 'h api_state \<Rightarrow> string \<Rightarrow> request_body \<Rightarrow> response \<times> 'h api_state" where
  "handleSaveRunConfig A cfg s i r = guardReadOnly cfg s
     (case Lookup (as_coord s) i of
        None \<Rightarrow> (no_run A i, s)
      | Some p \<Rightarrow>
          let sourcePath = rn_sourcePath (co_runmem (as_coord s) p) in
          if sourcePath = [] then ((409, ErrorBody ''this run has no source file to save to''), s)
          else case api_readBody r of
            Inl e \<Rightarrow> ((400, ErrorBody e), s)
          | Inr body \<Rightarrow>
              (case Parse (ae_lib A) (ae_yaml A) body of
                 Inl e \<Rightarrow> ((400, ErrorBody (ae_cfg_text A e)), s)
               | Inr _ \<Rightarrow>
                   (case ae_WriteFile A sourcePath body of
                      Some (e, left) \<Rightarrow>
                        ((500, ErrorBody (''write '' @ sourcePath @ '': '' @ e)),
                         case left of Some data \<Rightarrow> s\<lparr>as_files := gput sourcePath data (as_files s)\<rparr> | None \<Rightarrow> s)
                    | None \<Rightarrow> ((200, SavedBody sourcePath), s\<lparr>as_files := gput sourcePath body (as_files s)\<rparr>))))"

definition handleStartRun :: "('h, 'u) api_env \<Rightarrow> api_config \<Rightarrow> go_time \<Rightarrow> 'h api_state \<Rightarrow> request_body \<Rightarrow> response \<times> 'h api_state" where
  "handleStartRun A cfg now s r = guardReadOnly cfg s
     (case api_readBody r of
        Inl e \<Rightarrow> ((400, ErrorBody e), s)
      | Inr body \<Rightarrow>
          if length body = 0 then ((400, ErrorBody ''request body is empty; send a test configuration''), s)
          else case Parse (ae_lib A) (ae_yaml A) body of
            Inl e \<Rightarrow> ((400, ErrorBody (ae_cfg_text A e)), s)
          | Inr c \<Rightarrow>
              (case StartRun (ae_runtime A) now (as_coord s) (ae_NewRunID A) (cf_Name c)
                  (map_sum (ae_cfg_text A) id (Plan (ae_lib A) (ae_yaml A) c)) [] of
                 (Inl OutOfMemory, coord) \<Rightarrow> ((500, ErrorBody ''internal error''), s\<lparr>as_coord := coord\<rparr>)
               | (Inl e, coord) \<Rightarrow> ((409, ErrorBody (ae_start_text A e)), s\<lparr>as_coord := coord\<rparr>)
               | (Inr p, coord) \<Rightarrow> ((202, StartedBody (rn_id (co_runmem coord p))), s\<lparr>as_coord := coord\<rparr>)))"

definition handleStopRun :: "('h, 'u) api_env \<Rightarrow> api_config \<Rightarrow> go_time \<Rightarrow> 'h api_state \<Rightarrow> string \<Rightarrow> request_body \<Rightarrow> response \<times> 'h api_state" where
  "handleStopRun A cfg now s i r = guardReadOnly cfg s
     (case (case api_readBody r of Inl _ \<Rightarrow> Inr (None, []) | Inr body \<Rightarrow> if length body > 0 then ae_stop_json A body else Inr (None, [])) of
        Inl e \<Rightarrow> ((400, ErrorBody (''invalid JSON body: '' @ e)), s)
      | Inr (wanted, reason) \<Rightarrow>
          let graceful = (case wanted of Some g \<Rightarrow> g | None \<Rightarrow> True);
              (err, coord) = StopRun (ae_runtime A) now (as_coord s) i graceful reason
          in case err of
               Some e \<Rightarrow> ((409, ErrorBody (ae_run_text A e)), s\<lparr>as_coord := coord\<rparr>)
             | None \<Rightarrow> ((202, StoppingBody i), s\<lparr>as_coord := coord\<rparr>))"

definition handleScaleRun :: "('h, 'u) api_env \<Rightarrow> api_config \<Rightarrow> go_time \<Rightarrow> 'h api_state \<Rightarrow> string \<Rightarrow> request_body \<Rightarrow> response \<times> 'h api_state" where
  "handleScaleRun A cfg now s i r = guardReadOnly cfg s
     (case api_readBody r of
        Inl e \<Rightarrow> ((400, ErrorBody e), s)
      | Inr body \<Rightarrow>
          (case ae_scale_json A body of
             Inl e \<Rightarrow> ((400, ErrorBody (''invalid JSON body: '' @ e)), s)
           | Inr (vus, rampSeconds) \<Rightarrow>
               if vus < 0 then ((400, ErrorBody ''vus cannot be negative''), s)
               else if f_lt rampSeconds (Fin 0) then ((400, ErrorBody ''rampSeconds cannot be negative''), s)
               else
                 let (err, coord) = ScaleRun (ae_runtime A) now (as_coord s) i vus (seconds_duration (ae_report A) rampSeconds)
                 in case err of
                      Some e \<Rightarrow> ((409, ErrorBody (ae_run_text A e)), s\<lparr>as_coord := coord\<rparr>)
                    | None \<Rightarrow> ((202, ScaledBody vus rampSeconds), s\<lparr>as_coord := coord\<rparr>)))"

definition handleShutdown :: "api_config \<Rightarrow> 'h api_state \<Rightarrow> response \<times> 'h api_state" where
  "handleShutdown cfg s = guardReadOnly cfg s
     (if \<not> ac_OnShutdown cfg then ((501, ErrorBody ''this deployment cannot be shut down from the dashboard''), s)
      else ((202, ShuttingDownBody), s\<lparr>as_shutdowns := as_shutdowns s @ [''powered off from the dashboard'']\<rparr>))"

text \<open>The routes, without the build information, the stream and the embedded application.\<close>

datatype api_request =
    Get_health
  | Get_snapshot
  | Get_agents
  | Get_runs
  | Post_runs request_body
  | Post_validate request_body
  | Get_run string
  | Get_config string
  | Put_config string request_body
  | Post_stop string request_body
  | Post_scale string request_body
  | Get_series string
  | Get_report string
  | Post_shutdown

fun routes :: "('h, 'u) api_env \<Rightarrow> api_config \<Rightarrow> go_time \<Rightarrow> 'h api_state \<Rightarrow> api_request \<Rightarrow> response \<times> 'h api_state" where
  "routes A cfg now s Get_health = (handleHealth A cfg s, s)"
| "routes A cfg now s Get_snapshot = (handleSnapshot A now s, s)"
| "routes A cfg now s Get_agents = (handleAgents A s, s)"
| "routes A cfg now s Get_runs = (handleListRuns A now s, s)"
| "routes A cfg now s (Post_runs r) = handleStartRun A cfg now s r"
| "routes A cfg now s (Post_validate r) = (handleValidate A cfg r, s)"
| "routes A cfg now s (Get_run i) = (handleGetRun A now s i, s)"
| "routes A cfg now s (Get_config i) = (handleGetRunConfig A s i, s)"
| "routes A cfg now s (Put_config i r) = handleSaveRunConfig A cfg s i r"
| "routes A cfg now s (Post_stop i r) = handleStopRun A cfg now s i r"
| "routes A cfg now s (Post_scale i r) = handleScaleRun A cfg now s i r"
| "routes A cfg now s (Get_series i) = (handleRunSeries A s i, s)"
| "routes A cfg now s (Get_report i) = (handleRunReport A now s i, s)"
| "routes A cfg now s Post_shutdown = handleShutdown cfg s"


subsection \<open>A read-only dashboard\<close>

text \<open>Requests one after the other, each with the environment it is served in.\<close>

definition serve :: "api_config \<Rightarrow> 'h api_state \<Rightarrow> (('h, 'u) api_env \<times> go_time \<times> api_request) list \<Rightarrow> 'h api_state" where
  "serve cfg s calls = foldl (\<lambda>s (A, now, req). snd (routes A cfg now s req)) s calls"

definition mutating :: "api_request \<Rightarrow> bool" where
  "mutating req \<longleftrightarrow> (case req of Post_runs _ \<Rightarrow> True | Put_config _ _ \<Rightarrow> True | Post_stop _ _ \<Rightarrow> True | Post_scale _ _ \<Rightarrow> True
     | Post_shutdown \<Rightarrow> True | _ \<Rightarrow> False)"

lemmas guarded = handleStartRun_def handleSaveRunConfig_def handleStopRun_def handleScaleRun_def handleShutdown_def guardReadOnly_def

lemma readonly_routes: "ac_ReadOnly cfg \<Longrightarrow> snd (routes A cfg now s req) = s"
  by (cases req) (simp_all add: guarded)

lemma validateConfig_readonly: "validateConfig A (cfg\<lparr>ac_ReadOnly := b\<rparr>) = validateConfig A cfg"
proof -
  have "fresh_registry (cfg\<lparr>ac_ReadOnly := b\<rparr>) = fresh_registry cfg" by (simp add: fresh_registry_def)
  then show ?thesis unfolding validateConfig_def fun_eq_iff by metis
qed

text \<open>
  C17. A read-only dashboard cannot be used to change anything: whatever requests are sent to it,
  the coordinator, the files and the process are as before, every request that would change them
  is answered 403, and any other is answered as a dashboard that is not read-only answers it, but for
  whether it offers to shut down.
\<close>

theorem readonly_changes_nothing:
  assumes "ac_ReadOnly cfg"
  shows "serve cfg s calls = s \<and>
    (if mutating req then fst (fst (routes A cfg now s req)) = 403
     else req = Get_health \<or> routes A cfg now s req = routes A (cfg\<lparr>ac_ReadOnly := False\<rparr>) now s req)"
proof -
  have "serve cfg s calls = s"
    unfolding serve_def by (rule foldl_invariant) (auto simp: readonly_routes[OF assms])
  moreover have "if mutating req then fst (fst (routes A cfg now s req)) = 403
     else req = Get_health \<or> routes A cfg now s req = routes A (cfg\<lparr>ac_ReadOnly := False\<rparr>) now s req"
    using assms unfolding handleValidate_def
    by (cases req) (simp_all add: mutating_def guarded handleValidate_def validateConfig_readonly cong: if_cong sum.case_cong)
  ultimately show ?thesis by simp
qed

subsection \<open>Saved files\<close>

lemma save_files:
  assumes "as_files (snd (routes A cfg now s req)) \<noteq> as_files s" "\<And>path body e left. ae_WriteFile A path body = Some (e, left) \<Longrightarrow> left = None"
  obtains path body c where "as_files (snd (routes A cfg now s req)) = gput path body (as_files s)" "Parse (ae_lib A) (ae_yaml A) body = Inr c"
proof (cases req)
  case (Put_config i r)
  show thesis using assms(1) that
    by (auto simp: Put_config handleSaveRunConfig_def guardReadOnly_def Let_def dest: assms(2)
        split: if_splits option.splits sum.splits prod.splits)
qed (use assms(1) in \<open>auto simp: handleStartRun_def handleStopRun_def handleScaleRun_def handleShutdown_def guardReadOnly_def Let_def
    split: if_splits option.splits sum.splits prod.splits start_error.splits\<close>)



subsection \<open>Valid means runnable\<close>

lemma validateConfig_Valid:
  assumes "vr_Valid (validateConfig A cfg body)"
  obtains c registry runners plan executor where "Parse (ae_lib A) (ae_yaml A) body = Inr c"
    "BuildScenarios (ae_lib A) c (fresh_registry cfg) = Inr (registry, runners)" "registry \<noteq> []"
    "Plan (ae_lib A) (ae_yaml A) c = Inr plan" "NewExecutor (tp_load plan) = Inr executor"
  using assms by (auto simp: validateConfig_def invalid_def scenario_Len_def split: sum.splits prod.splits if_splits)

lemma plan_recovers:
  assumes "config_Validate L c = (None, c)" "Plan L Y c = Inr plan" "\<And>s. ya_Marshal Y c = Some s \<Longrightarrow> s \<noteq> [] \<and> ya_Unmarshal Y s = Some c"
  shows "FromPlan L Y plan = Inr c"
proof -
  obtain s where "ya_Marshal Y c = Some s" "tp_config_yaml plan = s" using assms(2) by (auto simp: Plan_def split: sum.splits option.splits)
  then show ?thesis using assms(1,3) by (simp add: FromPlan_def Parse_def)
qed

lemma run_started_fields:
  "rn_id (co_runmem (started_state E now c run peak profile) (co_runtop c)) = rn_id run"
  "rn_plan (co_runmem (started_state E now c run peak profile) (co_runtop c)) = rn_plan run"
proof -
  obtain parts c1 where d: "dispatch E (entered c run) (co_runtop c) (healthySessions E c) peak = (parts, c1)" by force
  have "co_runmem c1 = co_runmem (entered c run)"
    using d dispatching.all_runmem by (metis (no_types, lifting) dispatch_def snd_conv)
  then show "rn_id (co_runmem (started_state E now c run peak profile) (co_runtop c)) = rn_id run"
    "rn_plan (co_runmem (started_state E now c run peak profile) (co_runtop c)) = rn_plan run"
    by (simp_all add: started_state_def d setPhase_def addEvent_def setParticipants_def Let_def)
qed

text \<open>
  C11. A configuration the dashboard calls valid can be run: posted as a run to a coordinator with an
  agent and no run in progress it is accepted, the run is under way, and a worker built like this
  binary recovers from the plan the configuration that was validated and builds its scenarios.
\<close>

theorem valid_means_runnable:
  assumes "vr_Valid (validateConfig A cfg body)" "\<not> ac_ReadOnly cfg" "0 < length body" "length body \<le> maxRequestBody"
    and "\<forall>c s. ya_Marshal (ae_yaml A) c = Some s \<longrightarrow> s \<noteq> [] \<and> ya_Unmarshal (ae_yaml A) s = Some c"
    and "healthySessions (ae_runtime A) (as_coord s) \<noteq> []" "\<forall>a. co_active (as_coord s) = Some a \<longrightarrow> \<not> Active (co_runmem (as_coord s) a)"
    and "NewStore (rt_hdr (ae_runtime A)) (cf_Store (co_cfg (as_coord s))) = Some store"
  shows "\<exists>s' p c registry runners.
    routes A cfg now s (Post_runs \<lparr>rq_bytes = body, rq_err = None\<rparr>) = ((202, StartedBody (ae_NewRunID A)), s') \<and>
    Active (co_runmem (as_coord s') p) \<and> rn_id (co_runmem (as_coord s') p) = ae_NewRunID A \<and>
    Parse (ae_lib A) (ae_yaml A) body = Inr c \<and> FromPlan (ae_lib A) (ae_yaml A) (rn_plan (co_runmem (as_coord s') p)) = Inr c \<and>
    BuildScenarios (ae_lib A) c (fresh_registry cfg) = Inr (registry, runners) \<and> registry \<noteq> []"
proof -
  let ?E = "ae_runtime A" and ?L = "ae_lib A" and ?Y = "ae_yaml A" and ?c = "as_coord s"
  obtain c registry runners plan ex where v: "Parse ?L ?Y body = Inr c" "BuildScenarios ?L c (fresh_registry cfg) = Inr (registry, runners)"
    "registry \<noteq> []" "Plan ?L ?Y c = Inr plan" "NewExecutor (tp_load plan) = Inr ex" by (rule validateConfig_Valid[OF assms(1)])
  define run where "run = new_run ?c now (ae_NewRunID A) (cf_Name c) plan store ex []"
  define c' where "c' = started_state ?E now ?c run (Peak ex) (Describe ex)"
  let ?p = "co_runtop ?c"
  have st: "StartRun ?E now ?c (ae_NewRunID A) (cf_Name c) (Inr plan) [] = (Inr ?p, c')"
    using StartRun_accepts[OF v(5) assms(6) _ assms(8)] assms(7) by (simp add: c'_def run_def)
  have run: "rn_id (co_runmem c' ?p) = ae_NewRunID A" "rn_plan (co_runmem c' ?p) = plan" "Active (co_runmem c' ?p)"
    using started_phase(1)[of run ?E now ?c "Peak ex" "Describe ex"] by (simp_all add: c'_def run_started_fields run_def Active_def)
  have "FromPlan ?L ?Y plan = Inr c" using plan_recovers[OF Parse_valid[OF v(1)] v(4)] assms(5) by blast
  moreover have "routes A cfg now s (Post_runs \<lparr>rq_bytes = body, rq_err = None\<rparr>) = ((202, StartedBody (ae_NewRunID A)), s\<lparr>as_coord := c'\<rparr>)"
    using assms(2-4) v(1,4) st run(1) by (simp add: handleStartRun_def guardReadOnly_def api_readBody_def)
  ultimately show ?thesis using v run by (intro exI[of _ "s\<lparr>as_coord := c'\<rparr>"] exI[of _ ?p] exI[of _ c]) auto
qed

subsection \<open>Scaling past the wire format\<close>

lemma Largest_single: "n = 0 \<or> fits n [w] \<Longrightarrow> Largest n [w] = [n]"
proof -
  assume n: "n = 0 \<or> fits n [w]"
  obtain x where "Largest n [w] = [x]" using length_Largest[of n "[w]"] by (cases "Largest n [w]") auto
  then show ?thesis using sum_Largest[OF n] by simp
qed

lemma rebalance_single:
  assumes "Active (co_runmem c p)" "healthySessions E c = [n]" "has_room (co_mem c n)" "known_to (co_runmem c p) (se_ID (co_mem c n))"
    and "rn_peakVUs (co_runmem c p) = 0 \<or> fits (rn_peakVUs (co_runmem c p)) (session_weights (co_mem c) [n])"
  shows "\<exists>q. last (se_out (co_mem (rebalance E c p) n)) = NodeDown_SetQuota q \<and> sq_VuQuota q = word_of_int (rn_peakVUs (co_runmem c p))"
proof -
  let ?c0 = "upd_run p (\<lambda>r. r\<lparr>rn_scaleRamp := 0\<rparr>) c"
  have known: "known_to ((co_runmem c p)\<lparr>rn_scaleRamp := 0\<rparr>) = known_to (co_runmem c p)" by (simp add: known_to_def fun_eq_iff)
  have L: "Largest (rn_peakVUs (co_runmem c p)) (session_weights (co_mem c) [n]) = [rn_peakVUs (co_runmem c p)]"
    using assms(5) by (simp add: session_weights_def Largest_single)
  have room: "\<not> se_closed (co_mem c n)" "length (se_out (co_mem c n)) < se_cap (co_mem c n)" using assms(3) by (simp_all add: has_room_def)
  show ?thesis using assms(1,2,4) room
    by (simp add: rebalance_def Let_def known by_ID_def sort_by_def L rebalance_one_def session_Send_def)
qed

text \<open>
  C38. A running test can be scaled to numbers the wire cannot carry: unlike a plan, whose counts are
  refused past 32 bits, a scale request is accepted with any number of virtual users, and an agent
  on its own is told the number modulo 2^32, none at all for 4294967296.
\<close>

theorem scale_wraps_quota:
  assumes "\<not> ac_ReadOnly cfg" "api_readBody r = Inr body" "ae_scale_json A body = Inr (vus, Fin 0)" "0 \<le> vus"
    and "Lookup (as_coord s) i = Some p" "Active (co_runmem (as_coord s) p)" "healthySessions (ae_runtime A) (as_coord s) = [n]"
    and "has_room (co_mem (as_coord s) n)" "known_to (co_runmem (as_coord s) p) (se_ID (co_mem (as_coord s) n))"
    and "vus = 0 \<or> fits vus (session_weights (co_mem (as_coord s)) [n])"
  shows "\<exists>s' q. routes A cfg now s (Post_scale i r) = ((202, ScaledBody vus (Fin 0)), s') \<and>
    last (se_out (co_mem (as_coord s') n)) = NodeDown_SetQuota q \<and> uint (sq_VuQuota q) = vus mod 2 ^ 32"
proof -
  let ?E = "ae_runtime A" and ?c0 = "upd_run p (\<lambda>r. r\<lparr>rn_peakVUs := vus, rn_scaleRamp := 0\<rparr>) (as_coord s)"
  have zero: "seconds_duration (ae_report A) (Fin 0) = 0"
    by (simp add: seconds_duration_def fl_def rnd64_def rat_trunc_def in_i64_def)
  obtain c' e where sc: "ScaleRun ?E now (as_coord s) i vus 0 = (None, c')" "c' = record_event ?E now (rebalance ?E ?c0 p) p e"
    using assms(4-6) by (simp add: ScaleRun_def Let_def)
  have hs: "healthySessions ?E ?c0 = [n]" "known_to (co_runmem ?c0 p) (se_ID (co_mem ?c0 n))" "Active (co_runmem ?c0 p)"
    using assms(6,7,9) by (simp_all add: healthySessions_def known_to_def Active_def)
  have "\<exists>q. last (se_out (co_mem (rebalance ?E ?c0 p) n)) = NodeDown_SetQuota q \<and> sq_VuQuota q = word_of_int vus"
    using rebalance_single[OF hs(3,1) _ hs(2)] assms(8,10) by simp
  then obtain q where q: "last (se_out (co_mem c' n)) = NodeDown_SetQuota q" "sq_VuQuota q = word_of_int vus" by (auto simp: sc(2))
  have "routes A cfg now s (Post_scale i r) = ((202, ScaledBody vus (Fin 0)), s\<lparr>as_coord := c'\<rparr>)"
    using assms(1-4) sc(1) by (simp add: handleScaleRun_def guardReadOnly_def zero)
  then show ?thesis using q by (intro exI[of _ "s\<lparr>as_coord := c'\<rparr>"] exI[of _ q]) (simp add: uint_word_of_int)
qed


subsection \<open>The log\<close>

lemma encode_rune_bytes: "r < 0x140000 \<Longrightarrow> c \<in> set (encode_rune r) \<Longrightarrow> byte c < 128 \<Longrightarrow> byte c = r"
  by (auto simp: encode_rune_def byte_char_of split: if_splits)

lemma runes_of_length: "length (runes_of bs) \<le> length bs"
proof (induction bs rule: runes_of.induct)
  case (2 b bs)
  have "0 < snd (decode_rune (b # bs))" using decode_rune_width[of b bs] by blast
  then have "length (drop (snd (decode_rune (b # bs))) (b # bs)) \<le> length bs" by (simp del: decode_rune.simps)
  then show ?case using 2 by (simp del: decode_rune.simps length_drop)
qed simp

lemma length_concat_le: "(\<And>x. x \<in> set xs \<Longrightarrow> length (f x) \<le> k) \<Longrightarrow> length (concat (map f xs)) \<le> k * length xs"
  by (induction xs) (auto simp: add_le_mono)

lemma replacement: "encode_rune rune_error = map char_of [239, 191, 189 :: nat]"
  by (simp add: encode_rune_def rune_error_def)

lemma replace_char_length: "length new = 3 \<Longrightarrow> length (replace_char c new s) \<le> 3 * length s"
  unfolding replace_char_def by (rule length_concat_le) simp

lemma strings_Map_length: "length (strings_Map f s) \<le> 4 * length s"
proof -
  have "length (strings_Map f s) \<le> 4 * length (go_runes s)"
    unfolding strings_Map_def using encode_rune_length by (intro length_concat_le) blast
  then show ?thesis using runes_of_length[of "map byte s"] by (simp add: go_runes_def)
qed

text \<open>
  Nothing in a request path can break out of its log entry: what is logged has no control byte (no
  newline, carriage return or escape), whatever bytes the client sent, and its length is bounded.
\<close>

theorem logPath_safe:
  "(\<forall>c \<in> set (logPath path). 32 \<le> byte c \<and> byte c \<noteq> 127) \<and> length (logPath path) \<le> 36 * maxLoggedPath + 3"
proof -
  define t where "t = (if length path > maxLoggedPath then take maxLoggedPath path else path)"
  define u where "u = replace_char (CHR 0x0D) (encode_rune rune_error) (replace_char (CHR 0x0A) (encode_rune rune_error) t)"
  define m where "m = strings_Map (\<lambda>c. if IsControl c then rune_error else c) u"
  have lp: "logPath path = (if length path > maxLoggedPath then m @ map char_of [226, 128, 166 :: nat] else m)"
    by (simp add: logPath_def t_def u_def m_def Let_def)
  have "length t \<le> maxLoggedPath" by (simp add: t_def)
  then have len: "length m \<le> 36 * maxLoggedPath"
    using replace_char_length[of "encode_rune rune_error" "CHR 0x0A" t] replace_char_length[of "encode_rune rune_error" "CHR 0x0D" "replace_char (CHR 0x0A) (encode_rune rune_error) t"]
      strings_Map_length[of "\<lambda>c. if IsControl c then rune_error else c" u] by (simp add: replacement m_def u_def)
  have "32 \<le> byte c \<and> byte c \<noteq> 127" if c: "c \<in> set m" for c
  proof -
    obtain r where r: "r \<in> set (go_runes u)" "c \<in> set (encode_rune (if IsControl r then rune_error else r))"
      using c by (auto simp: m_def strings_Map_def)
    let ?r = "if IsControl r then rune_error else r"
    have b: "?r < 0x140000" using go_runes_bound[OF r(1)] by (simp add: rune_error_def)
    have "\<not> IsControl ?r" by (simp add: IsControl_def rune_error_def)
    then show ?thesis using encode_rune_bytes[OF b r(2)] by (cases "byte c < 128") (auto simp: IsControl_def)
  qed
  moreover have "32 \<le> byte c \<and> byte c \<noteq> 127" if "c \<in> set (map char_of [226, 128, 166 :: nat])" for c
    using that by (auto simp: byte_char_of)
  ultimately show ?thesis using len by (auto simp: lp)
qed


subsection \<open>Forms\<close>

interpretation string_less: go_less "(<) :: string \<Rightarrow> string \<Rightarrow> bool"
  by unfold_locales auto

lemma sort_by_less_unique:
  assumes "distinct xs" "distinct ys" "set xs = set ys"
  shows "sort_by (<) xs = sort_by (<) (ys :: string list)"
proof (rule sorted_distinct_set_unique)
  have "sorted (sort_by (<) zs)" for zs :: "string list" using string_less.sorted_sort_by[of zs] by (simp add: not_less)
  then show "sorted (sort_by (<) xs)" "sorted (sort_by (<) ys)" by blast+
qed (simp_all add: assms)

text \<open>
  A form shows a map in one order: the rows are the pairs of the map, each once, by ascending key,
  whatever order the map is walked in.
\<close>

theorem pairsFromMap_stable:
  assumes "gowf m" "gowf m'" "map_of m = map_of m'"
  shows "pairsFromMap m = pairsFromMap m' \<and> sorted (map dp_Key (pairsFromMap m)) \<and>
    set (map (\<lambda>p. (dp_Key p, dp_Value p)) (pairsFromMap m)) = set m \<and> length (pairsFromMap m) = length m"
proof -
  have d: "distinct (map fst m)" "distinct (map fst m')" using assms(1,2) by (simp_all add: gowf_def)
  have k: "set (map fst m) = set (map fst m')" using arg_cong[OF assms(3), of dom] by (simp add: dom_map_of_conv_image_fst)
  have u: "sort_by (<) (map fst m) = sort_by (<) (map fst m')" by (rule sort_by_less_unique[OF d k])
  have l: "length m = length m'" using d k by (metis distinct_card length_map)
  have p: "pairsFromMap n = map (\<lambda>k. \<lparr>dp_Key = k, dp_Value = the (map_of n k)\<rparr>) (sort_by (<) (map fst n))" for n
    by (simp add: pairsFromMap_def sort_by_def)
  have "sorted (sort_by (<) (map fst m))" using string_less.sorted_sort_by[of "map fst m"] by (simp add: not_less)
  moreover have "(\<lambda>k. (k, the (map_of m k))) ` fst ` set m = set m" using d(1) by (force simp: image_iff)
  ultimately show ?thesis using l by (simp add: p u[symmetric] assms(3)[symmetric] comp_def image_image)
qed

subsection \<open>Witnesses\<close>

definition demo_api_yaml :: yaml_codec where
  "demo_api_yaml = \<lparr>ya_Unmarshal = (\<lambda>_. Some demo_config), ya_Marshal = (\<lambda>c. if c = demo_config then Some ''yaml'' else None)\<rparr>"

definition demo_env :: "(list_hist, string) api_env" where
  "demo_env = \<lparr>ae_runtime = demo_runtime, ae_lib = demo_lib, ae_yaml = demo_api_yaml, ae_report = demo_report_lib, ae_ticks = (\<lambda>x. x),
     ae_cfg_text = (\<lambda>_. []), ae_build_text = (\<lambda>_. []), ae_exec_text = (\<lambda>_. []), ae_start_text = (\<lambda>_. []), ae_run_text = (\<lambda>_. []),
     ae_stop_json = (\<lambda>_. Inr (None, [])), ae_scale_json = (\<lambda>_. Inr (2 ^ 32, Fin 0)), ae_Marshal = (\<lambda>_. None), ae_FormatFloat = (\<lambda>_. []),
     ae_WriteFile = (\<lambda>_ _. None), ae_Render = (\<lambda>_. None), ae_NewRunID = ''run''\<rparr>"

definition demo_api_config :: api_config where
  "demo_api_config = \<lparr>ac_ReadOnly = False, ac_OnShutdown = True,
     ac_Registry = Some [(''browse'', \<lparr>sc_Name = ''browse'', sc_Weight = 1, sc_Description = [], sc_HasRun = True\<rparr>)]\<rparr>"

definition demo_api :: "list_hist Coordinator \<Rightarrow> list_hist api_state" where
  "demo_api c = \<lparr>as_coord = c, as_files = [(''test.yaml'', ''text'')], as_shutdowns = []\<rparr>"

definition demo_body :: request_body where
  "demo_body = \<lparr>rq_bytes = ''{}'', rq_err = None\<rparr>"

theorem readonly_changes_nothing_witness:
  "serve (demo_api_config\<lparr>ac_ReadOnly := True\<rparr>) (demo_api demo_running) [(demo_env, 1, Post_stop ''run'' demo_body), (demo_env, 2, Post_shutdown)] =
     demo_api demo_running \<and>
   fst (fst (routes demo_env (demo_api_config\<lparr>ac_ReadOnly := True\<rparr>) 1 (demo_api demo_running) (Post_stop ''run'' demo_body))) = 403"
  using readonly_changes_nothing[of "demo_api_config\<lparr>ac_ReadOnly := True\<rparr>" "demo_api demo_running"
      "[(demo_env, 1, Post_stop ''run'' demo_body), (demo_env, 2, Post_shutdown)]" "Post_stop ''run'' demo_body" demo_env 1]
  by (simp add: mutating_def)


theorem pairsFromMap_stable_witness:
  "pairsFromMap [(''b'', ''2''), (''a'', ''1'')] = pairsFromMap [(''a'', ''1''), (''b'', ''2'')]"
  using pairsFromMap_stable[of "[(''b'', ''2''), (''a'', ''1'')]" "[(''a'', ''1''), (''b'', ''2'')]"]
  by (simp add: gowf_def fun_upd_twist)

lemma demo_api_valid:
  "Parse demo_lib demo_api_yaml body = Inr demo_config" "vr_Valid (validateConfig demo_env demo_api_config body)"
proof -
  show p: "Parse demo_lib demo_api_yaml body = Inr demo_config" by (simp add: Parse_def demo_api_yaml_def demo_config_valid)
  have b: "BuildScenarios demo_lib demo_config r = Inr (r, [])" for r
    by (simp add: BuildScenarios_def demo_config_def zero_Config_def)
  obtain plan where pl: "Plan demo_lib demo_api_yaml demo_config = Inr plan" "tp_load plan = Some \<lparr>lp_executor = EXECUTOR_TYPE_CONSTANT_VUS,
      lp_vus = 3, lp_duration = 10 * time_Second, lp_stages = [], lp_max_iterations_per_second = 0, lp_graceful_stop = 0, lp_iterations = 0\<rparr>"
    by (simp add: Plan_def demo_api_yaml_def) (simp add: demo_config_def zero_Config_def zero_LoadConfig_def asUint32_def plan_load_def)
  have r: "scenario_Len (fresh_registry demo_api_config) = 1"
    by (simp add: fresh_registry_def demo_api_config_def scenario_Clone_def scenario_Len_def)
  show "vr_Valid (validateConfig demo_env demo_api_config body)"
    using p pl r by (simp add: validateConfig_def demo_env_def b NewExecutor_def newConstantVUs_def)
qed

theorem valid_means_runnable_witness:
  "\<exists>s' p. routes demo_env demo_api_config 1 (demo_api demo_joined) (Post_runs demo_body) = ((202, StartedBody ''run''), s') \<and>
     Active (co_runmem (as_coord s') p) \<and> FromPlan demo_lib demo_api_yaml (rn_plan (co_runmem (as_coord s') p)) = Inr demo_config"
proof -
  have y: "\<forall>c s. ya_Marshal (ae_yaml demo_env) c = Some s \<longrightarrow> s \<noteq> [] \<and> ya_Unmarshal (ae_yaml demo_env) s = Some c"
    by (simp add: demo_env_def demo_api_yaml_def)
  have e: "ae_runtime demo_env = demo_runtime" "ae_lib demo_env = demo_lib" "ae_yaml demo_env = demo_api_yaml" "ae_NewRunID demo_env = ''run''"
    "as_coord (demo_api c) = c" for c by (simp_all add: demo_env_def demo_api_def)
  have st: "NewStore (rt_hdr (ae_runtime demo_env)) (cf_Store (co_cfg (as_coord (demo_api demo_joined)))) = Some demo_store"
    using demo_store_New by (simp add: e demo_joined_facts) (simp add: demo_runtime_def)
  show ?thesis
    using valid_means_runnable[OF demo_api_valid(2) _ _ _ y _ _ st, of "''{}''" 1]
    by (simp add: e demo_api_valid(1) demo_joined_facts demo_healthy demo_body_def maxRequestBody_def) (simp add: demo_api_config_def, blast)
qed

text \<open>One agent that runs its share of a run.\<close>

definition demo_scaled :: "list_hist Coordinator" where
  "demo_scaled = demo_joined\<lparr>co_runs := [(''run'', 0)], co_runmem := \<lambda>_. demo_feed_run\<lparr>rn_participants := [(''a'',
     \<lparr>pa_AgentID = ''a'', pa_VUQuota = 1, pa_RateQuota = 0, pa_ShardIndex = 0, pa_Phase = PhaseRunning, pa_Message = [], pa_Dispatched = True\<rparr>)]\<rparr>\<rparr>"

lemma demo_scaled_facts:
  "Lookup demo_scaled ''run'' = Some 0" "Active (co_runmem demo_scaled 0)" "healthySessions demo_runtime demo_scaled = [0]"
  "has_room (co_mem demo_scaled 0)" "known_to (co_runmem demo_scaled 0) (se_ID (co_mem demo_scaled 0))"
  "fits (2 ^ 32) (session_weights (co_mem demo_scaled) [0])"
proof -
  have m: "co_mem demo_scaled 0 = demo_session" by (simp add: demo_scaled_def demo_joined_facts)
  have s: "se_ID demo_session = ''a''" "has_room demo_session" "nh_MaxVus (se_Hello demo_session) = 100"
    by (simp_all add: has_room_def) (simp add: demo_session_def new_session_def demo_hello_def)
  show "Lookup demo_scaled ''run'' = Some 0" "Active (co_runmem demo_scaled 0)"
    by (simp_all add: demo_scaled_def Lookup_def demo_feed_run_def newRun_def Active_def)
  show "healthySessions demo_runtime demo_scaled = [0]" using demo_healthy(1) by (simp add: healthySessions_def demo_scaled_def)
  show "has_room (co_mem demo_scaled 0)" by (simp add: m s)
  show "known_to (co_runmem demo_scaled 0) (se_ID (co_mem demo_scaled 0))" by (simp add: m s known_to_def) (simp add: demo_scaled_def)
  show "fits (2 ^ 32) (session_weights (co_mem demo_scaled) [0])" by (simp add: session_weights_def m s fits_def pos_sum_def)
qed

theorem scale_wraps_quota_witness:
  "\<exists>s' q. routes demo_env demo_api_config 3 (demo_api demo_scaled) (Post_scale ''run'' demo_body) = ((202, ScaledBody (2 ^ 32) (Fin 0)), s') \<and>
     last (se_out (co_mem (as_coord s') 0)) = NodeDown_SetQuota q \<and> uint (sq_VuQuota q) = 0"
proof -
  have e: "ae_runtime demo_env = demo_runtime" "ae_scale_json demo_env ''{}'' = Inr (2 ^ 32, Fin 0)" "as_coord (demo_api demo_scaled) = demo_scaled"
    "\<not> ac_ReadOnly demo_api_config" by (simp_all add: demo_env_def demo_api_def demo_api_config_def)
  have b: "api_readBody demo_body = Inr ''{}''" by (simp add: api_readBody_def demo_body_def maxRequestBody_def)
  show ?thesis
    using scale_wraps_quota[OF e(4) b e(2), of "demo_api demo_scaled" "''run''" 0 0 3] demo_scaled_facts by (simp add: e(1,3))
qed

end
