(* ===== verification/Spec2Isabelle.thy ===== *)
theory Spec2Isabelle
  imports LiveFeed AgentProps WorkerProps Api
begin

text \<open>
  A verification library for LoadWave, a distributed HTTP load generator written in Go.

  \<^bold>\<open>The program.\<close> A coordinator (\<open>internal/coordinator\<close>) accepts a test plan, divides it among
  the agents that are connected to it, collects what they measure, publishes it and judges it
  against thresholds. An agent (\<open>internal/agent\<close>), one per host, divides its share among worker
  processes it starts and supervises, and passes their reports on. A worker
  (\<open>internal/worker\<close>) builds an engine (\<open>internal/engine\<close>) from the command it gets; the engine
  keeps as many virtual users as its share of the load profile asks for, each of which runs a
  scenario again and again (\<open>pkg/loadwave\<close>), and every observation goes to a sharded recorder
  (\<open>internal/metrics\<close>) that the worker flushes into batches. Node and supervisor talk over one
  stream (\<open>internal/control\<close>). A test is a YAML file (\<open>internal/scenario\<close>): from it come the plan,
  the settings of the HTTP client and the scenarios written as lists of steps. Flags of the command
  line (\<open>internal/cli\<close>) override the file, a dashboard (\<open>internal/httpapi\<close>) starts, scales and stops
  runs, and a run ends with a report (\<open>internal/report\<close>).

  \<^bold>\<open>The theories\<close>, in the order of their dependencies:

  \<^item> \<open>GoPrelude\<close>: Go's integers, times, maps and sorting; \<open>Float64\<close>: binary64 on rationals;
    \<open>Utf8\<close>, \<open>GoFmt\<close>, \<open>Durations\<close>: runes, formatting and parsing of the standard library, with
    \<open>ParsePause\<close> and \<open>parseThink\<close>. They hold the shared lemmas, the collections \<open>go_simps\<close> and
    \<open>gomap_simps\<close>, and the contracts (locales) \<open>bounded_log\<close> and of rounding.
  \<^item> \<open>Apportion\<close>, \<open>Idspace\<close>, \<open>Executor\<close> (\<open>apportion.go\<close>, \<open>idspace.go\<close>, \<open>executor.go\<close>): shares add up to
    the total, id blocks are disjoint, profiles stay in range.
  \<^item> \<open>Labels\<close>, \<open>Histogram\<close>, \<open>Aggregate\<close>, \<open>Failures\<close>, \<open>Recorder\<close> (\<open>labels.go\<close> and \<open>internal/metrics\<close>): what is
    recorded on a node. Merging is exact, the wire form is lossless, and under any interleaving of
    recording and flushing nothing is lost or counted twice.
  \<^item> \<open>Store\<close>, \<open>StoreViews\<close>, \<open>Thresholds\<close> (\<open>store.go\<close>, \<open>threshold.go\<close>): what the coordinator keeps of a
    run; the views agree with each other and the verdicts with the views.
  \<^item> \<open>RunState\<close>, \<open>Channels\<close>, \<open>Sessions\<close>, \<open>Client\<close>, \<open>LiveFeed\<close>, \<open>Coordinator\<close>, \<open>CoordinatorProps\<close> (\<open>run.go\<close>,
    \<open>internal/control\<close>, \<open>stream.go\<close>, \<open>coordinator.go\<close>): the life of a run as steps of the coordinator,
    with invariants by induction over the reachable states.
  \<^item> \<open>VirtualUser\<close>, \<open>Engine\<close>, \<open>EngineProps\<close> (\<open>vu.go\<close>, \<open>scenario.go\<close>, \<open>pause.go\<close>, \<open>engine.go\<close>): the pool of
    virtual users as a step relation over the control loop, the users' goroutines, the timers
    and the operator.
  \<^item> \<open>Template\<close>, \<open>JsonPath\<close>, \<open>Http\<close>, \<open>Config\<close>, \<open>Declarative\<close> (\<open>template.go\<close>, \<open>jsonpath.go\<close>, \<open>http.go\<close>,
    \<open>failure.go\<close>, \<open>config.go\<close>, \<open>declarative.go\<close>): from a test file to the requests of an iteration.
    Round trips of the texts, a plan with the numbers that were written, the configuration a
    worker recovers, the scenarios it registers, and what a request records and waits.
  \<^item> \<open>Agent\<close>, \<open>Supervisor\<close>, \<open>AgentProps\<close>, \<open>Worker\<close>, \<open>WorkerProps\<close> (\<open>agent.go\<close>, \<open>worker.go\<close>): the other two
    roles of the control protocol. \<open>Supervisor\<close> states the contract coordinator and agent share as
    a locale, interpreted on both.
  \<^item> \<open>Flags\<close>, \<open>Report\<close>, \<open>Api\<close> (\<open>cli/config.go\<close>, \<open>internal/report\<close>, \<open>internal/httpapi\<close>): how a test reaches the
    coordinator and what is shown of it. Flags laid over a file give a valid configuration with the
    numbers that were written; the charts use every point once and stay inside the plot, and the
    exit code follows the verdict; the handlers of the REST interface are functions on the
    coordinator's state: a read-only server changes nothing, a saved file parses, and a
    configuration called valid can be started and built.
  \<^item> This theory: what holds of the whole fleet. At its peak a profile is met exactly by the sum of
    all engines; a rate limit below the number of workers is not kept.

  \<^bold>\<open>Conventions.\<close> A struct is a record, a pointer to shared state an address in a memory that is a
  function, a Go map an association list without duplicate keys (\<open>gowf\<close>), listed in the order
  a \<open>range\<close> visits it; where the order matters and can differ from one loop to the next it is an
  argument. \<open>int64\<close>, \<open>int\<close> and durations are integers with the wrap-around written out
  (\<open>i64\<close>), unsigned integers are words. A panic is \<open>None\<close>, an error \<open>Inl\<close> or an option. A method
  that holds a mutex from start to end is one function, and so is the code between two points
  where a goroutine waits; what is started with \<open>go\<close> is a later step. One reading of the clock
  per call is enough where a method reads it several times in a row. \<open>sort.Slice\<close> is an insertion
  sort, positive and negative zero are one value. A context is the flag or the time of its end.
  All recursive definitions terminate, so there is no fuel; loops that run until the program
  stops are step relations.

  \<^bold>\<open>Arguments.\<close> Code outside the repository is an argument of the definitions that use it: the HDR
  histogram library (\<open>hdr\<close>), the hash of \<open>maphash\<close>, random numbers and bytes, the platform's
  conversion of out-of-range floats and its fused multiplication (\<open>platform\<close>), the formatting
  of floats, times and quoted strings (\<open>report_lib\<close>), the parsing of floats, YAML (\<open>yaml_codec\<close>), JSON (\<open>json_codec\<close>), \<open>net/url\<close> and the
  Unicode tables (\<open>http_lib\<close>), the reading and writing of
  files and the texts of errors (\<open>api_env\<close>), the transport and what \<open>errors.Is\<close> finds (\<open>do_env\<close>), the host, the
  processes and their figures (\<open>host\<close>, \<open>runtime\<close>, \<open>worker_env\<close>, \<open>flush_env\<close>). The hooks of a compiled
  scenario are user code: in the engine they are any sequence of calls of the virtual user.

  \<^bold>\<open>Not modelled.\<close> Code that does no more than input and output: listening, dialling and the
  wiring of the processes (\<open>cmd\<close> and the commands of \<open>internal/cli\<close>, which print what the modelled parts
  return), the WebSocket connection and the embedded web application of \<open>internal/httpapi\<close> (the
  updates themselves are those of \<open>LiveFeed\<close>), the HTML template of \<open>internal/report\<close>,
  process figures read from the operating system (\<open>internal/procstats\<close>), build information,
  generated protocol code (\<open>gen\<close>), the web application's TypeScript and the examples. Of
  \<open>sync\<close>, \<open>context\<close> and the scheduler only what the conventions above say is modelled; there is
  no weak memory and no timing of the steps themselves.
\<close>

section \<open>The fleet\<close>

text \<open>
  What the agent of a session has done with the start command it got there: the run it set up is
  that of the command, none of its workers has been told yet, and their queues have room.
\<close>

definition follows :: "Session \<Rightarrow> host \<Rightarrow> Agent \<Rightarrow> bool" where
  "follows s HO a \<longleftrightarrow> orders (ho_sessions HO) \<and> registry_ok (an_mem a) (an_workers a) \<and> an_workers a \<noteq> [] \<and>
     length (an_workers a) < 2 ^ 30 \<and> (\<forall>w \<in> snd ` set (an_workers a). has_room (an_mem a w)) \<and>
     (\<exists>m ref. last (se_out s) = NodeDown_StartRun m \<and> an_run a = Some (new_runState ref m))"

text \<open>The engine a worker process builds from the command it got last.\<close>

definition builds :: "worker_env \<Rightarrow> Session \<Rightarrow> 'v Engine \<Rightarrow> bool" where
  "builds E s e \<longleftrightarrow> (\<exists>m (w :: (unit, 'v) Worker) run. last (se_out s) = NodeDown_StartRun m \<and>
     worker_build E w (Some (sr_Plan m)) m = Inr run \<and> ar_engine run = e)"

lemma last_deliver: "has_room s \<Longrightarrow> last (se_out (deliver msg s)) = msg"
  by (simp add: has_room_def deliver_def)

lemma Peak_u32: "NewExecutor profile = Inr ex \<Longrightarrow> Peak ex < 2 ^ 32"
proof -
  have "r_peak r < 2 ^ 32 \<Longrightarrow> ramp_stages i r stages = Inr r' \<Longrightarrow> r_peak r' < 2 ^ 32" for i r stages r'
  proof (induction i r stages rule: ramp_stages.induct)
    case (2 i r stage stages)
    then show ?case using uint_lt2p[of "st_target stage"] by (auto simp: Let_def split: if_splits)
  qed simp
  note ramp = this[of "\<lparr>r_legs = [], r_total = 0, r_peak = 0\<rparr>", simplified]
  assume "NewExecutor profile = Inr ex"
  then show ?thesis
    using uint_lt2p[of "lp_vus (the profile)"]
    by (auto simp: NewExecutor_def newConstantVUs_def newRampingVUs_def Let_def
        split: option.splits executor_type.splits if_splits sum.splits dest: ramp)
qed

lemma share_exact:
  assumes "n = 0 \<or> fits n ws" "n < 2 ^ 32" "s \<in> set (Largest n ws)"
  shows "uint (word_of_int s :: u32) = s"
proof -
  have "0 \<le> s" using Largest_nonneg[OF assms(1,3)] .
  moreover have "s \<le> sum_list (Largest n ws)"
    using Largest_nonneg[OF assms(1)] assms(3) by (intro sum_list_ge_member) auto
  then have "s < 2 ^ 32" using sum_Largest[OF assms(1)] assms(2) by simp
  ultimately show ?thesis by (simp add: uint_word_of_int take_bit_eq_mod)
qed

lemma builds_engine:
  assumes "builds E s e" "last (se_out s) = NodeDown_StartRun m"
  obtains reg where "engine_New (we_hash E) (engine_config (sr_Plan m) reg m) = Inr e"
proof -
  obtain w :: "(unit, 'a) Worker" and run where "worker_build E w (Some (sr_Plan m)) m = Inr run" "ar_engine run = e"
    using assms by (auto simp: builds_def)
  then show thesis using that by (auto simp: worker_build_def split: sum.splits option.splits prod.splits)
qed

lemma built_target:
  assumes "builds E s e" "last (se_out s) = NodeDown_StartRun m" "NewExecutor (tp_load (sr_Plan m)) = Inr ex" "TargetAt P ex t = Peak ex" "0 < Peak ex"
  shows "scaled_TargetAt P (en_executor e) t = uint (sr_VuQuota m)"
proof -
  obtain reg where "engine_New (we_hash E) (engine_config (sr_Plan m) reg m) = Inr e" by (rule builds_engine[OF assms(1,2)])
  then have "en_executor e = newScaled ex (uint (sr_VuQuota m))"
    using engine_New_fields(7)[of "we_hash E" "engine_config (sr_Plan m) reg m" e] assms(3) by (auto simp: engine_config_def)
  then show ?thesis using assms(4,5)
    by (auto simp: newScaled_def scaled_TargetAt_def quotaAt_def scale_share_def Let_def)
qed

lemma sum_list_by_ID: "sum_list (map f (by_ID mem ps)) = sum_list (map f ps)" for f :: "sref \<Rightarrow> int"
  by (rule mset_eq_sum_list_map) (simp add: by_ID_def)

text \<open>One agent's workers together carry its quota.\<close>

lemma agent_total:
  assumes f: "follows s HO a" and m: "last (se_out s) = NodeDown_StartRun m"
    and ex: "NewExecutor (tp_load (sr_Plan m)) = Inr ex" "TargetAt P ex t = Peak ex" "0 < Peak ex"
    and e: "\<And>w. w \<in> snd ` set (an_workers a) \<Longrightarrow> builds (E w) (an_mem (agent_rebalance HO a) w) (eng w)"
  shows "(\<Sum>w\<leftarrow>registry_All (ho_sessions HO) (an_workers a). scaled_TargetAt P (en_executor (eng w)) t) = uint (sr_VuQuota m)"
proof -
  obtain ref where run: "an_run a = Some (new_runState ref m)" using f m by (auto simp: follows_def)
  let ?run = "new_runState ref m"
  define ss where "ss = by_ID (an_mem a) (registry_All (ho_sessions HO) (an_workers a))"
  define ws :: "int list" where "ws = replicate (length ss) 1"
  have reg: "registry_ok (an_mem a) (an_workers a)" "orders (ho_sessions HO)" "an_workers a \<noteq> []" "length (an_workers a) < 2 ^ 30"
    and room: "\<And>w. w \<in> snd ` set (an_workers a) \<Longrightarrow> has_room (an_mem a w)" using f by (auto simp: follows_def)
  note ord = workers_in_order[OF reg(1,2) ss_def]
  define q vs where "q = uint (sr_VuQuota m)" and "vs = Largest q ws"
  have q: "0 \<le> q" "q < 2 ^ 32" using uint_lt2p[of "sr_VuQuota m"] by (simp_all add: q_def)
  have fit: "q = 0 \<or> fits q ws" unfolding ws_def using fits_equal[OF q, of "length ss"] reg(3,4) ord(3) by auto
  have len: "length vs = length ss" by (simp add: vs_def ws_def)
  have "scaled_TargetAt P (en_executor (eng (ss ! k))) t = vs ! k" if k: "k < length ss" for k
  proof -
    have w: "ss ! k \<in> snd ` set (an_workers a)" using ord(2) k nth_mem by blast
    obtain rate iters where c: "an_mem (agent_rebalance HO a) (ss ! k) =
        deliver (NodeDown_StartRun (worker_start ?run k (vs ! k) rate iters)) (an_mem a (ss ! k))"
      using agent_rebalance_spec[OF reg(1,2) run reg(3) ss_def ws_def] k
      by (auto simp: worker_command_def new_runState_def vs_def q_def)
    have l: "last (se_out (an_mem (agent_rebalance HO a) (ss ! k))) = NodeDown_StartRun (worker_start ?run k (vs ! k) rate iters)"
      unfolding c by (rule last_deliver[OF room[OF w]])
    have "vs ! k \<in> set (Largest q ws)" using k len by (simp flip: vs_def)
    from share_exact[OF fit q(2) this] show ?thesis
      using built_target[OF e[OF w] l _ ex(2,3)] ex(1) by (simp add: worker_start_def new_runState_def)
  qed
  then have "map (\<lambda>w. scaled_TargetAt P (en_executor (eng w)) t) ss = vs" using len by (intro nth_equalityI) simp_all
  then have "(\<Sum>w\<leftarrow>ss. scaled_TargetAt P (en_executor (eng w)) t) = q" using sum_Largest[OF fit] by (simp add: vs_def)
  then show ?thesis unfolding ss_def sum_list_by_ID by (simp add: q_def)
qed

text \<open>
  C1. The fleet meets the profile: after a run is accepted, when every healthy agent has its start
  command and has divided it among its workers, and every worker has built its engine from the
  command it was sent, then at any instant where the profile is at its peak the targets of all
  engines of all workers of all agents add up to exactly that peak.
\<close>

theorem fleet_meets_peak:
  assumes "co_steps C (coord_New mem runmem cfg) c" and "orders (rt_sessions C)"
    and "Coordinator.StartRun C now c i name (Inr plan) source = (Inr p, c')" and "NewExecutor (tp_load plan) = Inr ex"
    and "fits (Peak ex) (session_weights (co_mem c) (by_ID (co_mem c) (healthySessions C c)))"
    and "\<And>s. s \<in> set (healthySessions C c) \<Longrightarrow> has_room (co_mem c s) \<and> follows (co_mem c' s) (HO s) (agent s)"
    and "\<And>s w. s \<in> set (healthySessions C c) \<Longrightarrow> w \<in> snd ` set (an_workers (agent s)) \<Longrightarrow>
      builds (E s w) (an_mem (agent_rebalance (HO s) (agent s)) w) (eng s w)"
    and "TargetAt P ex t = Peak ex"
  shows "(\<Sum>s\<leftarrow>healthySessions C c. \<Sum>w\<leftarrow>registry_All (ho_sessions (HO s)) (an_workers (agent s)).
      scaled_TargetAt P (en_executor (eng s w)) t) = Peak ex"
proof -
  define ss where "ss = by_ID (co_mem c) (healthySessions C c)"
  define ws where "ws = session_weights (co_mem c) ss"
  define shares where "shares = Largest (Peak ex) ws"
  have fit: "Peak ex = 0 \<or> fits (Peak ex) ws" and pos: "0 < Peak ex" using assms(5) by (auto simp: ws_def ss_def fits_def)
  have len: "length shares = length ss" by (simp add: shares_def ws_def)
  have m: "\<exists>m. sr_Plan m = plan \<and> sr_VuQuota m = word_of_int (shares ! k) \<and>
      co_mem c' (ss ! k) = deliver (NodeDown_StartRun m) (co_mem c (ss ! k))" if "k < length ss" for k
    by (rule StartRun_hands_out[OF assms(1-4) ss_def shares_def[unfolded ws_def]]) (use that in blast)
  have "(\<Sum>w\<leftarrow>registry_All (ho_sessions (HO (ss ! k))) (an_workers (agent (ss ! k))).
      scaled_TargetAt P (en_executor (eng (ss ! k) w)) t) = shares ! k" if k: "k < length ss" for k
  proof -
    have s: "ss ! k \<in> set (healthySessions C c)" using nth_mem[OF k] by (simp add: ss_def by_ID_def)
    obtain m where m: "sr_Plan m = plan" "sr_VuQuota m = word_of_int (shares ! k)"
        "co_mem c' (ss ! k) = deliver (NodeDown_StartRun m) (co_mem c (ss ! k))" using m[OF k] by blast
    have l: "last (se_out (co_mem c' (ss ! k))) = NodeDown_StartRun m"
      unfolding m(3) using assms(6)[OF s] by (simp add: last_deliver)
    have "shares ! k \<in> set (Largest (Peak ex) ws)" using k len by (simp flip: shares_def)
    from share_exact[OF fit Peak_u32[OF assms(4)] this] show ?thesis
      using agent_total[of "co_mem c' (ss ! k)" "HO (ss ! k)" "agent (ss ! k)" m ex P t "E (ss ! k)" "eng (ss ! k)", OF _ l] assms(4,6,7,8) s m(1,2) pos by simp
  qed
  then have "map (\<lambda>s. \<Sum>w\<leftarrow>registry_All (ho_sessions (HO s)) (an_workers (agent s)). scaled_TargetAt P (en_executor (eng s w)) t) ss = shares"
    using len by (intro nth_equalityI) simp_all
  then have "sum_list (map (\<lambda>s. \<Sum>w\<leftarrow>registry_All (ho_sessions (HO s)) (an_workers (agent s)). scaled_TargetAt P (en_executor (eng s w)) t) ss) = Peak ex"
    using sum_Largest[OF fit] by (simp add: shares_def)
  then show ?thesis unfolding ss_def sum_list_by_ID .
qed

subsection \<open>Shares of zero\<close>

lemma some_share_zero:
  assumes "fits n ws" "n < int (length ws)"
  shows "\<exists>k < length ws. Largest n ws ! k = 0"
proof (rule ccontr)
  assume "\<not> ?thesis"
  then have "Largest n ws ! k \<noteq> 0" if "k < length ws" for k using that by blast
  then have ge: "1 \<le> x" if "x \<in> set (Largest n ws)" for x
    using that Largest_nonneg[of n ws x] assms(1) by (auto simp: in_set_conv_nth) (metis less_eq_int_code(1) order_le_less zless_imp_add1_zle add_0)
  have "int (length xs) \<le> sum_list xs" if "\<forall>x \<in> set xs. 1 \<le> x" for xs :: "int list" using that by (induction xs) auto
  from this[of "Largest n ws"] ge show False using Largest_total[OF assms(1)] assms(2) by simp
qed

text \<open>
  C34. A small rate limit is lost on the way down: when an agent has more workers than iterations per
  second to hand out, some worker is sent a rate of zero, and the engine it builds from that
  command has no rate limiter at all, so the limit the plan asks for is not kept.
\<close>

theorem small_rate_unlimited:
  assumes "follows s HO a" and "last (se_out s) = NodeDown_StartRun m"
    and "0 < uint (sr_IterationRateQuota m)" and "uint (sr_IterationRateQuota m) < int (length (an_workers a))"
  shows "\<exists>w \<in> snd ` set (an_workers a). \<forall>E e. builds E (an_mem (agent_rebalance HO a) w) e \<longrightarrow> en_limiter e = None"
proof -
  obtain ref where run: "an_run a = Some (new_runState ref m)" using assms(1,2) by (auto simp: follows_def)
  have reg: "registry_ok (an_mem a) (an_workers a)" "orders (ho_sessions HO)" "an_workers a \<noteq> []" "length (an_workers a) < 2 ^ 30"
    and room: "\<And>w. w \<in> snd ` set (an_workers a) \<Longrightarrow> has_room (an_mem a w)" using assms(1) by (auto simp: follows_def)
  define ss where "ss = by_ID (an_mem a) (registry_All (ho_sessions HO) (an_workers a))"
  define ws :: "int list" where "ws = replicate (length ss) 1"
  define q where "q = uint (sr_IterationRateQuota m)"
  note ord = workers_in_order[OF reg(1,2) ss_def]
  have q: "0 < q" "q < int (length ws)" using assms(3,4) ord(3) by (simp_all add: q_def ws_def)
  have "fits q ws" unfolding ws_def
    using fits_equal[of q "length ss"] q reg(3,4) ord(3) uint_lt2p[of "sr_IterationRateQuota m"] by (auto simp: q_def)
  then obtain k where k: "k < length ss" "Largest q ws ! k = 0" using some_share_zero[of q ws] q by (auto simp: ws_def)
  have w: "ss ! k \<in> snd ` set (an_workers a)" using ord(2) k nth_mem by blast
  obtain vus iters where c: "an_mem (agent_rebalance HO a) (ss ! k) =
      deliver (NodeDown_StartRun (worker_start (new_runState ref m) k vus 0 iters)) (an_mem a (ss ! k))"
    using agent_rebalance_spec[OF reg(1,2) run reg(3) ss_def ws_def] k
    by (auto simp: worker_command_def new_runState_def q_def)
  have l: "last (se_out (an_mem (agent_rebalance HO a) (ss ! k))) = NodeDown_StartRun (worker_start (new_runState ref m) k vus 0 iters)"
    unfolding c by (rule last_deliver[OF room[OF w]])
  have "en_limiter e = None" if b: "builds E (an_mem (agent_rebalance HO a) (ss ! k)) e" for E and e :: "'a Engine"
    by (rule builds_engine[OF b l])
      (auto simp: engine_New_def engine_config_def worker_start_def split: option.splits if_splits sum.splits)
  then show ?thesis using w by blast
qed

subsection \<open>A small fleet\<close>

lemma demo_peak: "TargetAt demo_platform (Ramping demo_ramp) 10 = Peak (Ramping demo_ramp)"
  using ramp_leg_value[OF demo_ramp_ok, of "[]" "\<lparr>leg_end = 10, leg_target = 100\<rparr>" "\<lparr>leg_end = 20, leg_target = 20\<rparr>" "[]" 10 demo_platform]
  by (simp add: demo_ramp_def interpolate_start vu_range_def)

lemma demo_builds:
  assumes "last (se_out s) = NodeDown_StartRun m" "sr_Plan m = demo_load_plan"
  shows "\<exists>e :: unit Engine. builds demo_process_env s e"
proof -
  have y: "tp_config_yaml demo_load_plan = []" "tp_base_url demo_load_plan = []" by (simp_all add: demo_load_plan_def demo_plan_def)
  have "resolveScenarios [(''browse'', demo_scenario)] [] = Inr ([\<lparr>g_scenario = demo_scenario, g_weight = 1, g_vus = []\<rparr>], [1])"
    by (simp add: resolveScenarios_def scenario_Lookup_def Names_def sort_by_def)
  then obtain e :: "unit Engine" where "engine_New (\<lambda>_. 0) (engine_config demo_load_plan [(''browse'', demo_scenario)] m) = Inr e"
    by (simp add: engine_New_def engine_config_def demo_load_plan_def demo_plan_def demo_NewExecutor)
  moreover obtain r :: "unit recorder" where "NewRecorder 1 worker_recorder_config = Some r" using worker_recorder_New by blast
  moreover obtain w :: "(unit, unit) Worker" where "wf_Registry (wk_cfg w) = Some [(''browse'', demo_scenario)]"
    using that[of "undefined\<lparr>wk_cfg := undefined\<lparr>wf_Registry := Some [(''browse'', demo_scenario)]\<rparr>\<rparr>"] by simp
  ultimately have "\<exists>run. worker_build demo_process_env w (Some (sr_Plan m)) m = Inr run \<and> ar_engine run = e"
    by (simp add: worker_build_def demo_process_env_def scenario_Clone_def assms(2) demo_build[OF y])
  then show ?thesis using assms(1) unfolding builds_def by blast
qed

lemma demo_room: "has_room demo_session" "has_room (demo_worker_mem w)"
  by (simp_all add: has_room_def demo_worker_mem_def demo_worker_def)

lemma demo_follows:
  "last (se_out s) = NodeDown_StartRun m \<Longrightarrow> follows s demo_host (demo_agent\<lparr>an_run := Some (new_runState 0 m)\<rparr>)"
  using demo_agent_registry demo_room by (auto simp: follows_def demo_agent_def demo_host_def orders_def)

theorem small_rate_unlimited_witness:
  "\<exists>w \<in> {0, 1, 2}. \<forall>E (e :: unit Engine). builds E (an_mem (agent_rebalance demo_host
     (demo_agent\<lparr>an_run := Some (new_runState 0 (demo_start\<lparr>sr_IterationRateQuota := 1\<rparr>))\<rparr>)) w) e \<longrightarrow> en_limiter e = None"
proof -
  let ?m = "demo_start\<lparr>sr_IterationRateQuota := 1\<rparr>" and ?s = "demo_session\<lparr>se_out := [NodeDown_StartRun (demo_start\<lparr>sr_IterationRateQuota := 1\<rparr>)]\<rparr>"
  have "last (se_out ?s) = NodeDown_StartRun ?m" by simp
  from small_rate_unlimited[OF demo_follows[OF this] this] show ?thesis by (simp add: demo_agent_def insert_commute)
qed

theorem fleet_meets_peak_witness:
  "\<exists>a (eng :: sref \<Rightarrow> unit Engine). follows (co_mem demo_running 0) demo_host a \<and> length (an_workers a) = 3 \<and>
    (\<Sum>w\<leftarrow>[0, 1, 2]. scaled_TargetAt demo_platform (en_executor (eng w)) 10) = 100"
proof -
  have ex: "NewExecutor (tp_load demo_load_plan) = Inr (Ramping demo_ramp)" by (simp add: demo_load_plan_def demo_NewExecutor)
  obtain m where m: "sr_Plan m = demo_load_plan" "co_mem demo_running 0 = deliver (NodeDown_StartRun m) (co_mem demo_joined 0)"
    by (rule StartRun_hands_out[OF demo_steps(1)[unfolded demo_coord_def] demo_healthy(2) demo_StartRun(1) ex refl refl])
      (auto simp: demo_healthy by_ID_def sort_by_def)
  define a where "a = demo_agent\<lparr>an_run := Some (new_runState 0 m)\<rparr>"
  have a: "an_mem a = demo_worker_mem" "an_workers a = [(''a'', 0), (''b'', 1), (''c'', 2)]" "an_run a = Some (new_runState 0 m)"
    by (simp_all add: a_def demo_agent_def)
  have h: "orders (ho_sessions demo_host)" "registry_All (ho_sessions demo_host) (an_workers a) = [0, 1, 2]"
    by (simp_all add: a demo_host_def orders_def registry_All_def)
  have f: "follows (co_mem demo_running 0) demo_host a"
    unfolding a_def by (rule demo_follows) (simp add: m(2) last_deliver demo_joined_facts demo_room)
  note reg = demo_agent_registry[folded a(1,2)]
  have "\<exists>e :: unit Engine. builds demo_process_env (an_mem (agent_rebalance demo_host a) w) e" if "w \<in> snd ` set (an_workers a)" for w
  proof -
    let ?ss = "by_ID (an_mem a) (registry_All (ho_sessions demo_host) (an_workers a))"
    have "w \<in> set ?ss" using that workers_in_order(2)[OF reg h(1) refl] by simp
    then obtain k where k: "k < length ?ss" "w = ?ss ! k" by (auto simp: in_set_conv_nth)
    obtain m' where "an_mem (agent_rebalance demo_host a) w = deliver (NodeDown_StartRun m') (an_mem a w)" "sr_Plan m' = demo_load_plan"
      using agent_rebalance_spec[OF reg h(1) a(3) _ refl refl] k m(1) by (auto simp: a(2) worker_command_def new_runState_def worker_start_def)
    then show ?thesis using demo_builds[of _ m'] last_deliver[of "an_mem a w"] demo_room(2)[of w] a(1) by metis
  qed
  then obtain eng :: "sref \<Rightarrow> unit Engine" where eng: "\<And>w. w \<in> snd ` set (an_workers a) \<Longrightarrow> builds demo_process_env (an_mem (agent_rebalance demo_host a) w) (eng w)"
    by metis
  have "(\<Sum>s\<leftarrow>healthySessions demo_runtime demo_joined. \<Sum>w\<leftarrow>registry_All (ho_sessions demo_host) (an_workers a).
      scaled_TargetAt demo_platform (en_executor (eng w)) 10) = Peak (Ramping demo_ramp)"
    by (rule fleet_meets_peak[where HO = "\<lambda>_. demo_host" and agent = "\<lambda>_. a" and eng = "\<lambda>_. eng" and E = "\<lambda>_ _. demo_process_env",
        OF demo_steps(1)[unfolded demo_coord_def] demo_healthy(2) demo_StartRun(1) ex demo_fits _ eng demo_peak])
      (use f demo_room(1) in \<open>auto simp: demo_healthy demo_joined_facts\<close>)
  then have "(\<Sum>w\<leftarrow>[0, 1, 2]. scaled_TargetAt demo_platform (en_executor (eng w)) 10) = 100"
    by (simp add: demo_healthy h demo_ramp_def)
  then show ?thesis using f a(2) by (intro exI[of _ a] exI[of _ eng]) simp
qed

end
